(* ===== verification/Prelude.thy ===== *)
theory Prelude
  imports Main "HOL-Library.List_Lexorder" "HOL-Library.Char_ord"
    "HOL-Library.Product_Lexorder" "HOL-Library.Sublist" "HOL-Library.AList"
begin

text \<open>
  What every component shares: the Go values the program is made of and the parts of Go's
  standard library it calls.  A Go \<open>string\<close> is a \<open>string\<close> of bytes, ordered as
  \<open>strings.Compare\<close> orders it (bytewise, lexicographically); a \<open>time.Time\<close> is the
  number of nanoseconds since the zero time, so that \<open>IsZero\<close> is being \<open>0\<close>; a Go map
  is an association list with distinct keys, whose order is the order an iteration happens to
  take; an \<open>error\<close> is a value of a sum.  The functions below model the functions of
  package \<open>strings\<close> and \<open>slices\<close> that the source calls.
\<close>

named_theorems str_simps \<open>facts about the functions of package strings\<close>
named_theorems map_simps \<open>facts about Go maps as association lists\<close>

type_synonym digest = string
type_synonym time = int
type_synonym duration = int
type_synonym ('k, 'v) gomap = "('k \<times> 'v) list"

section \<open>Package strings\<close>

text \<open>\<open>strings.Split(s, c)\<close> for a separator of one byte: never the empty list.\<close>

fun split_on :: "char \<Rightarrow> string \<Rightarrow> string list" where
  "split_on c [] = [[]]"
| "split_on c (x # xs) =
     (if x = c then [] # split_on c xs
      else (case split_on c xs of [] \<Rightarrow> [[x]] | w # ws \<Rightarrow> (x # w) # ws))"

text \<open>\<open>strings.Join(xs, sep)\<close>.\<close>

fun join_with :: "string \<Rightarrow> string list \<Rightarrow> string" where
  "join_with sep [] = []"
| "join_with sep [x] = x"
| "join_with sep (x # xs) = x @ sep @ join_with sep xs"

text \<open>\<open>strings.Index(s, p)\<close>: where \<open>p\<close> is first found, or \<open>None\<close> for \<open>-1\<close>.\<close>

fun index_of :: "string \<Rightarrow> string \<Rightarrow> nat option" where
  "index_of p [] = (if p = [] then Some 0 else None)"
| "index_of p (x # xs) =
     (if prefix p (x # xs) then Some 0 else map_option Suc (index_of p xs))"

text \<open>\<open>strings.IndexByte\<close> and \<open>strings.LastIndexByte\<close>.\<close>

fun index_byte :: "char \<Rightarrow> string \<Rightarrow> nat option" where
  "index_byte c [] = None"
| "index_byte c (x # xs) = (if x = c then Some 0 else map_option Suc (index_byte c xs))"

definition last_index_byte :: "char \<Rightarrow> string \<Rightarrow> nat option" where
  "last_index_byte c s = map_option (\<lambda>i. length s - 1 - i) (index_byte c (rev s))"

text \<open>\<open>strings.Contains\<close>.\<close>

definition contains :: "string \<Rightarrow> string \<Rightarrow> bool" where
  "contains s p = (index_of p s \<noteq> None)"

text \<open>\<open>strings.Cut(s, c)\<close> for a separator of one byte: before, after, and whether it was found.\<close>

fun cut :: "char \<Rightarrow> string \<Rightarrow> string \<times> string \<times> bool" where
  "cut c [] = ([], [], False)"
| "cut c (x # xs) =
     (if x = c then ([], xs, True) else (case cut c xs of (a, b, f) \<Rightarrow> (x # a, b, f)))"

text \<open>\<open>strings.TrimPrefix\<close>, \<open>strings.TrimSuffix\<close> and \<open>strings.CutPrefix\<close>.\<close>

definition trim_prefix :: "string \<Rightarrow> string \<Rightarrow> string" where
  "trim_prefix s p = (if prefix p s then drop (length p) s else s)"

definition trim_suffix :: "string \<Rightarrow> string \<Rightarrow> string" where
  "trim_suffix s p = (if suffix p s then take (length s - length p) s else s)"

definition cut_prefix :: "string \<Rightarrow> string \<Rightarrow> string option" where
  "cut_prefix s p = (if prefix p s then Some (drop (length p) s) else None)"

text \<open>
  \<open>strings.TrimSpace\<close> and \<open>strings.Fields\<close> on ASCII: the white space is the six ASCII space
  characters.
\<close>

definition is_space :: "char \<Rightarrow> bool" where
  "is_space c = (c \<in> {CHR 0x09, CHR 0x0A, CHR 0x0B, CHR 0x0C, CHR 0x0D, CHR '' ''})"

definition trim_space :: "string \<Rightarrow> string" where
  "trim_space s = rev (dropWhile is_space (rev (dropWhile is_space s)))"

fun fields_acc :: "string \<Rightarrow> string \<Rightarrow> string list" where
  "fields_acc w [] = (if w = [] then [] else [rev w])"
| "fields_acc w (c # cs) =
     (if is_space c then (if w = [] then fields_acc [] cs else rev w # fields_acc [] cs)
      else fields_acc (c # w) cs)"

definition fields :: "string \<Rightarrow> string list" where
  "fields s = fields_acc [] s"

text \<open>\<open>strings.ToLower\<close> on ASCII.\<close>

definition to_lower_char :: "char \<Rightarrow> char" where
  "to_lower_char c = (if CHR ''A'' \<le> c \<and> c \<le> CHR ''Z'' then char_of (of_char c + 32 :: nat) else c)"

definition to_lower :: "string \<Rightarrow> string" where
  "to_lower s = map to_lower_char s"

lemma split_on_not_Nil [simp]: "split_on c s \<noteq> []"
  by (induction s) (auto split: list.splits)

lemma split_on_Cons_other:
  "x \<noteq> c \<Longrightarrow> split_on c (x # xs) = (x # hd (split_on c xs)) # tl (split_on c xs)"
  by (auto split: list.splits)

lemma join_split_on [str_simps]: "join_with [c] (split_on c s) = s"
proof (induction s)
  case Nil
  then show ?case by simp
next
  case (Cons x xs)
  obtain w ws where w: "split_on c xs = w # ws"
    by (cases "split_on c xs") auto
  then show ?case using Cons by (cases ws) auto
qed

lemma split_on_no_sep: "c \<notin> set s \<Longrightarrow> split_on c s = [s]"
  by (induction s) (auto split: list.splits)

lemma split_on_append_sep [str_simps]:
  "c \<notin> set s \<Longrightarrow> split_on c (s @ c # t) = s # split_on c t"
  by (induction s) auto

lemma split_on_join [str_simps]:
  "xs \<noteq> [] \<Longrightarrow> \<forall>x \<in> set xs. c \<notin> set x \<Longrightarrow> split_on c (join_with [c] xs) = xs"
proof (induction "[c]" xs rule: join_with.induct)
  case 1
  then show ?case by simp
next
  case (2 x)
  then show ?case by (simp add: split_on_no_sep)
next
  case (3 x y zs)
  then show ?case by (simp add: split_on_append_sep)
qed

lemma split_on_seg_no_sep: "w \<in> set (split_on c s) \<Longrightarrow> c \<notin> set w"
proof (induction s arbitrary: w)
  case Nil
  then show ?case by simp
next
  case (Cons x xs)
  then show ?case
    by (cases "split_on c xs") (auto split: if_splits)
qed

lemma split_on_append:
  "split_on c (s @ c # t) = split_on c s @ split_on c t"
  by (induction s) (auto split: list.splits simp: Cons_eq_append_conv)

lemma join_with_append:
  "xs \<noteq> [] \<Longrightarrow> ys \<noteq> [] \<Longrightarrow>
     join_with sep (xs @ ys) = join_with sep xs @ sep @ join_with sep ys"
  by (induction sep xs rule: join_with.induct) (auto simp: neq_Nil_conv)

lemma set_split_on_sub: "w \<in> set (split_on c s) \<Longrightarrow> set w \<subseteq> set s"
proof (induction s arbitrary: w)
  case Nil
  then show ?case by simp
next
  case (Cons x xs)
  then show ?case by (cases "split_on c xs") (fastforce split: if_splits)+
qed

subsection \<open>Searching\<close>

lemma index_of_Some:
  "index_of p s = Some i \<Longrightarrow> i \<le> length s \<and> prefix p (drop i s)"
  by (induction p s arbitrary: i rule: index_of.induct) (auto split: if_splits)

lemma index_of_least:
  "index_of p s = Some i \<Longrightarrow> prefix p (drop j s) \<Longrightarrow> j \<le> length s \<Longrightarrow> i \<le> j"
proof (induction p s arbitrary: i j rule: index_of.induct)
  case (1 p)
  then show ?case by (auto split: if_splits)
next
  case (2 p x xs)
  then show ?case by (cases j) (auto split: if_splits)
qed

lemma index_of_None:
  "index_of p s = None \<longleftrightarrow> (\<forall>j \<le> length s. \<not> prefix p (drop j s))"
proof (induction p s rule: index_of.induct)
  case (1 p)
  then show ?case by auto
next
  case (2 p x xs)
  show ?case
  proof (cases "prefix p (x # xs)")
    case True
    then show ?thesis by (auto intro!: exI [of _ 0])
  next
    case False
    have "(\<forall>j \<le> length (x # xs). \<not> prefix p (drop j (x # xs)))
        \<longleftrightarrow> (\<forall>j \<le> length xs. \<not> prefix p (drop j xs))"
    proof
      assume "\<forall>j \<le> length (x # xs). \<not> prefix p (drop j (x # xs))"
      then have "\<not> prefix p (drop (Suc j) (x # xs))" if "j \<le> length xs" for j
        using that by (metis Suc_le_mono length_Cons)
      then show "\<forall>j \<le> length xs. \<not> prefix p (drop j xs)" by simp
    next
      assume a: "\<forall>j \<le> length xs. \<not> prefix p (drop j xs)"
      show "\<forall>j \<le> length (x # xs). \<not> prefix p (drop j (x # xs))"
      proof (intro allI impI)
        fix j assume "j \<le> length (x # xs)"
        then show "\<not> prefix p (drop j (x # xs))" using a False by (cases j) auto
      qed
    qed
    then show ?thesis using 2 False by simp
  qed
qed

lemma contains_iff: "contains s p \<longleftrightarrow> (\<exists>a b. s = a @ p @ b)"
proof
  assume "contains s p"
  then obtain i where "index_of p s = Some i" by (auto simp: contains_def)
  then have "i \<le> length s" "prefix p (drop i s)" by (auto dest: index_of_Some)
  then show "\<exists>a b. s = a @ p @ b"
    by (metis append_take_drop_id prefixE)
next
  assume "\<exists>a b. s = a @ p @ b"
  then obtain a b where s: "s = a @ p @ b" by blast
  then have "prefix p (drop (length a) s)" "length a \<le> length s" by auto
  then show "contains s p" unfolding contains_def using index_of_None by blast
qed

lemma index_byte_Some:
  "index_byte c s = Some i \<longleftrightarrow> i < length s \<and> s ! i = c \<and> c \<notin> set (take i s)"
proof (induction s arbitrary: i)
  case Nil
  then show ?case by simp
next
  case (Cons x xs)
  then show ?case by (cases i) auto
qed

lemma index_byte_None: "index_byte c s = None \<longleftrightarrow> c \<notin> set s"
  by (induction s) auto

lemma index_byte_append: "c \<notin> set a \<Longrightarrow> index_byte c (a @ c # b) = Some (length a)"
  by (induction a) auto

lemma last_index_byte_append:
  "c \<notin> set b \<Longrightarrow> last_index_byte c (a @ c # b) = Some (length a)"
  by (simp add: last_index_byte_def index_byte_append)

lemma last_index_byte_None [simp]: "last_index_byte c s = None \<longleftrightarrow> c \<notin> set s"
  by (simp add: last_index_byte_def index_byte_None)

lemma cut_found: "c \<notin> set a \<Longrightarrow> cut c (a @ c # b) = (a, b, True)"
  by (induction a) auto

lemma cut_not_found: "c \<notin> set a \<Longrightarrow> cut c a = (a, [], False)"
  by (induction a) auto

lemma cut_True: "cut c s = (a, b, True) \<Longrightarrow> s = a @ c # b \<and> c \<notin> set a"
  by (induction s arbitrary: a) (auto split: if_splits prod.splits)

lemma cut_False: "cut c s = (a, b, False) \<Longrightarrow> a = s \<and> b = [] \<and> c \<notin> set s"
  by (induction s arbitrary: a) (auto split: if_splits prod.splits)

lemma trim_prefix_append [simp]: "trim_prefix (p @ s) p = s"
  by (simp add: trim_prefix_def)

lemma cut_prefix_Some: "cut_prefix s p = Some r \<longleftrightarrow> s = p @ r"
  by (auto simp: cut_prefix_def prefix_def)

lemma trim_space_id:
  "s = [] \<or> (\<not> is_space (hd s) \<and> \<not> is_space (last s)) \<Longrightarrow> trim_space s = s"
proof (cases s rule: rev_cases)
  case (snoc ys y)
  assume "s = [] \<or> (\<not> is_space (hd s) \<and> \<not> is_space (last s))"
  with snoc have "dropWhile is_space s = s" "\<not> is_space y"
    by (simp_all add: dropWhile_eq_self_iff)
  with snoc show ?thesis by (simp add: trim_space_def)
qed (simp add: trim_space_def)

section \<open>Go maps\<close>

text \<open>
  \<open>m[k] = v\<close> is \<open>AList.update\<close>, \<open>delete(m, k)\<close> is \<open>AList.delete\<close>, and a lookup is
  \<open>map_of\<close>.  A map holds a key once.
\<close>

definition wf_map :: "('k, 'v) gomap \<Rightarrow> bool" where
  "wf_map m = distinct (map fst m)"

lemma wf_map_Nil [simp, intro]: "wf_map []"
  by (simp add: wf_map_def)

lemma wf_map_update [simp, intro]: "wf_map m \<Longrightarrow> wf_map (AList.update k v m)"
  by (simp add: wf_map_def distinct_update)

lemma wf_map_delete [simp, intro]: "wf_map m \<Longrightarrow> wf_map (AList.delete k m)"
  by (simp add: wf_map_def distinct_delete)

lemma map_of_AList_update [simp, map_simps]:
  "map_of (AList.update k v m) k' = (if k' = k then Some v else map_of m k')"
  by (simp add: update_conv')

lemma map_of_AList_delete [simp, map_simps]:
  "map_of (AList.delete k m) k' = (if k' = k then None else map_of m k')"
  by (simp add: delete_conv')

lemma wf_map_in_set: "wf_map m \<Longrightarrow> (k, v) \<in> set m \<longleftrightarrow> map_of m k = Some v"
  by (simp add: wf_map_def)

lemma wf_map_distinct: "wf_map m \<Longrightarrow> distinct m"
  by (simp add: wf_map_def distinct_map)

lemma set_AList_update:
  "wf_map m \<Longrightarrow> set (AList.update k v m) = insert (k, v) {(k', v') \<in> set m. k' \<noteq> k}"
  by (auto simp: wf_map_in_set split: if_splits)

lemma set_AList_delete:
  "wf_map m \<Longrightarrow> set (AList.delete k m) = {(k', v') \<in> set m. k' \<noteq> k}"
  by (auto simp: wf_map_in_set split: if_splits)

text \<open>A map of maps: the entry for a missing outer key is the empty map.\<close>

definition inner :: "('a, ('k, 'v) gomap) gomap \<Rightarrow> 'a \<Rightarrow> ('k, 'v) gomap" where
  "inner m a = (case map_of m a of None \<Rightarrow> [] | Some x \<Rightarrow> x)"

lemma inner_update [simp, map_simps]:
  "inner (AList.update a x m) b = (if b = a then x else inner m b)"
  by (simp add: inner_def)

lemma inner_delete [simp, map_simps]:
  "inner (AList.delete a m) b = (if b = a then [] else inner m b)"
  by (simp add: inner_def)

lemma inner_Nil [simp]: "inner [] a = []"
  by (simp add: inner_def)

section \<open>Package slices\<close>

text \<open>\<open>slices.SortFunc\<close> by a key: with distinct keys the order it gives is the only one.\<close>

lemma sorted_sort_key: "sorted (map f (sort_key f xs))"
  by simp

text \<open>\<open>slices.BinarySearchFunc\<close>: the loop over \<open>[i, j)\<close> that halves the interval.\<close>

function bsearch :: "('a \<Rightarrow> bool) \<Rightarrow> 'a list \<Rightarrow> nat \<Rightarrow> nat \<Rightarrow> nat" where
  "bsearch below xs i j =
     (if i < j then
        (let h = (i + j) div 2 in
         if below (xs ! h) then bsearch below xs (Suc h) j else bsearch below xs i h)
      else i)"
  by pat_completeness auto
termination
  by (relation "measure (\<lambda>(b, xs, i, j). j - i)") auto

declare bsearch.simps [simp del]

text \<open>
  Where \<open>below\<close> holds of a prefix only, the search answers the length of that prefix.
\<close>

lemma bsearch_prefix:
  assumes "i \<le> j" "j \<le> length xs" "i \<le> n" "n \<le> j"
    and "\<And>k. k < length xs \<Longrightarrow> below (xs ! k) \<longleftrightarrow> k < n"
  shows "bsearch below xs i j = n"
  using assms(1-4)
proof (induction "j - i" arbitrary: i j rule: less_induct)
  case less
  show ?case
  proof (cases "i < j")
    case False
    with less.prems show ?thesis by (subst bsearch.simps) simp
  next
    case True
    define h where "h = (i + j) div 2"
    have h: "i \<le> h" "h < j" using True by (auto simp: h_def)
    have eq: "bsearch below xs i j =
        (if below (xs ! h) then bsearch below xs (Suc h) j else bsearch below xs i h)"
      using True by (subst bsearch.simps) (simp add: h_def Let_def)
    have "below (xs ! h) \<longleftrightarrow> h < n" using assms(5) h less.prems by simp
    then show ?thesis
      using h less.prems less.hyps [of j "Suc h"] less.hyps [of h i] by (auto simp: eq)
  qed
qed

lemma filter_sorted_prefix:
  fixes f :: "'a \<Rightarrow> 'b::linorder"
  assumes "sorted (map f xs)" "k < length xs"
  shows "f (xs ! k) < a \<longleftrightarrow> k < length (takeWhile (\<lambda>x. f x < a) xs)"
proof
  assume "k < length (takeWhile (\<lambda>x. f x < a) xs)"
  then show "f (xs ! k) < a"
    by (metis (no_types, lifting) nth_mem set_takeWhileD takeWhile_nth)
next
  assume lt: "f (xs ! k) < a"
  show "k < length (takeWhile (\<lambda>x. f x < a) xs)"
  proof (rule ccontr)
    let ?n = "length (takeWhile (\<lambda>x. f x < a) xs)"
    assume "\<not> k < ?n"
    then have "?n \<le> k" by simp
    moreover from this assms have "?n < length xs" by simp
    moreover from this have "\<not> f (xs ! ?n) < a" by (rule nth_length_takeWhile)
    moreover have "f (xs ! ?n) \<le> f (xs ! k)"
      using assms \<open>?n \<le> k\<close> sorted_nth_mono [of "map f xs" ?n k] by simp
    ultimately show False using lt by simp
  qed
qed

lemma bsearch_sorted:
  fixes f :: "'a \<Rightarrow> 'b::linorder"
  assumes "sorted (map f xs)"
  shows "bsearch (\<lambda>x. f x < a) xs 0 (length xs) = length (takeWhile (\<lambda>x. f x < a) xs)"
  by (rule bsearch_prefix) (auto simp: filter_sorted_prefix [OF assms] length_takeWhile_le)

text \<open>\<open>slices.DeleteFunc\<close> keeps what the predicate does not hold of.\<close>

definition delete_func :: "('a \<Rightarrow> bool) \<Rightarrow> 'a list \<Rightarrow> 'a list" where
  "delete_func p xs = filter (\<lambda>x. \<not> p x) xs"

text \<open>\<open>slices.Chunk(xs, n)\<close>, for \<open>n\<close> at least one.\<close>

function chunks :: "nat \<Rightarrow> 'a list \<Rightarrow> 'a list list" where
  "chunks n xs = (if n = 0 \<or> xs = [] then [] else take n xs # chunks n (drop n xs))"
  by pat_completeness auto
termination
  by (relation "measure (\<lambda>(n, xs). length xs)") (auto simp: length_greater_0_conv)

declare chunks.simps [simp del]

lemma concat_chunks: "0 < n \<Longrightarrow> concat (chunks n xs) = xs"
  by (induction n xs rule: chunks.induct) (subst chunks.simps, auto)

section \<open>Results\<close>

text \<open>A value or an error: \<open>Inl\<close> is Go's non-nil error.\<close>

definition is_ok :: "'e + 'a \<Rightarrow> bool" where
  "is_ok r = (case r of Inl _ \<Rightarrow> False | Inr _ \<Rightarrow> True)"

lemma is_ok_simps [simp]: "is_ok (Inr a)" "\<not> is_ok (Inl e)"
  by (simp_all add: is_ok_def)

lemma is_ok_iff: "is_ok r \<longleftrightarrow> (\<exists>a. r = Inr a)"
  by (cases r) simp_all

end
