(* ===== verification/Regex.thy ===== *)
theory Regex
  imports Prelude
begin

text \<open>
  The regular expressions of package \<open>regexp\<close> that the source writes down: character
  classes as lists of ranges, sequence, alternative and repetition, all anchored at both ends.
  \<open>rmatch\<close> is the language of an expression, and \<open>accepts\<close> an executable matcher by
  derivatives; \<open>accepts_iff\<close> shows that they agree.
\<close>

datatype rexp =
    RNone
  | REps
  | RClass "(char \<times> char) list"
  | RSeq rexp rexp
  | RAlt rexp rexp
  | RStar rexp

definition RPlus :: "rexp \<Rightarrow> rexp" where
  "RPlus r = RSeq r (RStar r)"

definition RChar :: "char \<Rightarrow> rexp" where
  "RChar c = RClass [(c, c)]"

fun RStr :: "string \<Rightarrow> rexp" where
  "RStr [] = REps"
| "RStr (c # cs) = RSeq (RChar c) (RStr cs)"

text \<open>\<open>r{0,n}\<close>: at most \<open>n\<close> times.\<close>

fun RUpTo :: "nat \<Rightarrow> rexp \<Rightarrow> rexp" where
  "RUpTo 0 r = REps"
| "RUpTo (Suc n) r = RAlt REps (RSeq r (RUpTo n r))"

definition in_class :: "(char \<times> char) list \<Rightarrow> char \<Rightarrow> bool" where
  "in_class rs c = (\<exists>(a, b) \<in> set rs. a \<le> c \<and> c \<le> b)"

section \<open>The language of an expression\<close>

inductive rmatch :: "rexp \<Rightarrow> string \<Rightarrow> bool" where
  rm_eps: "rmatch REps []"
| rm_class: "in_class rs c \<Longrightarrow> rmatch (RClass rs) [c]"
| rm_seq: "rmatch r a \<Longrightarrow> rmatch s b \<Longrightarrow> rmatch (RSeq r s) (a @ b)"
| rm_alt1: "rmatch r a \<Longrightarrow> rmatch (RAlt r s) a"
| rm_alt2: "rmatch s a \<Longrightarrow> rmatch (RAlt r s) a"
| rm_star0: "rmatch (RStar r) []"
| rm_star: "rmatch r a \<Longrightarrow> rmatch (RStar r) b \<Longrightarrow> rmatch (RStar r) (a @ b)"

inductive_simps rmatch_RNone [simp]: "rmatch RNone s"
inductive_simps rmatch_REps [simp]: "rmatch REps s"
inductive_simps rmatch_RClass [simp]: "rmatch (RClass rs) s"
inductive_simps rmatch_RSeq: "rmatch (RSeq r1 r2) s"
inductive_simps rmatch_RAlt [simp]: "rmatch (RAlt r1 r2) s"
inductive_cases rmatch_RStarE: "rmatch (RStar r) s"

lemma rmatch_RStar_concat:
  "rmatch (RStar r) s \<longleftrightarrow> (\<exists>ws. s = concat ws \<and> (\<forall>w \<in> set ws. rmatch r w))"
proof
  assume "rmatch (RStar r) s"
  then show "\<exists>ws. s = concat ws \<and> (\<forall>w \<in> set ws. rmatch r w)"
  proof (induction "RStar r" s rule: rmatch.induct)
    case rm_star0
    show ?case by (rule exI [of _ "[]"]) simp
  next
    case (rm_star a b)
    then obtain ws where "b = concat ws" "\<forall>w \<in> set ws. rmatch r w" by blast
    then show ?case using rm_star.hyps(1) by (intro exI [of _ "a # ws"]) simp
  qed
next
  assume "\<exists>ws. s = concat ws \<and> (\<forall>w \<in> set ws. rmatch r w)"
  then obtain ws where "s = concat ws" "\<forall>w \<in> set ws. rmatch r w" by blast
  then show "rmatch (RStar r) s"
    by (induction ws arbitrary: s) (auto intro: rmatch.intros)
qed

text \<open>A match of \<open>r*\<close> that is not empty starts with a match of \<open>r\<close> that is not empty.\<close>

lemma rmatch_RStar_Cons:
  "rmatch (RStar r) (c # s) \<longleftrightarrow>
     (\<exists>a b. s = a @ b \<and> rmatch r (c # a) \<and> rmatch (RStar r) b)"
proof
  assume "rmatch (RStar r) (c # s)"
  then show "\<exists>a b. s = a @ b \<and> rmatch r (c # a) \<and> rmatch (RStar r) b"
  proof (induction "RStar r" "c # s" rule: rmatch.induct)
    case (rm_star a b)
    then show ?case by (cases a) auto
  qed
next
  assume "\<exists>a b. s = a @ b \<and> rmatch r (c # a) \<and> rmatch (RStar r) b"
  then show "rmatch (RStar r) (c # s)"
    using rm_star by fastforce
qed

lemma rmatch_RPlus: "rmatch r s \<Longrightarrow> rmatch (RPlus r) s"
  using rm_seq [OF _ rm_star0] by (fastforce simp: RPlus_def)

lemma rmatch_RSeq_class:
  "rmatch (RSeq (RClass rs) r) s \<longleftrightarrow> (\<exists>c t. s = c # t \<and> in_class rs c \<and> rmatch r t)"
proof
  assume "rmatch (RSeq (RClass rs) r) s"
  then obtain a b where "s = a @ b" "rmatch (RClass rs) a" "rmatch r b"
    by (auto simp: rmatch_RSeq)
  then show "\<exists>c t. s = c # t \<and> in_class rs c \<and> rmatch r t" by auto
next
  assume "\<exists>c t. s = c # t \<and> in_class rs c \<and> rmatch r t"
  then obtain c t where "s = [c] @ t" "in_class rs c" "rmatch r t" by auto
  then show "rmatch (RSeq (RClass rs) r) s" by (metis rm_seq rm_class)
qed

lemma in_class_single [simp]: "in_class [(a, a)] c \<longleftrightarrow> c = a"
  by (auto simp only: in_class_def list.set insert_iff empty_iff bex_simps prod.case order.antisym
      order_refl Bex_def)

lemma in_class_Nil [simp]: "\<not> in_class [] c"
  by (simp add: in_class_def)

lemma in_class_Cons: "in_class ((a, b) # rs) c \<longleftrightarrow> in_class [(a, b)] c \<or> in_class rs c"
  by (simp add: in_class_def)

lemma in_class_append [simp]: "in_class (a @ b) c \<longleftrightarrow> in_class a c \<or> in_class b c"
  by (auto simp: in_class_def)

lemma rmatch_RStr [simp]: "rmatch (RStr w) s \<longleftrightarrow> s = w"
  by (induction w arbitrary: s) (auto simp: RChar_def rmatch_RSeq_class)

text \<open>Every character of a match of \<open>r\<close> is in one of the classes of \<open>r\<close>.\<close>

fun chars_of :: "rexp \<Rightarrow> (char \<times> char) list" where
  "chars_of RNone = []"
| "chars_of REps = []"
| "chars_of (RClass rs) = rs"
| "chars_of (RSeq r s) = chars_of r @ chars_of s"
| "chars_of (RAlt r s) = chars_of r @ chars_of s"
| "chars_of (RStar r) = chars_of r"

lemma rmatch_chars: "rmatch r s \<Longrightarrow> c \<in> set s \<Longrightarrow> in_class (chars_of r) c"
  by (induction rule: rmatch.induct) auto

section \<open>The matcher\<close>

fun nullable :: "rexp \<Rightarrow> bool" where
  "nullable RNone = False"
| "nullable REps = True"
| "nullable (RClass rs) = False"
| "nullable (RSeq r s) = (nullable r \<and> nullable s)"
| "nullable (RAlt r s) = (nullable r \<or> nullable s)"
| "nullable (RStar r) = True"

text \<open>Sequence and alternative that keep the derivatives small.\<close>

fun mk_seq :: "rexp \<Rightarrow> rexp \<Rightarrow> rexp" where
  "mk_seq RNone s = RNone"
| "mk_seq REps s = s"
| "mk_seq r s = RSeq r s"

fun mk_alt :: "rexp \<Rightarrow> rexp \<Rightarrow> rexp" where
  "mk_alt RNone s = s"
| "mk_alt r RNone = r"
| "mk_alt r s = (if r = s then r else RAlt r s)"

fun derivative :: "char \<Rightarrow> rexp \<Rightarrow> rexp" where
  "derivative c RNone = RNone"
| "derivative c REps = RNone"
| "derivative c (RClass rs) = (if in_class rs c then REps else RNone)"
| "derivative c (RSeq r s) =
     (if nullable r then mk_alt (mk_seq (derivative c r) s) (derivative c s)
      else mk_seq (derivative c r) s)"
| "derivative c (RAlt r s) = mk_alt (derivative c r) (derivative c s)"
| "derivative c (RStar r) = mk_seq (derivative c r) (RStar r)"

fun accepts :: "rexp \<Rightarrow> string \<Rightarrow> bool" where
  "accepts r [] = nullable r"
| "accepts r (c # cs) = accepts (derivative c r) cs"

lemma nullable_iff: "nullable r \<longleftrightarrow> rmatch r []"
  by (induction r) (auto simp: rmatch_RSeq intro: rmatch.intros)

lemma rmatch_mk_seq [simp]: "rmatch (mk_seq r s) x \<longleftrightarrow> rmatch (RSeq r s) x"
  by (induction r s rule: mk_seq.induct) (auto simp: rmatch_RSeq)

lemma rmatch_mk_alt [simp]: "rmatch (mk_alt r s) x \<longleftrightarrow> rmatch r x \<or> rmatch s x"
  by (induction r s rule: mk_alt.induct) auto

lemma derivative_iff: "rmatch (derivative c r) s \<longleftrightarrow> rmatch r (c # s)"
proof (induction r arbitrary: s)
  case (RSeq r1 r2)
  have "rmatch (RSeq r1 r2) (c # s) \<longleftrightarrow>
      (\<exists>a b. s = a @ b \<and> rmatch r1 (c # a) \<and> rmatch r2 b) \<or>
      (rmatch r1 [] \<and> rmatch r2 (c # s))"
    by (auto simp: rmatch_RSeq Cons_eq_append_conv)
  then show ?case using RSeq by (auto simp: rmatch_RSeq nullable_iff)
next
  case (RStar r)
  then show ?case by (auto simp: rmatch_RSeq rmatch_RStar_Cons)
qed auto

theorem accepts_iff: "accepts r s \<longleftrightarrow> rmatch r s"
  by (induction s arbitrary: r) (auto simp: nullable_iff derivative_iff)

end
