(* ===== verification/Errors.thy ===== *)
theory Errors
  imports Prelude
begin

text \<open>
  The error values of the program: the sentinels of packages \<open>index\<close>, \<open>auth\<close> and
  \<open>flob\<close>, the ways a name, a digest or a manifest can be malformed, and the envelope errors
  of \<open>oci/errors.go\<close> with the status each is answered with.  Where the source puts the text
  of another error in \<open>Detail\<close>, the model keeps the error itself.
\<close>

section \<open>Tag rules, as an error names them (\<open>auth/policy.go\<close>)\<close>

datatype tag_rule_kind = TagImmutable | TagProtected | TagPattern | TagRetention | TagKind string

datatype tag_op = TagCreate | TagMove | TagDelete

record tag_rule_error =
  tre_rule :: string
  tre_kind :: tag_rule_kind
  tre_tag :: string
  tre_op :: tag_op

section \<open>Why a value is malformed (\<open>oci/name.go\<close>, \<open>oci/manifest.go\<close>)\<close>

datatype manifest_error =
    NotJSON
  | BadContentType string
  | MediaTypeMismatch string string
  | Schema1
  | ImageWithManifests
  | ConfigRequired
  | IndexWithConfigOrLayers
  | NoMediaType
  | UnsupportedMediaType string
  | BadSchemaVersion
  | DescriptorNoMediaType string
  | DescriptorBadDigest string
  | DescriptorNegativeSize string

text \<open>Errors of flob, the blob store under the registry, by the names it gives them.\<close>

datatype flob_error =
    NotExist | AlreadyExists | InvalidDigest | DigestMismatch | IncompatibleStore
  | OffsetMismatch | StageExpired | StageClosed | StageConflict | FlobOther string

datatype cause =
    InvalidTag string
  | DigestInvalidFormat
  | UnsupportedAlgorithm string
  | DigestDoesNotValidate string
  | BadManifest manifest_error
  | FlobCause flob_error
  | TagRefused tag_rule_error
  | Text string

section \<open>The envelope (\<open>oci/errors.go\<close>)\<close>

datatype code =
    CodeBlobUnknown | CodeBlobUploadInvalid | CodeBlobUploadUnknown | CodeDigestInvalid
  | CodeManifestBlobUnknown | CodeManifestInvalid | CodeManifestUnknown | CodeNameInvalid
  | CodeNameUnknown | CodeSizeInvalid | CodeUnauthorized | CodeDenied | CodeUnsupported
  | CodeTooManyRequests | CodeUnknown

fun code_string :: "code \<Rightarrow> string" where
  "code_string CodeBlobUnknown = ''BLOB_UNKNOWN''"
| "code_string CodeBlobUploadInvalid = ''BLOB_UPLOAD_INVALID''"
| "code_string CodeBlobUploadUnknown = ''BLOB_UPLOAD_UNKNOWN''"
| "code_string CodeDigestInvalid = ''DIGEST_INVALID''"
| "code_string CodeManifestBlobUnknown = ''MANIFEST_BLOB_UNKNOWN''"
| "code_string CodeManifestInvalid = ''MANIFEST_INVALID''"
| "code_string CodeManifestUnknown = ''MANIFEST_UNKNOWN''"
| "code_string CodeNameInvalid = ''NAME_INVALID''"
| "code_string CodeNameUnknown = ''NAME_UNKNOWN''"
| "code_string CodeSizeInvalid = ''SIZE_INVALID''"
| "code_string CodeUnauthorized = ''UNAUTHORIZED''"
| "code_string CodeDenied = ''DENIED''"
| "code_string CodeUnsupported = ''UNSUPPORTED''"
| "code_string CodeTooManyRequests = ''TOOMANYREQUESTS''"
| "code_string CodeUnknown = ''UNKNOWN''"

fun messages :: "code \<Rightarrow> string" where
  "messages CodeBlobUnknown = ''blob unknown to registry''"
| "messages CodeBlobUploadInvalid = ''blob upload invalid''"
| "messages CodeBlobUploadUnknown = ''blob upload unknown to registry''"
| "messages CodeDigestInvalid = ''provided digest did not match uploaded content''"
| "messages CodeManifestBlobUnknown = ''manifest references a manifest or blob unknown to registry''"
| "messages CodeManifestInvalid = ''manifest invalid''"
| "messages CodeManifestUnknown = ''manifest unknown to registry''"
| "messages CodeNameInvalid = ''invalid repository name''"
| "messages CodeNameUnknown = ''repository name not known to registry''"
| "messages CodeSizeInvalid = ''provided length did not match content length''"
| "messages CodeUnauthorized = ''authentication required''"
| "messages CodeDenied = ''requested access to the resource is denied''"
| "messages CodeUnsupported = ''the operation is unsupported''"
| "messages CodeTooManyRequests = ''too many requests''"
| "messages CodeUnknown = ''unknown error''"

datatype detail = NoDetail | DText string | DList "string list" | DCause cause

type_synonym header = "(string, string) gomap"

record oci_error =
  err_status :: int
  err_code :: code
  err_message :: string
  err_detail :: detail
  err_header :: header

definition NewError :: "int \<Rightarrow> code \<Rightarrow> detail \<Rightarrow> oci_error" where
  "NewError status c d =
     \<lparr>err_status = status, err_code = c, err_message = messages c, err_detail = d, err_header = []\<rparr>"

definition WithHeader :: "oci_error \<Rightarrow> string \<Rightarrow> string \<Rightarrow> oci_error" where
  "WithHeader e k v = e\<lparr>err_header := AList.update k v (err_header e)\<rparr>"

definition ErrBlobUnknown :: "detail \<Rightarrow> oci_error" where
  "ErrBlobUnknown d = NewError 404 CodeBlobUnknown d"

definition ErrBlobUploadUnknown :: "detail \<Rightarrow> oci_error" where
  "ErrBlobUploadUnknown d = NewError 404 CodeBlobUploadUnknown d"

definition ErrBlobUploadInvalid :: "detail \<Rightarrow> oci_error" where
  "ErrBlobUploadInvalid d = NewError 400 CodeBlobUploadInvalid d"

definition ErrDigestInvalid :: "detail \<Rightarrow> oci_error" where
  "ErrDigestInvalid d = NewError 400 CodeDigestInvalid d"

definition ErrManifestBlobUnknown :: "detail \<Rightarrow> oci_error" where
  "ErrManifestBlobUnknown d = NewError 400 CodeManifestBlobUnknown d"

definition ErrManifestInvalid :: "detail \<Rightarrow> oci_error" where
  "ErrManifestInvalid d = NewError 400 CodeManifestInvalid d"

definition ErrManifestUnknown :: "detail \<Rightarrow> oci_error" where
  "ErrManifestUnknown d = NewError 404 CodeManifestUnknown d"

definition ErrNameInvalid :: "detail \<Rightarrow> oci_error" where
  "ErrNameInvalid d = NewError 400 CodeNameInvalid d"

definition ErrNameUnknown :: "detail \<Rightarrow> oci_error" where
  "ErrNameUnknown d = NewError 404 CodeNameUnknown d"

definition ErrSizeInvalid :: "detail \<Rightarrow> oci_error" where
  "ErrSizeInvalid d = NewError 400 CodeSizeInvalid d"

definition ErrUnauthorized :: "detail \<Rightarrow> oci_error" where
  "ErrUnauthorized d = NewError 401 CodeUnauthorized d"

definition ErrDenied :: "detail \<Rightarrow> oci_error" where
  "ErrDenied d = NewError 403 CodeDenied d"

definition ErrUnsupported :: "detail \<Rightarrow> oci_error" where
  "ErrUnsupported d = NewError 405 CodeUnsupported d"

definition ErrTooManyRequests :: "detail \<Rightarrow> oci_error" where
  "ErrTooManyRequests d = NewError 429 CodeTooManyRequests d"

text \<open>\<open>ErrUnavailable\<close> takes its retry time as the digits \<open>strconv.Itoa\<close> makes of it.\<close>

definition ErrUnavailable :: "string \<Rightarrow> detail \<Rightarrow> oci_error" where
  "ErrUnavailable retry d = WithHeader (NewError 503 CodeTooManyRequests d) ''Retry-After'' retry"

definition ErrBadGateway :: "detail \<Rightarrow> oci_error" where
  "ErrBadGateway d = NewError 502 CodeUnknown d"

definition ErrGatewayTimeout :: "detail \<Rightarrow> oci_error" where
  "ErrGatewayTimeout d = NewError 504 CodeUnknown d"

named_theorems oci_error_defs \<open>the constructors of envelope errors\<close>

lemmas [oci_error_defs] =
  ErrBlobUnknown_def ErrBlobUploadUnknown_def ErrBlobUploadInvalid_def ErrDigestInvalid_def
  ErrManifestBlobUnknown_def ErrManifestInvalid_def ErrManifestUnknown_def ErrNameInvalid_def
  ErrNameUnknown_def ErrSizeInvalid_def ErrUnauthorized_def ErrDenied_def ErrUnsupported_def
  ErrTooManyRequests_def ErrUnavailable_def ErrBadGateway_def ErrGatewayTimeout_def
  NewError_def WithHeader_def

section \<open>Errors across packages\<close>

text \<open>
  What a function of the program may answer in its \<open>error\<close>: the sentinels of \<open>index/index.go\<close>,
  the errors of a context, an error of flob, an error of an upstream registry, an envelope
  error, or another failure.
\<close>

datatype error =
    ErrNotFound | ErrTagMoved | ErrBusy
  | Canceled | DeadlineExceeded
  | Flob flob_error
  | NotSupported
  | UpstreamUnreachable | UpstreamUnauthorized | UpstreamStatus int
  | Oci oci_error
  | Cause cause
  | Other string
  | Wrapped string error
  | Joined "error list"

text \<open>
  \<open>errors.Is\<close> looks through what \<open>fmt.Errorf\<close> wraps with \<open>%w\<close> and what \<open>errors.Join\<close>
  joins, and \<open>errors.As\<close> for an envelope error does the same, answering the first.
\<close>

fun errors_is :: "error \<Rightarrow> error \<Rightarrow> bool" where
  "errors_is (Wrapped s e) t = (Wrapped s e = t \<or> errors_is e t)"
| "errors_is (Joined es) t = (Joined es = t \<or> list_ex (\<lambda>e. errors_is e t) es)"
| "errors_is e t = (e = t)"

fun as_oci :: "error \<Rightarrow> oci_error option" where
  "as_oci (Oci e) = Some e"
| "as_oci (Wrapped s e) = as_oci e"
| "as_oci (Joined es) =
     foldr (\<lambda>e r. case as_oci e of Some o' \<Rightarrow> Some o' | None \<Rightarrow> r) es None"
| "as_oci e = None"

text \<open>\<open>errors.Join\<close> of what a loop collected: nil for nothing.\<close>

definition join_errs :: "error list \<Rightarrow> error option" where
  "join_errs es = (if es = [] then None else Some (Joined es))"

lemma errors_is_self [simp]: "errors_is e e"
  by (cases e) simp_all

section \<open>A response\<close>

datatype body = NoBody | Bytes string | Envelope oci_error

record response =
  rs_status :: int
  rs_header :: header
  rs_body :: body

text \<open>
  \<open>WriteError\<close> answers an envelope error as it is, and every other error as
  \<open>500 UNKNOWN\<close> with nothing of the error in it.  It sets the headers of the error over the
  ones the handler has set, and drops the two that would describe another body.
\<close>

definition WriteError :: "header \<Rightarrow> error \<Rightarrow> response" where
  "WriteError h err =
     (let e = (case as_oci err of Some e \<Rightarrow> e | None \<Rightarrow> NewError 500 CodeUnknown NoDetail);
          h1 = fold (\<lambda>(k, v). AList.update k v) (err_header e) h;
          h2 = AList.update ''Content-Type'' ''application/json'' h1
      in \<lparr>rs_status = err_status e,
          rs_header = AList.delete ''Docker-Content-Digest'' (AList.delete ''Content-Length'' h2),
          rs_body = Envelope e\<rparr>)"

lemma WriteError_status:
  "rs_status (WriteError h err) = (case as_oci err of Some e \<Rightarrow> err_status e | None \<Rightarrow> 500)"
  by (simp add: WriteError_def Let_def NewError_def split: option.splits)

text \<open>Nothing of an error that is not an envelope error reaches the client.\<close>

lemma WriteError_no_leak:
  "as_oci err = None \<Longrightarrow> WriteError h err = WriteError h (Other '''')"
  by (simp add: WriteError_def)

end
