(* ===== verification/Oci_Name.thy ===== *)
theory Oci_Name
  imports Regex Errors
begin

text \<open>
  Names, tags, digests and references (\<open>oci/name.go\<close>).  The two regular expressions are the
  source's, as expressions of \<open>Regex\<close>.  Package \<open>go-digest\<close> is not part of the repository:
  what it says of a digest is a parameter of type \<open>digest_ops\<close>.
\<close>

section \<open>Package go-digest, a parameter\<close>

record digest_ops =
  dg_algorithm :: "digest \<Rightarrow> string"
  dg_encoded :: "digest \<Rightarrow> string"
  dg_validates :: "digest \<Rightarrow> bool"
  dg_from_bytes :: "string \<Rightarrow> string \<Rightarrow> digest"

section \<open>Repository names and tags\<close>

definition MaxNameLength :: nat where
  "MaxNameLength = 255"

definition lower_digit :: rexp where
  "lower_digit = RPlus (RClass [(CHR ''a'', CHR ''z''), (CHR ''0'', CHR ''9'')])"

definition separator :: rexp where
  "separator = RAlt (RStr ''.'') (RAlt (RStr ''_'') (RAlt (RStr ''__'') (RPlus (RChar (CHR ''-'')))))"

text \<open>One segment of the name, and \<open>nameRe\<close>: segments with slashes between.\<close>

definition componentRe :: rexp where
  "componentRe = RSeq lower_digit (RStar (RSeq separator lower_digit))"

definition nameRe :: rexp where
  "nameRe = RSeq componentRe (RStar (RSeq (RStr ''/'') componentRe))"

definition tag_first :: "(char \<times> char) list" where
  "tag_first = [(CHR ''a'', CHR ''z''), (CHR ''A'', CHR ''Z''), (CHR ''0'', CHR ''9''), (CHR ''_'', CHR ''_'')]"

definition tag_rest :: "(char \<times> char) list" where
  "tag_rest = [(CHR ''a'', CHR ''z''), (CHR ''A'', CHR ''Z''), (CHR ''0'', CHR ''9''),
     (CHR ''.'', CHR ''.''), (CHR ''_'', CHR ''_''), (CHR ''-'', CHR ''-'')]"

definition tagRe :: rexp where
  "tagRe = RSeq (RClass tag_first) (RUpTo 127 (RClass tag_rest))"

definition ValidName :: "string \<Rightarrow> bool" where
  "ValidName s = (length s \<le> MaxNameLength \<and> accepts nameRe s)"

definition ValidTag :: "string \<Rightarrow> bool" where
  "ValidTag s = accepts tagRe s"

section \<open>Digests and references\<close>

definition supported_algorithms :: "string list" where
  "supported_algorithms = [''sha256'', ''sha384'', ''sha512'']"

definition ParseDigest :: "digest_ops \<Rightarrow> string \<Rightarrow> cause + digest" where
  "ParseDigest D s =
     (case index_byte (CHR '':'') s of
        None \<Rightarrow> Inl DigestInvalidFormat
      | Some i \<Rightarrow>
          (if i = 0 then Inl DigestInvalidFormat
           else if dg_algorithm D s \<notin> set supported_algorithms then
             Inl (UnsupportedAlgorithm (take i s))
           else if \<not> dg_validates D s then Inl (DigestDoesNotValidate s)
           else Inr s))"

record reference =
  ref_tag :: string
  ref_digest :: digest

definition ParseReference :: "digest_ops \<Rightarrow> string \<Rightarrow> cause + reference" where
  "ParseReference D s =
     (if contains s '':'' then
        (case ParseDigest D s of
           Inl e \<Rightarrow> Inl e
         | Inr d \<Rightarrow> Inr \<lparr>ref_tag = '''', ref_digest = d\<rparr>)
      else if \<not> ValidTag s then Inl (InvalidTag s)
      else Inr \<lparr>ref_tag = s, ref_digest = ''''\<rparr>)"

definition IsDigest :: "reference \<Rightarrow> bool" where
  "IsDigest r = (ref_digest r \<noteq> '''')"

definition ref_String :: "reference \<Rightarrow> string" where
  "ref_String r = (if ref_digest r \<noteq> '''' then ref_digest r else ref_tag r)"

section \<open>What a name can be\<close>

definition alnum :: "char \<Rightarrow> bool" where
  "alnum c = in_class [(CHR ''a'', CHR ''z''), (CHR ''0'', CHR ''9'')] c"

lemma rmatch_lower_digit:
  "rmatch lower_digit s \<Longrightarrow> s \<noteq> [] \<and> alnum (hd s) \<and> alnum (last s)"
proof -
  assume "rmatch lower_digit s"
  then obtain a b where s: "s = a @ b"
    and a: "rmatch (RClass [(CHR ''a'', CHR ''z''), (CHR ''0'', CHR ''9'')]) a"
    and b: "rmatch (RStar (RClass [(CHR ''a'', CHR ''z''), (CHR ''0'', CHR ''9'')])) b"
    by (auto simp: lower_digit_def RPlus_def rmatch_RSeq)
  from b have "\<forall>c \<in> set b. alnum c" by (auto dest: rmatch_chars simp: alnum_def)
  with a s show ?thesis by (auto simp: alnum_def)
qed

lemma rmatch_sep_tail:
  assumes "rmatch (RStar (RSeq separator lower_digit)) s"
  shows "s = [] \<or> alnum (last s)"
proof -
  from assms obtain ws where s: "s = concat ws"
    and ws: "\<forall>w \<in> set ws. rmatch (RSeq separator lower_digit) w"
    by (auto simp: rmatch_RStar_concat)
  have "w \<noteq> [] \<and> alnum (last w)" if "w \<in> set ws" for w
    using ws that rmatch_lower_digit by (fastforce simp: rmatch_RSeq)
  then show ?thesis using s
    by (cases ws rule: rev_cases) auto
qed

lemma rmatch_component:
  assumes "rmatch componentRe s"
  shows "s \<noteq> [] \<and> alnum (hd s) \<and> alnum (last s)"
proof -
  from assms obtain a b where "s = a @ b" "rmatch lower_digit a"
    "rmatch (RStar (RSeq separator lower_digit)) b"
    by (auto simp: componentRe_def rmatch_RSeq)
  then show ?thesis using rmatch_lower_digit [of a] rmatch_sep_tail [of b]
    by (cases "b = []") auto
qed

lemma component_chars:
  "rmatch componentRe s \<Longrightarrow> c \<in> set s \<Longrightarrow> alnum c \<or> c \<in> {CHR ''.'', CHR ''_'', CHR ''-''}"
  by (drule (1) rmatch_chars)
    (auto simp: componentRe_def separator_def lower_digit_def RPlus_def RChar_def alnum_def
      in_class_Cons [where rs = "_ # _"])

lemma not_alnum [simp]: "\<not> alnum (CHR ''/'')" "\<not> alnum (CHR ''.'')"
  by code_simp+

lemma component_no_slash: "rmatch componentRe s \<Longrightarrow> CHR ''/'' \<notin> set s"
  using component_chars [of s "CHR ''/''"] by auto

text \<open>A name is its segments, and each segment by itself is what the expression says.\<close>

lemma rmatch_slashes:
  "rmatch (RStar (RSeq (RStr ''/'') componentRe)) s \<longleftrightarrow>
     (\<exists>ws. s = concat (map (\<lambda>w. CHR ''/'' # w) ws) \<and> (\<forall>w \<in> set ws. rmatch componentRe w))"
  (is "?L \<longleftrightarrow> ?R")
proof
  assume ?L
  then obtain vs where s: "s = concat vs"
    and vs: "\<forall>v \<in> set vs. rmatch (RSeq (RStr ''/'') componentRe) v"
    by (auto simp: rmatch_RStar_concat)
  from vs have "\<exists>ws. vs = map (\<lambda>w. CHR ''/'' # w) ws \<and> (\<forall>w \<in> set ws. rmatch componentRe w)"
  proof (induction vs)
    case Nil
    then show ?case by simp
  next
    case (Cons v vs)
    then obtain ws where ws: "vs = map (\<lambda>w. CHR ''/'' # w) ws" "\<forall>w \<in> set ws. rmatch componentRe w"
      by auto
    from Cons.prems obtain w where "v = CHR ''/'' # w" "rmatch componentRe w"
      by (auto simp: rmatch_RSeq simp del: RStr.simps)
    with ws show ?case by (intro exI [of _ "w # ws"]) simp
  qed
  with s show ?R by blast
next
  assume ?R
  then obtain ws where s: "s = concat (map (\<lambda>w. CHR ''/'' # w) ws)"
    and ws: "\<forall>w \<in> set ws. rmatch componentRe w" by blast
  have "rmatch (RSeq (RStr ''/'') componentRe) (CHR ''/'' # w)" if "w \<in> set ws" for w
    using rm_seq [of "RStr ''/''" "''/''" componentRe w] ws that by (simp del: RStr.simps)
  then show ?L unfolding rmatch_RStar_concat
    by (intro exI [of _ "map (\<lambda>w. CHR ''/'' # w) ws"]) (auto simp: s)
qed

lemma join_slashes: "join_with ''/'' (w # ws) = w @ concat (map (\<lambda>v. CHR ''/'' # v) ws)"
  by (induction ws arbitrary: w) auto

theorem nameRe_segments:
  "accepts nameRe s \<longleftrightarrow> (\<forall>w \<in> set (split_on (CHR ''/'') s). accepts componentRe w)"
proof
  assume "accepts nameRe s"
  then obtain w ws where w: "rmatch componentRe w" and ws: "\<forall>v \<in> set ws. rmatch componentRe v"
    and s: "s = join_with ''/'' (w # ws)"
    by (auto simp: accepts_iff nameRe_def rmatch_RSeq rmatch_slashes join_slashes
        simp del: RStr.simps join_with.simps)
  have "\<forall>v \<in> set (w # ws). CHR ''/'' \<notin> set v"
    using w ws component_no_slash by auto
  then have "split_on (CHR ''/'') s = w # ws"
    unfolding s by (rule split_on_join [rotated]) simp
  with w ws show "\<forall>w \<in> set (split_on (CHR ''/'') s). accepts componentRe w"
    by (simp add: accepts_iff)
next
  assume a: "\<forall>w \<in> set (split_on (CHR ''/'') s). accepts componentRe w"
  obtain w ws where sp: "split_on (CHR ''/'') s = w # ws"
    by (cases "split_on (CHR ''/'') s") auto
  have "s = join_with ''/'' (w # ws)"
    using join_split_on [of "CHR ''/''" s] sp by simp
  then have "s = w @ concat (map (\<lambda>v. CHR ''/'' # v) ws)" by (simp only: join_slashes)
  with a sp show "accepts nameRe s"
    unfolding accepts_iff nameRe_def rmatch_RSeq rmatch_slashes by auto
qed

section \<open>What a tag can be\<close>

lemma rmatch_RUpTo:
  "rmatch (RUpTo n (RClass rs)) s \<longleftrightarrow> length s \<le> n \<and> (\<forall>c \<in> set s. in_class rs c)"
proof (induction n arbitrary: s)
  case 0
  then show ?case by auto
next
  case (Suc n)
  show ?case by (cases s) (auto simp: Suc rmatch_RSeq_class)
qed

lemma ValidTag_iff:
  "ValidTag s \<longleftrightarrow> s \<noteq> [] \<and> length s \<le> 128 \<and> in_class tag_first (hd s) \<and>
     (\<forall>c \<in> set (tl s). in_class tag_rest c)"
  by (cases s) (auto simp: ValidTag_def accepts_iff tagRe_def rmatch_RSeq_class rmatch_RUpTo
      simp del: RUpTo.simps)

lemma tag_first_rest: "in_class tag_first c \<Longrightarrow> in_class tag_rest c"
  by (simp add: in_class_def tag_first_def tag_rest_def) blast

lemma ValidTag_chars: "ValidTag s \<Longrightarrow> c \<in> set s \<Longrightarrow> in_class tag_rest c"
  by (cases s) (auto simp: ValidTag_iff dest: tag_first_rest)

lemma ValidTag_no_sep: "ValidTag s \<Longrightarrow> CHR '':'' \<notin> set s \<and> CHR ''/'' \<notin> set s \<and> CHR ''@'' \<notin> set s"
proof -
  have "\<not> in_class tag_rest (CHR '':'')" "\<not> in_class tag_rest (CHR ''/'')"
    "\<not> in_class tag_rest (CHR ''@'')"
    by code_simp+
  moreover assume "ValidTag s"
  ultimately show ?thesis using ValidTag_chars by blast
qed

lemma contains_char: "contains s [c] \<longleftrightarrow> c \<in> set s"
  by (auto simp: contains_iff in_set_conv_decomp)

lemma ParseDigest_Inr:
  "ParseDigest D s = Inr d \<longleftrightarrow>
     d = s \<and> (\<exists>i. index_byte (CHR '':'') s = Some (Suc i)) \<and>
     dg_algorithm D s \<in> set supported_algorithms \<and> dg_validates D s"
  by (auto simp: ParseDigest_def gr0_conv_Suc split: option.splits if_splits)

text \<open>
  A digest parsed, and a reference parsed, are the string they were parsed from, and a digest
  is told from a tag by its colon alone.
\<close>

lemma ParseReference_Inr:
  assumes "ParseReference D s = Inr r"
  shows "ref_String r = s" "IsDigest r \<longleftrightarrow> CHR '':'' \<in> set s"
    "IsDigest r \<Longrightarrow> ref_tag r = '''' \<and> ref_digest r = s \<and> dg_validates D s"
    "\<not> IsDigest r \<Longrightarrow> ref_digest r = '''' \<and> ref_tag r = s \<and> ValidTag s"
proof -
  have "(CHR '':'' \<in> set s \<and> ParseDigest D s = Inr s \<and> r = \<lparr>ref_tag = '''', ref_digest = s\<rparr>) \<or>
      (CHR '':'' \<notin> set s \<and> ValidTag s \<and> r = \<lparr>ref_tag = s, ref_digest = ''''\<rparr>)"
    using assms
    by (auto simp: ParseReference_def contains_char ParseDigest_Inr split: if_splits sum.splits)
  then show "ref_String r = s" "IsDigest r \<longleftrightarrow> CHR '':'' \<in> set s"
    "IsDigest r \<Longrightarrow> ref_tag r = '''' \<and> ref_digest r = s \<and> dg_validates D s"
    "\<not> IsDigest r \<Longrightarrow> ref_digest r = '''' \<and> ref_tag r = s \<and> ValidTag s"
    by (auto simp: ref_String_def IsDigest_def ParseDigest_Inr)
qed

section \<open>Properties\<close>

text \<open>
  A repository name the registry accepts is at most 255 bytes, and every one of its
  segments is not empty, begins and ends with a lowercase letter or a digit, and holds nothing
  but those and \<open>.\<close>, \<open>_\<close> and \<open>-\<close>: no segment is \<open>.\<close> or \<open>..\<close>, so a name is never a path
  out of the directory a store keeps it under.
\<close>

theorem ValidName_segments_safe:
  assumes "ValidName s" and "w \<in> set (split_on (CHR ''/'') s)"
  shows "length s \<le> 255 \<and> w \<noteq> [] \<and> alnum (hd w) \<and> alnum (last w) \<and> w \<noteq> ''.'' \<and> w \<noteq> ''..'' \<and>
    set w \<subseteq> {c. alnum c} \<union> {CHR ''.'', CHR ''_'', CHR ''-''}"
proof -
  from assms have "accepts componentRe w"
    by (auto simp only: ValidName_def nameRe_segments)
  then have "rmatch componentRe w" by (simp only: accepts_iff)
  then have "w \<noteq> []" "alnum (hd w)" "alnum (last w)"
    "\<forall>c \<in> set w. alnum c \<or> c \<in> {CHR ''.'', CHR ''_'', CHR ''-''}"
    using rmatch_component component_chars by blast+
  then show ?thesis using assms(1)
    by (auto simp: ValidName_def MaxNameLength_def)
qed

lemma ValidName_segments_safe_witness:
  "length ''acme/app-1'' \<le> 255 \<and> ''app-1'' \<noteq> [] \<and> alnum (hd ''app-1'') \<and> alnum (last ''app-1'') \<and>
     ''app-1'' \<noteq> ''.'' \<and> ''app-1'' \<noteq> ''..'' \<and>
     set ''app-1'' \<subseteq> {c. alnum c} \<union> {CHR ''.'', CHR ''_'', CHR ''-''}"
  by (rule ValidName_segments_safe [of "''acme/app-1''" "''app-1''"]) code_simp+

text \<open>
  A reference that parses prints as the string it was parsed from, is a digest exactly when
  that string has a colon, and then one that validates in an algorithm the registry computes;
  otherwise it is a tag with no colon and no slash in it.
\<close>

theorem ParseReference_roundtrip:
  assumes "ParseReference D s = Inr r"
  shows "ref_String r = s \<and> (IsDigest r \<longleftrightarrow> CHR '':'' \<in> set s) \<and>
    (if IsDigest r then ref_tag r = '''' \<and> dg_validates D (ref_digest r) \<and>
        dg_algorithm D (ref_digest r) \<in> set supported_algorithms
     else ref_digest r = '''' \<and> ValidTag (ref_tag r) \<and> CHR ''/'' \<notin> set (ref_tag r))"
proof (cases "IsDigest r")
  case True
  then have "ParseDigest D s = Inr s"
    using assms ParseReference_Inr(2) [OF assms]
    by (auto simp: ParseReference_def contains_char ParseDigest_Inr split: sum.splits)
  then show ?thesis
    using True ParseReference_Inr [OF assms] by (simp add: ParseDigest_Inr)
next
  case False
  then show ?thesis
    using ParseReference_Inr [OF assms] ValidTag_no_sep by auto
qed

definition sample_digest_ops :: digest_ops where
  "sample_digest_ops =
     \<lparr>dg_algorithm = (\<lambda>d. fst (cut (CHR '':'') d)), dg_encoded = (\<lambda>d. fst (snd (cut (CHR '':'') d))),
      dg_validates = (\<lambda>d. length (fst (snd (cut (CHR '':'') d))) = 4),
      dg_from_bytes = (\<lambda>a b. a @ '':'' @ take 4 (b @ ''0000''))\<rparr>"

lemma ParseReference_roundtrip_witness:
  "let r = \<lparr>ref_tag = '''', ref_digest = ''sha256:abcd''\<rparr> in
     ref_String r = ''sha256:abcd'' \<and> (IsDigest r \<longleftrightarrow> CHR '':'' \<in> set ''sha256:abcd'') \<and>
     (if IsDigest r then ref_tag r = '''' \<and> dg_validates sample_digest_ops (ref_digest r) \<and>
        dg_algorithm sample_digest_ops (ref_digest r) \<in> set supported_algorithms
      else ref_digest r = '''' \<and> ValidTag (ref_tag r) \<and> CHR ''/'' \<notin> set (ref_tag r))"
  unfolding Let_def by (rule ParseReference_roundtrip) code_simp

end
