(* ===== verification/Oci_Manifest.thy ===== *)
theory Oci_Manifest
  imports Oci_Name
begin

text \<open>
  Manifests (\<open>oci/manifest.go\<close>): what the registry reads out of a pushed manifest, and what it
  refuses.  \<open>encoding/json\<close> and \<open>mime\<close> decode the body and the content type before the
  code looks at either: the record \<open>rawManifest\<close> is what \<open>json.Unmarshal\<close> fills in, and both
  decoders are parameters.  A slice or a pointer that is \<open>nil\<close> is \<open>None\<close>.
\<close>

section \<open>Media types\<close>

definition MediaTypeImageManifest :: string where
  "MediaTypeImageManifest = ''application/vnd.oci.image.manifest.v1+json''"

definition MediaTypeImageIndex :: string where
  "MediaTypeImageIndex = ''application/vnd.oci.image.index.v1+json''"

definition MediaTypeDockerManifest :: string where
  "MediaTypeDockerManifest = ''application/vnd.docker.distribution.manifest.v2+json''"

definition MediaTypeDockerManifestList :: string where
  "MediaTypeDockerManifestList = ''application/vnd.docker.distribution.manifest.list.v2+json''"

definition MediaTypeDockerSchema1 :: string where
  "MediaTypeDockerSchema1 = ''application/vnd.docker.distribution.manifest.v1+json''"

definition MediaTypeDockerSchema1Signed :: string where
  "MediaTypeDockerSchema1Signed = ''application/vnd.docker.distribution.manifest.v1+prettyjws''"

definition mediaTypeDockerForeignLayer :: string where
  "mediaTypeDockerForeignLayer = ''application/vnd.docker.image.rootfs.foreign.diff.tar.gzip''"

named_theorems media_types \<open>the media types, as strings\<close>

lemmas [media_types] =
  MediaTypeImageManifest_def MediaTypeImageIndex_def MediaTypeDockerManifest_def
  MediaTypeDockerManifestList_def MediaTypeDockerSchema1_def MediaTypeDockerSchema1Signed_def

definition IsManifestMediaType :: "string \<Rightarrow> bool" where
  "IsManifestMediaType t = (t \<in> {MediaTypeImageManifest, MediaTypeImageIndex,
     MediaTypeDockerManifest, MediaTypeDockerManifestList})"

definition IsIndexMediaType :: "string \<Rightarrow> bool" where
  "IsIndexMediaType t = (t = MediaTypeImageIndex \<or> t = MediaTypeDockerManifestList)"

section \<open>Descriptors and manifests\<close>

record descriptor =
  d_mediaType :: string
  d_artifactType :: string
  d_digest :: digest
  d_size :: int
  d_urls :: "string list"
  d_annotations :: "(string, string) gomap"
  d_platform :: "string option"

record manifest =
  mf_mediaType :: string
  mf_artifactType :: string
  mf_subject :: "descriptor option"
  mf_config :: "descriptor option"
  mf_layers :: "descriptor list option"
  mf_manifests :: "descriptor list option"
  mf_annotations :: "(string, string) gomap"

definition slice :: "'a list option \<Rightarrow> 'a list" where
  "slice x = (case x of None \<Rightarrow> [] | Some xs \<Rightarrow> xs)"

lemma slice_simps [simp]: "slice None = []" "slice (Some xs) = xs"
  by (simp_all add: slice_def)

text \<open>
  A layer is expected to be in the registry unless it is not distributable or carries its own
  URLs.
\<close>

definition Distributable :: "descriptor \<Rightarrow> bool" where
  "Distributable d =
     (if contains (d_mediaType d) ''.nondistributable.'' \<or> d_mediaType d = mediaTypeDockerForeignLayer
      then False else length (d_urls d) = 0)"

definition Blobs :: "manifest \<Rightarrow> descriptor list" where
  "Blobs m = (case mf_config m of None \<Rightarrow> [] | Some c \<Rightarrow> [c]) @ filter Distributable (slice (mf_layers m))"

text \<open>\<open>add\<close> of \<open>Holds\<close>: a digest goes in once, where it is first seen.\<close>

definition holds_add :: "digest list \<Rightarrow> digest \<Rightarrow> digest list" where
  "holds_add vs d = (if d \<in> set vs then vs else vs @ [d])"

definition Holds :: "manifest \<Rightarrow> digest list" where
  "Holds m =
     (let vs0 = (case mf_config m of None \<Rightarrow> [] | Some c \<Rightarrow> holds_add [] (d_digest c));
          vs1 = fold (\<lambda>l vs. holds_add vs (d_digest l)) (slice (mf_layers m)) vs0
      in fold (\<lambda>c vs. holds_add vs (d_digest c)) (slice (mf_manifests m)) vs1)"

section \<open>Parsing\<close>

record rawManifest =
  raw_schemaVersion :: "int option"
  raw_mediaType :: string
  raw_artifactType :: string
  raw_config :: "descriptor option"
  raw_layers :: "descriptor list option"
  raw_manifests :: "descriptor list option"
  raw_subject :: "descriptor option"
  raw_annotations :: "(string, string) gomap"

definition validDescriptor :: "digest_ops \<Rightarrow> string \<Rightarrow> descriptor \<Rightarrow> manifest_error option" where
  "validDescriptor D at d =
     (if d_mediaType d = '''' then Some (DescriptorNoMediaType at)
      else if \<not> dg_validates D (d_digest d) then Some (DescriptorBadDigest at)
      else if d_size d < 0 then Some (DescriptorNegativeSize at)
      else None)"

text \<open>The loops over the layers and the children: the first descriptor that is bad.\<close>

fun first_bad :: "digest_ops \<Rightarrow> string \<Rightarrow> descriptor list \<Rightarrow> manifest_error option" where
  "first_bad D at [] = None"
| "first_bad D at (d # ds) =
     (case validDescriptor D at d of Some e \<Rightarrow> Some e | None \<Rightarrow> first_bad D at ds)"

definition opt_bad :: "digest_ops \<Rightarrow> string \<Rightarrow> descriptor option \<Rightarrow> manifest_error option" where
  "opt_bad D at d = (case d of None \<Rightarrow> None | Some x \<Rightarrow> validDescriptor D at x)"

text \<open>The media type: the header's, the body's when the header says nothing specific, and the
  shape's when neither says.\<close>

definition media_type_of :: "string \<Rightarrow> rawManifest \<Rightarrow> string" where
  "media_type_of t0 raw =
     (let t1 = (if t0 \<in> {'''', ''application/json'', ''application/octet-stream''}
                then raw_mediaType raw else t0)
      in if t1 \<noteq> '''' then t1
         else if raw_manifests raw \<noteq> None then MediaTypeImageIndex
         else if raw_config raw \<noteq> None then MediaTypeImageManifest
         else '''')"

text \<open>The \<open>switch\<close> on the media type: what its shape must be.\<close>

definition shape_error :: "string \<Rightarrow> rawManifest \<Rightarrow> manifest_error option" where
  "shape_error t raw =
     (if t = MediaTypeDockerSchema1 \<or> t = MediaTypeDockerSchema1Signed then Some Schema1
      else if t = MediaTypeImageManifest \<or> t = MediaTypeDockerManifest then
        (if raw_manifests raw \<noteq> None then Some ImageWithManifests
         else if raw_config raw = None then Some ConfigRequired
         else None)
      else if t = MediaTypeImageIndex \<or> t = MediaTypeDockerManifestList then
        (if raw_config raw \<noteq> None \<or> raw_layers raw \<noteq> None then Some IndexWithConfigOrLayers
         else None)
      else if t = '''' then Some NoMediaType
      else Some (UnsupportedMediaType t))"

definition manifest_of :: "string \<Rightarrow> rawManifest \<Rightarrow> manifest" where
  "manifest_of t raw =
     \<lparr>mf_mediaType = t,
      mf_artifactType =
        (if raw_artifactType raw = '''' then
           (case raw_config raw of None \<Rightarrow> '''' | Some c \<Rightarrow> d_mediaType c)
         else raw_artifactType raw),
      mf_subject = raw_subject raw, mf_config = raw_config raw, mf_layers = raw_layers raw,
      mf_manifests = raw_manifests raw, mf_annotations = raw_annotations raw\<rparr>"

definition descriptors_error :: "digest_ops \<Rightarrow> rawManifest \<Rightarrow> manifest_error option" where
  "descriptors_error D raw =
     (case opt_bad D ''config'' (raw_config raw) of Some e \<Rightarrow> Some e | None \<Rightarrow>
      case first_bad D ''layers'' (slice (raw_layers raw)) of Some e \<Rightarrow> Some e | None \<Rightarrow>
      case first_bad D ''manifests'' (slice (raw_manifests raw)) of Some e \<Rightarrow> Some e | None \<Rightarrow>
      opt_bad D ''subject'' (raw_subject raw))"

record decoders =
  dec_json :: "string \<Rightarrow> rawManifest option"
  dec_mime :: "string \<Rightarrow> string option"

definition ParseManifest ::
  "digest_ops \<Rightarrow> decoders \<Rightarrow> string \<Rightarrow> string \<Rightarrow> manifest_error + manifest" where
  "ParseManifest D J contentType body =
     (case dec_json J body of
        None \<Rightarrow> Inl NotJSON
      | Some raw \<Rightarrow>
          (case (if contentType = '''' then Some '''' else dec_mime J contentType) of
             None \<Rightarrow> Inl (BadContentType contentType)
           | Some t0 \<Rightarrow>
               (let t = media_type_of t0 raw in
                if raw_mediaType raw \<noteq> '''' \<and> raw_mediaType raw \<noteq> t then
                  Inl (MediaTypeMismatch (raw_mediaType raw) t)
                else (case shape_error t raw of
                    Some e \<Rightarrow> Inl e
                  | None \<Rightarrow>
                      if raw_schemaVersion raw \<noteq> Some 2 then Inl BadSchemaVersion
                      else (case descriptors_error D raw of
                          Some e \<Rightarrow> Inl e
                        | None \<Rightarrow> Inr (manifest_of t raw))))))"

section \<open>What a manifest holds\<close>

lemma set_holds_add [simp]: "set (holds_add vs d) = insert d (set vs)"
  by (auto simp: holds_add_def)

lemma distinct_holds_add [simp]: "distinct (holds_add vs d) \<longleftrightarrow> distinct vs"
  by (simp add: holds_add_def)

lemma fold_holds_add_set:
  "set (fold (\<lambda>x vs. holds_add vs (f x)) xs vs) = set vs \<union> f ` set xs"
  by (induction xs arbitrary: vs) auto

lemma fold_holds_add_distinct:
  "distinct vs \<Longrightarrow> distinct (fold (\<lambda>x vs. holds_add vs (f x)) xs vs)"
  by (induction xs arbitrary: vs) auto

lemma set_Holds:
  "set (Holds m) = d_digest ` (set_option (mf_config m) \<union> set (slice (mf_layers m)) \<union>
     set (slice (mf_manifests m)))"
  by (cases "mf_config m") (auto simp: Holds_def Let_def fold_holds_add_set)

lemma distinct_Holds: "distinct (Holds m)"
  by (auto simp: Holds_def Let_def intro!: fold_holds_add_distinct split: option.splits)

lemma Blobs_held: "b \<in> set (Blobs m) \<Longrightarrow> d_digest b \<in> set (Holds m)"
  by (cases "mf_config m") (auto simp: Blobs_def set_Holds)

lemma child_held: "c \<in> set (slice (mf_manifests m)) \<Longrightarrow> d_digest c \<in> set (Holds m)"
  by (auto simp: set_Holds)

section \<open>What parsing promises\<close>

definition valid_descriptor :: "digest_ops \<Rightarrow> descriptor \<Rightarrow> bool" where
  "valid_descriptor D d = (d_mediaType d \<noteq> '''' \<and> dg_validates D (d_digest d) \<and> 0 \<le> d_size d)"

lemma validDescriptor_None [simp]: "validDescriptor D at d = None \<longleftrightarrow> valid_descriptor D d"
  by (auto simp: validDescriptor_def valid_descriptor_def)

lemma validDescriptor_Some: "validDescriptor D at d = Some e \<Longrightarrow> \<not> valid_descriptor D d"
  by (auto simp: validDescriptor_def valid_descriptor_def split: if_splits)

lemma first_bad_None [simp]: "first_bad D at ds = None \<longleftrightarrow> (\<forall>d \<in> set ds. valid_descriptor D d)"
  by (induction ds) (auto split: option.splits dest: validDescriptor_Some)

lemma opt_bad_None [simp]: "opt_bad D at d = None \<longleftrightarrow> (\<forall>x. d = Some x \<longrightarrow> valid_descriptor D x)"
  by (cases d) (auto simp: opt_bad_def)

text \<open>The descriptors of a manifest: everything it names.\<close>

definition descriptors_of :: "manifest \<Rightarrow> descriptor set" where
  "descriptors_of m = set_option (mf_config m) \<union> set (slice (mf_layers m)) \<union>
     set (slice (mf_manifests m)) \<union> set_option (mf_subject m)"

lemma descriptors_error_None:
  "descriptors_error D raw = None \<longleftrightarrow> (\<forall>d \<in> descriptors_of (manifest_of t raw). valid_descriptor D d)"
proof -
  have case_None: "(case a of Some e \<Rightarrow> Some e | None \<Rightarrow> b) = None \<longleftrightarrow> a = None \<and> b = None"
    for a b :: "manifest_error option"
    by (cases a) auto
  show ?thesis
    by (auto simp: descriptors_error_def case_None descriptors_of_def manifest_of_def elem_set)
qed

lemma shape_error_None:
  "shape_error t raw = None \<longleftrightarrow> IsManifestMediaType t \<and>
     (if IsIndexMediaType t then raw_config raw = None \<and> raw_layers raw = None
      else raw_config raw \<noteq> None \<and> raw_manifests raw = None)"
  by (simp add: shape_error_def IsManifestMediaType_def IsIndexMediaType_def media_types)

lemma ParseManifest_Inr:
  "ParseManifest D J ct body = Inr m \<longleftrightarrow>
     (\<exists>raw t0. dec_json J body = Some raw \<and>
        (if ct = '''' then Some '''' else dec_mime J ct) = Some t0 \<and>
        (raw_mediaType raw = '''' \<or> raw_mediaType raw = media_type_of t0 raw) \<and>
        shape_error (media_type_of t0 raw) raw = None \<and>
        raw_schemaVersion raw = Some 2 \<and> descriptors_error D raw = None \<and>
        m = manifest_of (media_type_of t0 raw) raw)"
  by (auto simp: ParseManifest_def Let_def split: option.splits if_splits)

section \<open>Properties\<close>

text \<open>
  C26: a manifest that parses has one of the four media types; an index has no config and no
  layers, and an image manifest has a config and no children; every descriptor it names, its
  subject included, has a media type, a digest that validates and a size that is not negative;
  and its artifact type is its config's media type when it states none.
\<close>

theorem ParseManifest_sound:
  assumes "ParseManifest D J ct body = Inr m"
  shows "IsManifestMediaType (mf_mediaType m) \<and>
    (if IsIndexMediaType (mf_mediaType m) then mf_config m = None \<and> mf_layers m = None
     else mf_manifests m = None \<and>
       (\<exists>c. mf_config m = Some c \<and> mf_artifactType m \<noteq> '''')) \<and>
    descriptors_of m \<subseteq> {d. valid_descriptor D d}"
proof -
  from assms obtain raw t0 where
    t: "shape_error (media_type_of t0 raw) raw = None"
    and d: "descriptors_error D raw = None"
    and m: "m = manifest_of (media_type_of t0 raw) raw"
    by (auto simp: ParseManifest_Inr)
  from d m have v: "\<forall>d \<in> descriptors_of m. valid_descriptor D d"
    using descriptors_error_None [THEN iffD1] by blast
  then have "mf_config m = Some c \<Longrightarrow> d_mediaType c \<noteq> ''''" for c
    by (simp add: descriptors_of_def valid_descriptor_def)
  with t m v show ?thesis by (auto simp: shape_error_None manifest_of_def)
qed

definition sample_desc :: "string \<Rightarrow> string \<Rightarrow> descriptor" where
  "sample_desc mt d =
     \<lparr>d_mediaType = mt, d_artifactType = '''', d_digest = d, d_size = 3, d_urls = [],
      d_annotations = [], d_platform = None\<rparr>"

definition sample_raw :: rawManifest where
  "sample_raw =
     \<lparr>raw_schemaVersion = Some 2, raw_mediaType = '''', raw_artifactType = '''',
      raw_config = Some (sample_desc ''c'' ''sha256:c0c0''),
      raw_layers = Some [sample_desc ''l'' ''sha256:1111'', sample_desc ''l'' ''sha256:1111''],
      raw_manifests = None, raw_subject = None, raw_annotations = []\<rparr>"

definition sample_decoders :: decoders where
  "sample_decoders = \<lparr>dec_json = (\<lambda>b. if b = ''{}'' then Some sample_raw else None),
     dec_mime = (\<lambda>ct. Some ct)\<rparr>"

definition sample_manifest :: manifest where
  "sample_manifest = manifest_of MediaTypeImageManifest sample_raw"

lemma ParseManifest_sample:
  "ParseManifest sample_digest_ops sample_decoders '''' ''{}'' = Inr sample_manifest"
  by code_simp

lemma ParseManifest_sound_witness:
  "IsManifestMediaType (mf_mediaType sample_manifest) \<and>
    (if IsIndexMediaType (mf_mediaType sample_manifest)
     then mf_config sample_manifest = None \<and> mf_layers sample_manifest = None
     else mf_manifests sample_manifest = None \<and>
       (\<exists>c. mf_config sample_manifest = Some c \<and> mf_artifactType sample_manifest \<noteq> '''')) \<and>
    descriptors_of sample_manifest \<subseteq> {d. valid_descriptor sample_digest_ops d}"
  by (rule ParseManifest_sound [OF ParseManifest_sample])

text \<open>
  What the index records a manifest to hold is every digest the manifest names but its
  subject's, each once; the blobs that must be present before it is stored are among them, and
  so is every child.
\<close>

theorem Holds_exact:
  "distinct (Holds m) \<and>
   set (Holds m) = d_digest ` (set_option (mf_config m) \<union> set (slice (mf_layers m)) \<union>
     set (slice (mf_manifests m))) \<and>
   d_digest ` set (Blobs m) \<union> d_digest ` set (slice (mf_manifests m)) \<subseteq> set (Holds m)"
  using Blobs_held child_held by (auto simp: distinct_Holds set_Holds)

end
