(* ===== verification/Auth_Glob.thy ===== *)
theory Auth_Glob
  imports Prelude
begin

text \<open>
  Globs (\<open>auth/glob.go\<close>): patterns over names made of segments.  \<open>ParseGlob\<close> reads a
  pattern into segments, each the plain runs between its stars or \<open>**\<close>, and \<open>Match\<close> walks
  them; the declarative meaning of a pattern, \<open>glob_sem\<close>, is what the comment on type
  \<open>Glob\<close> says, and the last section shows that the walk decides it.
\<close>

section \<open>Patterns\<close>

datatype segment = Deep | Parts "string list"

record Glob =
  g_src :: string
  g_segs :: "segment list"

datatype glob_error = DanglingBackslash string | InnerDoubleStar string

definition bslash :: char where
  "bslash = CHR 0x5C"

text \<open>
  The loop over the bytes of one segment: \<open>cur\<close> is the run being built, and \<open>parts\<close> the runs
  before it.
\<close>

fun parse_segment :: "string \<Rightarrow> string list \<Rightarrow> string \<Rightarrow> string \<Rightarrow> glob_error + segment" where
  "parse_segment pat parts cur [] = Inr (Parts (parts @ [cur]))"
| "parse_segment pat parts cur (c # cs) =
     (if c = bslash then
        (case cs of [] \<Rightarrow> Inl (DanglingBackslash pat)
         | d # ds \<Rightarrow> parse_segment pat parts (cur @ [d]) ds)
      else if c = CHR ''*'' then
        (if cs \<noteq> [] \<and> hd cs = CHR ''*'' then Inl (InnerDoubleStar pat)
         else parse_segment pat (parts @ [cur]) [] cs)
      else parse_segment pat parts (cur @ [c]) cs)"

text \<open>The loop over the segments; a \<open>**\<close> after a \<open>**\<close> adds nothing.\<close>

fun parse_segments :: "string \<Rightarrow> segment list \<Rightarrow> string list \<Rightarrow> glob_error + segment list" where
  "parse_segments pat segs [] = Inr segs"
| "parse_segments pat segs (s # ss) =
     (if s = ''**'' then
        (if segs \<noteq> [] \<and> last segs = Deep then parse_segments pat segs ss
         else parse_segments pat (segs @ [Deep]) ss)
      else (case parse_segment pat [] [] s of
          Inl e \<Rightarrow> Inl e
        | Inr seg \<Rightarrow> parse_segments pat (segs @ [seg]) ss))"

definition ParseGlob :: "string \<Rightarrow> glob_error + Glob" where
  "ParseGlob pat =
     (case parse_segments pat [] (split_on (CHR ''/'') pat) of
        Inl e \<Rightarrow> Inl e
      | Inr segs \<Rightarrow> Inr \<lparr>g_src = pat, g_segs = segs\<rparr>)"

section \<open>Matching\<close>

text \<open>The loop over the runs between the first and the last: each where it is first found.\<close>

fun match_middle :: "string list \<Rightarrow> string \<Rightarrow> bool" where
  "match_middle [] s = True"
| "match_middle (p # ps) s =
     (case index_of p s of None \<Rightarrow> False | Some i \<Rightarrow> match_middle ps (drop (i + length p) s))"

definition match_parts :: "string list \<Rightarrow> string \<Rightarrow> bool" where
  "match_parts ps s =
     (if length ps = 1 then s = hd ps
      else let first = hd ps; lst = last ps in
        if length s < length first + length lst \<or> \<not> prefix first s \<or> \<not> suffix lst s then False
        else match_middle (butlast (tl ps))
          (take (length s - length first - length lst) (drop (length first) s)))"

text \<open>\<open>(seg segment) match\<close>: a \<open>**\<close> segment has no parts, and is never asked.\<close>

fun seg_match :: "segment \<Rightarrow> string \<Rightarrow> bool" where
  "seg_match Deep s = match_parts [] s"
| "seg_match (Parts ps) s = match_parts ps s"

function matchSegments :: "segment list \<Rightarrow> string list \<Rightarrow> bool" where
  "matchSegments [] ss = (ss = [])"
| "matchSegments (Deep # ps) ss =
     (let least = (if ps = [] then 1 else 0) in
      \<exists>i \<in> set [least ..< Suc (length ss)]. matchSegments ps (drop i ss))"
| "matchSegments (Parts q # ps) ss =
     (ss \<noteq> [] \<and> seg_match (Parts q) (hd ss) \<and> matchSegments ps (tl ss))"
  by pat_completeness auto
termination
  by (relation "measure (\<lambda>(ps, ss). length ps)") auto

definition Match :: "Glob \<Rightarrow> string \<Rightarrow> bool" where
  "Match g s = matchSegments (g_segs g) (split_on (CHR ''/'') s)"

section \<open>What a pattern means\<close>

text \<open>A name fits the runs of a segment when it is the runs with something between them.\<close>

fun fits :: "string list \<Rightarrow> string \<Rightarrow> bool" where
  "fits [] s = False"
| "fits [p] s = (s = p)"
| "fits (p # ps) s = (\<exists>x r. s = p @ x @ r \<and> fits ps r)"

text \<open>
  \<open>**\<close> stands for any number of whole segments: none where something follows it, and at least
  one at the end.
\<close>

inductive glob_sem :: "segment list \<Rightarrow> string list \<Rightarrow> bool" where
  sem_nil: "glob_sem [] []"
| sem_parts: "fits ps s \<Longrightarrow> glob_sem segs ss \<Longrightarrow> glob_sem (Parts ps # segs) (s # ss)"
| sem_deep: "glob_sem segs ss \<Longrightarrow> segs \<noteq> [] \<Longrightarrow> glob_sem (Deep # segs) (xs @ ss)"
| sem_deep_end: "xs \<noteq> [] \<Longrightarrow> glob_sem [Deep] xs"

inductive_cases glob_sem_Nil: "glob_sem [] ss"
inductive_cases glob_sem_Parts: "glob_sem (Parts ps # segs) ss"
inductive_cases glob_sem_Deep: "glob_sem (Deep # segs) ss"

section \<open>The walk decides the meaning\<close>

text \<open>
  Taking a run where it is first found loses nothing: what is left over is longest, and a
  longer rest still fits.
\<close>

fun fits_between :: "string list \<Rightarrow> string \<Rightarrow> bool" where
  "fits_between [] s = True"
| "fits_between (p # ps) s = (\<exists>x r. s = x @ p @ r \<and> fits_between ps r)"

lemma fits_between_longer: "fits_between ps s \<Longrightarrow> fits_between ps (x @ s)"
proof (cases ps)
  case (Cons p qs)
  assume "fits_between ps s"
  with Cons obtain y r where "s = y @ p @ r" "fits_between qs r" by auto
  then have "x @ s = (x @ y) @ p @ r \<and> fits_between qs r" by simp
  with Cons show ?thesis by (metis fits_between.simps(2))
qed simp

lemma match_middle_iff: "match_middle ps s \<longleftrightarrow> fits_between ps s"
proof (induction ps arbitrary: s)
  case Nil
  then show ?case by simp
next
  case (Cons p ps)
  show ?case
  proof (cases "index_of p s")
    case None
    have "\<not> fits_between (p # ps) s"
    proof
      assume "fits_between (p # ps) s"
      then obtain x r where "s = x @ p @ r" by auto
      then have "contains s p" by (auto simp: contains_iff)
      with None show False by (simp add: contains_def)
    qed
    with None show ?thesis by simp
  next
    case (Some i)
    from index_of_Some [OF Some] have i: "i \<le> length s" "prefix p (drop i s)" by auto
    then have s: "s = take i s @ p @ drop (i + length p) s"
      by (metis append_eq_conv_conj append_take_drop_id drop_drop add.commute prefixE)
    have "fits_between (p # ps) s \<longleftrightarrow> fits_between ps (drop (i + length p) s)"
    proof
      assume "fits_between ps (drop (i + length p) s)"
      with s show "fits_between (p # ps) s" by (metis fits_between.simps(2))
    next
      assume "fits_between (p # ps) s"
      then obtain x r where x: "s = x @ p @ r" and r: "fits_between ps r" by auto
      have "i \<le> length x"
        using index_of_least [OF Some, of "length x"] x by simp
      then have "drop (i + length p) s = drop (i + length p) (x @ p) @ r"
        using x by (simp add: drop_append)
      with r show "fits_between ps (drop (i + length p) s)"
        by (metis fits_between_longer)
    qed
    with Some Cons show ?thesis by simp
  qed
qed

lemma fits_ends:
  "fits (p # ps @ [q]) s \<longleftrightarrow> (\<exists>m. s = p @ m @ q \<and> fits_between ps m)"
proof (induction ps arbitrary: p s)
  case Nil
  then show ?case by auto
next
  case (Cons a ps)
  have "fits (p # (a # ps) @ [q]) s \<longleftrightarrow> (\<exists>x r. s = p @ x @ r \<and> fits (a # ps @ [q]) r)"
    by simp
  also have "\<dots> \<longleftrightarrow> (\<exists>x m. s = p @ x @ a @ m @ q \<and> fits_between ps m)"
    unfolding Cons by auto
  also have "\<dots> \<longleftrightarrow> (\<exists>m. s = p @ m @ q \<and> fits_between (a # ps) m)"
  proof
    assume "\<exists>x m. s = p @ x @ a @ m @ q \<and> fits_between ps m"
    then obtain x m where "s = p @ x @ a @ m @ q" "fits_between ps m" by blast
    then show "\<exists>m. s = p @ m @ q \<and> fits_between (a # ps) m"
      by (intro exI [of _ "x @ a @ m"]) auto
  next
    assume "\<exists>m. s = p @ m @ q \<and> fits_between (a # ps) m"
    then show "\<exists>x m. s = p @ x @ a @ m @ q \<and> fits_between ps m" by fastforce
  qed
  finally show ?case .
qed

lemma prefix_suffix_middle:
  "length p + length q \<le> length s \<and> prefix p s \<and> suffix q s \<longleftrightarrow>
     s = p @ take (length s - length p - length q) (drop (length p) s) @ q"
  (is "?L \<longleftrightarrow> ?R")
proof
  assume L: ?L
  then obtain r where s: "s = p @ r" by (auto elim: prefixE)
  from L s have "length q \<le> length r" "suffix q (p @ r)" by auto
  then have "suffix q r"
    using suffix_same_cases [of q "p @ r" r] suffix_length_le by (metis suffixI suffix_length_suffix)
  then obtain m where "r = m @ q" by (auto elim: suffixE)
  with s show ?R by simp
next
  assume R: ?R
  have "length s = length (p @ take (length s - length p - length q) (drop (length p) s) @ q)"
    using R by simp
  moreover have "prefix p s" "suffix q s" using R by (metis prefixI, metis append.assoc suffixI)
  ultimately show ?L by auto
qed

lemma match_parts_iff: "ps \<noteq> [] \<Longrightarrow> match_parts ps s \<longleftrightarrow> fits ps s"
proof -
  assume ne: "ps \<noteq> []"
  show ?thesis
  proof (cases "length ps = 1")
    case True
    then obtain p where "ps = [p]" by (auto simp: length_Suc_conv)
    then show ?thesis by (auto simp: match_parts_def)
  next
    case False
    with ne obtain p qs q where ps: "ps = p # qs @ [q]"
      by (metis One_nat_def append_butlast_last_id length_Cons list.exhaust list.size(3))
    let ?m = "take (length s - length p - length q) (drop (length p) s)"
    have mp: "match_parts ps s \<longleftrightarrow>
        length p + length q \<le> length s \<and> prefix p s \<and> suffix q s \<and> match_middle qs ?m"
      by (auto simp: match_parts_def ps Let_def not_less)
    have "fits ps s \<longleftrightarrow> s = p @ ?m @ q \<and> fits_between qs ?m"
    proof
      assume "fits ps s"
      then obtain m where m: "s = p @ m @ q" "fits_between qs m"
        using fits_ends ps by blast
      then have "?m = m" by simp
      with m show "s = p @ ?m @ q \<and> fits_between qs ?m" by simp
    next
      assume "s = p @ ?m @ q \<and> fits_between qs ?m"
      then show "fits ps s" unfolding ps using fits_ends by blast
    qed
    then show ?thesis
      using mp prefix_suffix_middle [of p q s] match_middle_iff [of qs ?m] by blast
  qed
qed

definition wf_segs :: "segment list \<Rightarrow> bool" where
  "wf_segs segs = (\<forall>seg \<in> set segs. seg \<noteq> Parts [])"

lemma wf_segs_simps [simp]:
  "wf_segs []" "wf_segs (Deep # segs) \<longleftrightarrow> wf_segs segs"
  "wf_segs (Parts ps # segs) \<longleftrightarrow> ps \<noteq> [] \<and> wf_segs segs"
  "wf_segs (a @ b) \<longleftrightarrow> wf_segs a \<and> wf_segs b"
  by (auto simp: wf_segs_def)

lemma parse_segment_parts: "parse_segment pat parts cur s = Inr seg \<Longrightarrow> \<exists>ps. seg = Parts ps \<and> ps \<noteq> []"
proof (induction pat parts cur s rule: parse_segment.induct)
  case (2 pat parts cur c cs)
  show ?case
  proof (cases "c = bslash")
    case True
    with 2 show ?thesis by (cases cs) auto
  next
    case False
    with 2 show ?thesis
      by (cases "c = CHR ''*''"; cases "cs \<noteq> [] \<and> hd cs = CHR ''*''") auto
  qed
qed auto

lemma parse_segments_wf:
  "parse_segments pat segs ss = Inr segs' \<Longrightarrow> wf_segs segs \<Longrightarrow> wf_segs segs'"
proof (induction pat segs ss rule: parse_segments.induct)
  case (2 pat segs s ss)
  then show ?case
    by (auto split: if_splits sum.splits dest!: parse_segment_parts)
qed simp

lemma ParseGlob_wf: "ParseGlob pat = Inr g \<Longrightarrow> wf_segs (g_segs g) \<and> g_src g = pat"
  using parse_segments_wf [where segs = "[]"]
  by (fastforce simp: ParseGlob_def split: sum.splits)

theorem matchSegments_iff: "wf_segs segs \<Longrightarrow> matchSegments segs ss \<longleftrightarrow> glob_sem segs ss"
proof (induction segs ss rule: matchSegments.induct)
  case (1 ss)
  then show ?case by (auto intro: glob_sem.intros elim: glob_sem_Nil)
next
  case (2 ps ss)
  let ?least = "if ps = [] then 1 else (0::nat)"
  have ih: "matchSegments ps (drop i ss) \<longleftrightarrow> glob_sem ps (drop i ss)"
    if "i \<in> set [?least ..< Suc (length ss)]" for i
    using 2 that by simp
  have "matchSegments (Deep # ps) ss \<longleftrightarrow>
      (\<exists>i \<in> set [?least ..< Suc (length ss)]. glob_sem ps (drop i ss))"
    unfolding matchSegments.simps Let_def using ih by blast
  then have m: "matchSegments (Deep # ps) ss \<longleftrightarrow>
      (\<exists>i. ?least \<le> i \<and> i \<le> length ss \<and> glob_sem ps (drop i ss))"
    by (simp only: set_upt atLeastLessThan_iff less_Suc_eq_le Bex_def conj_assoc)
  show ?case
  proof
    assume "matchSegments (Deep # ps) ss"
    then obtain i where i: "?least \<le> i" "i \<le> length ss" "glob_sem ps (drop i ss)"
      using m by blast
    show "glob_sem (Deep # ps) ss"
    proof (cases "ps = []")
      case True
      with i have "ss \<noteq> []" by auto
      with True show ?thesis by (auto intro: sem_deep_end)
    next
      case False
      with i show ?thesis using sem_deep [of ps "drop i ss" "take i ss"] by simp
    qed
  next
    assume "glob_sem (Deep # ps) ss"
    then consider (inner) xs ts where "ss = xs @ ts" "glob_sem ps ts" "ps \<noteq> []"
      | (at_end) "ps = []" "ss \<noteq> []"
      by (auto elim: glob_sem_Deep)
    then have "\<exists>i. ?least \<le> i \<and> i \<le> length ss \<and> glob_sem ps (drop i ss)"
    proof cases
      case inner
      then show ?thesis by (intro exI [of _ "length xs"]) auto
    next
      case at_end
      then show ?thesis
        by (intro exI [of _ "length ss"]) (auto intro: sem_nil simp: Suc_le_eq)
    qed
    with m show "matchSegments (Deep # ps) ss" by blast
  qed
next
  case (3 q ps ss)
  have e: "match_parts q (hd ss) \<longleftrightarrow> fits q (hd ss)"
    using 3 by (intro match_parts_iff) simp
  show ?case
  proof (cases ss)
    case Nil
    then show ?thesis by (auto elim: glob_sem_Parts)
  next
    case (Cons s ts)
    then show ?thesis using 3 e by (auto intro: sem_parts elim: glob_sem_Parts)
  qed
qed

section \<open>Plain patterns\<close>

text \<open>A pattern with no star and no backslash is itself, whatever else is in it.\<close>

lemma parse_segment_plain:
  "CHR ''*'' \<notin> set s \<Longrightarrow> bslash \<notin> set s \<Longrightarrow>
     parse_segment pat parts cur s = Inr (Parts (parts @ [cur @ s]))"
  by (induction s arbitrary: cur) auto

lemma parse_segments_plain:
  "\<forall>s \<in> set ss. CHR ''*'' \<notin> set s \<and> bslash \<notin> set s \<Longrightarrow>
     parse_segments pat segs ss = Inr (segs @ map (\<lambda>s. Parts [s]) ss)"
proof (induction ss arbitrary: segs)
  case (Cons s ss)
  then have "s \<noteq> ''**''" by auto
  with Cons show ?case by (simp add: parse_segment_plain)
qed simp

lemma matchSegments_plain: "matchSegments (map (\<lambda>s. Parts [s]) ws) ss \<longleftrightarrow> ss = ws"
proof (induction ws arbitrary: ss)
  case (Cons w ws)
  then show ?case by (cases ss) (auto simp: match_parts_def)
qed simp

lemma Match_plain:
  assumes "CHR ''*'' \<notin> set pat" and "bslash \<notin> set pat"
  shows "\<exists>g. ParseGlob pat = Inr g \<and> (\<forall>s. Match g s \<longleftrightarrow> s = pat)"
proof -
  have "\<forall>s \<in> set (split_on (CHR ''/'') pat). CHR ''*'' \<notin> set s \<and> bslash \<notin> set s"
    using assms set_split_on_sub by blast
  then have p: "parse_segments pat [] (split_on (CHR ''/'') pat) =
      Inr (map (\<lambda>s. Parts [s]) (split_on (CHR ''/'') pat))"
    by (simp add: parse_segments_plain)
  have "s = pat" if "split_on (CHR ''/'') s = split_on (CHR ''/'') pat" for s
    using that join_split_on by metis
  with p show ?thesis by (auto simp: ParseGlob_def Match_def matchSegments_plain)
qed

section \<open>Properties\<close>

text \<open>
  C27: matching decides exactly the declared meaning of a pattern.  For a pattern that parses,
  the greedy walk -- each run where it is first found, \<open>**\<close> tried at every length -- says yes
  exactly when the name is the pattern with something, slashes excluded, in place of each star,
  and whole segments in place of each \<open>**\<close>, at least one when it is at the end.
\<close>

theorem Match_decides_glob_sem:
  assumes "ParseGlob pat = Inr g"
  shows "Match g s \<longleftrightarrow> glob_sem (g_segs g) (split_on (CHR ''/'') s)"
  unfolding Match_def using ParseGlob_wf [OF assms] by (intro matchSegments_iff) simp

lemma Match_decides_glob_sem_witness:
  "Match \<lparr>g_src = ''a/**/b*c'', g_segs = [Parts [''a''], Deep, Parts [''b'', ''c'']]\<rparr> ''a/x/y/bbcc'' \<longleftrightarrow>
   glob_sem [Parts [''a''], Deep, Parts [''b'', ''c'']] (split_on (CHR ''/'') ''a/x/y/bbcc'')"
proof -
  have "ParseGlob ''a/**/b*c'' =
      Inr \<lparr>g_src = ''a/**/b*c'', g_segs = [Parts [''a''], Deep, Parts [''b'', ''c'']]\<rparr>"
    by code_simp
  from Match_decides_glob_sem [OF this, of "''a/x/y/bbcc''"] show ?thesis by simp
qed

lemma Match_examples:
  "map (\<lambda>s. case ParseGlob ''a/**'' of Inr g \<Rightarrow> Match g s | _ \<Rightarrow> False) [''a'', ''a/b'', ''a/b/c''] =
     [False, True, True]"
  "map (\<lambda>s. case ParseGlob ''a/**/b'' of Inr g \<Rightarrow> Match g s | _ \<Rightarrow> False) [''a/b'', ''a/x/b'', ''a''] =
     [True, True, False]"
  by code_simp+

end
