(* ===== verification/Auth_Policy.thy ===== *)
theory Auth_Policy
  imports Auth_Glob Errors Regex
begin

text \<open>
  Who may do what (\<open>auth/auth.go\<close>, \<open>auth/policy.go\<close>): subjects, permissions over repository
  globs, matches that grant them, tag rules, the policy compiled from them and the store that
  reloads it.  An authenticator is an interface, so what it answers and which of the optional
  methods it has are fields of a record; \<open>regexp.Compile\<close> of a tag rule's own pattern is a
  parameter.
\<close>

section \<open>Actions and subjects (\<open>auth/auth.go\<close>)\<close>

type_synonym action = string

definition ActionPull :: action where "ActionPull = ''pull''"
definition ActionPush :: action where "ActionPush = ''push''"
definition ActionDelete :: action where "ActionDelete = ''delete''"
definition ActionTag :: action where "ActionTag = ''tag''"
definition ActionCatalog :: action where "ActionCatalog = ''catalog''"
definition ActionSearch :: action where "ActionSearch = ''search''"
definition ActionAdmin :: action where "ActionAdmin = ''admin''"
definition ActionAll :: action where "ActionAll = ''*''"

named_theorems action_defs \<open>the actions, as strings\<close>

lemmas [action_defs] =
  ActionPull_def ActionPush_def ActionDelete_def ActionTag_def ActionCatalog_def
  ActionSearch_def ActionAdmin_def ActionAll_def

definition Actions :: "action list" where
  "Actions = [ActionPull, ActionPush, ActionDelete, ActionTag, ActionCatalog, ActionSearch, ActionAdmin]"

definition ParseActions :: "string list \<Rightarrow> action list" where
  "ParseActions vs =
     filter (\<lambda>a. a = ActionAll \<or> a \<in> set Actions)
       (concat (map (\<lambda>v. map trim_space (split_on (CHR '','') v)) vs))"

text \<open>A claim's value: what \<open>encoding/json\<close> makes of it.  A number keeps its decimal text.\<close>

datatype claim =
    CString string | CStrings "string list" | CAnys "claim list" | CBool bool
  | CFloat string | CNumber string | CNil | COther string

definition Anonymous :: string where "Anonymous = ''anonymous''"
definition Anyone :: string where "Anyone = ''anyone''"

record subject =
  s_ID :: string
  s_Provider :: string
  s_Claims :: "(string, claim) gomap"
  s_CredentialExpiry :: time
  s_Via :: string

definition anonymous_subject :: subject where
  "anonymous_subject = \<lparr>s_ID = Anonymous, s_Provider = '''', s_Claims = [], s_CredentialExpiry = 0, s_Via = ''''\<rparr>"

definition IsAnonymous :: "subject \<Rightarrow> bool" where
  "IsAnonymous s = (s_Provider s = '''')"

datatype auth_error = ErrUnauthenticated | ErrNotMine | AuthOther string

text \<open>
  An authenticator, with the methods the code asks for by type assertion: \<open>Issuer\<close>,
  \<open>Certificate\<close>, \<open>singular\<close>, \<open>bearer\<close> and \<open>Kind\<close>.
\<close>

record authenticator =
  au_authenticate :: "string \<Rightarrow> string \<Rightarrow> auth_error + subject"
  au_kind :: "string option"
  au_issuer :: "string option"
  au_certifier :: "(string \<Rightarrow> subject) option"
  au_singular :: bool
  au_bearer :: bool

definition ask :: "authenticator \<Rightarrow> string \<Rightarrow> string \<Rightarrow> auth_error + subject" where
  "ask a username password =
     (case au_authenticate a username password of
        Inl e \<Rightarrow> Inl e
      | Inr s \<Rightarrow> Inr (case au_kind a of
          Some k \<Rightarrow> if s_Via s = '''' then s\<lparr>s_Via := k\<rparr> else s
        | None \<Rightarrow> s))"

fun chain_authenticate :: "authenticator list \<Rightarrow> string \<Rightarrow> string \<Rightarrow> auth_error + subject" where
  "chain_authenticate [] u p = Inl ErrUnauthenticated"
| "chain_authenticate (a # as) u p =
     (case ask a u p of
        Inl ErrNotMine \<Rightarrow> chain_authenticate as u p
      | r \<Rightarrow> r)"

section \<open>Rules, as a source gives them (\<open>auth/policy.go\<close>)\<close>

record permission_rule =
  pr_Repos :: "string list"
  pr_Actions :: "action list"

record match_rule =
  mr_For :: string
  mr_When :: "(string, string) gomap"
  mr_Grant :: "string list"

record provider =
  pv_Name :: string
  pv_Authenticator :: "authenticator option"
  pv_Exchange :: duration
  pv_When :: "(string, string) gomap"

record tag_rule =
  tr_Name :: string
  tr_Repo :: string
  tr_Tag :: string
  tr_Kind :: tag_rule_kind
  tr_Pattern :: string
  tr_Keep :: int
  tr_repo :: Glob
  tr_tag :: Glob
  tr_ok :: bool
  tr_re :: "(string \<Rightarrow> bool) option"

record rules =
  ru_Providers :: "provider list"
  ru_Permissions :: "(string, permission_rule) gomap"
  ru_Matches :: "(string, match_rule) gomap"
  ru_TagRules :: "tag_rule list"

section \<open>Permissions and matches, compiled\<close>

record repo_pattern =
  rp_src :: string
  rp_glob :: Glob
  rp_out :: bool

record permission =
  pm_name :: string
  pm_repos :: "repo_pattern list"
  pm_actions :: "action list"
  pm_everywhere :: bool

definition decide :: "permission \<Rightarrow> string \<Rightarrow> bool \<times> repo_pattern option" where
  "decide pm repo =
     (let by = foldl (\<lambda>by p. if Match (rp_glob p) repo then Some p else by) None (pm_repos pm)
      in (by \<noteq> None \<and> \<not> rp_out (the by), by))"

definition selects :: "permission \<Rightarrow> string \<Rightarrow> bool" where
  "selects pm repo = fst (decide pm repo)"

record pmatch =
  mt_name :: string
  mt_for :: string
  mt_when :: "(string, Glob) gomap"
  mt_grant :: "permission list"

text \<open>\<open>claimMatches\<close>, which asks of a list whether any of its values matches.\<close>

fun claimMatches :: "Glob \<Rightarrow> claim \<Rightarrow> bool" where
  "claimMatches g (CString v) = Match g v"
| "claimMatches g (CStrings vs) = list_ex (Match g) vs"
| "claimMatches g (CAnys vs) = list_ex (\<lambda>e. claimMatches g e) vs"
| "claimMatches g (CBool b) = Match g (if b then ''true'' else ''false'')"
| "claimMatches g (CFloat t) = Match g t"
| "claimMatches g (CNumber t) = Match g t"
| "claimMatches g CNil = False"
| "claimMatches g (COther t) = Match g t"

text \<open>Why a subject is not under a match; \<open>None\<close> is the empty string, nothing keeping it out.\<close>

datatype reason =
    NoCredential string | OtherProvider string string | NoClaim string | ClaimDiffers string claim Glob

fun why_claims :: "(string, Glob) gomap \<Rightarrow> (string, claim) gomap \<Rightarrow> string list \<Rightarrow> reason option" where
  "why_claims w cs [] = None"
| "why_claims w cs (k # ks) =
     (case map_of cs k of
        None \<Rightarrow> Some (NoClaim k)
      | Some v \<Rightarrow>
          (case map_of w k of
             Some g \<Rightarrow> if \<not> claimMatches g v then Some (ClaimDiffers k v g) else why_claims w cs ks
           | None \<Rightarrow> why_claims w cs ks))"

definition why :: "pmatch \<Rightarrow> subject \<Rightarrow> reason option" where
  "why m s =
     (if mt_for m \<noteq> Anyone \<and> mt_for m \<noteq> s_Provider s then
        (if s_Provider s = '''' then Some (NoCredential (mt_for m))
         else Some (OtherProvider (mt_for m) (s_Provider s)))
      else why_claims (mt_when m) (s_Claims s) (sort (map fst (mt_when m))))"

definition match_holds :: "pmatch \<Rightarrow> subject \<Rightarrow> bool" where
  "match_holds m s = (why m s = None)"

section \<open>Compiling a policy\<close>

datatype policy_error =
    BadProviderName string | ProviderTwice string | IssuerTwice string string
  | TwoCertifiers "string list" | BadProviderWhen string string
  | NoRepos string | NoActions string | NoSuchAction string action | BadRepoGlob string glob_error
  | EveryPatternOut string
  | NoFor string | NoSuchProvider string string | ProviderWhenBad string string
  | WhenForAnyone string | NoWhen string string | GrantsNothing string
  | WhenDiffers string string | BadWhenGlob string glob_error | NoSuchPermission string string
  | BadTagGlob string | BadTagPattern string
  | PermissionTwice string | MatchTwice string

definition providerName :: rexp where
  "providerName = RSeq (RClass [(CHR ''a'', CHR ''z''), (CHR ''0'', CHR ''9'')])
     (RStar (RClass [(CHR ''a'', CHR ''z''), (CHR ''0'', CHR ''9''), (CHR ''_'', CHR ''_''), (CHR ''-'', CHR ''-'')]))"

text \<open>The patterns of a permission, each parsed; \<open>!\<close> in front takes away.\<close>

fun compile_repos :: "string list \<Rightarrow> glob_error + repo_pattern list" where
  "compile_repos [] = Inr []"
| "compile_repos (raw # rest) =
     (let (src, out) = (case cut_prefix raw ''!'' of Some r \<Rightarrow> (r, True) | None \<Rightarrow> (raw, False))
      in (case ParseGlob src of
            Inl e \<Rightarrow> Inl e
          | Inr g \<Rightarrow>
              (case compile_repos rest of
                 Inl e \<Rightarrow> Inl e
               | Inr ps \<Rightarrow> Inr (\<lparr>rp_src = raw, rp_glob = g, rp_out = out\<rparr> # ps))))"

definition compilePermission :: "string \<Rightarrow> permission_rule \<Rightarrow> policy_error + permission" where
  "compilePermission name v =
     (if pr_Repos v = [] then Inl (NoRepos name)
      else if pr_Actions v = [] then Inl (NoActions name)
      else (case List.find (\<lambda>a. a \<noteq> ActionAll \<and> a \<notin> set Actions) (pr_Actions v) of
          Some a \<Rightarrow> Inl (NoSuchAction name a)
        | None \<Rightarrow>
            (case compile_repos (pr_Repos v) of
               Inl e \<Rightarrow> Inl (BadRepoGlob name e)
             | Inr ps \<Rightarrow>
                 if \<not> list_ex (\<lambda>p. \<not> rp_out p) ps then Inl (EveryPatternOut name)
                 else Inr \<lparr>pm_name = name, pm_repos = ps, pm_actions = pr_Actions v,
                           pm_everywhere = (length (pr_Repos v) = 1 \<and> hd (pr_Repos v) = ''**'')\<rparr>)))"

text \<open>The two loops of \<open>compileMatch\<close> over the claims: the provider's, then the match's own.\<close>

definition provider_when :: "(string, string) gomap \<Rightarrow> (string, Glob) gomap" where
  "provider_when pw =
     fold (\<lambda>(k, src) w. case ParseGlob src of Inr g \<Rightarrow> AList.update k g w
                                            | Inl _ \<Rightarrow> AList.update k \<lparr>g_src = '''', g_segs = []\<rparr> w) pw []"

fun own_when :: "string \<Rightarrow> (string, string) gomap \<Rightarrow> (string, string) gomap \<Rightarrow> (string, Glob) gomap \<Rightarrow>
    policy_error + (string, Glob) gomap" where
  "own_when name pw [] w = Inr w"
| "own_when name pw ((k, src) # rest) w =
     (if map_of pw k \<noteq> None \<and> map_of pw k \<noteq> Some src then Inl (WhenDiffers name k)
      else (case ParseGlob src of
          Inl e \<Rightarrow> Inl (BadWhenGlob name e)
        | Inr g \<Rightarrow> own_when name pw rest (AList.update k g w)))"

fun find_grants :: "string \<Rightarrow> (string, permission) gomap \<Rightarrow> string list \<Rightarrow> policy_error + permission list" where
  "find_grants name perms [] = Inr []"
| "find_grants name perms (g # gs) =
     (case map_of perms g of
        None \<Rightarrow> Inl (NoSuchPermission name g)
      | Some pm \<Rightarrow> (case find_grants name perms gs of Inl e \<Rightarrow> Inl e | Inr pms \<Rightarrow> Inr (pm # pms)))"

text \<open>
  \<open>whens\<close> is the providers whose own claims checked, \<open>providers\<close> the names there are, and
  \<open>singular\<close> the providers that vouch for one caller.
\<close>

definition compileMatch ::
  "string \<Rightarrow> match_rule \<Rightarrow> (string, permission) gomap \<Rightarrow> string list \<Rightarrow>
   (string, (string, string) gomap) gomap \<Rightarrow> string list \<Rightarrow> policy_error + pmatch" where
  "compileMatch name v perms providers whens singular =
     (let for' = mr_For v; pwo = map_of whens for'; pw = (case pwo of None \<Rightarrow> [] | Some w \<Rightarrow> w) in
      if for' = '''' then Inl (NoFor name)
      else if for' \<noteq> Anyone \<and> for' \<notin> set providers then Inl (NoSuchProvider name for')
      else if for' \<noteq> Anyone \<and> pwo = None then Inl (ProviderWhenBad name for')
      else if for' = Anyone \<and> mr_When v \<noteq> [] then Inl (WhenForAnyone name)
      else if for' \<noteq> Anyone \<and> mr_When v = [] \<and> pw = [] \<and> for' \<notin> set singular then
        Inl (NoWhen name for')
      else if mr_Grant v = [] then Inl (GrantsNothing name)
      else (case own_when name pw (mr_When v) (provider_when pw) of
          Inl e \<Rightarrow> Inl e
        | Inr w \<Rightarrow>
            (case find_grants name perms (mr_Grant v) of
               Inl e \<Rightarrow> Inl e
             | Inr pms \<Rightarrow> Inr \<lparr>mt_name = name, mt_for = for', mt_when = w, mt_grant = pms\<rparr>)))"

record policy =
  p_providers :: "provider list"
  p_chain :: "authenticator list"
  p_matches :: "pmatch list"
  p_TagRules :: "tag_rule list"

definition empty_policy :: policy where
  "empty_policy = \<lparr>p_providers = [], p_chain = [], p_matches = [], p_TagRules = []\<rparr>"

text \<open>
  The loop over the providers, in the order of their names: the ones kept, and the errors.
\<close>

fun check_providers :: "provider list \<Rightarrow> string list \<Rightarrow> (string, string) gomap \<Rightarrow>
    provider list \<times> policy_error list" where
  "check_providers [] names issuers = ([], [])"
| "check_providers (pv # pvs) names issuers =
     (let n = pv_Name pv;
          issuer = (case pv_Authenticator pv of None \<Rightarrow> None | Some a \<Rightarrow> au_issuer a)
      in if n = Anyone \<or> \<not> accepts providerName n then
           (let (ps, es) = check_providers pvs names issuers in (ps, BadProviderName n # es))
         else if n \<in> set names then
           (let (ps, es) = check_providers pvs names issuers in (ps, ProviderTwice n # es))
         else (case issuer of
             Some i \<Rightarrow>
               (case map_of issuers i of
                  Some other \<Rightarrow>
                    (let (ps, es) = check_providers pvs names issuers in (ps, IssuerTwice n other # es))
                | None \<Rightarrow>
                    (let (ps, es) = check_providers pvs (n # names) (AList.update i n issuers)
                     in (pv # ps, es)))
           | None \<Rightarrow>
               (let (ps, es) = check_providers pvs (n # names) issuers in (pv # ps, es))))"

definition is_certifier :: "provider \<Rightarrow> bool" where
  "is_certifier pv = (case pv_Authenticator pv of None \<Rightarrow> False | Some a \<Rightarrow> au_certifier a \<noteq> None)"

definition is_singular :: "provider \<Rightarrow> bool" where
  "is_singular pv = (case pv_Authenticator pv of None \<Rightarrow> False | Some a \<Rightarrow> au_singular a)"

text \<open>The listener decides which certificates are good, so there is one certifier or none.\<close>

definition one_certifier :: "provider list \<Rightarrow> provider list \<times> policy_error list" where
  "one_certifier pvs =
     (let cs = map pv_Name (filter is_certifier pvs)
      in if length cs > 1 then (delete_func is_certifier pvs, [TwoCertifiers cs]) else (pvs, []))"

definition bad_when :: "provider \<Rightarrow> policy_error list" where
  "bad_when pv = concat (map (\<lambda>(k, src). case ParseGlob src of
      Inl _ \<Rightarrow> [BadProviderWhen (pv_Name pv) k] | Inr _ \<Rightarrow> []) (pv_When pv))"

definition whens_of :: "provider list \<Rightarrow> (string, (string, string) gomap) gomap" where
  "whens_of pvs = fold (\<lambda>pv w. if bad_when pv = [] then AList.update (pv_Name pv) (pv_When pv) w else w) pvs []"

text \<open>The loops over the permissions and the matches, in the order of their names: the ones that
  compile, and the errors of the ones that do not.\<close>

fun partition_sum :: "('e + 'a) list \<Rightarrow> 'e list \<times> 'a list" where
  "partition_sum [] = ([], [])"
| "partition_sum (Inl e # rs) = (let (es, as) = partition_sum rs in (e # es, as))"
| "partition_sum (Inr a # rs) = (let (es, as) = partition_sum rs in (es, a # as))"

definition in_key_order :: "(string, 'v) gomap \<Rightarrow> (string \<times> 'v) list" where
  "in_key_order m = map (\<lambda>k. (k, the (map_of m k))) (sort (map fst m))"

definition compile_tag_rule :: "(string \<Rightarrow> (string \<Rightarrow> bool) option) \<Rightarrow> tag_rule \<Rightarrow> tag_rule \<times> policy_error list" where
  "compile_tag_rule regex t =
     (let (t1, es1) = (case (ParseGlob (tr_Repo t), ParseGlob (tr_Tag t)) of
            (Inr r, Inr g) \<Rightarrow> (t\<lparr>tr_repo := r, tr_tag := g, tr_ok := True\<rparr>, [])
          | _ \<Rightarrow> (t, [BadTagGlob (tr_Name t)]))
      in if tr_Kind t = TagPattern then
           (case regex (''^(?:'' @ tr_Pattern t @ '')$'') of
              None \<Rightarrow> (t1, es1 @ [BadTagPattern (tr_Name t)])
            | Some re \<Rightarrow> (t1\<lparr>tr_re := Some re\<rparr>, es1))
         else (t1, es1))"

definition NewPolicy :: "(string \<Rightarrow> (string \<Rightarrow> bool) option) \<Rightarrow> rules \<Rightarrow> policy \<times> policy_error list" where
  "NewPolicy regex r =
     (let (pvs0, es1) = check_providers (sort_key pv_Name (ru_Providers r)) [] [];
          names = map pv_Name pvs0;
          (pvs, es2) = one_certifier pvs0;
          chain = concat (map (\<lambda>pv. case pv_Authenticator pv of None \<Rightarrow> [] | Some a \<Rightarrow> [a]) pvs);
          es3 = concat (map bad_when pvs);
          whens = whens_of pvs;
          singular = map pv_Name (filter is_singular pvs);
          (es4, perms) = partition_sum
            (map (\<lambda>(n, v). compilePermission n v) (in_key_order (ru_Permissions r)));
          permsm = map (\<lambda>pm. (pm_name pm, pm)) perms;
          (es5, ms) = partition_sum
            (map (\<lambda>(n, v). compileMatch n v permsm names whens singular) (in_key_order (ru_Matches r)));
          trs = map (compile_tag_rule regex) (ru_TagRules r)
      in (\<lparr>p_providers = pvs, p_chain = chain, p_matches = ms, p_TagRules = map fst trs\<rparr>,
          es1 @ es2 @ es3 @ es4 @ es5 @ concat (map snd trs)))"

section \<open>Decisions\<close>

definition granted :: "policy \<Rightarrow> subject \<Rightarrow> (permission \<Rightarrow> bool) \<Rightarrow> action list" where
  "granted p s over =
     concat (map (\<lambda>m. if match_holds m s
       then concat (map (\<lambda>pm. if over pm then pm_actions pm else []) (mt_grant m)) else []) (p_matches p))"

definition intersect :: "action list \<Rightarrow> string list \<Rightarrow> action list" where
  "intersect want gr = filter (\<lambda>a. a \<in> set gr \<or> ActionAll \<in> set gr) want"

text \<open>A policy that is \<open>nil\<close> allows nothing.\<close>

definition Allow :: "policy option \<Rightarrow> subject \<Rightarrow> string \<Rightarrow> action list \<Rightarrow> action list" where
  "Allow po s repo want =
     (case po of None \<Rightarrow> [] | Some p \<Rightarrow> intersect want (granted p s (\<lambda>pm. selects pm repo)))"

definition AllowRegistry :: "policy option \<Rightarrow> subject \<Rightarrow> action list \<Rightarrow> action list" where
  "AllowRegistry po s want =
     (case po of None \<Rightarrow> [] | Some p \<Rightarrow> intersect want (granted p s pm_everywhere))"

definition policy_authenticate :: "policy option \<Rightarrow> string \<Rightarrow> string \<Rightarrow> auth_error + subject" where
  "policy_authenticate po u pw =
     (case po of None \<Rightarrow> Inl ErrNotMine
      | Some p \<Rightarrow> (case List.find (\<lambda>a. ask a u pw \<noteq> Inl ErrNotMine) (p_chain p) of
          None \<Rightarrow> Inl ErrNotMine
        | Some a \<Rightarrow> ask a u pw))"

definition policy_bearer :: "policy option \<Rightarrow> string \<Rightarrow> string \<Rightarrow> auth_error + subject" where
  "policy_bearer po token ownIssuer =
     (case po of None \<Rightarrow> Inl ErrUnauthenticated
      | Some p \<Rightarrow> (case List.find (\<lambda>a. ask a '''' token \<noteq> Inl ErrNotMine)
            (filter (\<lambda>a. au_bearer a \<and> au_issuer a \<noteq> None \<and> au_issuer a \<noteq> Some ownIssuer) (p_chain p)) of
          None \<Rightarrow> Inl ErrUnauthenticated
        | Some a \<Rightarrow> ask a '''' token))"

definition Exchange :: "policy option \<Rightarrow> string \<Rightarrow> duration" where
  "Exchange po name =
     (case po of None \<Rightarrow> 0
      | Some p \<Rightarrow> (case List.find (\<lambda>pv. pv_Name pv = name) (p_providers p) of
          None \<Rightarrow> 0 | Some pv \<Rightarrow> pv_Exchange pv))"

definition Exchanges :: "policy option \<Rightarrow> bool" where
  "Exchanges po = (case po of None \<Rightarrow> False | Some p \<Rightarrow> list_ex (\<lambda>pv. pv_Exchange pv > 0) (p_providers p))"

definition HasProvider :: "policy option \<Rightarrow> string \<Rightarrow> bool" where
  "HasProvider po name =
     (case po of None \<Rightarrow> False | Some p \<Rightarrow> list_ex (\<lambda>pv. pv_Name pv = name) (p_providers p))"

definition policy_certificate :: "policy option \<Rightarrow> string \<Rightarrow> subject option" where
  "policy_certificate po cert =
     (case po of None \<Rightarrow> None
      | Some p \<Rightarrow> (case List.find is_certifier (p_providers p) of
          None \<Rightarrow> None
        | Some pv \<Rightarrow> (case pv_Authenticator pv of
            None \<Rightarrow> None
          | Some a \<Rightarrow> map_option (\<lambda>f. f cert) (au_certifier a))))"

section \<open>Tag rules\<close>

text \<open>
  A rule whose globs do not parse covers every tag, except a retention rule, which covers none.
\<close>

definition covers_tag :: "tag_rule \<Rightarrow> string \<Rightarrow> string \<Rightarrow> bool" where
  "covers_tag r repo tag =
     (if \<not> tr_ok r then tr_Kind r \<noteq> TagRetention else Match (tr_repo r) repo \<and> Match (tr_tag r) tag)"

definition MatchesTag :: "tag_rule \<Rightarrow> string \<Rightarrow> bool" where
  "MatchesTag r tag = (tr_ok r \<and> Match (tr_tag r) tag)"

definition rule_refuses :: "action list \<Rightarrow> string \<Rightarrow> tag_op \<Rightarrow> tag_rule \<Rightarrow> bool" where
  "rule_refuses gr tag op r =
     (case tr_Kind r of
        TagImmutable \<Rightarrow> op \<noteq> TagCreate
      | TagProtected \<Rightarrow>
          (if op = TagCreate then False
           else if ActionAdmin \<in> set gr \<or> ActionAll \<in> set gr then False
           else True)
      | TagPattern \<Rightarrow>
          (if op = TagDelete then False
           else (case tr_re r of None \<Rightarrow> True | Some re \<Rightarrow> \<not> re tag))
      | _ \<Rightarrow> False)"

fun check_rules :: "action list \<Rightarrow> string \<Rightarrow> string \<Rightarrow> tag_op \<Rightarrow> tag_rule list \<Rightarrow> tag_rule_error option" where
  "check_rules gr repo tag op [] = None"
| "check_rules gr repo tag op (r # rs) =
     (if \<not> covers_tag r repo tag then check_rules gr repo tag op rs
      else if rule_refuses gr tag op r then
        Some \<lparr>tre_rule = tr_Name r, tre_kind = tr_Kind r, tre_tag = tag, tre_op = op\<rparr>
      else check_rules gr repo tag op rs)"

definition CheckTag :: "policy option \<Rightarrow> action list \<Rightarrow> string \<Rightarrow> string \<Rightarrow> tag_op \<Rightarrow> tag_rule_error option" where
  "CheckTag po gr repo tag op =
     (case po of None \<Rightarrow> None | Some p \<Rightarrow> check_rules gr repo tag op (p_TagRules p))"

definition Retention :: "policy option \<Rightarrow> string \<Rightarrow> tag_rule list" where
  "Retention po repo =
     (case po of None \<Rightarrow> []
      | Some p \<Rightarrow> filter (\<lambda>r. tr_Kind r = TagRetention \<and> tr_Keep r \<ge> 0 \<and> tr_ok r \<and> Match (tr_repo r) repo)
          (p_TagRules p))"

section \<open>Explaining a decision\<close>

record grant_explanation =
  ge_permission :: string
  ge_over :: bool
  ge_by :: string
  ge_actions :: "action list"

record match_explanation =
  me_name :: string
  me_for :: string
  me_holds :: bool
  me_why :: "reason option"
  me_grants :: "grant_explanation list"

record explanation =
  ex_matches :: "match_explanation list"
  ex_granted :: "action list"

definition explain_grant :: "string \<Rightarrow> permission \<Rightarrow> grant_explanation" where
  "explain_grant repo pm =
     (let g = \<lparr>ge_permission = pm_name pm, ge_over = False, ge_by = '''', ge_actions = pm_actions pm\<rparr> in
      if repo = '''' then
        (if pm_everywhere pm then g\<lparr>ge_over := True, ge_by := ''**''\<rparr> else g)
      else (case decide pm repo of
          (over, Some by) \<Rightarrow> g\<lparr>ge_over := over, ge_by := rp_src by\<rparr>
        | (over, None) \<Rightarrow> g))"

text \<open>A repository is not asked for the registry's lists.\<close>

definition explain_add :: "string \<Rightarrow> action list \<Rightarrow> action \<Rightarrow> action list" where
  "explain_add repo out a =
     (if a \<notin> set out \<and> (repo = '''' \<or> \<not> (a = ActionCatalog \<or> a = ActionSearch)) then out @ [a] else out)"

definition explain_match :: "subject \<Rightarrow> string \<Rightarrow> explanation \<Rightarrow> pmatch \<Rightarrow> explanation" where
  "explain_match s repo e m =
     (let w = why m s; holds = (w = None);
          gs = map (explain_grant repo) (mt_grant m);
          out = fold (\<lambda>g out. if holds \<and> ge_over g
                  then foldl (explain_add repo) out (ge_actions g) else out) gs (ex_granted e)
      in \<lparr>ex_matches = ex_matches e @ [\<lparr>me_name = mt_name m, me_for = mt_for m, me_holds = holds,
            me_why = w, me_grants = gs\<rparr>],
          ex_granted = out\<rparr>)"

definition Explain :: "policy option \<Rightarrow> subject \<Rightarrow> string \<Rightarrow> explanation" where
  "Explain po s repo =
     (case po of None \<Rightarrow> \<lparr>ex_matches = [], ex_granted = []\<rparr>
      | Some p \<Rightarrow> foldl (explain_match s repo) \<lparr>ex_matches = [], ex_granted = []\<rparr> (p_matches p))"

end
