(* ===== verification/Auth_Decisions.thy ===== *)
theory Auth_Decisions
  imports Auth_Policy
begin

text \<open>
  What a policy decides: the lemmas about permissions, matches, tag rules and explanations of
  \<open>Auth_Policy\<close>, and the properties that rest on them.
\<close>

section \<open>Permissions\<close>

lemma foldl_last_match:
  "foldl (\<lambda>by p. if P p then Some p else by) b ps =
     (if filter P ps = [] then b else Some (last (filter P ps)))"
  by (induction ps arbitrary: b) auto

lemma selects_last:
  "selects pm repo \<longleftrightarrow>
     (let ms = filter (\<lambda>p. Match (rp_glob p) repo) (pm_repos pm) in ms \<noteq> [] \<and> \<not> rp_out (last ms))"
  by (simp add: selects_def decide_def foldl_last_match Let_def)

lemma last_filter_split:
  "filter P xs \<noteq> [] \<Longrightarrow> \<exists>us vs. xs = us @ last (filter P xs) # vs \<and> P (last (filter P xs)) \<and> (\<forall>v \<in> set vs. \<not> P v)"
proof (induction xs rule: rev_induct)
  case (snoc x xs)
  show ?case
  proof (cases "P x")
    case True
    then show ?thesis by (intro exI [of _ xs] exI [of _ "[]"]) auto
  next
    case False
    with snoc obtain us vs where "xs = us @ last (filter P xs) # vs" "P (last (filter P xs))"
      "\<forall>v \<in> set vs. \<not> P v" by auto
    with False show ?thesis by (intro exI [of _ us] exI [of _ "vs @ [x]"]) auto
  qed
qed simp

section \<open>Matches\<close>

lemma why_claims_None:
  "why_claims w cs ks = None \<longleftrightarrow>
     (\<forall>k \<in> set ks. \<exists>v. map_of cs k = Some v \<and> (\<forall>g. map_of w k = Some g \<longrightarrow> claimMatches g v))"
  by (induction ks) (auto split: option.splits if_splits)

lemma match_holds_iff:
  "match_holds m s \<longleftrightarrow> (mt_for m = Anyone \<or> mt_for m = s_Provider s) \<and>
     (\<forall>k g. map_of (mt_when m) k = Some g \<longrightarrow>
        (\<exists>v. map_of (s_Claims s) k = Some v \<and> claimMatches g v))"
proof -
  have dom: "k \<in> fst ` set (mt_when m) \<longleftrightarrow> (\<exists>g. map_of (mt_when m) k = Some g)" for k
    by (metis domD domI dom_map_of_conv_image_fst)
  have "(why_claims (mt_when m) (s_Claims s) (sort (map fst (mt_when m))) = None) \<longleftrightarrow>
      (\<forall>k g. map_of (mt_when m) k = Some g \<longrightarrow>
        (\<exists>v. map_of (s_Claims s) k = Some v \<and> claimMatches g v))" (is "?a \<longleftrightarrow> ?b")
  proof
    assume ?a
    then show ?b
      unfolding why_claims_None set_sort set_map using dom by blast
  next
    assume b: ?b
    show ?a
      unfolding why_claims_None set_sort set_map
    proof
      fix k assume "k \<in> fst ` set (mt_when m)"
      then obtain g where g: "map_of (mt_when m) k = Some g" using dom by blast
      with b obtain v where "map_of (s_Claims s) k = Some v" "claimMatches g v" by blast
      with g show "\<exists>v. map_of (s_Claims s) k = Some v \<and>
          (\<forall>g. map_of (mt_when m) k = Some g \<longrightarrow> claimMatches g v)" by simp
    qed
  qed
  then show ?thesis by (auto simp: match_holds_def why_def)
qed

lemma set_granted:
  "a \<in> set (granted p s over) \<longleftrightarrow>
     (\<exists>m \<in> set (p_matches p). match_holds m s \<and> (\<exists>pm \<in> set (mt_grant m). over pm \<and> a \<in> set (pm_actions pm)))"
  by (auto simp: granted_def split: if_splits)

lemma set_intersect: "a \<in> set (intersect want gr) \<longleftrightarrow> a \<in> set want \<and> (a \<in> set gr \<or> ActionAll \<in> set gr)"
  by (auto simp: intersect_def)

lemma set_Allow:
  "a \<in> set (Allow (Some p) s repo want) \<longleftrightarrow> a \<in> set want \<and>
     (\<exists>m pm. m \<in> set (p_matches p) \<and> match_holds m s \<and> pm \<in> set (mt_grant m) \<and>
        selects pm repo \<and> (a \<in> set (pm_actions pm) \<or> ActionAll \<in> set (pm_actions pm)))"
  unfolding Allow_def option.case set_intersect set_granted by blast

section \<open>Compiling\<close>

lemma partition_sum_snd: "a \<in> set (snd (partition_sum rs)) \<longleftrightarrow> Inr a \<in> set rs"
  by (induction rs rule: partition_sum.induct) (auto split: prod.splits)

lemma set_in_key_order: "wf_map m \<Longrightarrow> (k, v) \<in> set (in_key_order m) \<longleftrightarrow> map_of m k = Some v"
  by (force simp: in_key_order_def wf_map_def dest: map_of_SomeD)

text \<open>The parts of \<open>NewPolicy\<close>, named.\<close>

definition kept_providers :: "rules \<Rightarrow> provider list" where
  "kept_providers r = fst (one_certifier (fst (check_providers (sort_key pv_Name (ru_Providers r)) [] [])))"

definition provider_names :: "rules \<Rightarrow> string list" where
  "provider_names r = map pv_Name (fst (check_providers (sort_key pv_Name (ru_Providers r)) [] []))"

definition compiled_perms :: "rules \<Rightarrow> (string, permission) gomap" where
  "compiled_perms r = map (\<lambda>pm. (pm_name pm, pm))
     (snd (partition_sum (map (\<lambda>(n, v). compilePermission n v) (in_key_order (ru_Permissions r)))))"

definition compiled_match :: "rules \<Rightarrow> string \<Rightarrow> match_rule \<Rightarrow> policy_error + pmatch" where
  "compiled_match r n v = compileMatch n v (compiled_perms r) (provider_names r)
     (whens_of (kept_providers r)) (map pv_Name (filter is_singular (kept_providers r)))"

lemma NewPolicy_parts:
  "p_providers (fst (NewPolicy re r)) = kept_providers r"
  "p_matches (fst (NewPolicy re r)) =
     snd (partition_sum (map (\<lambda>(n, v). compiled_match r n v) (in_key_order (ru_Matches r))))"
  "p_TagRules (fst (NewPolicy re r)) = map (\<lambda>t. fst (compile_tag_rule re t)) (ru_TagRules r)"
  by (simp_all add: NewPolicy_def Let_def kept_providers_def provider_names_def compiled_perms_def
      compiled_match_def split: prod.splits)

lemma p_matches_iff:
  assumes "wf_map (ru_Matches r)"
  shows "m \<in> set (p_matches (fst (NewPolicy re r))) \<longleftrightarrow>
    (\<exists>n v. map_of (ru_Matches r) n = Some v \<and> compiled_match r n v = Inr m)"
proof -
  have "m \<in> set (p_matches (fst (NewPolicy re r))) \<longleftrightarrow>
      (\<exists>nv \<in> set (in_key_order (ru_Matches r)). Inr m = compiled_match r (fst nv) (snd nv))"
    by (simp add: NewPolicy_parts partition_sum_snd image_iff split_beta)
  also have "\<dots> \<longleftrightarrow> (\<exists>n v. (n, v) \<in> set (in_key_order (ru_Matches r)) \<and> compiled_match r n v = Inr m)"
    by (metis fst_conv prod.collapse snd_conv)
  finally show ?thesis by (simp add: set_in_key_order [OF assms])
qed

lemma check_providers_sub:
  "set (fst (check_providers pvs names issuers)) \<subseteq> set pvs \<and>
   distinct (map pv_Name (fst (check_providers pvs names issuers))) \<and>
   (\<forall>pv \<in> set (fst (check_providers pvs names issuers)). pv_Name pv \<notin> set names \<and> pv_Name pv \<noteq> Anyone)"
proof (induction pvs arbitrary: names issuers)
  case (Cons pv pvs)
  have skip: "fst (case check_providers pvs names issuers of (ps, es) \<Rightarrow> (ps, e # es)) =
      fst (check_providers pvs names issuers)" for e
    by (simp split: prod.split)
  have keep: "fst (case check_providers pvs ns iss of (ps, es) \<Rightarrow> (pv # ps, es)) =
      pv # fst (check_providers pvs ns iss)" for ns iss
    by (simp split: prod.split)
  have "fst (check_providers (pv # pvs) names issuers) = fst (check_providers pvs names issuers) \<or>
      pv_Name pv \<notin> set names \<and> pv_Name pv \<noteq> Anyone \<and> (\<exists>iss. fst (check_providers (pv # pvs) names issuers) =
        pv # fst (check_providers pvs (pv_Name pv # names) iss))"
    by (auto simp: Let_def skip keep split: option.split)
  then show ?case
  proof
    assume "fst (check_providers (pv # pvs) names issuers) = fst (check_providers pvs names issuers)"
    with Cons [of names issuers] show ?thesis by auto
  next
    assume "pv_Name pv \<notin> set names \<and> pv_Name pv \<noteq> Anyone \<and> (\<exists>iss. fst (check_providers (pv # pvs) names issuers) =
        pv # fst (check_providers pvs (pv_Name pv # names) iss))"
    then obtain iss where "fst (check_providers (pv # pvs) names issuers) =
        pv # fst (check_providers pvs (pv_Name pv # names) iss)" "pv_Name pv \<notin> set names" "pv_Name pv \<noteq> Anyone"
      by blast
    with Cons [of "pv_Name pv # names" iss] show ?thesis by fastforce
  qed
qed simp

lemma one_certifier_sub: "\<exists>P. fst (one_certifier pvs) = filter P pvs"
proof (cases "length (filter is_certifier pvs) > 1")
  case True
  then show ?thesis by (auto simp: one_certifier_def delete_func_def)
next
  case False
  then show ?thesis by (intro exI [of _ "\<lambda>_. True"]) (simp add: one_certifier_def)
qed

lemma kept_providers_props:
  "set (kept_providers r) \<subseteq> set (ru_Providers r)" "distinct (map pv_Name (kept_providers r))"
proof -
  let ?c = "fst (check_providers (sort_key pv_Name (ru_Providers r)) [] [])"
  obtain P where P: "kept_providers r = filter P ?c"
    using one_certifier_sub by (auto simp: kept_providers_def)
  have c: "set ?c \<subseteq> set (ru_Providers r)" "distinct (map pv_Name ?c)"
    using check_providers_sub [of "sort_key pv_Name (ru_Providers r)" "[]" "[]"] by auto
  from P c show "set (kept_providers r) \<subseteq> set (ru_Providers r)" by auto
  from P c show "distinct (map pv_Name (kept_providers r))" by (simp add: distinct_map_filter)
qed

lemma whens_of_Some:
  "map_of (fold (\<lambda>pv w. if bad_when pv = [] then AList.update (pv_Name pv) (pv_When pv) w else w) pvs w0) n = Some w \<Longrightarrow>
     map_of w0 n = Some w \<or> (\<exists>pv \<in> set pvs. pv_Name pv = n \<and> pv_When pv = w \<and> bad_when pv = [])"
proof (induction pvs arbitrary: w0)
  case (Cons pv pvs)
  then show ?case by (cases "bad_when pv = []") (fastforce split: if_splits)+
qed simp

lemma bad_when_Nil: "bad_when pv = [] \<longleftrightarrow> (\<forall>(k, src) \<in> set (pv_When pv). \<exists>g. ParseGlob src = Inr g)"
  by (auto simp: bad_when_def split: sum.splits)

text \<open>Every claim the provider requires is in a match for it, as the provider wrote it.\<close>

definition requires :: "(string, Glob) gomap \<Rightarrow> (string, string) gomap \<Rightarrow> bool" where
  "requires w pw = (\<forall>k src. map_of pw k = Some src \<longrightarrow>
     (\<exists>g. ParseGlob src = Inr g \<and> map_of w k = Some g))"

lemma provider_when_requires:
  assumes "wf_map pw" "\<forall>(k, src) \<in> set pw. \<exists>g. ParseGlob src = Inr g"
  shows "requires (provider_when pw) pw"
proof -
  let ?f = "\<lambda>(k, src) w. case ParseGlob src of Inr g \<Rightarrow> AList.update k g w
      | Inl _ \<Rightarrow> AList.update k \<lparr>g_src = '''', g_segs = []\<rparr> w"
  have keep: "k \<notin> fst ` set pw \<Longrightarrow> map_of (fold ?f pw w) k = map_of w k"
    for pw :: "(string, string) gomap" and w k
    by (induction pw arbitrary: w) (auto split: sum.splits)
  have "distinct (map fst pw) \<Longrightarrow> (k, src) \<in> set pw \<Longrightarrow> ParseGlob src = Inr g \<Longrightarrow>
      map_of (fold ?f pw w) k = Some g"
    for pw :: "(string, string) gomap" and w k src g
    by (induction pw arbitrary: w) (auto simp: keep)
  with assms show ?thesis
    unfolding requires_def provider_when_def wf_map_def by (fastforce dest: map_of_SomeD)
qed

lemma own_when_requires:
  "own_when n pw ws w0 = Inr w \<Longrightarrow> requires w0 pw \<Longrightarrow> requires w pw"
proof (induction n pw ws w0 rule: own_when.induct)
  case (2 n pw k src rest w0)
  then obtain g where g: "ParseGlob src = Inr g" and k: "map_of pw k = None \<or> map_of pw k = Some src"
    and r: "own_when n pw rest (AList.update k g w0) = Inr w"
    by (auto split: if_splits sum.splits)
  have "requires (AList.update k g w0) pw"
    using "2.prems"(2) k g by (auto simp: requires_def)
  with 2 g k r show ?case by auto
qed simp

lemma own_when_grows: "own_when n pw ws w0 = Inr w \<Longrightarrow> ws \<noteq> [] \<or> w0 \<noteq> [] \<Longrightarrow> w \<noteq> []"
  by (induction n pw ws w0 rule: own_when.induct) (auto split: if_splits sum.splits)

lemma find_grants_set:
  "find_grants n perms gs = Inr pms \<Longrightarrow> pm \<in> set pms \<Longrightarrow> \<exists>g \<in> set gs. map_of perms g = Some pm"
proof (induction gs arbitrary: pms)
  case (Cons g gs)
  then obtain p ps where "map_of perms g = Some p" "find_grants n perms gs = Inr ps" "pms = p # ps"
    by (auto split: option.splits sum.splits)
  with Cons show ?case by fastforce
qed simp

definition wf_rules :: "rules \<Rightarrow> bool" where
  "wf_rules r = (wf_map (ru_Permissions r) \<and> wf_map (ru_Matches r) \<and>
     (\<forall>pv \<in> set (ru_Providers r). wf_map (pv_When pv)))"

lemma compiled_match_for_provider:
  assumes "compiled_match r n v = Inr m" "wf_rules r" "mt_for m \<noteq> Anyone"
  shows "\<exists>pv \<in> set (kept_providers r). pv_Name pv = mt_for m \<and> requires (mt_when m) (pv_When pv) \<and>
    (mt_when m \<noteq> [] \<or> is_singular pv)"
proof -
  from assms obtain pw w where for_eq: "mt_for m = mr_For v" "mt_when m = w"
    and pw: "map_of (whens_of (kept_providers r)) (mr_For v) = Some pw"
    and w: "own_when n pw (mr_When v) (provider_when pw) = Inr w"
    and some: "mr_When v \<noteq> [] \<or> pw \<noteq> [] \<or> mr_For v \<in> pv_Name ` set (filter is_singular (kept_providers r))"
    by (auto simp: compiled_match_def compileMatch_def Let_def split: if_splits sum.splits option.splits)
  from pw obtain pv where pv: "pv \<in> set (kept_providers r)" "pv_Name pv = mr_For v"
    "pv_When pv = pw" "bad_when pv = []"
    using whens_of_Some [where ?w0.0 = "[]"] by (fastforce simp: whens_of_def)
  from pv assms(2) have "wf_map pw"
    using kept_providers_props(1) by (auto simp: wf_rules_def)
  with pv have req0: "requires (provider_when pw) pw"
    by (intro provider_when_requires) (auto simp: bad_when_Nil)
  with w have req: "requires w pw" by (rule own_when_requires)
  have "w \<noteq> []" if "mr_When v \<noteq> [] \<or> pw \<noteq> []"
  proof (cases "mr_When v = []")
    case True
    with that obtain a pw' where "pw = a # pw'" by (cases pw) auto
    then have "map_of pw (fst a) = Some (snd a)" by (cases a) simp
    with req show ?thesis by (auto simp: requires_def)
  next
    case False
    with w show ?thesis by (auto dest: own_when_grows)
  qed
  moreover have "is_singular pv" if "mr_For v \<in> pv_Name ` set (filter is_singular (kept_providers r))"
  proof -
    from that obtain pv' where pv': "pv' \<in> set (kept_providers r)" "is_singular pv'" "pv_Name pv' = mr_For v"
      by auto
    with pv kept_providers_props(2) [of r] have "pv' = pv"
      by (metis distinct_map inj_onD)
    with pv' show ?thesis by simp
  qed
  ultimately show ?thesis using pv req for_eq some by auto
qed

section \<open>Tag rules\<close>

lemma check_rules_None:
  "check_rules gr repo tag op rs = None \<longleftrightarrow>
     (\<forall>r \<in> set rs. covers_tag r repo tag \<longrightarrow> \<not> rule_refuses gr tag op r)"
  by (induction rs) auto

lemma check_rules_Some:
  "check_rules gr repo tag op rs = Some e \<Longrightarrow>
     \<exists>r \<in> set rs. covers_tag r repo tag \<and> rule_refuses gr tag op r \<and>
       e = \<lparr>tre_rule = tr_Name r, tre_kind = tr_Kind r, tre_tag = tag, tre_op = op\<rparr>"
  by (induction rs) (auto split: if_splits)

section \<open>Explanations\<close>

lemma foldl_explain_add:
  "set (foldl (explain_add repo) out as) =
     set out \<union> {a \<in> set as. repo = '''' \<or> a \<noteq> ActionCatalog \<and> a \<noteq> ActionSearch}"
  by (induction as arbitrary: out) (auto simp: explain_add_def split: if_splits)

lemma explain_grant_sel [simp]:
  "ge_actions (explain_grant repo pm) = pm_actions pm"
  "ge_over (explain_grant repo pm) = (if repo = '''' then pm_everywhere pm else selects pm repo)"
  by (auto simp: explain_grant_def Let_def selects_def decide_def split: prod.splits option.splits)

lemma explain_fold_grants:
  "set (fold (\<lambda>g out. if h \<and> ge_over g then foldl (explain_add repo) out (ge_actions g) else out) gs out) =
     set out \<union> {a. h \<and> (\<exists>g \<in> set gs. ge_over g \<and> a \<in> set (ge_actions g)) \<and>
       (repo = '''' \<or> a \<noteq> ActionCatalog \<and> a \<noteq> ActionSearch)}"
  by (induction gs arbitrary: out) (auto simp: foldl_explain_add)

lemma explain_fold_matches:
  "set (ex_granted (foldl (explain_match s repo) e ms)) =
     set (ex_granted e) \<union> {a. (\<exists>m \<in> set ms. match_holds m s \<and> (\<exists>pm \<in> set (mt_grant m).
        (if repo = '''' then pm_everywhere pm else selects pm repo) \<and> a \<in> set (pm_actions pm))) \<and>
       (repo = '''' \<or> a \<noteq> ActionCatalog \<and> a \<noteq> ActionSearch)}"
proof (induction ms arbitrary: e)
  case (Cons m ms)
  have "set (ex_granted (explain_match s repo e m)) =
      set (ex_granted e) \<union> {a. match_holds m s \<and> (\<exists>pm \<in> set (mt_grant m).
        (if repo = '''' then pm_everywhere pm else selects pm repo) \<and> a \<in> set (pm_actions pm)) \<and>
       (repo = '''' \<or> a \<noteq> ActionCatalog \<and> a \<noteq> ActionSearch)}"
    by (simp add: explain_match_def Let_def explain_fold_grants match_holds_def)
  then show ?case using Cons by auto
qed simp

section \<open>Properties\<close>

text \<open>
  The last pattern of a permission that matches a repository decides: the permission is over
  the repository exactly when that pattern is there and does not take away, whatever the
  patterns before it say.
\<close>

theorem last_pattern_decides:
  "selects pm repo = (\<exists>us p vs. pm_repos pm = us @ p # vs \<and> Match (rp_glob p) repo \<and> \<not> rp_out p \<and>
     \<not> (\<exists>v. v \<in> set vs \<and> Match (rp_glob v) repo))"
proof
  assume "selects pm repo"
  then show "\<exists>us p vs. pm_repos pm = us @ p # vs \<and> Match (rp_glob p) repo \<and> \<not> rp_out p \<and>
      \<not> (\<exists>v. v \<in> set vs \<and> Match (rp_glob v) repo)"
    using last_filter_split [of "\<lambda>p. Match (rp_glob p) repo" "pm_repos pm"]
    by (auto simp: selects_last Let_def)
next
  assume "\<exists>us p vs. pm_repos pm = us @ p # vs \<and> Match (rp_glob p) repo \<and> \<not> rp_out p \<and>
      \<not> (\<exists>v. v \<in> set vs \<and> Match (rp_glob v) repo)"
  then obtain us p vs where ps: "pm_repos pm = us @ p # vs" "Match (rp_glob p) repo" "\<not> rp_out p"
    "filter (\<lambda>p. Match (rp_glob p) repo) vs = []"
    by (auto simp: filter_empty_conv)
  then show "selects pm repo" by (simp add: selects_last Let_def)
qed

text \<open>
  What a caller may do in a repository is exactly the union of what its matches grant: an
  action asked for is allowed when some match holds for the caller and grants a permission over
  the repository with that action or with every action, and nothing else allows or denies it.
\<close>

theorem Allow_is_union_of_matches:
  "set (Allow (Some p) s repo want) =
     {a \<in> set want. \<exists>m pm. m \<in> set (p_matches p) \<and> match_holds m s \<and> pm \<in> set (mt_grant m) \<and>
        selects pm repo \<and> {a, ActionAll} \<inter> set (pm_actions pm) \<noteq> {}}"
  by (rule set_eqI) (simp add: set_Allow)

text \<open>
  Matches only add.  Writing one more match in the rules takes nothing from anybody, in any
  repository, whether the match compiles or not.
\<close>

theorem more_matches_allow_more:
  assumes "wf_map (ru_Matches r)" and "k \<notin> fst ` set (ru_Matches r)"
  shows "set (Allow (Some (fst (NewPolicy re r))) s repo want) \<subseteq>
    set (Allow (Some (fst (NewPolicy re (r\<lparr>ru_Matches := (k, v) # ru_Matches r\<rparr>)))) s repo want)"
proof -
  let ?r = "r\<lparr>ru_Matches := (k, v) # ru_Matches r\<rparr>"
  have wf: "wf_map (ru_Matches ?r)" using assms by (simp add: wf_map_def)
  have same: "compiled_match ?r = compiled_match r"
    by (intro ext) (simp add: compiled_match_def compiled_perms_def provider_names_def kept_providers_def)
  have "set (p_matches (fst (NewPolicy re r))) \<subseteq> set (p_matches (fst (NewPolicy re ?r)))"
  proof
    fix m assume "m \<in> set (p_matches (fst (NewPolicy re r)))"
    then obtain n u where "map_of (ru_Matches r) n = Some u" "compiled_match r n u = Inr m"
      using p_matches_iff [OF assms(1)] by blast
    moreover from this assms(2) have "n \<noteq> k" by (auto dest: map_of_SomeD intro: rev_image_eqI)
    ultimately have "map_of (ru_Matches ?r) n = Some u" "compiled_match ?r n u = Inr m"
      by (simp_all add: same)
    then show "m \<in> set (p_matches (fst (NewPolicy re ?r)))"
      using p_matches_iff [OF wf] by blast
  qed
  then show ?thesis unfolding subset_iff set_Allow by blast
qed

definition sample_perm_rule :: permission_rule where
  "sample_perm_rule = \<lparr>pr_Repos = [''acme/**'', ''!acme/secret''], pr_Actions = [''pull'']\<rparr>"

definition sample_provider :: provider where
  "sample_provider = \<lparr>pv_Name = ''ci'', pv_Authenticator = None, pv_Exchange = 0,
     pv_When = [(''org'', ''acme'')]\<rparr>"

definition sample_match_rule :: match_rule where
  "sample_match_rule = \<lparr>mr_For = ''ci'', mr_When = [(''ref'', ''refs/*'')], mr_Grant = [''read'']\<rparr>"

definition sample_rules :: rules where
  "sample_rules = \<lparr>ru_Providers = [sample_provider], ru_Permissions = [(''read'', sample_perm_rule)],
     ru_Matches = [(''m'', sample_match_rule)], ru_TagRules = []\<rparr>"

definition sample_subject :: subject where
  "sample_subject = \<lparr>s_ID = ''ci:1'', s_Provider = ''ci'',
     s_Claims = [(''org'', CString ''acme''), (''ref'', CString ''refs/main'')],
     s_CredentialExpiry = 0, s_Via = ''oidc''\<rparr>"

lemma more_matches_allow_more_witness:
  "set (Allow (Some (fst (NewPolicy (\<lambda>_. None) sample_rules))) sample_subject ''acme/app'' [''pull'']) \<subseteq>
   set (Allow (Some (fst (NewPolicy (\<lambda>_. None) (sample_rules\<lparr>ru_Matches :=
     (''x'', \<lparr>mr_For = ''anyone'', mr_When = [], mr_Grant = [''read'']\<rparr>) # ru_Matches sample_rules\<rparr>))))
     sample_subject ''acme/app'' [''pull''])"
  by (rule more_matches_allow_more) (simp_all add: sample_rules_def wf_map_def)

text \<open>
  What does not check grants nothing.  A match that made it into a policy, and holds for a
  caller, is for everybody, or it is for a provider that is there and vouched for the caller;
  the caller's credential then satisfies every claim the provider requires of its matches, and
  at least one claim was required unless the provider vouches for one caller only.
\<close>

theorem match_in_force_required_its_claims:
  assumes "wf_rules r" and "m \<in> set (p_matches (fst (NewPolicy re r)))" and "match_holds m s"
    and "mt_for m \<noteq> Anyone"
  shows "\<exists>pv \<in> set (p_providers (fst (NewPolicy re r))). pv_Name pv = s_Provider s \<and>
    (\<forall>k src. map_of (pv_When pv) k = Some src \<longrightarrow>
       (\<exists>g c. ParseGlob src = Inr g \<and> map_of (s_Claims s) k = Some c \<and> claimMatches g c)) \<and>
    (is_singular pv \<or> (\<exists>k g c. map_of (mt_when m) k = Some g \<and> map_of (s_Claims s) k = Some c \<and>
       claimMatches g c))"
proof -
  from assms(1,2) obtain n v where "compiled_match r n v = Inr m"
    using p_matches_iff by (auto simp: wf_rules_def)
  from compiled_match_for_provider [OF this assms(1,4)] obtain pv where
    pv: "pv \<in> set (kept_providers r)" "pv_Name pv = mt_for m" "requires (mt_when m) (pv_When pv)"
    "mt_when m \<noteq> [] \<or> is_singular pv" by blast
  have cl: "\<exists>c. map_of (s_Claims s) k = Some c \<and> claimMatches g c" if "map_of (mt_when m) k = Some g" for k g
    using assms(3) that by (simp add: match_holds_iff)
  have name: "pv_Name pv = s_Provider s" using pv assms(3,4) by (simp add: match_holds_iff)
  have req: "\<forall>k src. map_of (pv_When pv) k = Some src \<longrightarrow>
      (\<exists>g c. ParseGlob src = Inr g \<and> map_of (s_Claims s) k = Some c \<and> claimMatches g c)"
    using pv(3) cl unfolding requires_def by blast
  have one: "is_singular pv \<or> (\<exists>k g c. map_of (mt_when m) k = Some g \<and> map_of (s_Claims s) k = Some c \<and>
      claimMatches g c)"
  proof (cases "mt_when m")
    case (Cons a w)
    then have "map_of (mt_when m) (fst a) = Some (snd a)" by simp
    with cl show ?thesis by blast
  qed (use pv in simp)
  from pv(1) name req one show ?thesis by (auto simp: NewPolicy_parts)
qed

definition sample_pmatch :: pmatch where
  "sample_pmatch = hd (p_matches (fst (NewPolicy (\<lambda>_. None) sample_rules)))"

lemma match_in_force_required_its_claims_witness:
  "\<exists>pv \<in> set (p_providers (fst (NewPolicy (\<lambda>_. None) sample_rules))). pv_Name pv = s_Provider sample_subject \<and>
    (\<forall>k src. map_of (pv_When pv) k = Some src \<longrightarrow>
       (\<exists>g c. ParseGlob src = Inr g \<and> map_of (s_Claims sample_subject) k = Some c \<and> claimMatches g c)) \<and>
    (is_singular pv \<or> (\<exists>k g c. map_of (mt_when sample_pmatch) k = Some g \<and>
       map_of (s_Claims sample_subject) k = Some c \<and> claimMatches g c))"
proof (rule match_in_force_required_its_claims)
  show "wf_rules sample_rules" by code_simp
  have "p_matches (fst (NewPolicy (\<lambda>_. None) sample_rules)) \<noteq> []" by code_simp
  then show "sample_pmatch \<in> set (p_matches (fst (NewPolicy (\<lambda>_. None) sample_rules)))"
    unfolding sample_pmatch_def by (rule hd_in_set)
  show "match_holds sample_pmatch sample_subject" by code_simp
  show "mt_for sample_pmatch \<noteq> Anyone" by code_simp
qed

text \<open>
  A tag operation is let through exactly when every rule that covers the tag lets it: an
  immutable rule only a create, a protected rule a create or a caller with admin, and a pattern
  rule a delete or a tag its pattern matches.  A rule whose globs did not parse covers every tag,
  and one whose pattern did not compile matches none, so both refuse.
\<close>

theorem CheckTag_exact:
  "CheckTag (Some p) gr repo tag op = None \<longleftrightarrow>
     {r \<in> set (p_TagRules p). tr_Kind r \<noteq> TagRetention \<and>
        (tr_ok r \<and> \<not> (Match (tr_repo r) repo \<and> Match (tr_tag r) tag)) = False \<and>
        (tr_Kind r = TagImmutable \<and> op \<noteq> TagCreate \<or>
         tr_Kind r = TagProtected \<and> op \<noteq> TagCreate \<and> {ActionAdmin, ActionAll} \<inter> set gr = {} \<or>
         tr_Kind r = TagPattern \<and> op \<noteq> TagDelete \<and> \<not> (\<exists>re. tr_re r = Some re \<and> re tag))} = {}"
  by (auto simp: CheckTag_def check_rules_None covers_tag_def rule_refuses_def
      split: tag_rule_kind.splits option.splits if_splits)

text \<open>
  An explanation tells what the policy does.  For a repository, an action other than the
  registry's two lists is allowed exactly when the explanation grants it or grants every action;
  for the registry as a whole the same holds of every action.
\<close>

theorem Explain_agrees_with_Allow:
  "a \<notin> {ActionCatalog, ActionSearch} \<Longrightarrow> repo \<noteq> '''' \<Longrightarrow>
     (Allow (Some p) s repo [a] = [a]) = ({a, ActionAll} \<inter> set (ex_granted (Explain (Some p) s repo)) \<noteq> {}) \<and>
     (AllowRegistry (Some p) s [b] = [b]) = ({b, ActionAll} \<inter> set (ex_granted (Explain (Some p) s '''')) \<noteq> {})"
  by (auto simp: Allow_def AllowRegistry_def Explain_def intersect_def set_granted explain_fold_matches
      ActionAll_def ActionCatalog_def ActionSearch_def)

lemma Explain_agrees_with_Allow_witness:
  "(Allow (Some (fst (NewPolicy (\<lambda>_. None) sample_rules))) sample_subject ''acme/app'' [ActionPull] = [ActionPull]) =
     ({ActionPull, ActionAll} \<inter> set (ex_granted (Explain (Some (fst (NewPolicy (\<lambda>_. None) sample_rules)))
        sample_subject ''acme/app'')) \<noteq> {}) \<and>
   (AllowRegistry (Some (fst (NewPolicy (\<lambda>_. None) sample_rules))) sample_subject [ActionCatalog] = [ActionCatalog]) =
     ({ActionCatalog, ActionAll} \<inter> set (ex_granted (Explain (Some (fst (NewPolicy (\<lambda>_. None) sample_rules)))
        sample_subject '''')) \<noteq> {})"
  by (rule Explain_agrees_with_Allow) (simp_all add: action_defs)

end
