(* ===== verification/Index_Api.thy ===== *)
theory Index_Api
  imports Errors
begin

text \<open>
  The index as its callers see it (\<open>index/index.go\<close>): the records it keeps, the operations of
  \<open>index.Index\<close> as a record of functions over a state \<open>'x\<close>, what each operation promises as
  the locale \<open>index_laws\<close>, and what follows from that for any index, one that fails at any
  call included.
\<close>

section \<open>Records\<close>

record page =
  pg_Last :: string
  pg_N :: int

record repo =
  re_Name :: string
  re_Description :: string
  re_CreatedAt :: time
  re_UpdatedAt :: time

record imanifest =
  im_Digest :: digest
  im_MediaType :: string
  im_ArtifactType :: string
  im_Subject :: digest
  im_Size :: int
  im_Annotations :: "(string, string) gomap"
  im_CreatedAt :: time
  im_PulledAt :: time

record tag =
  tg_Name :: string
  tg_Digest :: digest
  tg_MovedAt :: time
  tg_PulledAt :: time
  tg_CreatedAt :: time
  tg_CheckedAt :: time

record idescriptor =
  id_MediaType :: string
  id_ArtifactType :: string
  id_Digest :: digest
  id_Size :: int
  id_Annotations :: "(string, string) gomap"

record snapshot =
  sn_Subject :: digest
  sn_Supported :: bool
  sn_Descriptors :: "idescriptor list"
  sn_CheckedAt :: time

definition Lists :: "snapshot \<Rightarrow> digest \<Rightarrow> bool" where
  "Lists s d = list_ex (\<lambda>v. id_Digest v = d) (sn_Descriptors s)"

record orphan_candidate =
  oc_Subject :: digest
  oc_ObservedAt :: time

record counts =
  ct_Repositories :: nat
  ct_Manifests :: nat
  ct_Tags :: nat

section \<open>The operations\<close>

text \<open>
  An operation takes the state and answers an error or a value, and the state after.  A
  transaction is what \<open>Tx\<close> does before its function and after: it begins under the
  repository's lock, and ends in a commit or an abort.  \<open>ix_lock\<close> and \<open>ix_unlock\<close> are
  \<open>Lock\<close> and the function it answers.
\<close>

type_synonym ('x, 'r) op = "'x \<Rightarrow> (error + 'r) \<times> 'x"

record 'x index_ops =
  ix_begin :: "string \<Rightarrow> ('x, unit) op"
  ix_commit :: "string \<Rightarrow> ('x, unit) op"
  ix_abort :: "string \<Rightarrow> 'x \<Rightarrow> 'x"
  ix_lock :: "string \<Rightarrow> ('x, unit) op"
  ix_unlock :: "string \<Rightarrow> 'x \<Rightarrow> 'x"
  ix_repo_ensure :: "string \<Rightarrow> ('x, repo) op"
  ix_repo_get :: "string \<Rightarrow> ('x, repo) op"
  ix_repo_update :: "string \<Rightarrow> string option \<Rightarrow> ('x, repo) op"
  ix_repo_erase :: "string \<Rightarrow> ('x, unit) op"
  ix_repo_list :: "page \<Rightarrow> ('x, string list) op"
  ix_repo_search :: "string \<Rightarrow> page \<Rightarrow> ('x, repo list) op"
  ix_put :: "string \<Rightarrow> imanifest \<Rightarrow> digest list \<Rightarrow> ('x, unit) op"
  ix_get :: "string \<Rightarrow> digest \<Rightarrow> ('x, imanifest) op"
  ix_erase :: "string \<Rightarrow> digest \<Rightarrow> ('x, digest list) op"
  ix_referrers :: "string \<Rightarrow> digest \<Rightarrow> string \<Rightarrow> ('x, imanifest list) op"
  ix_holds :: "string \<Rightarrow> digest \<Rightarrow> ('x, bool) op"
  ix_holders :: "string \<Rightarrow> digest \<Rightarrow> ('x, digest list) op"
  ix_list :: "string \<Rightarrow> page \<Rightarrow> ('x, imanifest list) op"
  ix_marks :: "string \<Rightarrow> ('x, digest list) op"
  ix_unneeded :: "string \<Rightarrow> time \<Rightarrow> page \<Rightarrow> ('x, imanifest list) op"
  ix_tag_set :: "string \<Rightarrow> string \<Rightarrow> digest \<Rightarrow> digest \<Rightarrow> ('x, unit) op"
  ix_tag_get :: "string \<Rightarrow> string \<Rightarrow> ('x, tag) op"
  ix_tag_erase :: "string \<Rightarrow> string \<Rightarrow> ('x, unit) op"
  ix_tag_check :: "string \<Rightarrow> string \<Rightarrow> digest \<Rightarrow> time \<Rightarrow> ('x, unit) op"
  ix_tag_newest :: "string \<Rightarrow> ('x, tag) op"
  ix_tag_list :: "string \<Rightarrow> page \<Rightarrow> ('x, string list) op"
  ix_tag_of :: "string \<Rightarrow> digest \<Rightarrow> ('x, tag list) op"
  ix_tag_all :: "string \<Rightarrow> ('x, tag list) op"
  ix_touch :: "string \<Rightarrow> string \<Rightarrow> digest \<Rightarrow> time \<Rightarrow> 'x \<Rightarrow> 'x"
  ix_snap_put :: "string \<Rightarrow> snapshot \<Rightarrow> ('x, unit) op"
  ix_snap_get :: "string \<Rightarrow> digest \<Rightarrow> ('x, snapshot) op"
  ix_snap_list :: "string \<Rightarrow> page \<Rightarrow> ('x, snapshot list) op"
  ix_snap_erase :: "string \<Rightarrow> digest \<Rightarrow> ('x, unit) op"
  ix_seed :: "string \<Rightarrow> ('x, bool) op"
  ix_reset_scan :: "string \<Rightarrow> ('x, unit) op"
  ix_orphan_get :: "string \<Rightarrow> digest \<Rightarrow> ('x, orphan_candidate) op"
  ix_orphan_list :: "string \<Rightarrow> page \<Rightarrow> ('x, orphan_candidate list) op"
  ix_orphan_erase :: "string \<Rightarrow> digest \<Rightarrow> ('x, unit) op"

text \<open>
  \<open>Tx\<close>: what \<open>fn\<close> did is there for everybody once it answered no error, and is gone when it
  answered one.  \<open>fn\<close> runs on a larger state, of which the index is a part that \<open>get\<close> reads
  and \<open>put\<close> replaces.
\<close>

definition Tx :: "'x index_ops \<Rightarrow> ('w \<Rightarrow> 'x) \<Rightarrow> ('x \<Rightarrow> 'w \<Rightarrow> 'w) \<Rightarrow> string \<Rightarrow> ('w, 'r) op \<Rightarrow> ('w, 'r) op" where
  "Tx ix get put repo fn w =
     (case ix_begin ix repo (get w) of
        (Inl e, x1) \<Rightarrow> (Inl e, put x1 w)
      | (Inr _, x1) \<Rightarrow>
          (case fn (put x1 w) of
             (Inl e, w2) \<Rightarrow> (Inl e, put (ix_abort ix repo (get w2)) w2)
           | (Inr r, w2) \<Rightarrow>
               (case ix_commit ix repo (get w2) of
                  (Inl e, x3) \<Rightarrow> (Inl e, put x3 w2)
                | (Inr _, x3) \<Rightarrow> (Inr r, put x3 w2))))"

text \<open>\<open>index.Resolve\<close>: the digest a tag points at.\<close>

definition Resolve :: "'x index_ops \<Rightarrow> string \<Rightarrow> string \<Rightarrow> ('x, digest) op" where
  "Resolve ix repo t x =
     (case ix_tag_get ix repo t x of
        (Inl e, x1) \<Rightarrow> (Inl e, x1)
      | (Inr v, x1) \<Rightarrow> (Inr (tg_Digest v), x1))"

section \<open>What an index keeps\<close>

record entry =
  en_m :: imanifest
  en_holds :: "digest list"

text \<open>The rows of an index, as maps: what an implementation's state means.\<close>

record rows =
  ro_repos :: "string \<Rightarrow> repo option"
  ro_manifests :: "string \<Rightarrow> digest \<Rightarrow> entry option"
  ro_tags :: "string \<Rightarrow> string \<Rightarrow> tag option"
  ro_snaps :: "string \<Rightarrow> digest \<Rightarrow> snapshot option"
  ro_orphans :: "string \<Rightarrow> digest \<Rightarrow> orphan_candidate option"

definition indexed :: "rows \<Rightarrow> string \<Rightarrow> digest \<Rightarrow> bool" where
  "indexed v repo d = (ro_manifests v repo d \<noteq> None)"

definition held :: "rows \<Rightarrow> string \<Rightarrow> digest \<Rightarrow> bool" where
  "held v repo d = (\<exists>h e. ro_manifests v repo h = Some e \<and> d \<in> set (en_holds e))"

definition tagged :: "rows \<Rightarrow> string \<Rightarrow> digest \<Rightarrow> bool" where
  "tagged v repo d = (\<exists>n t. ro_tags v repo n = Some t \<and> tg_Digest t = d)"

text \<open>A digest the repository references: a manifest of it, or something one of them holds.\<close>

definition referenced :: "rows \<Rightarrow> string \<Rightarrow> digest \<Rightarrow> bool" where
  "referenced v repo d = (indexed v repo d \<or> held v repo d)"

section \<open>What the operations promise\<close>

text \<open>
  A page of keys \<open>ks\<close> out of the keys \<open>A\<close> there are: in order, after \<open>Last\<close>, at most \<open>N\<close> of
  them, and none left out before the last of them; a short page is the last one.
\<close>

definition paged :: "string set \<Rightarrow> page \<Rightarrow> string list \<Rightarrow> bool" where
  "paged A p ks =
     (sorted_wrt (<) ks \<and> set ks \<subseteq> A \<and>
      (pg_Last p \<noteq> '''' \<longrightarrow> (\<forall>k \<in> set ks. pg_Last p < k)) \<and>
      (pg_N p > 0 \<longrightarrow> int (length ks) \<le> pg_N p) \<and>
      (\<forall>a \<in> A. (pg_Last p = '''' \<or> pg_Last p < a) \<longrightarrow> a \<notin> set ks \<longrightarrow>
         pg_N p > 0 \<and> int (length ks) = pg_N p \<and> (\<forall>k \<in> set ks. k < a)))"

text \<open>Each specification relates the rows before, the answer, and the rows after.\<close>

definition get_spec :: "string \<Rightarrow> digest \<Rightarrow> rows \<Rightarrow> error + imanifest \<Rightarrow> rows \<Rightarrow> bool" where
  "get_spec repo d v r v' =
     (v' = v \<and> (case r of
        Inr m \<Rightarrow> (\<exists>e. ro_manifests v repo d = Some e \<and> m = en_m e)
      | Inl e \<Rightarrow> errors_is e ErrNotFound \<longrightarrow> ro_manifests v repo d = None))"

definition holds_spec :: "string \<Rightarrow> digest \<Rightarrow> rows \<Rightarrow> error + bool \<Rightarrow> rows \<Rightarrow> bool" where
  "holds_spec repo d v r v' = (v' = v \<and> (case r of Inr b \<Rightarrow> b = held v repo d | Inl e \<Rightarrow> True))"

definition put_spec :: "string \<Rightarrow> imanifest \<Rightarrow> digest list \<Rightarrow> rows \<Rightarrow> error + unit \<Rightarrow> rows \<Rightarrow> bool" where
  "put_spec repo m hs v r v' =
     (case r of
        Inl e \<Rightarrow> v' = v
      | Inr _ \<Rightarrow>
          (if indexed v repo (im_Digest m) then v' = v
           else (\<exists>e. en_holds e = hs \<and> im_Digest (en_m e) = im_Digest m \<and>
                  (im_CreatedAt m \<noteq> 0 \<longrightarrow> en_m e = m) \<and> en_m e = m\<lparr>im_CreatedAt := im_CreatedAt (en_m e)\<rparr> \<and>
             ro_manifests v' = (ro_manifests v)(repo := (ro_manifests v repo)(im_Digest m := Some e)) \<and>
             ro_repos v' = ro_repos v \<and> ro_tags v' = ro_tags v \<and> ro_snaps v' = ro_snaps v)))"

definition erase_spec :: "string \<Rightarrow> digest \<Rightarrow> rows \<Rightarrow> error + digest list \<Rightarrow> rows \<Rightarrow> bool" where
  "erase_spec repo d v r v' =
     (case r of
        Inl e \<Rightarrow> v' = v \<and> (errors_is e ErrNotFound \<longrightarrow> \<not> indexed v repo d)
      | Inr rel \<Rightarrow>
          (\<exists>e. ro_manifests v repo d = Some e \<and>
             ro_manifests v' = (ro_manifests v)(repo := (ro_manifests v repo)(d := None)) \<and>
             ro_repos v' = ro_repos v \<and> ro_tags v' = ro_tags v \<and> ro_snaps v' = ro_snaps v \<and>
             (\<forall>r x. ro_orphans v' r x \<noteq> None \<longrightarrow> ro_orphans v r x \<noteq> None \<or> r = repo \<and> x = d) \<and>
             set rel = {b \<in> set (en_holds e). \<not> referenced v' repo b}))"

definition referrers_spec :: "string \<Rightarrow> digest \<Rightarrow> string \<Rightarrow> rows \<Rightarrow> error + imanifest list \<Rightarrow> rows \<Rightarrow> bool" where
  "referrers_spec repo d at v r v' =
     (v' = v \<and> (case r of Inl e \<Rightarrow> True | Inr ms \<Rightarrow>
        set ms = {en_m e |e h. ro_manifests v repo h = Some e \<and> im_Subject (en_m e) = d \<and>
          (at = '''' \<or> im_ArtifactType (en_m e) = at)}))"

definition list_spec :: "string \<Rightarrow> page \<Rightarrow> rows \<Rightarrow> error + imanifest list \<Rightarrow> rows \<Rightarrow> bool" where
  "list_spec repo p v r v' =
     (v' = v \<and> (case r of Inl e \<Rightarrow> True | Inr ms \<Rightarrow>
        paged {d. indexed v repo d} p (map im_Digest ms) \<and>
        (\<forall>m \<in> set ms. \<exists>e. ro_manifests v repo (im_Digest m) = Some e \<and> en_m e = m)))"

definition marks_spec :: "string \<Rightarrow> rows \<Rightarrow> error + digest list \<Rightarrow> rows \<Rightarrow> bool" where
  "marks_spec repo v r v' =
     (v' = v \<and> (case r of Inl e \<Rightarrow> True | Inr ds \<Rightarrow> set ds = {d. referenced v repo d}))"

text \<open>What the untagged collection may delete, as \<open>Manifests.Unneeded\<close> documents it.\<close>

definition unneeded :: "rows \<Rightarrow> string \<Rightarrow> time \<Rightarrow> digest \<Rightarrow> bool" where
  "unneeded v repo cutoff d =
     (\<exists>e. ro_manifests v repo d = Some e \<and>
        im_CreatedAt (en_m e) < cutoff \<and> (im_PulledAt (en_m e) = 0 \<or> im_PulledAt (en_m e) < cutoff) \<and>
        \<not> tagged v repo d \<and> \<not> held v repo d \<and>
        (im_Subject (en_m e) = '''' \<or> \<not> indexed v repo (im_Subject (en_m e))))"

definition unneeded_spec :: "string \<Rightarrow> time \<Rightarrow> page \<Rightarrow> rows \<Rightarrow> error + imanifest list \<Rightarrow> rows \<Rightarrow> bool" where
  "unneeded_spec repo cutoff p v r v' =
     (v' = v \<and> (case r of Inl e \<Rightarrow> True | Inr ms \<Rightarrow>
        paged {d. unneeded v repo cutoff d} p (map im_Digest ms)))"

definition tag_get_spec :: "string \<Rightarrow> string \<Rightarrow> rows \<Rightarrow> error + tag \<Rightarrow> rows \<Rightarrow> bool" where
  "tag_get_spec repo n v r v' =
     (v' = v \<and> (case r of
        Inr t \<Rightarrow> ro_tags v repo n = Some t
      | Inl e \<Rightarrow> errors_is e ErrNotFound \<longrightarrow> ro_tags v repo n = None))"

definition tag_set_spec :: "string \<Rightarrow> string \<Rightarrow> digest \<Rightarrow> digest \<Rightarrow> rows \<Rightarrow> error + unit \<Rightarrow> rows \<Rightarrow> bool" where
  "tag_set_spec repo n d from v r v' =
     (case r of
        Inl e \<Rightarrow> v' = v
      | Inr _ \<Rightarrow>
          (case ro_tags v repo n of None \<Rightarrow> from = '''' | Some t \<Rightarrow> from \<noteq> '''' \<and> tg_Digest t = from) \<and>
          (\<exists>t. tg_Name t = n \<and> tg_Digest t = d \<and>
             v' = v\<lparr>ro_tags := (ro_tags v)(repo := (ro_tags v repo)(n := Some t))\<rparr>))"

definition tag_erase_spec :: "string \<Rightarrow> string \<Rightarrow> rows \<Rightarrow> error + unit \<Rightarrow> rows \<Rightarrow> bool" where
  "tag_erase_spec repo n v r v' =
     (case r of
        Inl e \<Rightarrow> v' = v \<and> (errors_is e ErrNotFound \<longrightarrow> ro_tags v repo n = None)
      | Inr _ \<Rightarrow> ro_tags v repo n \<noteq> None \<and>
          v' = v\<lparr>ro_tags := (ro_tags v)(repo := (ro_tags v repo)(n := None))\<rparr>)"

definition tag_of_spec :: "string \<Rightarrow> digest \<Rightarrow> rows \<Rightarrow> error + tag list \<Rightarrow> rows \<Rightarrow> bool" where
  "tag_of_spec repo d v r v' =
     (v' = v \<and> (case r of Inl e \<Rightarrow> True | Inr ts \<Rightarrow>
        set ts = {t. \<exists>n. ro_tags v repo n = Some t \<and> tg_Digest t = d} \<and>
        (\<forall>t \<in> set ts. ro_tags v repo (tg_Name t) = Some t)))"

definition tag_all_spec :: "string \<Rightarrow> rows \<Rightarrow> error + tag list \<Rightarrow> rows \<Rightarrow> bool" where
  "tag_all_spec repo v r v' =
     (v' = v \<and> (case r of Inl e \<Rightarrow> True | Inr ts \<Rightarrow>
        sorted_wrt (<) (map tg_Name ts) \<and> (\<forall>n t. ro_tags v repo n = Some t \<longleftrightarrow> t \<in> set ts \<and> tg_Name t = n)))"

definition ensure_spec :: "string \<Rightarrow> rows \<Rightarrow> error + repo \<Rightarrow> rows \<Rightarrow> bool" where
  "ensure_spec n v r v' =
     (case r of
        Inl e \<Rightarrow> v' = v
      | Inr x \<Rightarrow> v' = v\<lparr>ro_repos := (ro_repos v)(n := Some x)\<rparr> \<and> re_Name x = n \<and>
          (case ro_repos v n of Some y \<Rightarrow> x = y | None \<Rightarrow> True))"

definition repo_list_spec :: "page \<Rightarrow> rows \<Rightarrow> error + string list \<Rightarrow> rows \<Rightarrow> bool" where
  "repo_list_spec p v r v' =
     (v' = v \<and> (case r of Inl e \<Rightarrow> True | Inr ns \<Rightarrow> paged {n. ro_repos v n \<noteq> None} p ns))"

definition snap_get_spec :: "string \<Rightarrow> digest \<Rightarrow> rows \<Rightarrow> error + snapshot \<Rightarrow> rows \<Rightarrow> bool" where
  "snap_get_spec repo d v r v' =
     (v' = v \<and> (case r of
        Inr s \<Rightarrow> ro_snaps v repo d = Some s
      | Inl e \<Rightarrow> errors_is e ErrNotFound \<longrightarrow> ro_snaps v repo d = None))"

definition snap_list_spec :: "string \<Rightarrow> page \<Rightarrow> rows \<Rightarrow> error + snapshot list \<Rightarrow> rows \<Rightarrow> bool" where
  "snap_list_spec repo p v r v' =
     (v' = v \<and> (case r of Inl e \<Rightarrow> True | Inr ss \<Rightarrow>
        paged {d. ro_snaps v repo d \<noteq> None} p (map sn_Subject ss) \<and>
        (\<forall>s \<in> set ss. ro_snaps v repo (sn_Subject s) = Some s)))"

definition snap_erase_spec :: "string \<Rightarrow> digest \<Rightarrow> rows \<Rightarrow> error + unit \<Rightarrow> rows \<Rightarrow> bool" where
  "snap_erase_spec repo d v r v' =
     (v' = v \<or> v' = v\<lparr>ro_snaps := (ro_snaps v)(repo := (ro_snaps v repo)(d := None))\<rparr>)"

definition tag_check_spec :: "string \<Rightarrow> string \<Rightarrow> digest \<Rightarrow> rows \<Rightarrow> error + unit \<Rightarrow> rows \<Rightarrow> bool" where
  "tag_check_spec repo n d v r v' =
     (v' = v \<or> (\<exists>t at. ro_tags v repo n = Some t \<and> tg_Digest t = d \<and>
        v' = v\<lparr>ro_tags := (ro_tags v)(repo := (ro_tags v repo)(n := Some (t\<lparr>tg_CheckedAt := at\<rparr>)))\<rparr>))"

definition tag_newest_spec :: "string \<Rightarrow> rows \<Rightarrow> error + tag \<Rightarrow> rows \<Rightarrow> bool" where
  "tag_newest_spec repo v r v' =
     (v' = v \<and> (case r of
        Inr t \<Rightarrow> ro_tags v repo (tg_Name t) = Some t \<and> (\<forall>n u. ro_tags v repo n = Some u \<longrightarrow> tg_MovedAt u \<le> tg_MovedAt t)
      | Inl e \<Rightarrow> errors_is e ErrNotFound \<longrightarrow> (\<forall>n. ro_tags v repo n = None)))"

definition tag_list_spec :: "string \<Rightarrow> page \<Rightarrow> rows \<Rightarrow> error + string list \<Rightarrow> rows \<Rightarrow> bool" where
  "tag_list_spec repo p v r v' =
     (v' = v \<and> (case r of Inl e \<Rightarrow> True | Inr ns \<Rightarrow> paged {n. ro_tags v repo n \<noteq> None} p ns))"

definition holders_spec :: "string \<Rightarrow> digest \<Rightarrow> rows \<Rightarrow> error + digest list \<Rightarrow> rows \<Rightarrow> bool" where
  "holders_spec repo d v r v' =
     (v' = v \<and> (case r of Inl e \<Rightarrow> True | Inr hs \<Rightarrow>
        set hs = {h. \<exists>e. ro_manifests v repo h = Some e \<and> d \<in> set (en_holds e)}))"

definition repo_get_spec :: "string \<Rightarrow> rows \<Rightarrow> error + repo \<Rightarrow> rows \<Rightarrow> bool" where
  "repo_get_spec n v r v' =
     (v' = v \<and> (case r of
        Inr x \<Rightarrow> ro_repos v n = Some x
      | Inl e \<Rightarrow> errors_is e ErrNotFound \<longrightarrow> ro_repos v n = None))"

text \<open>A repository that a search for \<open>q\<close> finds: in its name or its description, whatever the case.\<close>

definition finds :: "string \<Rightarrow> repo \<Rightarrow> bool" where
  "finds q x = (contains (to_lower (re_Name x)) (to_lower q) \<or> contains (to_lower (re_Description x)) (to_lower q))"

definition repo_search_spec :: "string \<Rightarrow> page \<Rightarrow> rows \<Rightarrow> error + repo list \<Rightarrow> rows \<Rightarrow> bool" where
  "repo_search_spec q p v r v' =
     (v' = v \<and> (case r of Inl e \<Rightarrow> True | Inr xs \<Rightarrow>
        paged {n. \<exists>x. ro_repos v n = Some x \<and> finds q x} p (map re_Name xs) \<and>
        (\<forall>x \<in> set xs. ro_repos v (re_Name x) = Some x \<and> finds q x)))"

definition snap_put_spec :: "string \<Rightarrow> snapshot \<Rightarrow> rows \<Rightarrow> error + unit \<Rightarrow> rows \<Rightarrow> bool" where
  "snap_put_spec repo s v r v' =
     (case r of
        Inl e \<Rightarrow> v' = v
      | Inr _ \<Rightarrow> v' = v\<lparr>ro_snaps := (ro_snaps v)(repo := (ro_snaps v repo)(sn_Subject s := Some s))\<rparr>)"

text \<open>The work list of the orphans' collection is all that its operations change.\<close>

definition orphans_only :: "rows \<Rightarrow> error + 'r \<Rightarrow> rows \<Rightarrow> bool" where
  "orphans_only v r v' = (\<exists>c. v' = v\<lparr>ro_orphans := c\<rparr>)"

definition orphans_shrink :: "rows \<Rightarrow> error + 'r \<Rightarrow> rows \<Rightarrow> bool" where
  "orphans_shrink v r v' =
     (orphans_only v r v' \<and> (\<forall>repo d. ro_orphans v' repo d \<noteq> None \<longrightarrow> ro_orphans v repo d \<noteq> None))"

definition orphan_get_spec :: "string \<Rightarrow> digest \<Rightarrow> rows \<Rightarrow> error + orphan_candidate \<Rightarrow> rows \<Rightarrow> bool" where
  "orphan_get_spec repo d v r v' =
     (v' = v \<and> (case r of
        Inr c \<Rightarrow> ro_orphans v repo d = Some c
      | Inl e \<Rightarrow> errors_is e ErrNotFound \<longrightarrow> ro_orphans v repo d = None))"

definition orphan_list_spec :: "string \<Rightarrow> page \<Rightarrow> rows \<Rightarrow> error + orphan_candidate list \<Rightarrow> rows \<Rightarrow> bool" where
  "orphan_list_spec repo p v r v' =
     (v' = v \<and> (case r of Inl e \<Rightarrow> True | Inr cs \<Rightarrow>
        paged {d. ro_orphans v repo d \<noteq> None} p (map oc_Subject cs)))"

text \<open>A pull moves the times of a pull, and nothing else.\<close>

definition same_but_pulled :: "rows \<Rightarrow> rows \<Rightarrow> bool" where
  "same_but_pulled v v' =
     (ro_repos v' = ro_repos v \<and> ro_snaps v' = ro_snaps v \<and> ro_orphans v' = ro_orphans v \<and>
      (\<forall>repo d. map_option (\<lambda>e. e\<lparr>en_m := (en_m e)\<lparr>im_PulledAt := 0\<rparr>\<rparr>) (ro_manifests v' repo d) =
         map_option (\<lambda>e. e\<lparr>en_m := (en_m e)\<lparr>im_PulledAt := 0\<rparr>\<rparr>) (ro_manifests v repo d)) \<and>
      (\<forall>repo n. map_option (\<lambda>t. t\<lparr>tg_PulledAt := 0\<rparr>) (ro_tags v' repo n) =
         map_option (\<lambda>t. t\<lparr>tg_PulledAt := 0\<rparr>) (ro_tags v repo n)))"

text \<open>
  An operation on a state keeps its invariant; inside a transaction it changes what the
  transaction sees, outside it what everybody sees; and it does what its specification says.
\<close>

definition op_ok :: "('x \<Rightarrow> bool) \<Rightarrow> ('x \<Rightarrow> rows) \<Rightarrow> ('x \<Rightarrow> rows) \<Rightarrow> ('x \<Rightarrow> bool) \<Rightarrow>
    (rows \<Rightarrow> error + 'r \<Rightarrow> rows \<Rightarrow> bool) \<Rightarrow> ('x, 'r) op \<Rightarrow> bool" where
  "op_ok good seen outer intx Q f =
     (\<forall>x r x'. good x \<longrightarrow> f x = (r, x') \<longrightarrow>
        good x' \<and> intx x' = intx x \<and> outer x' = (if intx x then outer x else seen x') \<and> Q (seen x) r (seen x'))"

locale index_laws =
  fixes ix :: "'x index_ops"
    and good :: "'x \<Rightarrow> bool"
    and seen :: "'x \<Rightarrow> rows"
    and outer :: "'x \<Rightarrow> rows"
    and intx :: "'x \<Rightarrow> bool"
  assumes seen_outer: "good x \<Longrightarrow> \<not> intx x \<Longrightarrow> seen x = outer x"
    and begin_law: "good x \<Longrightarrow> \<not> intx x \<Longrightarrow> ix_begin ix repo x = (r, x') \<Longrightarrow>
      good x' \<and> outer x' = outer x \<and> seen x' = seen x \<and> intx x' = is_ok r"
    and commit_law: "good x \<Longrightarrow> intx x \<Longrightarrow> ix_commit ix repo x = (r, x') \<Longrightarrow>
      good x' \<and> \<not> intx x' \<and> outer x' = (if is_ok r then seen x else outer x)"
    and abort_law: "good x \<Longrightarrow> intx x \<Longrightarrow>
      good (ix_abort ix repo x) \<and> \<not> intx (ix_abort ix repo x) \<and> outer (ix_abort ix repo x) = outer x"
    and lock_law: "op_ok good seen outer intx (\<lambda>v r v'. v' = v) (ix_lock ix repo)"
    and unlock_law: "good x \<Longrightarrow> good (ix_unlock ix repo x) \<and> intx (ix_unlock ix repo x) = intx x \<and>
      seen (ix_unlock ix repo x) = seen x \<and> outer (ix_unlock ix repo x) = outer x"
    and touch_law: "good x \<Longrightarrow> good (ix_touch ix repo n d at x) \<and> intx (ix_touch ix repo n d at x) = intx x \<and>
      outer (ix_touch ix repo n d at x) = (if intx x then outer x else seen (ix_touch ix repo n d at x)) \<and>
      same_but_pulled (seen x) (seen (ix_touch ix repo n d at x))"
    and ensure_law: "op_ok good seen outer intx (ensure_spec n) (ix_repo_ensure ix n)"
    and repo_list_law: "op_ok good seen outer intx (repo_list_spec p) (ix_repo_list ix p)"
    and put_law: "op_ok good seen outer intx (put_spec repo m hs) (ix_put ix repo m hs)"
    and get_law: "op_ok good seen outer intx (get_spec repo d) (ix_get ix repo d)"
    and erase_law: "op_ok good seen outer intx (erase_spec repo d) (ix_erase ix repo d)"
    and referrers_law: "op_ok good seen outer intx (referrers_spec repo d n) (ix_referrers ix repo d n)"
    and holds_law: "op_ok good seen outer intx (holds_spec repo d) (ix_holds ix repo d)"
    and list_law: "op_ok good seen outer intx (list_spec repo p) (ix_list ix repo p)"
    and marks_law: "op_ok good seen outer intx (marks_spec repo) (ix_marks ix repo)"
    and unneeded_law: "op_ok good seen outer intx (unneeded_spec repo c p) (ix_unneeded ix repo c p)"
    and tag_set_law: "op_ok good seen outer intx (tag_set_spec repo n d from) (ix_tag_set ix repo n d from)"
    and tag_get_law: "op_ok good seen outer intx (tag_get_spec repo n) (ix_tag_get ix repo n)"
    and tag_erase_law: "op_ok good seen outer intx (tag_erase_spec repo n) (ix_tag_erase ix repo n)"
    and tag_of_law: "op_ok good seen outer intx (tag_of_spec repo d) (ix_tag_of ix repo d)"
    and tag_all_law: "op_ok good seen outer intx (tag_all_spec repo) (ix_tag_all ix repo)"
    and snap_get_law: "op_ok good seen outer intx (snap_get_spec repo d) (ix_snap_get ix repo d)"
    and snap_list_law: "op_ok good seen outer intx (snap_list_spec repo p) (ix_snap_list ix repo p)"
    and snap_erase_law: "op_ok good seen outer intx (snap_erase_spec repo d) (ix_snap_erase ix repo d)"
    and seed_law: "op_ok good seen outer intx orphans_only (ix_seed ix repo)"
    and reset_law: "op_ok good seen outer intx (\<lambda>v r v'. v' = v) (ix_reset_scan ix repo)"
    and orphan_get_law: "op_ok good seen outer intx (orphan_get_spec repo d) (ix_orphan_get ix repo d)"
    and orphan_list_law: "op_ok good seen outer intx (orphan_list_spec repo p) (ix_orphan_list ix repo p)"
    and orphan_erase_law: "op_ok good seen outer intx orphans_shrink (ix_orphan_erase ix repo d)"
    and tag_check_law: "op_ok good seen outer intx (tag_check_spec repo n d) (ix_tag_check ix repo n d at)"
    and tag_newest_law: "op_ok good seen outer intx (tag_newest_spec repo) (ix_tag_newest ix repo)"
    and tag_list_law: "op_ok good seen outer intx (tag_list_spec repo p) (ix_tag_list ix repo p)"
    and holders_law: "op_ok good seen outer intx (holders_spec repo d) (ix_holders ix repo d)"
    and repo_get_law: "op_ok good seen outer intx (repo_get_spec n) (ix_repo_get ix n)"
    and repo_search_law: "op_ok good seen outer intx (repo_search_spec q p) (ix_repo_search ix q p)"
    and snap_put_law: "op_ok good seen outer intx (snap_put_spec repo s) (ix_snap_put ix repo s)"
begin

lemma opD:
  "op_ok good seen outer intx Q f \<Longrightarrow> good x \<Longrightarrow> f x = (r, x') \<Longrightarrow>
     good x' \<and> intx x' = intx x \<and> outer x' = (if intx x then outer x else seen x') \<and> Q (seen x) r (seen x')"
  unfolding op_ok_def by blast

text \<open>A transaction leaves everything as it was, or everything as its function left it.\<close>

lemma Tx_cases:
  assumes "good (get w)" "\<not> intx (get w)" "Tx ix get put repo fn w = (r, w')"
    and gp: "\<And>x w. get (put x w) = x"
    and fn: "\<And>w1 r w2. good (get w1) \<Longrightarrow> intx (get w1) \<Longrightarrow> seen (get w1) = seen (get w) \<Longrightarrow>
      outer (get w1) = outer (get w) \<Longrightarrow> fn w1 = (r, w2) \<Longrightarrow>
      good (get w2) \<and> intx (get w2) \<and> outer (get w2) = outer (get w) \<and> P r (seen (get w2))"
  shows "good (get w') \<and> \<not> intx (get w') \<and>
    (outer (get w') = outer (get w) \<and> \<not> is_ok r \<or> P r (outer (get w')) \<and> is_ok r)"
proof -
  obtain r1 x1 where b: "ix_begin ix repo (get w) = (r1, x1)" by force
  from begin_law [OF assms(1,2) b] have x1: "good x1" "outer x1 = outer (get w)" "seen x1 = seen (get w)"
    "intx x1 = is_ok r1" by auto
  show ?thesis
  proof (cases r1)
    case (Inl e)
    with assms(3) b x1 gp show ?thesis by (auto simp: Tx_def)
  next
    case (Inr u)
    obtain r2 w2 where f: "fn (put x1 w) = (r2, w2)" by force
    have w2: "good (get w2)" "intx (get w2)" "outer (get w2) = outer (get w)" "P r2 (seen (get w2))"
      using fn [OF _ _ _ _ f] x1 Inr by (auto simp: gp)
    show ?thesis
    proof (cases r2)
      case (Inl e)
      with assms(3) b f Inr abort_law [OF w2(1,2)] w2 show ?thesis by (auto simp: Tx_def gp)
    next
      case r2: (Inr y)
      obtain r3 x3 where c: "ix_commit ix repo (get w2) = (r3, x3)" by force
      from commit_law [OF w2(1,2) c] w2 assms(3) b f Inr r2 c show ?thesis
        by (cases r3) (auto simp: Tx_def gp)
    qed
  qed
qed

end

end
