(* ===== verification/Mem_Index.thy ===== *)
theory Mem_Index
  imports Index_Api
begin

text \<open>
  The index in memory (\<open>index/memindex\<close>).  First the state and every operation on it, as a
  function from the state to an answer and the state after; then the locks around it: what
  \<open>view.do\<close> takes for one operation and what \<open>Tx\<close> and \<open>Lock\<close> hold.

  Whether a lock comes free in time is decided by the environment: \<open>mi_acquire\<close> is what becomes
  of the waits to come, in order, and a wait beyond its end succeeds.  The clock does not move
  within one operation.
\<close>

section \<open>The state\<close>

record orphan_scan =
  sc_cursor :: string
  sc_complete :: bool

record state =
  st_repos :: "(string, repo) gomap"
  st_manifests :: "(string, (digest, entry) gomap) gomap"
  st_tags :: "(string, (string, tag) gomap) gomap"
  st_snapshots :: "(string, (digest, snapshot) gomap) gomap"
  st_orphans :: "(string, (digest, orphan_candidate) gomap) gomap"
  st_scans :: "(string, orphan_scan) gomap"

definition newState :: state where
  "newState = \<lparr>st_repos = [], st_manifests = [], st_tags = [], st_snapshots = [], st_orphans = [], st_scans = []\<rparr>"

definition page_of :: "'a list \<Rightarrow> ('a \<Rightarrow> string) \<Rightarrow> page \<Rightarrow> 'a list" where
  "page_of vs key p =
     (let i = bsearch (\<lambda>v. key v < pg_Last p) vs 0 (length vs);
          vs1 = dropWhile (\<lambda>v. pg_Last p \<noteq> '''' \<and> key v \<le> pg_Last p) (drop i vs)
      in if pg_N p > 0 \<and> int (length vs1) > pg_N p then take (nat (pg_N p)) vs1 else vs1)"

text \<open>The values of a map in the order of a key of theirs.\<close>

definition sorted_values :: "('v \<Rightarrow> string) \<Rightarrow> ('k, 'v) gomap \<Rightarrow> 'v list" where
  "sorted_values key m = sort_key key (map snd m)"

section \<open>Repositories\<close>

definition repos_Ensure :: "time \<Rightarrow> string \<Rightarrow> (state, repo) op" where
  "repos_Ensure now name s =
     (case map_of (st_repos s) name of
        Some v \<Rightarrow> (Inr v, s)
      | None \<Rightarrow>
          (let v = \<lparr>re_Name = name, re_Description = '''', re_CreatedAt = now, re_UpdatedAt = now\<rparr>
           in (Inr v, s\<lparr>st_repos := AList.update name v (st_repos s)\<rparr>)))"

definition repos_Get :: "string \<Rightarrow> (state, repo) op" where
  "repos_Get name s = (case map_of (st_repos s) name of None \<Rightarrow> (Inl ErrNotFound, s) | Some v \<Rightarrow> (Inr v, s))"

text \<open>The patch holds a description or none.\<close>

definition repos_Update :: "time \<Rightarrow> string \<Rightarrow> string option \<Rightarrow> (state, repo) op" where
  "repos_Update now name patch s =
     (case map_of (st_repos s) name of
        None \<Rightarrow> (Inl ErrNotFound, s)
      | Some v \<Rightarrow>
          (let v1 = (case patch of None \<Rightarrow> v | Some t \<Rightarrow> v\<lparr>re_Description := t\<rparr>);
               v2 = v1\<lparr>re_UpdatedAt := now\<rparr>
           in (Inr v2, s\<lparr>st_repos := AList.update name v2 (st_repos s)\<rparr>)))"

definition repos_sorted :: "state \<Rightarrow> repo list" where
  "repos_sorted s = sorted_values re_Name (st_repos s)"

definition repos_List :: "page \<Rightarrow> (state, string list) op" where
  "repos_List p s = (Inr (map re_Name (page_of (repos_sorted s) re_Name p)), s)"

definition repos_Search :: "string \<Rightarrow> page \<Rightarrow> (state, repo list) op" where
  "repos_Search q p s =
     (let q' = to_lower q;
          vs = delete_func (\<lambda>v. \<not> contains (to_lower (re_Name v)) q' \<and>
            \<not> contains (to_lower (re_Description v)) q') (repos_sorted s)
      in (Inr (page_of vs re_Name p), s))"

definition repos_Erase :: "string \<Rightarrow> (state, unit) op" where
  "repos_Erase name s =
     (Inr (), s\<lparr>st_repos := AList.delete name (st_repos s),
        st_manifests := AList.delete name (st_manifests s),
        st_tags := AList.delete name (st_tags s),
        st_snapshots := AList.delete name (st_snapshots s),
        st_orphans := AList.delete name (st_orphans s),
        st_scans := AList.delete name (st_scans s)\<rparr>)"

section \<open>Orphan candidates, as \<open>Put\<close> and \<open>Erase\<close> record them (\<open>orphans.go\<close>)\<close>

definition observe :: "state \<Rightarrow> string \<Rightarrow> digest \<Rightarrow> time \<Rightarrow> bool \<Rightarrow> state" where
  "observe s repo subject at refresh =
     (if map_of (inner (st_orphans s) repo) subject \<noteq> None \<and> \<not> refresh then s
      else s\<lparr>st_orphans := AList.update repo
        (AList.update subject \<lparr>oc_Subject = subject, oc_ObservedAt = at\<rparr> (inner (st_orphans s) repo))
        (st_orphans s)\<rparr>)"

section \<open>Manifests\<close>

definition man :: "state \<Rightarrow> string \<Rightarrow> digest \<Rightarrow> entry option" where
  "man s repo d = map_of (inner (st_manifests s) repo) d"

definition entries :: "state \<Rightarrow> string \<Rightarrow> entry list" where
  "entries s repo = map snd (inner (st_manifests s) repo)"

definition manifests_Put :: "time \<Rightarrow> string \<Rightarrow> imanifest \<Rightarrow> digest list \<Rightarrow> (state, unit) op" where
  "manifests_Put now repo m holds s =
     (if man s repo (im_Digest m) \<noteq> None then (Inr (), s)
      else
        (let m1 = (if im_CreatedAt m = 0 then m\<lparr>im_CreatedAt := now\<rparr> else m);
             s1 = s\<lparr>st_manifests := AList.update repo
               (AList.update (im_Digest m1) \<lparr>en_m = m1, en_holds = holds\<rparr> (inner (st_manifests s) repo))
               (st_manifests s)\<rparr>;
             s2 = (if im_Subject m1 \<noteq> '''' \<and> man s1 repo (im_Subject m1) = None
               then observe s1 repo (im_Subject m1) now True else s1)
         in (Inr (), s2)))"

definition manifests_Get :: "string \<Rightarrow> digest \<Rightarrow> (state, imanifest) op" where
  "manifests_Get repo d s = (case man s repo d of None \<Rightarrow> (Inl ErrNotFound, s) | Some e \<Rightarrow> (Inr (en_m e), s))"

definition st_holds :: "state \<Rightarrow> string \<Rightarrow> digest \<Rightarrow> bool" where
  "st_holds s repo d = list_ex (\<lambda>e. d \<in> set (en_holds e)) (entries s repo)"

definition manifests_Erase :: "time \<Rightarrow> string \<Rightarrow> digest \<Rightarrow> (state, digest list) op" where
  "manifests_Erase now repo d s =
     (case man s repo d of
        None \<Rightarrow> (Inl ErrNotFound, s)
      | Some e \<Rightarrow>
          (let s1 = s\<lparr>st_manifests := AList.update repo (AList.delete d (inner (st_manifests s) repo)) (st_manifests s)\<rparr>;
               s2 = (if list_ex (\<lambda>ref. im_Subject (en_m ref) = d) (entries s1 repo)
                 then observe s1 repo d now True else s1)
           in (Inr (filter (\<lambda>b. \<not> st_holds s2 repo b \<and> man s2 repo b = None) (en_holds e)), s2)))"

definition manifests_Referrers :: "string \<Rightarrow> digest \<Rightarrow> string \<Rightarrow> (state, imanifest list) op" where
  "manifests_Referrers repo subject artifactType s =
     (Inr (sort_key im_Digest (filter (\<lambda>m. im_Subject m = subject \<and>
        (artifactType = '''' \<or> im_ArtifactType m = artifactType)) (map en_m (entries s repo)))), s)"

definition manifests_Holds :: "string \<Rightarrow> digest \<Rightarrow> (state, bool) op" where
  "manifests_Holds repo d s = (Inr (st_holds s repo d), s)"

definition manifests_Holders :: "string \<Rightarrow> digest \<Rightarrow> (state, digest list) op" where
  "manifests_Holders repo d s =
     (Inr (sort (map fst (filter (\<lambda>(h, e). d \<in> set (en_holds e)) (inner (st_manifests s) repo)))), s)"

definition manifests_List :: "string \<Rightarrow> page \<Rightarrow> (state, imanifest list) op" where
  "manifests_List repo p s = (Inr (page_of (sort_key im_Digest (map en_m (entries s repo))) im_Digest p), s)"

text \<open>The manifests the untagged collection may delete, the loop's tests in its order.\<close>

definition unneeded_now :: "state \<Rightarrow> string \<Rightarrow> time \<Rightarrow> digest \<Rightarrow> imanifest \<Rightarrow> bool" where
  "unneeded_now s repo cutoff d m =
     (if \<not> (im_CreatedAt m < cutoff) \<or> \<not> (im_PulledAt m = 0 \<or> im_PulledAt m < cutoff) then False
      else if d \<in> tg_Digest ` set (map snd (inner (st_tags s) repo)) then False
      else if d \<in> (\<Union>e \<in> set (entries s repo). set (en_holds e)) then False
      else if im_Subject m \<noteq> '''' \<and> man s repo (im_Subject m) \<noteq> None then False
      else True)"

definition manifests_Unneeded :: "string \<Rightarrow> time \<Rightarrow> page \<Rightarrow> (state, imanifest list) op" where
  "manifests_Unneeded repo cutoff p s =
     (let vs = map (\<lambda>(d, e). en_m e)
        (filter (\<lambda>(d, e). unneeded_now s repo cutoff d (en_m e)) (inner (st_manifests s) repo))
      in (Inr (page_of (sort_key im_Digest vs) im_Digest p), s))"

definition manifests_Marks :: "string \<Rightarrow> (state, digest list) op" where
  "manifests_Marks repo s =
     (Inr (remdups (concat (map (\<lambda>(d, e). d # en_holds e) (inner (st_manifests s) repo)))), s)"

section \<open>Tags\<close>

definition tags_Set :: "time \<Rightarrow> string \<Rightarrow> string \<Rightarrow> digest \<Rightarrow> digest \<Rightarrow> (state, unit) op" where
  "tags_Set now repo name d from s =
     (let s1 = (if map_of (st_tags s) repo = None then s\<lparr>st_tags := AList.update repo [] (st_tags s)\<rparr> else s);
          v = map_of (inner (st_tags s1) repo) name
      in if ((v \<noteq> None) \<noteq> (from \<noteq> '''')) \<or> (v \<noteq> None \<and> tg_Digest (the v) \<noteq> from) then (Inl ErrTagMoved, s1)
         else
           (let v1 = (case v of Some t \<Rightarrow> t
                | None \<Rightarrow> \<lparr>tg_Name = name, tg_Digest = '''', tg_MovedAt = 0, tg_PulledAt = 0,
                           tg_CreatedAt = now, tg_CheckedAt = 0\<rparr>);
                v2 = (if tg_Digest v1 \<noteq> d then v1\<lparr>tg_MovedAt := now\<rparr> else v1);
                v3 = v2\<lparr>tg_Digest := d\<rparr>
            in (Inr (), s1\<lparr>st_tags := AList.update repo (AList.update name v3 (inner (st_tags s1) repo)) (st_tags s1)\<rparr>)))"

definition tags_Get :: "string \<Rightarrow> string \<Rightarrow> (state, tag) op" where
  "tags_Get repo name s =
     (case map_of (inner (st_tags s) repo) name of None \<Rightarrow> (Inl ErrNotFound, s) | Some v \<Rightarrow> (Inr v, s))"

definition tags_Erase :: "string \<Rightarrow> string \<Rightarrow> (state, unit) op" where
  "tags_Erase repo name s =
     (case map_of (inner (st_tags s) repo) name of
        None \<Rightarrow> (Inl ErrNotFound, s)
      | Some v \<Rightarrow> (Inr (), s\<lparr>st_tags := AList.update repo (AList.delete name (inner (st_tags s) repo)) (st_tags s)\<rparr>))"

definition tags_Check :: "string \<Rightarrow> string \<Rightarrow> digest \<Rightarrow> time \<Rightarrow> (state, unit) op" where
  "tags_Check repo name d at s =
     (case map_of (inner (st_tags s) repo) name of
        Some v \<Rightarrow>
          if tg_Digest v = d \<and> at > tg_CheckedAt v then
            (Inr (), s\<lparr>st_tags := AList.update repo
               (AList.update name (v\<lparr>tg_CheckedAt := at\<rparr>) (inner (st_tags s) repo)) (st_tags s)\<rparr>)
          else (Inr (), s)
      | None \<Rightarrow> (Inr (), s))"

definition tags_sorted :: "state \<Rightarrow> string \<Rightarrow> tag list" where
  "tags_sorted s repo = sorted_values tg_Name (inner (st_tags s) repo)"

definition tags_List :: "string \<Rightarrow> page \<Rightarrow> (state, string list) op" where
  "tags_List repo p s = (Inr (map tg_Name (page_of (tags_sorted s repo) tg_Name p)), s)"

definition tags_Of :: "string \<Rightarrow> digest \<Rightarrow> (state, tag list) op" where
  "tags_Of repo d s = (Inr (filter (\<lambda>v. tg_Digest v = d) (tags_sorted s repo)), s)"

definition tags_All :: "string \<Rightarrow> (state, tag list) op" where
  "tags_All repo s = (Inr (tags_sorted s repo), s)"

definition newer :: "tag option \<Rightarrow> tag \<Rightarrow> tag option" where
  "newer out v = (case out of None \<Rightarrow> Some v | Some o' \<Rightarrow> if tg_MovedAt v > tg_MovedAt o' then Some v else out)"

definition tags_Newest :: "string \<Rightarrow> (state, tag) op" where
  "tags_Newest repo s =
     (case foldl newer None (tags_sorted s repo) of None \<Rightarrow> (Inl ErrNotFound, s) | Some v \<Rightarrow> (Inr v, s))"

section \<open>Pulls\<close>

definition touch_manifest :: "string \<Rightarrow> digest \<Rightarrow> time \<Rightarrow> state \<Rightarrow> state" where
  "touch_manifest repo d at s =
     (case man s repo d of
        Some e \<Rightarrow>
          if at > im_PulledAt (en_m e) then
            s\<lparr>st_manifests := AList.update repo
              (AList.update d (e\<lparr>en_m := (en_m e)\<lparr>im_PulledAt := at\<rparr>\<rparr>) (inner (st_manifests s) repo)) (st_manifests s)\<rparr>
          else s
      | None \<Rightarrow> s)"

definition touch_tag :: "string \<Rightarrow> string \<Rightarrow> time \<Rightarrow> state \<Rightarrow> state" where
  "touch_tag repo name at s =
     (case map_of (inner (st_tags s) repo) name of
        Some v \<Rightarrow>
          if at > tg_PulledAt v then
            s\<lparr>st_tags := AList.update repo (AList.update name (v\<lparr>tg_PulledAt := at\<rparr>) (inner (st_tags s) repo)) (st_tags s)\<rparr>
          else s
      | None \<Rightarrow> s)"

definition pulled_Touch :: "string \<Rightarrow> string \<Rightarrow> digest \<Rightarrow> time \<Rightarrow> (state, unit) op" where
  "pulled_Touch repo name d at s =
     (let s1 = touch_manifest repo d at s in (Inr (), if name = '''' then s1 else touch_tag repo name at s1))"

section \<open>Snapshots\<close>

definition snapshots_Put :: "string \<Rightarrow> snapshot \<Rightarrow> (state, unit) op" where
  "snapshots_Put repo v s =
     (Inr (), s\<lparr>st_snapshots := AList.update repo
        (AList.update (sn_Subject v) v (inner (st_snapshots s) repo)) (st_snapshots s)\<rparr>)"

definition snapshots_Get :: "string \<Rightarrow> digest \<Rightarrow> (state, snapshot) op" where
  "snapshots_Get repo subject s =
     (case map_of (inner (st_snapshots s) repo) subject of None \<Rightarrow> (Inl ErrNotFound, s) | Some v \<Rightarrow> (Inr v, s))"

definition snapshots_List :: "string \<Rightarrow> page \<Rightarrow> (state, snapshot list) op" where
  "snapshots_List repo p s =
     (Inr (page_of (sorted_values sn_Subject (inner (st_snapshots s) repo)) sn_Subject p), s)"

definition snapshots_Erase :: "string \<Rightarrow> digest \<Rightarrow> (state, unit) op" where
  "snapshots_Erase repo subject s =
     (case map_of (inner (st_snapshots s) repo) subject of
        None \<Rightarrow> (Inl ErrNotFound, s)
      | Some v \<Rightarrow> (Inr (), s\<lparr>st_snapshots := AList.update repo
          (AList.delete subject (inner (st_snapshots s) repo)) (st_snapshots s)\<rparr>))"

section \<open>The orphans' work list\<close>

definition seed_batch :: nat where
  "seed_batch = 500"

definition scan_of :: "state \<Rightarrow> string \<Rightarrow> orphan_scan" where
  "scan_of s repo = (case map_of (st_scans s) repo of None \<Rightarrow> \<lparr>sc_cursor = '''', sc_complete = False\<rparr> | Some x \<Rightarrow> x)"

text \<open>One key of the batch: its manifest's subject is recorded when it is absent.\<close>

definition seed_key :: "time \<Rightarrow> string \<Rightarrow> digest \<Rightarrow> state \<Rightarrow> state" where
  "seed_key now repo key s =
     (let m = en_m (the (man s repo key)) in
      if im_Subject m \<noteq> '''' \<and> man s repo (im_Subject m) = None then observe s repo (im_Subject m) now False
      else s)"

definition orphans_Seed :: "time \<Rightarrow> string \<Rightarrow> (state, bool) op" where
  "orphans_Seed now repo s =
     (let scan = scan_of s repo in
      if sc_complete scan then (Inr True, s)
      else
        (let all = sort (filter (\<lambda>d. d > sc_cursor scan) (map fst (inner (st_manifests s) repo)));
             done' = (length all < seed_batch);
             keys = (if length all > seed_batch then take seed_batch all else all);
             s1 = fold (seed_key now repo) keys s;
             cursor = (if keys = [] then sc_cursor scan else last keys)
         in (Inr done', s1\<lparr>st_scans := AList.update repo \<lparr>sc_cursor = cursor, sc_complete = done'\<rparr> (st_scans s1)\<rparr>)))"

definition orphans_ResetScan :: "string \<Rightarrow> (state, unit) op" where
  "orphans_ResetScan repo s = (Inr (), s\<lparr>st_scans := AList.delete repo (st_scans s)\<rparr>)"

definition orphans_Get :: "string \<Rightarrow> digest \<Rightarrow> (state, orphan_candidate) op" where
  "orphans_Get repo subject s =
     (case map_of (inner (st_orphans s) repo) subject of None \<Rightarrow> (Inl ErrNotFound, s) | Some v \<Rightarrow> (Inr v, s))"

definition orphans_List :: "string \<Rightarrow> page \<Rightarrow> (state, orphan_candidate list) op" where
  "orphans_List repo p s =
     (Inr (page_of (sorted_values oc_Subject (inner (st_orphans s) repo)) oc_Subject p), s)"

definition orphans_Erase :: "string \<Rightarrow> digest \<Rightarrow> (state, unit) op" where
  "orphans_Erase repo subject s =
     (Inr (), s\<lparr>st_orphans := AList.update repo (AList.delete subject (inner (st_orphans s) repo)) (st_orphans s)\<rparr>)"

section \<open>Locks and transactions\<close>

datatype ctx_error = CtxCanceled | CtxDeadline

record mem_index =
  mi_s :: state
  mi_locked :: "string list"
  mi_acquire :: "ctx_error option list"
  mi_Wait :: duration
  mi_now :: time

text \<open>A transaction's view has a copy of the state; \<open>vw_depth\<close> counts the transactions inside it.\<close>

record view =
  vw_ix :: mem_index
  vw_s :: "state option"
  vw_depth :: nat

definition ctx_failed :: "mem_index \<Rightarrow> ctx_error \<Rightarrow> error" where
  "ctx_failed ix e =
     (case e of
        CtxDeadline \<Rightarrow> if mi_Wait ix > 0 then ErrBusy else DeadlineExceeded
      | CtxCanceled \<Rightarrow> Canceled)"

text \<open>Waiting for a channel; one that is \<open>taken\<close> by this caller itself does not come free.\<close>

definition acquire :: "bool \<Rightarrow> (mem_index, unit) op" where
  "acquire taken ix =
     (case mi_acquire ix of
        [] \<Rightarrow> (if taken then Inl (ctx_failed ix CtxDeadline) else Inr (), ix)
      | o' # os \<Rightarrow>
          (case o' of
             None \<Rightarrow> if taken then Inl (ctx_failed ix CtxDeadline) else Inr ()
           | Some e \<Rightarrow> Inl (ctx_failed ix e), ix\<lparr>mi_acquire := os\<rparr>))"

definition view_do :: "(state, 'r) op \<Rightarrow> (view, 'r) op" where
  "view_do f v =
     (case vw_s v of
        Some s \<Rightarrow> (case f s of (r, s') \<Rightarrow> (r, v\<lparr>vw_s := Some s'\<rparr>))
      | None \<Rightarrow>
          (case acquire False (vw_ix v) of
             (Inl e, ix) \<Rightarrow> (Inl e, v\<lparr>vw_ix := ix\<rparr>)
           | (Inr _, ix) \<Rightarrow> (case f (mi_s ix) of (r, s') \<Rightarrow> (r, v\<lparr>vw_ix := ix\<lparr>mi_s := s'\<rparr>\<rparr>))))"

definition view_Lock :: "string \<Rightarrow> (view, unit) op" where
  "view_Lock repo v =
     (if vw_s v \<noteq> None then (Inr (), v)
      else (case acquire (repo \<in> set (mi_locked (vw_ix v))) (vw_ix v) of
          (Inl e, ix) \<Rightarrow> (Inl e, v\<lparr>vw_ix := ix\<rparr>)
        | (Inr _, ix) \<Rightarrow> (Inr (), v\<lparr>vw_ix := ix\<lparr>mi_locked := repo # mi_locked ix\<rparr>\<rparr>)))"

definition release_lock :: "string \<Rightarrow> view \<Rightarrow> view" where
  "release_lock repo v = v\<lparr>vw_ix := (vw_ix v)\<lparr>mi_locked := remove1 repo (mi_locked (vw_ix v))\<rparr>\<rparr>"

definition view_unlock :: "string \<Rightarrow> view \<Rightarrow> view" where
  "view_unlock repo v = (if vw_s v \<noteq> None then v else release_lock repo v)"

text \<open>The parts of \<open>view.Tx\<close>: up to its function, after it answered nil, and after an error.\<close>

definition tx_begin :: "string \<Rightarrow> (view, unit) op" where
  "tx_begin repo v =
     (if vw_s v \<noteq> None then (Inr (), v\<lparr>vw_depth := Suc (vw_depth v)\<rparr>)
      else
        (case (if repo = '''' then (Inr (), v) else view_Lock repo v) of
           (Inl e, v1) \<Rightarrow> (Inl e, v1)
         | (Inr _, v1) \<Rightarrow>
             (case acquire False (vw_ix v1) of
                (Inl e, ix) \<Rightarrow>
                  (Inl e, if repo = '''' then v1\<lparr>vw_ix := ix\<rparr> else release_lock repo (v1\<lparr>vw_ix := ix\<rparr>))
              | (Inr _, ix) \<Rightarrow> (Inr (), v1\<lparr>vw_ix := ix, vw_s := Some (mi_s ix), vw_depth := 0\<rparr>))))"

definition tx_leave :: "string \<Rightarrow> view \<Rightarrow> view" where
  "tx_leave repo v = (if repo = '''' then v\<lparr>vw_s := None\<rparr> else release_lock repo (v\<lparr>vw_s := None\<rparr>))"

definition tx_commit :: "string \<Rightarrow> (view, unit) op" where
  "tx_commit repo v =
     (if vw_depth v > 0 then (Inr (), v\<lparr>vw_depth := vw_depth v - 1\<rparr>)
      else (case vw_s v of
          None \<Rightarrow> (Inr (), v)
        | Some c \<Rightarrow> (Inr (), tx_leave repo (v\<lparr>vw_ix := (vw_ix v)\<lparr>mi_s := c\<rparr>\<rparr>))))"

definition tx_abort :: "string \<Rightarrow> view \<Rightarrow> view" where
  "tx_abort repo v =
     (if vw_depth v > 0 then v\<lparr>vw_depth := vw_depth v - 1\<rparr>
      else if vw_s v = None then v else tx_leave repo v)"

definition mem_Counts :: "(view, counts) op" where
  "mem_Counts = view_do (\<lambda>s. (Inr \<lparr>ct_Repositories = length (st_repos s),
      ct_Manifests = sum_list (map (\<lambda>(k, ms). length ms) (st_manifests s)),
      ct_Tags = sum_list (map (\<lambda>(k, ts). length ts) (st_tags s))\<rparr>, s))"

definition view_touch :: "string \<Rightarrow> string \<Rightarrow> digest \<Rightarrow> time \<Rightarrow> view \<Rightarrow> view" where
  "view_touch repo name d at v = snd (view_do (pulled_Touch repo name d at) v)"

definition view_now :: "view \<Rightarrow> time" where
  "view_now v = mi_now (vw_ix v)"

definition mem_ops :: "view index_ops" where
  "mem_ops =
     \<lparr>ix_begin = tx_begin, ix_commit = tx_commit, ix_abort = tx_abort,
      ix_lock = view_Lock, ix_unlock = view_unlock,
      ix_repo_ensure = (\<lambda>name v. view_do (repos_Ensure (view_now v) name) v),
      ix_repo_get = (\<lambda>name. view_do (repos_Get name)),
      ix_repo_update = (\<lambda>name patch v. view_do (repos_Update (view_now v) name patch) v),
      ix_repo_erase = (\<lambda>name. view_do (repos_Erase name)),
      ix_repo_list = (\<lambda>p. view_do (repos_List p)),
      ix_repo_search = (\<lambda>q p. view_do (repos_Search q p)),
      ix_put = (\<lambda>repo m hs v. view_do (manifests_Put (view_now v) repo m hs) v),
      ix_get = (\<lambda>repo d. view_do (manifests_Get repo d)),
      ix_erase = (\<lambda>repo d v. view_do (manifests_Erase (view_now v) repo d) v),
      ix_referrers = (\<lambda>repo d at. view_do (manifests_Referrers repo d at)),
      ix_holds = (\<lambda>repo d. view_do (manifests_Holds repo d)),
      ix_holders = (\<lambda>repo d. view_do (manifests_Holders repo d)),
      ix_list = (\<lambda>repo p. view_do (manifests_List repo p)),
      ix_marks = (\<lambda>repo. view_do (manifests_Marks repo)),
      ix_unneeded = (\<lambda>repo c p. view_do (manifests_Unneeded repo c p)),
      ix_tag_set = (\<lambda>repo n d from v. view_do (tags_Set (view_now v) repo n d from) v),
      ix_tag_get = (\<lambda>repo n. view_do (tags_Get repo n)),
      ix_tag_erase = (\<lambda>repo n. view_do (tags_Erase repo n)),
      ix_tag_check = (\<lambda>repo n d at. view_do (tags_Check repo n d at)),
      ix_tag_newest = (\<lambda>repo. view_do (tags_Newest repo)),
      ix_tag_list = (\<lambda>repo p. view_do (tags_List repo p)),
      ix_tag_of = (\<lambda>repo d. view_do (tags_Of repo d)),
      ix_tag_all = (\<lambda>repo. view_do (tags_All repo)),
      ix_touch = view_touch,
      ix_snap_put = (\<lambda>repo s. view_do (snapshots_Put repo s)),
      ix_snap_get = (\<lambda>repo d. view_do (snapshots_Get repo d)),
      ix_snap_list = (\<lambda>repo p. view_do (snapshots_List repo p)),
      ix_snap_erase = (\<lambda>repo d. view_do (snapshots_Erase repo d)),
      ix_seed = (\<lambda>repo v. view_do (orphans_Seed (view_now v) repo) v),
      ix_reset_scan = (\<lambda>repo. view_do (orphans_ResetScan repo)),
      ix_orphan_get = (\<lambda>repo d. view_do (orphans_Get repo d)),
      ix_orphan_list = (\<lambda>repo p. view_do (orphans_List repo p)),
      ix_orphan_erase = (\<lambda>repo d. view_do (orphans_Erase repo d))\<rparr>"

definition new_index :: "duration \<Rightarrow> time \<Rightarrow> ctx_error option list \<Rightarrow> view" where
  "new_index wait now outcomes =
     \<lparr>vw_ix = \<lparr>mi_s = newState, mi_locked = [], mi_acquire = outcomes, mi_Wait = wait, mi_now = now\<rparr>,
      vw_s = None, vw_depth = 0\<rparr>"

end
