(* ===== verification/Paging.thy ===== *)
theory Paging
  imports Index_Api
begin

text \<open>
  Reading a list page by page, as the collector and the registry read the lists of an index, and
  the contract between such a reader and a list.
\<close>

section \<open>Reading a list page by page\<close>

text \<open>
  The loop of every caller that reads a list to its end: pages of \<open>n\<close> after the last key read,
  until a page is short.  It is a partial function: an index that repeated a full page would
  have it read for ever.
\<close>

partial_function (option) read_pages ::
  "nat \<Rightarrow> (page \<Rightarrow> ('w, 'a list) op) \<Rightarrow> ('a \<Rightarrow> string) \<Rightarrow> string \<Rightarrow> 'a list \<Rightarrow> 'w \<Rightarrow>
   ((error + 'a list) \<times> 'w) option" where
  "read_pages n list key after acc w =
     (case list \<lparr>pg_Last = after, pg_N = int n\<rparr> w of
        (Inl e, w1) \<Rightarrow> Some (Inl e, w1)
      | (Inr vs, w1) \<Rightarrow>
          (if length vs < n then Some (Inr (acc @ vs), w1)
           else read_pages n list key (key (last vs)) (acc @ vs) w1))"

text \<open>Reading changes nothing that the reads do not change.\<close>

lemma read_pages_same:
  fixes list :: "page \<Rightarrow> ('w, 'b list) op"
  assumes "read_pages n list key after acc w = Some y"
    and "\<And>p x r x'. I x \<Longrightarrow> list p x = (r, x') \<Longrightarrow> I x' \<and> S x' = S x" and "I w"
  shows "I (snd y) \<and> S (snd y) = S w"
proof -
  have "(\<forall>p x r x'. I x \<longrightarrow> list p x = (r, x') \<longrightarrow> I x' \<and> S x' = S x) \<longrightarrow> I w \<longrightarrow> I (snd y) \<and> S (snd y) = S w"
  proof (rule read_pages.raw_induct [OF _ assms(1)], intro impI)
    fix rp n w y and list :: "page \<Rightarrow> ('w, 'b list) op" and key after acc
    assume ih: "\<And>n list key after acc w y. rp n list key after acc w = Some y \<Longrightarrow>
        (\<forall>p x r x'. I x \<longrightarrow> list p x = (r, x') \<longrightarrow> I x' \<and> S x' = S x) \<longrightarrow> I w \<longrightarrow> I (snd y) \<and> S (snd y) = S w"
      and eq: "(case list \<lparr>pg_Last = after, pg_N = int n\<rparr> w of
          (Inl e, w1) \<Rightarrow> Some (Inl e, w1)
        | (Inr vs, w1) \<Rightarrow> if length vs < n then Some (Inr (acc @ vs), w1)
            else rp n list key (key (last vs)) (acc @ vs) w1) = Some y"
      and step: "\<forall>p x r x'. I x \<longrightarrow> list p x = (r, x') \<longrightarrow> I x' \<and> S x' = S x" and "I w"
    obtain r w1 where l: "list \<lparr>pg_Last = after, pg_N = int n\<rparr> w = (r, w1)" by force
    with step \<open>I w\<close> have w1: "I w1" "S w1 = S w" by blast+
    show "I (snd y) \<and> S (snd y) = S w"
    proof (cases r)
      case (Inl e)
      with eq l w1 show ?thesis by auto
    next
      case (Inr vs)
      show ?thesis
      proof (cases "length vs < n")
        case True
        with eq l w1 Inr show ?thesis by auto
      next
        case False
        with eq l Inr have "rp n list key (key (last vs)) (acc @ vs) w1 = Some y" by simp
        from ih [OF this] step w1 show ?thesis by simp
      qed
    qed
  qed
  then show ?thesis using assms(2,3) by blast
qed

text \<open>What is true of the elements of every page is true of all that was read.\<close>

lemma read_pages_elems:
  fixes list :: "page \<Rightarrow> ('w, 'b list) op"
  assumes "read_pages n list key after acc w = Some y" and "I w" and "\<forall>v \<in> set acc. Q v"
    and "\<And>p x r x'. I x \<Longrightarrow> list p x = (r, x') \<Longrightarrow> I x' \<and> (\<forall>vs. r = Inr vs \<longrightarrow> (\<forall>v \<in> set vs. Q v))"
  shows "\<forall>vs. fst y = Inr vs \<longrightarrow> (\<forall>v \<in> set vs. Q v)"
proof -
  let ?step = "\<lambda>list. \<forall>p x r x'. I x \<longrightarrow> list p x = (r, x') \<longrightarrow> I x' \<and> (\<forall>vs. r = Inr vs \<longrightarrow> (\<forall>v \<in> set vs. Q v))"
  have "?step list \<longrightarrow> I w \<longrightarrow> (\<forall>v \<in> set acc. Q v) \<longrightarrow> (\<forall>vs. fst y = Inr vs \<longrightarrow> (\<forall>v \<in> set vs. Q v))"
  proof (rule read_pages.raw_induct [OF _ assms(1)], intro impI)
    fix rp n w y and list :: "page \<Rightarrow> ('w, 'b list) op" and key after acc
    assume ih: "\<And>n list key after acc w y. rp n list key after acc w = Some y \<Longrightarrow>
        ?step list \<longrightarrow> I w \<longrightarrow> (\<forall>v \<in> set acc. Q v) \<longrightarrow> (\<forall>vs. fst y = Inr vs \<longrightarrow> (\<forall>v \<in> set vs. Q v))"
      and eq: "(case list \<lparr>pg_Last = after, pg_N = int n\<rparr> w of
          (Inl e, w1) \<Rightarrow> Some (Inl e, w1)
        | (Inr vs, w1) \<Rightarrow> if length vs < n then Some (Inr (acc @ vs), w1)
            else rp n list key (key (last vs)) (acc @ vs) w1) = Some y"
      and step: "?step list" and "I w" "\<forall>v \<in> set acc. Q v"
    obtain r w1 where l: "list \<lparr>pg_Last = after, pg_N = int n\<rparr> w = (r, w1)" by force
    with step \<open>I w\<close> have w1: "I w1" "\<forall>vs. r = Inr vs \<longrightarrow> (\<forall>v \<in> set vs. Q v)" by blast+
    show "\<forall>vs. fst y = Inr vs \<longrightarrow> (\<forall>v \<in> set vs. Q v)"
    proof (cases r)
      case (Inl e)
      with eq l show ?thesis by auto
    next
      case (Inr vs)
      then have q: "\<forall>v \<in> set (acc @ vs). Q v" using w1(2) \<open>\<forall>v \<in> set acc. Q v\<close> by auto
      show ?thesis
      proof (cases "length vs < n")
        case True
        with eq l Inr have "fst y = Inr (acc @ vs)" by auto
        then show ?thesis using q by auto
      next
        case False
        with eq l Inr have "rp n list key (key (last vs)) (acc @ vs) w1 = Some y" by simp
        from ih [OF this] step w1(1) q show ?thesis by blast
      qed
    qed
  qed
  then show ?thesis using assms(2-4) by blast
qed

text \<open>
  What a list promises to its reader: pages of the keys there are, which the reading does not
  change.  A reader then comes to the end, having read every key, each once and in order.
\<close>

locale listing =
  fixes list :: "page \<Rightarrow> ('w, 'a list) op"
    and key :: "'a \<Rightarrow> string"
    and keys :: "'w \<Rightarrow> string set"
    and ok :: "'w \<Rightarrow> bool"
  assumes page_law: "ok w \<Longrightarrow> list p w = (r, w') \<Longrightarrow>
      ok w' \<and> keys w' = keys w \<and> (\<forall>vs. r = Inr vs \<longrightarrow> paged (keys w) p (map key vs))"
    and finite_law: "ok w \<Longrightarrow> finite (keys w)"
begin

lemma full_page:
  assumes "paged A \<lparr>pg_Last = after, pg_N = int n\<rparr> ks" "0 < n" "length ks = n" "2 \<le> n \<or> (\<forall>a \<in> A. a \<noteq> '''')"
  shows "{a \<in> A. after = '''' \<or> after < a} = set ks \<union> {a \<in> A. last ks < a}"
    and "last ks \<noteq> ''''" "set ks \<subseteq> {a \<in> A. a \<le> last ks}" "last ks \<in> A" "after = '''' \<or> after < last ks"
proof -
  from assms(2,3) have ne: "ks \<noteq> []" by auto
  then have l: "last ks \<in> set ks" by simp
  from assms(1) have sub: "set ks \<subseteq> A" and s: "sorted_wrt (<) ks"
    and gt: "after \<noteq> '''' \<Longrightarrow> k \<in> set ks \<Longrightarrow> after < k" for k
    by (auto simp: paged_def)
  from s ne have le: "k \<le> last ks" if "k \<in> set ks" for k
    using that by (induction ks) (auto intro: less_imp_le split: if_splits)
  have rest: "a \<in> A \<Longrightarrow> after = '''' \<or> after < a \<Longrightarrow> a \<notin> set ks \<Longrightarrow> last ks < a" for a
    using assms(1) l by (auto simp: paged_def)
  show "last ks \<noteq> ''''"
  proof (cases "2 \<le> n")
    case True
    with assms(3) obtain a b us where "ks = a # b # us" by (metis Suc_le_length_iff numeral_2_eq_2)
    with s have "\<forall>x \<in> set (b # us). a < x" "last ks \<in> set (b # us)" by auto
    then have "a < last ks" by blast
    then show ?thesis by (cases "last ks") auto
  qed (use l sub assms(4) in blast)
  show "last ks \<in> A" using l sub by blast
  show "set ks \<subseteq> {a \<in> A. a \<le> last ks}" using sub le by blast
  show "after = '''' \<or> after < last ks" using gt l by blast
  then show "{a \<in> A. after = '''' \<or> after < a} = set ks \<union> {a \<in> A. last ks < a}"
    using sub gt rest by (auto intro: less_trans)
qed

lemma read_pages_all:
  assumes "0 < n" "ok w" "2 \<le> n \<or> (\<forall>a \<in> keys w. a \<noteq> '''')"
  shows "\<exists>r w'. read_pages n list key after acc w = Some (r, w') \<and> ok w' \<and> keys w' = keys w \<and>
    (\<forall>vs. r = Inr vs \<longrightarrow> (\<exists>new. vs = acc @ new \<and> sorted_wrt (<) (map key new) \<and>
       key ` set new = {a \<in> keys w. after = '''' \<or> after < a}))"
  using assms
proof (induction "card {a \<in> keys w. after = '''' \<or> after < a}" arbitrary: after acc w rule: less_induct)
  case less
  obtain r1 w1 where l: "list \<lparr>pg_Last = after, pg_N = int n\<rparr> w = (r1, w1)" by force
  note law = page_law [OF less.prems(2) l]
  show ?case
  proof (cases r1)
    case (Inl e)
    with l law show ?thesis by (subst read_pages.simps) simp
  next
    case (Inr vs)
    with law have pg: "paged (keys w) \<lparr>pg_Last = after, pg_N = int n\<rparr> (map key vs)" by simp
    show ?thesis
    proof (cases "length vs < n")
      case True
      have "key ` set vs = {a \<in> keys w. after = '''' \<or> after < a}"
        using pg True by (auto simp: paged_def)
      moreover have "sorted_wrt (<) (map key vs)" using pg by (simp add: paged_def)
      ultimately show ?thesis
        using l Inr True law by (subst read_pages.simps) auto
    next
      case False
      with pg less.prems(1) have len: "length (map key vs) = n" by (simp add: paged_def)
      note fp = full_page [OF pg less.prems(1) len less.prems(3)]
      from len less.prems(1) have ne: "vs \<noteq> []" by auto
      then have lk: "last (map key vs) = key (last vs)" by (simp add: last_map)
      have "{a \<in> keys w. key (last vs) = '''' \<or> key (last vs) < a} \<subset> {a \<in> keys w. after = '''' \<or> after < a}"
        using fp unfolding lk by auto
      then have card: "card {a \<in> keys w1. key (last vs) = '''' \<or> key (last vs) < a} <
          card {a \<in> keys w. after = '''' \<or> after < a}"
        using law finite_law [OF less.prems(2)] by (auto intro!: psubset_card_mono)
      have w1: "ok w1" "2 \<le> n \<or> (\<forall>a \<in> keys w1. a \<noteq> '''')" using law less.prems(3) by auto
      obtain r w' where ih: "read_pages n list key (key (last vs)) (acc @ vs) w1 = Some (r, w')"
        "ok w'" "keys w' = keys w1"
        "\<forall>us. r = Inr us \<longrightarrow> (\<exists>new. us = (acc @ vs) @ new \<and> sorted_wrt (<) (map key new) \<and>
           key ` set new = {a \<in> keys w1. key (last vs) = '''' \<or> key (last vs) < a})"
        using less.hyps [OF card less.prems(1) w1, of "acc @ vs"] by blast
      have "\<exists>new. us = acc @ new \<and> sorted_wrt (<) (map key new) \<and>
          key ` set new = {a \<in> keys w. after = '''' \<or> after < a}" if us: "r = Inr us" for us
      proof -
        from ih(4) us obtain new where new: "us = (acc @ vs) @ new" "sorted_wrt (<) (map key new)"
          "key ` set new = {a \<in> keys w. key (last vs) < a}"
          using law fp(2) lk by auto
        have "key ` set (vs @ new) = {a \<in> keys w. after = '''' \<or> after < a}"
          using new(3) fp(1) lk by (simp add: image_Un)
        moreover have "sorted_wrt (<) (map key (vs @ new))"
        proof -
          have "x < y" if "x \<in> set (map key vs)" "y \<in> set (map key new)" for x y
            using that fp(3) new(3) lk by (auto intro: le_less_trans)
          then show ?thesis using pg new(2) by (auto simp: sorted_wrt_append paged_def)
        qed
        ultimately show ?thesis using new(1) by (intro exI [of _ "vs @ new"]) simp
      qed
      moreover have "read_pages n list key after acc w = Some (r, w')"
        using l Inr False ih(1) by (subst read_pages.simps) simp
      ultimately show ?thesis using ih law by auto
    qed
  qed
qed

end

end
