(* ===== verification/Mem_Laws.thy ===== *)
theory Mem_Laws
  imports Mem_Index Paging
begin

text \<open>
  The index in memory keeps the promises of \<open>index.Index\<close>: what its state means as rows, the
  invariant of the state, each operation against its specification, and the interpretation of
  \<open>index_laws\<close>.
\<close>

section \<open>Pages\<close>

lemma filter_gt_sorted:
  fixes f :: "'a \<Rightarrow> 'b::linorder"
  assumes "sorted (map f xs)"
  shows "dropWhile (\<lambda>v. f v \<le> a) xs = filter (\<lambda>v. a < f v) xs"
proof -
  have all: "filter (\<lambda>v. a < f v) xs = xs" if "\<forall>x \<in> set xs. a < f x" for xs
    using that by simp
  show ?thesis using assms
    by (induction xs) (auto simp: not_le intro!: all [symmetric] intro: order.strict_trans2)
qed

lemma dropWhile_takeWhile_lt:
  fixes f :: "'a \<Rightarrow> 'b::linorder"
  shows "dropWhile (\<lambda>v. f v \<le> a) (drop (length (takeWhile (\<lambda>x. f x < a) xs)) xs) = dropWhile (\<lambda>v. f v \<le> a) xs"
  by (induction xs) auto

lemma not_less_Nil_string [simp]: "\<not> (x < ([] :: string))"
  by (simp add: list_less_def lexord_def)

lemma page_of_filter:
  assumes "sorted (map key vs)"
  shows "page_of vs key p =
    (let ws = filter (\<lambda>v. pg_Last p = '''' \<or> pg_Last p < key v) vs
     in if pg_N p > 0 then take (nat (pg_N p)) ws else ws)"
proof -
  have i: "bsearch (\<lambda>v. key v < pg_Last p) vs 0 (length vs) =
      length (takeWhile (\<lambda>v. key v < pg_Last p) vs)"
    using assms by (rule bsearch_sorted)
  have "dropWhile (\<lambda>v. pg_Last p \<noteq> '''' \<and> key v \<le> pg_Last p)
      (drop (bsearch (\<lambda>v. key v < pg_Last p) vs 0 (length vs)) vs) =
    filter (\<lambda>v. pg_Last p = '''' \<or> pg_Last p < key v) vs"
  proof (cases "pg_Last p = ''''")
    case True
    have "takeWhile (\<lambda>v. False) vs = []" by (cases vs) simp_all
    moreover have "dropWhile (\<lambda>v. False) vs = vs" by (cases vs) simp_all
    ultimately show ?thesis unfolding i using True by simp
  next
    case False
    then show ?thesis
      unfolding i by (simp add: dropWhile_takeWhile_lt filter_gt_sorted [OF assms])
  qed
  then show ?thesis by (simp add: page_of_def Let_def)
qed

lemma sorted_take_less:
  fixes ks :: "'a::linorder list"
  assumes "sorted_wrt (<) ks" "a \<in> set ks" "a \<notin> set (take n ks)"
  shows "n < length ks \<and> (\<forall>k \<in> set (take n ks). k < a)"
proof -
  have "set ks = set (take n ks) \<union> set (drop n ks)"
    by (metis append_take_drop_id set_append)
  with assms(2,3) have a: "a \<in> set (drop n ks)" by blast
  then have n: "n < length ks" by (metis drop_all empty_iff list.set(1) not_le)
  have "sorted_wrt (<) (take n ks @ drop n ks)" using assms(1) by simp
  then have "\<forall>x \<in> set (take n ks). \<forall>y \<in> set (drop n ks). x < y"
    unfolding sorted_wrt_append by blast
  with a n show ?thesis by blast
qed

lemma page_of_paged:
  assumes "sorted_wrt (<) (map key vs)"
  shows "paged (key ` set vs) p (map key (page_of vs key p))"
proof -
  let ?ws = "filter (\<lambda>v. pg_Last p = '''' \<or> pg_Last p < key v) vs"
  define N where "N = nat (pg_N p)"
  from assms have s: "sorted (map key vs)" by (simp add: strict_sorted_imp_sorted)
  have ks: "map key (page_of vs key p) = (if pg_N p > 0 then take N (map key ?ws) else map key ?ws)"
    unfolding page_of_filter [OF s] Let_def by (simp add: take_map N_def)
  have sw: "sorted_wrt (<) (map key ?ws)"
    using assms by (metis (no_types, lifting) sorted_wrt_filter sorted_wrt_map)
  have memb: "a \<in> set (map key ?ws) \<longleftrightarrow> a \<in> key ` set vs \<and> (pg_Last p = '''' \<or> pg_Last p < a)" for a
    by auto
  have sub: "set (take N (map key ?ws)) \<subseteq> set (map key ?ws)" by (rule set_take_subset)
  show ?thesis
  proof (cases "pg_N p > 0")
    case False
    then show ?thesis unfolding paged_def ks using sw memb by auto
  next
    case True

    have len: "int (length (take N (map key ?ws))) \<le> pg_N p" using True by (simp add: N_def)
    have rest: "int (length (take N (map key ?ws))) = pg_N p \<and> (\<forall>k \<in> set (take N (map key ?ws)). k < a)"
      if "a \<in> key ` set vs" "pg_Last p = '''' \<or> pg_Last p < a" "a \<notin> set (take N (map key ?ws))" for a
      using sorted_take_less [OF sw _ that(3)] that True memb by (auto simp: N_def min_def)
    have sw': "sorted_wrt (<) (take N (map key ?ws))" using sw by (rule sorted_wrt_take)
    have A: "set (take N (map key ?ws)) \<subseteq> key ` set vs"
      "pg_Last p \<noteq> '''' \<longrightarrow> (\<forall>k \<in> set (take N (map key ?ws)). pg_Last p < k)"
      using sub memb by blast+
    have eq: "map key (page_of vs key p) = take N (map key ?ws)" unfolding ks using True by simp
    show ?thesis unfolding paged_def eq by (intro conjI ballI impI) (use True len rest sw' A in \<open>blast+\<close>)
  qed
qed

lemma page_of_subset: "set (page_of vs key p) \<subseteq> set vs"
  by (auto simp: page_of_def Let_def dest: in_set_takeD set_dropWhileD in_set_dropD)

lemma sorted_wrt_key:
  fixes key :: "'a \<Rightarrow> 'b::linorder"
  assumes "distinct (map key xs)"
  shows "sorted_wrt (<) (map key (sort_key key xs))"
  using assms by (simp add: strict_sorted_iff distinct_map)

text \<open>A map whose values name their key.\<close>

definition keyed :: "('v \<Rightarrow> 'k) \<Rightarrow> ('k, 'v) gomap \<Rightarrow> bool" where
  "keyed key m = (wf_map m \<and> (\<forall>k v. (k, v) \<in> set m \<longrightarrow> key v = k))"

lemma keyed_Nil [simp]: "keyed key []"
  by (simp add: keyed_def)

lemma keyed_wf [simp]: "keyed key m \<Longrightarrow> wf_map m"
  by (simp add: keyed_def)

lemma keyed_map_of: "keyed key m \<Longrightarrow> map_of m k = Some v \<Longrightarrow> key v = k"
  by (auto simp: keyed_def dest: map_of_SomeD)

lemma keyed_update [intro]: "keyed key m \<Longrightarrow> key v = k \<Longrightarrow> keyed key (AList.update k v m)"
  by (auto simp: keyed_def set_AList_update)

lemma keyed_delete [intro]: "keyed key m \<Longrightarrow> keyed key (AList.delete k m)"
  by (auto simp: keyed_def set_AList_delete)

lemma keyed_map_fst: "keyed key m \<Longrightarrow> map key (map snd m) = map fst m"
  by (simp add: keyed_def)

lemma keyed_distinct: "keyed key m \<Longrightarrow> distinct (map key (map snd m))"
  by (simp only: keyed_map_fst) (simp add: keyed_def wf_map_def)

lemma keyed_values: "keyed key m \<Longrightarrow> v \<in> set (map snd m) \<longleftrightarrow> map_of m (key v) = Some v"
proof
  assume k: "keyed key m" and "v \<in> set (map snd m)"
  then obtain k' where "(k', v) \<in> set m" by auto
  with k have "key v = k'" "map_of m k' = Some v"
    unfolding keyed_def by (blast, simp add: wf_map_in_set)
  then show "map_of m (key v) = Some v" by simp
next
  assume "map_of m (key v) = Some v"
  then have "(key v, v) \<in> set m" by (rule map_of_SomeD)
  then have "snd (key v, v) \<in> snd ` set m" by (rule imageI)
  then show "v \<in> set (map snd m)" by simp
qed

lemma keyed_dom: "keyed key m \<Longrightarrow> key ` set (map snd m) = {k. map_of m k \<noteq> None}"
proof -
  assume k: "keyed key m"
  from arg_cong [OF keyed_map_fst [OF k], of set] have "key ` set (map snd m) = fst ` set m"
    by (simp only: set_map)
  also have "\<dots> = {k. map_of m k \<noteq> None}" by (simp add: map_of_eq_None_iff)
  finally show ?thesis .
qed

section \<open>What the state means\<close>

definition rows_of :: "state \<Rightarrow> rows" where
  "rows_of s =
     \<lparr>ro_repos = map_of (st_repos s),
      ro_manifests = man s,
      ro_tags = (\<lambda>repo. map_of (inner (st_tags s) repo)),
      ro_snaps = (\<lambda>repo. map_of (inner (st_snapshots s) repo)),
      ro_orphans = (\<lambda>repo. map_of (inner (st_orphans s) repo))\<rparr>"

lemma rows_of_sel [simp]:
  "ro_repos (rows_of s) = map_of (st_repos s)"
  "ro_manifests (rows_of s) = man s"
  "ro_tags (rows_of s) = (\<lambda>repo. map_of (inner (st_tags s) repo))"
  "ro_snaps (rows_of s) = (\<lambda>repo. map_of (inner (st_snapshots s) repo))"
  "ro_orphans (rows_of s) = (\<lambda>repo. map_of (inner (st_orphans s) repo))"
  by (simp_all add: rows_of_def)

definition wf_state :: "state \<Rightarrow> bool" where
  "wf_state s =
     (keyed re_Name (st_repos s) \<and>
      (\<forall>repo. keyed (\<lambda>e. im_Digest (en_m e)) (inner (st_manifests s) repo)) \<and>
      (\<forall>repo. keyed tg_Name (inner (st_tags s) repo)) \<and>
      (\<forall>repo. keyed sn_Subject (inner (st_snapshots s) repo)) \<and>
      (\<forall>repo. keyed oc_Subject (inner (st_orphans s) repo)))"

lemma wf_newState [simp]: "wf_state newState"
  by (simp add: wf_state_def newState_def)

lemma wf_stateD:
  assumes "wf_state s"
  shows "keyed re_Name (st_repos s)" "keyed (\<lambda>e. im_Digest (en_m e)) (inner (st_manifests s) repo)"
    "keyed tg_Name (inner (st_tags s) repo)" "keyed sn_Subject (inner (st_snapshots s) repo)"
    "keyed oc_Subject (inner (st_orphans s) repo)"
  using assms by (simp_all add: wf_state_def)

lemma man_key: "wf_state s \<Longrightarrow> man s repo d = Some e \<Longrightarrow> im_Digest (en_m e) = d"
  unfolding man_def by (rule keyed_map_of [OF wf_stateD(2)])

lemma entries_iff: "wf_state s \<Longrightarrow> e \<in> set (entries s repo) \<longleftrightarrow> (\<exists>d. man s repo d = Some e)"
  using keyed_values [OF wf_stateD(2), of s e repo] man_key [of s repo _ e]
  by (auto simp: entries_def man_def)

lemma st_holds_iff: "wf_state s \<Longrightarrow> st_holds s repo d \<longleftrightarrow> held (rows_of s) repo d"
  unfolding st_holds_def held_def list_ex_iff rows_of_sel using entries_iff [of s _ repo] by blast

definition state_ok :: "(rows \<Rightarrow> error + 'r \<Rightarrow> rows \<Rightarrow> bool) \<Rightarrow> (state, 'r) op \<Rightarrow> bool" where
  "state_ok Q f = (\<forall>s. wf_state s \<longrightarrow> (case f s of (r, s') \<Rightarrow> wf_state s' \<and> Q (rows_of s) r (rows_of s')))"

lemma state_okI:
  "(\<And>s r s'. wf_state s \<Longrightarrow> f s = (r, s') \<Longrightarrow> wf_state s' \<and> Q (rows_of s) r (rows_of s')) \<Longrightarrow> state_ok Q f"
  by (auto simp: state_ok_def)

lemma rows_manifests_update:
  assumes "st_manifests s' = AList.update repo x (st_manifests s)"
  shows "man s' = (man s)(repo := map_of x)"
  using assms by (intro ext) (simp add: man_def)

section \<open>Manifests\<close>

lemma observe_same [simp]:
  "st_repos (observe s repo d at f) = st_repos s" "st_manifests (observe s repo d at f) = st_manifests s"
  "st_tags (observe s repo d at f) = st_tags s" "st_snapshots (observe s repo d at f) = st_snapshots s"
  "st_scans (observe s repo d at f) = st_scans s" "man (observe s repo d at f) = man s"
  by (auto simp: observe_def fun_eq_iff man_def)

lemma observe_wf: "wf_state s \<Longrightarrow> wf_state (observe s repo d at f)"
  unfolding wf_state_def by (auto simp: observe_def)

lemma observe_rows: "\<exists>c. rows_of (observe s repo d at f) = (rows_of s)\<lparr>ro_orphans := c\<rparr>"
  by (rule exI [of _ "ro_orphans (rows_of (observe s repo d at f))"]) (simp add: rows_of_def)

lemma Get_ok: "state_ok (get_spec repo d) (manifests_Get repo d)"
  by (rule state_okI) (auto simp: manifests_Get_def get_spec_def split: option.splits)

lemma Holds_ok: "state_ok (holds_spec repo d) (manifests_Holds repo d)"
  by (rule state_okI) (auto simp: manifests_Holds_def holds_spec_def st_holds_iff)

lemma Put_ok: "state_ok (put_spec repo m hs) (manifests_Put now repo m hs)"
proof (rule state_okI)
  fix s r s' assume wf: "wf_state s" and f: "manifests_Put now repo m hs s = (r, s')"
  show "wf_state s' \<and> put_spec repo m hs (rows_of s) r (rows_of s')"
  proof (cases "man s repo (im_Digest m) = None")
    case False
    with wf f show ?thesis by (auto simp: manifests_Put_def put_spec_def indexed_def)
  next
    case True
    define m1 where "m1 = (if im_CreatedAt m = 0 then m\<lparr>im_CreatedAt := now\<rparr> else m)"
    define s1 where "s1 = s\<lparr>st_manifests := AList.update repo
      (AList.update (im_Digest m1) \<lparr>en_m = m1, en_holds = hs\<rparr> (inner (st_manifests s) repo)) (st_manifests s)\<rparr>"
    have key: "im_Digest m1 = im_Digest m" by (simp add: m1_def)
    have wf1: "wf_state s1"
      using wf unfolding wf_state_def s1_def by (auto intro!: keyed_update)
    have s': "s' = s1 \<or> (\<exists>d. s' = observe s1 repo d now True)" and r: "r = Inr ()"
      using f True by (auto simp: manifests_Put_def Let_def m1_def s1_def split: if_splits)
    have man1: "man s1 = (man s)(repo := (man s repo)(im_Digest m := Some \<lparr>en_m = m1, en_holds = hs\<rparr>))"
      by (intro ext) (simp add: s1_def man_def key)
    have "wf_state s'" using s' wf1 observe_wf by blast
    moreover have "man s' = man s1" "st_repos s' = st_repos s" "st_tags s' = st_tags s"
      "st_snapshots s' = st_snapshots s"
      using s' by (auto simp: s1_def)
    ultimately show ?thesis
      unfolding put_spec_def r using True man1
      by (auto simp: indexed_def m1_def intro!: exI [of _ "\<lparr>en_m = m1, en_holds = hs\<rparr>"])
  qed
qed

lemma Erase_ok: "state_ok (erase_spec repo d) (manifests_Erase now repo d)"
proof (rule state_okI)
  fix s r s' assume wf: "wf_state s" and f: "manifests_Erase now repo d s = (r, s')"
  show "wf_state s' \<and> erase_spec repo d (rows_of s) r (rows_of s')"
  proof (cases "man s repo d")
    case None
    with wf f show ?thesis by (auto simp: manifests_Erase_def erase_spec_def indexed_def)
  next
    case (Some e)
    define s1 where "s1 = s\<lparr>st_manifests :=
      AList.update repo (AList.delete d (inner (st_manifests s) repo)) (st_manifests s)\<rparr>"
    have wf1: "wf_state s1"
      using wf unfolding wf_state_def s1_def by (auto intro!: keyed_delete)
    have s': "s' = s1 \<or> s' = observe s1 repo d now True"
      and r: "r = Inr (filter (\<lambda>b. \<not> st_holds s' repo b \<and> man s' repo b = None) (en_holds e))"
      using f Some by (auto simp: manifests_Erase_def Let_def s1_def split: if_splits)
    have wf': "wf_state s'" using s' wf1 observe_wf by blast
    have man1: "man s1 = (man s)(repo := (man s repo)(d := None))"
      by (intro ext) (simp add: s1_def man_def)
    have same: "man s' = man s1" "st_repos s' = st_repos s" "st_tags s' = st_tags s"
      "st_snapshots s' = st_snapshots s"
      using s' by (auto simp: s1_def)
    have orph: "ro_orphans (rows_of s') r x \<noteq> None \<Longrightarrow> ro_orphans (rows_of s) r x \<noteq> None \<or> r = repo \<and> x = d" for r x
      using s' by (auto simp: s1_def observe_def split: if_splits)
    have "set (filter (\<lambda>b. \<not> st_holds s' repo b \<and> man s' repo b = None) (en_holds e)) =
        {b \<in> set (en_holds e). \<not> referenced (rows_of s') repo b}"
      by (auto simp: st_holds_iff [OF wf'] referenced_def indexed_def)
    with wf' same man1 Some orph show ?thesis
      by (simp add: erase_spec_def r)
  qed
qed

lemma Referrers_ok: "state_ok (referrers_spec repo d at) (manifests_Referrers repo d at)"
proof (rule state_okI)
  fix s r s' assume wf: "wf_state s" and f: "manifests_Referrers repo d at s = (r, s')"
  let ?P = "\<lambda>m. im_Subject m = d \<and> (at = '''' \<or> im_ArtifactType m = at)"
  have "x \<in> en_m ` set (entries s repo) \<longleftrightarrow> (\<exists>e h. x = en_m e \<and> man s repo h = Some e)" for x
    using entries_iff [OF wf] by blast
  then have "(x \<in> en_m ` set (entries s repo) \<and> ?P x) \<longleftrightarrow>
      (\<exists>e h. x = en_m e \<and> man s repo h = Some e \<and> ?P (en_m e))" for x
    by metis
  then have eq: "{x \<in> en_m ` set (entries s repo). ?P x} = {en_m e |e h. man s repo h = Some e \<and> ?P (en_m e)}"
    by simp
  obtain ms where ms: "s' = s" "r = Inr ms"
    "set ms = {x \<in> en_m ` set (entries s repo). im_Subject x = d \<and> (at = '''' \<or> im_ArtifactType x = at)}"
    using f by (force simp: manifests_Referrers_def)
  show "wf_state s' \<and> referrers_spec repo d at (rows_of s) r (rows_of s')"
    unfolding referrers_spec_def ms(1,2) sum.case ms(3) eq rows_of_sel using wf by blast
qed

lemma sorted_entries:
  "wf_state s \<Longrightarrow> sorted_wrt (<) (map im_Digest (sort_key im_Digest (map en_m (entries s repo))))"
  using keyed_distinct [OF wf_stateD(2), of s repo]
  by (intro sorted_wrt_key) (simp add: entries_def o_def)

lemma entry_digests: "wf_state s \<Longrightarrow> im_Digest ` en_m ` set (entries s repo) = {d. indexed (rows_of s) repo d}"
  using keyed_dom [OF wf_stateD(2), of s repo]
  by (simp add: entries_def indexed_def man_def image_image)

lemma List_ok: "state_ok (list_spec repo p) (manifests_List repo p)"
proof (rule state_okI)
  fix s r s' assume wf: "wf_state s" and f: "manifests_List repo p s = (r, s')"
  let ?vs = "sort_key im_Digest (map en_m (entries s repo))"
  have "paged {d. indexed (rows_of s) repo d} p (map im_Digest (page_of ?vs im_Digest p))"
    using page_of_paged [OF sorted_entries [OF wf]] entry_digests [OF wf] by (simp only: set_sort set_map)
  moreover have "\<exists>e. man s repo (im_Digest m) = Some e \<and> en_m e = m" if "m \<in> set (page_of ?vs im_Digest p)" for m
  proof -
    from that page_of_subset [of ?vs im_Digest p] obtain e where "e \<in> set (entries s repo)" "en_m e = m" by auto
    with entries_iff [OF wf] man_key [OF wf] show ?thesis by fastforce
  qed
  ultimately show "wf_state s' \<and> list_spec repo p (rows_of s) r (rows_of s')"
    using wf f by (auto simp: manifests_List_def list_spec_def)
qed

lemma Marks_ok: "state_ok (marks_spec repo) (manifests_Marks repo)"
proof (rule state_okI)
  fix s r s' assume wf: "wf_state s" and f: "manifests_Marks repo s = (r, s')"
  have k: "wf_map (inner (st_manifests s) repo)" by (rule keyed_wf [OF wf_stateD(2) [OF wf]])
  have "set (concat (map (\<lambda>(d, e). d # en_holds e) (inner (st_manifests s) repo))) =
      {d. referenced (rows_of s) repo d}"
    by (force simp: referenced_def indexed_def held_def man_def wf_map_in_set [OF k])
  with wf f show "wf_state s' \<and> marks_spec repo (rows_of s) r (rows_of s')"
    by (auto simp: manifests_Marks_def marks_spec_def)
qed

lemma unneeded_now_iff:
  assumes "wf_state s" "man s repo d = Some e"
  shows "unneeded_now s repo cutoff d (en_m e) \<longleftrightarrow> unneeded (rows_of s) repo cutoff d"
proof -
  have t: "d \<in> tg_Digest ` set (map snd (inner (st_tags s) repo)) \<longleftrightarrow> tagged (rows_of s) repo d"
    using keyed_values [OF wf_stateD(3) [OF assms(1)]] keyed_map_of [OF wf_stateD(3) [OF assms(1)]]
    unfolding tagged_def rows_of_sel image_iff by metis
  have h: "d \<in> (\<Union>e \<in> set (entries s repo). set (en_holds e)) \<longleftrightarrow> held (rows_of s) repo d"
    unfolding held_def rows_of_sel using entries_iff [OF assms(1), of _ repo] by blast
  show ?thesis
    unfolding unneeded_now_def t h using assms(2) by (auto simp: unneeded_def indexed_def)
qed

lemma Unneeded_ok: "state_ok (unneeded_spec repo c p) (manifests_Unneeded repo c p)"
proof (rule state_okI)
  fix s r s' assume wf: "wf_state s" and f: "manifests_Unneeded repo c p s = (r, s')"
  let ?kv = "filter (\<lambda>(d, e). unneeded_now s repo c d (en_m e)) (inner (st_manifests s) repo)"
  let ?vs = "map (\<lambda>(d, e). en_m e) ?kv"
  have k: "wf_map (inner (st_manifests s) repo)" by (rule keyed_wf [OF wf_stateD(2) [OF wf]])
  have mem: "(d, e) \<in> set (inner (st_manifests s) repo) \<longleftrightarrow> man s repo d = Some e" for d e
    by (simp add: man_def wf_map_in_set [OF k])
  have kv: "(d, e) \<in> set ?kv \<longleftrightarrow> man s repo d = Some e \<and> unneeded (rows_of s) repo c d" for d e
    using mem unneeded_now_iff [OF wf, of repo d e c] by (auto simp del: rows_of_sel)
  have keys: "map im_Digest ?vs = map fst ?kv"
    using mem man_key [OF wf] by auto
  have "distinct (map fst ?kv)" using k unfolding wf_map_def by (rule distinct_map_filter)
  then have sw: "sorted_wrt (<) (map im_Digest (sort_key im_Digest ?vs))"
    by (intro sorted_wrt_key) (simp only: keys)
  have "im_Digest ` set ?vs = fst ` set ?kv" by (metis keys list.set_map)
  also have "\<dots> = {d. unneeded (rows_of s) repo c d}"
    using kv by (force simp: unneeded_def image_iff simp del: set_filter)
  finally have "paged {d. unneeded (rows_of s) repo c d} p
      (map im_Digest (page_of (sort_key im_Digest ?vs) im_Digest p))"
    using page_of_paged [OF sw, of p] by (simp only: set_sort)
  then show "wf_state s' \<and> unneeded_spec repo c p (rows_of s) r (rows_of s')"
    using wf f by (auto simp: manifests_Unneeded_def unneeded_spec_def Let_def)
qed

section \<open>Tags\<close>

lemma rows_tags_update:
  "rows_of (s\<lparr>st_tags := AList.update repo x (st_tags s)\<rparr>) =
     (rows_of s)\<lparr>ro_tags := (ro_tags (rows_of s))(repo := map_of x)\<rparr>"
  by (auto simp: rows_of_def man_def fun_eq_iff)

lemma wf_tags_update:
  "wf_state s \<Longrightarrow> keyed tg_Name x \<Longrightarrow> wf_state (s\<lparr>st_tags := AList.update repo x (st_tags s)\<rparr>)"
  by (simp add: wf_state_def)

lemma map_of_update_fun: "map_of (AList.update k v m) = (map_of m)(k := Some v)"
  by (rule update_conv')

lemma map_of_delete_fun: "map_of (AList.delete k m) = (map_of m)(k := None)"
  by (rule delete_conv')

lemma Tag_get_ok: "state_ok (tag_get_spec repo n) (tags_Get repo n)"
  by (rule state_okI) (auto simp: tags_Get_def tag_get_spec_def split: option.splits)

lemma Tag_erase_ok: "state_ok (tag_erase_spec repo n) (tags_Erase repo n)"
proof (rule state_okI)
  fix s r s' assume wf: "wf_state s" and f: "tags_Erase repo n s = (r, s')"
  show "wf_state s' \<and> tag_erase_spec repo n (rows_of s) r (rows_of s')"
  proof (cases "map_of (inner (st_tags s) repo) n")
    case None
    with wf f show ?thesis by (auto simp: tags_Erase_def tag_erase_spec_def)
  next
    case (Some v)
    with wf f keyed_delete [OF wf_stateD(3) [OF wf]] show ?thesis
      by (auto simp: tags_Erase_def tag_erase_spec_def rows_tags_update wf_tags_update map_of_delete_fun)
  qed
qed

lemma Tag_set_ok: "state_ok (tag_set_spec repo n d from) (tags_Set now repo n d from)"
proof (rule state_okI)
  fix s r s' assume wf: "wf_state s" and f: "tags_Set now repo n d from s = (r, s')"
  define s1 where "s1 = (if map_of (st_tags s) repo = None then s\<lparr>st_tags := AList.update repo [] (st_tags s)\<rparr> else s)"
  have wf1: "wf_state s1" using wf by (simp add: s1_def wf_tags_update)
  have in1: "inner (st_tags s1) = inner (st_tags s)"
    by (auto simp: s1_def fun_eq_iff) (simp add: inner_def)
  have rows1: "rows_of s1 = rows_of s"
    using in1 by (auto simp: rows_of_def man_def fun_eq_iff s1_def)
  define v where "v = map_of (inner (st_tags s) repo) n"
  show "wf_state s' \<and> tag_set_spec repo n d from (rows_of s) r (rows_of s')"
  proof (cases "((v \<noteq> None) \<noteq> (from \<noteq> '''')) \<or> (v \<noteq> None \<and> tg_Digest (the v) \<noteq> from)")
    case True
    then have "s' = s1 \<and> r = Inl ErrTagMoved"
      using f unfolding tags_Set_def Let_def s1_def [symmetric] in1 v_def [symmetric] by simp
    with wf1 rows1 show ?thesis by (simp add: tag_set_spec_def)
  next
    case False
    define v1 where "v1 = (case v of Some t \<Rightarrow> t
      | None \<Rightarrow> \<lparr>tg_Name = n, tg_Digest = '''', tg_MovedAt = 0, tg_PulledAt = 0, tg_CreatedAt = now, tg_CheckedAt = 0\<rparr>)"
    define v3 where "v3 = (if tg_Digest v1 \<noteq> d then v1\<lparr>tg_MovedAt := now\<rparr> else v1)\<lparr>tg_Digest := d\<rparr>"
    have "r = Inr () \<and> s' = s1\<lparr>st_tags := AList.update repo (AList.update n v3 (inner (st_tags s) repo)) (st_tags s1)\<rparr>"
      using f unfolding tags_Set_def Let_def s1_def [symmetric] in1 v_def [symmetric] if_not_P [OF False]
        v1_def [symmetric] v3_def [symmetric]
      by simp
    moreover have n1: "tg_Name v1 = n"
      using keyed_map_of [OF wf_stateD(3) [OF wf]] by (auto simp: v1_def v_def split: option.splits)
    then have n3: "tg_Name v3 = n" "tg_Digest v3 = d" by (simp_all add: v3_def)
    moreover have "keyed tg_Name (AList.update n v3 (inner (st_tags s) repo))"
      using wf_stateD(3) [OF wf] n3 by blast
    ultimately show ?thesis
      using wf1 False in1
      by (auto simp: tag_set_spec_def rows_tags_update wf_tags_update rows1 map_of_update_fun v_def
          split: option.splits)
  qed
qed

lemma Tag_all_ok: "state_ok (tag_all_spec repo) (tags_All repo)"
proof (rule state_okI)
  fix s r s' assume wf: "wf_state s" and f: "tags_All repo s = (r, s')"
  note k = wf_stateD(3) [OF wf, of repo]
  have "sorted_wrt (<) (map tg_Name (tags_sorted s repo))"
    unfolding tags_sorted_def sorted_values_def by (rule sorted_wrt_key [OF keyed_distinct [OF k]])
  moreover have "map_of (inner (st_tags s) repo) n = Some t \<longleftrightarrow> t \<in> set (tags_sorted s repo) \<and> tg_Name t = n" for n t
    unfolding tags_sorted_def sorted_values_def set_sort using keyed_values [OF k] keyed_map_of [OF k] by blast
  ultimately show "wf_state s' \<and> tag_all_spec repo (rows_of s) r (rows_of s')"
    using wf f by (auto simp: tags_All_def tag_all_spec_def)
qed

lemma Tag_of_ok: "state_ok (tag_of_spec repo d) (tags_Of repo d)"
proof (rule state_okI)
  fix s r s' assume wf: "wf_state s" and f: "tags_Of repo d s = (r, s')"
  note k = wf_stateD(3) [OF wf, of repo]
  have mem: "t \<in> set (tags_sorted s repo) \<longleftrightarrow> map_of (inner (st_tags s) repo) (tg_Name t) = Some t" for t
    unfolding tags_sorted_def sorted_values_def set_sort using keyed_values [OF k] by blast
  then have "set (filter (\<lambda>t. tg_Digest t = d) (tags_sorted s repo)) =
      {t. \<exists>n. map_of (inner (st_tags s) repo) n = Some t \<and> tg_Digest t = d}"
    using keyed_map_of [OF k] by (auto simp del: set_sort)
  moreover have "map_of (inner (st_tags s) repo) (tg_Name t) = Some t"
    if "t \<in> set (filter (\<lambda>t. tg_Digest t = d) (tags_sorted s repo))" for t
    using that mem by simp
  moreover have "s' = s" "r = Inr (filter (\<lambda>t. tg_Digest t = d) (tags_sorted s repo))"
    using f by (auto simp: tags_Of_def)
  ultimately show "wf_state s' \<and> tag_of_spec repo d (rows_of s) r (rows_of s')"
    unfolding tag_of_spec_def rows_of_sel using wf by simp
qed

section \<open>Repositories, snapshots, orphans and pulls\<close>

lemma Ensure_ok: "state_ok (ensure_spec n) (repos_Ensure now n)"
proof (rule state_okI)
  fix s r s' assume wf: "wf_state s" and f: "repos_Ensure now n s = (r, s')"
  note k = wf_stateD(1) [OF wf]
  show "wf_state s' \<and> ensure_spec n (rows_of s) r (rows_of s')"
  proof (cases "map_of (st_repos s) n")
    case None
    define v where "v = \<lparr>re_Name = n, re_Description = '''', re_CreatedAt = now, re_UpdatedAt = now\<rparr>"
    have s': "s' = s\<lparr>st_repos := AList.update n v (st_repos s)\<rparr>" "r = Inr v"
      using f None by (simp_all add: repos_Ensure_def Let_def v_def)
    have "wf_state s'" using wf k unfolding s' wf_state_def by (auto simp: v_def)
    moreover have "rows_of s' = (rows_of s)\<lparr>ro_repos := (map_of (st_repos s))(n := Some v)\<rparr>"
      by (auto simp: rows_of_def s' man_def fun_eq_iff)
    ultimately show ?thesis using None by (simp add: ensure_spec_def s' v_def)
  next
    case (Some v)
    with wf f keyed_map_of [OF k Some] show ?thesis
      by (auto simp: repos_Ensure_def ensure_spec_def rows_of_def fun_eq_iff)
  qed
qed

lemma Repo_list_ok: "state_ok (repo_list_spec p) (repos_List p)"
proof (rule state_okI)
  fix s r s' assume wf: "wf_state s" and f: "repos_List p s = (r, s')"
  note k = wf_stateD(1) [OF wf]
  have sw: "sorted_wrt (<) (map re_Name (repos_sorted s))"
    unfolding repos_sorted_def sorted_values_def by (rule sorted_wrt_key [OF keyed_distinct [OF k]])
  have "re_Name ` set (repos_sorted s) = {n. map_of (st_repos s) n \<noteq> None}"
    unfolding repos_sorted_def sorted_values_def set_sort by (rule keyed_dom [OF k])
  with page_of_paged [OF sw, of p] wf f show "wf_state s' \<and> repo_list_spec p (rows_of s) r (rows_of s')"
    by (auto simp: repos_List_def repo_list_spec_def)
qed

lemma Snap_get_ok: "state_ok (snap_get_spec repo d) (snapshots_Get repo d)"
  by (rule state_okI) (auto simp: snapshots_Get_def snap_get_spec_def split: option.splits)

lemma Snap_list_ok: "state_ok (snap_list_spec repo p) (snapshots_List repo p)"
proof (rule state_okI)
  fix s r s' assume wf: "wf_state s" and f: "snapshots_List repo p s = (r, s')"
  note k = wf_stateD(4) [OF wf, of repo]
  let ?vs = "sorted_values sn_Subject (inner (st_snapshots s) repo)"
  have sw: "sorted_wrt (<) (map sn_Subject ?vs)"
    unfolding sorted_values_def by (rule sorted_wrt_key [OF keyed_distinct [OF k]])
  have dom: "sn_Subject ` set ?vs = {d. map_of (inner (st_snapshots s) repo) d \<noteq> None}"
    unfolding sorted_values_def set_sort by (rule keyed_dom [OF k])
  have mem: "map_of (inner (st_snapshots s) repo) (sn_Subject x) = Some x" if "x \<in> set (page_of ?vs sn_Subject p)" for x
    using that page_of_subset [of ?vs sn_Subject p] keyed_values [OF k] unfolding sorted_values_def set_sort by blast
  have "r = Inr (page_of ?vs sn_Subject p)" "s' = s" using f by (auto simp: snapshots_List_def)
  with page_of_paged [OF sw, of p, unfolded dom] mem wf
  show "wf_state s' \<and> snap_list_spec repo p (rows_of s) r (rows_of s')"
    by (simp add: snap_list_spec_def)
qed

lemma Snap_erase_ok: "state_ok (snap_erase_spec repo d) (snapshots_Erase repo d)"
proof (rule state_okI)
  fix s r s' assume wf: "wf_state s" and f: "snapshots_Erase repo d s = (r, s')"
  show "wf_state s' \<and> snap_erase_spec repo d (rows_of s) r (rows_of s')"
  proof (cases "map_of (inner (st_snapshots s) repo) d")
    case None
    with wf f show ?thesis by (auto simp: snapshots_Erase_def snap_erase_spec_def)
  next
    case (Some v)
    then have s': "s' = s\<lparr>st_snapshots := AList.update repo
        (AList.delete d (inner (st_snapshots s) repo)) (st_snapshots s)\<rparr>"
      using f by (simp add: snapshots_Erase_def)
    have "wf_state s'" using wf unfolding wf_state_def s' by (auto intro!: keyed_delete)
    moreover have "rows_of s' = (rows_of s)\<lparr>ro_snaps := (ro_snaps (rows_of s))(repo := (ro_snaps (rows_of s) repo)(d := None))\<rparr>"
      by (auto simp: rows_of_def s' man_def fun_eq_iff map_of_delete_fun)
    ultimately show ?thesis by (simp add: snap_erase_spec_def)
  qed
qed

text \<open>An operation that touches only the work list and the scans.\<close>

definition orphans_scans_only :: "state \<Rightarrow> state \<Rightarrow> bool" where
  "orphans_scans_only s s' =
     (wf_state s' \<and> st_repos s' = st_repos s \<and> st_manifests s' = st_manifests s \<and>
      st_tags s' = st_tags s \<and> st_snapshots s' = st_snapshots s)"

lemma orphans_scans_only_rows:
  "orphans_scans_only s s' \<Longrightarrow> orphans_only (rows_of s) r (rows_of s')"
  unfolding orphans_only_def orphans_scans_only_def
  by (rule exI [of _ "ro_orphans (rows_of s')"]) (auto simp: rows_of_def man_def fun_eq_iff)

lemma seed_fold: "wf_state s \<Longrightarrow> orphans_scans_only s (fold (seed_key now repo) keys s)"
proof (induction keys arbitrary: s)
  case (Cons key keys)
  have "orphans_scans_only s (seed_key now repo key s)"
    using Cons.prems observe_wf by (auto simp: orphans_scans_only_def seed_key_def Let_def)
  with Cons.IH [of "seed_key now repo key s"] show ?case
    by (simp add: orphans_scans_only_def)
qed (simp add: orphans_scans_only_def)

lemma Seed_ok: "state_ok orphans_only (orphans_Seed now repo)"
proof (rule state_okI)
  fix s r s' assume wf: "wf_state s" and f: "orphans_Seed now repo s = (r, s')"
  have "orphans_scans_only s s'"
  proof (cases "sc_complete (scan_of s repo)")
    case True
    with f wf show ?thesis by (simp add: orphans_Seed_def orphans_scans_only_def)
  next
    case False
    then obtain keys sc where "s' = (fold (seed_key now repo) keys s)
        \<lparr>st_scans := AList.update repo sc (st_scans (fold (seed_key now repo) keys s))\<rparr>"
      using f by (simp add: orphans_Seed_def Let_def) blast
    with seed_fold [OF wf, of now repo keys] show ?thesis
      by (auto simp: orphans_scans_only_def wf_state_def)
  qed
  then show "wf_state s' \<and> orphans_only (rows_of s) r (rows_of s')"
    using orphans_scans_only_rows by (auto simp: orphans_scans_only_def)
qed

lemma Reset_ok: "state_ok (\<lambda>v r v'. v' = v) (orphans_ResetScan repo)"
  by (rule state_okI) (auto simp: orphans_ResetScan_def rows_of_def wf_state_def man_def fun_eq_iff)

lemma Orphan_get_ok: "state_ok (orphan_get_spec repo d) (orphans_Get repo d)"
  by (rule state_okI) (auto simp: orphans_Get_def orphan_get_spec_def split: option.splits)

lemma Orphan_erase_ok: "state_ok orphans_shrink (orphans_Erase repo d)"
proof (rule state_okI)
  fix s r s' assume wf: "wf_state s" and f: "orphans_Erase repo d s = (r, s')"
  have "orphans_scans_only s s'"
    using f wf by (auto simp: orphans_Erase_def orphans_scans_only_def wf_state_def intro!: keyed_delete)
  moreover have "ro_orphans (rows_of s') repo' x \<noteq> None \<Longrightarrow> ro_orphans (rows_of s) repo' x \<noteq> None" for repo' x
    using f by (auto simp: orphans_Erase_def split: if_splits)
  ultimately show "wf_state s' \<and> orphans_shrink (rows_of s) r (rows_of s')"
    using orphans_scans_only_rows [of s s' r] by (auto simp: orphans_scans_only_def orphans_shrink_def)
qed

lemma Orphan_list_ok: "state_ok (orphan_list_spec repo p) (orphans_List repo p)"
proof (rule state_okI)
  fix s r s' assume wf: "wf_state s" and f: "orphans_List repo p s = (r, s')"
  note k = wf_stateD(5) [OF wf, of repo]
  let ?vs = "sorted_values oc_Subject (inner (st_orphans s) repo)"
  have sw: "sorted_wrt (<) (map oc_Subject ?vs)"
    unfolding sorted_values_def by (rule sorted_wrt_key [OF keyed_distinct [OF k]])
  have dom: "oc_Subject ` set ?vs = {d. map_of (inner (st_orphans s) repo) d \<noteq> None}"
    unfolding sorted_values_def set_sort by (rule keyed_dom [OF k])
  have "r = Inr (page_of ?vs oc_Subject p)" "s' = s" using f by (auto simp: orphans_List_def)
  with page_of_paged [OF sw, of p, unfolded dom] wf
  show "wf_state s' \<and> orphan_list_spec repo p (rows_of s) r (rows_of s')"
    by (simp add: orphan_list_spec_def)
qed

lemma Touch_ok: "state_ok (\<lambda>v r v'. same_but_pulled v v') (pulled_Touch repo n d at)"
proof (rule state_okI)
  fix s r s' assume wf: "wf_state s" and f: "pulled_Touch repo n d at s = (r, s')"
  have m: "wf_state (touch_manifest repo d at s) \<and> same_but_pulled (rows_of s) (rows_of (touch_manifest repo d at s))"
    if "wf_state s" for s
  proof (cases "man s repo d")
    case (Some e)
    have "im_Digest (en_m e) = d" by (rule man_key [OF that Some])
    with that have "wf_state (touch_manifest repo d at s)"
      by (auto simp: touch_manifest_def wf_state_def Some intro!: keyed_update)
    moreover have tm: "touch_manifest repo d at s = (if at > im_PulledAt (en_m e)
        then s\<lparr>st_manifests := AList.update repo
          (AList.update d (e\<lparr>en_m := (en_m e)\<lparr>im_PulledAt := at\<rparr>\<rparr>) (inner (st_manifests s) repo)) (st_manifests s)\<rparr>
        else s)"
      by (simp add: touch_manifest_def Some)
    have "man (touch_manifest repo d at s) = (if at > im_PulledAt (en_m e)
        then (man s)(repo := (man s repo)(d := Some (e\<lparr>en_m := (en_m e)\<lparr>im_PulledAt := at\<rparr>\<rparr>))) else man s)"
      unfolding tm by (simp add: man_def fun_eq_iff)
    ultimately show ?thesis using Some
      unfolding tm by (auto simp: same_but_pulled_def)
  qed (use that in \<open>simp add: touch_manifest_def same_but_pulled_def\<close>)
  have t: "wf_state (touch_tag repo n at s) \<and> same_but_pulled (rows_of s) (rows_of (touch_tag repo n at s))"
    if "wf_state s" for s
  proof (cases "map_of (inner (st_tags s) repo) n")
    case (Some v)
    have "tg_Name v = n" by (rule keyed_map_of [OF wf_stateD(3) [OF that] Some])
    with that have "wf_state (touch_tag repo n at s)"
      by (auto simp: touch_tag_def wf_state_def Some intro!: keyed_update)
    moreover have "man (touch_tag repo n at s) = man s"
      by (auto simp: touch_tag_def Some man_def fun_eq_iff)
    ultimately show ?thesis using Some
      by (auto simp: same_but_pulled_def touch_tag_def)
  qed (use that in \<open>simp add: touch_tag_def same_but_pulled_def\<close>)
  from m [OF wf] t [of "touch_manifest repo d at s"] f
  show "wf_state s' \<and> same_but_pulled (rows_of s) (rows_of s')"
    by (auto simp: pulled_Touch_def Let_def same_but_pulled_def split: if_splits)
qed

lemma Tag_check_ok: "state_ok (tag_check_spec repo n d) (tags_Check repo n d at)"
proof (rule state_okI)
  fix s r s' assume wf: "wf_state s" and f: "tags_Check repo n d at s = (r, s')"
  show "wf_state s' \<and> tag_check_spec repo n d (rows_of s) r (rows_of s')"
  proof (cases "map_of (inner (st_tags s) repo) n")
    case None
    with wf f show ?thesis by (auto simp: tags_Check_def tag_check_spec_def)
  next
    case (Some v)
    have n: "tg_Name v = n" by (rule keyed_map_of [OF wf_stateD(3) [OF wf] Some])
    show ?thesis
    proof (cases "tg_Digest v = d \<and> at > tg_CheckedAt v")
      case True
      then have s': "s' = s\<lparr>st_tags := AList.update repo
          (AList.update n (v\<lparr>tg_CheckedAt := at\<rparr>) (inner (st_tags s) repo)) (st_tags s)\<rparr>"
        using f Some by (simp add: tags_Check_def)
      have "wf_state s'" using wf n unfolding s' by (intro wf_tags_update) (auto intro!: keyed_update dest: wf_stateD(3))
      moreover have "rows_of s' = (rows_of s)\<lparr>ro_tags := (ro_tags (rows_of s))(repo :=
          (ro_tags (rows_of s) repo)(n := Some (v\<lparr>tg_CheckedAt := at\<rparr>)))\<rparr>"
        unfolding s' rows_tags_update by (simp add: map_of_update_fun)
      ultimately show ?thesis using Some True by (auto simp: tag_check_spec_def)
    qed (use wf f Some in \<open>auto simp: tags_Check_def tag_check_spec_def\<close>)
  qed
qed

lemma tags_sorted_iff:
  assumes "wf_state s"
  shows "t \<in> set (tags_sorted s repo) \<longleftrightarrow> ro_tags (rows_of s) repo (tg_Name t) = Some t"
  unfolding tags_sorted_def sorted_values_def set_sort using keyed_values [OF wf_stateD(3) [OF assms]] by simp

lemma tags_row_name: "wf_state s \<Longrightarrow> ro_tags (rows_of s) repo n = Some t \<Longrightarrow> tg_Name t = n"
  using keyed_map_of [OF wf_stateD(3)] by fastforce

lemma foldl_newer:
  "(case foldl newer out ts of
      None \<Rightarrow> out = None \<and> ts = []
    | Some t \<Rightarrow> (t \<in> set ts \<or> out = Some t) \<and> (\<forall>u \<in> set ts. tg_MovedAt u \<le> tg_MovedAt t) \<and>
        (\<forall>u. out = Some u \<longrightarrow> tg_MovedAt u \<le> tg_MovedAt t))"
proof (induction ts arbitrary: out)
  case (Cons u ts)
  from Cons.IH [of "newer out u"] show ?case
    by (cases out) (auto simp: newer_def split: option.splits if_splits)
qed (auto split: option.split)

lemma Tag_newest_ok: "state_ok (tag_newest_spec repo) (tags_Newest repo)"
proof (rule state_okI)
  fix s r s' assume wf: "wf_state s" and f: "tags_Newest repo s = (r, s')"
  note i = tags_sorted_iff [OF wf, of _ repo] and nm = tags_row_name [OF wf, of repo]
  show "wf_state s' \<and> tag_newest_spec repo (rows_of s) r (rows_of s')"
  proof (cases "foldl newer None (tags_sorted s repo)")
    case None
    with foldl_newer [of None "tags_sorted s repo"] have "tags_sorted s repo = []" by simp
    with i nm have "\<forall>n. ro_tags (rows_of s) repo n = None" by (metis empty_iff empty_set not_None_eq)
    with None wf f show ?thesis by (auto simp: tags_Newest_def tag_newest_spec_def)
  next
    case (Some t)
    with foldl_newer [of None "tags_sorted s repo"] have "t \<in> set (tags_sorted s repo)"
      "\<forall>u \<in> set (tags_sorted s repo). tg_MovedAt u \<le> tg_MovedAt t" by simp_all
    with i nm have "ro_tags (rows_of s) repo (tg_Name t) = Some t"
      "\<forall>n u. ro_tags (rows_of s) repo n = Some u \<longrightarrow> tg_MovedAt u \<le> tg_MovedAt t" by metis+
    with Some wf f show ?thesis by (auto simp: tags_Newest_def tag_newest_spec_def)
  qed
qed

lemma Tag_list_ok: "state_ok (tag_list_spec repo p) (tags_List repo p)"
proof (rule state_okI)
  fix s r s' assume wf: "wf_state s" and f: "tags_List repo p s = (r, s')"
  note k = wf_stateD(3) [OF wf, of repo]
  have sw: "sorted_wrt (<) (map tg_Name (tags_sorted s repo))"
    unfolding tags_sorted_def sorted_values_def by (rule sorted_wrt_key [OF keyed_distinct [OF k]])
  have "tg_Name ` set (tags_sorted s repo) = {n. map_of (inner (st_tags s) repo) n \<noteq> None}"
    unfolding tags_sorted_def sorted_values_def set_sort by (rule keyed_dom [OF k])
  with page_of_paged [OF sw, of p] wf f show "wf_state s' \<and> tag_list_spec repo p (rows_of s) r (rows_of s')"
    by (auto simp: tags_List_def tag_list_spec_def)
qed

lemma Holders_ok: "state_ok (holders_spec repo d) (manifests_Holders repo d)"
proof (rule state_okI)
  fix s r s' assume wf: "wf_state s" and f: "manifests_Holders repo d s = (r, s')"
  from wf_stateD(2) [OF wf, of repo] have "wf_map (inner (st_manifests s) repo)" by (rule keyed_wf)
  then have kd: "(h, e) \<in> set (inner (st_manifests s) repo) \<longleftrightarrow> man s repo h = Some e" for h e
    by (simp add: wf_map_def man_def)
  have "fst ` {p \<in> set (inner (st_manifests s) repo). case p of (h, e) \<Rightarrow> d \<in> set (en_holds e)} =
      {h. \<exists>e. man s repo h = Some e \<and> d \<in> set (en_holds e)}" (is "?A = _")
    by (force simp: kd)
  moreover have "r = Inr (sort (map fst (filter (\<lambda>(h, e). d \<in> set (en_holds e)) (inner (st_manifests s) repo))))"
    "s' = s" using f by (auto simp: manifests_Holders_def)
  ultimately show "wf_state s' \<and> holders_spec repo d (rows_of s) r (rows_of s')"
    using wf by (simp only: holders_spec_def sum.case set_sort set_map set_filter rows_of_sel simp_thms)
qed

lemma Repo_get_ok: "state_ok (repo_get_spec n) (repos_Get n)"
  by (rule state_okI) (auto simp: repos_Get_def repo_get_spec_def split: option.splits)

lemma Repo_search_ok: "state_ok (repo_search_spec q p) (repos_Search q p)"
proof (rule state_okI)
  fix s r s' assume wf: "wf_state s" and f: "repos_Search q p s = (r, s')"
  note k = wf_stateD(1) [OF wf]
  let ?vs = "filter (finds q) (repos_sorted s)"
  have "sorted_wrt (<) (map re_Name (repos_sorted s))"
    unfolding repos_sorted_def sorted_values_def by (rule sorted_wrt_key [OF keyed_distinct [OF k]])
  then have sw: "sorted_wrt (<) (map re_Name ?vs)" by (auto simp: sorted_wrt_map intro: sorted_wrt_filter)
  have v: "x \<in> set (repos_sorted s) \<longleftrightarrow> map_of (st_repos s) (re_Name x) = Some x" for x
    unfolding repos_sorted_def sorted_values_def set_sort by (rule keyed_values [OF k])
  have dom: "re_Name ` set ?vs = {n. \<exists>x. ro_repos (rows_of s) n = Some x \<and> finds q x}"
  proof -
    have "\<exists>x. map_of (st_repos s) n = Some x \<and> finds q x" if "x \<in> set ?vs" "re_Name x = n" for x n
      using that v [of x] by auto
    moreover have "n \<in> re_Name ` set ?vs" if "map_of (st_repos s) n = Some x" "finds q x" for x n
      using that v [of x] keyed_map_of [OF k that(1)] by auto
    ultimately show ?thesis by auto
  qed
  have "delete_func (\<lambda>v. \<not> contains (to_lower (re_Name v)) (to_lower q) \<and>
      \<not> contains (to_lower (re_Description v)) (to_lower q)) (repos_sorted s) = ?vs"
    by (auto simp: delete_func_def finds_def intro!: filter_cong)
  then have rs: "r = Inr (page_of ?vs re_Name p)" "s' = s" using f by (auto simp: repos_Search_def Let_def)
  have "\<forall>x \<in> set (page_of ?vs re_Name p). ro_repos (rows_of s) (re_Name x) = Some x \<and> finds q x"
    using page_of_subset [of ?vs re_Name p] v by auto
  with page_of_paged [OF sw, of p, unfolded dom] wf
  show "wf_state s' \<and> repo_search_spec q p (rows_of s) r (rows_of s')"
    unfolding rs repo_search_spec_def by (simp only: sum.case simp_thms)
qed

lemma Snap_put_ok: "state_ok (snap_put_spec repo v) (snapshots_Put repo v)"
proof (rule state_okI)
  fix s r s' assume wf: "wf_state s" and f: "snapshots_Put repo v s = (r, s')"
  then have s': "s' = s\<lparr>st_snapshots := AList.update repo
      (AList.update (sn_Subject v) v (inner (st_snapshots s) repo)) (st_snapshots s)\<rparr>" and r: "r = Inr ()"
    by (simp_all add: snapshots_Put_def)
  have "wf_state s'" using wf unfolding wf_state_def s' by (auto intro!: keyed_update)
  moreover have "rows_of s' = (rows_of s)\<lparr>ro_snaps := (ro_snaps (rows_of s))(repo :=
      (ro_snaps (rows_of s) repo)(sn_Subject v := Some v))\<rparr>"
    by (auto simp: rows_of_def s' man_def fun_eq_iff map_of_update_fun)
  ultimately show "wf_state s' \<and> snap_put_spec repo v (rows_of s) r (rows_of s')" by (simp add: snap_put_spec_def r)
qed

section \<open>Views and transactions\<close>

definition mem_intx :: "view \<Rightarrow> bool" where
  "mem_intx v = (vw_s v \<noteq> None)"

definition mem_outer :: "view \<Rightarrow> rows" where
  "mem_outer v = rows_of (mi_s (vw_ix v))"

definition mem_seen :: "view \<Rightarrow> rows" where
  "mem_seen v = rows_of (case vw_s v of Some s \<Rightarrow> s | None \<Rightarrow> mi_s (vw_ix v))"

text \<open>The code nests no transaction, so a view in one is at depth zero.\<close>

definition mem_good :: "view \<Rightarrow> bool" where
  "mem_good v = (wf_state (mi_s (vw_ix v)) \<and> (\<forall>s. vw_s v = Some s \<longrightarrow> wf_state s) \<and> vw_depth v = 0)"

lemma ctx_failed_not_found [simp]: "\<not> errors_is (ctx_failed ix e) ErrNotFound"
  by (simp add: ctx_failed_def split: ctx_error.split)

lemma acquire_same:
  "acquire taken ix = (r, ix') \<Longrightarrow> mi_s ix' = mi_s ix \<and> mi_now ix' = mi_now ix \<and> mi_locked ix' = mi_locked ix \<and>
     (\<forall>e. r = Inl e \<longrightarrow> \<not> errors_is e ErrNotFound)"
  by (auto simp: acquire_def split: list.splits option.splits if_splits)

text \<open>A specification that says nothing of an operation that did not get its lock.\<close>

definition quiet :: "(rows \<Rightarrow> error + 'r \<Rightarrow> rows \<Rightarrow> bool) \<Rightarrow> bool" where
  "quiet Q = (\<forall>v e. \<not> errors_is e ErrNotFound \<longrightarrow> Q v (Inl e) v)"

lemma view_do_ok:
  assumes f: "\<And>now. state_ok Q (f now)" and q: "quiet Q"
  shows "op_ok mem_good mem_seen mem_outer mem_intx Q (\<lambda>v. view_do (f (view_now v)) v)"
  unfolding op_ok_def
proof (intro allI impI)
  fix v r v' assume g: "mem_good v" and e: "view_do (f (view_now v)) v = (r, v')"
  have f': "wf_state s \<Longrightarrow> f now s = (r, s') \<Longrightarrow> wf_state s' \<and> Q (rows_of s) r (rows_of s')" for now s r s'
    using f [of now] unfolding state_ok_def by fastforce
  show "mem_good v' \<and> mem_intx v' = mem_intx v \<and> mem_outer v' = (if mem_intx v then mem_outer v else mem_seen v') \<and>
      Q (mem_seen v) r (mem_seen v')"
  proof (cases "vw_s v")
    case (Some s)
    obtain r1 s' where fs: "f (view_now v) s = (r1, s')" by force
    from f' [OF _ fs] g e fs Some show ?thesis
      by (auto simp: view_do_def mem_good_def mem_intx_def mem_outer_def mem_seen_def)
  next
    case None
    obtain r1 ix where a: "acquire False (vw_ix v) = (r1, ix)" by force
    note ac = acquire_same [OF a]
    show ?thesis
    proof (cases r1)
      case (Inl e1)
      with ac e a None g q show ?thesis
        by (auto simp: view_do_def mem_good_def mem_intx_def mem_outer_def mem_seen_def quiet_def)
    next
      case (Inr u)
      obtain r2 s' where fs: "f (view_now v) (mi_s ix) = (r2, s')" by force
      from f' [OF _ fs] ac Inr e a None g fs show ?thesis
        by (auto simp: view_do_def mem_good_def mem_intx_def mem_outer_def mem_seen_def)
    qed
  qed
qed

lemma view_do_ok':
  assumes "state_ok Q f" and "quiet Q"
  shows "op_ok mem_good mem_seen mem_outer mem_intx Q (view_do f)"
  using view_do_ok [of Q "\<lambda>_. f"] assms by simp

lemma Lock_ok: "op_ok mem_good mem_seen mem_outer mem_intx (\<lambda>v r v'. v' = v) (view_Lock repo)"
  unfolding op_ok_def
proof (intro allI impI)
  fix v r v' assume g: "mem_good v" and e: "view_Lock repo v = (r, v')"
  obtain r1 ix where a: "acquire (repo \<in> set (mi_locked (vw_ix v))) (vw_ix v) = (r1, ix)" by force
  with acquire_same [OF a] g e
  show "mem_good v' \<and> mem_intx v' = mem_intx v \<and> mem_outer v' = (if mem_intx v then mem_outer v else mem_seen v') \<and>
      mem_seen v' = mem_seen v"
    by (cases r1) (auto simp: view_Lock_def mem_good_def mem_intx_def mem_outer_def mem_seen_def split: if_splits)
qed

lemma release_lock_sel [simp]:
  "mem_good (release_lock repo v) = mem_good v" "mem_seen (release_lock repo v) = mem_seen v"
  "mem_outer (release_lock repo v) = mem_outer v" "mem_intx (release_lock repo v) = mem_intx v"
  by (simp_all add: release_lock_def mem_good_def mem_seen_def mem_outer_def mem_intx_def split: option.split)

lemma begin_ok:
  assumes g: "mem_good v" and n: "\<not> mem_intx v" and e: "tx_begin repo v = (r, v')"
  shows "mem_good v' \<and> mem_outer v' = mem_outer v \<and> mem_seen v' = mem_seen v \<and> mem_intx v' = is_ok r"
proof -
  from n have s: "vw_s v = None" by (simp add: mem_intx_def)
  obtain r1 v1 where l: "(if repo = '''' then (Inr (), v) else view_Lock repo v) = (r1, v1)" by force
  have v1: "mem_good v1" "\<not> mem_intx v1" "mem_outer v1 = mem_outer v" "mem_seen v1 = mem_seen v"
    using l g n Lock_ok [of repo] unfolding op_ok_def
    by (auto split: if_splits simp: mem_seen_def mem_outer_def mem_intx_def)
  show ?thesis
  proof (cases r1)
    case (Inl x)
    with e s l v1 n show ?thesis by (auto simp: tx_begin_def)
  next
    case (Inr u)
    obtain r2 ix where a: "acquire False (vw_ix v1) = (r2, ix)" by force
    note ac = acquire_same [OF a]
    have upd: "mem_good (v1\<lparr>vw_ix := ix\<rparr>)" "mem_outer (v1\<lparr>vw_ix := ix\<rparr>) = mem_outer v1"
      "mem_seen (v1\<lparr>vw_ix := ix\<rparr>) = mem_seen v1" "\<not> mem_intx (v1\<lparr>vw_ix := ix\<rparr>)"
      using v1 ac by (auto simp: mem_good_def mem_outer_def mem_seen_def mem_intx_def)
    have tx: "mem_good (v1\<lparr>vw_ix := ix, vw_s := Some (mi_s ix), vw_depth := 0\<rparr>)"
      "mem_outer (v1\<lparr>vw_ix := ix, vw_s := Some (mi_s ix), vw_depth := 0\<rparr>) = mem_outer v1"
      "mem_seen (v1\<lparr>vw_ix := ix, vw_s := Some (mi_s ix), vw_depth := 0\<rparr>) = mem_seen v1"
      "mem_intx (v1\<lparr>vw_ix := ix, vw_s := Some (mi_s ix), vw_depth := 0\<rparr>)"
      using v1 ac by (auto simp: mem_good_def mem_outer_def mem_seen_def mem_intx_def)
    show ?thesis
      using e s l Inr a v1 upd tx unfolding tx_begin_def by (cases r2) (auto split: if_splits)
  qed
qed

lemma leave_ok:
  "mem_good v \<Longrightarrow> mem_good (tx_leave repo v) \<and> \<not> mem_intx (tx_leave repo v) \<and> mem_outer (tx_leave repo v) = mem_outer v"
  by (simp add: tx_leave_def) (simp add: mem_good_def mem_intx_def mem_outer_def)

lemma commit_ok:
  assumes "mem_good v" and "mem_intx v" and "tx_commit repo v = (r, v')"
  shows "mem_good v' \<and> \<not> mem_intx v' \<and> mem_outer v' = (if is_ok r then mem_seen v else mem_outer v)"
proof -
  from assms(2) obtain c where c: "vw_s v = Some c" by (auto simp: mem_intx_def)
  have "mem_good (v\<lparr>vw_ix := (vw_ix v)\<lparr>mi_s := c\<rparr>\<rparr>)" using assms(1) c by (simp add: mem_good_def)
  from leave_ok [OF this, of repo] c assms(1,3) show ?thesis
    by (auto simp: tx_commit_def mem_good_def mem_outer_def mem_seen_def)
qed

lemma abort_ok:
  "mem_good v \<Longrightarrow> mem_intx v \<Longrightarrow>
     mem_good (tx_abort repo v) \<and> \<not> mem_intx (tx_abort repo v) \<and> mem_outer (tx_abort repo v) = mem_outer v"
  using leave_ok [of v repo] by (auto simp: tx_abort_def mem_good_def mem_intx_def)

lemma unlock_ok:
  "mem_good v \<Longrightarrow> mem_good (view_unlock repo v) \<and> mem_intx (view_unlock repo v) = mem_intx v \<and>
     mem_seen (view_unlock repo v) = mem_seen v \<and> mem_outer (view_unlock repo v) = mem_outer v"
  by (simp add: view_unlock_def)

lemma touch_ok:
  assumes "mem_good v"
  shows "mem_good (view_touch repo n d at v) \<and> mem_intx (view_touch repo n d at v) = mem_intx v \<and>
    mem_outer (view_touch repo n d at v) = (if mem_intx v then mem_outer v else mem_seen (view_touch repo n d at v)) \<and>
    same_but_pulled (mem_seen v) (mem_seen (view_touch repo n d at v))"
proof -
  have "quiet (\<lambda>v r v'. same_but_pulled v v')" by (simp add: quiet_def same_but_pulled_def)
  from view_do_ok' [OF Touch_ok this, of repo n d at] assms show ?thesis
    unfolding op_ok_def view_touch_def by (metis prod.collapse)
qed

section \<open>The index in memory is an index\<close>

lemma quiet_specs [intro]:
  "quiet (ensure_spec n)" "quiet (repo_list_spec p)" "quiet (put_spec repo m hs)" "quiet (get_spec repo d)"
  "quiet (erase_spec repo d)" "quiet (referrers_spec repo d n)" "quiet (holds_spec repo d)"
  "quiet (list_spec repo p)" "quiet (marks_spec repo)" "quiet (unneeded_spec repo c p)"
  "quiet (tag_set_spec repo n d from)" "quiet (tag_get_spec repo n)" "quiet (tag_erase_spec repo n)"
  "quiet (tag_of_spec repo d)" "quiet (tag_all_spec repo)" "quiet (snap_get_spec repo d)"
  "quiet (snap_list_spec repo p)" "quiet (snap_erase_spec repo d)" "quiet orphans_only"
  "quiet (\<lambda>v r v'. v' = v)" "quiet (orphan_get_spec repo d)" "quiet (orphan_list_spec repo p)"
  "quiet orphans_shrink" "quiet (tag_check_spec repo n d)" "quiet (tag_newest_spec repo)"
  "quiet (tag_list_spec repo p)" "quiet (holders_spec repo d)" "quiet (repo_get_spec n)"
  "quiet (repo_search_spec q p)" "quiet (snap_put_spec repo sn)"
  by (simp_all add: quiet_def ensure_spec_def repo_list_spec_def put_spec_def get_spec_def erase_spec_def
      referrers_spec_def holds_spec_def list_spec_def marks_spec_def unneeded_spec_def tag_set_spec_def
      tag_get_spec_def tag_erase_spec_def tag_of_spec_def tag_all_spec_def snap_get_spec_def snap_list_spec_def
      snap_erase_spec_def orphan_get_spec_def orphan_list_spec_def tag_check_spec_def tag_newest_spec_def
      tag_list_spec_def holders_spec_def repo_get_spec_def repo_search_spec_def snap_put_spec_def)
    (simp_all add: orphans_only_def orphans_shrink_def, (metis rows.surjective rows.update_convs(5))+)

lemma mem_ops_sel:
  "ix_begin mem_ops = tx_begin" "ix_commit mem_ops = tx_commit" "ix_abort mem_ops = tx_abort"
  "ix_lock mem_ops = view_Lock" "ix_unlock mem_ops = view_unlock" "ix_touch mem_ops = view_touch"
  "ix_repo_ensure mem_ops = (\<lambda>name v. view_do (repos_Ensure (view_now v) name) v)"
  "ix_repo_list mem_ops = (\<lambda>p. view_do (repos_List p))"
  "ix_put mem_ops = (\<lambda>repo m hs v. view_do (manifests_Put (view_now v) repo m hs) v)"
  "ix_get mem_ops = (\<lambda>repo d. view_do (manifests_Get repo d))"
  "ix_erase mem_ops = (\<lambda>repo d v. view_do (manifests_Erase (view_now v) repo d) v)"
  "ix_referrers mem_ops = (\<lambda>repo d at. view_do (manifests_Referrers repo d at))"
  "ix_holds mem_ops = (\<lambda>repo d. view_do (manifests_Holds repo d))"
  "ix_list mem_ops = (\<lambda>repo p. view_do (manifests_List repo p))"
  "ix_marks mem_ops = (\<lambda>repo. view_do (manifests_Marks repo))"
  "ix_unneeded mem_ops = (\<lambda>repo c p. view_do (manifests_Unneeded repo c p))"
  "ix_tag_set mem_ops = (\<lambda>repo n d from v. view_do (tags_Set (view_now v) repo n d from) v)"
  "ix_tag_get mem_ops = (\<lambda>repo n. view_do (tags_Get repo n))"
  "ix_tag_erase mem_ops = (\<lambda>repo n. view_do (tags_Erase repo n))"
  "ix_tag_of mem_ops = (\<lambda>repo d. view_do (tags_Of repo d))"
  "ix_tag_all mem_ops = (\<lambda>repo. view_do (tags_All repo))"
  "ix_snap_get mem_ops = (\<lambda>repo d. view_do (snapshots_Get repo d))"
  "ix_snap_list mem_ops = (\<lambda>repo p. view_do (snapshots_List repo p))"
  "ix_snap_erase mem_ops = (\<lambda>repo d. view_do (snapshots_Erase repo d))"
  "ix_seed mem_ops = (\<lambda>repo v. view_do (orphans_Seed (view_now v) repo) v)"
  "ix_reset_scan mem_ops = (\<lambda>repo. view_do (orphans_ResetScan repo))"
  "ix_orphan_get mem_ops = (\<lambda>repo d. view_do (orphans_Get repo d))"
  "ix_orphan_list mem_ops = (\<lambda>repo p. view_do (orphans_List repo p))"
  "ix_orphan_erase mem_ops = (\<lambda>repo d. view_do (orphans_Erase repo d))"
  "ix_tag_check mem_ops = (\<lambda>repo n d at. view_do (tags_Check repo n d at))"
  "ix_tag_newest mem_ops = (\<lambda>repo. view_do (tags_Newest repo))"
  "ix_tag_list mem_ops = (\<lambda>repo p. view_do (tags_List repo p))"
  "ix_holders mem_ops = (\<lambda>repo d. view_do (manifests_Holders repo d))"
  "ix_repo_get mem_ops = (\<lambda>name. view_do (repos_Get name))"
  "ix_repo_search mem_ops = (\<lambda>q p. view_do (repos_Search q p))"
  "ix_snap_put mem_ops = (\<lambda>repo s. view_do (snapshots_Put repo s))"
  by (simp_all add: mem_ops_def)

lemmas mem_op_laws =
  Lock_ok
  view_do_ok [OF Ensure_ok quiet_specs(1)] view_do_ok' [OF Repo_list_ok quiet_specs(2)]
  view_do_ok [OF Put_ok quiet_specs(3)] view_do_ok' [OF Get_ok quiet_specs(4)]
  view_do_ok [OF Erase_ok quiet_specs(5)] view_do_ok' [OF Referrers_ok quiet_specs(6)]
  view_do_ok' [OF Holds_ok quiet_specs(7)] view_do_ok' [OF List_ok quiet_specs(8)]
  view_do_ok' [OF Marks_ok quiet_specs(9)] view_do_ok' [OF Unneeded_ok quiet_specs(10)]
  view_do_ok [OF Tag_set_ok quiet_specs(11)] view_do_ok' [OF Tag_get_ok quiet_specs(12)]
  view_do_ok' [OF Tag_erase_ok quiet_specs(13)] view_do_ok' [OF Tag_of_ok quiet_specs(14)]
  view_do_ok' [OF Tag_all_ok quiet_specs(15)] view_do_ok' [OF Snap_get_ok quiet_specs(16)]
  view_do_ok' [OF Snap_list_ok quiet_specs(17)] view_do_ok' [OF Snap_erase_ok quiet_specs(18)]
  view_do_ok [OF Seed_ok quiet_specs(19)] view_do_ok' [OF Reset_ok quiet_specs(20)]
  view_do_ok' [OF Orphan_get_ok quiet_specs(21)] view_do_ok' [OF Orphan_list_ok quiet_specs(22)]
  view_do_ok' [OF Orphan_erase_ok quiet_specs(23)]
  view_do_ok' [OF Tag_check_ok quiet_specs(24)] view_do_ok' [OF Tag_newest_ok quiet_specs(25)]
  view_do_ok' [OF Tag_list_ok quiet_specs(26)] view_do_ok' [OF Holders_ok quiet_specs(27)]
  view_do_ok' [OF Repo_get_ok quiet_specs(28)] view_do_ok' [OF Repo_search_ok quiet_specs(29)]
  view_do_ok' [OF Snap_put_ok quiet_specs(30)]

interpretation mem: index_laws mem_ops mem_good mem_seen mem_outer mem_intx
proof (unfold_locales, unfold mem_ops_sel)
  show "mem_good x \<Longrightarrow> \<not> mem_intx x \<Longrightarrow> mem_seen x = mem_outer x" for x
    by (simp add: mem_intx_def mem_seen_def mem_outer_def)
qed (rule mem_op_laws | erule (2) begin_ok commit_ok | erule (1) abort_ok | erule unlock_ok touch_ok)+

lemma new_index_good [simp]: "mem_good (new_index w now os)" "\<not> mem_intx (new_index w now os)"
  by (simp_all add: new_index_def mem_good_def mem_intx_def)

section \<open>The lists of the index in memory, page by page\<close>

lemma finite_rows:
  "finite {n. ro_repos (mem_seen v) n \<noteq> None}" "finite {d. indexed (mem_seen v) repo d}"
  "finite {d. ro_snaps (mem_seen v) repo d \<noteq> None}" "finite {d. ro_orphans (mem_seen v) repo d \<noteq> None}"
proof -
  have f: "finite {k. map_of m k \<noteq> None}" for m :: "('k, 'v) gomap"
    using finite_dom_map_of [of m] by (simp add: dom_def)
  show "finite {n. ro_repos (mem_seen v) n \<noteq> None}" "finite {d. indexed (mem_seen v) repo d}"
    "finite {d. ro_snaps (mem_seen v) repo d \<noteq> None}" "finite {d. ro_orphans (mem_seen v) repo d \<noteq> None}"
    using f by (simp_all add: mem_seen_def indexed_def man_def)
qed

interpretation repo_pages: listing "ix_repo_list mem_ops" "\<lambda>n. n"
  "\<lambda>v. {n. ro_repos (mem_seen v) n \<noteq> None}" mem_good
proof
  fix v p r v' assume "mem_good v" "ix_repo_list mem_ops p v = (r, v')"
  from mem.opD [OF mem.repo_list_law this]
  show "mem_good v' \<and> {n. ro_repos (mem_seen v') n \<noteq> None} = {n. ro_repos (mem_seen v) n \<noteq> None} \<and>
      (\<forall>vs. r = Inr vs \<longrightarrow> paged {n. ro_repos (mem_seen v) n \<noteq> None} p (map (\<lambda>n. n) vs))"
    by (auto simp: repo_list_spec_def)
qed (rule finite_rows)

interpretation manifest_pages: listing "ix_list mem_ops repo" im_Digest
  "\<lambda>v. {d. indexed (mem_seen v) repo d}" mem_good for repo
proof
  fix v p r v' assume "mem_good v" "ix_list mem_ops repo p v = (r, v')"
  from mem.opD [OF mem.list_law this]
  show "mem_good v' \<and> {d. indexed (mem_seen v') repo d} = {d. indexed (mem_seen v) repo d} \<and>
      (\<forall>vs. r = Inr vs \<longrightarrow> paged {d. indexed (mem_seen v) repo d} p (map im_Digest vs))"
    by (auto simp: list_spec_def)
qed (rule finite_rows)

interpretation unneeded_pages: listing "ix_unneeded mem_ops repo cutoff" im_Digest
  "\<lambda>v. {d. unneeded (mem_seen v) repo cutoff d}" mem_good for repo cutoff
proof
  fix v p r v' assume "mem_good v" "ix_unneeded mem_ops repo cutoff p v = (r, v')"
  from mem.opD [OF mem.unneeded_law this]
  show "mem_good v' \<and> {d. unneeded (mem_seen v') repo cutoff d} = {d. unneeded (mem_seen v) repo cutoff d} \<and>
      (\<forall>vs. r = Inr vs \<longrightarrow> paged {d. unneeded (mem_seen v) repo cutoff d} p (map im_Digest vs))"
    by (auto simp: unneeded_spec_def)
next
  fix v
  have "{d. unneeded (mem_seen v) repo cutoff d} \<subseteq> {d. indexed (mem_seen v) repo d}"
    by (auto simp: unneeded_def indexed_def)
  then show "finite {d. unneeded (mem_seen v) repo cutoff d}" using finite_rows(2) by (rule finite_subset)
qed

interpretation snapshot_pages: listing "ix_snap_list mem_ops repo" sn_Subject
  "\<lambda>v. {d. ro_snaps (mem_seen v) repo d \<noteq> None}" mem_good for repo
proof
  fix v p r v' assume "mem_good v" "ix_snap_list mem_ops repo p v = (r, v')"
  from mem.opD [OF mem.snap_list_law this]
  show "mem_good v' \<and> {d. ro_snaps (mem_seen v') repo d \<noteq> None} = {d. ro_snaps (mem_seen v) repo d \<noteq> None} \<and>
      (\<forall>vs. r = Inr vs \<longrightarrow> paged {d. ro_snaps (mem_seen v) repo d \<noteq> None} p (map sn_Subject vs))"
    by (auto simp: snap_list_spec_def)
qed (rule finite_rows)

interpretation orphan_pages: listing "ix_orphan_list mem_ops repo" oc_Subject
  "\<lambda>v. {d. ro_orphans (mem_seen v) repo d \<noteq> None}" mem_good for repo
proof
  fix v p r v' assume "mem_good v" "ix_orphan_list mem_ops repo p v = (r, v')"
  from mem.opD [OF mem.orphan_list_law this]
  show "mem_good v' \<and> {d. ro_orphans (mem_seen v') repo d \<noteq> None} = {d. ro_orphans (mem_seen v) repo d \<noteq> None} \<and>
      (\<forall>vs. r = Inr vs \<longrightarrow> paged {d. ro_orphans (mem_seen v) repo d \<noteq> None} p (map oc_Subject vs))"
    by (auto simp: orphan_list_spec_def)
qed (rule finite_rows)

section \<open>A state to try things on\<close>

lemma mem_good_after:
  assumes "mem_good v"
  shows "mem_good (snd (ix_put mem_ops repo m hs v))" "mem_good (snd (ix_tag_set mem_ops repo n d from v))"
    "mem_good (snd (ix_repo_ensure mem_ops n v))"
  using mem.opD [OF mem.put_law assms] mem.opD [OF mem.tag_set_law assms] mem.opD [OF mem.ensure_law assms]
  by (metis prod.collapse)+

lemma mem_intx_after:
  assumes "mem_good v" "\<not> mem_intx v"
  shows "\<not> mem_intx (snd (ix_put mem_ops repo m hs v))" "\<not> mem_intx (snd (ix_tag_set mem_ops repo n d from v))"
    "\<not> mem_intx (snd (ix_repo_ensure mem_ops n v))"
  using mem.opD [OF mem.put_law assms(1)] mem.opD [OF mem.tag_set_law assms(1)] mem.opD [OF mem.ensure_law assms(1)] assms(2)
  by (metis prod.collapse)+

text \<open>
  A repository with two manifests, each with a blob of its own and one they share; a tag points
  at the first.
\<close>

definition sample_m :: "digest \<Rightarrow> imanifest" where
  "sample_m d = \<lparr>im_Digest = d, im_MediaType = ''m'', im_ArtifactType = '''', im_Subject = '''', im_Size = 2,
     im_Annotations = [], im_CreatedAt = 10, im_PulledAt = 0\<rparr>"

definition sample_index :: view where
  "sample_index =
     snd (ix_tag_set mem_ops ''acme/app'' ''v1'' ''sha256:m1'' ''''
       (snd (ix_put mem_ops ''acme/app'' (sample_m ''sha256:m2'') [''sha256:b0'', ''sha256:b2'']
         (snd (ix_put mem_ops ''acme/app'' (sample_m ''sha256:m1'') [''sha256:b0'', ''sha256:b1'']
           (snd (ix_repo_ensure mem_ops ''acme/app'' (new_index 5 100 []))))))))"

lemma sample_index_good [simp]: "mem_good sample_index" "\<not> mem_intx sample_index"
  unfolding sample_index_def by (intro mem_good_after mem_intx_after new_index_good)+

end
