(* ===== verification/Blob_Store.thy ===== *)
theory Blob_Store
  imports Paging
begin

text \<open>
  The blob store under the registry, package flob, which is not part of this repository: its
  operations are the fields of a record, given to everything that uses the store, over a state
  \<open>'f\<close> of its own.  What a proof relies on of them is stated here as predicates over what a
  repository has, \<open>has f repo d\<close>.  Then the state the registry and the collector run on, the
  index beside the store.
\<close>

section \<open>The operations\<close>

record stage_info =
  si_Offset :: int
  si_Active :: bool
  si_Algorithm :: string

text \<open>
  A repository is named by its string and a blob by its digest.  \<open>fl_size\<close> and \<open>fl_added\<close>
  are \<open>Info.Size\<close> and \<open>Info.Added\<close>; the fields that are booleans say whether the store
  is a \<open>Walker\<close>, a \<open>Linker\<close>, a \<open>Presigner\<close>, a \<open>Stager\<close>, a \<open>StageCleaner\<close>, a
  \<open>Namespacer\<close>.  \<open>fl_append\<close> is given the body, or the error it breaks off with.
\<close>

record 'f store_ops =
  fl_stat :: "string \<Rightarrow> digest \<Rightarrow> ('f, unit) op"
  fl_size :: "string \<Rightarrow> digest \<Rightarrow> ('f, int) op"
  fl_added :: "string \<Rightarrow> digest \<Rightarrow> ('f, time) op"
  fl_open :: "string \<Rightarrow> digest \<Rightarrow> ('f, string) op"
  fl_add :: "string \<Rightarrow> digest \<Rightarrow> int \<Rightarrow> string \<Rightarrow> ('f, unit) op"
  fl_erase :: "string \<Rightarrow> digest \<Rightarrow> ('f, unit) op"
  fl_walker :: "string \<Rightarrow> bool"
  fl_walk :: "string \<Rightarrow> ('f, digest list) op"
  fl_linker :: "string \<Rightarrow> bool"
  fl_link :: "string \<Rightarrow> digest \<Rightarrow> string \<Rightarrow> ('f, unit) op"
  fl_presigner :: "string \<Rightarrow> bool"
  fl_presign :: "string \<Rightarrow> digest \<Rightarrow> duration \<Rightarrow> ('f, string) op"
  fl_stager :: "string \<Rightarrow> bool"
  fl_begin :: "string \<Rightarrow> string \<Rightarrow> ('f, string) op"
  fl_resume :: "string \<Rightarrow> string \<Rightarrow> ('f, unit) op"
  fl_stage_stat :: "string \<Rightarrow> string \<Rightarrow> ('f, stage_info) op"
  fl_append :: "string \<Rightarrow> string \<Rightarrow> int \<Rightarrow> error + string \<Rightarrow> ('f, int) op"
  fl_commit :: "string \<Rightarrow> string \<Rightarrow> digest \<Rightarrow> ('f, digest \<times> int) op"
  fl_abort :: "string \<Rightarrow> string \<Rightarrow> ('f, unit) op"
  fl_pruner :: bool
  fl_prune :: "'f \<Rightarrow> (nat \<times> error option) \<times> 'f"
  fl_namespacer :: bool
  fl_namespaces :: "('f, string list) op"

section \<open>What is relied on\<close>

text \<open>An operation that leaves what every repository has as it is.\<close>

definition store_reads :: "('f \<Rightarrow> string \<Rightarrow> digest \<Rightarrow> string option) \<Rightarrow> ('f, 'r) op \<Rightarrow> bool" where
  "store_reads has g = (\<forall>f r f'. g f = (r, f') \<longrightarrow> has f' = has f)"

text \<open>
  \<open>Erase\<close> is about the one digest in the one repository: nothing else goes, nothing comes, and
  when it answers no error the blob is gone.
\<close>

definition erase_ok :: "'f store_ops \<Rightarrow> ('f \<Rightarrow> string \<Rightarrow> digest \<Rightarrow> string option) \<Rightarrow> bool" where
  "erase_ok fl has =
     (\<forall>repo d f r f'. fl_erase fl repo d f = (r, f') \<longrightarrow>
        (\<forall>repo' d'. (repo', d') \<noteq> (repo, d) \<longrightarrow> has f' repo' d' = has f repo' d') \<and>
        (has f' repo d = None \<or> has f' repo d = has f repo d) \<and> (is_ok r \<longrightarrow> has f' repo d = None))"

text \<open>
  \<open>Add\<close> reads the bytes in and keeps them under their digest; a digest that is already there
  is as it was.  Whatever it answers, it takes nothing away.
\<close>

definition add_ok :: "'f store_ops \<Rightarrow> ('f \<Rightarrow> string \<Rightarrow> digest \<Rightarrow> string option) \<Rightarrow> bool" where
  "add_ok fl has =
     (\<forall>repo d n body f r f'. fl_add fl repo d n body f = (r, f') \<longrightarrow>
        (\<forall>repo' d'. (repo', d') \<noteq> (repo, d) \<longrightarrow> has f' repo' d' = has f repo' d') \<and>
        (has f repo d \<noteq> None \<longrightarrow> has f' repo d = has f repo d) \<and>
        (is_ok r \<or> (\<exists>e. r = Inl e \<and> errors_is e (Flob AlreadyExists)) \<longrightarrow> has f' repo d \<noteq> None))"

text \<open>\<open>Stat\<close> tells whether a blob is there.\<close>

definition stat_ok :: "'f store_ops \<Rightarrow> ('f \<Rightarrow> string \<Rightarrow> digest \<Rightarrow> string option) \<Rightarrow> bool" where
  "stat_ok fl has =
     (\<forall>repo d. store_reads has (fl_stat fl repo d) \<and>
        (\<forall>f f'. fl_stat fl repo d f = (Inr (), f') \<longrightarrow> has f repo d \<noteq> None))"

text \<open>An operation that may bring content in, and takes none away.\<close>

definition grows :: "('f \<Rightarrow> string \<Rightarrow> digest \<Rightarrow> string option) \<Rightarrow> 'f \<Rightarrow> 'f \<Rightarrow> bool" where
  "grows has f f' = (\<forall>repo d. has f repo d \<noteq> None \<longrightarrow> has f' repo d = has f repo d)"

definition store_grows :: "('f \<Rightarrow> string \<Rightarrow> digest \<Rightarrow> string option) \<Rightarrow> ('f, 'r) op \<Rightarrow> bool" where
  "store_grows has g = (\<forall>f r f'. g f = (r, f') \<longrightarrow> grows has f f')"

text \<open>
  What is relied on of a store by whoever serves from it: an open may fill a cache, an upload may
  end in a blob, and nothing but \<open>Erase\<close> takes a blob away.
\<close>

definition store_law :: "'f store_ops \<Rightarrow> ('f \<Rightarrow> string \<Rightarrow> digest \<Rightarrow> string option) \<Rightarrow> bool" where
  "store_law fl has =
     (add_ok fl has \<and> erase_ok fl has \<and> stat_ok fl has \<and>
      (\<forall>repo d. store_grows has (fl_size fl repo d) \<and> store_grows has (fl_open fl repo d)) \<and>
      (\<forall>repo d from. store_grows has (fl_link fl repo d from)) \<and>
      (\<forall>repo d ttl. store_grows has (fl_presign fl repo d ttl)) \<and>
      (\<forall>repo i. store_grows has (fl_begin fl repo i) \<and> store_grows has (fl_resume fl repo i) \<and>
         store_grows has (fl_stage_stat fl repo i) \<and> store_grows has (fl_abort fl repo i)) \<and>
      (\<forall>repo i n b. store_grows has (fl_append fl repo i n b)) \<and>
      (\<forall>repo i d. store_grows has (fl_commit fl repo i d)))"

definition walk_ok :: "'f store_ops \<Rightarrow> ('f \<Rightarrow> string \<Rightarrow> digest \<Rightarrow> string option) \<Rightarrow> bool" where
  "walk_ok fl has =
     (\<forall>repo. store_reads has (fl_walk fl repo) \<and>
        (\<forall>f ds f'. fl_walk fl repo f = (Inr ds, f') \<longrightarrow> set ds = {d. has f repo d \<noteq> None}))"

lemma grows_refl [simp]: "grows has f f"
  by (simp add: grows_def)

lemma grows_trans: "grows has f f1 \<Longrightarrow> grows has f1 f2 \<Longrightarrow> grows has f f2"
  unfolding grows_def by metis

lemma grows_there: "grows has f f' \<Longrightarrow> has f repo d \<noteq> None \<Longrightarrow> has f' repo d \<noteq> None"
  unfolding grows_def by metis

lemma store_reads_grows: "store_reads has g \<Longrightarrow> store_grows has g"
  by (simp add: store_reads_def store_grows_def grows_def)

lemma add_grows: "add_ok fl has \<Longrightarrow> store_grows has (fl_add fl repo d n b)"
  unfolding add_ok_def store_grows_def grows_def by (metis prod.inject)

section \<open>The index beside the store\<close>

text \<open>\<open>w_ctx\<close> is what the context of the work answers to the \<open>Err\<close> calls to come.\<close>

record ('x, 'f) world =
  w_ix :: 'x
  w_fl :: 'f
  w_ctx :: "error option list"

definition on_ix :: "('x, 'r) op \<Rightarrow> (('x, 'f) world, 'r) op" where
  "on_ix g w = (case g (w_ix w) of (r, x) \<Rightarrow> (r, w\<lparr>w_ix := x\<rparr>))"

definition on_fl :: "('f, 'r) op \<Rightarrow> (('x, 'f) world, 'r) op" where
  "on_fl g w = (case g (w_fl w) of (r, f) \<Rightarrow> (r, w\<lparr>w_fl := f\<rparr>))"

definition ctx_err :: "('x, 'f) world \<Rightarrow> error option \<times> ('x, 'f) world" where
  "ctx_err w = (case w_ctx w of [] \<Rightarrow> (None, w) | e # es \<Rightarrow> (e, w\<lparr>w_ctx := es\<rparr>))"

lemma on_ix_cases:
  assumes "on_ix g w = (r, w')"
  obtains x where "g (w_ix w) = (r, x)" "w' = w\<lparr>w_ix := x\<rparr>"
  using assms by (auto simp: on_ix_def split: prod.splits)

lemma on_fl_cases:
  assumes "on_fl g w = (r, w')"
  obtains f where "g (w_fl w) = (r, f)" "w' = w\<lparr>w_fl := f\<rparr>"
  using assms by (auto simp: on_fl_def split: prod.splits)

lemma ctx_err_same [simp]: "w_ix (snd (ctx_err w)) = w_ix w" "w_fl (snd (ctx_err w)) = w_fl w"
  by (auto simp: ctx_err_def split: list.splits)

section \<open>Work that reports\<close>

text \<open>Work that fills in a report as it goes, beside the index and the store.\<close>

record ('r, 'x, 'f) reporting =
  rb_r :: 'r
  rb_w :: "('x, 'f) world"

definition on_w :: "(('x, 'f) world, 'a) op \<Rightarrow> (('r, 'x, 'f) reporting, 'a) op" where
  "on_w g s = (case g (rb_w s) of (r, w) \<Rightarrow> (r, s\<lparr>rb_w := w\<rparr>))"

lemma on_w_cases:
  assumes "on_w g s = (r, s')"
  obtains w where "g (rb_w s) = (r, w)" "s' = s\<lparr>rb_w := w\<rparr>"
  using assms by (auto simp: on_w_def split: prod.splits)

text \<open>A transaction of such work.\<close>

definition report_tx :: "'x index_ops \<Rightarrow> string \<Rightarrow> (('r, 'x, 'f) reporting, 'a) op \<Rightarrow> (('r, 'x, 'f) reporting, 'a) op" where
  "report_tx ix = Tx ix (\<lambda>s. w_ix (rb_w s)) (\<lambda>v s. s\<lparr>rb_w := (rb_w s)\<lparr>w_ix := v\<rparr>\<rparr>)"

lemma Tx_frame:
  assumes "Tx ix get put repo fn w = (r, w')" and "\<And>x w. h (put x w) = h w" and "\<And>w r w'. fn w = (r, w') \<Longrightarrow> h w' = h w"
  shows "h w' = h w"
proof -
  have fn: "h (snd (fn w)) = h w" for w using assms(3) [of w "fst (fn w)" "snd (fn w)"] by simp
  show ?thesis
    using assms(1) fn [of "put (snd (ix_begin ix repo (get w))) w"]
    by (auto simp: Tx_def assms(2) split: prod.splits sum.splits)
qed

section \<open>A store to try things on\<close>

text \<open>
  A map from repository and digest to bytes, used by the witnesses alone: it shows that the
  hypotheses above can hold.
\<close>

type_synonym sample_blobs = "(string \<times> digest, string) gomap"

definition sample_has :: "sample_blobs \<Rightarrow> string \<Rightarrow> digest \<Rightarrow> string option" where
  "sample_has f repo d = map_of f (repo, d)"

definition sample_store :: "sample_blobs store_ops" where
  "sample_store =
     \<lparr>fl_stat = (\<lambda>repo d f. (if sample_has f repo d = None then Inl (Flob NotExist) else Inr (), f)),
      fl_size = (\<lambda>repo d f. (case sample_has f repo d of
        None \<Rightarrow> Inl (Flob NotExist) | Some b \<Rightarrow> Inr (int (length b)), f)),
      fl_added = (\<lambda>repo d f. (Inl NotSupported, f)),
      fl_open = (\<lambda>repo d f. (case sample_has f repo d of None \<Rightarrow> Inl (Flob NotExist) | Some b \<Rightarrow> Inr b, f)),
      fl_add = (\<lambda>repo d n b f.
        if sample_has f repo d = None then (Inr (), AList.update (repo, d) b f)
        else (Inl (Flob AlreadyExists), f)),
      fl_erase = (\<lambda>repo d f.
        if sample_has f repo d = None then (Inl (Flob NotExist), f)
        else (Inr (), AList.delete (repo, d) f)),
      fl_walker = (\<lambda>repo. True),
      fl_walk = (\<lambda>repo f. (Inr (remdups (map (snd \<circ> fst) (filter (\<lambda>e. fst (fst e) = repo) f))), f)),
      fl_linker = (\<lambda>repo. False),
      fl_link = (\<lambda>repo d from f. (Inl NotSupported, f)),
      fl_presigner = (\<lambda>repo. False),
      fl_presign = (\<lambda>repo d ttl f. (Inl NotSupported, f)),
      fl_stager = (\<lambda>repo. False),
      fl_begin = (\<lambda>repo algo f. (Inl NotSupported, f)),
      fl_resume = (\<lambda>repo i f. (Inl (Flob NotExist), f)),
      fl_stage_stat = (\<lambda>repo i f. (Inl (Flob NotExist), f)),
      fl_append = (\<lambda>repo i n b f. (Inl (Flob NotExist), f)),
      fl_commit = (\<lambda>repo i d f. (Inl (Flob NotExist), f)),
      fl_abort = (\<lambda>repo i f. (Inl (Flob NotExist), f)),
      fl_pruner = False,
      fl_prune = (\<lambda>f. ((0, None), f)),
      fl_namespacer = False,
      fl_namespaces = (\<lambda>f. (Inr [], f))\<rparr>"

lemma sample_erase_ok: "erase_ok sample_store sample_has"
  by (auto simp: erase_ok_def sample_store_def sample_has_def split: if_splits)

lemma sample_add_ok: "add_ok sample_store sample_has"
  by (auto simp: add_ok_def sample_store_def sample_has_def split: if_splits)

lemma sample_stat_ok: "stat_ok sample_store sample_has"
  by (auto simp: stat_ok_def store_reads_def sample_store_def split: if_splits)

lemma sample_store_law: "store_law sample_store sample_has"
  by (simp add: store_law_def sample_erase_ok sample_add_ok sample_stat_ok)
    (auto simp: store_grows_def grows_def sample_store_def)

lemma sample_walk_ok: "walk_ok sample_store sample_has"
proof -
  have "d \<in> set (map (snd \<circ> fst) (filter (\<lambda>e. fst (fst e) = repo) f)) \<longleftrightarrow> map_of f (repo, d) \<noteq> None"
    for f :: sample_blobs and repo d
    by (induction f) auto
  then show ?thesis
    by (auto simp: walk_ok_def store_reads_def sample_store_def sample_has_def simp del: set_map set_filter)
qed

end
