(* ===== verification/Gc_Core.thy ===== *)
theory Gc_Core
  imports Blob_Store Auth_Policy Mem_Laws
begin

text \<open>
  What the collector and the registry delete with (\<open>gc/gc.go\<close>, \<open>gc/orphans.go\<close>): \<open>Release\<close>,
  which erases from the store what the index no longer refers to, and \<open>removeManifest\<close> with the
  rules that make a manifest eligible.  The laws of an index are all that is used of it, so what
  is proved here holds for an index whose every call may fail.
\<close>

section \<open>Release\<close>

fun release_each :: "'x index_ops \<Rightarrow> 'f store_ops \<Rightarrow> string \<Rightarrow> digest list \<Rightarrow> (('x, 'f) world, unit) op" where
  "release_each ix fl repo [] w = (Inr (), w)"
| "release_each ix fl repo (d # ds) w =
     (case on_ix (ix_holds ix repo d) w of
        (Inl e, w1) \<Rightarrow> (Inl e, w1)
      | (Inr h, w1) \<Rightarrow>
          if h then release_each ix fl repo ds w1
          else
            (case on_ix (ix_get ix repo d) w1 of
               (Inr m, w2) \<Rightarrow> release_each ix fl repo ds w2
             | (Inl e, w2) \<Rightarrow>
                 if \<not> errors_is e ErrNotFound then (Inl e, w2)
                 else
                   (case on_fl (fl_erase fl repo d) w2 of
                      (Inl e, w3) \<Rightarrow> (Inl e, w3)
                    | (Inr _, w3) \<Rightarrow> release_each ix fl repo ds w3)))"

definition Release :: "'x index_ops \<Rightarrow> 'f store_ops \<Rightarrow> string \<Rightarrow> digest list \<Rightarrow> (('x, 'f) world, unit) op" where
  "Release ix fl repo ds w =
     (case on_ix (ix_lock ix repo) w of
        (Inl e, w1) \<Rightarrow> (Inl e, w1)
      | (Inr _, w1) \<Rightarrow>
          (case release_each ix fl repo ds w1 of
             (r, w2) \<Rightarrow> (r, w2\<lparr>w_ix := ix_unlock ix repo (w_ix w2)\<rparr>)))"

section \<open>Removing a manifest\<close>

definition old :: "imanifest \<Rightarrow> time \<Rightarrow> bool" where
  "old m cutoff = (im_CreatedAt m < cutoff \<and> (im_PulledAt m = 0 \<or> im_PulledAt m < cutoff))"

definition stillListed :: "'x index_ops \<Rightarrow> string \<Rightarrow> imanifest \<Rightarrow> ('x, bool) op" where
  "stillListed ix repo m x =
     (case ix_snap_get ix repo (im_Subject m) x of
        (Inl e, x1) \<Rightarrow> if errors_is e ErrNotFound then (Inr True, x1) else (Inl e, x1)
      | (Inr s, x1) \<Rightarrow>
          (Inr (\<not> sn_Supported s \<or> Lists s (im_Digest m) \<or> \<not> im_CreatedAt m < sn_CheckedAt s), x1))"

text \<open>What \<open>removeManifest\<close> does in its transaction: what was released, when it deleted.\<close>

definition remove_body :: "'x index_ops \<Rightarrow> string \<Rightarrow> digest \<Rightarrow> (imanifest \<Rightarrow> ('x, bool) op) \<Rightarrow>
    ('x, digest list option) op" where
  "remove_body ix repo d eligible x =
     (case ix_get ix repo d x of
        (Inl e, x1) \<Rightarrow> if errors_is e ErrNotFound then (Inr None, x1) else (Inl e, x1)
      | (Inr m, x1) \<Rightarrow>
          (case eligible m x1 of
             (Inl e, x2) \<Rightarrow> (Inl e, x2)
           | (Inr ok, x2) \<Rightarrow>
               if \<not> ok then (Inr None, x2)
               else
                 (case ix_tag_of ix repo d x2 of
                    (Inl e, x3) \<Rightarrow> (Inl e, x3)
                  | (Inr ts, x3) \<Rightarrow>
                      if ts \<noteq> [] then (Inr None, x3)
                      else
                        (case ix_holds ix repo d x3 of
                           (Inl e, x4) \<Rightarrow> (Inl e, x4)
                         | (Inr h, x4) \<Rightarrow>
                             if h then (Inr None, x4)
                             else
                               (case ix_erase ix repo d x4 of
                                  (Inl e, x5) \<Rightarrow> (Inl e, x5)
                                | (Inr rel, x5) \<Rightarrow> (Inr (Some rel), x5))))))"

definition ix_tx :: "'x index_ops \<Rightarrow> string \<Rightarrow> ('x, 'r) op \<Rightarrow> ('x, 'r) op" where
  "ix_tx ix repo fn = Tx ix (\<lambda>x. x) (\<lambda>x _. x) repo fn"

definition removeManifest :: "'x index_ops \<Rightarrow> 'f store_ops \<Rightarrow> string \<Rightarrow> digest \<Rightarrow>
    (imanifest \<Rightarrow> ('x, bool) op) \<Rightarrow> ('x, 'f) world \<Rightarrow> (bool \<times> error option) \<times> ('x, 'f) world" where
  "removeManifest ix fl repo d eligible w =
     (case on_ix (ix_tx ix repo (remove_body ix repo d eligible)) w of
        (Inl e, w1) \<Rightarrow> ((False, Some e), w1)
      | (Inr None, w1) \<Rightarrow> ((False, None), w1)
      | (Inr (Some rel), w1) \<Rightarrow>
          (case Release ix fl repo (rel @ [d]) w1 of
             (Inl e, w2) \<Rightarrow> ((True, Some e), w2)
           | (Inr _, w2) \<Rightarrow> ((True, None), w2)))"

text \<open>The rule of \<open>deleteManifest\<close>, which both the untagged collection and the snapshots' use.\<close>

definition delete_eligible :: "'x index_ops \<Rightarrow> string \<Rightarrow> time \<Rightarrow> imanifest \<Rightarrow> ('x, bool) op" where
  "delete_eligible ix repo cutoff m x =
     (if \<not> old m cutoff then (Inr False, x)
      else if im_Subject m \<noteq> '''' then
        (case ix_get ix repo (im_Subject m) x of
           (Inr _, x1) \<Rightarrow>
             (case stillListed ix repo m x1 of
                (Inl e, x2) \<Rightarrow> (Inl e, x2)
              | (Inr listed, x2) \<Rightarrow> (Inr (\<not> listed), x2))
         | (Inl e, x1) \<Rightarrow> if \<not> errors_is e ErrNotFound then (Inl e, x1) else (Inr True, x1))
      else (Inr True, x))"

definition deleteManifest :: "'x index_ops \<Rightarrow> 'f store_ops \<Rightarrow> string \<Rightarrow> digest \<Rightarrow> time \<Rightarrow>
    ('x, 'f) world \<Rightarrow> (bool \<times> error option) \<times> ('x, 'f) world" where
  "deleteManifest ix fl repo d cutoff = removeManifest ix fl repo d (delete_eligible ix repo cutoff)"

definition orphan_eligible :: "'x index_ops \<Rightarrow> string \<Rightarrow> digest \<Rightarrow> time \<Rightarrow> imanifest \<Rightarrow> ('x, bool) op" where
  "orphan_eligible ix repo subject cutoff m x =
     (if im_Subject m \<noteq> subject \<or> \<not> old m cutoff then (Inr False, x)
      else
        (case ix_orphan_get ix repo subject x of
           (Inl e, x1) \<Rightarrow> if errors_is e ErrNotFound then (Inr False, x1) else (Inl e, x1)
         | (Inr c, x1) \<Rightarrow>
             if oc_ObservedAt c > cutoff then (Inr False, x1)
             else
               (case ix_get ix repo subject x1 of
                  (Inl e, x2) \<Rightarrow> if errors_is e ErrNotFound then (Inr True, x2) else (Inl e, x2)
                | (Inr _, x2) \<Rightarrow> (Inr False, x2))))"

definition deleteOrphan :: "'x index_ops \<Rightarrow> 'f store_ops \<Rightarrow> string \<Rightarrow> digest \<Rightarrow> digest \<Rightarrow> time \<Rightarrow>
    ('x, 'f) world \<Rightarrow> (bool \<times> error option) \<times> ('x, 'f) world" where
  "deleteOrphan ix fl repo subject d cutoff = removeManifest ix fl repo d (orphan_eligible ix repo subject cutoff)"

section \<open>What is kept\<close>

text \<open>
  The frame of everything that erases: outside one repository nothing changes, and in it nothing
  the index refers to is gone, while what is there was there before.
\<close>

definition keeps :: "('f \<Rightarrow> string \<Rightarrow> digest \<Rightarrow> string option) \<Rightarrow> rows \<Rightarrow> string \<Rightarrow> 'f \<Rightarrow> 'f \<Rightarrow> bool" where
  "keeps has v repo f f' =
     ((\<forall>repo' d. repo' \<noteq> repo \<longrightarrow> has f' repo' d = has f repo' d) \<and>
      (\<forall>d. referenced v repo d \<longrightarrow> has f' repo d = has f repo d) \<and>
      (\<forall>d. has f' repo d = None \<or> has f' repo d = has f repo d))"

lemma keeps_refl [simp]: "keeps has v repo f f"
  by (simp add: keeps_def)

lemma keeps_trans: "keeps has v repo f f1 \<Longrightarrow> keeps has v repo f1 f2 \<Longrightarrow> keeps has v repo f f2"
  unfolding keeps_def by metis

lemma erase_keeps:
  assumes "erase_ok fl has" "fl_erase fl repo d f = (r, f')" "\<not> referenced v repo d"
  shows "keeps has v repo f f' \<and> (is_ok r \<longrightarrow> has f' repo d = None)"
proof -
  have "\<forall>repo' d'. (repo', d') \<noteq> (repo, d) \<longrightarrow> has f' repo' d' = has f repo' d'"
    "has f' repo d = None \<or> has f' repo d = has f repo d" "is_ok r \<longrightarrow> has f' repo d = None"
    using assms(1,2) unfolding erase_ok_def by blast+
  then show ?thesis using assms(3) unfolding keeps_def by (metis prod.inject)
qed

context index_laws
begin

text \<open>The laws, to be applied to what a call answered.\<close>

lemma call:
  assumes "good x"
  shows "ix_get ix repo d x = (r, x') \<Longrightarrow> good x' \<and> intx x' = intx x \<and>
      outer x' = (if intx x then outer x else seen x') \<and> get_spec repo d (seen x) r (seen x')"
    and "ix_holds ix repo d x = (h, x') \<Longrightarrow> good x' \<and> intx x' = intx x \<and>
      outer x' = (if intx x then outer x else seen x') \<and> holds_spec repo d (seen x) h (seen x')"
    and "ix_tag_of ix repo d x = (ts, x') \<Longrightarrow> good x' \<and> intx x' = intx x \<and>
      outer x' = (if intx x then outer x else seen x') \<and> tag_of_spec repo d (seen x) ts (seen x')"
    and "ix_erase ix repo d x = (rel, x') \<Longrightarrow> good x' \<and> intx x' = intx x \<and>
      outer x' = (if intx x then outer x else seen x') \<and> erase_spec repo d (seen x) rel (seen x')"
    and "ix_snap_get ix repo d x = (sn, x') \<Longrightarrow> good x' \<and> intx x' = intx x \<and>
      outer x' = (if intx x then outer x else seen x') \<and> snap_get_spec repo d (seen x) sn (seen x')"
    and "ix_orphan_get ix repo d x = (oc, x') \<Longrightarrow> good x' \<and> intx x' = intx x \<and>
      outer x' = (if intx x then outer x else seen x') \<and> orphan_get_spec repo d (seen x) oc (seen x')"
    and "ix_lock ix repo x = (l, x') \<Longrightarrow> good x' \<and> intx x' = intx x \<and>
      outer x' = (if intx x then outer x else seen x') \<and> seen x' = seen x"
  by (fact opD [OF get_law assms] opD [OF holds_law assms] opD [OF tag_of_law assms] opD [OF erase_law assms]
      opD [OF snap_get_law assms] opD [OF orphan_get_law assms] opD [OF lock_law assms])+

lemma release_each_keeps:
  assumes "erase_ok fl has"
  shows "good (w_ix w) \<Longrightarrow> \<not> intx (w_ix w) \<Longrightarrow> release_each ix fl repo ds w = (r, w') \<Longrightarrow>
    good (w_ix w') \<and> \<not> intx (w_ix w') \<and> seen (w_ix w') = seen (w_ix w) \<and>
    keeps has (seen (w_ix w)) repo (w_fl w) (w_fl w') \<and>
    (is_ok r \<longrightarrow> (\<forall>d \<in> set ds. referenced (seen (w_ix w)) repo d \<or> has (w_fl w') repo d = None))"
proof (induction ds arbitrary: w)
  case (Cons d ds)
  obtain h x1 where h: "ix_holds ix repo d (w_ix w) = (h, x1)" by force
  from call(2) [OF Cons.prems(1) h] Cons.prems(2)
  have x1: "good x1" "\<not> intx x1" "seen x1 = seen (w_ix w)"
    "\<And>b. h = Inr b \<Longrightarrow> b = held (seen (w_ix w)) repo d"
    by (auto simp: holds_spec_def)
  obtain g x2 where g: "ix_get ix repo d x1 = (g, x2)" by force
  from call(1) [OF x1(1) g] x1
  have x2: "good x2" "\<not> intx x2" "seen x2 = seen (w_ix w)"
    "\<And>m. g = Inr m \<Longrightarrow> indexed (seen (w_ix w)) repo d"
    "\<And>e. g = Inl e \<Longrightarrow> errors_is e ErrNotFound \<Longrightarrow> \<not> indexed (seen (w_ix w)) repo d"
    by (auto simp: get_spec_def indexed_def)
  obtain er f3 where er: "fl_erase fl repo d (w_fl w) = (er, f3)" by force
  have f3: "keeps has (seen (w_ix w)) repo (w_fl w) f3" "is_ok er \<longrightarrow> has f3 repo d = None"
    if "\<not> referenced (seen (w_ix w)) repo d"
    using erase_keeps [OF assms er that] by auto
  have step: "on_ix (ix_holds ix repo d) w = (h, w\<lparr>w_ix := x1\<rparr>)"
    "on_ix (ix_get ix repo d) (w\<lparr>w_ix := x1\<rparr>) = (g, w\<lparr>w_ix := x2\<rparr>)"
    "on_fl (fl_erase fl repo d) (w\<lparr>w_ix := x2\<rparr>) = (er, w\<lparr>w_ix := x2, w_fl := f3\<rparr>)"
    by (simp_all add: on_ix_def on_fl_def h g er)
  consider (err1) e where "h = Inl e" | (held) "h = Inr True" | (there) m where "h = Inr False" "g = Inr m"
    | (err2) e where "h = Inr False" "g = Inl e" "\<not> errors_is e ErrNotFound"
    | (err3) e e' where "h = Inr False" "g = Inl e" "errors_is e ErrNotFound" "er = Inl e'"
    | (gone) e u where "h = Inr False" "g = Inl e" "errors_is e ErrNotFound" "er = Inr u"
    by (cases h; cases g; cases er; auto)
  then show ?case
  proof cases
    case err1
    then show ?thesis using Cons.prems(3) x1 by (auto simp: step)
  next
    case held
    then have "release_each ix fl repo ds (w\<lparr>w_ix := x1\<rparr>) = (r, w')" using Cons.prems(3) by (simp add: step)
    from Cons.IH [OF _ _ this] x1 held show ?thesis by (auto simp: referenced_def)
  next
    case there
    then have "release_each ix fl repo ds (w\<lparr>w_ix := x2\<rparr>) = (r, w')" using Cons.prems(3) by (simp add: step)
    from Cons.IH [OF _ _ this] x2 there show ?thesis by (auto simp: referenced_def)
  next
    case err2
    then show ?thesis using Cons.prems(3) x2 by (auto simp: step)
  next
    case err3
    then have nr: "\<not> referenced (seen (w_ix w)) repo d" using x1 x2 by (auto simp: referenced_def)
    from err3 have "w' = w\<lparr>w_ix := x2, w_fl := f3\<rparr>" "r = Inl e'" using Cons.prems(3) by (auto simp: step)
    then show ?thesis using x2 f3 [OF nr] by simp
  next
    case gone
    then have nr: "\<not> referenced (seen (w_ix w)) repo d" using x1 x2 by (auto simp: referenced_def)
    from gone have "release_each ix fl repo ds (w\<lparr>w_ix := x2, w_fl := f3\<rparr>) = (r, w')"
      using Cons.prems(3) by (simp add: step)
    from Cons.IH [OF _ _ this] x2
    have ih: "good (w_ix w')" "\<not> intx (w_ix w')" "seen (w_ix w') = seen (w_ix w)"
      "keeps has (seen (w_ix w)) repo f3 (w_fl w')"
      "is_ok r \<longrightarrow> (\<forall>d \<in> set ds. referenced (seen (w_ix w)) repo d \<or> has (w_fl w') repo d = None)"
      by auto
    moreover have "has (w_fl w') repo d = None"
      using ih(4) f3(2) [OF nr] gone by (metis is_ok_simps(1) keeps_def)
    ultimately show ?thesis using keeps_trans [OF f3(1) [OF nr]] by auto
  qed
qed simp

lemma Release_keeps:
  assumes "erase_ok fl has" "good (w_ix w)" "\<not> intx (w_ix w)" "Release ix fl repo ds w = (r, w')"
  shows "good (w_ix w') \<and> \<not> intx (w_ix w') \<and> seen (w_ix w') = seen (w_ix w) \<and>
    keeps has (seen (w_ix w)) repo (w_fl w) (w_fl w') \<and>
    (is_ok r \<longrightarrow> (\<forall>d \<in> set ds. referenced (seen (w_ix w)) repo d \<or> has (w_fl w') repo d = None))"
proof -
  obtain l x1 where l: "ix_lock ix repo (w_ix w) = (l, x1)" by force
  from call(7) [OF assms(2) l] assms(3) have x1: "good x1" "\<not> intx x1" "seen x1 = seen (w_ix w)" by auto
  obtain r2 w2 where e: "release_each ix fl repo ds (w\<lparr>w_ix := x1\<rparr>) = (r2, w2)" by force
  from release_each_keeps [OF assms(1) _ _ e] x1
  have w2: "good (w_ix w2)" "\<not> intx (w_ix w2)" "seen (w_ix w2) = seen (w_ix w)"
    "keeps has (seen (w_ix w)) repo (w_fl w) (w_fl w2)"
    "is_ok r2 \<longrightarrow> (\<forall>d \<in> set ds. referenced (seen (w_ix w)) repo d \<or> has (w_fl w2) repo d = None)" by auto
  show ?thesis
  proof (cases l)
    case (Inl e)
    with assms(4) l x1 show ?thesis by (auto simp: Release_def on_ix_def)
  next
    case (Inr u)
    with assms(4) l e have "r = r2" "w' = w2\<lparr>w_ix := ix_unlock ix repo (w_ix w2)\<rparr>"
      by (auto simp: Release_def on_ix_def)
    with w2 unlock_law [OF w2(1), of repo] show ?thesis by simp
  qed
qed

end

section \<open>What a removal does\<close>

definition removal_spec :: "string \<Rightarrow> digest \<Rightarrow> (rows \<Rightarrow> imanifest \<Rightarrow> bool) \<Rightarrow>
    rows \<Rightarrow> error + digest list option \<Rightarrow> rows \<Rightarrow> bool" where
  "removal_spec repo d E v r v' =
     (case r of
        Inr (Some rel) \<Rightarrow>
          (\<exists>en. ro_manifests v repo d = Some en \<and> E v (en_m en) \<and> \<not> tagged v repo d \<and> \<not> held v repo d) \<and>
          erase_spec repo d v (Inr rel) v'
      | Inr None \<Rightarrow> v' = v \<and>
          \<not> (\<exists>en. ro_manifests v repo d = Some en \<and> E v (en_m en) \<and> \<not> tagged v repo d \<and> \<not> held v repo d)
      | Inl e \<Rightarrow> v' = v)"

text \<open>
  The rows without one manifest; all else is as it was, but that the manifest may now be on the
  work list of the orphans.
\<close>

definition without :: "rows \<Rightarrow> string \<Rightarrow> digest \<Rightarrow> rows \<Rightarrow> bool" where
  "without v repo d v' =
     (ro_manifests v' = (ro_manifests v)(repo := (ro_manifests v repo)(d := None)) \<and>
      ro_repos v' = ro_repos v \<and> ro_tags v' = ro_tags v \<and> ro_snaps v' = ro_snaps v \<and>
      (\<forall>r x. ro_orphans v' r x \<noteq> None \<longrightarrow> ro_orphans v r x \<noteq> None \<or> r = repo \<and> x = d))"

text \<open>
  What \<open>deleteManifest\<close> demands of a manifest: it is old, and it has no subject, or the subject
  is not in the repository, or a snapshot of the subject's referrers, newer than the manifest,
  is a list that omits it.
\<close>

definition deletable :: "string \<Rightarrow> time \<Rightarrow> rows \<Rightarrow> imanifest \<Rightarrow> bool" where
  "deletable repo cutoff v m =
     (old m cutoff \<and>
      (im_Subject m = '''' \<or> \<not> indexed v repo (im_Subject m) \<or>
       (\<exists>s. ro_snaps v repo (im_Subject m) = Some s \<and> sn_Supported s \<and> \<not> Lists s (im_Digest m) \<and>
          im_CreatedAt m < sn_CheckedAt s)))"

text \<open>And \<open>deleteOrphan\<close>: the subject is not there, and was noted as absent before the cutoff.\<close>

definition orphaned_since :: "string \<Rightarrow> digest \<Rightarrow> time \<Rightarrow> rows \<Rightarrow> imanifest \<Rightarrow> bool" where
  "orphaned_since repo subject cutoff v m =
     (im_Subject m = subject \<and> old m cutoff \<and> \<not> indexed v repo subject \<and>
      (\<exists>c. ro_orphans v repo subject = Some c \<and> oc_ObservedAt c \<le> cutoff))"

lemma no_tags: "tag_of_spec repo d v (Inr ts) v' \<Longrightarrow> (ts = []) = (\<not> tagged v repo d)"
  by (cases ts) (auto simp: tag_of_spec_def tagged_def)

context index_laws
begin

lemma remove_body_ok:
  assumes el: "\<And>m. op_ok good seen outer intx (\<lambda>v r v'. v' = v \<and> (\<forall>b. r = Inr b \<longrightarrow> b = E v m)) (eligible m)"
  shows "op_ok good seen outer intx (removal_spec repo d E) (remove_body ix repo d eligible)"
  unfolding op_ok_def
proof (intro allI impI)
  fix x r x' assume g: "good x" and b: "remove_body ix repo d eligible x = (r, x')"
  obtain a x1 where a: "ix_get ix repo d x = (a, x1)" by force
  note ca = call(1) [OF g a]
  show "good x' \<and> intx x' = intx x \<and> outer x' = (if intx x then outer x else seen x') \<and>
      removal_spec repo d E (seen x) r (seen x')"
  proof (cases a)
    case (Inl e)
    with a b ca show ?thesis by (auto simp: remove_body_def removal_spec_def get_spec_def split: if_splits)
  next
    case (Inr m)
    then obtain en where en: "ro_manifests (seen x) repo d = Some en" "m = en_m en" and x1: "seen x1 = seen x"
      using ca by (auto simp: get_spec_def)
    obtain el' x2 where e2: "eligible m x1 = (el', x2)" by force
    obtain ts x3 where t3: "ix_tag_of ix repo d x2 = (ts, x3)" by force
    obtain h x4 where h4: "ix_holds ix repo d x3 = (h, x4)" by force
    obtain rel x5 where r5: "ix_erase ix repo d x4 = (rel, x5)" by force
    have c2: "good x2 \<and> intx x2 = intx x1 \<and> outer x2 = (if intx x1 then outer x1 else seen x2) \<and>
        seen x2 = seen x \<and> (\<forall>b. el' = Inr b \<longrightarrow> b = E (seen x) m)"
      using opD [OF el _ e2] ca x1 by simp
    have c3: "good x3 \<and> intx x3 = intx x2 \<and> outer x3 = (if intx x2 then outer x2 else seen x3) \<and>
        seen x3 = seen x \<and> (\<forall>t. ts = Inr t \<longrightarrow> (t = []) = (\<not> tagged (seen x) repo d))"
    proof -
      have spec: "tag_of_spec repo d (seen x2) ts (seen x3)" using call(3) [OF _ t3] c2 by blast
      then have "(t = []) = (\<not> tagged (seen x) repo d)" if "ts = Inr t" for t
        using no_tags [of repo d "seen x2" t "seen x3"] that c2 by simp
      moreover have "seen x3 = seen x2" using spec by (simp add: tag_of_spec_def)
      ultimately show ?thesis using call(3) [OF _ t3] c2 by simp
    qed
    have c4: "good x4 \<and> intx x4 = intx x3 \<and> outer x4 = (if intx x3 then outer x3 else seen x4) \<and>
        seen x4 = seen x \<and> (\<forall>b. h = Inr b \<longrightarrow> b = held (seen x) repo d)"
      using call(2) [OF _ h4] c3 by (auto simp: holds_spec_def)
    have c5: "good x5 \<and> intx x5 = intx x4 \<and> outer x5 = (if intx x4 then outer x4 else seen x5) \<and>
        erase_spec repo d (seen x) rel (seen x5)"
      using call(4) [OF _ r5] c4 by auto
    have outs: "outer x1 = (if intx x then outer x else seen x1)" "intx x1 = intx x" using ca by auto
    note eq = b [unfolded remove_body_def a Inr prod.case sum.case e2 t3 h4 r5]
    consider (e2) e where "el' = Inl e" | (no) "el' = Inr False" | (e3) e where "el' = Inr True" "ts = Inl e"
      | (tagged) t where "el' = Inr True" "ts = Inr t" "t \<noteq> []"
      | (e4) e where "el' = Inr True" "ts = Inr []" "h = Inl e" | (held) "el' = Inr True" "ts = Inr []" "h = Inr True"
      | (e5) e where "el' = Inr True" "ts = Inr []" "h = Inr False" "rel = Inl e"
      | (del) l where "el' = Inr True" "ts = Inr []" "h = Inr False" "rel = Inr l"
      by (cases el'; cases ts; cases h; cases rel; auto)
    then show ?thesis
    proof cases
      case e2
      with eq c2 outs x1 show ?thesis by (auto simp: removal_spec_def)
    next
      case no
      with eq c2 outs x1 en show ?thesis by (auto simp: removal_spec_def)
    next
      case e3
      with eq c2 c3 outs x1 show ?thesis by (auto simp: removal_spec_def)
    next
      case tagged
      with eq c2 c3 outs x1 show ?thesis by (auto simp: removal_spec_def)
    next
      case e4
      with eq c2 c3 c4 outs x1 show ?thesis by (auto simp: removal_spec_def)
    next
      case held
      with eq c2 c3 c4 outs x1 show ?thesis by (auto simp: removal_spec_def)
    next
      case e5
      with eq c2 c3 c4 c5 outs x1 show ?thesis by (auto simp: removal_spec_def erase_spec_def)
    next
      case del
      with eq c2 c3 c4 c5 outs x1 en show ?thesis by (auto simp: removal_spec_def)
    qed
  qed
qed

lemma ix_tx_ok:
  assumes fn: "op_ok good seen outer intx Q fn" and g: "good x" "\<not> intx x" and t: "ix_tx ix repo fn x = (r, x')"
  shows "good x' \<and> \<not> intx x' \<and> (seen x' = seen x \<and> \<not> is_ok r \<or> Q (seen x) r (seen x') \<and> is_ok r)"
proof -
  have "good x' \<and> \<not> intx x' \<and> (outer x' = outer x \<and> \<not> is_ok r \<or> Q (seen x) r (outer x') \<and> is_ok r)"
  proof (rule Tx_cases [where get = "\<lambda>x. x" and put = "\<lambda>x _. x" and P = "Q (seen x)", OF g t [unfolded ix_tx_def]])
    fix x1 r1 x2
    assume "good x1" "intx x1" "seen x1 = seen x" "outer x1 = outer x" "fn x1 = (r1, x2)"
    then show "good x2 \<and> intx x2 \<and> outer x2 = outer x \<and> Q (seen x) r1 (seen x2)"
      using opD [OF fn, of x1 r1 x2] by simp
  qed simp
  then show ?thesis using seen_outer g by metis
qed

lemma removeManifest_ok:
  assumes el: "\<And>m. op_ok good seen outer intx (\<lambda>v r v'. v' = v \<and> (\<forall>b. r = Inr b \<longrightarrow> b = E v m)) (eligible m)"
    and st: "erase_ok fl has" and g: "good (w_ix w)" "\<not> intx (w_ix w)"
    and r: "removeManifest ix fl repo d eligible w = ((deleted, err), w')"
  shows "good (w_ix w') \<and> \<not> intx (w_ix w') \<and> keeps has (seen (w_ix w')) repo (w_fl w) (w_fl w') \<and>
    (if deleted then without (seen (w_ix w)) repo d (seen (w_ix w')) \<and>
       \<not> tagged (seen (w_ix w)) repo d \<and> \<not> held (seen (w_ix w)) repo d \<and>
       (\<exists>en. ro_manifests (seen (w_ix w)) repo d = Some en \<and> E (seen (w_ix w)) (en_m en) \<and>
          (err = None \<longrightarrow> (\<forall>b \<in> insert d (set (en_holds en)).
             referenced (seen (w_ix w')) repo b \<or> has (w_fl w') repo b = None)))
     else seen (w_ix w') = seen (w_ix w) \<and> w_fl w' = w_fl w \<and>
       (err = None \<longrightarrow> \<not> (\<exists>en. ro_manifests (seen (w_ix w)) repo d = Some en \<and> E (seen (w_ix w)) (en_m en) \<and>
          \<not> tagged (seen (w_ix w)) repo d \<and> \<not> held (seen (w_ix w)) repo d)))"
proof -
  obtain t x1 where t: "ix_tx ix repo (remove_body ix repo d eligible) (w_ix w) = (t, x1)" by force
  note tx = ix_tx_ok [OF remove_body_ok [OF el] g t]
  show ?thesis
  proof (cases "\<exists>rel. t = Inr (Some rel)")
    case False
    then have "\<not> deleted" "w' = w\<lparr>w_ix := x1\<rparr>" "err = None \<longrightarrow> t = Inr None"
      using r t by (auto simp: removeManifest_def on_ix_def split: sum.splits option.splits)
    moreover have "seen x1 = seen (w_ix w)"
      using tx False by (cases t) (auto simp: removal_spec_def split: option.splits)
    ultimately show ?thesis using tx by (auto simp: removal_spec_def)
  next
    case True
    then obtain rel where rel: "t = Inr (Some rel)" by blast
    with tx obtain en where en: "ro_manifests (seen (w_ix w)) repo d = Some en" "E (seen (w_ix w)) (en_m en)"
      "\<not> tagged (seen (w_ix w)) repo d" "\<not> held (seen (w_ix w)) repo d"
      and wo: "without (seen (w_ix w)) repo d (seen x1)"
      and rels: "set rel = {b \<in> set (en_holds en). \<not> referenced (seen x1) repo b}"
      and x1: "good x1" "\<not> intx x1"
      by (auto simp: removal_spec_def erase_spec_def without_def)
    obtain l w2 where l: "Release ix fl repo (rel @ [d]) (w\<lparr>w_ix := x1\<rparr>) = (l, w2)" by force
    from Release_keeps [OF st _ _ l] x1
    have w2: "good (w_ix w2)" "\<not> intx (w_ix w2)" "seen (w_ix w2) = seen x1"
      "keeps has (seen x1) repo (w_fl w) (w_fl w2)"
      "is_ok l \<longrightarrow> (\<forall>b \<in> set (rel @ [d]). referenced (seen x1) repo b \<or> has (w_fl w2) repo b = None)"
      by auto
    have "deleted" "w' = w2" "err = None \<longrightarrow> is_ok l"
      using r t rel l by (auto simp: removeManifest_def on_ix_def split: sum.splits)
    with w2 en wo rels show ?thesis by auto
  qed
qed

lemma delete_eligible_ok:
  "op_ok good seen outer intx (\<lambda>v r v'. v' = v \<and> (\<forall>b. r = Inr b \<longrightarrow> b = deletable repo cutoff v m))
     (delete_eligible ix repo cutoff m)"
  unfolding op_ok_def
proof (intro allI impI)
  fix x r x' assume g: "good x" and b: "delete_eligible ix repo cutoff m x = (r, x')"
  obtain a x1 where a: "ix_get ix repo (im_Subject m) x = (a, x1)" by force
  obtain s x2 where s: "ix_snap_get ix repo (im_Subject m) x1 = (s, x2)" by force
  note ca = call(1) [OF g a]
  then have cs: "good x2 \<and> intx x2 = intx x1 \<and> outer x2 = (if intx x1 then outer x1 else seen x2) \<and>
      snap_get_spec repo (im_Subject m) (seen x1) s (seen x2)"
    using call(5) [OF _ s] by blast
  show "good x' \<and> intx x' = intx x \<and> outer x' = (if intx x then outer x else seen x') \<and> seen x' = seen x \<and>
      (\<forall>b. r = Inr b \<longrightarrow> b = deletable repo cutoff (seen x) m)"
  proof (cases "old m cutoff \<and> im_Subject m \<noteq> ''''")
    case False
    with b g seen_outer [of x] show ?thesis by (auto simp: delete_eligible_def deletable_def split: if_splits)
  next
    case True
    show ?thesis
    proof (cases a)
      case (Inl e)
      with b a ca True show ?thesis
        by (auto simp: delete_eligible_def deletable_def get_spec_def indexed_def split: if_splits)
    next
      case (Inr m')
      note eq = b [unfolded delete_eligible_def a Inr stillListed_def s prod.case sum.case]
      from Inr ca cs True eq show ?thesis
        by (cases s) (auto simp: deletable_def get_spec_def snap_get_spec_def indexed_def split: if_splits)
    qed
  qed
qed

lemma orphan_eligible_ok:
  "op_ok good seen outer intx (\<lambda>v r v'. v' = v \<and> (\<forall>b. r = Inr b \<longrightarrow> b = orphaned_since repo subject cutoff v m))
     (orphan_eligible ix repo subject cutoff m)"
  unfolding op_ok_def
proof (intro allI impI)
  fix x r x' assume g: "good x" and b: "orphan_eligible ix repo subject cutoff m x = (r, x')"
  obtain c x1 where c: "ix_orphan_get ix repo subject x = (c, x1)" by force
  obtain a x2 where a: "ix_get ix repo subject x1 = (a, x2)" by force
  note cc = call(6) [OF g c]
  then have ca: "good x2 \<and> intx x2 = intx x1 \<and> outer x2 = (if intx x1 then outer x1 else seen x2) \<and>
      get_spec repo subject (seen x1) a (seen x2)"
    using call(1) [OF _ a] by blast
  note eq = b [unfolded orphan_eligible_def c a prod.case sum.case]
  show "good x' \<and> intx x' = intx x \<and> outer x' = (if intx x then outer x else seen x') \<and> seen x' = seen x \<and>
      (\<forall>b. r = Inr b \<longrightarrow> b = orphaned_since repo subject cutoff (seen x) m)"
  proof (cases "im_Subject m \<noteq> subject \<or> \<not> old m cutoff")
    case True
    with b g seen_outer [of x] show ?thesis by (auto simp: orphan_eligible_def orphaned_since_def)
  next
    case False
    from False cc ca eq show ?thesis
      by (cases c; cases a)
        (auto simp: orphaned_since_def orphan_get_spec_def get_spec_def indexed_def split: if_splits)
  qed
qed

end

section \<open>Properties\<close>

text \<open>
  C28: releasing never takes away what the index refers to.  Whatever is asked of \<open>Release\<close>, and
  whichever of its calls fail, the index is as it was, no other repository's blobs change, every
  digest that is a manifest of the repository or held by one is in the store as it was, and
  nothing appears; and when it reports no error, everything asked for that nothing refers to is
  gone.
\<close>

theorem Release_never_takes_referenced:
  assumes "erase_ok fl has" and "mem_good (w_ix w)" and "\<not> mem_intx (w_ix w)"
    and "Release mem_ops fl repo ds w = (r, w')"
  shows "mem_seen (w_ix w') = mem_seen (w_ix w) \<and>
    keeps has (mem_seen (w_ix w)) repo (w_fl w) (w_fl w') \<and>
    (r = Inr () \<longrightarrow> {d \<in> set ds. \<not> referenced (mem_seen (w_ix w)) repo d} \<subseteq> {d. has (w_fl w') repo d = None})"
  using mem.Release_keeps [OF assms] by auto

definition sample_world :: "(view, sample_blobs) world" where
  "sample_world = \<lparr>w_ix = sample_index,
     w_fl = map (\<lambda>d. ((''acme/app'', d), ''x''))
       [''sha256:m1'', ''sha256:m2'', ''sha256:b0'', ''sha256:b1'', ''sha256:b2'', ''sha256:zz''], w_ctx = []\<rparr>"

lemma Release_never_takes_referenced_witness:
  "\<exists>r w'. Release mem_ops sample_store ''acme/app'' [''sha256:b0'', ''sha256:zz''] sample_world = (r, w') \<and>
    mem_seen (w_ix w') = mem_seen (w_ix sample_world) \<and>
    keeps sample_has (mem_seen (w_ix sample_world)) ''acme/app'' (w_fl sample_world) (w_fl w') \<and>
    (r = Inr () \<longrightarrow> {d \<in> set [''sha256:b0'', ''sha256:zz'']. \<not> referenced (mem_seen (w_ix sample_world)) ''acme/app'' d} \<subseteq>
       {d. sample_has (w_fl w') ''acme/app'' d = None})"
proof -
  obtain r w' where rel: "Release mem_ops sample_store ''acme/app'' [''sha256:b0'', ''sha256:zz''] sample_world = (r, w')"
    by force
  have "mem_good (w_ix sample_world)" "\<not> mem_intx (w_ix sample_world)" by (simp_all add: sample_world_def)
  from Release_never_takes_referenced [OF sample_erase_ok this rel] rel show ?thesis by blast
qed

text \<open>
  The untagged collection deletes a manifest only on what it sees under the lock.  Whatever
  was true when it was listed, a manifest goes only if, in the transaction that deletes it, it is
  old, no tag points at it, no manifest holds it, and it refers to no manifest that is there --
  unless a snapshot of that manifest's referrers, newer than it, is a list that omits it.
  Nothing else of the index changes; of the blobs, only those nothing refers to any more go; and
  when it reports that it did not delete and no error, there was a reason.
\<close>

theorem deleteManifest_decides_under_the_lock:
  assumes "erase_ok fl has" and "mem_good (w_ix w)" and "\<not> mem_intx (w_ix w)"
    and "deleteManifest mem_ops fl repo d cutoff w = ((deleted, err), w')"
  defines "v \<equiv> mem_seen (w_ix w)" and "v' \<equiv> mem_seen (w_ix w')"
  defines "may \<equiv> (\<exists>en. ro_manifests v repo d = Some en \<and> deletable repo cutoff v (en_m en)) \<and>
      \<not> tagged v repo d \<and> \<not> held v repo d"
  shows "keeps has v' repo (w_fl w) (w_fl w') \<and>
    (if deleted then may \<and> without v repo d v'
     else v' = v \<and> w_fl w' = w_fl w \<and> (err = None \<longrightarrow> \<not> may))"
  using mem.removeManifest_ok [OF mem.delete_eligible_ok assms(1-3) assms(4) [unfolded deleteManifest_def]]
  unfolding v_def v'_def may_def by (cases deleted) auto

lemma deleteManifest_decides_under_the_lock_witness:
  "\<exists>deleted err w'. deleteManifest mem_ops sample_store ''acme/app'' ''sha256:m2'' 50 sample_world = ((deleted, err), w') \<and>
    keeps sample_has (mem_seen (w_ix w')) ''acme/app'' (w_fl sample_world) (w_fl w')"
proof -
  obtain del err w' where d: "deleteManifest mem_ops sample_store ''acme/app'' ''sha256:m2'' 50 sample_world = ((del, err), w')"
    by (metis prod.exhaust)
  have "mem_good (w_ix sample_world)" "\<not> mem_intx (w_ix sample_world)" by (simp_all add: sample_world_def)
  from deleteManifest_decides_under_the_lock [OF sample_erase_ok this d] d show ?thesis by blast
qed

text \<open>
  A referrer goes as an orphan only while its subject is missing.  \<open>deleteOrphan\<close> deletes a
  manifest only if, under the lock, it is a referrer of that subject, is old, the subject is not
  in the repository and was last noted as absent before the grace period, and no tag points at
  the manifest and no manifest holds it.
\<close>

theorem deleteOrphan_decides_under_the_lock:
  assumes "erase_ok fl has" and "mem_good (w_ix w)" and "\<not> mem_intx (w_ix w)"
    and "deleteOrphan mem_ops fl repo subject d cutoff w = ((deleted, err), w')"
  defines "v \<equiv> mem_seen (w_ix w)" and "v' \<equiv> mem_seen (w_ix w')"
  defines "may \<equiv> (\<exists>en. ro_manifests v repo d = Some en \<and> orphaned_since repo subject cutoff v (en_m en)) \<and>
      \<not> tagged v repo d \<and> \<not> held v repo d"
  shows "keeps has v' repo (w_fl w) (w_fl w') \<and>
    (if deleted then may \<and> without v repo d v'
     else v' = v \<and> w_fl w' = w_fl w \<and> (err = None \<longrightarrow> \<not> may))"
  using mem.removeManifest_ok [OF mem.orphan_eligible_ok assms(1-3) assms(4) [unfolded deleteOrphan_def]]
  unfolding v_def v'_def may_def by (cases deleted) auto

lemma deleteOrphan_decides_under_the_lock_witness:
  "\<exists>deleted err w'. deleteOrphan mem_ops sample_store ''acme/app'' ''sha256:zz'' ''sha256:m2'' 50 sample_world = ((deleted, err), w') \<and>
    keeps sample_has (mem_seen (w_ix w')) ''acme/app'' (w_fl sample_world) (w_fl w')"
proof -
  obtain del err w' where d: "deleteOrphan mem_ops sample_store ''acme/app'' ''sha256:zz'' ''sha256:m2'' 50 sample_world = ((del, err), w')"
    by (metis prod.exhaust)
  have "mem_good (w_ix sample_world)" "\<not> mem_intx (w_ix sample_world)" by (simp_all add: sample_world_def)
  from deleteOrphan_decides_under_the_lock [OF sample_erase_ok this d] d show ?thesis by blast
qed

end
