(* ===== verification/Gc_Collect.thy ===== *)
theory Gc_Collect
  imports Gc_Core
begin

text \<open>
  The collection that runs on its own (\<open>gc/gc.go\<close>, \<open>gc/orphans.go\<close>): tags past a retention rule,
  what nobody uses of a pull-through cache, manifests nothing needs, referrers an upstream no
  longer lists, referrers whose subject has gone, and \<open>Run\<close> over every repository.

  What a step reports is a count and the errors it collected; a loop over the pages of an index
  is a partial function.
\<close>

record gc_config =
  c_Policy :: "policy option"
  c_Untagged :: duration
  c_Orphaned :: duration
  c_RescanOrphans :: bool
  c_Delay :: duration
  c_Cache :: "string \<Rightarrow> duration"
  c_Now :: time

section \<open>Tags\<close>

text \<open>The transaction that erases a tag unless it moved since it was counted.\<close>

definition erase_same_tag :: "'x index_ops \<Rightarrow> string \<Rightarrow> tag \<Rightarrow> ('x, bool) op" where
  "erase_same_tag ix repo t x =
     (case ix_tag_get ix repo (tg_Name t) x of
        (Inl e, x1) \<Rightarrow> if errors_is e ErrNotFound then (Inr False, x1) else (Inl e, x1)
      | (Inr cur, x1) \<Rightarrow>
          if tg_Digest cur \<noteq> tg_Digest t \<or> tg_MovedAt cur \<noteq> tg_MovedAt t then (Inr False, x1)
          else
            (case ix_tag_erase ix repo (tg_Name t) x1 of
               (Inl e, x2) \<Rightarrow> (Inl e, x2)
             | (Inr _, x2) \<Rightarrow> (Inr True, x2)))"

fun erase_tags :: "'x index_ops \<Rightarrow> string \<Rightarrow> tag list \<Rightarrow> nat \<Rightarrow> error list \<Rightarrow> 'x \<Rightarrow> (nat \<times> error list) \<times> 'x" where
  "erase_tags ix repo [] n errs x = ((n, errs), x)"
| "erase_tags ix repo (t # ts) n errs x =
     (case ix_tx ix repo (erase_same_tag ix repo t) x of
        (Inl e, x1) \<Rightarrow> erase_tags ix repo ts n (errs @ [e]) x1
      | (Inr erased, x1) \<Rightarrow> erase_tags ix repo ts (if erased then Suc n else n) errs x1)"

text \<open>The tags of a rule, the one that moved last first; names break ties.\<close>

definition by_moved :: "tag list \<Rightarrow> tag list" where
  "by_moved ts = sort_key (\<lambda>t. (- tg_MovedAt t, tg_Name t)) ts"

definition rule_tags :: "tag_rule \<Rightarrow> tag list \<Rightarrow> tag list" where
  "rule_tags rule tags = by_moved (filter (\<lambda>t. MatchesTag rule (tg_Name t)) tags)"

definition matched_names :: "tag_rule list \<Rightarrow> tag list \<Rightarrow> string list" where
  "matched_names rs tags = concat (map (\<lambda>rule. map tg_Name (rule_tags rule tags)) rs)"

definition kept_names :: "tag_rule list \<Rightarrow> tag list \<Rightarrow> string list" where
  "kept_names rs tags = concat (map (\<lambda>rule. map tg_Name (take (nat (tr_Keep rule)) (rule_tags rule tags))) rs)"

definition retention_doomed :: "policy option \<Rightarrow> string \<Rightarrow> tag list \<Rightarrow> tag list" where
  "retention_doomed p repo tags =
     (let rs = Retention p repo in
      filter (\<lambda>t. \<not> (tg_Name t \<notin> set (matched_names rs tags) \<or> tg_Name t \<in> set (kept_names rs tags)) \<and>
        CheckTag p [ActionAdmin] repo (tg_Name t) TagDelete = None) tags)"

definition retention :: "'x index_ops \<Rightarrow> policy option \<Rightarrow> string \<Rightarrow> 'x \<Rightarrow> (nat \<times> error option) \<times> 'x" where
  "retention ix p repo x =
     (if Retention p repo = [] then ((0, None), x)
      else
        (case ix_tag_all ix repo x of
           (Inl e, x1) \<Rightarrow> ((0, Some e), x1)
         | (Inr tags, x1) \<Rightarrow>
             (case erase_tags ix repo (retention_doomed p repo tags) 0 [] x1 of
                ((n, errs), x2) \<Rightarrow> ((n, join_errs errs), x2))))"

definition latest :: "time list \<Rightarrow> time" where
  "latest ts = foldl (\<lambda>out t. if t > out then t else out) 0 ts"

section \<open>Manifests nothing needs\<close>

fun delete_each :: "'x index_ops \<Rightarrow> 'f store_ops \<Rightarrow> string \<Rightarrow> time \<Rightarrow> digest list \<Rightarrow> nat \<Rightarrow> error list \<Rightarrow>
    ('x, 'f) world \<Rightarrow> (nat \<times> error list) \<times> ('x, 'f) world" where
  "delete_each ix fl repo cutoff [] n errs w = ((n, errs), w)"
| "delete_each ix fl repo cutoff (d # ds) n errs w =
     (case deleteManifest ix fl repo d cutoff w of
        ((ok, err), w1) \<Rightarrow>
          delete_each ix fl repo cutoff ds (if ok then Suc n else n)
            (case err of None \<Rightarrow> errs | Some e \<Rightarrow> errs @ [e]) w1)"

definition untaggedBefore :: "'x index_ops \<Rightarrow> 'f store_ops \<Rightarrow> string \<Rightarrow> time \<Rightarrow> ('x, 'f) world \<Rightarrow>
    ((nat \<times> error option) \<times> ('x, 'f) world) option" where
  "untaggedBefore ix fl repo cutoff w =
     (case read_pages 500 (\<lambda>p. ix_unneeded ix repo cutoff p) im_Digest '''' [] (w_ix w) of
        None \<Rightarrow> None
      | Some (Inl e, x1) \<Rightarrow> Some ((0, Some e), w\<lparr>w_ix := x1\<rparr>)
      | Some (Inr candidates, x1) \<Rightarrow>
          (case delete_each ix fl repo cutoff (map im_Digest candidates) 0 [] (w\<lparr>w_ix := x1\<rparr>) of
             ((n, errs), w2) \<Rightarrow> Some ((n, join_errs errs), w2)))"

text \<open>The referrers of one snapshot that are due: not listed, older than it, and old.\<close>

definition due :: "snapshot \<Rightarrow> time \<Rightarrow> imanifest \<Rightarrow> bool" where
  "due s cutoff m = (\<not> (Lists s (im_Digest m) \<or> \<not> im_CreatedAt m < sn_CheckedAt s \<or> \<not> old m cutoff))"

definition forget_snapshot :: "'x index_ops \<Rightarrow> string \<Rightarrow> digest \<Rightarrow> ('x, unit) op" where
  "forget_snapshot ix repo subject x =
     (case ix_snap_erase ix repo subject x of
        (Inl e, x1) \<Rightarrow> if errors_is e ErrNotFound then (Inr (), x1) else (Inl e, x1)
      | (Inr _, x1) \<Rightarrow> (Inr (), x1))"

fun unlisted_each :: "'x index_ops \<Rightarrow> 'f store_ops \<Rightarrow> string \<Rightarrow> time \<Rightarrow> snapshot list \<Rightarrow> nat \<Rightarrow> error list \<Rightarrow>
    ('x, 'f) world \<Rightarrow> (nat \<times> error list) \<times> ('x, 'f) world" where
  "unlisted_each ix fl repo cutoff [] n errs w = ((n, errs), w)"
| "unlisted_each ix fl repo cutoff (s # ss) n errs w =
     (case on_ix (ix_get ix repo (sn_Subject s)) w of
        (Inl e, w1) \<Rightarrow>
          if errors_is e ErrNotFound then
            (if sn_CheckedAt s < cutoff then
               (case on_ix (ix_tx ix repo (forget_snapshot ix repo (sn_Subject s))) w1 of
                  (Inl e', w2) \<Rightarrow> unlisted_each ix fl repo cutoff ss n (errs @ [e']) w2
                | (Inr _, w2) \<Rightarrow> unlisted_each ix fl repo cutoff ss n errs w2)
             else unlisted_each ix fl repo cutoff ss n errs w1)
          else unlisted_each ix fl repo cutoff ss n (errs @ [e]) w1
      | (Inr _, w1) \<Rightarrow>
          if \<not> sn_Supported s then unlisted_each ix fl repo cutoff ss n errs w1
          else
            (case on_ix (ix_referrers ix repo (sn_Subject s) '''') w1 of
               (Inl e, w2) \<Rightarrow> unlisted_each ix fl repo cutoff ss n (errs @ [e]) w2
             | (Inr ms, w2) \<Rightarrow>
                 (case delete_each ix fl repo cutoff (map im_Digest (filter (due s cutoff) ms)) n errs w2 of
                    ((n', errs'), w3) \<Rightarrow> unlisted_each ix fl repo cutoff ss n' errs' w3)))"

definition unlisted :: "'x index_ops \<Rightarrow> 'f store_ops \<Rightarrow> string \<Rightarrow> time \<Rightarrow> ('x, 'f) world \<Rightarrow>
    ((nat \<times> error option) \<times> ('x, 'f) world) option" where
  "unlisted ix fl repo cutoff w =
     (case read_pages 500 (\<lambda>p. ix_snap_list ix repo p) sn_Subject '''' [] (w_ix w) of
        None \<Rightarrow> None
      | Some (Inl e, x1) \<Rightarrow> Some ((0, Some e), w\<lparr>w_ix := x1\<rparr>)
      | Some (Inr snaps, x1) \<Rightarrow>
          (case unlisted_each ix fl repo cutoff snaps 0 [] (w\<lparr>w_ix := x1\<rparr>) of
             ((n, errs), w2) \<Rightarrow> Some ((n, join_errs errs), w2)))"

definition opt_list :: "'a option \<Rightarrow> 'a list" where
  "opt_list o' = (case o' of None \<Rightarrow> [] | Some a \<Rightarrow> [a])"

definition untagged :: "'x index_ops \<Rightarrow> 'f store_ops \<Rightarrow> gc_config \<Rightarrow> string \<Rightarrow> ('x, 'f) world \<Rightarrow>
    ((nat \<times> error option) \<times> ('x, 'f) world) option" where
  "untagged ix fl c repo w =
     (let cutoff = c_Now c - c_Untagged c in
      case untaggedBefore ix fl repo cutoff w of
        None \<Rightarrow> None
      | Some ((n, err), w1) \<Rightarrow>
          (case unlisted ix fl repo cutoff w1 of
             None \<Rightarrow> None
           | Some ((u, uerr), w2) \<Rightarrow> Some ((n + u, join_errs (opt_list err @ opt_list uerr)), w2)))"

text \<open>A pull-through cache: its tags and its manifests go by when they were last used.\<close>

definition evict :: "'x index_ops \<Rightarrow> 'f store_ops \<Rightarrow> gc_config \<Rightarrow> string \<Rightarrow> duration \<Rightarrow> ('x, 'f) world \<Rightarrow>
    ((nat \<times> nat \<times> error option) \<times> ('x, 'f) world) option" where
  "evict ix fl c repo keep w =
     (let cutoff = c_Now c - keep in
      case ix_tag_all ix repo (w_ix w) of
        (Inl e, x1) \<Rightarrow> Some ((0, 0, Some e), w\<lparr>w_ix := x1\<rparr>)
      | (Inr tags, x1) \<Rightarrow>
          (case erase_tags ix repo (filter (\<lambda>t. \<not> latest [tg_PulledAt t, tg_MovedAt t] > cutoff) tags) 0 [] x1 of
             ((n, errs), x2) \<Rightarrow>
               (case untaggedBefore ix fl repo cutoff (w\<lparr>w_ix := x2\<rparr>) of
                  None \<Rightarrow> None
                | Some ((m, merr), w3) \<Rightarrow>
                    (case unlisted ix fl repo cutoff w3 of
                       None \<Rightarrow> None
                     | Some ((u, uerr), w4) \<Rightarrow>
                         Some ((n, m + u, join_errs (errs @ opt_list merr @ opt_list uerr)), w4)))))"

section \<open>Referrers whose subject has gone\<close>

text \<open>The candidate looked at again: its referrers, when it is due, and forgotten when it has none.\<close>

definition orphan_body :: "'x index_ops \<Rightarrow> string \<Rightarrow> digest \<Rightarrow> time \<Rightarrow> ('x, imanifest list) op" where
  "orphan_body ix repo subject cutoff x =
     (case ix_orphan_get ix repo subject x of
        (Inl e, x1) \<Rightarrow> if errors_is e ErrNotFound then (Inr [], x1) else (Inl e, x1)
      | (Inr c, x1) \<Rightarrow>
          (case ix_get ix repo subject x1 of
             (Inr _, x2) \<Rightarrow>
               (case ix_orphan_erase ix repo subject x2 of
                  (Inl e, x3) \<Rightarrow> (Inl e, x3) | (Inr _, x3) \<Rightarrow> (Inr [], x3))
           | (Inl e, x2) \<Rightarrow>
               if \<not> errors_is e ErrNotFound then (Inl e, x2)
               else if oc_ObservedAt c > cutoff then (Inr [], x2)
               else
                 (case ix_referrers ix repo subject '''' x2 of
                    (Inl e', x3) \<Rightarrow> (Inl e', x3)
                  | (Inr refs, x3) \<Rightarrow>
                      if refs = [] then
                        (case ix_orphan_erase ix repo subject x3 of
                           (Inl e', x4) \<Rightarrow> (Inl e', x4) | (Inr _, x4) \<Rightarrow> (Inr [], x4))
                      else (Inr refs, x3))))"

definition orphanReferrers :: "'x index_ops \<Rightarrow> string \<Rightarrow> digest \<Rightarrow> time \<Rightarrow> ('x, imanifest list) op" where
  "orphanReferrers ix repo subject cutoff = ix_tx ix repo (orphan_body ix repo subject cutoff)"

fun delete_orphans :: "'x index_ops \<Rightarrow> 'f store_ops \<Rightarrow> string \<Rightarrow> digest \<Rightarrow> time \<Rightarrow> digest list \<Rightarrow> nat \<Rightarrow>
    error list \<Rightarrow> ('x, 'f) world \<Rightarrow> (nat \<times> error list) \<times> ('x, 'f) world" where
  "delete_orphans ix fl repo subject cutoff [] n errs w = ((n, errs), w)"
| "delete_orphans ix fl repo subject cutoff (d # ds) n errs w =
     (case deleteOrphan ix fl repo subject d cutoff w of
        ((removed, err), w1) \<Rightarrow>
          delete_orphans ix fl repo subject cutoff ds (if removed then Suc n else n) (errs @ opt_list err) w1)"

text \<open>One page of candidates; \<open>Inl\<close> is the work's context having ended.\<close>

fun orphan_page :: "'x index_ops \<Rightarrow> 'f store_ops \<Rightarrow> string \<Rightarrow> time \<Rightarrow> digest list \<Rightarrow> nat \<Rightarrow> error list \<Rightarrow>
    ('x, 'f) world \<Rightarrow> ((nat \<times> error list) + (nat \<times> error list)) \<times> ('x, 'f) world" where
  "orphan_page ix fl repo cutoff [] n errs w = (Inr (n, errs), w)"
| "orphan_page ix fl repo cutoff (s # ss) n errs w =
     (case ctx_err w of
        (Some e, w0) \<Rightarrow> (Inl (n, errs @ [e]), w0)
      | (None, w0) \<Rightarrow>
          (case on_ix (orphanReferrers ix repo s cutoff) w0 of
             (Inl e, w1) \<Rightarrow> orphan_page ix fl repo cutoff ss n (errs @ [e]) w1
           | (Inr refs, w1) \<Rightarrow>
               (case delete_orphans ix fl repo s cutoff (map im_Digest refs) n errs w1 of
                  ((n', errs'), w2) \<Rightarrow>
                    if refs = [] then orphan_page ix fl repo cutoff ss n' errs' w2
                    else
                      (case on_ix (orphanReferrers ix repo s cutoff) w2 of
                         (Inl e, w3) \<Rightarrow> orphan_page ix fl repo cutoff ss n' (errs' @ [e]) w3
                       | (Inr _, w3) \<Rightarrow> orphan_page ix fl repo cutoff ss n' errs' w3))))"

partial_function (option) orphan_pages_loop ::
  "'x index_ops \<Rightarrow> 'f store_ops \<Rightarrow> string \<Rightarrow> time \<Rightarrow> string \<Rightarrow> nat \<Rightarrow> error list \<Rightarrow> ('x, 'f) world \<Rightarrow>
   ((nat \<times> error option) \<times> ('x, 'f) world) option" where
  "orphan_pages_loop ix fl repo cutoff after n errs w =
     (case ix_orphan_list ix repo \<lparr>pg_Last = after, pg_N = 500\<rparr> (w_ix w) of
        (Inl e, x1) \<Rightarrow> Some ((n, join_errs (errs @ [e])), w\<lparr>w_ix := x1\<rparr>)
      | (Inr cs, x1) \<Rightarrow>
          (case orphan_page ix fl repo cutoff (map oc_Subject cs) n errs (w\<lparr>w_ix := x1\<rparr>) of
             (Inl (n', errs'), w2) \<Rightarrow> Some ((n', join_errs errs'), w2)
           | (Inr (n', errs'), w2) \<Rightarrow>
               (if length cs < 500 then Some ((n', join_errs errs'), w2)
                else orphan_pages_loop ix fl repo cutoff (oc_Subject (last cs)) n' errs' w2)))"

partial_function (option) seed_all :: "'x index_ops \<Rightarrow> string \<Rightarrow> ('x, 'f) world \<Rightarrow>
    (error option \<times> ('x, 'f) world) option" where
  "seed_all ix repo w =
     (case ctx_err w of
        (Some e, w0) \<Rightarrow> Some (Some e, w0)
      | (None, w0) \<Rightarrow>
          (case ix_seed ix repo (w_ix w0) of
             (Inl e, x1) \<Rightarrow> Some (Some e, w0\<lparr>w_ix := x1\<rparr>)
           | (Inr finished, x1) \<Rightarrow>
               (if finished then Some (None, w0\<lparr>w_ix := x1\<rparr>) else seed_all ix repo (w0\<lparr>w_ix := x1\<rparr>))))"

definition orphaned :: "'x index_ops \<Rightarrow> 'f store_ops \<Rightarrow> gc_config \<Rightarrow> string \<Rightarrow> ('x, 'f) world \<Rightarrow>
    ((nat \<times> error option) \<times> ('x, 'f) world) option" where
  "orphaned ix fl c repo w =
     (case (if c_RescanOrphans c then on_ix (ix_reset_scan ix repo) w else (Inr (), w)) of
        (Inl e, w1) \<Rightarrow> Some ((0, Some e), w1)
      | (Inr _, w1) \<Rightarrow>
          (case seed_all ix repo w1 of
             None \<Rightarrow> None
           | Some (Some e, w2) \<Rightarrow> Some ((0, Some e), w2)
           | Some (None, w2) \<Rightarrow> orphan_pages_loop ix fl repo (c_Now c - c_Orphaned c) '''' 0 [] w2))"

section \<open>A run\<close>

record report =
  rr_Stages :: nat
  rr_Tags :: nat
  rr_Manifests :: nat

definition no_report :: report where
  "no_report = \<lparr>rr_Stages = 0, rr_Tags = 0, rr_Manifests = 0\<rparr>"

text \<open>What \<open>Run\<close> does to one repository.\<close>

definition run_repo :: "'x index_ops \<Rightarrow> 'f store_ops \<Rightarrow> gc_config \<Rightarrow> string \<Rightarrow> report \<Rightarrow> error list \<Rightarrow>
    ('x, 'f) world \<Rightarrow> ((report \<times> error list) \<times> ('x, 'f) world) option" where
  "run_repo ix fl c name r errs w =
     (case retention ix (c_Policy c) name (w_ix w) of
        ((n, err), x1) \<Rightarrow>
          (let r1 = r\<lparr>rr_Tags := rr_Tags r + n\<rparr>; errs1 = errs @ opt_list err; w1 = w\<lparr>w_ix := x1\<rparr>;
               keep = c_Cache c name
           in if keep > 0 then
                (case evict ix fl c name keep w1 of
                   None \<Rightarrow> None
                 | Some ((t, m, err'), w2) \<Rightarrow>
                     Some ((r1\<lparr>rr_Tags := rr_Tags r1 + t, rr_Manifests := rr_Manifests r1 + m\<rparr>,
                            errs1 @ opt_list err'), w2))
              else
                (case (if c_Orphaned c > 0 then orphaned ix fl c name w1 else Some ((0, None), w1)) of
                   None \<Rightarrow> None
                 | Some ((m, err'), w2) \<Rightarrow>
                     (case (if c_Untagged c > 0 then untagged ix fl c name w2 else Some ((0, None), w2)) of
                        None \<Rightarrow> None
                      | Some ((u, uerr), w3) \<Rightarrow>
                          Some ((r1\<lparr>rr_Manifests := rr_Manifests r1 + m + u\<rparr>,
                                 errs1 @ opt_list err' @ opt_list uerr), w3)))))"

text \<open>One page of names; \<open>Inl\<close> is the work's context having ended.\<close>

fun run_page :: "'x index_ops \<Rightarrow> 'f store_ops \<Rightarrow> gc_config \<Rightarrow> string list \<Rightarrow> report \<Rightarrow> error list \<Rightarrow>
    ('x, 'f) world \<Rightarrow> (((report \<times> error list) + (report \<times> error list)) \<times> ('x, 'f) world) option" where
  "run_page ix fl c [] r errs w = Some (Inr (r, errs), w)"
| "run_page ix fl c (name # names) r errs w =
     (case ctx_err w of
        (Some e, w0) \<Rightarrow> Some (Inl (r, errs @ [e]), w0)
      | (None, w0) \<Rightarrow>
          (case run_repo ix fl c name r errs w0 of
             None \<Rightarrow> None
           | Some ((r', errs'), w1) \<Rightarrow> run_page ix fl c names r' errs' w1))"

partial_function (option) run_loop ::
  "'x index_ops \<Rightarrow> 'f store_ops \<Rightarrow> gc_config \<Rightarrow> string \<Rightarrow> report \<Rightarrow> error list \<Rightarrow> ('x, 'f) world \<Rightarrow>
   ((report \<times> error option) \<times> ('x, 'f) world) option" where
  "run_loop ix fl c after r errs w =
     (case ix_repo_list ix \<lparr>pg_Last = after, pg_N = 100\<rparr> (w_ix w) of
        (Inl e, x1) \<Rightarrow> Some ((r, join_errs (errs @ [e])), w\<lparr>w_ix := x1\<rparr>)
      | (Inr names, x1) \<Rightarrow>
          (case run_page ix fl c names r errs (w\<lparr>w_ix := x1\<rparr>) of
             None \<Rightarrow> None
           | Some (Inl (r', errs'), w2) \<Rightarrow> Some ((r', join_errs errs'), w2)
           | Some (Inr (r', errs'), w2) \<Rightarrow>
               (if length names < 100 then Some ((r', join_errs errs'), w2)
                else run_loop ix fl c (last names) r' errs' w2)))"

definition gc_Run :: "'x index_ops \<Rightarrow> 'f store_ops \<Rightarrow> gc_config \<Rightarrow> ('x, 'f) world \<Rightarrow>
    ((report \<times> error option) \<times> ('x, 'f) world) option" where
  "gc_Run ix fl c w =
     (if fl_pruner fl then
        (case fl_prune fl (w_fl w) of
           ((n, err), f1) \<Rightarrow>
             run_loop ix fl c '''' (no_report\<lparr>rr_Stages := n\<rparr>) (opt_list err) (w\<lparr>w_fl := f1\<rparr>))
      else run_loop ix fl c '''' no_report [] w)"

section \<open>What a collection changes\<close>

text \<open>The manifests \<open>D\<close> of one repository have gone, and no repository row and no tag has changed.\<close>

definition shrunk :: "string \<Rightarrow> digest set \<Rightarrow> rows \<Rightarrow> rows \<Rightarrow> bool" where
  "shrunk repo D v v' =
     (ro_repos v' = ro_repos v \<and> ro_tags v' = ro_tags v \<and>
      (\<forall>r. r \<noteq> repo \<longrightarrow> ro_manifests v' r = ro_manifests v r) \<and>
      ro_manifests v' repo = (\<lambda>d. if d \<in> D then None else ro_manifests v repo d) \<and>
      D \<subseteq> {d. indexed v repo d})"

lemma shrunk_refl [simp]: "shrunk repo {} v v"
  by (simp add: shrunk_def)

lemma shrunk_trans:
  "shrunk repo D v v1 \<Longrightarrow> shrunk repo E v1 v2 \<Longrightarrow> shrunk repo (D \<union> E) v v2 \<and> D \<inter> E = {}"
  by (fastforce simp: shrunk_def indexed_def fun_eq_iff split: if_splits)

lemma without_shrunk: "without v repo d v' \<Longrightarrow> indexed v repo d \<Longrightarrow> shrunk repo {d} v v'"
  by (auto simp: without_def shrunk_def fun_eq_iff)

lemma shrunk_referenced: "shrunk repo D v v' \<Longrightarrow> referenced v' repo d \<Longrightarrow> referenced v repo d"
  by (auto simp: shrunk_def referenced_def indexed_def held_def split: if_splits)

lemma shrunk_held: "shrunk repo D v v' \<Longrightarrow> held v' repo d \<Longrightarrow> held v repo d"
  by (auto simp: shrunk_def held_def split: if_splits)

lemma shrunk_tagged: "shrunk repo D v v' \<Longrightarrow> tagged v' repo d = tagged v repo d"
  by (simp add: shrunk_def tagged_def)

lemma shrunk_entry:
  "shrunk repo D v v' \<Longrightarrow> ro_manifests v' repo d = Some en \<longleftrightarrow> d \<notin> D \<and> ro_manifests v repo d = Some en"
  by (simp add: shrunk_def)

lemma keeps_shrunk:
  assumes "keeps has v1 repo f f1" "keeps has v2 repo f1 f2" "\<And>d. referenced v2 repo d \<Longrightarrow> referenced v1 repo d"
  shows "keeps has v2 repo f f2"
proof -
  have "keeps has v2 repo f f1" using assms(1,3) by (simp add: keeps_def)
  then show ?thesis using assms(2) by (rule keeps_trans)
qed

lemma unneeded_iff:
  "unneeded v repo cutoff d \<longleftrightarrow> (\<exists>en. ro_manifests v repo d = Some en \<and> old (en_m en) cutoff \<and>
     \<not> tagged v repo d \<and> \<not> held v repo d \<and>
     (im_Subject (en_m en) = '''' \<or> \<not> indexed v repo (im_Subject (en_m en))))"
  by (auto simp: unneeded_def old_def)

lemma unneeded_shrunk:
  "shrunk repo D v v' \<Longrightarrow> unneeded v repo cutoff d \<Longrightarrow> d \<notin> D \<Longrightarrow> unneeded v' repo cutoff d"
  unfolding unneeded_iff using shrunk_entry [of repo D v v'] shrunk_held [of repo D v v'] shrunk_tagged [of repo D v v']
  by (metis indexed_def option.exhaust_sel)

lemma unneeded_deletable:
  "unneeded v repo cutoff d \<Longrightarrow> \<exists>en. ro_manifests v repo d = Some en \<and> deletable repo cutoff v (en_m en) \<and>
     \<not> tagged v repo d \<and> \<not> held v repo d"
  by (auto simp: unneeded_iff deletable_def)

context index_laws
begin

text \<open>
  A loop over candidates deletes some of them, none of them tagged or young; when it reports no
  error, all that were unneeded.
\<close>

lemma delete_each_ok:
  assumes st: "erase_ok fl has"
  shows "good (w_ix w) \<Longrightarrow> \<not> intx (w_ix w) \<Longrightarrow> delete_each ix fl repo cutoff ds n errs w = ((n', errs'), w') \<Longrightarrow>
    good (w_ix w') \<and> \<not> intx (w_ix w') \<and> keeps has (seen (w_ix w')) repo (w_fl w) (w_fl w') \<and>
    (\<exists>D es. shrunk repo D (seen (w_ix w)) (seen (w_ix w')) \<and> D \<subseteq> set ds \<and> n' = n + card D \<and> errs' = errs @ es \<and>
       (\<forall>d \<in> D. \<not> tagged (seen (w_ix w)) repo d \<and>
          (\<exists>en. ro_manifests (seen (w_ix w)) repo d = Some en \<and> old (en_m en) cutoff)) \<and>
       (es = [] \<longrightarrow> (\<forall>d \<in> set ds. unneeded (seen (w_ix w)) repo cutoff d \<longrightarrow> d \<in> D)))"
proof (induction ds arbitrary: w n errs)
  case Nil
  then show ?case by (auto intro!: exI [of _ "{}"])
next
  case (Cons d ds)
  obtain ok err w1 where r: "deleteManifest ix fl repo d cutoff w = ((ok, err), w1)" by (metis prod.exhaust)
  note rm = removeManifest_ok [OF delete_eligible_ok st Cons.prems(1,2) r [unfolded deleteManifest_def]]
  let ?v = "seen (w_ix w)" and ?v1 = "seen (w_ix w1)" and ?v2 = "seen (w_ix w')"
  have rest: "delete_each ix fl repo cutoff ds (if ok then Suc n else n)
      (case err of None \<Rightarrow> errs | Some e \<Rightarrow> errs @ [e]) w1 = ((n', errs'), w')"
    using Cons.prems(3) r by simp
  have g1: "good (w_ix w1)" "\<not> intx (w_ix w1)" using rm by blast+
  from Cons.IH [OF g1 rest] obtain D es where ih: "good (w_ix w')" "\<not> intx (w_ix w')"
    "keeps has ?v2 repo (w_fl w1) (w_fl w')" "shrunk repo D ?v1 ?v2" "D \<subseteq> set ds"
    "n' = (if ok then Suc n else n) + card D" "errs' = (case err of None \<Rightarrow> errs | Some e \<Rightarrow> errs @ [e]) @ es"
    "\<forall>d \<in> D. \<not> tagged ?v1 repo d \<and> (\<exists>en. ro_manifests ?v1 repo d = Some en \<and> old (en_m en) cutoff)"
    "es = [] \<longrightarrow> (\<forall>d \<in> set ds. unneeded ?v1 repo cutoff d \<longrightarrow> d \<in> D)"
    by blast
  define E where "E = (if ok then {d} else {})"
  have s1: "shrunk repo E ?v ?v1"
  proof (cases ok)
    case True
    with rm have "without ?v repo d ?v1" "indexed ?v repo d" by (auto simp: indexed_def)
    then show ?thesis using True without_shrunk by (simp add: E_def)
  qed (use rm in \<open>simp add: E_def\<close>)
  have Eprop: "\<forall>x \<in> E. \<not> tagged ?v repo x \<and> (\<exists>en. ro_manifests ?v repo x = Some en \<and> old (en_m en) cutoff)"
    using rm by (auto simp: E_def deletable_def)
  have Ecompl: "d \<in> E" if "err = None" "unneeded ?v repo cutoff d"
    using rm that unneeded_deletable [OF that(2)] by (cases ok) (auto simp: E_def)
  have keeps1: "keeps has ?v1 repo (w_fl w) (w_fl w1)" using rm by blast
  have fin: "finite D" using ih(5) finite_subset by blast
  from shrunk_trans [OF s1 ih(4)] have tr: "shrunk repo (E \<union> D) ?v ?v2" "E \<inter> D = {}" by auto
  have "card (E \<union> D) = card E + card D" using fin tr(2) by (intro card_Un_disjoint) (auto simp: E_def)
  then have n': "n' = n + card (E \<union> D)" using ih(6) by (auto simp: E_def)
  have errs': "errs' = errs @ (opt_list err @ es)" using ih(7) by (auto simp: opt_list_def split: option.splits)
  have D: "\<forall>x \<in> D. \<not> tagged ?v repo x \<and> (\<exists>en. ro_manifests ?v repo x = Some en \<and> old (en_m en) cutoff)"
    using ih(8) shrunk_entry [OF s1] shrunk_tagged [OF s1] by blast
  have compl: "x \<in> E \<union> D" if "opt_list err @ es = []" "x \<in> set (d # ds)" "unneeded ?v repo cutoff x" for x
  proof (cases "x \<in> E")
    case False
    have none: "err = None" "es = []" using that(1) by (auto simp: opt_list_def split: option.splits)
    show ?thesis
    proof (cases "x \<in> set ds")
      case True
      then show ?thesis using ih(9) none unneeded_shrunk [OF s1 that(3) False] by blast
    next
      case False
      then show ?thesis using that(2,3) Ecompl none by auto
    qed
  qed simp
  have "keeps has ?v2 repo (w_fl w) (w_fl w')"
    using keeps_shrunk [OF keeps1 ih(3)] shrunk_referenced [OF ih(4)] by blast
  moreover have "E \<union> D \<subseteq> set (d # ds)" using ih(5) by (auto simp: E_def)
  ultimately show ?case
    using ih(1,2) tr(1) n' errs' Eprop D compl
    by (intro conjI exI [of _ "E \<union> D"] exI [of _ "opt_list err @ es"]) auto
qed

end

section \<open>Tags\<close>

lemma latest_gt: "latest ts > c \<longleftrightarrow> c < 0 \<or> (\<exists>t \<in> set ts. t > c)"
proof -
  have "foldl (\<lambda>out t. if t > out then t else out) a ts > c \<longleftrightarrow> a > c \<or> (\<exists>t \<in> set ts. t > c)" for a
    by (induction ts arbitrary: a) (auto intro: less_trans)
  then show ?thesis by (simp add: latest_def)
qed

text \<open>The tags called \<open>N\<close> have gone from one repository; nothing else has changed.\<close>

definition untagged_names :: "string \<Rightarrow> string set \<Rightarrow> rows \<Rightarrow> rows \<Rightarrow> bool" where
  "untagged_names repo N v v' =
     (v' = v\<lparr>ro_tags := (ro_tags v)(repo := (\<lambda>n. if n \<in> N then None else ro_tags v repo n))\<rparr> \<and>
      N \<subseteq> {n. ro_tags v repo n \<noteq> None})"

lemma untagged_names_refl [simp]: "untagged_names repo {} v v"
  by (simp add: untagged_names_def)

lemma untagged_names_trans:
  "untagged_names repo M v v1 \<Longrightarrow> untagged_names repo N v1 v2 \<Longrightarrow> untagged_names repo (M \<union> N) v v2 \<and> M \<inter> N = {}"
  by (auto simp: untagged_names_def fun_eq_iff split: if_splits)

context index_laws
begin

lemma erase_same_tag_ok:
  "op_ok good seen outer intx
     (\<lambda>v r v'. (case r of
        Inl e \<Rightarrow> v' = v
      | Inr b \<Rightarrow> (if b then untagged_names repo {tg_Name t} v v' else v' = v) \<and>
          (ro_tags v repo (tg_Name t) = Some t \<longrightarrow> b)))
     (erase_same_tag ix repo t)"
  unfolding op_ok_def
proof (intro allI impI)
  fix x r x' assume g: "good x" and b: "erase_same_tag ix repo t x = (r, x')"
  obtain a x1 where a: "ix_tag_get ix repo (tg_Name t) x = (a, x1)" by force
  obtain z x2 where z: "ix_tag_erase ix repo (tg_Name t) x1 = (z, x2)" by force
  note ca = opD [OF tag_get_law g a]
  then have cz: "good x2 \<and> intx x2 = intx x1 \<and> outer x2 = (if intx x1 then outer x1 else seen x2) \<and>
      tag_erase_spec repo (tg_Name t) (seen x1) z (seen x2)"
    using opD [OF tag_erase_law _ z] by blast
  note eq = b [unfolded erase_same_tag_def a z prod.case sum.case]
  show "good x' \<and> intx x' = intx x \<and> outer x' = (if intx x then outer x else seen x') \<and>
      (case r of Inl e \<Rightarrow> seen x' = seen x
       | Inr b \<Rightarrow> (if b then untagged_names repo {tg_Name t} (seen x) (seen x') else seen x' = seen x) \<and>
           (ro_tags (seen x) repo (tg_Name t) = Some t \<longrightarrow> b))"
  proof (cases a)
    case (Inl e)
    with eq ca show ?thesis by (auto simp: tag_get_spec_def split: if_splits)
  next
    case (Inr cur)
    have un: "untagged_names repo {tg_Name t} (seen x) (seen x2)" if "z = Inr u" for u
      using cz ca that by (auto simp: tag_erase_spec_def tag_get_spec_def untagged_names_def fun_eq_iff
          intro!: rows.equality)
    from Inr eq ca cz un show ?thesis
      by (cases z) (auto simp: tag_get_spec_def tag_erase_spec_def split: if_splits)
  qed
qed

lemma erase_tags_ok:
  shows "good x \<Longrightarrow> \<not> intx x \<Longrightarrow> erase_tags ix repo ts n errs x = ((n', errs'), x') \<Longrightarrow>
    distinct (map tg_Name ts) \<Longrightarrow>
    good x' \<and> \<not> intx x' \<and>
    (\<exists>N es. untagged_names repo N (seen x) (seen x') \<and> N \<subseteq> tg_Name ` set ts \<and> n' = n + card N \<and>
       errs' = errs @ es \<and>
       (es = [] \<longrightarrow> (\<forall>t \<in> set ts. ro_tags (seen x) repo (tg_Name t) = Some t \<longrightarrow> tg_Name t \<in> N)))"
proof (induction ts arbitrary: x n errs)
  case Nil
  then show ?case by (auto intro!: exI [of _ "{}"])
next
  case (Cons t ts)
  obtain r x1 where r: "ix_tx ix repo (erase_same_tag ix repo t) x = (r, x1)" by force
  note tx = ix_tx_ok [OF erase_same_tag_ok Cons.prems(1,2) r]
  define M where "M = (if r = Inr True then {tg_Name t} else {})"
  have s1: "untagged_names repo M (seen x) (seen x1)"
    using tx by (cases r) (auto simp: M_def split: if_splits)
  have rest: "erase_tags ix repo ts (n + card M) (case r of Inl e \<Rightarrow> errs @ [e] | Inr _ \<Rightarrow> errs) x1 = ((n', errs'), x')"
    using Cons.prems(3) r by (cases r) (auto simp: M_def split: if_splits)
  from Cons.IH [OF _ _ rest] tx Cons.prems(4) obtain N es where ih: "good x'" "\<not> intx x'"
    "untagged_names repo N (seen x1) (seen x')" "N \<subseteq> tg_Name ` set ts" "n' = n + card M + card N"
    "errs' = (case r of Inl e \<Rightarrow> errs @ [e] | Inr _ \<Rightarrow> errs) @ es"
    "es = [] \<longrightarrow> (\<forall>t \<in> set ts. ro_tags (seen x1) repo (tg_Name t) = Some t \<longrightarrow> tg_Name t \<in> N)"
    by auto
  from untagged_names_trans [OF s1 ih(3)] have tr: "untagged_names repo (M \<union> N) (seen x) (seen x')" "M \<inter> N = {}"
    by auto
  have "finite N" using ih(4) finite_subset by blast
  then have "card (M \<union> N) = card M + card N" using tr(2) by (intro card_Un_disjoint) (auto simp: M_def)
  then have n': "n' = n + card (M \<union> N)" using ih(5) by simp
  define es' where "es' = (case r of Inl e \<Rightarrow> [e] | Inr _ \<Rightarrow> []) @ es"
  have errs': "errs' = errs @ es'" using ih(6) by (simp add: es'_def split: sum.splits)
  have compl: "tg_Name u \<in> M \<union> N" if "es' = []" "u \<in> set (t # ts)" "ro_tags (seen x) repo (tg_Name u) = Some u" for u
  proof (cases "u = t")
    case True
    with that tx show ?thesis by (cases r) (auto simp: M_def es'_def)
  next
    case False
    with that have u: "u \<in> set ts" by simp
    then have "tg_Name u \<in> tg_Name ` set ts" by (rule imageI)
    then have "tg_Name u \<noteq> tg_Name t" using Cons.prems(4) by auto
    then have "ro_tags (seen x1) repo (tg_Name u) = Some u"
      using s1 that(3) by (auto simp: untagged_names_def M_def)
    then show ?thesis using ih(7) u that(1) by (auto simp: es'_def)
  qed
  have "M \<union> N \<subseteq> tg_Name ` set (t # ts)" using ih(4) by (auto simp: M_def)
  then show ?case using ih(1,2) tr(1) n' errs' compl by blast
qed

end

section \<open>Which tags a retention rule puts past its count\<close>

lemma in_take_rank:
  fixes f :: "'a \<Rightarrow> 'b::linorder"
  assumes "sorted_wrt (<) (map f xs)" "x \<in> set xs"
  shows "x \<in> set (take k xs) \<longleftrightarrow> card {y \<in> set xs. f y < f x} < k"
proof -
  from assms(2) obtain i where i: "i < length xs" "x = xs ! i" by (auto simp: in_set_conv_nth)
  have lt: "f (xs ! j) < f (xs ! l) \<longleftrightarrow> j < l" if "j < length xs" "l < length xs" for j l
    using assms(1) that sorted_wrt_nth_less [OF assms(1), of j l] sorted_wrt_nth_less [OF assms(1), of l j]
    by (cases j l rule: linorder_cases) auto
  then have inj: "j = l" if "xs ! j = xs ! l" "j < length xs" "l < length xs" for j l
    using that by (metis less_irrefl nat_neq_iff)
  have "{y \<in> set xs. f y < f x} = (\<lambda>j. xs ! j) ` {..<i}"
  proof (intro set_eqI iffI)
    fix y assume "y \<in> {y \<in> set xs. f y < f x}"
    then obtain j where "j < length xs" "y = xs ! j" "f (xs ! j) < f (xs ! i)"
      using i by (auto simp: in_set_conv_nth)
    then show "y \<in> (\<lambda>j. xs ! j) ` {..<i}" using lt i by blast
  next
    fix y assume "y \<in> (\<lambda>j. xs ! j) ` {..<i}"
    then obtain j where "j < i" "y = xs ! j" by blast
    then show "y \<in> {y \<in> set xs. f y < f x}" using lt i by simp
  qed
  moreover have "inj_on (\<lambda>j. xs ! j) {..<i}" using inj i by (auto simp: inj_on_def)
  ultimately have "card {y \<in> set xs. f y < f x} = i" by (simp add: card_image)
  moreover have "x \<in> set (take k xs) \<longleftrightarrow> i < k"
  proof
    assume "x \<in> set (take k xs)"
    then obtain j where "j < k" "j < length xs" "xs ! j = x" by (auto simp: in_set_conv_nth)
    then show "i < k" using inj i by metis
  next
    assume "i < k"
    then show "x \<in> set (take k xs)" using i by (auto simp: in_set_conv_nth intro!: exI [of _ i])
  qed
  ultimately show ?thesis by simp
qed

definition newer_than :: "tag \<Rightarrow> tag \<Rightarrow> bool" where
  "newer_than u t = (tg_MovedAt u > tg_MovedAt t \<or> tg_MovedAt u = tg_MovedAt t \<and> tg_Name u < tg_Name t)"

text \<open>
  A tag is past the count of every rule that matches it when that many matching tags are newer.
\<close>

definition past_count :: "tag_rule list \<Rightarrow> tag set \<Rightarrow> tag \<Rightarrow> bool" where
  "past_count rs T t =
     ((\<exists>rule \<in> set rs. MatchesTag rule (tg_Name t)) \<and>
      (\<forall>rule \<in> set rs. MatchesTag rule (tg_Name t) \<longrightarrow>
         tr_Keep rule \<le> int (card {u \<in> T. MatchesTag rule (tg_Name u) \<and> newer_than u t})))"

lemma rule_tags_take:
  assumes "distinct (map tg_Name tags)" "t \<in> set tags" "MatchesTag rule (tg_Name t)"
  shows "t \<in> set (take k (rule_tags rule tags)) \<longleftrightarrow>
    card {u \<in> set tags. MatchesTag rule (tg_Name u) \<and> newer_than u t} < k"
proof -
  let ?f = "\<lambda>t. (- tg_MovedAt t, tg_Name t)"
  let ?xs = "filter (\<lambda>t. MatchesTag rule (tg_Name t)) tags"
  have "distinct (map tg_Name ?xs)" using assms(1) by (rule distinct_map_filter)
  then have "distinct (map ?f ?xs)" by (auto simp: distinct_map inj_on_def)
  then have "sorted_wrt (<) (map ?f (rule_tags rule tags))"
    unfolding rule_tags_def by_moved_def by (rule sorted_wrt_key)
  moreover have set_eq: "set (rule_tags rule tags) = {u \<in> set tags. MatchesTag rule (tg_Name u)}"
    by (simp add: rule_tags_def by_moved_def)
  moreover have "?f u < ?f t \<longleftrightarrow> newer_than u t" for u
    by (auto simp: newer_than_def less_prod_def)
  ultimately show ?thesis
    using in_take_rank [of ?f "rule_tags rule tags" t k] assms(2,3) by (simp add: conj_ac)
qed

lemma retention_doomed_iff:
  assumes "distinct (map tg_Name tags)"
  shows "t \<in> set (retention_doomed p repo tags) \<longleftrightarrow>
    t \<in> set tags \<and> past_count (Retention p repo) (set tags) t \<and>
    CheckTag p [ActionAdmin] repo (tg_Name t) TagDelete = None"
proof (cases "t \<in> set tags")
  case True
  let ?rs = "Retention p repo"
  have keep: "0 \<le> tr_Keep rule" if "rule \<in> set ?rs" for rule
    using that by (auto simp: Retention_def split: option.splits)
  have same: "u = t" if "u \<in> set tags" "tg_Name u = tg_Name t" for u
    using assms True that by (metis distinct_map inj_onD)
  have sub: "set (rule_tags rule tags) = {u \<in> set tags. MatchesTag rule (tg_Name u)}" for rule
    by (simp add: rule_tags_def by_moved_def)
  have m: "tg_Name t \<in> set (matched_names ?rs tags) \<longleftrightarrow> (\<exists>rule \<in> set ?rs. MatchesTag rule (tg_Name t))"
    using True by (auto simp: matched_names_def sub image_iff)
  have "tg_Name t \<in> tg_Name ` set (take n (rule_tags rule tags)) \<longleftrightarrow> t \<in> set (take n (rule_tags rule tags))" for n rule
  proof
    assume "tg_Name t \<in> tg_Name ` set (take n (rule_tags rule tags))"
    then obtain u where u: "u \<in> set (take n (rule_tags rule tags))" "tg_Name u = tg_Name t" by force
    then have "u \<in> set tags" using in_set_takeD [OF u(1)] sub by blast
    then show "t \<in> set (take n (rule_tags rule tags))" using u same by blast
  qed simp
  then have "tg_Name t \<in> set (kept_names ?rs tags) \<longleftrightarrow>
      (\<exists>rule \<in> set ?rs. t \<in> set (take (nat (tr_Keep rule)) (rule_tags rule tags)))"
    by (simp add: kept_names_def)
  also have "\<dots> \<longleftrightarrow> (\<exists>rule \<in> set ?rs. MatchesTag rule (tg_Name t) \<and>
      int (card {u \<in> set tags. MatchesTag rule (tg_Name u) \<and> newer_than u t}) < tr_Keep rule)"
  proof (intro bex_cong refl)
    fix rule assume r: "rule \<in> set ?rs"
    show "t \<in> set (take (nat (tr_Keep rule)) (rule_tags rule tags)) \<longleftrightarrow> MatchesTag rule (tg_Name t) \<and>
      int (card {u \<in> set tags. MatchesTag rule (tg_Name u) \<and> newer_than u t}) < tr_Keep rule"
    proof (cases "MatchesTag rule (tg_Name t)")
      case True
      then show ?thesis
        using rule_tags_take [OF assms \<open>t \<in> set tags\<close> True, of "nat (tr_Keep rule)"] by (simp add: zless_nat_eq_int_zless)
    next
      case False
      then have "t \<notin> set (rule_tags rule tags)" using sub by simp
      then have "t \<notin> set (take (nat (tr_Keep rule)) (rule_tags rule tags))" using in_set_takeD by fast
      with False show ?thesis by simp
    qed
  qed
  finally have k: "tg_Name t \<in> set (kept_names ?rs tags) \<longleftrightarrow> (\<exists>rule \<in> set ?rs. MatchesTag rule (tg_Name t) \<and>
      int (card {u \<in> set tags. MatchesTag rule (tg_Name u) \<and> newer_than u t}) < tr_Keep rule)" .
  show ?thesis
    using True unfolding retention_doomed_def Let_def past_count_def set_filter m k mem_Collect_eq
    by (auto simp: not_less)
qed (simp add: retention_doomed_def Let_def)

context index_laws
begin

lemma retention_ok:
  assumes g: "good x" "\<not> intx x" and r: "retention ix p repo x = ((n, err), x')"
  shows "good x' \<and> \<not> intx x' \<and>
    (\<exists>N. untagged_names repo N (seen x) (seen x') \<and> n = card N \<and>
       (let T = {t. \<exists>m. ro_tags (seen x) repo m = Some t};
            D = tg_Name ` {t \<in> T. past_count (Retention p repo) T t \<and>
              CheckTag p [ActionAdmin] repo (tg_Name t) TagDelete = None}
        in N \<subseteq> D \<and> (err = None \<longrightarrow> N = D)))"
proof (cases "Retention p repo = []")
  case True
  with g r show ?thesis
    by (auto simp: retention_def past_count_def intro!: exI [of _ "{}"])
next
  case False
  obtain a x1 where a: "ix_tag_all ix repo x = (a, x1)" by force
  note ca = opD [OF tag_all_law g(1) a]
  show ?thesis
  proof (cases a)
    case (Inl e)
    with False a r ca g show ?thesis
      by (auto simp: retention_def tag_all_spec_def intro!: exI [of _ "{}"])
  next
    case (Inr tags)
    with ca have x1: "seen x1 = seen x" "good x1" "\<not> intx x1"
      and sw: "sorted_wrt (<) (map tg_Name tags)"
      and mem: "\<And>n t. ro_tags (seen x) repo n = Some t \<longleftrightarrow> t \<in> set tags \<and> tg_Name t = n"
      using g by (auto simp: tag_all_spec_def)
    have dist: "distinct (map tg_Name tags)" using sw by (simp add: strict_sorted_iff)
    have T: "{t. \<exists>m. ro_tags (seen x) repo m = Some t} = set tags" using mem by auto
    let ?ds = "retention_doomed p repo tags"
    obtain n2 es x2 where e: "erase_tags ix repo ?ds 0 [] x1 = ((n2, es), x2)" by (metis prod.exhaust)
    have "distinct (map tg_Name ?ds)" using dist by (simp add: retention_doomed_def Let_def distinct_map_filter)
    from erase_tags_ok [OF x1(2,3) e this] obtain N where N: "good x2" "\<not> intx x2"
      "untagged_names repo N (seen x) (seen x2)" "N \<subseteq> tg_Name ` set ?ds" "n2 = card N"
      "es = [] \<longrightarrow> (\<forall>t \<in> set ?ds. ro_tags (seen x) repo (tg_Name t) = Some t \<longrightarrow> tg_Name t \<in> N)"
      using x1(1) by auto
    have r': "x' = x2" "n = n2" "err = join_errs es" using r False a Inr e by (auto simp: retention_def)
    have D: "{t \<in> set tags. past_count (Retention p repo) (set tags) t \<and>
        CheckTag p [ActionAdmin] repo (tg_Name t) TagDelete = None} = set ?ds"
      using retention_doomed_iff [OF dist] by blast
    have "err = None \<longrightarrow> N = tg_Name ` set ?ds"
    proof
      assume "err = None"
      then have "es = []" using r' by (simp add: join_errs_def split: if_splits)
      moreover have "ro_tags (seen x) repo (tg_Name t) = Some t" if "t \<in> set ?ds" for t
        using that mem by (auto simp: retention_doomed_def Let_def)
      ultimately show "N = tg_Name ` set ?ds" using N(4,6) by blast
    qed
    then show ?thesis unfolding T Let_def D using N r' by blast
  qed
qed

end

lemma untaggedBefore_ok:
  assumes "erase_ok fl has" and "mem_good (w_ix w)" and "\<not> mem_intx (w_ix w)"
  shows "\<exists>n err w' D. untaggedBefore mem_ops fl repo cutoff w = Some ((n, err), w') \<and>
    mem_good (w_ix w') \<and> \<not> mem_intx (w_ix w') \<and>
    shrunk repo D (mem_seen (w_ix w)) (mem_seen (w_ix w')) \<and> n = card D \<and>
    D \<subseteq> {d. unneeded (mem_seen (w_ix w)) repo cutoff d} \<and>
    (err = None \<longrightarrow> D = {d. unneeded (mem_seen (w_ix w)) repo cutoff d}) \<and>
    keeps has (mem_seen (w_ix w')) repo (w_fl w) (w_fl w')"
proof -
  let ?v = "mem_seen (w_ix w)" and ?U = "{d. unneeded (mem_seen (w_ix w)) repo cutoff d}"
  from unneeded_pages.read_pages_all [where n = 500 and repo = repo and cutoff = cutoff and after = "''''" and acc = "[]", OF _ assms(2)]
  obtain r x1 where rp: "read_pages 500 (\<lambda>p. ix_unneeded mem_ops repo cutoff p) im_Digest '''' [] (w_ix w) = Some (r, x1)"
    "mem_good x1" and all: "\<And>vs. r = Inr vs \<Longrightarrow> im_Digest ` set vs = ?U" by auto
  have reads: "mem_seen x1 = ?v \<and> \<not> mem_intx x1"
    using read_pages_same [OF rp(1), where I = mem_good and S = "\<lambda>x. (mem_seen x, mem_intx x)"]
      mem.opD [OF mem.unneeded_law] assms(2,3) by (auto simp: unneeded_spec_def)
  show ?thesis
  proof (cases r)
    case (Inl e)
    then have u: "untaggedBefore mem_ops fl repo cutoff w = Some ((0, Some e), w\<lparr>w_ix := x1\<rparr>)"
      using rp by (simp add: untaggedBefore_def)
    show ?thesis using reads rp(2) by (intro exI [of _ "0"] exI [of _ "Some e"] exI [of _ "w\<lparr>w_ix := x1\<rparr>"] exI [of _ "{}"]) (simp add: u)
  next
    case (Inr vs)
    obtain n es w' where d: "delete_each mem_ops fl repo cutoff (map im_Digest vs) 0 [] (w\<lparr>w_ix := x1\<rparr>) = ((n, es), w')"
      by (metis prod.exhaust)
    have "set (map im_Digest vs) = ?U" using all [OF Inr] by simp
    with mem.delete_each_ok [OF assms(1) _ _ d] rp(2) reads obtain D where
      D: "mem_good (w_ix w')" "\<not> mem_intx (w_ix w')" "shrunk repo D ?v (mem_seen (w_ix w'))" "D \<subseteq> ?U" "n = card D" "es = [] \<longrightarrow> ?U \<subseteq> D"
      "keeps has (mem_seen (w_ix w')) repo (w_fl w) (w_fl w')"
      by (simp del: set_map) blast
    have u: "untaggedBefore mem_ops fl repo cutoff w = Some ((n, join_errs es), w')"
      using rp d Inr by (simp add: untaggedBefore_def)
    have "join_errs es = None \<longrightarrow> D = ?U" using D(4,6) by (auto simp: join_errs_def)
    with u D show ?thesis
      by (intro exI [of _ n] exI [of _ "join_errs es"] exI [of _ w'] exI [of _ D] conjI)
  qed
qed
section \<open>Properties\<close>

text \<open>
  C29: the untagged collection of one repository ends, and deletes manifests the index listed as
  unneeded and no other: past the cutoff, with no tag, held by nothing and referring to nothing
  that is there.  It counts what it deleted.  When it reports no error it deleted every one of
  them, and in no case does it take from the store anything the index still refers to.
\<close>

theorem untagged_collects_the_unneeded:
  assumes "erase_ok fl has" and "mem_good (w_ix w)" and "\<not> mem_intx (w_ix w)"
  shows "\<exists>n err w' D. untaggedBefore mem_ops fl repo cutoff w = Some ((n, err), w') \<and>
    shrunk repo D (mem_seen (w_ix w)) (mem_seen (w_ix w')) \<and> n = card D \<and>
    D \<subseteq> {d. unneeded (mem_seen (w_ix w)) repo cutoff d} \<and>
    (err = None \<longrightarrow> D = {d. unneeded (mem_seen (w_ix w)) repo cutoff d}) \<and>
    keeps has (mem_seen (w_ix w')) repo (w_fl w) (w_fl w')"
  using untaggedBefore_ok [OF assms] by blast

lemma untagged_collects_the_unneeded_witness:
  "\<exists>n err w' D. untaggedBefore mem_ops sample_store ''acme/app'' 50 sample_world = Some ((n, err), w') \<and>
    shrunk ''acme/app'' D (mem_seen (w_ix sample_world)) (mem_seen (w_ix w')) \<and> n = card D \<and>
    D \<subseteq> {d. unneeded (mem_seen (w_ix sample_world)) ''acme/app'' 50 d} \<and>
    (err = None \<longrightarrow> D = {d. unneeded (mem_seen (w_ix sample_world)) ''acme/app'' 50 d}) \<and>
    keeps sample_has (mem_seen (w_ix w')) ''acme/app'' (w_fl sample_world) (w_fl w')"
  by (rule untagged_collects_the_unneeded [OF sample_erase_ok]) (simp_all add: sample_world_def)

text \<open>
  C30: retention deletes exactly the tags past their count.  A tag goes only if a retention rule
  of the repository matches it, every retention rule that matches it keeps no more tags than are
  newer than it, and no other rule forbids its deletion; the ones deleted are counted; with no
  error every such tag is gone; and nothing but those tags changes.
\<close>

theorem retention_deletes_past_its_count:
  assumes "mem_good x" and "\<not> mem_intx x" and "retention mem_ops p repo x = ((n, err), x')"
  shows "\<exists>N. untagged_names repo N (mem_seen x) (mem_seen x') \<and> n = card N \<and>
    (let T = {t. \<exists>m. ro_tags (mem_seen x) repo m = Some t};
         D = tg_Name ` {t \<in> T. past_count (Retention p repo) T t \<and>
           CheckTag p [ActionAdmin] repo (tg_Name t) TagDelete = None}
     in N \<subseteq> D \<and> (err = None \<longrightarrow> N = D))"
  using mem.retention_ok [OF assms] by blast

definition keep_none :: policy where
  "keep_none = \<lparr>p_providers = [], p_chain = [], p_matches = [], p_TagRules = [
     \<lparr>tr_Name = ''r'', tr_Repo = ''**'', tr_Tag = ''**'', tr_Kind = TagRetention, tr_Pattern = '''', tr_Keep = 0,
      tr_repo = \<lparr>g_src = ''**'', g_segs = [Deep]\<rparr>, tr_tag = \<lparr>g_src = ''**'', g_segs = [Deep]\<rparr>,
      tr_ok = True, tr_re = None\<rparr>]\<rparr>"

lemma retention_deletes_past_its_count_witness:
  "\<exists>n err x' N. retention mem_ops (Some keep_none) ''acme/app'' sample_index = ((n, err), x') \<and>
    untagged_names ''acme/app'' N (mem_seen sample_index) (mem_seen x') \<and> n = card N"
proof -
  obtain n err x' where r: "retention mem_ops (Some keep_none) ''acme/app'' sample_index = ((n, err), x')"
    by (metis prod.exhaust)
  from retention_deletes_past_its_count [OF sample_index_good r] r show ?thesis by blast
qed

lemma retention_sample: "fst (retention mem_ops (Some keep_none) ''acme/app'' sample_index) = (1, None)"
  by code_simp

end
