(* ===== verification/Mem_Claims.thy ===== *)
theory Mem_Claims
  imports Mem_Laws Gc_Collect
begin

text \<open>
  What the index in memory does, as its callers rely on it: what a deletion releases, the
  compare-and-set of a tag, the pages of its lists, transactions and their locks, and the scan
  that discovers the referrers whose subject is missing.
\<close>

lemma sorted_le_last: "sorted xs \<Longrightarrow> x \<in> set xs \<Longrightarrow> x \<le> last xs"
  by (induction xs) auto

section \<open>The orphans' scan\<close>

definition recorded :: "state \<Rightarrow> string \<Rightarrow> digest \<Rightarrow> bool" where
  "recorded s repo subject = (map_of (inner (st_orphans s) repo) subject \<noteq> None)"

text \<open>The manifest \<open>d\<close> refers to a subject that is not there.\<close>

definition dangling :: "state \<Rightarrow> string \<Rightarrow> digest \<Rightarrow> digest \<Rightarrow> bool" where
  "dangling s repo d subject =
     (subject \<noteq> '''' \<and> man s repo subject = None \<and> (\<exists>e. man s repo d = Some e \<and> im_Subject (en_m e) = subject))"

definition seeded_to :: "state \<Rightarrow> string \<Rightarrow> string \<Rightarrow> bool" where
  "seeded_to s repo c = (\<forall>d subject. dangling s repo d subject \<longrightarrow> d \<le> c \<longrightarrow> recorded s repo subject)"

lemma recorded_observe:
  "recorded (observe s repo d at f) r x \<longleftrightarrow> recorded s r x \<or> r = repo \<and> x = d"
  by (auto simp: recorded_def observe_def)

lemma dangling_same: "man s' = man s \<Longrightarrow> dangling s' = dangling s"
  by (auto simp: dangling_def fun_eq_iff)

lemma seed_key_same:
  "man (seed_key now repo key s) = man s" "st_scans (seed_key now repo key s) = st_scans s"
  "recorded s repo x \<Longrightarrow> recorded (seed_key now repo key s) repo x"
  by (auto simp: seed_key_def Let_def recorded_observe)

lemma seed_key_records: "dangling s repo key x \<Longrightarrow> recorded (seed_key now repo key s) repo x"
  by (auto simp: seed_key_def Let_def recorded_observe dangling_def)

lemma seed_fold_records:
  "man (fold (seed_key now repo) keys s) = man s \<and> st_scans (fold (seed_key now repo) keys s) = st_scans s \<and>
   (\<forall>x. recorded s repo x \<longrightarrow> recorded (fold (seed_key now repo) keys s) repo x) \<and>
   (\<forall>key \<in> set keys. \<forall>x. dangling s repo key x \<longrightarrow> recorded (fold (seed_key now repo) keys s) repo x)"
proof (induction keys arbitrary: s)
  case (Cons key keys)
  note ih = Cons.IH [of "seed_key now repo key s"]
  have "dangling (seed_key now repo key s) = dangling s" by (rule dangling_same) (simp add: seed_key_same)
  then show ?case using ih seed_key_same seed_key_records by (auto simp: seed_key_same)
qed simp

definition left_to_scan :: "state \<Rightarrow> string \<Rightarrow> string \<Rightarrow> string list" where
  "left_to_scan s repo c = sort (filter (\<lambda>d. d > c) (map fst (inner (st_manifests s) repo)))"

lemma left_to_scan_iff:
  "d \<in> set (left_to_scan s repo c) \<longleftrightarrow> man s repo d \<noteq> None \<and> d > c"
  by (auto simp: left_to_scan_def man_def map_of_eq_None_iff)

text \<open>One call of \<open>Seed\<close> on a scan that is not complete.\<close>

lemma Seed_step:
  assumes "\<not> sc_complete (scan_of s repo)" and "seeded_to s repo (sc_cursor (scan_of s repo))"
    and "wf_map (inner (st_manifests s) repo)" and "orphans_Seed now repo s = (r, s')"
  defines "c' \<equiv> sc_cursor (scan_of s' repo)"
  shows "man s' = man s \<and>
    (r = Inr True \<and> (\<forall>d x. dangling s' repo d x \<longrightarrow> recorded s' repo x) \<or>
     r = Inr False \<and> \<not> sc_complete (scan_of s' repo) \<and> seeded_to s' repo c' \<and>
       length (left_to_scan s' repo c') < length (left_to_scan s repo (sc_cursor (scan_of s repo))))"
proof -
  let ?c = "sc_cursor (scan_of s repo)"
  let ?all = "left_to_scan s repo ?c"
  define fin where "fin = (length ?all < seed_batch)"
  define keys where "keys = (if length ?all > seed_batch then take seed_batch ?all else ?all)"
  define s1 where "s1 = fold (seed_key now repo) keys s"
  define cur where "cur = (if keys = [] then ?c else last keys)"
  have s': "r = Inr fin" "s' = s1\<lparr>st_scans := AList.update repo \<lparr>sc_cursor = cur, sc_complete = fin\<rparr> (st_scans s1)\<rparr>"
    using assms(1,4) unfolding orphans_Seed_def Let_def left_to_scan_def [symmetric] fin_def [symmetric]
      keys_def [symmetric] s1_def [symmetric] cur_def [symmetric] by auto
  note sf = seed_fold_records [of now repo keys s, folded s1_def]
  have man': "man s' = man s"
  proof -
    have "st_manifests s1 = st_manifests s"
      unfolding s1_def by (induction keys arbitrary: s) (auto simp: seed_key_def Let_def)
    then show ?thesis by (auto simp: s' man_def fun_eq_iff)
  qed
  have rec': "recorded s' repo x \<longleftrightarrow> recorded s1 repo x" for x by (simp add: recorded_def s')
  have dang': "dangling s' = dangling s" using man' by (rule dangling_same)
  have scan': "scan_of s' repo = \<lparr>sc_cursor = cur, sc_complete = fin\<rparr>" by (simp add: scan_of_def s')
  have seen: "recorded s' repo x" if "dangling s repo d x" "d \<le> ?c \<or> d \<in> set keys" for d x
    using that assms(2) sf rec' by (auto simp: seeded_to_def)
  have all: "d \<le> ?c \<or> d \<in> set ?all" if "dangling s repo d x" for d x
    using that by (auto simp: left_to_scan_iff dangling_def not_le)
  show ?thesis
  proof (cases fin)
    case True
    then have "keys = ?all" by (simp add: fin_def keys_def)
    then have "recorded s' repo x" if "dangling s' repo d x" for d x
      using seen all that unfolding dang' by blast
    then show ?thesis using man' s'(1) True by auto
  next
    case False
    have keys: "keys = take seed_batch ?all" "keys \<noteq> []"
      using False by (auto simp: fin_def keys_def seed_batch_def)
    then have cur: "cur = last keys" by (simp add: cur_def)
    have srt: "sorted ?all" by (simp add: left_to_scan_def)
    have "distinct (map fst (inner (st_manifests s) repo))" using assms(3) by (simp add: wf_map_def)
    then have dist: "distinct ?all" by (simp add: left_to_scan_def)
    have split: "?all = keys @ drop seed_batch ?all" using keys by simp
    have le: "d \<le> cur" if "d \<in> set keys" for d
      unfolding cur using sorted_wrt_take [OF srt] that by (intro sorted_le_last) (simp_all add: keys(1))
    have gt: "d > cur" if "d \<in> set (drop seed_batch ?all)" for d
    proof -
      have "sorted_wrt (<) (keys @ drop seed_batch ?all)"
        using srt dist split by (simp add: strict_sorted_iff)
      then have "\<forall>a \<in> set keys. \<forall>b \<in> set (drop seed_batch ?all). a < b" unfolding sorted_wrt_append by blast
      then show ?thesis using that keys(2) cur by simp
    qed
    have c': "c' = cur" by (simp add: c'_def scan')
    have "set (left_to_scan s' repo c') \<subseteq> set (drop seed_batch ?all)"
    proof
      fix d assume "d \<in> set (left_to_scan s' repo c')"
      then have d: "man s repo d \<noteq> None" "d > cur" by (auto simp: left_to_scan_iff man' c')
      have "?c < cur" using cur keys left_to_scan_iff [of cur s repo ?c] split
        by (metis Un_iff last_in_set set_append)
      with d have "d \<in> set ?all" by (auto simp: left_to_scan_iff)
      then show "d \<in> set (drop seed_batch ?all)" using split le d(2) by (metis Un_iff not_le set_append)
    qed
    moreover have "distinct (left_to_scan s' repo c')"
    proof -
      have "st_manifests s' = st_manifests s"
        unfolding s' s1_def by (simp, induction keys arbitrary: s) (auto simp: seed_key_def Let_def)
      then show ?thesis using assms(3) by (simp add: left_to_scan_def wf_map_def)
    qed
    ultimately have "length (left_to_scan s' repo c') \<le> length (drop seed_batch ?all)"
      by (metis card_mono distinct_card distinct_drop dist List.finite_set)
    then have len: "length (left_to_scan s' repo c') < length ?all"
      using False by (simp add: fin_def seed_batch_def)
    have "d \<in> set keys \<or> d \<le> ?c" if "dangling s repo d x" "d \<le> cur" for d x
      using all [OF that(1)] gt that(2) split by (metis Un_iff not_le set_append)
    then have "seeded_to s' repo c'" using seen by (auto simp: seeded_to_def dang' c')
    then show ?thesis using man' s'(1) False scan' len by auto
  qed
qed

lemma state_okD: "state_ok Q f \<Longrightarrow> wf_state s \<Longrightarrow> f s = (r, s') \<Longrightarrow> wf_state s' \<and> Q (rows_of s) r (rows_of s')"
  unfolding state_ok_def by fastforce

lemma seed_all_scans:
  fixes w :: "(view, 'f) world"
  assumes "mem_good (w_ix w)" "\<not> mem_intx (w_ix w)" "\<not> sc_complete (scan_of (mi_s (vw_ix (w_ix w))) repo)"
    "seeded_to (mi_s (vw_ix (w_ix w))) repo (sc_cursor (scan_of (mi_s (vw_ix (w_ix w))) repo))"
  shows "\<exists>err w'. seed_all mem_ops repo w = Some (err, w') \<and>
    (err = None \<longrightarrow> (\<forall>d x. dangling (mi_s (vw_ix (w_ix w'))) repo d x \<longrightarrow> recorded (mi_s (vw_ix (w_ix w'))) repo x))"
  using assms
proof (induction "length (left_to_scan (mi_s (vw_ix (w_ix w))) repo (sc_cursor (scan_of (mi_s (vw_ix (w_ix w))) repo)))"
    arbitrary: w rule: less_induct)
  case less
  let ?s = "mi_s (vw_ix (w_ix w))"
  obtain ce w0 where ce: "ctx_err w = (ce, w0)" by force
  then have w0: "w_ix w0 = w_ix w" using ctx_err_same(1) [of w] by simp
  show ?case
  proof (cases ce)
    case (Some e)
    with ce show ?thesis by (subst seed_all.simps) simp
  next
    case None
    obtain r x1 where r: "ix_seed mem_ops repo (w_ix w) = (r, x1)" by force
    have law: "mem_good x1" "\<not> mem_intx x1"
      using mem.opD [OF mem.seed_law less.prems(1) r] less.prems(2) by auto
    obtain a ix where a: "acquire False (vw_ix (w_ix w)) = (a, ix)" by force
    have ac: "mi_s ix = ?s" "mi_now ix = mi_now (vw_ix (w_ix w))" using acquire_same [OF a] by auto
    show ?thesis
    proof (cases a)
      case (Inl e)
      then have "r = Inl e" using r a less.prems(2) by (auto simp: mem_ops_sel view_do_def mem_intx_def)
      with ce None w0 r show ?thesis by (subst seed_all.simps) simp
    next
      case (Inr u)
      obtain rr s' where f: "orphans_Seed (view_now (w_ix w)) repo ?s = (rr, s')" by force
      have x1: "r = rr" "mi_s (vw_ix x1) = s'"
        using r a Inr less.prems(2) f ac by (auto simp: mem_ops_sel view_do_def mem_intx_def)
      have wf: "wf_map (inner (st_manifests ?s) repo)"
        using less.prems(1) keyed_wf [OF wf_stateD(2)] by (simp add: mem_good_def)
      from Seed_step [OF less.prems(3,4) wf f] consider
        (ended) "rr = Inr True" "\<forall>d x. dangling s' repo d x \<longrightarrow> recorded s' repo x"
        | (more) "rr = Inr False" "\<not> sc_complete (scan_of s' repo)" "seeded_to s' repo (sc_cursor (scan_of s' repo))"
          "length (left_to_scan s' repo (sc_cursor (scan_of s' repo))) <
           length (left_to_scan ?s repo (sc_cursor (scan_of ?s repo)))"
        by blast
      then show ?thesis
      proof cases
        case ended
        with ce None w0 r x1 show ?thesis by (subst seed_all.simps) simp
      next
        case more
        have "seed_all mem_ops repo w = seed_all mem_ops repo (w0\<lparr>w_ix := x1\<rparr>)"
          using ce None w0 r x1 more(1) by (subst seed_all.simps) simp
        moreover note less.hyps [of "w0\<lparr>w_ix := x1\<rparr>"]
        ultimately show ?thesis using law x1 more by simp
      qed
    qed
  qed
qed

section \<open>Properties\<close>

text \<open>
  Deleting a manifest releases exactly what only it referred to.  \<open>Erase\<close> fails only for a
  manifest that is not there, and then changes nothing; otherwise it removes that manifest and
  no other row of manifests, tags or snapshots, and answers every digest the manifest held that
  no remaining manifest holds and that is not itself a remaining manifest -- and no other.
\<close>

theorem Erase_releases_exactly:
  assumes "wf_state s"
  shows "case manifests_Erase now repo d s of
      (Inl e, s') \<Rightarrow> e = ErrNotFound \<and> s' = s \<and> man s repo d = None
    | (Inr rel, s') \<Rightarrow> \<exists>e. man s repo d = Some e \<and> man s' = (man s)(repo := (man s repo)(d := None)) \<and>
        st_tags s' = st_tags s \<and> st_snapshots s' = st_snapshots s \<and> st_repos s' = st_repos s \<and>
        set rel = {b \<in> set (en_holds e). man s' repo b = None \<and>
          \<not> (\<exists>h e'. man s' repo h = Some e' \<and> b \<in> set (en_holds e'))}"
proof (cases "man s repo d")
  case None
  then show ?thesis by (simp add: manifests_Erase_def)
next
  case (Some e)
  obtain r s' where f: "manifests_Erase now repo d s = (r, s')" by force
  have "erase_spec repo d (rows_of s) r (rows_of s')"
    using state_okD [OF Erase_ok assms f] by blast
  moreover obtain rel where rel: "r = Inr rel" using f Some by (auto simp: manifests_Erase_def Let_def)
  moreover have "st_tags s' = st_tags s \<and> st_snapshots s' = st_snapshots s \<and> st_repos s' = st_repos s"
    using f Some by (auto simp: manifests_Erase_def Let_def split: if_splits)
  ultimately show ?thesis
    using f Some by (auto simp: erase_spec_def referenced_def indexed_def held_def)
qed

definition sample_state :: state where
  "sample_state = mi_s (vw_ix sample_index)"

lemma sample_state_wf [simp]: "wf_state sample_state"
  using sample_index_good(1) by (simp add: sample_state_def mem_good_def)

lemma Erase_sample: "fst (manifests_Erase 100 ''acme/app'' ''sha256:m1'' sample_state) = Inr [''sha256:b1'']"
  by code_simp

lemma Erase_releases_exactly_witness:
  "case manifests_Erase 100 ''acme/app'' ''sha256:m1'' sample_state of
      (Inl e, s') \<Rightarrow> e = ErrNotFound \<and> s' = sample_state \<and> man sample_state ''acme/app'' ''sha256:m1'' = None
    | (Inr rel, s') \<Rightarrow> \<exists>e. man sample_state ''acme/app'' ''sha256:m1'' = Some e \<and>
        man s' = (man sample_state)(''acme/app'' := (man sample_state ''acme/app'')(''sha256:m1'' := None)) \<and>
        st_tags s' = st_tags sample_state \<and> st_snapshots s' = st_snapshots sample_state \<and>
        st_repos s' = st_repos sample_state \<and>
        set rel = {b \<in> set (en_holds e). man s' ''acme/app'' b = None \<and>
          \<not> (\<exists>h e'. man s' ''acme/app'' h = Some e' \<and> b \<in> set (en_holds e'))}"
  by (rule Erase_releases_exactly) simp

text \<open>
  Setting a tag is a compare-and-set.  It succeeds exactly when the tag is where the caller
  last saw it, or is not there and the caller believes so; it then points at the new digest, has
  moved now if the digest is another one and not otherwise, and keeps when it was created and
  pulled; no other tag and no other row changes.  When it fails, no row changes.
\<close>

theorem Set_is_compare_and_set:
  "case tags_Set now repo name d was s of (r, s') \<Rightarrow>
    (r = Inr ()) = (case map_of (inner (st_tags s) repo) name of
        None \<Rightarrow> was = '''' | Some t \<Rightarrow> was \<noteq> '''' \<and> tg_Digest t = was) \<and>
    (case r of
       Inl e \<Rightarrow> e = ErrTagMoved \<and> rows_of s' = rows_of s
     | Inr _ \<Rightarrow> \<exists>t. rows_of s' = (rows_of s)\<lparr>ro_tags := (ro_tags (rows_of s))(repo :=
            (ro_tags (rows_of s) repo)(name := Some t))\<rparr> \<and> tg_Digest t = d \<and>
          (case map_of (inner (st_tags s) repo) name of
             Some o' \<Rightarrow> t = o'\<lparr>tg_MovedAt := (if tg_Digest o' = d then tg_MovedAt o' else now), tg_Digest := d\<rparr>
           | None \<Rightarrow> tg_Name t = name \<and> tg_CreatedAt t = now \<and> (d \<noteq> '''' \<longrightarrow> tg_MovedAt t = now)))"
proof -
  define s1 where "s1 = (if map_of (st_tags s) repo = None then s\<lparr>st_tags := AList.update repo [] (st_tags s)\<rparr> else s)"
  have in1: "inner (st_tags s1) = inner (st_tags s)"
    by (auto simp: s1_def fun_eq_iff) (simp add: inner_def)
  have rows1: "rows_of s1 = rows_of s"
    using in1 by (auto simp: rows_of_def man_def fun_eq_iff s1_def)
  note eq = tags_Set_def [of now repo name d was s, unfolded Let_def, folded s1_def, unfolded in1]
  show ?thesis
  proof (cases "map_of (inner (st_tags s) repo) name")
    case None
    then show ?thesis
      unfolding eq by (auto simp: rows_tags_update map_of_update_fun rows1 in1)
  next
    case (Some t)
    have "t\<lparr>tg_MovedAt := tg_MovedAt t, tg_Digest := tg_Digest t\<rparr> = t" by simp
    with Some show ?thesis
      unfolding eq by (auto simp: rows_tags_update map_of_update_fun rows1 in1)
  qed
qed

lemma Set_is_compare_and_set_witness:
  "case tags_Set 200 ''acme/app'' ''v1'' ''sha256:m2'' ''sha256:m1'' sample_state of (r, s') \<Rightarrow>
    (r = Inr ()) = (case map_of (inner (st_tags sample_state) ''acme/app'') ''v1'' of
        None \<Rightarrow> ''sha256:m1'' = '''' | Some t \<Rightarrow> ''sha256:m1'' \<noteq> '''' \<and> tg_Digest t = ''sha256:m1'')"
  using Set_is_compare_and_set [where now = 200 and repo = "''acme/app''" and name = "''v1''" and
      d = "''sha256:m2''" and was = "''sha256:m1''" and s = sample_state]
  unfolding split_beta by blast

text \<open>
  Putting a manifest twice is putting it once, whatever the second put says it holds: what
  is recorded under a digest does not change until it is deleted.
\<close>

theorem Put_once:
  "(case manifests_Put now repo m hs s of (_, s1) \<Rightarrow>
     man s1 repo (im_Digest m) \<noteq> None \<and>
     (\<forall>now' m' hs'. im_Digest m' = im_Digest m \<longrightarrow> manifests_Put now' repo m' hs' s1 = (Inr (), s1)))"
proof -
  have "man (snd (manifests_Put now repo m hs s)) repo (im_Digest m) \<noteq> None"
  proof (cases "man s repo (im_Digest m)")
    case None
    then show ?thesis by (auto simp: manifests_Put_def Let_def) (simp_all add: man_def)
  qed (simp add: manifests_Put_def)
  then show ?thesis by (auto simp: manifests_Put_def split: prod.splits)
qed

lemma Put_once_witness:
  "(case manifests_Put 1 ''r'' (sample_m ''d'') [''b''] newState of (_, s1) \<Rightarrow>
     man s1 ''r'' (im_Digest (sample_m ''d'')) \<noteq> None \<and>
     (\<forall>now' m' hs'. im_Digest m' = im_Digest (sample_m ''d'') \<longrightarrow> manifests_Put now' ''r'' m' hs' s1 = (Inr (), s1)))"
  by (rule Put_once)

text \<open>
  C31: a transaction is all or nothing, and gives its lock up.  Whatever the function inside it
  does through the transaction's view, afterwards everybody sees either what was there before,
  and an error, or what the function left, and its answer; and the locks held are those held
  before, however it ended.
\<close>

theorem Tx_all_or_nothing:
  assumes "mem_good v" and "\<not> mem_intx v"
    and fn: "\<And>v1 r v2. mem_good v1 \<Longrightarrow> mem_intx v1 \<Longrightarrow> fn v1 = (r, v2) \<Longrightarrow>
      mem_good v2 \<and> mem_intx v2 \<and> vw_ix v2 = vw_ix v1"
    and "ix_tx mem_ops repo fn v = (r, v')"
  shows "mem_good v' \<and> \<not> mem_intx v' \<and> mi_locked (vw_ix v') = mi_locked (vw_ix v) \<and>
    (\<not> is_ok r \<and> mem_seen v' = mem_seen v \<or>
     is_ok r \<and> (\<exists>v1 v2. mem_seen v1 = mem_seen v \<and> fn v1 = (r, v2) \<and> mem_seen v' = mem_seen v2))"
proof -
  obtain b v1 where b: "tx_begin repo v = (b, v1)" by force
  from begin_ok [OF assms(1,2) b] have v1: "mem_good v1" "mem_outer v1 = mem_outer v"
    "mem_seen v1 = mem_seen v" "mem_intx v1 = is_ok b" by auto
  have lk: "mi_locked (vw_ix v1) = (if is_ok b \<and> repo \<noteq> '''' then repo # mi_locked (vw_ix v) else mi_locked (vw_ix v))"
    using b assms(2)
    by (auto simp: tx_begin_def mem_intx_def view_Lock_def release_lock_def split: prod.splits sum.splits if_splits
        dest!: acquire_same)
  have so: "mem_seen v = mem_outer v" using assms(1,2) by (rule mem.seen_outer)
  have leave: "mi_locked (vw_ix (tx_leave repo w)) =
      (if repo = '''' then mi_locked (vw_ix w) else remove1 repo (mi_locked (vw_ix w)))" for w
    by (simp add: tx_leave_def release_lock_def)
  have tx: "(case b of Inl e \<Rightarrow> (Inl e, v1) | Inr _ \<Rightarrow>
      (case fn v1 of (Inl e, w2) \<Rightarrow> (Inl e, tx_abort repo w2)
       | (Inr x, w2) \<Rightarrow> (case tx_commit repo w2 of (Inl e, x3) \<Rightarrow> (Inl e, x3) | (Inr _, x3) \<Rightarrow> (Inr x, x3)))) = (r, v')"
    using assms(4) b unfolding ix_tx_def Tx_def mem_ops_sel by simp
  show ?thesis
  proof (cases b)
    case (Inl e)
    with tx v1 lk so show ?thesis by (auto simp: mem.seen_outer)
  next
    case (Inr u)
    obtain r2 w2 where f: "fn v1 = (r2, w2)" by force
    have i1: "mem_intx v1" using v1 Inr by simp
    note w2 = fn [OF v1(1) i1 f]
    then obtain c where c: "vw_s w2 = Some c" "vw_depth w2 = 0" by (auto simp: mem_intx_def mem_good_def)
    show ?thesis
    proof (cases r2)
      case r2: (Inl e)
      with tx Inr f have v': "r = Inl e" "v' = tx_abort repo w2" by auto
      have "mem_outer w2 = mem_outer v" using w2 v1 by (simp add: mem_outer_def)
      moreover have "mi_locked (vw_ix v') = mi_locked (vw_ix v)"
        using v' c lk w2 Inr by (auto simp: tx_abort_def leave)
      ultimately show ?thesis
        using abort_ok [of w2 repo] w2 v' so mem.seen_outer by auto
    next
      case r2: (Inr x)
      obtain r3 x3 where k: "tx_commit repo w2 = (r3, x3)" by force
      with c have k': "r3 = Inr ()" "x3 = tx_leave repo (w2\<lparr>vw_ix := (vw_ix w2)\<lparr>mi_s := c\<rparr>\<rparr>)"
        by (auto simp: tx_commit_def)
      with tx Inr f r2 k have v': "r = Inr x" "v' = x3" by auto
      have "mi_locked (vw_ix v') = mi_locked (vw_ix v)"
        using v' k' lk w2 Inr by (auto simp: leave)
      then show ?thesis
        using commit_ok [of w2 repo, OF _ _ k] w2 v' k' f r2 v1 mem.seen_outer by fastforce
    qed
  qed
qed

lemma Tx_all_or_nothing_witness:
  "\<exists>r v'. ix_tx mem_ops ''acme/app'' (ix_tag_erase mem_ops ''acme/app'' ''v1'') sample_index = (r, v') \<and>
     mem_good v' \<and> mi_locked (vw_ix v') = mi_locked (vw_ix sample_index)"
proof -
  obtain r v' where t: "ix_tx mem_ops ''acme/app'' (ix_tag_erase mem_ops ''acme/app'' ''v1'') sample_index = (r, v')"
    by force
  have fn: "mem_good v2 \<and> mem_intx v2 \<and> vw_ix v2 = vw_ix v1"
    if "mem_good v1" "mem_intx v1" "ix_tag_erase mem_ops ''acme/app'' ''v1'' v1 = (r, v2)" for v1 r v2
    using mem.opD [OF mem.tag_erase_law that(1,3)] that(2,3)
    by (auto simp: mem_ops_sel view_do_def mem_intx_def split: prod.splits)
  have "mem_good v' \<and> mi_locked (vw_ix v') = mi_locked (vw_ix sample_index)"
    using Tx_all_or_nothing [OF sample_index_good _ t] fn by blast
  with t show ?thesis by blast
qed

text \<open>
  Reading the repositories page by page, pages of any size, comes to an end and answers every
  name there is, each once and in order, or the error of a page.
\<close>

theorem pages_read_everything:
  assumes "mem_good v" and "0 < n" and "ro_repos (mem_seen v) '''' = None"
  shows "\<exists>r v'. read_pages n (ix_repo_list mem_ops) (\<lambda>m. m) '''' [] v = Some (r, v') \<and>
    (case r of Inl e \<Rightarrow> True
     | Inr ns \<Rightarrow> sorted_wrt (<) ns \<and> set ns = {m. ro_repos (mem_seen v) m \<noteq> None})"
proof -
  have "\<forall>a \<in> {m. ro_repos (mem_seen v) m \<noteq> None}. a \<noteq> ''''" using assms(3) by auto
  from repo_pages.read_pages_all [OF assms(2,1) disjI2 [OF this], of "''''" "[]"] show ?thesis
    by (fastforce split: sum.splits)
qed

lemma pages_read_everything_witness:
  "\<exists>r v'. read_pages 1 (ix_repo_list mem_ops) (\<lambda>m. m) '''' [] sample_index = Some (r, v') \<and>
    (case r of Inl e \<Rightarrow> True
     | Inr ns \<Rightarrow> sorted_wrt (<) ns \<and> set ns = {m. ro_repos (mem_seen sample_index) m \<noteq> None})"
proof (rule pages_read_everything)
  have "map_of (st_repos (mi_s (vw_ix sample_index))) '''' = None" by code_simp
  then show "ro_repos (mem_seen sample_index) '''' = None"
    using sample_index_good(2) by (simp add: mem_seen_def mem_intx_def)
qed simp_all

text \<open>
  The scan that discovers orphans ends, and misses none.  Started afresh on a repository, it
  returns; and when it reports no error, every subject that some manifest of the repository
  refers to and that is not there is on the work list.
\<close>

theorem seed_all_records_every_orphan:
  assumes "mem_good (w_ix w)" and "\<not> mem_intx (w_ix w)"
    and "map_of (st_scans (mi_s (vw_ix (w_ix w)))) repo = None" and "man (mi_s (vw_ix (w_ix w))) repo '''' = None"
  shows "\<exists>err w'. seed_all mem_ops repo w = Some (err, w') \<and>
    (err = None \<longrightarrow> {x. \<exists>d. dangling (mi_s (vw_ix (w_ix w'))) repo d x} \<subseteq> {x. recorded (mi_s (vw_ix (w_ix w'))) repo x})"
proof -
  have "scan_of (mi_s (vw_ix (w_ix w))) repo = \<lparr>sc_cursor = '''', sc_complete = False\<rparr>"
    using assms(3) by (simp add: scan_of_def)
  moreover have "seeded_to (mi_s (vw_ix (w_ix w))) repo ''''"
    using assms(4) by (auto simp: seeded_to_def dangling_def)
  ultimately show ?thesis using seed_all_scans [of w repo] assms(1,2) by fastforce
qed

lemma seed_all_records_every_orphan_witness:
  "\<exists>err w'. seed_all mem_ops ''acme/app'' sample_world = Some (err, w') \<and>
    (err = None \<longrightarrow> {x. \<exists>d. dangling (mi_s (vw_ix (w_ix w'))) ''acme/app'' d x} \<subseteq>
       {x. recorded (mi_s (vw_ix (w_ix w'))) ''acme/app'' x})"
proof (rule seed_all_records_every_orphan)
  have "map_of (st_scans (mi_s (vw_ix sample_index))) ''acme/app'' = None" by code_simp
  then show "map_of (st_scans (mi_s (vw_ix (w_ix sample_world)))) ''acme/app'' = None" by (simp add: sample_world_def)
  have "man (mi_s (vw_ix sample_index)) ''acme/app'' '''' = None" by code_simp
  then show "man (mi_s (vw_ix (w_ix sample_world))) ''acme/app'' '''' = None" by (simp add: sample_world_def)
qed (simp_all add: sample_world_def)

section \<open>Against the specification of the index\<close>


end
