(* ===== verification/Gc_Sweep.thy ===== *)
theory Gc_Sweep
  imports Gc_Collect
begin

text \<open>
  The mark-and-sweep of the collector (\<open>gc/sweep.go\<close>): \<open>Sweep\<close> of one repository and \<open>Full\<close>,
  the collection that runs online and then sweeps every repository.

  A sweep walks the store and reads the marks without the lock, and holds the lock a chunk at a
  time, so whatever others do in between is a function \<open>others i\<close> on the world: after the walk
  for \<open>0\<close>, and before the lock of the \<open>i\<close>-th chunk is taken for \<open>i \<ge> 1\<close>.
\<close>

section \<open>One repository\<close>

record sweep_report =
  sw_Blobs :: nat
  sw_Bytes :: int
  sw_Missing :: "digest list"

definition no_sweep :: sweep_report where
  "no_sweep = \<lparr>sw_Blobs = 0, sw_Bytes = 0, sw_Missing = []\<rparr>"

definition sweepChunk :: nat where
  "sweepChunk = 100"

definition Hour :: duration where
  "Hour = 3600000000000"

definition missingSlack :: duration where
  "missingSlack = 60000000000"

definition delay :: "gc_config \<Rightarrow> duration" where
  "delay c = (if c_Delay c = 0 then Hour else c_Delay c)"

definition leave :: "'f store_ops \<Rightarrow> gc_config \<Rightarrow> string \<Rightarrow> digest \<Rightarrow> time \<Rightarrow> ('f, bool) op" where
  "leave fl c repo d started f =
     (if c_Delay c < 0 then (Inr False, f)
      else
        (case fl_added fl repo d f of
           (Inl e, f1) \<Rightarrow>
             if errors_is e (Flob NotExist) then (Inr True, f1)
             else if errors_is e NotSupported then (Inr False, f1)
             else (Inl e, f1)
         | (Inr added, f1) \<Rightarrow> (Inr (\<not> added < started - delay c), f1)))"

text \<open>What the store has to say of a chunk, before the lock: the blobs to let go, with their sizes.\<close>

fun doomed_of :: "'f store_ops \<Rightarrow> gc_config \<Rightarrow> string \<Rightarrow> time \<Rightarrow> digest list \<Rightarrow> ('f, (digest \<times> int) list) op" where
  "doomed_of fl c repo started [] f = (Inr [], f)"
| "doomed_of fl c repo started (d # ds) f =
     (case leave fl c repo d started f of
        (Inl e, f1) \<Rightarrow> (Inl e, f1)
      | (Inr True, f1) \<Rightarrow> doomed_of fl c repo started ds f1
      | (Inr False, f1) \<Rightarrow>
          (case fl_size fl repo d f1 of
             (Inl e, f2) \<Rightarrow>
               if errors_is e (Flob NotExist) then doomed_of fl c repo started ds f2 else (Inl e, f2)
           | (Inr sz, f2) \<Rightarrow>
               (case doomed_of fl c repo started ds f2 of
                  (Inl e, f3) \<Rightarrow> (Inl e, f3)
                | (Inr rest, f3) \<Rightarrow> (Inr ((d, sz) # rest), f3))))"

text \<open>The loop under the lock.\<close>

fun erase_each :: "'x index_ops \<Rightarrow> 'f store_ops \<Rightarrow> string \<Rightarrow> (digest \<times> int) list \<Rightarrow> nat \<Rightarrow> int \<Rightarrow>
    ('x, 'f) world \<Rightarrow> (nat \<times> int \<times> error option) \<times> ('x, 'f) world" where
  "erase_each ix fl repo [] n bytes w = ((n, bytes, None), w)"
| "erase_each ix fl repo (v # vs) n bytes w =
     (case on_ix (ix_holds ix repo (fst v)) w of
        (Inl e, w1) \<Rightarrow> ((n, bytes, Some e), w1)
      | (Inr h, w1) \<Rightarrow>
          if h then erase_each ix fl repo vs n bytes w1
          else
            (case on_ix (ix_get ix repo (fst v)) w1 of
               (Inr m, w2) \<Rightarrow> erase_each ix fl repo vs n bytes w2
             | (Inl e, w2) \<Rightarrow>
                 if \<not> errors_is e ErrNotFound then ((n, bytes, Some e), w2)
                 else
                   (case on_fl (fl_erase fl repo (fst v)) w2 of
                      (Inl e, w3) \<Rightarrow> ((n, bytes, Some e), w3)
                    | (Inr _, w3) \<Rightarrow> erase_each ix fl repo vs (Suc n) (bytes + snd v) w3)))"

definition sweep_erase :: "'x index_ops \<Rightarrow> 'f store_ops \<Rightarrow> gc_config \<Rightarrow> (('x, 'f) world \<Rightarrow> ('x, 'f) world) \<Rightarrow>
    string \<Rightarrow> digest list \<Rightarrow> time \<Rightarrow> ('x, 'f) world \<Rightarrow> (nat \<times> int \<times> error option) \<times> ('x, 'f) world" where
  "sweep_erase ix fl c other repo chunk started w =
     (case on_fl (doomed_of fl c repo started chunk) w of
        (Inl e, w1) \<Rightarrow> ((0, 0, Some e), w1)
      | (Inr ds, w1) \<Rightarrow>
          if ds = [] then ((0, 0, None), w1)
          else
            (case on_ix (ix_lock ix repo) (other w1) of
               (Inl e, w2) \<Rightarrow> ((0, 0, Some e), w2)
             | (Inr _, w2) \<Rightarrow>
                 (case erase_each ix fl repo ds 0 0 w2 of
                    (r, w3) \<Rightarrow> (r, w3\<lparr>w_ix := ix_unlock ix repo (w_ix w3)\<rparr>))))"

fun sweep_chunks :: "'x index_ops \<Rightarrow> 'f store_ops \<Rightarrow> gc_config \<Rightarrow> (nat \<Rightarrow> ('x, 'f) world \<Rightarrow> ('x, 'f) world) \<Rightarrow>
    string \<Rightarrow> time \<Rightarrow> nat \<Rightarrow> digest list list \<Rightarrow> sweep_report \<Rightarrow> ('x, 'f) world \<Rightarrow>
    (sweep_report \<times> error option) \<times> ('x, 'f) world" where
  "sweep_chunks ix fl c others repo started i [] r w = ((r, None), w)"
| "sweep_chunks ix fl c others repo started i (ch # chs) r w =
     (case sweep_erase ix fl c (others i) repo ch started w of
        ((n, bytes, err), w1) \<Rightarrow>
          (let r1 = r\<lparr>sw_Blobs := sw_Blobs r + n, sw_Bytes := sw_Bytes r + bytes\<rparr> in
           case err of
             Some e \<Rightarrow> ((r1, Some e), w1)
           | None \<Rightarrow> sweep_chunks ix fl c others repo started (Suc i) chs r1 w1))"

text \<open>The manifests of the index that the walk did not see, and that were there well before it.\<close>

partial_function (option) missing_loop ::
  "'x index_ops \<Rightarrow> string \<Rightarrow> digest list \<Rightarrow> time \<Rightarrow> string \<Rightarrow> digest list \<Rightarrow> 'x \<Rightarrow>
   ((digest list \<times> error option) \<times> 'x) option" where
  "missing_loop ix repo present before after acc x =
     (case ix_list ix repo \<lparr>pg_Last = after, pg_N = 500\<rparr> x of
        (Inl e, x1) \<Rightarrow> Some ((acc, Some e), x1)
      | (Inr ms, x1) \<Rightarrow>
          (let acc1 = acc @ map im_Digest (filter (\<lambda>m. im_Digest m \<notin> set present \<and> im_CreatedAt m < before) ms) in
           if length ms < 500 then Some ((acc1, None), x1)
           else missing_loop ix repo present before (im_Digest (last ms)) acc1 x1))"

definition unmarked :: "digest list \<Rightarrow> digest list \<Rightarrow> digest list" where
  "unmarked present marks = sort (filter (\<lambda>d. d \<notin> set marks) (remdups present))"

definition Sweep :: "'x index_ops \<Rightarrow> 'f store_ops \<Rightarrow> gc_config \<Rightarrow> (nat \<Rightarrow> ('x, 'f) world \<Rightarrow> ('x, 'f) world) \<Rightarrow>
    string \<Rightarrow> ('x, 'f) world \<Rightarrow> ((sweep_report \<times> error option) \<times> ('x, 'f) world) option" where
  "Sweep ix fl c others repo w =
     (if \<not> fl_walker fl repo then
        Some ((no_sweep, Some (Other (repo @ '': the store cannot be walked''))), w)
      else
        (case on_fl (fl_walk fl repo) w of
           (Inl e, w1) \<Rightarrow> Some ((no_sweep, Some e), w1)
         | (Inr present, w1) \<Rightarrow>
             (case on_ix (ix_marks ix repo) (others 0 w1) of
                (Inl e, w2) \<Rightarrow> Some ((no_sweep, Some e), w2)
              | (Inr marks, w2) \<Rightarrow>
                  (case sweep_chunks ix fl c others repo (c_Now c) 1
                      (chunks sweepChunk (unmarked present marks)) no_sweep w2 of
                     ((r, Some e), w3) \<Rightarrow> Some ((r, Some e), w3)
                   | ((r, None), w3) \<Rightarrow>
                       (case missing_loop ix repo present (c_Now c - missingSlack) '''' [] (w_ix w3) of
                          None \<Rightarrow> None
                        | Some ((ms, err), x4) \<Rightarrow> Some ((r\<lparr>sw_Missing := ms\<rparr>, err), w3\<lparr>w_ix := x4\<rparr>))))))"

section \<open>Everything\<close>

record full_report =
  fr_Report :: report
  fr_Repositories :: nat
  fr_Blobs :: nat
  fr_Bytes :: int
  fr_Missing :: "string list"

definition no_full :: full_report where
  "no_full = \<lparr>fr_Report = no_report, fr_Repositories = 0, fr_Blobs = 0, fr_Bytes = 0, fr_Missing = []\<rparr>"

definition repositories :: "'x index_ops \<Rightarrow> 'f store_ops \<Rightarrow> ('x, 'f) world \<Rightarrow>
    ((error + string list) \<times> ('x, 'f) world) option" where
  "repositories ix fl w =
     (case (if fl_namespacer fl then on_fl (fl_namespaces fl) w else (Inr [], w)) of
        (Inl e, w1) \<Rightarrow> Some (Inl e, w1)
      | (Inr nss, w1) \<Rightarrow>
          (case read_pages 500 (ix_repo_list ix) (\<lambda>m. m) '''' [] (w_ix w1) of
             None \<Rightarrow> None
           | Some (Inl e, x2) \<Rightarrow> Some (Inl e, w1\<lparr>w_ix := x2\<rparr>)
           | Some (Inr names, x2) \<Rightarrow> Some (Inr (sort (remdups (nss @ names))), w1\<lparr>w_ix := x2\<rparr>)))"

text \<open>\<open>Full\<close>'s function that sweeps one repository and adds it to the report.\<close>

definition sweep_into :: "'x index_ops \<Rightarrow> 'f store_ops \<Rightarrow> gc_config \<Rightarrow> (nat \<Rightarrow> ('x, 'f) world \<Rightarrow> ('x, 'f) world) \<Rightarrow>
    string \<Rightarrow> full_report \<Rightarrow> ('x, 'f) world \<Rightarrow> ((full_report \<times> error option) \<times> ('x, 'f) world) option" where
  "sweep_into ix fl c others name r w =
     (case Sweep ix fl c others name w of
        None \<Rightarrow> None
      | Some ((sr, Some e), w1) \<Rightarrow> Some ((r, Some e), w1)
      | Some ((sr, None), w1) \<Rightarrow>
          Some ((r\<lparr>fr_Repositories := fr_Repositories r + 1,
                   fr_Blobs := fr_Blobs r + sw_Blobs sr,
                   fr_Bytes := fr_Bytes r + sw_Bytes sr,
                   fr_Missing := fr_Missing r @ map (\<lambda>d. name @ ''@'' @ d) (sw_Missing sr)\<rparr>, None), w1))"

text \<open>
  The first pass, which puts the repositories whose lock was not free aside; \<open>Inl\<close> is the
  work's context having ended.  \<open>others k\<close> is what others do during the \<open>k\<close>-th sweep.
\<close>

fun full_pass :: "'x index_ops \<Rightarrow> 'f store_ops \<Rightarrow> gc_config \<Rightarrow> (nat \<Rightarrow> nat \<Rightarrow> ('x, 'f) world \<Rightarrow> ('x, 'f) world) \<Rightarrow>
    nat \<Rightarrow> string list \<Rightarrow> string list \<Rightarrow> full_report \<Rightarrow> error list \<Rightarrow> ('x, 'f) world \<Rightarrow>
    (((full_report \<times> error list) + (full_report \<times> error list \<times> string list)) \<times> ('x, 'f) world) option" where
  "full_pass ix fl c others k [] busy r errs w = Some (Inr (r, errs, busy), w)"
| "full_pass ix fl c others k (name # names) busy r errs w =
     (case ctx_err w of
        (Some e, w0) \<Rightarrow> Some (Inl (r, errs @ [e]), w0)
      | (None, w0) \<Rightarrow>
          (case sweep_into ix fl c (others k) name r w0 of
             None \<Rightarrow> None
           | Some ((r1, None), w1) \<Rightarrow> full_pass ix fl c others (Suc k) names busy r1 errs w1
           | Some ((r1, Some e), w1) \<Rightarrow>
               if errors_is e ErrBusy then full_pass ix fl c others (Suc k) names (busy @ [name]) r1 errs w1
               else full_pass ix fl c others (Suc k) names busy r1 (errs @ [Wrapped (name @ '': '') e]) w1))"

fun full_retry :: "'x index_ops \<Rightarrow> 'f store_ops \<Rightarrow> gc_config \<Rightarrow> (nat \<Rightarrow> nat \<Rightarrow> ('x, 'f) world \<Rightarrow> ('x, 'f) world) \<Rightarrow>
    nat \<Rightarrow> string list \<Rightarrow> full_report \<Rightarrow> error list \<Rightarrow> ('x, 'f) world \<Rightarrow>
    ((full_report \<times> error list) \<times> ('x, 'f) world) option" where
  "full_retry ix fl c others k [] r errs w = Some ((r, errs), w)"
| "full_retry ix fl c others k (name # names) r errs w =
     (case sweep_into ix fl c (others k) name r w of
        None \<Rightarrow> None
      | Some ((r1, None), w1) \<Rightarrow> full_retry ix fl c others (Suc k) names r1 errs w1
      | Some ((r1, Some e), w1) \<Rightarrow>
          full_retry ix fl c others (Suc k) names r1 (errs @ [Wrapped (name @ '': '') e]) w1)"

definition Full :: "'x index_ops \<Rightarrow> 'f store_ops \<Rightarrow> gc_config \<Rightarrow> (nat \<Rightarrow> nat \<Rightarrow> ('x, 'f) world \<Rightarrow> ('x, 'f) world) \<Rightarrow>
    ('x, 'f) world \<Rightarrow> ((full_report \<times> error option) \<times> ('x, 'f) world) option" where
  "Full ix fl c others w =
     (case gc_Run ix fl c w of
        None \<Rightarrow> None
      | Some ((online, err), w1) \<Rightarrow>
          (let r = no_full\<lparr>fr_Report := online\<rparr>; errs = opt_list err in
           case repositories ix fl w1 of
             None \<Rightarrow> None
           | Some (Inl e, w2) \<Rightarrow> Some ((r, join_errs (errs @ [e])), w2)
           | Some (Inr names, w2) \<Rightarrow>
               (case full_pass ix fl c others 0 names [] r errs w2 of
                  None \<Rightarrow> None
                | Some (Inl (r1, errs1), w3) \<Rightarrow> Some ((r1, join_errs errs1), w3)
                | Some (Inr (r1, errs1, busy), w3) \<Rightarrow>
                    (case full_retry ix fl c others (length names) busy r1 errs1 w3 of
                       None \<Rightarrow> None
                     | Some ((r2, errs2), w4) \<Rightarrow> Some ((r2, join_errs errs2), w4)))))"


section \<open>What the store promises a sweep\<close>

text \<open>
  When a blob entered its repository, for a store that knows: asking for it, for a size or for
  what is there changes nothing, an erase is about one blob, and a blob that is there is not
  reported as missing.
\<close>

definition dated :: "'f store_ops \<Rightarrow> ('f \<Rightarrow> string \<Rightarrow> digest \<Rightarrow> string option) \<Rightarrow>
    ('f \<Rightarrow> string \<Rightarrow> digest \<Rightarrow> time option) \<Rightarrow> bool" where
  "dated fl has since =
     (\<forall>repo d f f'.
        (\<forall>r. fl_added fl repo d f = (r, f') \<longrightarrow> has f' = has f \<and> since f' = since f \<and>
          (case r of Inr t \<Rightarrow> since f repo d = Some t
           | Inl e \<Rightarrow> (errors_is e (Flob NotExist) \<longrightarrow> has f repo d = None) \<and>
               (errors_is e NotSupported \<longrightarrow> since f repo d = None))) \<and>
        (\<forall>r. fl_size fl repo d f = (r, f') \<longrightarrow> has f' = has f \<and> since f' = since f \<and>
          (\<forall>e. r = Inl e \<longrightarrow> errors_is e (Flob NotExist) \<longrightarrow> has f repo d = None)) \<and>
        (\<forall>r. fl_erase fl repo d f = (r, f') \<longrightarrow>
          (\<forall>repo' d'. (repo', d') \<noteq> (repo, d) \<longrightarrow> since f' repo' d' = since f repo' d')) \<and>
        (\<forall>r. fl_walk fl repo f = (r, f') \<longrightarrow> since f' = since f))"

lemma sample_dated: "dated sample_store sample_has (\<lambda>f repo d. None)"
  by (auto simp: dated_def sample_store_def split: option.splits)

text \<open>A blob the sweep does not leave alone: old enough, or of an age the store does not know.\<close>

definition sweepable :: "gc_config \<Rightarrow> time option \<Rightarrow> bool" where
  "sweepable c t = (c_Delay c < 0 \<or> (case t of None \<Rightarrow> True | Some t \<Rightarrow> t < c_Now c - delay c))"

definition gone :: "('f \<Rightarrow> string \<Rightarrow> digest \<Rightarrow> string option) \<Rightarrow> string \<Rightarrow> 'f \<Rightarrow> 'f \<Rightarrow> digest set" where
  "gone has repo f f' = {d. has f repo d \<noteq> None \<and> has f' repo d = None}"

lemma gone_refl [simp]: "gone has repo f f = {}"
  by (auto simp: gone_def)

lemma gone_trans:
  assumes "keeps has v repo f f1" "keeps has v repo f1 f2"
  shows "gone has repo f f2 = gone has repo f f1 \<union> gone has repo f1 f2" "gone has repo f f1 \<inter> gone has repo f1 f2 = {}"
proof -
  have "has f1 repo d = None \<or> has f1 repo d = has f repo d" "has f2 repo d = None \<or> has f2 repo d = has f1 repo d" for d
    using assms unfolding keeps_def by blast+
  then show "gone has repo f f2 = gone has repo f f1 \<union> gone has repo f1 f2" "gone has repo f f1 \<inter> gone has repo f1 f2 = {}"
    unfolding gone_def by (auto, (metis option.distinct(1))+)
qed

section \<open>A chunk\<close>

lemma doomed_of_ok:
  assumes dt: "dated fl has since"
  shows "doomed_of fl c repo (c_Now c) ds f = (r, f') \<Longrightarrow>
    has f' = has f \<and> since f' = since f \<and>
    (\<forall>vs. r = Inr vs \<longrightarrow> set (map fst vs) \<subseteq> {d \<in> set ds. sweepable c (since f repo d)} \<and>
      {d \<in> set ds. sweepable c (since f repo d) \<and> has f repo d \<noteq> None} \<subseteq> set (map fst vs) \<and>
      (distinct ds \<longrightarrow> distinct (map fst vs)))"
proof (induction ds arbitrary: f r f')
  case (Cons d ds)
  obtain l f1 where l: "leave fl c repo d (c_Now c) f = (l, f1)" by force
  have l1: "has f1 = has f" "since f1 = since f"
    "l = Inr True \<Longrightarrow> \<not> sweepable c (since f repo d) \<or> has f repo d = None"
    "l = Inr False \<Longrightarrow> sweepable c (since f repo d)"
    using l dt unfolding dated_def leave_def sweepable_def
    by (auto split: if_splits prod.splits sum.splits option.splits; blast)+
  obtain z f2 where z: "fl_size fl repo d f1 = (z, f2)" by force
  have z1: "has f2 = has f" "since f2 = since f"
    "\<And>e. z = Inl e \<Longrightarrow> errors_is e (Flob NotExist) \<Longrightarrow> has f repo d = None"
    using z dt l1(1,2) unfolding dated_def by metis+
  consider (err) e where "l = Inl e" | (left) "l = Inr True"
    | (err2) e where "l = Inr False" "z = Inl e" "\<not> errors_is e (Flob NotExist)"
    | (gone) e where "l = Inr False" "z = Inl e" "errors_is e (Flob NotExist)"
    | (there) n where "l = Inr False" "z = Inr n"
    by (cases l; cases z; auto)
  then show ?case
  proof cases
    case err
    with Cons.prems l l1 show ?thesis by auto
  next
    case left
    with Cons.prems l have "doomed_of fl c repo (c_Now c) ds f1 = (r, f')" by simp
    from Cons.IH [OF this] l1 left show ?thesis by (auto simp del: set_map)
  next
    case err2
    with Cons.prems l z z1 show ?thesis by (auto simp del: set_map)
  next
    case gone
    with Cons.prems l z have "doomed_of fl c repo (c_Now c) ds f2 = (r, f')" by simp
    from Cons.IH [OF this] z1 gone show ?thesis by (auto simp del: set_map)
  next
    case there
    obtain rest f3 where d: "doomed_of fl c repo (c_Now c) ds f2 = (rest, f3)" by force
    from Cons.IH [OF d] have ih: "has f3 = has f" "since f3 = since f"
      "\<And>vs. rest = Inr vs \<Longrightarrow> set (map fst vs) \<subseteq> {d \<in> set ds. sweepable c (since f repo d)} \<and>
        {d \<in> set ds. sweepable c (since f repo d) \<and> has f repo d \<noteq> None} \<subseteq> set (map fst vs) \<and>
        (distinct ds \<longrightarrow> distinct (map fst vs))"
      using z1 by auto
    from Cons.prems l z there d show ?thesis
      using ih l1(4) by (cases rest) (auto simp del: set_map simp: list.set_map [symmetric])
  qed
qed simp

text \<open>The loop under the lock is the one of \<open>Release\<close>, with a count.\<close>

lemma erase_each_release:
  "erase_each ix fl repo vs n b w = ((n', b', err), w') \<Longrightarrow>
   release_each ix fl repo (map fst vs) w = ((case err of None \<Rightarrow> Inr () | Some e \<Rightarrow> Inl e), w')"
  by (induction vs arbitrary: n b w) (auto split: prod.splits sum.splits if_splits)

lemma sweep_erase_Release:
  assumes "sweep_erase ix fl c other repo ch started w = ((n, b, err), w')"
  obtains e where "on_fl (doomed_of fl c repo started ch) w = (Inl e, w')" "err = Some e" "n = 0"
  | "on_fl (doomed_of fl c repo started ch) w = (Inr [], w')" "err = None" "n = 0"
  | vs w1 where "on_fl (doomed_of fl c repo started ch) w = (Inr vs, w1)" "vs \<noteq> []"
      "Release ix fl repo (map fst vs) (other w1) = ((case err of None \<Rightarrow> Inr () | Some e \<Rightarrow> Inl e), w')"
proof -
  obtain r w1 where d: "on_fl (doomed_of fl c repo started ch) w = (r, w1)" by force
  show thesis
  proof (cases r)
    case (Inl e)
    with d assms that(1) show thesis by (auto simp: sweep_erase_def)
  next
    case (Inr vs)
    show thesis
    proof (cases "vs = []")
      case True
      with d Inr assms that(2) show thesis by (auto simp: sweep_erase_def)
    next
      case False
      obtain l w2 where l: "on_ix (ix_lock ix repo) (other w1) = (l, w2)" by force
      have "Release ix fl repo (map fst vs) (other w1) = ((case err of None \<Rightarrow> Inr () | Some e \<Rightarrow> Inl e), w')"
      proof (cases l)
        case (Inl e)
        with d Inr False l assms show ?thesis by (auto simp: sweep_erase_def Release_def)
      next
        case l': (Inr u)
        obtain n2 b2 e2 w3 where e: "erase_each ix fl repo vs 0 0 w2 = ((n2, b2, e2), w3)" by (metis prod.exhaust)
        with d Inr False l l' assms erase_each_release [OF e] show ?thesis
          by (auto simp: sweep_erase_def Release_def)
      qed
      then show thesis using that(3) d Inr False by blast
    qed
  qed
qed

section \<open>No reference is broken\<close>

text \<open>
  Everything the index refers to is in the store.  It is what the collector must keep, and what
  it relies on others to keep in between.
\<close>

definition whole :: "('f \<Rightarrow> string \<Rightarrow> digest \<Rightarrow> string option) \<Rightarrow> rows \<Rightarrow> 'f \<Rightarrow> bool" where
  "whole has v f = (\<forall>repo d. referenced v repo d \<longrightarrow> has f repo d \<noteq> None)"

definition calm :: "('f \<Rightarrow> string \<Rightarrow> digest \<Rightarrow> string option) \<Rightarrow> (view, 'f) world \<Rightarrow> bool" where
  "calm has w = (mem_good (w_ix w) \<and> \<not> mem_intx (w_ix w) \<and> whole has (mem_seen (w_ix w)) (w_fl w))"

lemma whole_keeps: "whole has v f \<Longrightarrow> keeps has v repo f f' \<Longrightarrow> whole has v f'"
  unfolding whole_def keeps_def by metis

lemma whole_shrinks:
  "whole has v f \<Longrightarrow> (\<And>repo d. referenced v' repo d \<Longrightarrow> referenced v repo d) \<Longrightarrow> whole has v' f"
  by (auto simp: whole_def)

lemma whole_same: "has f' = has f \<Longrightarrow> whole has v f' = whole has v f"
  by (simp add: whole_def)

lemma Release_calm:
  assumes "erase_ok fl has" "calm has w" "Release mem_ops fl repo ds w = (r, w')"
  shows "calm has w' \<and> mem_seen (w_ix w') = mem_seen (w_ix w)"
  using mem.Release_keeps [OF assms(1) _ _ assms(3)] assms(2) whole_keeps by (auto simp: calm_def)

text \<open>Reads of the store.\<close>

definition asks_nothing :: "'f store_ops \<Rightarrow> ('f \<Rightarrow> string \<Rightarrow> digest \<Rightarrow> string option) \<Rightarrow> bool" where
  "asks_nothing fl has =
     ((\<forall>repo d. store_reads has (fl_added fl repo d) \<and> store_reads has (fl_size fl repo d)) \<and>
      (\<forall>repo. store_reads has (fl_walk fl repo)) \<and> store_reads has (fl_namespaces fl) \<and>
      (\<forall>f r f'. fl_prune fl f = (r, f') \<longrightarrow> has f' = has f))"

lemma sample_asks_nothing: "asks_nothing sample_store sample_has"
  by (auto simp: asks_nothing_def store_reads_def sample_store_def)

lemma doomed_of_reads:
  assumes "asks_nothing fl has"
  shows "doomed_of fl c repo started ds f = (r, f') \<Longrightarrow> has f' = has f"
proof (induction ds arbitrary: f r f')
  case (Cons d ds)
  have s: "fl_added fl repo d f = (a, f') \<Longrightarrow> has f' = has f" "fl_size fl repo d f = (z, f') \<Longrightarrow> has f' = has f" for f a z f'
    using assms unfolding asks_nothing_def store_reads_def by blast+
  then have "leave fl c repo d started f = (l, f') \<Longrightarrow> has f' = has f" for f l f'
    unfolding leave_def by (auto split: if_splits prod.splits sum.splits)
  with Cons s show ?case by (auto split: prod.splits sum.splits if_splits bool.splits; metis)
qed simp

lemma calm_reads:
  assumes "calm has w" "\<And>r f'. g (w_fl w) = (r, f') \<Longrightarrow> has f' = has (w_fl w)" "on_fl g w = (r, w')"
  shows "calm has w' \<and> mem_seen (w_ix w') = mem_seen (w_ix w)"
  using assms by (auto simp: on_fl_def calm_def whole_def split: prod.splits)

text \<open>An operation of the index that changes none of what is referred to.\<close>

lemma calm_index:
  assumes "calm has w" and "op_ok mem_good mem_seen mem_outer mem_intx Q g" and "on_ix g w = (r, w')"
    and "\<And>r v'. Q (mem_seen (w_ix w)) r v' \<Longrightarrow> (\<forall>repo d. referenced v' repo d \<longrightarrow> referenced (mem_seen (w_ix w)) repo d)"
  shows "calm has w' \<and> Q (mem_seen (w_ix w)) r (mem_seen (w_ix w'))"
proof -
  obtain x where x: "g (w_ix w) = (r, x)" "w' = w\<lparr>w_ix := x\<rparr>" using assms(3) by (rule on_ix_cases)
  from mem.opD [OF assms(2) _ x(1)] assms(1,4) x(2) show ?thesis
    unfolding calm_def whole_def by auto
qed

lemma sweep_erase_calm:
  assumes "erase_ok fl has" "asks_nothing fl has" "\<And>w. calm has w \<Longrightarrow> calm has (other w)" "calm has w"
    and e: "sweep_erase mem_ops fl c other repo ch started w = ((n, b, err), w')"
  shows "calm has w'"
  using e
proof (cases rule: sweep_erase_Release)
  case (3 vs w1)
  have "calm has w1" using calm_reads [OF assms(4) _ 3(1)] doomed_of_reads [OF assms(2)] by blast
  then show ?thesis using Release_calm [OF assms(1) assms(3)] 3(3) by blast
next
  case (1 e)
  show ?thesis using calm_reads [OF assms(4) _ 1(1)] doomed_of_reads [OF assms(2)] by blast
next
  case 2
  show ?thesis using calm_reads [OF assms(4) _ 2(1)] doomed_of_reads [OF assms(2)] by blast
qed

lemma sweep_chunks_calm:
  assumes "erase_ok fl has" "asks_nothing fl has" "\<And>i w. calm has w \<Longrightarrow> calm has (others i w)"
  shows "calm has w \<Longrightarrow> sweep_chunks mem_ops fl c others repo started i chs r w = (res, w') \<Longrightarrow> calm has w'"
proof (induction chs arbitrary: i r w)
  case (Cons ch chs)
  obtain n b err w1 where e: "sweep_erase mem_ops fl c (others i) repo ch started w = ((n, b, err), w1)"
    by (metis prod.exhaust)
  have "calm has w1" using sweep_erase_calm [OF assms(1,2,3) Cons.prems(1) e] .
  then show ?case using Cons.IH Cons.prems(2) e by (auto simp: Let_def split: option.splits)
qed simp

text \<open>The report of the missing reads the index to its end.\<close>

definition absent :: "digest list \<Rightarrow> time \<Rightarrow> imanifest list \<Rightarrow> digest list" where
  "absent present before ms = map im_Digest (filter (\<lambda>m. im_Digest m \<notin> set present \<and> im_CreatedAt m < before) ms)"

lemma missing_read:
  assumes "read_pages 500 (ix_list ix repo) im_Digest after us x = Some y"
  shows "\<exists>ms err. missing_loop ix repo present before after (absent present before us) x = Some ((ms, err), snd y) \<and>
    (\<forall>vs. fst y = Inr vs \<longrightarrow> err = None \<and> ms = absent present before vs) \<and> (\<forall>e. fst y = Inl e \<longrightarrow> err = Some e)"
proof -
  have gen: "n = 500 \<and> list = ix_list ix repo \<and> key = im_Digest \<longrightarrow>
      (\<exists>ms err. missing_loop ix repo present before after (absent present before us) x = Some ((ms, err), snd y) \<and>
      (\<forall>vs. fst y = Inr vs \<longrightarrow> err = None \<and> ms = absent present before vs) \<and> (\<forall>e. fst y = Inl e \<longrightarrow> err = Some e))"
    if "read_pages n list key after us x = Some y" for n list key after us x y
  proof (rule read_pages.raw_induct [OF _ that], intro impI)
    fix rp n list key after us x y
    assume ih: "\<And>n list key after us x y. rp n list key after us x = Some y \<Longrightarrow>
        n = 500 \<and> list = ix_list ix repo \<and> key = im_Digest \<longrightarrow>
        (\<exists>ms err. missing_loop ix repo present before after (absent present before us) x = Some ((ms, err), snd y) \<and>
        (\<forall>vs. fst y = Inr vs \<longrightarrow> err = None \<and> ms = absent present before vs) \<and> (\<forall>e. fst y = Inl e \<longrightarrow> err = Some e))"
      and eq: "(case list \<lparr>pg_Last = after, pg_N = int n\<rparr> x of
          (Inl e, w1) \<Rightarrow> Some (Inl e, w1)
        | (Inr vs, w1) \<Rightarrow> if length vs < n then Some (Inr (us @ vs), w1)
            else rp n list key (key (last vs)) (us @ vs) w1) = Some y"
      and n: "n = 500 \<and> list = ix_list ix repo \<and> key = im_Digest"
    obtain r w1 where l: "ix_list ix repo \<lparr>pg_Last = after, pg_N = 500\<rparr> x = (r, w1)" by force
    have sel: "absent present before us @ map im_Digest (filter (\<lambda>m. im_Digest m \<notin> set present \<and> im_CreatedAt m < before) vs) = absent present before (us @ vs)" for vs
      by (simp add: absent_def)
    show "\<exists>ms err. missing_loop ix repo present before after (absent present before us) x = Some ((ms, err), snd y) \<and>
        (\<forall>vs. fst y = Inr vs \<longrightarrow> err = None \<and> ms = absent present before vs) \<and> (\<forall>e. fst y = Inl e \<longrightarrow> err = Some e)"
    proof (cases r)
      case (Inl e)
      with eq n l show ?thesis by (subst missing_loop.simps) auto
    next
      case (Inr vs)
      show ?thesis
      proof (cases "length vs < 500")
        case True
        with eq n l Inr show ?thesis by (subst missing_loop.simps) (auto simp: Let_def sel)
      next
        case False
        with eq n l Inr have "rp n list key (im_Digest (last vs)) (us @ vs) w1 = Some y" by simp
        from ih [OF this] n l Inr False show ?thesis by (subst missing_loop.simps) (auto simp: Let_def sel)
      qed
    qed
  qed
  from gen [OF assms(1)] show ?thesis by simp
qed

lemma missing_loop_ok:
  assumes "mem_good x" "\<not> mem_intx x"
  shows "\<exists>ms err x'. missing_loop mem_ops repo present before '''' [] x = Some ((ms, err), x') \<and>
    mem_good x' \<and> \<not> mem_intx x' \<and> mem_seen x' = mem_seen x \<and>
    (err = None \<longrightarrow> sorted_wrt (<) ms \<and>
      set ms = {d. \<exists>en. ro_manifests (mem_seen x) repo d = Some en \<and> im_CreatedAt (en_m en) < before \<and> d \<notin> set present})"
proof -
  from manifest_pages.read_pages_all [where n = 500 and after = "''''" and acc = "[]" and repo = repo, OF _ assms(1)]
  obtain r x' where rp: "read_pages 500 (ix_list mem_ops repo) im_Digest '''' [] x = Some (r, x')"
    and all: "\<And>vs. r = Inr vs \<Longrightarrow> sorted_wrt (<) (map im_Digest vs) \<and> im_Digest ` set vs = {d. indexed (mem_seen x) repo d}"
    by auto
  let ?I = "\<lambda>y. mem_good y \<and> mem_seen y = mem_seen x \<and> mem_intx y = mem_intx x"
  have step: "?I y \<Longrightarrow> ix_list mem_ops repo p y = (s, y') \<Longrightarrow> ?I y' \<and> list_spec repo p (mem_seen x) s (mem_seen x)" for p y s y'
    using mem.opD [OF mem.list_law, of y repo p s y'] by (auto simp: list_spec_def)
  have same: "?I x'"
    using read_pages_same [OF rp, where I = mem_good and S = "\<lambda>y. (mem_seen y, mem_intx y)"]
      mem.opD [OF mem.list_law] assms by (auto simp: list_spec_def)
  let ?Q = "\<lambda>v. \<exists>e. ro_manifests (mem_seen x) repo (im_Digest v) = Some e \<and> en_m e = v"
  have q: "?I y \<Longrightarrow> ix_list mem_ops repo p y = (s, y') \<Longrightarrow> ?I y' \<and> (\<forall>vs. s = Inr vs \<longrightarrow> (\<forall>v \<in> set vs. ?Q v))" for p y s y'
    using step [of y p s y'] by (cases s) (simp_all add: list_spec_def)
  have "\<forall>vs. fst (r, x') = Inr vs \<longrightarrow> (\<forall>v \<in> set vs. ?Q v)"
  proof (rule read_pages_elems [OF rp, where I = ?I and Q = ?Q])
    show "?I x" using assms(1) by simp
  qed (rule q | simp)+
  then have el: "\<forall>v \<in> set vs. ?Q v" if "r = Inr vs" for vs using that by simp
  from missing_read [OF rp, of present before] obtain ms err where m:
    "missing_loop mem_ops repo present before '''' [] x = Some ((ms, err), x')"
    "\<And>vs. r = Inr vs \<Longrightarrow> ms = map im_Digest (filter (\<lambda>m. im_Digest m \<notin> set present \<and> im_CreatedAt m < before) vs)"
    "\<And>e. r = Inl e \<Longrightarrow> err = Some e"
    by (auto simp: absent_def)
  have "sorted_wrt (<) ms \<and>
      set ms = {d. \<exists>en. ro_manifests (mem_seen x) repo d = Some en \<and> im_CreatedAt (en_m en) < before \<and> d \<notin> set present}"
    if none: "err = None"
  proof -
    obtain vs where vs: "r = Inr vs" using m(3) none by (cases r) auto
    have srt: "sorted_wrt (<) ms"
      using all [OF vs] m(2) [OF vs] by (simp add: sorted_wrt_map sorted_wrt_filter)
    have "d \<in> set ms \<longleftrightarrow> (\<exists>en. ro_manifests (mem_seen x) repo d = Some en \<and> im_CreatedAt (en_m en) < before \<and> d \<notin> set present)" for d
    proof
      assume "d \<in> set ms"
      then show "\<exists>en. ro_manifests (mem_seen x) repo d = Some en \<and> im_CreatedAt (en_m en) < before \<and> d \<notin> set present"
        using m(2) [OF vs] el [OF vs] by auto
    next
      assume "\<exists>en. ro_manifests (mem_seen x) repo d = Some en \<and> im_CreatedAt (en_m en) < before \<and> d \<notin> set present"
      then obtain en where en: "ro_manifests (mem_seen x) repo d = Some en" "im_CreatedAt (en_m en) < before" "d \<notin> set present" by blast
      then have "d \<in> im_Digest ` set vs" using all [OF vs] by (auto simp: indexed_def)
      then obtain v where v: "v \<in> set vs" "d = im_Digest v" by blast
      with el [OF vs] en(1) have "en_m en = v" by fastforce
      with v en m(2) [OF vs] show "d \<in> set ms" by auto
    qed
    with srt show ?thesis by blast
  qed
  with m(1) same assms(2) show ?thesis by blast
qed

lemma Sweep_calm:
  assumes "erase_ok fl has" "asks_nothing fl has" "\<And>i w. calm has w \<Longrightarrow> calm has (others i w)" "calm has w"
  shows "\<exists>r err w'. Sweep mem_ops fl c others repo w = Some ((r, err), w') \<and> calm has w'"
proof (cases "fl_walker fl repo")
  case False
  with assms(4) show ?thesis by (simp add: Sweep_def)
next
  case True
  obtain p w1 where p: "on_fl (fl_walk fl repo) w = (p, w1)" by force
  have w1: "calm has w1"
    using calm_reads [OF assms(4) _ p] assms(2) unfolding asks_nothing_def store_reads_def by blast
  show ?thesis
  proof (cases p)
    case (Inl e)
    with True p w1 show ?thesis by (simp add: Sweep_def)
  next
    case p': (Inr present)
    obtain m w2 where m: "on_ix (ix_marks mem_ops repo) (others 0 w1) = (m, w2)" by force
    have w2: "calm has w2"
      using calm_index [OF assms(3) [OF w1] mem.marks_law m] by (auto simp: marks_spec_def)
    show ?thesis
    proof (cases m)
      case (Inl e)
      with True p p' m w2 show ?thesis by (simp add: Sweep_def)
    next
      case m': (Inr marks)
      obtain r e w3 where c: "sweep_chunks mem_ops fl c others repo (c_Now c) 1
          (chunks sweepChunk (unmarked present marks)) no_sweep w2 = ((r, e), w3)"
        by (metis prod.exhaust)
      have w3: "calm has w3" using sweep_chunks_calm [OF assms(1-3) w2 c] .
      show ?thesis
      proof (cases e)
        case (Some err)
        with True p p' m m' c w3 show ?thesis by (simp add: Sweep_def)
      next
        case None
        from w3 missing_loop_ok [of "w_ix w3" repo present "c_Now c - missingSlack"] obtain ms err x4 where
          l: "missing_loop mem_ops repo present (c_Now c - missingSlack) '''' [] (w_ix w3) = Some ((ms, err), x4)"
            "mem_good x4" "\<not> mem_intx x4" "mem_seen x4 = mem_seen (w_ix w3)"
          unfolding calm_def by blast
        then have "calm has (w3\<lparr>w_ix := x4\<rparr>)" using w3 by (simp add: calm_def)
        with True p p' m m' c None l(1) show ?thesis by (simp add: Sweep_def)
      qed
    qed
  qed
qed

section \<open>What a sweep reclaims when it is left alone\<close>

definition alone :: "nat \<Rightarrow> 'w \<Rightarrow> 'w" where
  "alone i w = w"

lemma erase_each_counts:
  assumes "erase_ok fl has"
  shows "mem_good (w_ix w) \<Longrightarrow> \<not> mem_intx (w_ix w) \<Longrightarrow>
    erase_each mem_ops fl repo vs n b w = ((n', b', None), w') \<Longrightarrow>
    n' = n + length (filter (\<lambda>d. \<not> referenced (mem_seen (w_ix w)) repo d) (map fst vs))"
proof (induction vs arbitrary: n b w)
  case (Cons v vs)
  obtain h x1 where h: "ix_holds mem_ops repo (fst v) (w_ix w) = (h, x1)" by force
  from mem.call(2) [OF Cons.prems(1) h] Cons.prems(2)
  have x1: "mem_good x1" "\<not> mem_intx x1" "mem_seen x1 = mem_seen (w_ix w)"
    "\<And>b. h = Inr b \<Longrightarrow> b = held (mem_seen (w_ix w)) repo (fst v)"
    by (auto simp: holds_spec_def)
  obtain g x2 where g: "ix_get mem_ops repo (fst v) x1 = (g, x2)" by force
  from mem.call(1) [OF x1(1) g] x1
  have x2: "mem_good x2" "\<not> mem_intx x2" "mem_seen x2 = mem_seen (w_ix w)"
    "\<And>m. g = Inr m \<Longrightarrow> indexed (mem_seen (w_ix w)) repo (fst v)"
    "\<And>e. g = Inl e \<Longrightarrow> errors_is e ErrNotFound \<Longrightarrow> \<not> indexed (mem_seen (w_ix w)) repo (fst v)"
    by (auto simp: get_spec_def indexed_def)
  obtain er f3 where er: "fl_erase fl repo (fst v) (w_fl w) = (er, f3)" by force
  have step: "on_ix (ix_holds mem_ops repo (fst v)) w = (h, w\<lparr>w_ix := x1\<rparr>)"
    "on_ix (ix_get mem_ops repo (fst v)) (w\<lparr>w_ix := x1\<rparr>) = (g, w\<lparr>w_ix := x2\<rparr>)"
    "on_fl (fl_erase fl repo (fst v)) (w\<lparr>w_ix := x2\<rparr>) = (er, w\<lparr>w_ix := x2, w_fl := f3\<rparr>)"
    by (simp_all add: on_ix_def on_fl_def h g er)
  consider (held) "h = Inr True" | (there) m where "h = Inr False" "g = Inr m"
    | (gone) e u where "h = Inr False" "g = Inl e" "errors_is e ErrNotFound" "er = Inr u"
    using Cons.prems(3) by (cases h; cases g; cases er; auto simp: step split: if_splits)
  then show ?case
  proof cases
    case held
    then have e: "erase_each mem_ops fl repo vs n b (w\<lparr>w_ix := x1\<rparr>) = ((n', b', None), w')"
      using Cons.prems(3) by (simp add: step)
    from Cons.IH [OF _ _ e] x1 held show ?thesis by (simp add: referenced_def)
  next
    case there
    then have e: "erase_each mem_ops fl repo vs n b (w\<lparr>w_ix := x2\<rparr>) = ((n', b', None), w')"
      using Cons.prems(3) by (simp add: step)
    from Cons.IH [OF _ _ e] x2 there show ?thesis by (simp add: referenced_def)
  next
    case gone
    then have e: "erase_each mem_ops fl repo vs (Suc n) (b + snd v) (w\<lparr>w_ix := x2, w_fl := f3\<rparr>) = ((n', b', None), w')"
      using Cons.prems(3) by (simp add: step)
    from Cons.IH [OF _ _ e] x1 x2 gone show ?thesis by (simp add: referenced_def)
  qed
qed simp

lemma release_each_since:
  assumes "dated fl has since"
  shows "release_each mem_ops fl repo ds w = (r, w') \<Longrightarrow> d \<notin> set ds \<Longrightarrow> since (w_fl w') repo d = since (w_fl w) repo d"
proof (induction ds arbitrary: w)
  case (Cons x ds)
  have e: "fl_erase fl repo x f = (r, f') \<Longrightarrow> since f' repo d = since f repo d" for f r f'
    using assms Cons.prems(2) unfolding dated_def by fastforce
  show ?case
    using Cons.prems Cons.IH
    by (auto simp: on_ix_def on_fl_def dest: e split: prod.splits sum.splits if_splits)
qed simp

lemma sweep_erase_alone:
  assumes st: "erase_ok fl has" and dt: "dated fl has since"
    and g: "mem_good (w_ix w)" "\<not> mem_intx (w_ix w)" and ch: "distinct ch" "\<forall>d \<in> set ch. has (w_fl w) repo d \<noteq> None"
    and e: "sweep_erase mem_ops fl c (alone i) repo ch (c_Now c) w = ((n, b, err), w')"
  defines "v \<equiv> mem_seen (w_ix w)"
  defines "doomed \<equiv> {d \<in> set ch. sweepable c (since (w_fl w) repo d) \<and> \<not> referenced v repo d}"
  shows "mem_good (w_ix w') \<and> \<not> mem_intx (w_ix w') \<and> mem_seen (w_ix w') = v \<and>
    keeps has v repo (w_fl w) (w_fl w') \<and> gone has repo (w_fl w) (w_fl w') \<subseteq> doomed \<and>
    (\<forall>d. d \<notin> set ch \<longrightarrow> since (w_fl w') repo d = since (w_fl w) repo d) \<and>
    (err = None \<longrightarrow> gone has repo (w_fl w) (w_fl w') = doomed \<and> n = card doomed)"
proof -
  obtain r f1 where d: "doomed_of fl c repo (c_Now c) ch (w_fl w) = (r, f1)" by force
  note dk = doomed_of_ok [OF dt d]
  have same: "keeps has v repo (w_fl w) f1" "gone has repo (w_fl w) f1 = {}"
    using dk by (auto simp: keeps_def gone_def)
  have on: "on_fl (doomed_of fl c repo (c_Now c) ch) w = (r, w\<lparr>w_fl := f1\<rparr>)" by (simp add: on_fl_def d)
  show ?thesis
    using e
  proof (cases rule: sweep_erase_Release)
    case (1 e)
    with on g dk same show ?thesis by (auto simp: v_def)
  next
    case 2
    then have "r = Inr []" "w' = w\<lparr>w_fl := f1\<rparr>" using on by auto
    moreover from this dk ch have "doomed = {}" by (auto simp: doomed_def)
    ultimately show ?thesis using g dk same 2 by (auto simp: v_def)
  next
    case (3 vs w1)
    then have w1: "w1 = w\<lparr>w_fl := f1\<rparr>" "r = Inr vs" using on by auto
    have vs: "set (map fst vs) \<subseteq> {d \<in> set ch. sweepable c (since (w_fl w) repo d)}"
      "{d \<in> set ch. sweepable c (since (w_fl w) repo d)} \<subseteq> set (map fst vs)" "distinct (map fst vs)"
      using dk w1(2) ch by (blast, blast, blast)
    then have svs: "set (map fst vs) = {d \<in> set ch. sweepable c (since (w_fl w) repo d)}" by blast
    have rel: "Release mem_ops fl repo (map fst vs) w1 = ((case err of None \<Rightarrow> Inr () | Some e \<Rightarrow> Inl e), w')"
      using 3(3) by (simp add: alone_def)
    from mem.Release_keeps [OF st _ _ rel] g w1(1)
    have k: "mem_good (w_ix w')" "\<not> mem_intx (w_ix w')" "mem_seen (w_ix w') = v"
      "keeps has v repo f1 (w_fl w')"
      "err = None \<Longrightarrow> \<forall>d \<in> set (map fst vs). referenced v repo d \<or> has (w_fl w') repo d = None"
      by (auto simp: v_def)
    have kk: "keeps has v repo (w_fl w) (w_fl w')" using same(1) k(4) by (rule keeps_trans)
    obtain l x2 where l: "on_ix (ix_lock mem_ops repo) w1 = (l, x2)" by force
    have only: "has (w_fl w') repo d = has (w_fl w) repo d \<and> since (w_fl w') repo d = since (w_fl w) repo d"
      if "d \<notin> set (map fst vs)" for d
    proof -
      have "has (w_fl w'') repo d = has (w_fl w3) repo d"
        if "release_each mem_ops fl repo ds w3 = (q, w'')" "d \<notin> set ds" for ds w3 q w''
        using that
      proof (induction ds arbitrary: w3)
        case (Cons x ds)
        have e: "fl_erase fl repo x f = (r, f') \<Longrightarrow> has f' repo d = has f repo d" for f r f'
          using st Cons.prems(2) unfolding erase_ok_def by fastforce
        show ?case
          using Cons.prems Cons.IH
          by (auto simp: on_ix_def on_fl_def dest: e split: prod.splits sum.splits if_splits)
      qed simp
      then show ?thesis
        using rel that release_each_since [OF dt, of repo "map fst vs" x2] dk w1(1) l
        by (auto simp: Release_def on_ix_def split: prod.splits sum.splits)
    qed
    have sub: "gone has repo (w_fl w) (w_fl w') \<subseteq> doomed"
    proof
      fix d assume d: "d \<in> gone has repo (w_fl w) (w_fl w')"
      then have "d \<in> set (map fst vs)" using only by (fastforce simp: gone_def)
      moreover have "\<not> referenced v repo d" using d kk by (force simp: gone_def keeps_def)
      ultimately show "d \<in> doomed" using svs by (auto simp: doomed_def simp del: set_map)
    qed
    have "gone has repo (w_fl w) (w_fl w') = doomed \<and> n = card doomed" if none: "err = None"
    proof
      have "doomed \<subseteq> gone has repo (w_fl w) (w_fl w')"
        using k(5) [OF none] svs ch by (auto simp: doomed_def gone_def simp del: set_map)
      with sub show "gone has repo (w_fl w) (w_fl w') = doomed" by blast
      obtain n2 b2 e2 w3 where er: "erase_each mem_ops fl repo vs 0 0 x2 = ((n2, b2, e2), w3)" by (metis prod.exhaust)
      have lk: "mem_good (w_ix x2) \<and> \<not> mem_intx (w_ix x2) \<and> mem_seen (w_ix x2) = v"
        using l g w1(1) mem.call(7) [of "w_ix w1" repo] by (auto simp: on_ix_def v_def split: prod.splits)
      have "l = Inr () \<and> e2 = None \<and> n = n2"
        using e on w1 3(2) l er none
        by (auto simp: sweep_erase_def alone_def split: prod.splits sum.splits)
      with er have "n = length (filter (\<lambda>d. \<not> referenced v repo d) (map fst vs))"
        using erase_each_counts [OF st, of x2 repo vs 0 0 n2 b2 w3] lk by simp
      also have "\<dots> = card (set (filter (\<lambda>d. \<not> referenced v repo d) (map fst vs)))"
        using vs(3) by (metis distinct_card distinct_filter)
      also have "set (filter (\<lambda>d. \<not> referenced v repo d) (map fst vs)) = doomed"
        using svs by (auto simp: doomed_def simp del: set_map)
      finally show "n = card doomed" .
    qed
    with k kk sub only vs(1) show ?thesis by (blast dest: subsetD)
  qed
qed

lemma sweep_chunks_alone:
  assumes st: "erase_ok fl has" and dt: "dated fl has since"
  shows "mem_good (w_ix w) \<Longrightarrow> \<not> mem_intx (w_ix w) \<Longrightarrow> distinct (concat chs) \<Longrightarrow>
    \<forall>d \<in> set (concat chs). has (w_fl w) repo d \<noteq> None \<Longrightarrow>
    sweep_chunks mem_ops fl c alone repo (c_Now c) i chs r w = ((r', err), w') \<Longrightarrow>
    D = {d \<in> set (concat chs). sweepable c (since (w_fl w) repo d) \<and> \<not> referenced (mem_seen (w_ix w)) repo d} \<Longrightarrow>
    mem_good (w_ix w') \<and> \<not> mem_intx (w_ix w') \<and> mem_seen (w_ix w') = mem_seen (w_ix w) \<and>
    keeps has (mem_seen (w_ix w)) repo (w_fl w) (w_fl w') \<and> gone has repo (w_fl w) (w_fl w') \<subseteq> D \<and>
    (err = None \<longrightarrow> gone has repo (w_fl w) (w_fl w') = D \<and> sw_Blobs r' = sw_Blobs r + card D)"
proof (induction chs arbitrary: i r w D)
  case (Cons ch chs)
  let ?v = "mem_seen (w_ix w)"
  let ?P = "\<lambda>w d. sweepable c (since (w_fl w) repo d) \<and> \<not> referenced ?v repo d"
  obtain n b e1 w1 where e: "sweep_erase mem_ops fl c (alone i) repo ch (c_Now c) w = ((n, b, e1), w1)"
    by (metis prod.exhaust)
  define D1 where "D1 = {d \<in> set ch. ?P w d}"
  have ch: "distinct ch" "\<forall>d \<in> set ch. has (w_fl w) repo d \<noteq> None" and disj: "set ch \<inter> set (concat chs) = {}"
    and chs: "distinct (concat chs)"
    using Cons.prems(3,4) by auto
  note s = sweep_erase_alone [OF st dt Cons.prems(1,2) ch e, folded D1_def]
  have s1: "mem_good (w_ix w1)" "\<not> mem_intx (w_ix w1)" "mem_seen (w_ix w1) = ?v" "keeps has ?v repo (w_fl w) (w_fl w1)"
    "gone has repo (w_fl w) (w_fl w1) \<subseteq> D1" "\<forall>d. d \<notin> set ch \<longrightarrow> since (w_fl w1) repo d = since (w_fl w) repo d"
    "e1 = None \<Longrightarrow> gone has repo (w_fl w) (w_fl w1) = D1 \<and> n = card D1"
    using s by blast+
  have D1sub: "D1 \<subseteq> set ch" "D1 \<subseteq> D" unfolding Cons.prems(6) by (auto simp: D1_def)
  show ?case
  proof (cases e1)
    case (Some x)
    with Cons.prems(5) e have "err = Some x" "w' = w1" by auto
    with s1 D1sub show ?thesis by blast
  next
    case None
    then have rest: "sweep_chunks mem_ops fl c alone repo (c_Now c) (Suc i) chs
        (r\<lparr>sw_Blobs := sw_Blobs r + n, sw_Bytes := sw_Bytes r + b\<rparr>) w1 = ((r', err), w')"
      using Cons.prems(5) e by simp
    define D2 where "D2 = {d \<in> set (concat chs). ?P w d}"
    have there: "\<forall>d \<in> set (concat chs). has (w_fl w1) repo d \<noteq> None"
    proof
      fix d assume d: "d \<in> set (concat chs)"
      then have "d \<notin> gone has repo (w_fl w) (w_fl w1)" "has (w_fl w) repo d \<noteq> None"
        using disj s1(5) D1sub Cons.prems(4) by auto
      then show "has (w_fl w1) repo d \<noteq> None" by (simp add: gone_def)
    qed
    have "D2 = {d \<in> set (concat chs). sweepable c (since (w_fl w1) repo d) \<and> \<not> referenced (mem_seen (w_ix w1)) repo d}"
    proof -
      have "since (w_fl w1) repo d = since (w_fl w) repo d" if "d \<in> set (concat chs)" for d
        using s1(6) disj that by (metis disjoint_iff)
      then show ?thesis unfolding D2_def s1(3) by (auto simp del: set_concat)
    qed
    from Cons.IH [OF s1(1,2) chs there rest this] s1(3)
    have ih: "mem_good (w_ix w')" "\<not> mem_intx (w_ix w')" "mem_seen (w_ix w') = ?v" "keeps has ?v repo (w_fl w1) (w_fl w')"
      "gone has repo (w_fl w1) (w_fl w') \<subseteq> D2"
      "err = None \<Longrightarrow> gone has repo (w_fl w1) (w_fl w') = D2 \<and> sw_Blobs r' = sw_Blobs r + n + card D2"
      by auto
    have D: "D = D1 \<union> D2" "D1 \<inter> D2 = {}"
      unfolding Cons.prems(6) D1_def D2_def using disj by auto
    have cD: "card D = card D1 + card D2" unfolding D(1) using D(2) by (intro card_Un_disjoint) (auto simp: D1_def D2_def)
    note gt = gone_trans [OF s1(4) ih(4)]
    have "gone has repo (w_fl w) (w_fl w') \<subseteq> D" using gt(1) s1(5) ih(5) D(1) by blast
    moreover have "gone has repo (w_fl w) (w_fl w') = D \<and> sw_Blobs r' = sw_Blobs r + card D" if "err = None"
      using gt(1) s1(7) [OF None] ih(6) [OF that] D(1) cD by simp
    ultimately show ?thesis
      using ih(1-3) keeps_trans [OF s1(4) ih(4)] by blast
  qed
qed simp

text \<open>The chunks of a sweep, from what it found present and what was marked.\<close>

lemma sweep_marked:
  fixes repo :: string and c :: gc_config
  assumes "erase_ok fl has" "dated fl has since" "mem_good (w_ix w)" "\<not> mem_intx (w_ix w)"
    and present: "set present = {d. has (w_fl w) repo d \<noteq> None}"
    and marks: "set marks = {d. referenced (mem_seen (w_ix w)) repo d}"
    and ch: "sweep_chunks mem_ops fl c alone repo (c_Now c) 1
      (chunks sweepChunk (unmarked present marks)) no_sweep w = ((r, err), w')"
  defines "D \<equiv> {d. has (w_fl w) repo d \<noteq> None \<and> \<not> referenced (mem_seen (w_ix w)) repo d \<and>
    sweepable c (since (w_fl w) repo d)}"
  shows "mem_good (w_ix w') \<and> \<not> mem_intx (w_ix w') \<and> mem_seen (w_ix w') = mem_seen (w_ix w) \<and>
    keeps has (mem_seen (w_ix w)) repo (w_fl w) (w_fl w') \<and> gone has repo (w_fl w) (w_fl w') \<subseteq> D \<and>
    (err = None \<longrightarrow> gone has repo (w_fl w) (w_fl w') = D \<and> sw_Blobs r = card D)"
proof -
  have cc: "concat (chunks sweepChunk (unmarked present marks)) = unmarked present marks"
    by (rule concat_chunks) (simp add: sweepChunk_def)
  have un: "set (unmarked present marks) = {d. has (w_fl w) repo d \<noteq> None \<and> \<not> referenced (mem_seen (w_ix w)) repo d}"
    "distinct (unmarked present marks)"
    using present marks by (auto simp: unmarked_def)
  have D: "D = {d \<in> set (concat (chunks sweepChunk (unmarked present marks))).
      sweepable c (since (w_fl w) repo d) \<and> \<not> referenced (mem_seen (w_ix w)) repo d}"
    unfolding cc un(1) D_def by auto
  have "\<forall>d \<in> set (concat (chunks sweepChunk (unmarked present marks))). has (w_fl w) repo d \<noteq> None"
    unfolding cc un(1) by simp
  from sweep_chunks_alone [OF assms(1-4) _ this ch D] un(2) cc show ?thesis by (simp add: no_sweep_def)
qed

section \<open>Properties\<close>

text \<open>
  C34: a sweep breaks no reference, whatever happens in between.  It returns; and if everything
  the index refers to was in the store, and whatever others do while the sweep does not hold the
  lock keeps it so, then everything the index refers to is in the store afterwards -- also when a
  manifest was pushed after the marks were read, and whichever of the sweep's calls fail.
\<close>

theorem Sweep_breaks_no_reference:
  assumes "erase_ok fl has" and "asks_nothing fl has" and "calm has w"
    and "\<And>i w. calm has w \<Longrightarrow> calm has (others i w)"
  shows "\<exists>r err w'. Sweep mem_ops fl c others repo w = Some ((r, err), w') \<and> calm has w'"
  using assms(1,2,4,3) by (rule Sweep_calm)

definition sample_gc :: gc_config where
  "sample_gc = \<lparr>c_Policy = None, c_Untagged = 50, c_Orphaned = 50, c_RescanOrphans = False, c_Delay = -1,
     c_Cache = (\<lambda>_. 0), c_Now = 100\<rparr>"

text \<open>Others push a manifest that holds a blob the sweep has found unmarked.\<close>

lemma sample_m_digest [simp]: "im_Digest (sample_m d) = d"
  by (simp add: sample_m_def)

definition late_push :: "nat \<Rightarrow> (view, sample_blobs) world \<Rightarrow> (view, sample_blobs) world" where
  "late_push i w =
     (if sample_has (w_fl w) ''acme/app'' ''sha256:m3'' = None \<or> sample_has (w_fl w) ''acme/app'' ''sha256:zz'' = None then w
      else w\<lparr>w_ix := snd (ix_put mem_ops ''acme/app'' (sample_m ''sha256:m3'') [''sha256:zz''] (w_ix w))\<rparr>)"

lemma mem_good_put:
  assumes "mem_good x" "\<not> mem_intx x"
  shows "mem_good (snd (ix_put mem_ops repo m hs x)) \<and> \<not> mem_intx (snd (ix_put mem_ops repo m hs x)) \<and>
    (\<forall>r d. referenced (mem_seen (snd (ix_put mem_ops repo m hs x))) r d \<longrightarrow>
       referenced (mem_seen x) r d \<or> r = repo \<and> d \<in> insert (im_Digest m) (set hs))"
proof -
  obtain r x' where p: "ix_put mem_ops repo m hs x = (r, x')" by force
  from mem.opD [OF mem.put_law assms(1) p] assms(2) show ?thesis
    unfolding p by (auto simp: put_spec_def referenced_def indexed_def held_def split: sum.splits if_splits)
qed

lemma late_push_calm: "calm sample_has w \<Longrightarrow> calm sample_has (late_push i w)"
  using mem_good_put [of "w_ix w" "''acme/app''" "sample_m ''sha256:m3''" "[''sha256:zz'']"]
  by (cases "sample_has (w_fl w) ''acme/app'' ''sha256:m3'' = None \<or> sample_has (w_fl w) ''acme/app'' ''sha256:zz'' = None")
    (simp_all add: late_push_def calm_def whole_def, metis insertE singletonD)

lemma sample_calm: "calm sample_has sample_world"
proof -
  have "list_all (\<lambda>(d, e). sample_has (w_fl sample_world) ''acme/app'' d \<noteq> None \<and>
      list_all (\<lambda>b. sample_has (w_fl sample_world) ''acme/app'' b \<noteq> None) (en_holds e))
      (inner (st_manifests (mi_s (vw_ix sample_index))) ''acme/app'')"
    by code_simp
  moreover have "map fst (st_manifests (mi_s (vw_ix sample_index))) = [''acme/app'']" by code_simp
  ultimately show ?thesis
    using sample_index_good
    by (auto simp: calm_def whole_def sample_world_def mem_seen_def mem_intx_def referenced_def indexed_def held_def
        list_all_iff man_def inner_def split: option.splits dest!: map_of_SomeD)
qed

lemma Sweep_breaks_no_reference_witness:
  "\<exists>r err w'. Sweep mem_ops sample_store sample_gc late_push ''acme/app'' sample_world = Some ((r, err), w') \<and>
    calm sample_has w'"
  by (rule Sweep_breaks_no_reference [OF sample_erase_ok sample_asks_nothing sample_calm late_push_calm])

text \<open>
  C35: a sweep nobody interferes with reclaims exactly the garbage.  It returns; the index is as
  it was; what goes from the store is unreferenced and not younger than the delay before the
  sweep; and with no error all of that goes, the report counts it, and the report's missing
  manifests are exactly those of the index the store did not have, well before the sweep.
\<close>

theorem Sweep_reclaims_exactly:
  fixes repo :: string and c :: gc_config
  assumes "erase_ok fl has" and "walk_ok fl has" and "dated fl has since"
    and "mem_good (w_ix w)" and "\<not> mem_intx (w_ix w)"
  defines "v \<equiv> mem_seen (w_ix w)"
  defines "D \<equiv> {d. has (w_fl w) repo d \<noteq> None \<and> \<not> referenced v repo d \<and> sweepable c (since (w_fl w) repo d)}"
  shows "\<exists>r err w'. Sweep mem_ops fl c alone repo w = Some ((r, err), w') \<and> mem_seen (w_ix w') = v \<and>
    keeps has v repo (w_fl w) (w_fl w') \<and> gone has repo (w_fl w) (w_fl w') \<subseteq> D \<and>
    (err = None \<longrightarrow> gone has repo (w_fl w) (w_fl w') = D \<and> sw_Blobs r = card D \<and>
       set (sw_Missing r) = {d. has (w_fl w) repo d = None \<and>
         (\<exists>en. ro_manifests v repo d = Some en \<and> im_CreatedAt (en_m en) < c_Now c - missingSlack)})"
proof (cases "fl_walker fl repo")
  case False
  then show ?thesis by (simp add: Sweep_def v_def)
next
  case True
  obtain p f1 where p: "fl_walk fl repo (w_fl w) = (p, f1)" by force
  have f1: "has f1 = has (w_fl w)" "since f1 = since (w_fl w)"
    and pres: "\<And>ds. p = Inr ds \<Longrightarrow> set ds = {d. has (w_fl w) repo d \<noteq> None}"
    using p assms(2,3) unfolding walk_ok_def store_reads_def dated_def by blast+
  have on: "on_fl (fl_walk fl repo) w = (p, w\<lparr>w_fl := f1\<rparr>)" by (simp add: on_fl_def p)
  have k1: "keeps has v repo (w_fl w) f1" "gone has repo (w_fl w) f1 = {}"
    using f1 by (auto simp: keeps_def gone_def)
  show ?thesis
  proof (cases p)
    case (Inl e)
    with True on k1 show ?thesis by (simp add: Sweep_def v_def)
  next
    case p': (Inr present)
    obtain m x2 where m: "ix_marks mem_ops repo (w_ix w) = (m, x2)" by force
    from mem.opD [OF mem.marks_law assms(4) m] assms(5)
    have x2: "mem_good x2" "\<not> mem_intx x2" "mem_seen x2 = v"
      "\<And>ds. m = Inr ds \<Longrightarrow> set ds = {d. referenced v repo d}"
      by (auto simp: marks_spec_def v_def)
    let ?w2 = "w\<lparr>w_fl := f1, w_ix := x2\<rparr>"
    have onm: "on_ix (ix_marks mem_ops repo) (alone 0 (w\<lparr>w_fl := f1\<rparr>)) = (m, ?w2)"
      by (simp add: on_ix_def alone_def m)
    show ?thesis
    proof (cases m)
      case (Inl e)
      with True on p' onm k1 x2(3) show ?thesis by (simp add: Sweep_def)
    next
      case m': (Inr marks)
      obtain r e w3 where c: "sweep_chunks mem_ops fl c alone repo (c_Now c) 1
          (chunks sweepChunk (unmarked present marks)) no_sweep ?w2 = ((r, e), w3)"
        by (metis prod.exhaust)
      have w3: "mem_good (w_ix w3)" "\<not> mem_intx (w_ix w3)" "mem_seen (w_ix w3) = v" "keeps has v repo f1 (w_fl w3)"
        "gone has repo f1 (w_fl w3) \<subseteq> D" "e = None \<Longrightarrow> gone has repo f1 (w_fl w3) = D \<and> sw_Blobs r = card D"
        using sweep_marked [OF assms(1,3) _ _ _ _ c] x2 m' pres [OF p'] f1 by (auto simp: D_def)
      have gk: "keeps has v repo (w_fl w) (w_fl w3)" "gone has repo (w_fl w) (w_fl w3) = gone has repo f1 (w_fl w3)"
        using keeps_trans [OF k1(1) w3(4)] f1(1) by (simp_all add: gone_def)
      show ?thesis
      proof (cases e)
        case (Some err)
        with True on p' onm m' c w3 gk show ?thesis by (simp add: Sweep_def)
      next
        case None
        obtain ms err x4 where l: "missing_loop mem_ops repo present (c_Now c - missingSlack) '''' [] (w_ix w3) = Some ((ms, err), x4)"
          "mem_seen x4 = v"
          "err = None \<Longrightarrow> set ms = {d. \<exists>en. ro_manifests v repo d = Some en \<and>
             im_CreatedAt (en_m en) < c_Now c - missingSlack \<and> d \<notin> set present}"
          using missing_loop_ok [OF w3(1,2), of repo present "c_Now c - missingSlack"] w3(3) by auto
        have S: "Sweep mem_ops fl c alone repo w = Some ((r\<lparr>sw_Missing := ms\<rparr>, err), w3\<lparr>w_ix := x4\<rparr>)"
          using True on p' onm m' c None l(1) by (simp add: Sweep_def)
        show ?thesis
          unfolding S using l(2,3) gk w3(5) w3(6) [OF None] pres [OF p'] by auto
      qed
    qed
  qed
qed

lemma Sweep_reclaims_exactly_witness:
  "\<exists>r err w'. Sweep mem_ops sample_store sample_gc alone ''acme/app'' sample_world = Some ((r, err), w') \<and>
    mem_seen (w_ix w') = mem_seen (w_ix sample_world) \<and>
    gone sample_has ''acme/app'' (w_fl sample_world) (w_fl w') \<subseteq> {d. \<not> referenced (mem_seen (w_ix sample_world)) ''acme/app'' d}"
  using Sweep_reclaims_exactly [OF sample_erase_ok sample_walk_ok sample_dated,
      where w = sample_world and repo = "''acme/app''" and c = sample_gc]
  by (force simp: sample_world_def)

end
