(* ===== verification/Gc_Full.thy ===== *)
theory Gc_Full
  imports Gc_Sweep
begin

text \<open>
  The whole collection: that \<open>Run\<close> and \<open>Full\<close> return, whatever fails, and that neither ever
  leaves the index referring to something that is not in the store.
\<close>

section \<open>What every step keeps\<close>

definition pending :: "rows \<Rightarrow> string \<Rightarrow> digest set" where
  "pending v repo = {d. indexed v repo d \<or> ro_orphans v repo d \<noteq> None}"

text \<open>Rows that have only become fewer; the repositories are the same.\<close>

definition fewer :: "rows \<Rightarrow> rows \<Rightarrow> bool" where
  "fewer v v' =
     (ro_repos v' = ro_repos v \<and> (\<forall>repo d. referenced v' repo d \<longrightarrow> referenced v repo d) \<and>
      (\<forall>repo. pending v' repo \<subseteq> pending v repo))"

definition tame :: "('f \<Rightarrow> string \<Rightarrow> digest \<Rightarrow> string option) \<Rightarrow> (view, 'f) world \<Rightarrow> (view, 'f) world \<Rightarrow> bool" where
  "tame has w w' = (calm has w' \<and> fewer (mem_seen (w_ix w)) (mem_seen (w_ix w')))"

text \<open>The same without a bound on what waits as an orphan.\<close>

definition kept :: "('f \<Rightarrow> string \<Rightarrow> digest \<Rightarrow> string option) \<Rightarrow> (view, 'f) world \<Rightarrow> (view, 'f) world \<Rightarrow> bool" where
  "kept has w w' = (calm has w' \<and> ro_repos (mem_seen (w_ix w')) = ro_repos (mem_seen (w_ix w)))"

lemma fewer_refl [simp]: "fewer v v"
  by (simp add: fewer_def)

lemma fewer_trans: "fewer v1 v2 \<Longrightarrow> fewer v2 v3 \<Longrightarrow> fewer v1 v3"
  unfolding fewer_def by (metis subset_trans)

lemma tame_refl: "calm has w \<Longrightarrow> tame has w w"
  by (simp add: tame_def)

lemma tame_trans: "tame has w1 w2 \<Longrightarrow> tame has w2 w3 \<Longrightarrow> tame has w1 w3"
  unfolding tame_def using fewer_trans by blast

lemma tame_kept: "tame has w w' \<Longrightarrow> kept has w w'"
  by (simp add: tame_def kept_def fewer_def)

lemma kept_refl: "calm has w \<Longrightarrow> kept has w w"
  by (simp add: kept_def)

lemma kept_trans: "kept has w1 w2 \<Longrightarrow> kept has w2 w3 \<Longrightarrow> kept has w1 w3"
  by (simp add: kept_def)

lemma tame_calm: "tame has w w' \<Longrightarrow> calm has w'"
  by (simp add: tame_def)

lemma kept_calm: "kept has w w' \<Longrightarrow> calm has w'"
  by (simp add: kept_def)

lemma finite_pending: "finite (pending (mem_seen v) repo)"
proof -
  have "pending (mem_seen v) repo = {d. indexed (mem_seen v) repo d} \<union> {d. ro_orphans (mem_seen v) repo d \<noteq> None}"
    by (auto simp: pending_def)
  then show ?thesis using finite_rows(2,4) by simp
qed

section \<open>Calls of the index\<close>

lemma index_tame:
  assumes "calm has w" and "op_ok mem_good mem_seen mem_outer mem_intx Q g" and "g (w_ix w) = (r, x)"
    and "\<And>v r v'. Q v r v' \<Longrightarrow> fewer v v'"
  shows "tame has w (w\<lparr>w_ix := x\<rparr>) \<and> Q (mem_seen (w_ix w)) r (mem_seen x)"
proof -
  have g: "mem_good (w_ix w)" "\<not> mem_intx (w_ix w)" "whole has (mem_seen (w_ix w)) (w_fl w)"
    using assms(1) by (auto simp: calm_def)
  from mem.opD [OF assms(2) g(1) assms(3)] have o: "mem_good x" "\<not> mem_intx x" "Q (mem_seen (w_ix w)) r (mem_seen x)"
    using g(2) by auto
  have f: "fewer (mem_seen (w_ix w)) (mem_seen x)" using assms(4) [OF o(3)] .
  have "whole has (mem_seen x) (w_fl w)"
    using whole_shrinks [OF g(3)] f unfolding fewer_def by blast
  with o f show ?thesis by (simp add: tame_def calm_def)
qed

lemma index_tx_tame:
  assumes "calm has w" and "op_ok mem_good mem_seen mem_outer mem_intx Q g" and "ix_tx mem_ops repo g (w_ix w) = (r, x)"
    and "\<And>v r v'. Q v r v' \<Longrightarrow> fewer v v'"
  shows "tame has w (w\<lparr>w_ix := x\<rparr>)"
proof -
  have g: "mem_good (w_ix w)" "\<not> mem_intx (w_ix w)" "whole has (mem_seen (w_ix w)) (w_fl w)"
    using assms(1) by (auto simp: calm_def)
  from mem.ix_tx_ok [OF assms(2) g(1,2) assms(3)] have o: "mem_good x" "\<not> mem_intx x"
    "fewer (mem_seen (w_ix w)) (mem_seen x)"
    using assms(4) by auto
  moreover have "whole has (mem_seen x) (w_fl w)"
    using whole_shrinks [OF g(3)] o(3) unfolding fewer_def by blast
  ultimately show ?thesis by (simp add: tame_def calm_def)
qed

lemma on_ix_world: "on_ix g w = (r, w') \<Longrightarrow> \<exists>x. g (w_ix w) = (r, x) \<and> w' = w\<lparr>w_ix := x\<rparr>"
  by (auto simp: on_ix_def split: prod.splits)

lemma ctx_tame: "calm has w \<Longrightarrow> ctx_err w = (e, w') \<Longrightarrow> tame has w w'"
  using ctx_err_same [of w] by (simp add: tame_def calm_def)

lemma fewer_orphans: "orphans_shrink v r v' \<Longrightarrow> fewer v v'"
  by (auto simp: orphans_shrink_def orphans_only_def fewer_def referenced_def indexed_def held_def pending_def)

lemma fewer_snaps: "snap_erase_spec repo d v r v' \<Longrightarrow> fewer v v'"
  by (auto simp: snap_erase_spec_def fewer_def referenced_def indexed_def held_def pending_def)

lemma fewer_without: "without v repo d v' \<Longrightarrow> indexed v repo d \<Longrightarrow> fewer v v'"
  unfolding without_def fewer_def referenced_def indexed_def held_def pending_def
  by (auto split: if_splits)

lemma fewer_shrunk_tags: "untagged_names repo N v v' \<Longrightarrow> fewer v v'"
  by (auto simp: untagged_names_def fewer_def referenced_def indexed_def held_def pending_def)

section \<open>Manifests\<close>

lemma whole_removed:
  assumes "whole has v f" "keeps has v' repo f f'" "\<And>r d. referenced v' r d \<Longrightarrow> referenced v r d"
  shows "whole has v' f'"
  using assms unfolding whole_def keeps_def by metis

lemma removeManifest_tame:
  assumes el: "\<And>m. op_ok mem_good mem_seen mem_outer mem_intx (\<lambda>v r v'. v' = v \<and> (\<forall>b. r = Inr b \<longrightarrow> b = E v m)) (eligible m)"
    and st: "erase_ok fl has" and c: "calm has w"
    and r: "removeManifest mem_ops fl repo d eligible w = ((deleted, err), w')"
  shows "tame has w w'"
proof -
  have g: "mem_good (w_ix w)" "\<not> mem_intx (w_ix w)" "whole has (mem_seen (w_ix w)) (w_fl w)"
    using c by (auto simp: calm_def)
  note rm = mem.removeManifest_ok [OF el st g(1,2) r]
  have f: "fewer (mem_seen (w_ix w)) (mem_seen (w_ix w'))"
  proof (cases deleted)
    case True
    with rm have "without (mem_seen (w_ix w)) repo d (mem_seen (w_ix w'))" "indexed (mem_seen (w_ix w)) repo d"
      by (auto simp: indexed_def)
    then show ?thesis by (rule fewer_without)
  qed (use rm in simp)
  moreover have "whole has (mem_seen (w_ix w')) (w_fl w')"
    by (rule whole_removed [OF g(3)]) (use rm f in \<open>auto simp: fewer_def\<close>)
  ultimately show ?thesis using rm by (simp add: tame_def calm_def)
qed

lemma deleteManifest_tame:
  "erase_ok fl has \<Longrightarrow> calm has w \<Longrightarrow> deleteManifest mem_ops fl repo d cutoff w = ((deleted, err), w') \<Longrightarrow> tame has w w'"
  unfolding deleteManifest_def by (rule removeManifest_tame [OF mem.delete_eligible_ok])

lemma deleteOrphan_tame:
  "erase_ok fl has \<Longrightarrow> calm has w \<Longrightarrow> deleteOrphan mem_ops fl repo s d cutoff w = ((deleted, err), w') \<Longrightarrow> tame has w w'"
  unfolding deleteOrphan_def by (rule removeManifest_tame [OF mem.orphan_eligible_ok])

lemma delete_each_tame:
  assumes "erase_ok fl has"
  shows "calm has w \<Longrightarrow> delete_each mem_ops fl repo cutoff ds n errs w = (res, w') \<Longrightarrow> tame has w w'"
proof (induction ds arbitrary: n errs w)
  case (Cons d ds)
  obtain ok err w1 where d: "deleteManifest mem_ops fl repo d cutoff w = ((ok, err), w1)" by (metis prod.exhaust)
  have t: "tame has w w1" using deleteManifest_tame [OF assms Cons.prems(1) d] .
  from Cons.prems(2) d have "delete_each mem_ops fl repo cutoff ds (if ok then Suc n else n)
      (case err of None \<Rightarrow> errs | Some e \<Rightarrow> errs @ [e]) w1 = (res, w')" by simp
  from Cons.IH [OF tame_calm [OF t] this] show ?case by (rule tame_trans [OF t])
qed (auto intro: tame_refl)

lemma delete_orphans_tame:
  assumes "erase_ok fl has"
  shows "calm has w \<Longrightarrow> delete_orphans mem_ops fl repo s cutoff ds n errs w = (res, w') \<Longrightarrow> tame has w w'"
proof (induction ds arbitrary: n errs w)
  case (Cons d ds)
  obtain ok err w1 where d: "deleteOrphan mem_ops fl repo s d cutoff w = ((ok, err), w1)" by (metis prod.exhaust)
  have t: "tame has w w1" using deleteOrphan_tame [OF assms Cons.prems(1) d] .
  from Cons.prems(2) d have "delete_orphans mem_ops fl repo s cutoff ds (if ok then Suc n else n)
      (errs @ opt_list err) w1 = (res, w')" by simp
  from Cons.IH [OF tame_calm [OF t] this] show ?case by (rule tame_trans [OF t])
qed (auto intro: tame_refl)

lemma untaggedBefore_tame:
  assumes "erase_ok fl has" "calm has w"
  shows "\<exists>n err w'. untaggedBefore mem_ops fl repo cutoff w = Some ((n, err), w') \<and> kept has w w'"
proof -
  have g: "mem_good (w_ix w)" "\<not> mem_intx (w_ix w)" "whole has (mem_seen (w_ix w)) (w_fl w)"
    using assms(2) by (auto simp: calm_def)
  obtain n err w' D where u: "untaggedBefore mem_ops fl repo cutoff w = Some ((n, err), w')"
    "mem_good (w_ix w')" "\<not> mem_intx (w_ix w')" "shrunk repo D (mem_seen (w_ix w)) (mem_seen (w_ix w'))"
    "keeps has (mem_seen (w_ix w')) repo (w_fl w) (w_fl w')"
    using untaggedBefore_ok [OF assms(1) g(1,2), of repo cutoff] by blast
  have "referenced (mem_seen (w_ix w')) r d \<Longrightarrow> referenced (mem_seen (w_ix w)) r d" for r d
    using u(4) shrunk_referenced [OF u(4)] by (cases "r = repo") (auto simp: shrunk_def referenced_def indexed_def held_def)
  from whole_removed [OF g(3) u(5) this] u show ?thesis by (auto simp: kept_def calm_def shrunk_def)
qed

section \<open>Tags and snapshots\<close>

lemma retention_kept:
  assumes "calm has w" "retention mem_ops p repo (w_ix w) = ((n, err), x)"
  shows "kept has w (w\<lparr>w_ix := x\<rparr>)"
proof -
  have g: "mem_good (w_ix w)" "\<not> mem_intx (w_ix w)" "whole has (mem_seen (w_ix w)) (w_fl w)"
    using assms(1) by (auto simp: calm_def)
  from mem.retention_ok [OF g(1,2) assms(2)] obtain N where o: "mem_good x" "\<not> mem_intx x"
    "untagged_names repo N (mem_seen (w_ix w)) (mem_seen x)" by blast
  then have "fewer (mem_seen (w_ix w)) (mem_seen x)" using fewer_shrunk_tags by blast
  with o g whole_shrinks [OF g(3)] show ?thesis unfolding kept_def calm_def fewer_def by auto
qed

lemma erase_tags_kept:
  assumes "calm has w"
  shows "erase_tags mem_ops repo ts n errs (w_ix w) = (res, x) \<Longrightarrow> kept has w (w\<lparr>w_ix := x\<rparr>)"
  using assms
proof (induction ts arbitrary: n errs w)
  case Nil
  then show ?case by (auto simp: kept_def calm_def)
next
  case (Cons t ts)
  obtain r x1 where r: "ix_tx mem_ops repo (erase_same_tag mem_ops repo t) (w_ix w) = (r, x1)" by force
  have "tame has w (w\<lparr>w_ix := x1\<rparr>)"
    using index_tx_tame [OF Cons.prems(2) mem.erase_same_tag_ok r] fewer_shrunk_tags
    by (fastforce split: sum.splits if_splits)
  then have k: "kept has w (w\<lparr>w_ix := x1\<rparr>)" by (rule tame_kept)
  from Cons.prems(1) r obtain n' errs' where
    "erase_tags mem_ops repo ts n' errs' (w_ix (w\<lparr>w_ix := x1\<rparr>)) = (res, x)"
    by (cases r) auto
  from Cons.IH [OF this kept_calm [OF k]] k show ?case by (auto simp: kept_def)
qed

lemma forget_snapshot_ok:
  "op_ok mem_good mem_seen mem_outer mem_intx (\<lambda>v r v'. fewer v v') (forget_snapshot mem_ops repo s)"
  unfolding op_ok_def
proof (intro allI impI)
  fix x r x' assume g: "mem_good x" and f: "forget_snapshot mem_ops repo s x = (r, x')"
  obtain a x1 where a: "ix_snap_erase mem_ops repo s x = (a, x1)" by force
  with f have "x' = x1" by (auto simp: forget_snapshot_def split: sum.splits if_splits)
  with mem.opD [OF mem.snap_erase_law g a] fewer_snaps
  show "mem_good x' \<and> mem_intx x' = mem_intx x \<and> mem_outer x' = (if mem_intx x then mem_outer x else mem_seen x') \<and>
      fewer (mem_seen x) (mem_seen x')" by blast
qed

lemma unlisted_each_kept:
  assumes "erase_ok fl has"
  shows "calm has w \<Longrightarrow> unlisted_each mem_ops fl repo cutoff ss n errs w = (res, w') \<Longrightarrow> kept has w w'"
proof (induction ss arbitrary: n errs w)
  case Nil
  then show ?case by (auto intro: kept_refl)
next
  case (Cons s ss)
  obtain a x1 where a: "ix_get mem_ops repo (sn_Subject s) (w_ix w) = (a, x1)" by force
  have t1: "tame has w (w\<lparr>w_ix := x1\<rparr>)"
    using index_tame [OF Cons.prems(1) mem.get_law a] by (auto simp: get_spec_def)
  let ?w1 = "w\<lparr>w_ix := x1\<rparr>"
  obtain f x2 where f: "ix_tx mem_ops repo (forget_snapshot mem_ops repo (sn_Subject s)) x1 = (f, x2)" by force
  have t2: "tame has ?w1 (w\<lparr>w_ix := x2\<rparr>)"
    using index_tx_tame [OF tame_calm [OF t1] forget_snapshot_ok, of repo repo "sn_Subject s" f x2] f by simp
  obtain ms x3 where r: "ix_referrers mem_ops repo (sn_Subject s) '''' x1 = (ms, x3)" by force
  have t3: "tame has ?w1 (w\<lparr>w_ix := x3\<rparr>)"
    using index_tame [OF tame_calm [OF t1] mem.referrers_law, of repo "sn_Subject s" "''''" ms x3] r
    by (auto simp: referrers_spec_def)
  let ?w3 = "w\<lparr>w_ix := x3\<rparr>"
  have on: "on_ix (ix_get mem_ops repo (sn_Subject s)) w = (a, ?w1)"
    "on_ix (ix_tx mem_ops repo (forget_snapshot mem_ops repo (sn_Subject s))) ?w1 = (f, w\<lparr>w_ix := x2\<rparr>)"
    "on_ix (ix_referrers mem_ops repo (sn_Subject s) '''') ?w1 = (ms, ?w3)"
    by (simp_all add: on_ix_def a f r)
  have step: "kept has w w'" if "kept has w u" "unlisted_each mem_ops fl repo cutoff ss n' errs' u = (res, w')" for n' errs' u
    using Cons.IH [OF kept_calm [OF that(1)] that(2)] by (rule kept_trans [OF that(1)])
  have k: "kept has w ?w1" "kept has w (w\<lparr>w_ix := x2\<rparr>)" "kept has w ?w3"
    using tame_kept [OF t1] tame_kept [OF t2] tame_kept [OF t3] kept_trans by blast+
  show ?case
  proof (cases a)
    case (Inl e)
    with Cons.prems(2) on k step show ?thesis by (auto split: if_splits sum.splits)
  next
    case (Inr m)
    show ?thesis
    proof (cases "\<not> sn_Supported s \<or> (\<exists>e. ms = Inl e)")
      case True
      with Inr Cons.prems(2) on k step show ?thesis by (auto split: if_splits)
    next
      case False
      then obtain l where l: "sn_Supported s" "ms = Inr l" by (cases ms) auto
      obtain n' errs' w4 where d: "delete_each mem_ops fl repo cutoff (map im_Digest (filter (due s cutoff) l)) n errs ?w3
          = ((n', errs'), w4)" by (metis prod.exhaust)
      have "kept has w w4"
        using delete_each_tame [OF assms kept_calm [OF k(3)] d] k(3) tame_kept kept_trans by blast
      with l Inr Cons.prems(2) on d step show ?thesis by auto
    qed
  qed
qed

lemma unlisted_kept:
  assumes "erase_ok fl has" "calm has w"
  shows "\<exists>n err w'. unlisted mem_ops fl repo cutoff w = Some ((n, err), w') \<and> kept has w w'"
proof -
  have g: "mem_good (w_ix w)" "\<not> mem_intx (w_ix w)" using assms(2) by (auto simp: calm_def)
  from snapshot_pages.read_pages_all [where n = 500 and after = "''''" and acc = "[]" and repo = repo, OF _ g(1)]
  obtain r x1 where rp: "read_pages 500 (\<lambda>p. ix_snap_list mem_ops repo p) sn_Subject '''' [] (w_ix w) = Some (r, x1)"
    by auto
  have same: "mem_good x1 \<and> (mem_seen x1, mem_intx x1) = (mem_seen (w_ix w), mem_intx (w_ix w))"
    using read_pages_same [OF rp, where I = mem_good and S = "\<lambda>x. (mem_seen x, mem_intx x)"]
      mem.opD [OF mem.snap_list_law] g by (auto simp: snap_list_spec_def)
  then have k: "kept has w (w\<lparr>w_ix := x1\<rparr>)" using assms(2) by (simp add: kept_def calm_def)
  show ?thesis
  proof (cases r)
    case (Inl e)
    with rp k show ?thesis by (auto simp: unlisted_def)
  next
    case (Inr snaps)
    obtain n errs w2 where u: "unlisted_each mem_ops fl repo cutoff snaps 0 [] (w\<lparr>w_ix := x1\<rparr>) = ((n, errs), w2)"
      by (metis prod.exhaust)
    with rp Inr kept_trans [OF k unlisted_each_kept [OF assms(1) kept_calm [OF k] u]] show ?thesis
      by (auto simp: unlisted_def)
  qed
qed

lemma untagged_kept:
  assumes "erase_ok fl has" "calm has w"
  shows "\<exists>n err w'. untagged mem_ops fl c repo w = Some ((n, err), w') \<and> kept has w w'"
proof -
  obtain n err w1 where u: "untaggedBefore mem_ops fl repo (c_Now c - c_Untagged c) w = Some ((n, err), w1)" "kept has w w1"
    using untaggedBefore_tame [OF assms] by blast
  obtain m merr w2 where l: "unlisted mem_ops fl repo (c_Now c - c_Untagged c) w1 = Some ((m, merr), w2)" "kept has w1 w2"
    using unlisted_kept [OF assms(1) kept_calm [OF u(2)]] by blast
  show ?thesis using u(1) l(1) kept_trans [OF u(2) l(2)] by (simp add: untagged_def Let_def)
qed

lemma evict_kept:
  assumes "erase_ok fl has" "calm has w"
  shows "\<exists>n m err w'. evict mem_ops fl c repo keep w = Some ((n, m, err), w') \<and> kept has w w'"
proof -
  let ?cut = "c_Now c - keep"
  obtain a x1 where a: "ix_tag_all mem_ops repo (w_ix w) = (a, x1)" by force
  have k1: "kept has w (w\<lparr>w_ix := x1\<rparr>)"
    using index_tame [OF assms(2) mem.tag_all_law a] tame_kept by (fastforce simp: tag_all_spec_def)
  show ?thesis
  proof (cases a)
    case (Inl e)
    with a k1 show ?thesis by (simp add: evict_def Let_def)
  next
    case (Inr tags)
    define ts where "ts = filter (\<lambda>t. \<not> latest [tg_PulledAt t, tg_MovedAt t] > ?cut) tags"
    obtain n errs x2 where e: "erase_tags mem_ops repo ts 0 [] (w_ix (w\<lparr>w_ix := x1\<rparr>)) = ((n, errs), x2)"
      by (metis prod.exhaust)
    have k2: "kept has w (w\<lparr>w_ix := x2\<rparr>)"
      using kept_trans [OF k1 erase_tags_kept [OF kept_calm [OF k1] e]] by simp
    obtain m merr w3 where u: "untaggedBefore mem_ops fl repo ?cut (w\<lparr>w_ix := x2\<rparr>) = Some ((m, merr), w3)"
      "kept has (w\<lparr>w_ix := x2\<rparr>) w3"
      using untaggedBefore_tame [OF assms(1) kept_calm [OF k2]] by blast
    obtain l lerr w4 where l: "unlisted mem_ops fl repo ?cut w3 = Some ((l, lerr), w4)" "kept has w3 w4"
      using unlisted_kept [OF assms(1) kept_calm [OF u(2)]] by blast
    have "kept has w w4" using k2 u(2) l(2) kept_trans by blast
    with a Inr e u(1) l(1) show ?thesis by (simp add: evict_def Let_def ts_def)
  qed
qed

section \<open>Orphans\<close>

lemma orphan_body_ok:
  "op_ok mem_good mem_seen mem_outer mem_intx orphans_shrink (orphan_body mem_ops repo s cutoff)"
  unfolding op_ok_def
proof (intro allI impI)
  fix x r x' assume g: "mem_good x" and b: "orphan_body mem_ops repo s cutoff x = (r, x')"
  let ?ok = "\<lambda>y. mem_good y \<and> mem_intx y = mem_intx x \<and> mem_outer y = (if mem_intx x then mem_outer x else mem_seen y) \<and>
      orphans_shrink (mem_seen x) r (mem_seen y)"
  have refl: "orphans_shrink v r v" for v :: rows by (simp add: orphans_shrink_def orphans_only_def) (metis rows.surjective rows.update_convs(5))
  obtain a x1 where a: "ix_orphan_get mem_ops repo s x = (a, x1)" by force
  from mem.opD [OF mem.orphan_get_law g a] have x1: "mem_good x1" "mem_intx x1 = mem_intx x"
    "mem_outer x1 = (if mem_intx x then mem_outer x else mem_seen x1)" "mem_seen x1 = mem_seen x"
    by (auto simp: orphan_get_spec_def)
  obtain m x2 where m: "ix_get mem_ops repo s x1 = (m, x2)" by force
  from mem.opD [OF mem.get_law x1(1) m] x1 have x2: "mem_good x2" "mem_intx x2 = mem_intx x"
    "mem_outer x2 = (if mem_intx x then mem_outer x else mem_seen x2)" "mem_seen x2 = mem_seen x"
    by (auto simp: get_spec_def)
  obtain rs x3 where rs: "ix_referrers mem_ops repo s '''' x2 = (rs, x3)" by force
  from mem.opD [OF mem.referrers_law x2(1) rs] x2 have x3: "mem_good x3" "mem_intx x3 = mem_intx x"
    "mem_outer x3 = (if mem_intx x then mem_outer x else mem_seen x3)" "mem_seen x3 = mem_seen x"
    by (auto simp: referrers_spec_def)
  have er: "?ok z" if "ix_orphan_erase mem_ops repo s y = (q, z)" "y = x2 \<or> y = x3" for q y z
  proof -
    have y: "mem_good y" "mem_intx y = mem_intx x" "mem_outer y = (if mem_intx x then mem_outer x else mem_seen y)" "mem_seen y = mem_seen x"
      using that(2) x2 x3 by auto
    from mem.opD [OF mem.orphan_erase_law y(1) that(1)] y show ?thesis
      by (auto simp: orphans_shrink_def orphans_only_def)
  qed
  have oks: "?ok x1" "?ok x2" "?ok x3" using x1 x2 x3 refl by auto
  have "x' = x1 \<or> x' = x2 \<or> x' = x3 \<or> (\<exists>q y. ix_orphan_erase mem_ops repo s y = (q, x') \<and> (y = x2 \<or> y = x3))"
    using b a m rs by (auto simp: orphan_body_def split: sum.splits prod.splits if_splits)
  then show "?ok x'" using oks er by blast
qed

lemma orphan_page_tame:
  assumes "erase_ok fl has"
  shows "calm has w \<Longrightarrow> orphan_page mem_ops fl repo cutoff ss n errs w = (res, w') \<Longrightarrow> tame has w w'"
proof (induction ss arbitrary: n errs w)
  case Nil
  then show ?case by (auto intro: tame_refl)
next
  case (Cons s ss)
  obtain ce w0 where ce: "ctx_err w = (ce, w0)" by force
  have t0: "tame has w w0" using ctx_tame [OF Cons.prems(1) ce] .
  show ?case
  proof (cases ce)
    case (Some e)
    with Cons.prems(2) ce t0 show ?thesis by simp
  next
    case None
    have tx: "tame has u u'" if "calm has u" "on_ix (orphanReferrers mem_ops repo s cutoff) u = (q, u')" for u u' q
      using on_ix_world [OF that(2)] index_tx_tame [OF that(1) orphan_body_ok] fewer_orphans
      unfolding orphanReferrers_def by blast
    have step: "tame has w w'" if "tame has w u" "orphan_page mem_ops fl repo cutoff ss n' errs' u = (res, w')" for n' errs' u
      using Cons.IH [OF tame_calm [OF that(1)] that(2)] by (rule tame_trans [OF that(1)])
    obtain a w1 where a: "on_ix (orphanReferrers mem_ops repo s cutoff) w0 = (a, w1)" by force
    have t1: "tame has w w1" using tame_trans [OF t0 tx [OF tame_calm [OF t0] a]] .
    show ?thesis
    proof (cases a)
      case (Inl e)
      with Cons.prems(2) ce None a step [OF t1] show ?thesis by simp
    next
      case (Inr refs)
      obtain n' errs' w2 where d: "delete_orphans mem_ops fl repo s cutoff (map im_Digest refs) n errs w1 = ((n', errs'), w2)"
        by (metis prod.exhaust)
      have t2: "tame has w w2" using tame_trans [OF t1 delete_orphans_tame [OF assms tame_calm [OF t1] d]] .
      obtain b w3 where b: "on_ix (orphanReferrers mem_ops repo s cutoff) w2 = (b, w3)" by force
      have t3: "tame has w w3" using tame_trans [OF t2 tx [OF tame_calm [OF t2] b]] .
      from Cons.prems(2) ce None a Inr d b step [OF t2] step [OF t3] show ?thesis
        by (auto split: if_splits sum.splits)
    qed
  qed
qed

text \<open>The pages of candidates come to an end: every page but the last moves past its candidates.\<close>

lemma orphan_pages_loop_tame:
  assumes st: "erase_ok fl has"
  shows "calm has w \<Longrightarrow> finite U \<Longrightarrow> pending (mem_seen (w_ix w)) repo \<subseteq> U \<Longrightarrow>
    \<exists>res w'. orphan_pages_loop mem_ops fl repo cutoff after n errs w = Some (res, w') \<and> tame has w w'"
proof (induction "card {d \<in> U. after = '''' \<or> after < d}" arbitrary: after n errs w rule: less_induct)
  case less
  let ?A = "{d. ro_orphans (mem_seen (w_ix w)) repo d \<noteq> None}"
  obtain r x1 where l: "ix_orphan_list mem_ops repo \<lparr>pg_Last = after, pg_N = 500\<rparr> (w_ix w) = (r, x1)" by force
  have t1: "tame has w (w\<lparr>w_ix := x1\<rparr>)" and
    sp: "orphan_list_spec repo \<lparr>pg_Last = after, pg_N = 500\<rparr> (mem_seen (w_ix w)) r (mem_seen x1)"
    using index_tame [OF less.prems(1) mem.orphan_list_law l] by (auto simp: orphan_list_spec_def)
  show ?case
  proof (cases r)
    case (Inl e)
    with l t1 show ?thesis by (subst orphan_pages_loop.simps) auto
  next
    case (Inr cs)
    obtain q w2 where p: "orphan_page mem_ops fl repo cutoff (map oc_Subject cs) n errs (w\<lparr>w_ix := x1\<rparr>) = (q, w2)" by force
    have t2: "tame has w w2" using tame_trans [OF t1 orphan_page_tame [OF st tame_calm [OF t1] p]] .
    show ?thesis
    proof (cases "(\<exists>y. q = Inl y) \<or> length cs < 500")
      case True
      with l Inr p t2 show ?thesis by (subst orphan_pages_loop.simps) (auto split: sum.splits)
    next
      case False
      then obtain n' errs' where q: "q = Inr (n', errs')" "\<not> length cs < 500" by (cases q) auto
      have pg: "paged ?A \<lparr>pg_Last = after, pg_N = int 500\<rparr> (map oc_Subject cs)"
        using sp Inr by (simp add: orphan_list_spec_def)
      then have len: "length (map oc_Subject cs) = 500" using q(2) by (simp add: paged_def)
      note fp = orphan_pages.full_page [OF pg _ len, simplified]
      have lk: "last (map oc_Subject cs) = oc_Subject (last cs)" using len by (intro last_map) auto
      have sub: "?A \<subseteq> U" using less.prems(3) by (auto simp: pending_def)
      have "{d \<in> U. oc_Subject (last cs) = '''' \<or> oc_Subject (last cs) < d} \<subset> {d \<in> U. after = '''' \<or> after < d}"
        using fp(2,4,5) sub unfolding lk by (auto intro: less_trans)
      then have card: "card {d \<in> U. oc_Subject (last cs) = '''' \<or> oc_Subject (last cs) < d} < card {d \<in> U. after = '''' \<or> after < d}"
        using less.prems(2) by (auto intro!: psubset_card_mono)
      have "pending (mem_seen (w_ix w2)) repo \<subseteq> U"
        using t2 less.prems(3) unfolding tame_def fewer_def by blast
      from less.hyps [OF card tame_calm [OF t2] less.prems(2) this]
      obtain res w' where o: "orphan_pages_loop mem_ops fl repo cutoff (oc_Subject (last cs)) n' errs' w2 = Some (res, w')"
        "tame has w2 w'" by blast
      with l Inr p q tame_trans [OF t2 o(2)] show ?thesis by (subst orphan_pages_loop.simps) auto
    qed
  qed
qed

text \<open>Every call of \<open>Seed\<close> moves the scan on, so it ends.\<close>

lemma Seed_moves:
  assumes "\<not> sc_complete (scan_of s repo)" "orphans_Seed now repo s = (r, s')" "r \<noteq> Inr True"
    "wf_map (inner (st_manifests s) repo)"
  shows "r = Inr False" "\<not> sc_complete (scan_of s' repo)"
    "card {d. man s' repo d \<noteq> None \<and> d > sc_cursor (scan_of s' repo)} <
     card {d. man s repo d \<noteq> None \<and> d > sc_cursor (scan_of s repo)}"
proof -
  let ?c = "sc_cursor (scan_of s repo)"
  define all where "all = sort (filter (\<lambda>d. d > ?c) (map fst (inner (st_manifests s) repo)))"
  define keys where "keys = (if length all > seed_batch then take seed_batch all else all)"
  have f: "r = Inr (length all < seed_batch)"
    "s' = (fold (seed_key now repo) keys s)\<lparr>st_scans := AList.update repo
       \<lparr>sc_cursor = (if keys = [] then ?c else last keys), sc_complete = (length all < seed_batch)\<rparr>
       (st_scans (fold (seed_key now repo) keys s))\<rparr>"
    using assms(1,2) unfolding orphans_Seed_def Let_def all_def [symmetric] keys_def [symmetric] by auto
  then show "r = Inr False" using assms(3) by auto
  then have long: "\<not> length all < seed_batch" using f(1) by simp
  with f(2) show "\<not> sc_complete (scan_of s' repo)" by (simp add: scan_of_def)
  have ne: "keys \<noteq> []" using long by (auto simp: keys_def seed_batch_def)
  then have cur: "sc_cursor (scan_of s' repo) = last keys" using f(2) by (simp add: scan_of_def)
  have "set keys \<subseteq> set all" unfolding keys_def using set_take_subset by (auto dest: in_set_takeD)
  then have "last keys \<in> set all" using ne by (meson last_in_set subsetD)
  then have lk: "last keys > ?c" "man s repo (last keys) \<noteq> None"
    by (auto simp: all_def man_def map_of_eq_None_iff image_iff)
  have "st_manifests (fold (seed_key now repo) ks t) = st_manifests t" for ks t
    by (induction ks arbitrary: t) (auto simp: seed_key_def Let_def)
  then have m: "man s' repo = man s repo" by (auto simp: f(2) man_def fun_eq_iff)
  have "finite {d. man s repo d \<noteq> None}" using finite_dom_map_of [of "inner (st_manifests s) repo"] by (simp add: man_def dom_def)
  then have fin: "finite {d. man s repo d \<noteq> None \<and> d > ?c}" by (rule rev_finite_subset) auto
  have "{d. man s repo d \<noteq> None \<and> d > last keys} \<subset> {d. man s repo d \<noteq> None \<and> d > ?c}"
    using lk by (auto intro: less_trans)
  with fin show "card {d. man s' repo d \<noteq> None \<and> d > sc_cursor (scan_of s' repo)} <
     card {d. man s repo d \<noteq> None \<and> d > ?c}"
    unfolding m cur by (rule psubset_card_mono)
qed

lemma orphans_only_rows:
  "orphans_only v r v' \<Longrightarrow> referenced v' = referenced v \<and> ro_repos v' = ro_repos v"
  by (auto simp: orphans_only_def referenced_def indexed_def held_def fun_eq_iff)

lemma seed_all_kept:
  "calm has w \<Longrightarrow> \<exists>err w'. seed_all mem_ops repo w = Some (err, w') \<and> kept has w w'"
proof (induction "card {d. man (mi_s (vw_ix (w_ix w))) repo d \<noteq> None \<and> d > sc_cursor (scan_of (mi_s (vw_ix (w_ix w))) repo)}"
    arbitrary: w rule: less_induct)
  case less
  let ?s = "mi_s (vw_ix (w_ix w))"
  obtain ce w0 where ce: "ctx_err w = (ce, w0)" by force
  have t0: "tame has w w0" using ctx_tame [OF less.prems ce] .
  have w0: "w_ix w0 = w_ix w" using ctx_err_same(1) [of w] ce by simp
  show ?case
  proof (cases ce)
    case (Some e)
    with ce tame_kept [OF t0] show ?thesis by (subst seed_all.simps) simp
  next
    case None
    obtain r x1 where r: "ix_seed mem_ops repo (w_ix w0) = (r, x1)" by force
    have g: "mem_good (w_ix w)" "\<not> mem_intx (w_ix w)" using less.prems by (auto simp: calm_def)
    have k1: "kept has w (w0\<lparr>w_ix := x1\<rparr>)"
      using mem.opD [OF mem.seed_law g(1) r [unfolded w0]] g(2) tame_calm [OF t0] w0
      by (auto simp: kept_def calm_def whole_def dest!: orphans_only_rows)
    show ?thesis
    proof (cases "(\<exists>e. r = Inl e) \<or> r = Inr True")
      case True
      with ce None r k1 show ?thesis by (subst seed_all.simps) (auto split: sum.splits)
    next
      case False
      then have rF: "r = Inr False" by (cases r) auto
      obtain a ix where a: "acquire False (vw_ix (w_ix w)) = (a, ix)" by force
      have ac: "mi_s ix = ?s" using acquire_same [OF a] by auto
      obtain rr s' where f: "orphans_Seed (view_now (w_ix w)) repo ?s = (rr, s')" by force
      have x1: "rr = Inr False" "mi_s (vw_ix x1) = s'"
        using r w0 a g(2) f ac rF by (auto simp: mem_ops_sel view_do_def mem_intx_def split: sum.splits)
      have nc: "\<not> sc_complete (scan_of ?s repo)"
        using f x1(1) by (auto simp: orphans_Seed_def Let_def split: if_splits)
      have wf: "wf_map (inner (st_manifests ?s) repo)"
        using g(1) keyed_wf [OF wf_stateD(2)] by (simp add: mem_good_def)
      have "card {d. man s' repo d \<noteq> None \<and> d > sc_cursor (scan_of s' repo)} <
          card {d. man ?s repo d \<noteq> None \<and> d > sc_cursor (scan_of ?s repo)}"
        using Seed_moves(3) [OF nc f _ wf] x1(1) by simp
      then obtain err w' where "seed_all mem_ops repo (w0\<lparr>w_ix := x1\<rparr>) = Some (err, w')" "kept has (w0\<lparr>w_ix := x1\<rparr>) w'"
        using less.hyps [of "w0\<lparr>w_ix := x1\<rparr>"] kept_calm [OF k1] x1(2) by auto
      with ce None r rF kept_trans [OF k1] show ?thesis by (subst seed_all.simps) auto
    qed
  qed
qed

lemma orphaned_kept:
  assumes "erase_ok fl has" "calm has w"
  shows "\<exists>n err w'. orphaned mem_ops fl c repo w = Some ((n, err), w') \<and> kept has w w'"
proof -
  obtain a w1 where a: "(if c_RescanOrphans c then on_ix (ix_reset_scan mem_ops repo) w else (Inr (), w)) = (a, w1)" by force
  have k1: "kept has w w1"
  proof (cases "c_RescanOrphans c")
    case True
    then obtain x where x: "ix_reset_scan mem_ops repo (w_ix w) = (a, x)" "w1 = w\<lparr>w_ix := x\<rparr>"
      using a on_ix_world by fastforce
    then show ?thesis using index_tame [OF assms(2) mem.reset_law x(1)] tame_kept by auto
  qed (use a assms(2) kept_refl in auto)
  show ?thesis
  proof (cases a)
    case (Inl e)
    with a k1 show ?thesis by (simp add: orphaned_def)
  next
    case (Inr u)
    obtain err w2 where s: "seed_all mem_ops repo w1 = Some (err, w2)" "kept has w1 w2"
      using seed_all_kept [OF kept_calm [OF k1]] by blast
    show ?thesis
    proof (cases err)
      case (Some e)
      with a Inr s kept_trans [OF k1 s(2)] show ?thesis by (simp add: orphaned_def)
    next
      case None
      obtain res w3 where l: "orphan_pages_loop mem_ops fl repo (c_Now c - c_Orphaned c) '''' 0 [] w2 = Some (res, w3)"
        "tame has w2 w3"
        using orphan_pages_loop_tame [OF assms(1) kept_calm [OF s(2)] finite_pending subset_refl] by blast
      have "kept has w w3" using k1 s(2) tame_kept [OF l(2)] kept_trans by blast
      with a Inr s(1) None l(1) show ?thesis by (cases res) (simp add: orphaned_def)
    qed
  qed
qed

section \<open>Runs\<close>

lemma run_repo_kept:
  assumes "erase_ok fl has" "calm has w"
  shows "\<exists>res w'. run_repo mem_ops fl c name r errs w = Some (res, w') \<and> kept has w w'"
proof -
  obtain n err x1 where a: "retention mem_ops (c_Policy c) name (w_ix w) = ((n, err), x1)" by (metis prod.exhaust)
  let ?w1 = "w\<lparr>w_ix := x1\<rparr>"
  have k1: "kept has w ?w1" using retention_kept [OF assms(2) a] .
  show ?thesis
  proof (cases "c_Cache c name > 0")
    case True
    obtain t m e w2 where "evict mem_ops fl c name (c_Cache c name) ?w1 = Some ((t, m, e), w2)" "kept has ?w1 w2"
      using evict_kept [OF assms(1) kept_calm [OF k1]] by blast
    with True a kept_trans [OF k1] show ?thesis by (simp add: run_repo_def Let_def)
  next
    case False
    have "\<exists>m e w2. (if c_Orphaned c > 0 then orphaned mem_ops fl c name ?w1 else Some ((0, None), ?w1)) = Some ((m, e), w2) \<and>
        kept has ?w1 w2"
      using orphaned_kept [OF assms(1) kept_calm [OF k1]] kept_refl [OF kept_calm [OF k1]] by auto
    then obtain m e w2 where o: "(if c_Orphaned c > 0 then orphaned mem_ops fl c name ?w1 else Some ((0, None), ?w1)) =
        Some ((m, e), w2)" "kept has ?w1 w2" by blast
    have "\<exists>u ue w3. (if c_Untagged c > 0 then untagged mem_ops fl c name w2 else Some ((0, None), w2)) = Some ((u, ue), w3) \<and>
        kept has w2 w3"
      using untagged_kept [OF assms(1) kept_calm [OF o(2)]] kept_refl [OF kept_calm [OF o(2)]] by auto
    then obtain u ue w3 where u: "(if c_Untagged c > 0 then untagged mem_ops fl c name w2 else Some ((0, None), w2)) =
        Some ((u, ue), w3)" "kept has w2 w3" by blast
    have "kept has w w3" using k1 o(2) u(2) kept_trans by blast
    with False a o(1) u(1) show ?thesis by (simp add: run_repo_def Let_def)
  qed
qed

lemma run_page_kept:
  assumes "erase_ok fl has"
  shows "calm has w \<Longrightarrow> \<exists>res w'. run_page mem_ops fl c names r errs w = Some (res, w') \<and> kept has w w'"
proof (induction names arbitrary: r errs w)
  case Nil
  then show ?case by (auto intro: kept_refl)
next
  case (Cons name names)
  obtain ce w0 where ce: "ctx_err w = (ce, w0)" by force
  have k0: "kept has w w0" using tame_kept [OF ctx_tame [OF Cons.prems ce]] .
  show ?case
  proof (cases ce)
    case (Some e)
    with ce k0 show ?thesis by simp
  next
    case None
    obtain r' errs' w1 where a: "run_repo mem_ops fl c name r errs w0 = Some ((r', errs'), w1)" "kept has w0 w1"
      using run_repo_kept [OF assms kept_calm [OF k0]] by fastforce
    obtain res w' where b: "run_page mem_ops fl c names r' errs' w1 = Some (res, w')" "kept has w1 w'"
      using Cons.IH [OF kept_calm [OF a(2)]] by blast
    have "kept has w w'" using k0 a(2) b(2) kept_trans by blast
    with ce None a(1) b(1) show ?thesis by simp
  qed
qed

lemma run_loop_kept:
  assumes "erase_ok fl has"
  shows "calm has w \<Longrightarrow> \<exists>res w'. run_loop mem_ops fl c after r errs w = Some (res, w') \<and> kept has w w'"
proof (induction "card {n. ro_repos (mem_seen (w_ix w)) n \<noteq> None \<and> (after = '''' \<or> after < n)}"
    arbitrary: after r errs w rule: less_induct)
  case less
  let ?A = "{n. ro_repos (mem_seen (w_ix w)) n \<noteq> None}"
  obtain a x1 where l: "ix_repo_list mem_ops \<lparr>pg_Last = after, pg_N = 100\<rparr> (w_ix w) = (a, x1)" by force
  have t: "tame has w (w\<lparr>w_ix := x1\<rparr>)" and
    sp: "repo_list_spec \<lparr>pg_Last = after, pg_N = 100\<rparr> (mem_seen (w_ix w)) a (mem_seen x1)"
    using index_tame [OF less.prems mem.repo_list_law l] by (auto simp: repo_list_spec_def)
  have k1: "kept has w (w\<lparr>w_ix := x1\<rparr>)" using tame_kept [OF t] .
  show ?case
  proof (cases a)
    case (Inl e)
    with l k1 show ?thesis by (subst run_loop.simps) auto
  next
    case (Inr names)
    obtain q w2 where p: "run_page mem_ops fl c names r errs (w\<lparr>w_ix := x1\<rparr>) = Some (q, w2)" "kept has (w\<lparr>w_ix := x1\<rparr>) w2"
      using run_page_kept [OF assms kept_calm [OF k1]] by blast
    have k2: "kept has w w2" using kept_trans [OF k1 p(2)] .
    show ?thesis
    proof (cases "(\<exists>y. q = Inl y) \<or> length names < 100")
      case True
      with l Inr p(1) k2 show ?thesis by (subst run_loop.simps) (auto split: sum.splits)
    next
      case False
      then obtain r' errs' where q: "q = Inr (r', errs')" "\<not> length names < 100" by (cases q) auto
      have pg: "paged ?A \<lparr>pg_Last = after, pg_N = int 100\<rparr> names"
        using sp Inr by (simp add: repo_list_spec_def)
      then have len: "length names = 100" using q(2) by (simp add: paged_def)
      note fp = repo_pages.full_page [OF pg _ len, simplified]
      have "{n. n \<in> ?A \<and> (last names = '''' \<or> last names < n)} \<subset> {n. n \<in> ?A \<and> (after = '''' \<or> after < n)}"
        using fp(2,4,5) by (auto intro: less_trans)
      moreover have "ro_repos (mem_seen (w_ix w2)) = ro_repos (mem_seen (w_ix w))" using k2 by (simp add: kept_def)
      ultimately have "card {n. ro_repos (mem_seen (w_ix w2)) n \<noteq> None \<and> (last names = '''' \<or> last names < n)} <
          card {n. ro_repos (mem_seen (w_ix w)) n \<noteq> None \<and> (after = '''' \<or> after < n)}"
        using finite_rows(1) [of "w_ix w"] by (auto intro!: psubset_card_mono)
      from less.hyps [OF this kept_calm [OF k2]]
      obtain res w' where o: "run_loop mem_ops fl c (last names) r' errs' w2 = Some (res, w')" "kept has w2 w'" by blast
      with l Inr p(1) q kept_trans [OF k2 o(2)] show ?thesis by (subst run_loop.simps) auto
    qed
  qed
qed

lemma gc_Run_kept:
  assumes "erase_ok fl has" "asks_nothing fl has" "calm has w"
  shows "\<exists>r err w'. gc_Run mem_ops fl c w = Some ((r, err), w') \<and> calm has w'"
proof (cases "fl_pruner fl")
  case True
  obtain n err f1 where p: "fl_prune fl (w_fl w) = ((n, err), f1)" by (metis prod.exhaust)
  have "has f1 = has (w_fl w)" using assms(2) p unfolding asks_nothing_def by blast
  then have "calm has (w\<lparr>w_fl := f1\<rparr>)" using assms(3) by (simp add: calm_def whole_def)
  from run_loop_kept [OF assms(1) this] True p show ?thesis
    unfolding gc_Run_def using kept_calm by fastforce
next
  case False
  from run_loop_kept [OF assms(1,3)] show ?thesis
    unfolding gc_Run_def using False kept_calm by fastforce
qed

lemma repositories_calm:
  assumes "asks_nothing fl has" "calm has w"
  shows "\<exists>r w'. repositories mem_ops fl w = Some (r, w') \<and> calm has w'"
proof -
  obtain a w1 where a: "(if fl_namespacer fl then on_fl (fl_namespaces fl) w else (Inr [], w)) = (a, w1)" by force
  have c1: "calm has w1"
  proof (cases "fl_namespacer fl")
    case True
    with a have n: "on_fl (fl_namespaces fl) w = (a, w1)" by simp
    show ?thesis
      using calm_reads [OF assms(2) _ n] assms(1) unfolding asks_nothing_def store_reads_def by blast
  qed (use a assms(2) in auto)
  show ?thesis
  proof (cases a)
    case (Inl e)
    with a c1 show ?thesis by (simp add: repositories_def)
  next
    case (Inr nss)
    have g: "mem_good (w_ix w1)" "\<not> mem_intx (w_ix w1)" using c1 by (auto simp: calm_def)
    from repo_pages.read_pages_all [where n = 500 and after = "''''" and acc = "[]", OF _ g(1)]
    obtain r x2 where rp: "read_pages 500 (ix_repo_list mem_ops) (\<lambda>m. m) '''' [] (w_ix w1) = Some (r, x2)" by auto
    have "mem_good x2 \<and> (mem_seen x2, mem_intx x2) = (mem_seen (w_ix w1), mem_intx (w_ix w1))"
      using read_pages_same [OF rp, where I = mem_good and S = "\<lambda>x. (mem_seen x, mem_intx x)"]
        mem.opD [OF mem.repo_list_law] g by (auto simp: repo_list_spec_def)
    then have "calm has (w1\<lparr>w_ix := x2\<rparr>)" using c1 by (simp add: calm_def)
    with a Inr rp show ?thesis by (cases r) (simp_all add: repositories_def)
  qed
qed

lemma sweep_into_calm:
  assumes "erase_ok fl has" "asks_nothing fl has" "\<And>i w. calm has w \<Longrightarrow> calm has (others i w)" "calm has w"
  shows "\<exists>r' err w'. sweep_into mem_ops fl c others name r w = Some ((r', err), w') \<and> calm has w'"
proof -
  obtain sr err w' where s: "Sweep mem_ops fl c others name w = Some ((sr, err), w')" "calm has w'"
    using Sweep_calm [where others = others, OF assms(1,2) assms(3) assms(4)] by blast
  then show ?thesis by (cases err) (simp_all add: sweep_into_def)
qed

lemma full_pass_calm:
  assumes "erase_ok fl has" "asks_nothing fl has" "\<And>k i w. calm has w \<Longrightarrow> calm has (others k i w)"
  shows "calm has w \<Longrightarrow> \<exists>res w'. full_pass mem_ops fl c others k names busy r errs w = Some (res, w') \<and> calm has w'"
proof (induction names arbitrary: k busy r errs w)
  case (Cons name names)
  obtain ce w0 where ce: "ctx_err w = (ce, w0)" by force
  have c0: "calm has w0" using tame_calm [OF ctx_tame [OF Cons.prems ce]] .
  obtain r1 err w1 where s: "sweep_into mem_ops fl c (others k) name r w0 = Some ((r1, err), w1)" "calm has w1"
    using sweep_into_calm [where others = "others k", OF assms(1,2) assms(3) c0] by blast
  show ?case using Cons.IH [OF s(2)] ce s c0 by (cases ce; cases err) simp_all
qed simp

lemma full_retry_calm:
  assumes "erase_ok fl has" "asks_nothing fl has" "\<And>k i w. calm has w \<Longrightarrow> calm has (others k i w)"
  shows "calm has w \<Longrightarrow> \<exists>res w'. full_retry mem_ops fl c others k names r errs w = Some (res, w') \<and> calm has w'"
proof (induction names arbitrary: k r errs w)
  case (Cons name names)
  obtain r1 err w1 where s: "sweep_into mem_ops fl c (others k) name r w = Some ((r1, err), w1)" "calm has w1"
    using sweep_into_calm [where others = "others k", OF assms(1,2) assms(3) Cons.prems] by blast
  show ?case using Cons.IH [OF s(2)] s by (cases err) simp_all
qed simp

lemma Full_calm:
  assumes "erase_ok fl has" "asks_nothing fl has" "\<And>k i w. calm has w \<Longrightarrow> calm has (others k i w)" "calm has w"
  shows "\<exists>r err w'. Full mem_ops fl c others w = Some ((r, err), w') \<and> calm has w'"
proof -
  obtain online err w1 where a: "gc_Run mem_ops fl c w = Some ((online, err), w1)" "calm has w1"
    using gc_Run_kept [OF assms(1,2,4)] by blast
  obtain ns w2 where b: "repositories mem_ops fl w1 = Some (ns, w2)" "calm has w2"
    using repositories_calm [OF assms(2) a(2)] by blast
  show ?thesis
  proof (cases ns)
    case (Inl e)
    with a b show ?thesis by (simp add: Full_def Let_def)
  next
    case (Inr names)
    obtain q w3 where p: "full_pass mem_ops fl c others 0 names [] (no_full\<lparr>fr_Report := online\<rparr>) (opt_list err) w2 = Some (q, w3)"
      "calm has w3"
      using full_pass_calm [where others = others, OF assms(1,2) assms(3) b(2)] by blast
    show ?thesis
    proof (cases q)
      case (Inl x)
      with a b Inr p show ?thesis by (cases x) (simp add: Full_def Let_def)
    next
      case q: (Inr x)
      obtain r1 errs1 busy where x: "x = (r1, errs1, busy)" by (metis prod.exhaust)
      obtain res w4 where t: "full_retry mem_ops fl c others (length names) busy r1 errs1 w3 = Some (res, w4)" "calm has w4"
        using full_retry_calm [where others = others, OF assms(1,2) assms(3) p(2)] by blast
      with a b Inr p q x show ?thesis by (cases res) (simp add: Full_def Let_def)
    qed
  qed
qed

section \<open>Properties\<close>

text \<open>
  C32: a full collection returns, and breaks no reference.  Whatever the configuration, whichever
  calls of the index fail or time out on a lock, and whatever others do between the chunks of the
  sweeps as long as they break no reference either: if everything the index refers to was in the
  store, \<open>Full\<close> comes to its end and everything the index then refers to is in the store.
\<close>

theorem Full_breaks_no_reference:
  assumes "erase_ok fl has" and "asks_nothing fl has" and "calm has w"
    and "\<And>k i w. calm has w \<Longrightarrow> calm has (others k i w)"
  shows "\<exists>r err w'. Full mem_ops fl c others w = Some ((r, err), w') \<and> calm has w'"
  by (rule Full_calm [OF assms(1,2) assms(4) assms(3)])

lemma Full_breaks_no_reference_witness:
  "\<exists>r err w'. Full mem_ops sample_store sample_gc (\<lambda>k. late_push) sample_world = Some ((r, err), w') \<and>
    calm sample_has w'"
  by (rule Full_breaks_no_reference [OF sample_erase_ok sample_asks_nothing sample_calm]) (rule late_push_calm)

text \<open>
  C33: the run that repeats comes to its end, whatever fails, with the same guarantee: every loop
  over pages, over the orphans' scan and over the orphans' work list ends.
\<close>

theorem Run_returns:
  assumes "erase_ok fl has" and "asks_nothing fl has" and "calm has w"
  shows "\<exists>r err w'. gc_Run mem_ops fl c w = Some ((r, err), w') \<and> calm has w'"
  using assms by (rule gc_Run_kept)

lemma Run_returns_witness:
  "\<exists>r err w'. gc_Run mem_ops sample_store sample_gc sample_world = Some ((r, err), w') \<and> calm sample_has w'"
  by (rule Run_returns [OF sample_erase_ok sample_asks_nothing sample_calm])

end
