(* ===== verification/Decimal.thy ===== *)
theory Decimal
  imports Prelude
begin

text \<open>
  Decimal numbers as package strconv writes and reads them: \<open>Itoa\<close> and \<open>FormatInt(n, 10)\<close>,
  \<open>Atoi\<close> and \<open>ParseInt(s, 10, 64)\<close>, with the bounds of a 64-bit integer.
\<close>

definition digit_char :: "nat \<Rightarrow> char" where
  "digit_char n = char_of (48 + n)"

definition is_digit :: "char \<Rightarrow> bool" where
  "is_digit c = (48 \<le> (of_char c :: nat) \<and> (of_char c :: nat) \<le> 57)"

definition digit_val :: "char \<Rightarrow> nat" where
  "digit_val c = of_char c - 48"

fun nat_text :: "nat \<Rightarrow> string" where
  "nat_text n = (if n < 10 then [digit_char n] else nat_text (n div 10) @ [digit_char (n mod 10)])"

declare nat_text.simps [simp del]

definition itoa :: "int \<Rightarrow> string" where
  "itoa n = (if n < 0 then CHR ''-'' # nat_text (nat (- n)) else nat_text (nat n))"

definition parse_nat :: "string \<Rightarrow> nat option" where
  "parse_nat s = (if s = [] \<or> \<not> list_all is_digit s then None
     else Some (foldl (\<lambda>n c. 10 * n + digit_val c) 0 s))"

definition max_int64 :: int where
  "max_int64 = 9223372036854775807"

text \<open>What an \<open>int64\<close> operation makes of a result that does not fit: it wraps.\<close>

definition wrap64 :: "int \<Rightarrow> int" where
  "wrap64 n = (n + 2 ^ 63) mod 2 ^ 64 - 2 ^ 63"

text \<open>\<open>strconv.Atoi\<close>, whose errors the callers do not tell apart: an optional sign, digits, in range.\<close>

definition atoi :: "string \<Rightarrow> int option" where
  "atoi s =
     (let (neg, t) = (case s of
          c # cs \<Rightarrow> if c = CHR ''-'' then (True, cs) else if c = CHR ''+'' then (False, cs) else (False, s)
        | [] \<Rightarrow> (False, s))
      in case parse_nat t of
           None \<Rightarrow> None
         | Some n \<Rightarrow>
             (let v = (if neg then - int n else int n)
              in if v < - max_int64 - 1 \<or> v > max_int64 then None else Some v))"

lemma digit_char_props:
  assumes "n < 10"
  shows "is_digit (digit_char n)" "digit_val (digit_char n) = n"
proof -
  have "of_char (digit_char n) = 48 + n" using assms by (simp add: digit_char_def)
  then show "is_digit (digit_char n)" "digit_val (digit_char n) = n"
    using assms by (simp_all add: is_digit_def digit_val_def)
qed

lemma nat_text_ne [simp]: "nat_text n \<noteq> []"
  by (subst nat_text.simps) simp

lemma nat_text_digits: "list_all is_digit (nat_text n)"
  by (induction n rule: nat_text.induct, subst nat_text.simps) (auto simp: digit_char_props)

lemma nat_text_val: "foldl (\<lambda>n c. 10 * n + digit_val c) 0 (nat_text n) = n"
  by (induction n rule: nat_text.induct, subst nat_text.simps) (auto simp: digit_char_props)

lemma parse_nat_text [simp]: "parse_nat (nat_text n) = Some n"
  by (simp add: parse_nat_def nat_text_digits nat_text_val)

lemma nat_text_inj: "nat_text m = nat_text n \<Longrightarrow> m = n"
  using parse_nat_text by (metis option.inject)

lemma not_digit: "\<not> is_digit (CHR ''-'')" "\<not> is_digit (CHR ''+'')" "\<not> is_digit (CHR ''/'')"
  "\<not> is_digit (CHR '' '')" "\<not> is_digit (CHR '':'')" "\<not> is_digit (CHR '','')" "\<not> is_digit (CHR ''='')"
  by (simp_all add: is_digit_def)

lemma digits_not_in: "\<not> is_digit c \<Longrightarrow> c \<notin> set (nat_text n)"
  using nat_text_digits [of n] by (auto simp: list_all_iff)

lemma itoa_inj: "itoa m = itoa n \<Longrightarrow> m = n"
proof -
  assume e: "itoa m = itoa n"
  have "hd (nat_text k) \<noteq> CHR ''-''" for k
    using digits_not_in [OF not_digit(1), of k] hd_in_set [OF nat_text_ne [of k]] by metis
  then have "nat_text k \<noteq> CHR ''-'' # xs" for k xs by (metis list.sel(1))
  with e show "m = n"
    by (auto simp: itoa_def split: if_splits dest!: nat_text_inj) (metis)+
qed

lemma atoi_itoa:
  assumes "- max_int64 - 1 \<le> n" "n \<le> max_int64"
  shows "atoi (itoa n) = Some n"
proof (cases "n < 0")
  case True
  then show ?thesis using assms by (simp add: atoi_def itoa_def Let_def)
next
  case False
  obtain c cs where c: "nat_text (nat n) = c # cs" by (cases "nat_text (nat n)") auto
  then have "is_digit c" using nat_text_digits [of "nat n"] by simp
  then have "c \<noteq> CHR ''-''" "c \<noteq> CHR ''+''" using not_digit by auto
  then have "atoi (nat_text (nat n)) = Some n"
    using assms False c parse_nat_text [of "nat n"] by (simp add: atoi_def Let_def)
  with False show ?thesis by (simp add: itoa_def)
qed

lemma atoi_bounds: "atoi s = Some n \<Longrightarrow> - max_int64 - 1 \<le> n \<and> n \<le> max_int64"
  by (auto simp: atoi_def Let_def split: prod.splits option.splits if_splits)

end
