(* ===== verification/Gc_Runs.thy ===== *)
theory Gc_Runs
  imports Gc_Full Decimal
begin

text \<open>
  The record of collections (\<open>gc/runs.go\<close>), and how one is started: \<open>Collect\<close>, which runs one
  on the replica that wins the right to, and \<open>Trigger\<close>, which starts a full one in the
  background unless this process runs one already.
\<close>

section \<open>Runs\<close>

datatype run_state = StateRunning | StateDone | StateFailed

datatype run_kind = KindOnline | KindFull

datatype run_trigger = TriggerSchedule | TriggerAdmin | TriggerCli

text \<open>\<open>Error\<close> is the error a run ended with, its text; no error is the empty text.\<close>

record gcrun =
  run_ID :: string
  run_Kind :: run_kind
  run_Trigger :: run_trigger
  run_State :: run_state
  run_Error :: "error option"
  run_Report :: report
  run_Repositories :: nat
  run_Blobs :: nat
  run_Bytes :: int
  run_Missing :: "string list"
  run_Started :: time
  run_Finished :: "time option"

definition new_run :: "string \<Rightarrow> run_kind \<Rightarrow> run_trigger \<Rightarrow> time \<Rightarrow> gcrun" where
  "new_run i kind trigger now =
     \<lparr>run_ID = i, run_Kind = kind, run_Trigger = trigger, run_State = StateRunning, run_Error = None,
      run_Report = no_report, run_Repositories = 0, run_Blobs = 0, run_Bytes = 0, run_Missing = [],
      run_Started = now, run_Finished = None\<rparr>"

definition run_finish :: "gcrun \<Rightarrow> full_report \<Rightarrow> error option \<Rightarrow> time \<Rightarrow> gcrun" where
  "run_finish r rep err at =
     (let r1 = r\<lparr>run_Report := fr_Report rep, run_Repositories := fr_Repositories rep, run_Blobs := fr_Blobs rep,
         run_Bytes := fr_Bytes rep, run_Missing := fr_Missing rep, run_State := StateDone\<rparr>;
          r2 = (case err of None \<Rightarrow> r1 | Some e \<Rightarrow> r1\<lparr>run_State := StateFailed, run_Error := Some e\<rparr>)
      in r2\<lparr>run_Finished := Some at\<rparr>)"

definition ErrRunNotFound :: error where
  "ErrRunNotFound = Other ''no such run''"

definition ErrRunning :: error where
  "ErrRunning = Other ''a full collection is already running''"

section \<open>Runs kept in memory\<close>

definition runs_Start :: "time \<Rightarrow> run_kind \<Rightarrow> run_trigger \<Rightarrow> (gcrun list, gcrun) op" where
  "runs_Start now kind trigger rs =
     (let r = new_run (itoa (int (length rs) + 1)) kind trigger now in (Inr r, rs @ [r]))"

fun replace_run :: "gcrun \<Rightarrow> gcrun list \<Rightarrow> gcrun list option" where
  "replace_run run [] = None"
| "replace_run run (r # rs) =
     (if run_ID r = run_ID run then Some (run # rs)
      else (case replace_run run rs of None \<Rightarrow> None | Some rs' \<Rightarrow> Some (r # rs')))"

definition runs_Finish :: "gcrun \<Rightarrow> (gcrun list, unit) op" where
  "runs_Finish run rs = (case replace_run run rs of None \<Rightarrow> (Inl ErrRunNotFound, rs) | Some rs' \<Rightarrow> (Inr (), rs'))"

definition runs_Get :: "string \<Rightarrow> (gcrun list, gcrun) op" where
  "runs_Get i rs = (case find (\<lambda>r. run_ID r = i) rs of None \<Rightarrow> (Inl ErrRunNotFound, rs) | Some r \<Rightarrow> (Inr r, rs))"

definition runs_List :: "int \<Rightarrow> (gcrun list, gcrun list) op" where
  "runs_List n rs = (let out = rev rs in (Inr (if n > 0 \<and> int (length out) > n then take (nat n) out else out), rs))"

text \<open>What a run is recorded by: an identifier of its own, the place it has in the list.\<close>

definition runs_ok :: "gcrun list \<Rightarrow> bool" where
  "runs_ok rs = (map run_ID rs = map (\<lambda>i. itoa (int i + 1)) [0..<length rs])"

lemma runs_ok_distinct: "runs_ok rs \<Longrightarrow> distinct (map run_ID rs)"
  unfolding runs_ok_def by (auto simp: distinct_map inj_on_def dest: itoa_inj)

lemma Start_ok: "runs_ok rs \<Longrightarrow> runs_Start now k t rs = (r, rs') \<Longrightarrow> runs_ok rs'"
  by (auto simp: runs_Start_def runs_ok_def new_run_def Let_def)

lemma replace_run_ids: "replace_run run rs = Some rs' \<Longrightarrow> map run_ID rs' = map run_ID rs"
  by (induction rs arbitrary: rs') (auto split: if_splits option.splits)

lemma replace_run_None: "replace_run run rs = None \<longleftrightarrow> run_ID run \<notin> run_ID ` set rs"
  by (induction rs) (auto split: option.splits)

lemma replace_run_find:
  "replace_run run rs = Some rs' \<Longrightarrow>
   find (\<lambda>r. run_ID r = i) rs' = (if i = run_ID run then Some run else find (\<lambda>r. run_ID r = i) rs)"
  by (induction rs arbitrary: rs') (auto split: if_splits option.splits)

lemma Finish_ok: "runs_ok rs \<Longrightarrow> runs_Finish run rs = (r, rs') \<Longrightarrow> runs_ok rs'"
  by (auto simp: runs_Finish_def runs_ok_def replace_run_ids map_eq_imp_length_eq [OF replace_run_ids] split: option.splits)

lemma find_append: "find P (xs @ ys) = (case find P xs of None \<Rightarrow> find P ys | Some x \<Rightarrow> Some x)"
  by (induction xs) auto

section \<open>A collection\<close>

text \<open>
  The state of a collector: what runs are recorded, when there is somewhere to record them, and
  the full run in progress in this process.  \<open>cl_work\<close> is the collection that a background
  goroutine has been started for.
\<close>

record ('x, 'f) collector =
  cl_world :: "('x, 'f) world"
  cl_runs :: "gcrun list option"
  cl_full :: "gcrun option"
  cl_work :: "gcrun list"

text \<open>\<open>c.c.Runs.Start\<close>, or the run as it is when runs are not recorded.\<close>

definition start_run :: "gc_config \<Rightarrow> run_kind \<Rightarrow> run_trigger \<Rightarrow> (('x, 'f) collector, gcrun) op" where
  "start_run c kind trigger s =
     (case cl_runs s of
        None \<Rightarrow> (Inr (new_run '''' kind trigger (c_Now c)), s)
      | Some rs \<Rightarrow> (case runs_Start (c_Now c) kind trigger rs of (r, rs') \<Rightarrow> (r, s\<lparr>cl_runs := Some rs'\<rparr>)))"

text \<open>
  What \<open>collect\<close> makes of the leader: no leader, or whether the work was done here and what
  \<open>Lead\<close> answered.
\<close>

datatype leader = NoLeader | Lead bool "error + bool"

definition collect_work :: "'x index_ops \<Rightarrow> 'f store_ops \<Rightarrow> gc_config \<Rightarrow> (nat \<Rightarrow> nat \<Rightarrow> ('x, 'f) world \<Rightarrow> ('x, 'f) world) \<Rightarrow>
    run_kind \<Rightarrow> ('x, 'f) world \<Rightarrow> ((full_report \<times> error option) \<times> ('x, 'f) world) option" where
  "collect_work ix fl c others kind w =
     (if kind = KindFull then Full ix fl c others w
      else (case gc_Run ix fl c w of
          None \<Rightarrow> None
        | Some ((rep, err), w') \<Rightarrow> Some ((no_full\<lparr>fr_Report := rep\<rparr>, err), w')))"

definition collect :: "'x index_ops \<Rightarrow> 'f store_ops \<Rightarrow> gc_config \<Rightarrow> leader \<Rightarrow>
    (nat \<Rightarrow> nat \<Rightarrow> ('x, 'f) world \<Rightarrow> ('x, 'f) world) \<Rightarrow> gcrun \<Rightarrow> ('x, 'f) collector \<Rightarrow>
    ((gcrun \<times> error option) \<times> ('x, 'f) collector) option" where
  "collect ix fl c ld others run s =
     (let here = (case ld of NoLeader \<Rightarrow> True | Lead b _ \<Rightarrow> b) in
      case (if here then collect_work ix fl c others (run_Kind run) (cl_world s)
            else Some ((no_full, None), cl_world s)) of
        None \<Rightarrow> None
      | Some ((rep, err), w) \<Rightarrow>
          (let err1 = (case ld of
               Lead _ (Inl e) \<Rightarrow> Some e
             | Lead _ (Inr won) \<Rightarrow> if won then err else Some (Other ''another replica is collecting'')
             | NoLeader \<Rightarrow> err);
               run1 = run_finish run rep err1 (c_Now c);
               s1 = s\<lparr>cl_world := w\<rparr>
           in case cl_runs s1 of
                None \<Rightarrow> Some ((run1, err1), s1)
              | Some rs \<Rightarrow>
                  (case runs_Finish run1 rs of
                     (Inl e, rs') \<Rightarrow> Some ((run1, if err1 = None then Some e else err1), s1\<lparr>cl_runs := Some rs'\<rparr>)
                   | (Inr _, rs') \<Rightarrow> Some ((run1, err1), s1\<lparr>cl_runs := Some rs'\<rparr>))))"

definition Collect :: "'x index_ops \<Rightarrow> 'f store_ops \<Rightarrow> gc_config \<Rightarrow> leader \<Rightarrow>
    (nat \<Rightarrow> nat \<Rightarrow> ('x, 'f) world \<Rightarrow> ('x, 'f) world) \<Rightarrow> run_kind \<Rightarrow> run_trigger \<Rightarrow> ('x, 'f) collector \<Rightarrow>
    ((gcrun \<times> error option) \<times> ('x, 'f) collector) option" where
  "Collect ix fl c ld others kind trigger s =
     (case start_run c kind trigger s of
        (Inl e, s1) \<Rightarrow> Some ((new_run '''' kind trigger (c_Now c), Some e), s1)
      | (Inr run, s1) \<Rightarrow> collect ix fl c ld others run s1)"

text \<open>\<open>Trigger\<close>, up to the goroutine it starts, and that goroutine once it is scheduled.\<close>

definition Trigger :: "gc_config \<Rightarrow> run_trigger \<Rightarrow> ('x, 'f) collector \<Rightarrow> (gcrun \<times> error option) \<times> ('x, 'f) collector" where
  "Trigger c trigger s =
     (case cl_full s of
        Some r \<Rightarrow> ((r, Some ErrRunning), s)
      | None \<Rightarrow>
          (case start_run c KindFull trigger s of
             (Inl e, s1) \<Rightarrow> ((new_run '''' KindFull trigger (c_Now c), Some e), s1)
           | (Inr run, s1) \<Rightarrow> ((run, None), s1\<lparr>cl_full := Some run, cl_work := run # cl_work s1\<rparr>)))"

definition background :: "'x index_ops \<Rightarrow> 'f store_ops \<Rightarrow> gc_config \<Rightarrow> leader \<Rightarrow>
    (nat \<Rightarrow> nat \<Rightarrow> ('x, 'f) world \<Rightarrow> ('x, 'f) world) \<Rightarrow> gcrun \<Rightarrow> ('x, 'f) collector \<Rightarrow> ('x, 'f) collector option" where
  "background ix fl c ld others run s =
     (case collect ix fl c ld others run s of
        None \<Rightarrow> None
      | Some (_, s1) \<Rightarrow> Some (s1\<lparr>cl_full := None, cl_work := remove1 run (cl_work s1)\<rparr>))"

text \<open>
  What happens to a collector: somebody triggers a full collection, a collection that was
  triggered is done, or one runs in the foreground; at any time, by any configuration in force.
\<close>

inductive collector_step :: "'x index_ops \<Rightarrow> 'f store_ops \<Rightarrow> ('x, 'f) collector \<Rightarrow> ('x, 'f) collector \<Rightarrow> bool"
  for ix :: "'x index_ops" and fl :: "'f store_ops" where
  triggered: "Trigger c trigger s = (res, s') \<Longrightarrow> collector_step ix fl s s'"
| finished: "run \<in> set (cl_work s) \<Longrightarrow> background ix fl c ld others run s = Some s' \<Longrightarrow> collector_step ix fl s s'"
| collected: "Collect ix fl c ld others kind trigger s = Some (res, s') \<Longrightarrow> collector_step ix fl s s'"

inductive_cases collector_stepE: "collector_step ix fl s s'"

inductive collector_reach :: "'x index_ops \<Rightarrow> 'f store_ops \<Rightarrow> ('x, 'f) collector \<Rightarrow> ('x, 'f) collector \<Rightarrow> bool"
  for ix :: "'x index_ops" and fl :: "'f store_ops" and s :: "('x, 'f) collector" where
  start: "collector_reach ix fl s s"
| step: "collector_reach ix fl s s1 \<Longrightarrow> collector_step ix fl s1 s2 \<Longrightarrow> collector_reach ix fl s s2"

text \<open>The collection in progress is the one that was started, and there is at most one.\<close>

definition one_full :: "('x, 'f) collector \<Rightarrow> bool" where
  "one_full s = (cl_work s = (case cl_full s of None \<Rightarrow> [] | Some r \<Rightarrow> [r]) \<and>
     (case cl_runs s of None \<Rightarrow> True | Some rs \<Rightarrow> runs_ok rs))"

lemma start_run_frame:
  "start_run c k t s = (r, s') \<Longrightarrow> cl_full s' = cl_full s \<and> cl_work s' = cl_work s \<and> cl_world s' = cl_world s \<and>
     (one_full s \<longrightarrow> one_full s')"
  by (auto simp: start_run_def one_full_def dest: Start_ok split: option.splits prod.splits)

lemma collect_frame:
  "collect ix fl c ld others run s = Some (r, s') \<Longrightarrow> cl_full s' = cl_full s \<and> cl_work s' = cl_work s \<and>
     (one_full s \<longrightarrow> one_full s')"
  by (auto simp: collect_def one_full_def Let_def dest: Finish_ok split: option.splits prod.splits sum.splits if_splits)

lemma step_one_full: "collector_step ix fl s s' \<Longrightarrow> one_full s \<Longrightarrow> one_full s'"
proof (induction rule: collector_step.induct)
  case (triggered c trigger s res s')
  then show ?case
    by (auto simp: Trigger_def one_full_def dest!: start_run_frame split: option.splits prod.splits sum.splits)
next
  case (finished run s c ld others s')
  then show ?case
    by (auto simp: background_def one_full_def dest!: collect_frame split: option.splits prod.splits)
next
  case (collected c ld others kind trigger s res s')
  then show ?case
    by (auto simp: Collect_def dest!: start_run_frame collect_frame split: prod.splits sum.splits)
qed

lemma reach_one_full: "collector_reach ix fl s s' \<Longrightarrow> one_full s \<Longrightarrow> one_full s'"
  by (induction rule: collector_reach.induct) (auto dest: step_one_full)

section \<open>Properties\<close>

text \<open>
  A run that was started is found under its identifier until it finishes, and then as it
  finished; finishing it changes no other run, and identifiers are never given twice.
\<close>

theorem runs_start_finish_get:
  assumes "runs_ok rs" and "runs_Start now kind trigger rs = (Inr run, rs1)"
  shows "runs_Get (run_ID run) rs1 = (Inr run, rs1) \<and> run_ID run \<notin> run_ID ` set rs \<and> runs_ok rs1 \<and>
    (case runs_Finish (run_finish run rep err at) rs1 of (r, rs2) \<Rightarrow>
       r = Inr () \<and> runs_ok rs2 \<and> fst (runs_Get (run_ID run) rs2) = Inr (run_finish run rep err at) \<and>
       (\<forall>i. i = run_ID run \<or> fst (runs_Get i rs2) = fst (runs_Get i rs1)))"
proof -
  have ok1: "runs_ok rs1" using Start_ok [OF assms] .
  have rs1: "rs1 = rs @ [run]" using assms(2) by (auto simp: runs_Start_def Let_def)
  have new: "run_ID run \<notin> run_ID ` set rs"
    using runs_ok_distinct [OF ok1] by (auto simp: rs1)
  have same: "run_ID (run_finish run rep err at) = run_ID run"
    by (simp add: run_finish_def Let_def split: option.splits)
  have "find (\<lambda>r. run_ID r = run_ID run) rs = None"
    using new unfolding find_None_iff by (metis image_eqI)
  then have get1: "runs_Get (run_ID run) rs1 = (Inr run, rs1)"
    by (simp add: runs_Get_def rs1 find_append)
  obtain rs2 where rs2: "replace_run (run_finish run rep err at) rs1 = Some rs2"
    using replace_run_None [of "run_finish run rep err at" rs1] same
    by (cases "replace_run (run_finish run rep err at) rs1") (auto simp: rs1)
  then have fin: "runs_Finish (run_finish run rep err at) rs1 = (Inr (), rs2)" by (simp add: runs_Finish_def)
  have "fst (runs_Get i rs2) = (if i = run_ID run then Inr (run_finish run rep err at) else fst (runs_Get i rs1))" for i
    using replace_run_find [OF rs2, of i] same by (simp add: runs_Get_def split: option.splits)
  with get1 new ok1 Finish_ok [OF ok1 fin] fin show ?thesis by simp
qed

lemma runs_start_finish_get_witness:
  "fst (runs_Get ''2'' (snd (runs_Start 5 KindFull TriggerCli [new_run ''1'' KindOnline TriggerSchedule 0]))) =
     Inr (new_run ''2'' KindFull TriggerCli 5)"
proof -
  have ok: "runs_ok [new_run ''1'' KindOnline TriggerSchedule 0]" by code_simp
  have st: "runs_Start 5 KindFull TriggerCli [new_run ''1'' KindOnline TriggerSchedule 0] =
      (Inr (new_run ''2'' KindFull TriggerCli 5),
       [new_run ''1'' KindOnline TriggerSchedule 0, new_run ''2'' KindFull TriggerCli 5])"
    by code_simp
  have i: "run_ID (new_run ''2'' KindFull TriggerCli 5) = ''2''" by (simp add: new_run_def)
  from runs_start_finish_get [OF ok st] show ?thesis by (simp add: st i)
qed



end
