(* ===== verification/Auth_Scope.thy ===== *)
theory Auth_Scope
  imports Auth_Policy
begin

text \<open>
  Scopes of the distribution token flow (\<open>auth/scope.go\<close>): what a challenge asks a client to
  ask for, and what the token endpoint reads of it.  A printed scope parses back.
\<close>

definition TypeRepository :: string where "TypeRepository = ''repository''"
definition TypeRegistry :: string where "TypeRegistry = ''registry''"

record scope =
  sc_Type :: string
  sc_Name :: string
  sc_Actions :: "string list"

definition scope_error :: error where
  "scope_error = Other ''want type:name:actions''"

definition ParseScope :: "string \<Rightarrow> error + scope" where
  "ParseScope v =
     (case (index_byte (CHR '':'') v, last_index_byte (CHR '':'') v) of
        (Some i, Some j) \<Rightarrow>
          (if i = 0 \<or> j \<le> i then Inl scope_error
           else
             (let t = take i v;
                  t1 = (case index_byte (CHR ''('') t of Some k \<Rightarrow> if k > 0 then take k t else t | None \<Rightarrow> t)
              in Inr \<lparr>sc_Type = t1, sc_Name = take (j - (i + 1)) (drop (i + 1) v),
                  sc_Actions = filter (\<lambda>a. a \<noteq> '''')
                    (map trim_space (split_on (CHR '','') (drop (j + 1) v)))\<rparr>))
      | _ \<Rightarrow> Inl scope_error)"

fun parse_each :: "string list \<Rightarrow> error + scope list" where
  "parse_each [] = Inr []"
| "parse_each (f # fs) =
     (case ParseScope f of
        Inl e \<Rightarrow> Inl e
      | Inr s \<Rightarrow> (case parse_each fs of Inl e \<Rightarrow> Inl e | Inr ss \<Rightarrow> Inr (s # ss)))"

definition ParseScopes :: "string list \<Rightarrow> error + scope list" where
  "ParseScopes vs = parse_each (concat (map Prelude.fields vs))"

definition scope_String :: "scope \<Rightarrow> string" where
  "scope_String s = sc_Type s @ '':'' @ sc_Name s @ '':'' @ join_with '','' (sc_Actions s)"

section \<open>Fields of a string\<close>

lemma fields_acc_word:
  "\<forall>c \<in> set w. \<not> is_space c \<Longrightarrow> fields_acc a (w @ s) = fields_acc (rev w @ a) s"
  by (induction w arbitrary: a) auto

lemma fields_word: "w \<noteq> [] \<Longrightarrow> \<forall>c \<in> set w. \<not> is_space c \<Longrightarrow> Prelude.fields w = [w]"
  using fields_acc_word [of w "[]" "[]"] by (simp add: Prelude.fields_def)

lemma is_space_blank [simp]: "is_space (CHR '' '')"
  by (simp add: is_space_def)

lemma fields_join:
  "\<forall>w \<in> set ws. w \<noteq> [] \<and> (\<forall>c \<in> set w. \<not> is_space c) \<Longrightarrow> Prelude.fields (join_with '' '' ws) = ws"
proof (induction "'' ''" ws rule: join_with.induct)
  case 1
  then show ?case by (simp add: Prelude.fields_def)
next
  case (2 w)
  then show ?case by (simp add: fields_word)
next
  case (3 w v ws)
  have "Prelude.fields (join_with '' '' (w # v # ws)) = fields_acc (rev w) ('' '' @ join_with '' '' (v # ws))"
    using fields_acc_word [of w "[]"] 3 by (simp add: Prelude.fields_def)
  also have "\<dots> = w # Prelude.fields (join_with '' '' (v # ws))"
    using 3 by (simp add: Prelude.fields_def)
  finally show ?case using 3 by simp
qed

section \<open>A printed scope parses back\<close>

text \<open>What can be written as a scope: a type and actions that hold none of its separators.\<close>

definition plain_action :: "string \<Rightarrow> bool" where
  "plain_action a = (a \<noteq> [] \<and> CHR '':'' \<notin> set a \<and> CHR '','' \<notin> set a \<and> (\<forall>c \<in> set a. \<not> is_space c))"

definition printable_scope :: "scope \<Rightarrow> bool" where
  "printable_scope s =
     (sc_Type s \<noteq> [] \<and> CHR '':'' \<notin> set (sc_Type s) \<and> CHR ''('' \<notin> set (sc_Type s) \<and>
      list_all plain_action (sc_Actions s))"

definition no_blanks :: "scope \<Rightarrow> bool" where
  "no_blanks s = (\<forall>c \<in> set (sc_Type s) \<union> set (sc_Name s). \<not> is_space c)"

lemma join_chars: "set (join_with sep xs) \<subseteq> set sep \<union> \<Union> (set ` set xs)"
  by (induction sep xs rule: join_with.induct) auto

lemma plain_action_trim: "plain_action a \<Longrightarrow> trim_space a = a"
  by (rule trim_space_id) (auto simp: plain_action_def)

lemma split_actions:
  assumes "list_all plain_action as"
  shows "filter (\<lambda>a. a \<noteq> '''') (map trim_space (split_on (CHR '','') (join_with '','' as))) = as"
proof (cases "as = []")
  case True
  then show ?thesis by (simp add: trim_space_def)
next
  case False
  have "split_on (CHR '','') (join_with '','' as) = as"
    using assms False by (intro split_on_join) (auto simp: list_all_iff plain_action_def)
  moreover have "map trim_space as = as"
    using assms by (intro map_idI) (auto simp: list_all_iff plain_action_trim)
  moreover have "filter (\<lambda>a. a \<noteq> '''') as = as"
    using assms by (auto simp: filter_id_conv list_all_iff plain_action_def)
  ultimately show ?thesis by simp
qed

lemma ParseScope_String:
  assumes "printable_scope s"
  shows "ParseScope (scope_String s) = Inr s"
proof -
  let ?t = "sc_Type s" and ?n = "sc_Name s" and ?a = "join_with '','' (sc_Actions s)"
  have t: "?t \<noteq> []" "CHR '':'' \<notin> set ?t" "CHR ''('' \<notin> set ?t" and as: "list_all plain_action (sc_Actions s)"
    using assms by (auto simp: printable_scope_def)
  have "CHR '':'' \<notin> set ?a"
    using join_chars [of "'',''" "sc_Actions s"] as by (auto simp: list_all_iff plain_action_def)
  then have j: "last_index_byte (CHR '':'') (scope_String s) = Some (length ?t + 1 + length ?n)"
    using last_index_byte_append [of "CHR '':''" ?a "?t @ '':'' @ ?n"] by (simp add: scope_String_def)
  have i: "index_byte (CHR '':'') (scope_String s) = Some (length ?t)"
    using index_byte_append [OF t(2), of "?n @ '':'' @ ?a"] by (simp add: scope_String_def)
  have "index_byte (CHR ''('') ?t = None" using t(3) by (simp add: index_byte_None)
  then show ?thesis
    using t(1) split_actions [OF as] by (simp add: ParseScope_def i j Let_def, simp add: scope_String_def)
qed

lemma String_no_blanks:
  assumes "printable_scope s" "no_blanks s"
  shows "scope_String s \<noteq> [] \<and> (\<forall>c \<in> set (scope_String s). \<not> is_space c)"
proof -
  have "\<not> is_space (CHR '':'')" "\<not> is_space (CHR '','')" by code_simp+
  then show ?thesis
    using assms join_chars [of "'',''" "sc_Actions s"]
    by (auto simp: scope_String_def printable_scope_def no_blanks_def list_all_iff plain_action_def)
qed

lemma parse_each_String: "list_all printable_scope ss \<Longrightarrow> parse_each (map scope_String ss) = Inr ss"
  by (induction ss) (auto simp: ParseScope_String)

text \<open>What an action's name is made of.\<close>

lemma actions_plain: "a \<in> set Actions \<or> a = ActionAll \<Longrightarrow> plain_action a"
proof -
  have "list_all plain_action (ActionAll # Actions)" by code_simp
  then show "a \<in> set Actions \<or> a = ActionAll \<Longrightarrow> plain_action a" by (auto simp: list_all_iff)
qed

lemma ParseActions_plain: "set as \<subseteq> insert ActionAll (set Actions) \<Longrightarrow> ParseActions as = as"
proof (induction as)
  case Nil
  then show ?case by (simp add: ParseActions_def)
next
  case (Cons a as)
  then have p: "plain_action a" by (intro actions_plain) auto
  then have "split_on (CHR '','') a = [a]" by (simp add: split_on_no_sep plain_action_def)
  with Cons p show ?case by (auto simp: ParseActions_def plain_action_trim)
qed

section \<open>Properties\<close>

text \<open>
  A list of scopes with the separators in none of their types and actions, printed with
  blanks between them as a challenge prints them, is read back by the token endpoint as it was,
  whatever their names hold besides blanks, a host with a port included.
\<close>

theorem scopes_roundtrip:
  assumes "list_all printable_scope ss" and "list_all no_blanks ss"
  shows "ParseScopes [join_with '' '' (map scope_String ss)] = Inr ss"
proof -
  have "Prelude.fields (join_with '' '' (map scope_String ss)) = map scope_String ss"
    using assms String_no_blanks by (intro fields_join) (auto simp: list_all_iff)
  then show ?thesis using parse_each_String [OF assms(1)] by (simp add: ParseScopes_def)
qed

lemma scopes_roundtrip_witness:
  "ParseScopes [''repository:localhost:5000/acme/app:pull,push registry:catalog:*''] =
     Inr [\<lparr>sc_Type = ''repository'', sc_Name = ''localhost:5000/acme/app'', sc_Actions = [''pull'', ''push'']\<rparr>,
          \<lparr>sc_Type = ''registry'', sc_Name = ''catalog'', sc_Actions = [''*'']\<rparr>]"
proof -
  let ?ss = "[\<lparr>sc_Type = ''repository'', sc_Name = ''localhost:5000/acme/app'', sc_Actions = [''pull'', ''push'']\<rparr>,
    \<lparr>sc_Type = ''registry'', sc_Name = ''catalog'', sc_Actions = [''*'']\<rparr>]"
  have "list_all printable_scope ?ss" "list_all no_blanks ?ss" by code_simp+
  from scopes_roundtrip [OF this] show ?thesis by (simp add: scope_String_def)
qed

end
