(* ===== verification/Auth_Token.thy ===== *)
theory Auth_Token
  imports Auth_Scope
begin

text \<open>
  The tokens the registry issues and checks (\<open>auth/token.go\<close>, and the login tokens of
  \<open>auth/login.go\<close>): access tokens, which say what their bearer may do, and login tokens, which
  stand in for a credential.  Package go-jose, which signs and parses them, is not part of the
  repository and is a parameter; \<open>jose_ok\<close> states what is documented of it.
\<close>

definition Second :: duration where "Second = 1000000000"
definition Minute :: duration where "Minute = 60 * Second"

record access =
  ac_Type :: string
  ac_Name :: string
  ac_Actions :: "string list"

record claims =
  tk_Issuer :: string
  tk_Subject :: string
  tk_Audience :: "string list"
  tk_Expiry :: time
  tk_NotBefore :: time
  tk_IssuedAt :: time
  tk_ID :: string
  tk_Access :: "access list"
  tk_Refused :: "access list"
  tk_Provider :: string
  tk_Carried :: "(string, claim) gomap"
  tk_Use :: string

section \<open>Package go-jose, a parameter\<close>

text \<open>
  A parsed token has the identifiers of its headers, and answers its claims to a key its
  signature verifies under: as an access token and as a login token, whose type has no access.
  \<open>jo_json\<close> is what a map of claims is once it went through JSON, \<open>jo_date\<close> a numeric date.
\<close>

record jws =
  jw_headers :: "string list"
  jw_claims :: "string \<Rightarrow> claims option"
  jw_login :: "string \<Rightarrow> claims option"

record jose_ops =
  jo_date :: "time \<Rightarrow> time"
  jo_json :: "(string, claim) gomap \<Rightarrow> (string, claim) gomap"
  jo_sign :: "claims \<Rightarrow> error + string"
  jo_parse :: "string \<Rightarrow> jws option"
  jo_validate :: "claims \<Rightarrow> string \<Rightarrow> string \<Rightarrow> time \<Rightarrow> duration \<Rightarrow> bool"

section \<open>The issuer\<close>

text \<open>\<open>is_keys\<close> is the public keys under their identifiers; the first is the one that signs.\<close>

record issuer =
  is_name :: string
  is_service :: string
  is_ttl :: duration
  is_keys :: "(string \<times> string) list"
  is_jose :: jose_ops

text \<open>What both kinds of token say.\<close>

definition std_claims :: "issuer \<Rightarrow> time \<Rightarrow> string \<Rightarrow> subject \<Rightarrow> time \<Rightarrow> claims" where
  "std_claims i now jti s exp =
     (let d = jo_date (is_jose i)
      in \<lparr>tk_Issuer = is_name i, tk_Subject = s_ID s, tk_Audience = [is_service i], tk_Expiry = d exp,
          tk_NotBefore = d (now - Minute), tk_IssuedAt = d now, tk_ID = jti, tk_Access = [], tk_Refused = [],
          tk_Provider = s_Provider s, tk_Carried = s_Claims s, tk_Use = ''''\<rparr>)"

definition token_expiry :: "issuer \<Rightarrow> time \<Rightarrow> subject \<Rightarrow> time" where
  "token_expiry i now s =
     (let e = now + is_ttl i
      in if s_CredentialExpiry s \<noteq> 0 \<and> s_CredentialExpiry s < e then s_CredentialExpiry s else e)"

definition Issue :: "issuer \<Rightarrow> time \<Rightarrow> string \<Rightarrow> subject \<Rightarrow> access list \<Rightarrow> access list \<Rightarrow> error + (string \<times> claims)" where
  "Issue i now jti s acc refused =
     (let c = (std_claims i now jti s (token_expiry i now s))\<lparr>tk_Access := acc, tk_Refused := refused\<rparr>
      in case jo_sign (is_jose i) c of Inl e \<Rightarrow> Inl e | Inr t \<Rightarrow> Inr (t, c))"

definition Who :: "claims \<Rightarrow> subject" where
  "Who c = \<lparr>s_ID = tk_Subject c, s_Provider = tk_Provider c, s_Claims = tk_Carried c,
     s_CredentialExpiry = 0, s_Via = ''''\<rparr>"

definition Verify :: "issuer \<Rightarrow> time \<Rightarrow> string \<Rightarrow> claims option" where
  "Verify i now token =
     (case jo_parse (is_jose i) token of
        None \<Rightarrow> None
      | Some t \<Rightarrow>
          (case jw_headers t of
             [] \<Rightarrow> None
           | kid # _ \<Rightarrow>
               (case filter (\<lambda>k. fst k = kid) (is_keys i) of
                  [] \<Rightarrow> None
                | k # _ \<Rightarrow>
                    (case jw_claims t (snd k) of
                       None \<Rightarrow> None
                     | Some c \<Rightarrow>
                         if tk_Use c \<noteq> '''' then None
                         else if \<not> jo_validate (is_jose i) c (is_name i) (is_service i) now (30 * Second) then None
                         else Some c))))"

section \<open>Login tokens (\<open>auth/login.go\<close>)\<close>

definition useLogin :: string where "useLogin = ''login''"

definition IssueLogin :: "issuer \<Rightarrow> time \<Rightarrow> string \<Rightarrow> subject \<Rightarrow> duration \<Rightarrow> error + (string \<times> time)" where
  "IssueLogin i now jti s ttl =
     (let exp = now + ttl; c = (std_claims i now jti s exp)\<lparr>tk_Use := useLogin\<rparr>
      in case jo_sign (is_jose i) c of Inl e \<Rightarrow> Inl e | Inr t \<Rightarrow> Inr (t, exp))"

definition VerifyLogin :: "issuer \<Rightarrow> time \<Rightarrow> string \<Rightarrow> auth_error + subject" where
  "VerifyLogin i now token =
     (if count_list token (CHR ''.'') \<noteq> 2 then Inl ErrNotMine
      else
        (case jo_parse (is_jose i) token of
           None \<Rightarrow> Inl ErrNotMine
         | Some t \<Rightarrow>
             (case jw_headers t of
                [] \<Rightarrow> Inl ErrNotMine
              | kid # _ \<Rightarrow>
                  (case filter (\<lambda>k. fst k = kid) (is_keys i) of
                     [] \<Rightarrow> Inl ErrNotMine
                   | k # _ \<Rightarrow>
                       (case jw_login t (snd k) of
                          None \<Rightarrow> Inl ErrNotMine
                        | Some c \<Rightarrow>
                            if tk_Use c \<noteq> useLogin then Inl ErrNotMine
                            else if \<not> jo_validate (is_jose i) c (is_name i) (is_service i) now (30 * Second)
                            then Inl ErrUnauthenticated
                            else Inr (Who c))))))"

definition LoginTokens :: "issuer \<Rightarrow> time \<Rightarrow> authenticator" where
  "LoginTokens i now =
     \<lparr>au_authenticate = (\<lambda>u p. VerifyLogin i now p), au_kind = Some ''exchange'', au_issuer = None,
      au_certifier = None, au_singular = False, au_bearer = False\<rparr>"

section \<open>What is relied on of go-jose\<close>

text \<open>
  A date is cut to the second; what was signed has two dots and no blank in it, parses, names the key that signs, and verifies
  under it as what was signed; validation is what the documentation of \<open>ValidateWithLeeway\<close> says.
\<close>

definition jose_ok :: "issuer \<Rightarrow> bool" where
  "jose_ok i =
     (let j = is_jose i in
      (\<forall>t. jo_date j t \<le> t \<and> t < jo_date j t + Second) \<and>
      (\<forall>c token. jo_sign j c = Inr token \<longrightarrow> is_keys i \<noteq> [] \<and> count_list token (CHR ''.'') = 2 \<and>
         (\<forall>x \<in> set token. \<not> is_space x) \<and>
         (\<exists>t. jo_parse j token = Some t \<and> jw_headers t = [fst (hd (is_keys i))] \<and>
            jw_claims t (snd (hd (is_keys i))) = Some (c\<lparr>tk_Carried := jo_json j (tk_Carried c)\<rparr>) \<and>
            jw_login t (snd (hd (is_keys i))) =
              Some (c\<lparr>tk_Carried := jo_json j (tk_Carried c), tk_Access := [], tk_Refused := []\<rparr>))) \<and>
      (\<forall>c iss svc now leeway. jo_validate j c iss svc now leeway \<longleftrightarrow>
         tk_Issuer c = iss \<and> svc \<in> set (tk_Audience c) \<and> tk_NotBefore c \<le> now + leeway \<and>
         now - leeway \<le> tk_Expiry c \<and> tk_IssuedAt c \<le> now + leeway))"

lemma jose_date:
  assumes "jose_ok i"
  shows "jo_date (is_jose i) t \<le> t" "t < jo_date (is_jose i) t + Second"
  using assms by (simp_all add: jose_ok_def Let_def)

lemma jose_valid:
  "jose_ok i \<Longrightarrow> jo_validate (is_jose i) c iss svc now leeway \<longleftrightarrow>
     tk_Issuer c = iss \<and> svc \<in> set (tk_Audience c) \<and> tk_NotBefore c \<le> now + leeway \<and>
     now - leeway \<le> tk_Expiry c \<and> tk_IssuedAt c \<le> now + leeway"
  by (simp add: jose_ok_def Let_def)

lemma jose_signed:
  assumes "jose_ok i" "jo_sign (is_jose i) c = Inr token"
  obtains kid key ks t where "is_keys i = (kid, key) # ks" "count_list token (CHR ''.'') = 2"
    "\<forall>x \<in> set token. \<not> is_space x"
    "jo_parse (is_jose i) token = Some t" "jw_headers t = [kid]"
    "jw_claims t key = Some (c\<lparr>tk_Carried := jo_json (is_jose i) (tk_Carried c)\<rparr>)"
    "jw_login t key = Some (c\<lparr>tk_Carried := jo_json (is_jose i) (tk_Carried c), tk_Access := [], tk_Refused := []\<rparr>)"
proof -
  have "is_keys i \<noteq> [] \<and> count_list token (CHR ''.'') = 2 \<and> (\<forall>x \<in> set token. \<not> is_space x) \<and>
      (\<exists>t. jo_parse (is_jose i) token = Some t \<and> jw_headers t = [fst (hd (is_keys i))] \<and>
        jw_claims t (snd (hd (is_keys i))) = Some (c\<lparr>tk_Carried := jo_json (is_jose i) (tk_Carried c)\<rparr>) \<and>
        jw_login t (snd (hd (is_keys i))) =
          Some (c\<lparr>tk_Carried := jo_json (is_jose i) (tk_Carried c), tk_Access := [], tk_Refused := []\<rparr>))"
    using assms unfolding jose_ok_def Let_def by blast
  then show thesis using that by (cases "is_keys i") auto
qed

text \<open>The two checks of a token that was signed here, as one condition each.\<close>

lemma Verify_signed:
  assumes "jose_ok i" "jo_sign (is_jose i) c = Inr token"
  shows "Verify i now token =
    (if tk_Use c = '''' \<and> jo_validate (is_jose i) (c\<lparr>tk_Carried := jo_json (is_jose i) (tk_Carried c)\<rparr>)
        (is_name i) (is_service i) now (30 * Second)
     then Some (c\<lparr>tk_Carried := jo_json (is_jose i) (tk_Carried c)\<rparr>) else None)"
  using assms by (rule jose_signed) (simp add: Verify_def)

lemma VerifyLogin_signed:
  assumes "jose_ok i" "jo_sign (is_jose i) c = Inr token"
  shows "VerifyLogin i now token =
    (if tk_Use c \<noteq> useLogin then Inl ErrNotMine
     else if jo_validate (is_jose i) (c\<lparr>tk_Carried := jo_json (is_jose i) (tk_Carried c), tk_Access := [], tk_Refused := []\<rparr>)
        (is_name i) (is_service i) now (30 * Second)
     then Inr (Who (c\<lparr>tk_Carried := jo_json (is_jose i) (tk_Carried c)\<rparr>)) else Inl ErrUnauthenticated)"
  using assms by (rule jose_signed) (simp add: VerifyLogin_def Who_def)

lemma std_claims_sel [simp]:
  "tk_Issuer (std_claims i now jti s exp) = is_name i" "tk_Audience (std_claims i now jti s exp) = [is_service i]"
  "tk_Expiry (std_claims i now jti s exp) = jo_date (is_jose i) exp"
  "tk_NotBefore (std_claims i now jti s exp) = jo_date (is_jose i) (now - Minute)"
  "tk_IssuedAt (std_claims i now jti s exp) = jo_date (is_jose i) now"
  "tk_Subject (std_claims i now jti s exp) = s_ID s" "tk_Provider (std_claims i now jti s exp) = s_Provider s"
  "tk_Carried (std_claims i now jti s exp) = s_Claims s" "tk_Use (std_claims i now jti s exp) = ''''"
  by (simp_all add: std_claims_def Let_def)

lemma token_expiry_bounds:
  "token_expiry i now s \<le> now + is_ttl i"
  "s_CredentialExpiry s = 0 \<or> token_expiry i now s \<le> s_CredentialExpiry s"
  by (auto simp: token_expiry_def Let_def)

lemma valid_std:
  assumes "jose_ok i" "tk_Issuer c = is_name i" "tk_Audience c = [is_service i]"
    "tk_Expiry c = jo_date (is_jose i) exp" "tk_NotBefore c = jo_date (is_jose i) (now - Minute)"
    "tk_IssuedAt c = jo_date (is_jose i) now"
  shows "now \<le> t \<Longrightarrow> t \<le> exp \<Longrightarrow> jo_validate (is_jose i) c (is_name i) (is_service i) t (30 * Second)"
    "jo_validate (is_jose i) c (is_name i) (is_service i) t (30 * Second) \<Longrightarrow> t \<le> exp + 30 * Second"
  using jose_date [OF assms(1), of exp] jose_date [OF assms(1), of now] jose_date [OF assms(1), of "now - Minute"]
  by (simp_all add: jose_valid [OF assms(1)] assms Second_def Minute_def)

end
