(* ===== verification/Http.thy ===== *)
theory Http
  imports Errors Decimal
begin

text \<open>
  Requests and responses as package net/http gives them to a handler, and the JSON values a
  handler writes.  A handler is a function from a request and the headers set so far to the
  response it writes; \<open>None\<close> is a handler that writes nothing.  What net/http parses before a
  handler sees it, the query, a form and the credentials of a Basic header, are fields of the
  request.
\<close>

section \<open>JSON\<close>

datatype json = JNull | JBool bool | JInt int | JStr string | JArr "json list" | JObj "(string \<times> json) list"

definition hex_digit :: "nat \<Rightarrow> char" where
  "hex_digit n = (if n < 10 then char_of (48 + n) else char_of (87 + n))"

text \<open>The escapes of \<open>encoding/json\<close>, which writes what HTML would read as markup as an escape.\<close>

definition json_escape :: "char \<Rightarrow> string" where
  "json_escape c =
     (if c = CHR 0x22 then [CHR 0x5C, CHR 0x22] else if c = CHR 0x5C then [CHR 0x5C, CHR 0x5C]
      else if c = CHR 0x08 then CHR 0x5C # ''b'' else if c = CHR 0x0C then CHR 0x5C # ''f''
      else if c = CHR 0x0A then CHR 0x5C # ''n'' else if c = CHR 0x0D then CHR 0x5C # ''r''
      else if c = CHR 0x09 then CHR 0x5C # ''t''
      else if (of_char c :: nat) < 32 \<or> c \<in> {CHR ''<'', CHR ''>'', CHR ''&''} then
        CHR 0x5C # ''u00'' @ [hex_digit (of_char c div 16), hex_digit (of_char c mod 16)]
      else [c])"

definition json_string :: "string \<Rightarrow> string" where
  "json_string s = CHR 0x22 # concat (map json_escape s) @ [CHR 0x22]"

fun json_text :: "json \<Rightarrow> string" where
  "json_text JNull = ''null''"
| "json_text (JBool b) = (if b then ''true'' else ''false'')"
| "json_text (JInt n) = itoa n"
| "json_text (JStr s) = json_string s"
| "json_text (JArr vs) = ''['' @ join_with '','' (map json_text vs) @ '']''"
| "json_text (JObj fs) =
     ''{'' @ join_with '','' (map (\<lambda>(k, v). json_string k @ '':'' @ json_text v) fs) @ ''}''"

section \<open>Requests\<close>

type_synonym url_values = "(string, string list) gomap"

text \<open>
  \<open>rq_Basic\<close> is what \<open>BasicAuth\<close> answers, \<open>rq_Form\<close> the form of the body or the error it does
  not parse with, \<open>rq_Cert\<close> the client certificate the connection verified, and
  \<open>rq_ContentLength\<close> is -1 when it is not known.  A body that breaks off is \<open>Inl\<close>.
\<close>

record request =
  rq_Method :: string
  rq_Path :: string
  rq_Query :: url_values
  rq_Header :: header
  rq_Host :: string
  rq_TLS :: bool
  rq_Cert :: "string option"
  rq_Basic :: "(string \<times> string) option"
  rq_Form :: "string + url_values"
  rq_ContentLength :: int
  rq_Body :: "error + string"

definition values_get :: "url_values \<Rightarrow> string \<Rightarrow> string" where
  "values_get q k = (case map_of q k of Some (v # vs) \<Rightarrow> v | _ \<Rightarrow> '''')"

definition query_get :: "request \<Rightarrow> string \<Rightarrow> string" where
  "query_get r k = values_get (rq_Query r) k"

definition query_has :: "request \<Rightarrow> string \<Rightarrow> bool" where
  "query_has r k = (map_of (rq_Query r) k \<noteq> None)"

definition query_all :: "url_values \<Rightarrow> string \<Rightarrow> string list" where
  "query_all q k = (case map_of q k of Some vs \<Rightarrow> vs | None \<Rightarrow> [])"

definition header_get :: "request \<Rightarrow> string \<Rightarrow> string" where
  "header_get r k = (case map_of (rq_Header r) k of Some v \<Rightarrow> v | None \<Rightarrow> '''')"

text \<open>\<open>strings.EqualFold\<close> on ASCII.\<close>

definition equal_fold :: "string \<Rightarrow> string \<Rightarrow> bool" where
  "equal_fold a b = (to_lower a = to_lower b)"

definition is_GET :: "request \<Rightarrow> bool" where
  "is_GET r = (rq_Method r = ''GET'' \<or> rq_Method r = ''HEAD'')"

section \<open>Responses\<close>

abbreviation hset :: "string \<Rightarrow> string \<Rightarrow> header \<Rightarrow> header" where
  "hset k v h \<equiv> AList.update k v h"

definition reply :: "header \<Rightarrow> int \<Rightarrow> response" where
  "reply h status = \<lparr>rs_status = status, rs_header = h, rs_body = NoBody\<rparr>"

text \<open>What is written of encoded JSON; a \<open>HEAD\<close> is answered without the body.\<close>

definition reply_bytes :: "header \<Rightarrow> request \<Rightarrow> int \<Rightarrow> string \<Rightarrow> string \<Rightarrow> response" where
  "reply_bytes h r status content_type b =
     \<lparr>rs_status = status,
      rs_header = hset ''Content-Length'' (itoa (int (length b))) (hset ''Content-Type'' content_type h),
      rs_body = (if rq_Method r = ''HEAD'' then NoBody else Bytes b)\<rparr>"

definition reply_json :: "header \<Rightarrow> request \<Rightarrow> int \<Rightarrow> string \<Rightarrow> json \<Rightarrow> response" where
  "reply_json h r status content_type v = reply_bytes h r status content_type (json_text v)"

text \<open>\<open>url.QueryEscape\<close>, and the encoding of a query with its keys in order.\<close>

definition unreserved :: "char \<Rightarrow> bool" where
  "unreserved c = ((CHR ''a'' \<le> c \<and> c \<le> CHR ''z'') \<or> (CHR ''A'' \<le> c \<and> c \<le> CHR ''Z'') \<or> is_digit c \<or>
     c \<in> {CHR ''-'', CHR ''_'', CHR ''.'', CHR ''~''})"

definition upper_hex :: "nat \<Rightarrow> char" where
  "upper_hex n = (if n < 10 then char_of (48 + n) else char_of (55 + n))"

definition query_escape :: "string \<Rightarrow> string" where
  "query_escape s = concat (map (\<lambda>c. if unreserved c then [c] else if c = CHR '' '' then ''+''
     else [CHR ''%'', upper_hex (of_char c div 16), upper_hex (of_char c mod 16)]) s)"

lemma json_text_examples:
  "json_text (JObj [(''name'', JStr ''a<b''), (''tags'', JArr [JStr ''x'', JInt 10])]) =
     CHR 0x7B # CHR 0x22 # ''name'' @ CHR 0x22 # '':'' @ CHR 0x22 # ''a'' @ CHR 0x5C # ''u003cb'' @ CHR 0x22 #
     '','' @ CHR 0x22 # ''tags'' @ CHR 0x22 # '':['' @ CHR 0x22 # ''x'' @ CHR 0x22 # '',10]}''"
  "query_escape ''a b/c'' = ''a+b%2Fc''"
  by code_simp+

lemma reply_sel [simp]:
  "rs_status (reply h n) = n" "rs_header (reply h n) = h" "rs_body (reply h n) = NoBody"
  "rs_status (reply_json h r n ct v) = n"
  by (simp_all add: reply_def reply_json_def reply_bytes_def)

end
