(* ===== verification/Auth_Guard.thy ===== *)
theory Auth_Guard
  imports Auth_Token Auth_Decisions Oci_Name Http
begin

text \<open>
  The registry's front door (\<open>auth/guard.go\<close>, \<open>auth/login.go\<close>, the certificates of
  \<open>auth/mtls.go\<close>): who a request is from, what they may do, the challenge that sends a client
  for a token, and the two endpoints that answer tokens.  The clock and the random identifier of
  a token are arguments.  The counts of logins and refusals are not modelled.
\<close>

section \<open>The guard and a caller\<close>

text \<open>\<open>gd_Policy\<close> is the policy in force, which a reload may have left \<open>nil\<close>.\<close>

record guard =
  gd_Policy :: "policy option"
  gd_Issuer :: issuer
  gd_Realm :: string
  gd_Name :: "(request \<Rightarrow> string \<Rightarrow> string) option"

text \<open>\<open>Open\<close> is the caller of a registry with no guard, told from others by identity.\<close>

datatype caller = Open | Caller subject "claims option" "policy option"

definition FromToken :: "caller \<Rightarrow> bool" where
  "FromToken c = (case c of Caller _ (Some _) _ \<Rightarrow> True | _ \<Rightarrow> False)"

definition caller_anonymous :: "caller \<Rightarrow> bool" where
  "caller_anonymous c = (case c of Open \<Rightarrow> True | Caller s _ _ \<Rightarrow> IsAnonymous s)"

text \<open>The first entry of a list of access for a name.\<close>

definition access_for :: "access list \<Rightarrow> string \<Rightarrow> string \<Rightarrow> access option" where
  "access_for acs t n = List.find (\<lambda>a. ac_Type a = t \<and> ac_Name a = n) acs"

definition Allowed :: "caller \<Rightarrow> string \<Rightarrow> action list \<Rightarrow> action list" where
  "Allowed c repo want =
     (case c of
        Open \<Rightarrow> want
      | Caller s (Some t) _ \<Rightarrow>
          (case access_for (tk_Access t) TypeRepository repo of
             Some a \<Rightarrow> intersect want (ac_Actions a)
           | None \<Rightarrow> [])
      | Caller s None p \<Rightarrow> Allow p s repo want)"

text \<open>The last entry decides what was refused.\<close>

definition refused_for :: "access list \<Rightarrow> string \<Rightarrow> string list" where
  "refused_for acs repo =
     foldl (\<lambda>r a. if ac_Type a = TypeRepository \<and> ac_Name a = repo then ac_Actions a else r) [] acs"

definition Refused :: "caller \<Rightarrow> string \<Rightarrow> action list \<Rightarrow> bool" where
  "Refused c repo actions =
     (case c of
        Caller s (Some t) _ \<Rightarrow> list_all (\<lambda>a. a \<in> set (refused_for (tk_Refused t) repo)) actions
      | _ \<Rightarrow> True)"

definition AllowedRegistry :: "caller \<Rightarrow> action list \<Rightarrow> action list" where
  "AllowedRegistry c want =
     (case c of
        Open \<Rightarrow> want
      | Caller s (Some t) _ \<Rightarrow>
          (case access_for (tk_Access t) TypeRegistry ''catalog'' of
             Some a \<Rightarrow> intersect want (ac_Actions a)
           | None \<Rightarrow> [])
      | Caller s None p \<Rightarrow> AllowRegistry p s want)"

definition CanPull :: "caller \<Rightarrow> string \<Rightarrow> bool" where
  "CanPull c repo =
     (case c of Open \<Rightarrow> True | Caller s _ p \<Rightarrow> length (Allow p s repo [ActionPull]) = 1)"

definition caller_CheckTag :: "caller \<Rightarrow> string \<Rightarrow> string \<Rightarrow> tag_op \<Rightarrow> tag_rule_error option" where
  "caller_CheckTag c repo tag op =
     (case c of Open \<Rightarrow> None | Caller _ _ p \<Rightarrow> CheckTag p (Allowed c repo [ActionAdmin]) repo tag op)"

section \<open>Who a request is from\<close>

definition policy_authenticator :: "policy option \<Rightarrow> authenticator" where
  "policy_authenticator p =
     \<lparr>au_authenticate = policy_authenticate p, au_kind = None, au_issuer = None, au_certifier = None,
      au_singular = False, au_bearer = False\<rparr>"

definition authenticate :: "guard \<Rightarrow> time \<Rightarrow> policy option \<Rightarrow> string \<Rightarrow> string \<Rightarrow> auth_error + subject" where
  "authenticate g now p u pw =
     chain_authenticate [policy_authenticator p, LoginTokens (gd_Issuer g) now] u pw"

definition certificate :: "request \<Rightarrow> policy option \<Rightarrow> subject option" where
  "certificate r p = (case rq_Cert r of None \<Rightarrow> None | Some c \<Rightarrow> policy_certificate p c)"

definition Presented :: "guard \<Rightarrow> request \<Rightarrow> bool" where
  "Presented g r =
     (header_get r ''Authorization'' \<noteq> '''' \<or>
      (case rq_Cert r of None \<Rightarrow> False | Some c \<Rightarrow> policy_certificate (gd_Policy g) c \<noteq> None))"

definition guard_Caller :: "guard \<Rightarrow> time \<Rightarrow> request \<Rightarrow> auth_error + caller" where
  "guard_Caller g now r =
     (let p = gd_Policy g; h = header_get r ''Authorization'' in
      if h = '''' then
        Inr (Caller (case certificate r p of Some s \<Rightarrow> s | None \<Rightarrow> anonymous_subject) None p)
      else
        (case cut (CHR '' '') h of (scheme, rest, _) \<Rightarrow>
           if to_lower scheme = ''bearer'' then
             (case Verify (gd_Issuer g) now (trim_space rest) of
                Some c \<Rightarrow> Inr (Caller (Who c) (Some c) p)
              | None \<Rightarrow>
                  (case policy_bearer p (trim_space rest) (is_name (gd_Issuer g)) of
                     Inl e \<Rightarrow> Inl ErrUnauthenticated
                   | Inr s \<Rightarrow> Inr (Caller s None p)))
           else if to_lower scheme = ''basic'' then
             (case rq_Basic r of
                None \<Rightarrow> Inl ErrUnauthenticated
              | Some (u, pw) \<Rightarrow>
                  (case authenticate g now p u pw of Inl e \<Rightarrow> Inl e | Inr s \<Rightarrow> Inr (Caller s None p)))
           else Inl ErrUnauthenticated))"

section \<open>The challenge\<close>

definition realm :: "guard \<Rightarrow> request \<Rightarrow> string" where
  "realm g r =
     (if gd_Realm g \<noteq> '''' then gd_Realm g
      else
        (let scheme = (if rq_TLS r \<or> equal_fold (header_get r ''X-Forwarded-Proto'') ''https'' then ''https'' else ''http'');
             v = header_get r ''X-Forwarded-Host'';
             host = (if v \<noteq> '''' then v else rq_Host r)
         in scheme @ ''://'' @ host @ ''/token''))"

definition quoted :: "string \<Rightarrow> string" where
  "quoted s = CHR 0x22 # s @ [CHR 0x22]"

definition scopes_text :: "scope list \<Rightarrow> string" where
  "scopes_text ss = join_with '' '' (map scope_String ss)"

definition Challenge :: "guard \<Rightarrow> request \<Rightarrow> scope list \<Rightarrow> bool \<Rightarrow> oci_error" where
  "Challenge g r ss insufficient =
     (let v = ''Bearer realm='' @ quoted (realm g r) @ '',service='' @ quoted (is_service (gd_Issuer g));
          v1 = (if ss \<noteq> [] then v @ '',scope='' @ quoted (scopes_text ss) else v);
          v2 = (if insufficient then v1 @ '',error='' @ quoted ''insufficient_scope'' else v1)
      in WithHeader (ErrUnauthorized NoDetail) ''WWW-Authenticate'' v2)"

section \<open>The token endpoint\<close>

definition repositoryActions :: "action list" where
  "repositoryActions = [ActionPull, ActionPush, ActionDelete, ActionTag, ActionAdmin]"

text \<open>What a scope asks of a repository, and of the registry, once its shorthands are read.\<close>

definition wanted_repo :: "action list \<Rightarrow> action list" where
  "wanted_repo want =
     (let w = (if ActionAll \<in> set want then repositoryActions else want)
      in if ActionPush \<in> set w \<and> ActionTag \<notin> set w then w @ [ActionTag] else w)"

definition wanted_registry :: "action list \<Rightarrow> action list" where
  "wanted_registry want = (if ActionAll \<in> set want then [ActionCatalog, ActionSearch] else want)"

definition grant_entry :: "string \<Rightarrow> string \<Rightarrow> action list \<Rightarrow> action list \<Rightarrow> access list \<times> access list" where
  "grant_entry t n want gr =
     (let no = filter (\<lambda>a. a \<notin> set gr) want
      in ([\<lparr>ac_Type = t, ac_Name = n, ac_Actions = gr\<rparr>],
          if no \<noteq> [] then [\<lparr>ac_Type = t, ac_Name = n, ac_Actions = no\<rparr>] else []))"

definition grant_scope :: "guard \<Rightarrow> request \<Rightarrow> subject \<Rightarrow> scope \<Rightarrow> access list \<times> access list" where
  "grant_scope g r s sc =
     (let p = gd_Policy g; want = ParseActions (sc_Actions sc) in
      if sc_Type sc = TypeRepository then
        (let n = (case gd_Name g of None \<Rightarrow> sc_Name sc | Some f \<Rightarrow> f r (sc_Name sc))
         in if \<not> ValidName n then ([], [])
            else grant_entry TypeRepository n (wanted_repo want) (Allow p s n (wanted_repo want)))
      else if sc_Type sc = TypeRegistry then
        (if sc_Name sc \<noteq> ''catalog'' then ([], [])
         else grant_entry TypeRegistry (sc_Name sc) (wanted_registry want) (AllowRegistry p s (wanted_registry want)))
      else ([], []))"

definition grant_scopes :: "guard \<Rightarrow> request \<Rightarrow> subject \<Rightarrow> scope list \<Rightarrow> access list \<times> access list" where
  "grant_scopes g r s ss =
     (concat (map (\<lambda>sc. fst (grant_scope g r s sc)) ss), concat (map (\<lambda>sc. snd (grant_scope g r s sc)) ss))"

definition issue_for :: "guard \<Rightarrow> time \<Rightarrow> string \<Rightarrow> request \<Rightarrow> subject \<Rightarrow> scope list \<Rightarrow> error + (string \<times> claims)" where
  "issue_for g now jti r s ss =
     Issue (gd_Issuer g) now jti s (fst (grant_scopes g r s ss)) (snd (grant_scopes g r s ss))"

text \<open>What a request for a token carries: credentials or none, and the scopes it asks for.\<close>

definition token_request :: "request \<Rightarrow> error + ((string \<times> string) option \<times> string list)" where
  "token_request r =
     (if rq_Method r = ''GET'' then Inr (rq_Basic r, query_all (rq_Query r) ''scope'')
      else if rq_Method r = ''POST'' then
        (case rq_Form r of
           Inl e \<Rightarrow> Inl (Oci (ErrUnsupported (DText e)))
         | Inr f \<Rightarrow>
             if values_get f ''grant_type'' = ''password'' then
               Inr (Some (values_get f ''username'', values_get f ''password''), query_all f ''scope'')
             else Inl (Oci (NewError 400 CodeUnsupported (DText ''unsupported grant_type''))))
      else Inl (Oci (ErrUnsupported (DText ''method not allowed''))))"

text \<open>\<open>UTC().Format(time.RFC3339)\<close> of the time a token was issued is an argument, \<open>fmt\<close>.\<close>

definition token_json :: "(time \<Rightarrow> string) \<Rightarrow> string \<Rightarrow> claims \<Rightarrow> json" where
  "token_json fmt token c =
     JObj [(''token'', JStr token), (''access_token'', JStr token),
       (''expires_in'', JInt (max 0 ((tk_Expiry c - tk_IssuedAt c) div Second))),
       (''issued_at'', JStr (fmt (tk_IssuedAt c)))]"

definition token_headers :: "json \<Rightarrow> header" where
  "token_headers v =
     hset ''Cache-Control'' ''no-store''
       (hset ''Content-Length'' (itoa (int (length (json_text v)))) (hset ''Content-Type'' ''application/json'' []))"

definition ServeToken :: "guard \<Rightarrow> (time \<Rightarrow> string) \<Rightarrow> time \<Rightarrow> string \<Rightarrow> request \<Rightarrow> response" where
  "ServeToken g fmt now jti r =
     (case token_request r of
        Inl e \<Rightarrow> WriteError [] e
      | Inr (creds, scopes) \<Rightarrow>
          (let p = gd_Policy g in
           case (case creds of
                   Some (u, pw) \<Rightarrow> authenticate g now p u pw
                 | None \<Rightarrow> Inr (case certificate r p of Some c \<Rightarrow> c | None \<Rightarrow> anonymous_subject)) of
             Inl e \<Rightarrow>
               WriteError (hset ''WWW-Authenticate'' (''Basic realm='' @ quoted ''cr'') [])
                 (Oci (ErrUnauthorized (DText ''the credentials do not check'')))
           | Inr s \<Rightarrow>
               (case ParseScopes scopes of
                  Inl e \<Rightarrow> WriteError [] (Oci (NewError 400 CodeUnsupported (DText ''want type:name:actions'')))
                | Inr ss \<Rightarrow>
                    (case issue_for g now jti r s ss of
                       Inl e \<Rightarrow> WriteError [] e
                     | Inr (token, c) \<Rightarrow>
                         (let v = token_json fmt token c
                          in \<lparr>rs_status = 200, rs_header = token_headers v, rs_body = Bytes (json_text v)\<rparr>)))))"

section \<open>The exchange\<close>

text \<open>The secret a request brings to the exchange, in the order the endpoint looks for it.\<close>

definition exchange_secret :: "request \<Rightarrow> string \<times> string" where
  "exchange_secret r =
     (case rq_Basic r of
        Some (u, p) \<Rightarrow> (u, p)
      | None \<Rightarrow>
          (case cut (CHR '' '') (header_get r ''Authorization'') of (scheme, rest, _) \<Rightarrow>
             if equal_fold scheme ''bearer'' then ('''', trim_space rest)
             else (case rq_Form r of Inl e \<Rightarrow> ('''', '''') | Inr f \<Rightarrow> ('''', values_get f ''subject_token''))))"

definition exchange_json :: "time \<Rightarrow> string \<Rightarrow> time \<Rightarrow> json" where
  "exchange_json now token exp =
     JObj [(''access_token'', JStr token), (''expires_in'', JInt ((exp - now) div Second)),
       (''issued_token_type'', JStr ''urn:ietf:params:oauth:token-type:jwt''),
       (''token'', JStr token), (''token_type'', JStr ''N_A'')]"

definition ServeExchange :: "guard \<Rightarrow> time \<Rightarrow> string \<Rightarrow> request \<Rightarrow> response" where
  "ServeExchange g now jti r =
     (let p = gd_Policy g; (user, secret) = exchange_secret r;
          h = hset ''WWW-Authenticate'' (''Bearer realm='' @ quoted ''cr'') [] in
      if \<not> Exchanges p then WriteError [] (Oci (NewError 404 CodeUnsupported (DText ''no exchange is served'')))
      else if rq_Method r \<noteq> ''POST'' then WriteError [] (Oci (ErrUnsupported (DText ''method not allowed'')))
      else if secret = '''' then WriteError h (Oci (ErrUnauthorized (DText ''no credential to exchange'')))
      else if VerifyLogin (gd_Issuer g) now secret \<noteq> Inl ErrNotMine then
        WriteError [] (Oci (NewError 400 CodeDenied (DText ''a token from the exchange cannot be exchanged again'')))
      else
        (case policy_authenticate p user secret of
           Inl e \<Rightarrow> WriteError h (Oci (ErrUnauthorized (DText ''the credential does not check'')))
         | Inr s \<Rightarrow>
             (let ttl = Exchange p (s_Provider s) in
              if ttl \<le> 0 then WriteError [] (Oci (ErrDenied (DText ''the provider does not exchange its credentials'')))
              else
                (case IssueLogin (gd_Issuer g) now jti s ttl of
                   Inl e \<Rightarrow> WriteError [] e
                 | Inr (token, exp) \<Rightarrow>
                     (let v = exchange_json now token exp
                      in \<lparr>rs_status = 200, rs_header = token_headers v, rs_body = Bytes (json_text v)\<rparr>)))))"

end
