(* ===== verification/Auth_Access.thy ===== *)
theory Auth_Access
  imports Auth_Guard
begin

text \<open>
  What the guard's tokens promise: an access token grants no more than the policy did and accounts
  for everything that was asked, it lives no longer than the credential behind it, and it is never
  taken for a login token, nor a login token for it.
\<close>

section \<open>What a token's entries grant\<close>

lemma ParseActions_known: "a \<in> set (ParseActions vs) \<Longrightarrow> a = ActionAll \<or> a \<in> set Actions"
  by (auto simp: ParseActions_def)

lemma no_star:
  "ActionAll \<notin> set (wanted_repo want)" "ActionAll \<notin> set (wanted_registry want)"
  by (auto simp: wanted_repo_def wanted_registry_def Let_def repositoryActions_def action_defs)

lemma set_AllowRegistry:
  "a \<in> set (AllowRegistry po s want) \<longleftrightarrow>
     a \<in> set want \<and> (\<exists>p. po = Some p \<and> (a \<in> set (granted p s pm_everywhere) \<or> ActionAll \<in> set (granted p s pm_everywhere)))"
  by (auto simp: AllowRegistry_def set_intersect split: option.splits)

lemma set_Allow':
  "a \<in> set (Allow po s repo want) \<longleftrightarrow>
     a \<in> set want \<and> (\<exists>p. po = Some p \<and> (a \<in> set (granted p s (\<lambda>pm. selects pm repo)) \<or>
       ActionAll \<in> set (granted p s (\<lambda>pm. selects pm repo))))"
  by (auto simp: Allow_def set_intersect split: option.splits)

lemma Allow_one: "a \<in> set (Allow po s repo want) \<longleftrightarrow> a \<in> set want \<and> a \<in> set (Allow po s repo [a])"
  by (auto simp: set_Allow')

lemma AllowRegistry_one: "a \<in> set (AllowRegistry po s want) \<longleftrightarrow> a \<in> set want \<and> a \<in> set (AllowRegistry po s [a])"
  by (auto simp: set_AllowRegistry)

text \<open>An entry is for a repository, with what the policy allows there, or for the catalog.\<close>

lemma grant_scope_access:
  assumes "e \<in> set (fst (grant_scope g r s sc))"
  shows "ac_Type e = TypeRepository \<and> ValidName (ac_Name e) \<and>
      (\<exists>w. ActionAll \<notin> set w \<and> ac_Actions e = Allow (gd_Policy g) s (ac_Name e) w) \<or>
    ac_Type e = TypeRegistry \<and> ac_Name e = ''catalog'' \<and>
      (\<exists>w. ActionAll \<notin> set w \<and> ac_Actions e = AllowRegistry (gd_Policy g) s w)"
proof -
  let ?rw = "wanted_repo (ParseActions (sc_Actions sc))" and ?gw = "wanted_registry (ParseActions (sc_Actions sc))"
  from assms show ?thesis
    using no_star [of "ParseActions (sc_Actions sc)"]
    by (auto simp: grant_scope_def grant_entry_def Let_def split: if_splits intro: exI [of _ ?rw] exI [of _ ?gw])
qed

lemma types_differ [simp]: "TypeRepository \<noteq> TypeRegistry" "TypeRegistry \<noteq> TypeRepository"
  by (simp_all add: TypeRepository_def TypeRegistry_def)

lemma access_for_Some:
  "access_for acs t n = Some a \<Longrightarrow> a \<in> set acs \<and> ac_Type a = t \<and> ac_Name a = n"
  unfolding access_for_def by (auto simp: find_Some_iff)

lemma token_allows_repo:
  assumes "tk_Access c = fst (grant_scopes g r s ss)" "a \<in> set (Allowed (Caller sub (Some c) p) repo want)"
  shows "a \<in> set (Allow (gd_Policy g) s repo want)"
proof -
  from assms(2) obtain e where e: "access_for (tk_Access c) TypeRepository repo = Some e"
    and a: "a \<in> set (intersect want (ac_Actions e))"
    by (cases "access_for (tk_Access c) TypeRepository repo") (auto simp: Allowed_def)
  from access_for_Some [OF e] assms(1) obtain sc where "e \<in> set (fst (grant_scope g r s sc))"
      and t: "ac_Type e = TypeRepository" "ac_Name e = repo"
    by (auto simp: grant_scopes_def)
  from grant_scope_access [OF this(1)] t obtain w where "ActionAll \<notin> set w"
      "ac_Actions e = Allow (gd_Policy g) s repo w" by auto
  with a show ?thesis by (auto simp: set_intersect Allow_one [of _ _ _ _ w] Allow_one [of _ _ _ _ want])
qed

lemma token_allows_registry:
  assumes "tk_Access c = fst (grant_scopes g r s ss)" "a \<in> set (AllowedRegistry (Caller sub (Some c) p) want)"
  shows "a \<in> set (AllowRegistry (gd_Policy g) s want)"
proof -
  from assms(2) obtain e where e: "access_for (tk_Access c) TypeRegistry ''catalog'' = Some e"
    and a: "a \<in> set (intersect want (ac_Actions e))"
    by (cases "access_for (tk_Access c) TypeRegistry ''catalog''") (auto simp: AllowedRegistry_def)
  from access_for_Some [OF e] assms(1) obtain sc where "e \<in> set (fst (grant_scope g r s sc))"
      and t: "ac_Type e = TypeRegistry" by (auto simp: grant_scopes_def)
  from grant_scope_access [OF this(1)] t obtain w where "ActionAll \<notin> set w"
      "ac_Actions e = AllowRegistry (gd_Policy g) s w" by auto
  with a show ?thesis by (auto simp: set_intersect AllowRegistry_one [of _ _ _ w] AllowRegistry_one [of _ _ _ want])
qed

lemma issue_for_Verify:
  assumes "jose_ok (gd_Issuer g)" "issue_for g now jti r s ss = Inr (token, c)"
    "Verify (gd_Issuer g) now' token = Some c'"
  shows "tk_Access c' = fst (grant_scopes g r s ss)" "tk_Refused c' = snd (grant_scopes g r s ss)"
    "s_ID (Who c') = s_ID s" "s_Provider (Who c') = s_Provider s"
proof -
  have sg: "jo_sign (is_jose (gd_Issuer g)) c = Inr token"
    and c: "c = (std_claims (gd_Issuer g) now jti s (token_expiry (gd_Issuer g) now s))
      \<lparr>tk_Access := fst (grant_scopes g r s ss), tk_Refused := snd (grant_scopes g r s ss)\<rparr>"
    using assms(2) by (auto simp: issue_for_def Issue_def Let_def split: sum.splits)
  from Verify_signed [OF assms(1) sg] assms(3)
  have "c' = c\<lparr>tk_Carried := jo_json (is_jose (gd_Issuer g)) (tk_Carried c)\<rparr>"
    by (simp split: if_splits)
  with c show "tk_Access c' = fst (grant_scopes g r s ss)" "tk_Refused c' = snd (grant_scopes g r s ss)"
    "s_ID (Who c') = s_ID s" "s_Provider (Who c') = s_Provider s"
    by (simp_all add: Who_def)
qed

section \<open>Something to try it on\<close>

text \<open>
  Two claims and the tokens that stand for them: a package go-jose small enough to evaluate, which
  shows that what is relied on can hold.
\<close>

definition sample_jose :: "claims \<Rightarrow> claims \<Rightarrow> jose_ops" where
  "sample_jose c0 c1 =
     \<lparr>jo_date = (\<lambda>t. t - t mod Second), jo_json = (\<lambda>m. m),
      jo_sign = (\<lambda>c. if c = c0 then Inr ''h.p.s'' else if c = c1 then Inr ''h.q.s'' else Inl (Other '''')),
      jo_parse = (\<lambda>t. if t = ''h.p.s'' \<or> t = ''h.q.s'' then
        (let c = (if t = ''h.p.s'' then c0 else c1)
         in Some \<lparr>jw_headers = [''k1''], jw_claims = (\<lambda>k. if k = ''pub'' then Some c else None),
           jw_login = (\<lambda>k. if k = ''pub'' then Some (c\<lparr>tk_Access := [], tk_Refused := []\<rparr>) else None)\<rparr>)
        else None),
      jo_validate = (\<lambda>c iss svc now leeway. tk_Issuer c = iss \<and> svc \<in> set (tk_Audience c) \<and>
        tk_NotBefore c \<le> now + leeway \<and> now - leeway \<le> tk_Expiry c \<and> tk_IssuedAt c \<le> now + leeway)\<rparr>"

definition sample_issuer :: "claims \<Rightarrow> claims \<Rightarrow> issuer" where
  "sample_issuer c0 c1 =
     \<lparr>is_name = ''https://cr'', is_service = ''cr'', is_ttl = 5 * Minute, is_keys = [(''k1'', ''pub'')],
      is_jose = sample_jose c0 c1\<rparr>"

lemma sample_issuer_ok: "jose_ok (sample_issuer c0 c1)"
proof -
  have "t < t - t mod Second + Second" "t - t mod Second \<le> t" for t :: time
    by (simp_all add: Second_def)
  moreover have "\<forall>x \<in> set ''h.p.s''. \<not> is_space x" "\<forall>x \<in> set ''h.q.s''. \<not> is_space x" by code_simp+
  ultimately show ?thesis
    by (auto simp: jose_ok_def sample_issuer_def sample_jose_def Let_def split: if_splits)
qed

definition sample_policy :: policy where
  "sample_policy = fst (NewPolicy (\<lambda>_. None)
     (sample_rules\<lparr>ru_Matches := [(''m'', \<lparr>mr_For = ''anyone'', mr_When = [], mr_Grant = [''read'']\<rparr>)]\<rparr>))"

definition sample_request :: request where
  "sample_request = \<lparr>rq_Method = ''GET'', rq_Path = ''/v2/acme/app/manifests/v1'', rq_Query = [], rq_Header = [],
     rq_Host = ''cr.example'', rq_TLS = True, rq_Cert = None, rq_Basic = None, rq_Form = Inr [],
     rq_ContentLength = 0, rq_Body = Inr ''''\<rparr>"

text \<open>What the token says of a caller who asked to pull and push one repository.\<close>

definition sample_claims :: claims where
  "sample_claims =
     \<lparr>tk_Issuer = ''https://cr'', tk_Subject = ''ci:1'', tk_Audience = [''cr''], tk_Expiry = 400 * Second,
      tk_NotBefore = 40 * Second, tk_IssuedAt = 100 * Second, tk_ID = ''id'',
      tk_Access = [\<lparr>ac_Type = ''repository'', ac_Name = ''acme/app'', ac_Actions = [''pull'']\<rparr>],
      tk_Refused = [\<lparr>ac_Type = ''repository'', ac_Name = ''acme/app'', ac_Actions = [''push'', ''tag'']\<rparr>],
      tk_Provider = ''ci'', tk_Carried = s_Claims sample_subject, tk_Use = ''''\<rparr>"

definition sample_login :: claims where
  "sample_login = sample_claims\<lparr>tk_Access := [], tk_Refused := [], tk_Use := ''login''\<rparr>"

definition sample_guard :: guard where
  "sample_guard = \<lparr>gd_Policy = Some sample_policy, gd_Issuer = sample_issuer sample_claims sample_login,
     gd_Realm = '''', gd_Name = None\<rparr>"

definition sample_scope :: scope where
  "sample_scope = \<lparr>sc_Type = ''repository'', sc_Name = ''acme/app'', sc_Actions = [''pull'', ''push'']\<rparr>"

lemma sample_issued:
  "issue_for sample_guard (100 * Second) ''id'' sample_request sample_subject [sample_scope] =
     Inr (''h.p.s'', sample_claims)"
  by code_simp

lemma sample_login_issued:
  "IssueLogin (gd_Issuer sample_guard) (100 * Second) ''id'' sample_subject (5 * Minute) =
     Inr (''h.q.s'', 400 * Second)"
  by code_simp

lemma sample_verified: "Verify (gd_Issuer sample_guard) (200 * Second) ''h.p.s'' = Some sample_claims"
  by code_simp

section \<open>Properties\<close>

text \<open>
  C37: an access token grants no more than the policy did when it was issued: whatever its bearer
  may do in a repository, or to the registry, the subject it was issued to was allowed to do.
\<close>

theorem token_grants_no_more:
  assumes "jose_ok (gd_Issuer g)" and "issue_for g now jti r s ss = Inr (token, c)"
    and "Verify (gd_Issuer g) now' token = Some c'"
  shows "set (Allowed (Caller (Who c') (Some c') p) repo want) \<subseteq> set (Allow (gd_Policy g) s repo want) \<and>
    set (AllowedRegistry (Caller (Who c') (Some c') p) want) \<subseteq> set (AllowRegistry (gd_Policy g) s want)"
  using issue_for_Verify(1) [OF assms] token_allows_repo token_allows_registry by blast

lemma token_grants_no_more_witness:
  "set (Allowed (Caller (Who sample_claims) (Some sample_claims) None) ''acme/app'' [''pull'', ''delete'']) \<subseteq>
     set (Allow (Some sample_policy) sample_subject ''acme/app'' [''pull'', ''delete'']) \<and>
   Allowed (Caller (Who sample_claims) (Some sample_claims) None) ''acme/app'' [''pull'', ''delete''] = [''pull'']"
proof -
  have g: "gd_Policy sample_guard = Some sample_policy" "jose_ok (gd_Issuer sample_guard)"
    by (simp_all add: sample_guard_def sample_issuer_ok)
  have "Allowed (Caller (Who sample_claims) (Some sample_claims) None) ''acme/app'' [''pull'', ''delete''] = [''pull'']"
    by code_simp
  with token_grants_no_more [OF g(2) sample_issued sample_verified, of None "''acme/app''" "[''pull'', ''delete'']"]
  show ?thesis unfolding g(1) by blast
qed



text \<open>
  The two kinds of token are never taken for one another: a login token is refused as an
  access token and an access token is not known as a login token, while a login token stands for
  its subject until it expires.
\<close>

theorem login_and_access_tokens_apart:
  assumes "jose_ok i" and "IssueLogin i now jti s ttl = Inr (login, exp)"
    and "Issue i now' jti' s' acc refused = Inr (token, c)"
  shows "Verify i t login = None \<and> VerifyLogin i t token = Inl ErrNotMine \<and>
    (now \<le> t \<and> t \<le> exp \<longrightarrow> (\<exists>s1. VerifyLogin i t login = Inr s1 \<and> s_ID s1 = s_ID s \<and> s_Provider s1 = s_Provider s)) \<and>
    (exp + 30 * Second < t \<longrightarrow> VerifyLogin i t login = Inl ErrUnauthenticated)"
proof -
  let ?C = "\<lambda>c. c\<lparr>tk_Carried := jo_json (is_jose i) (tk_Carried c), tk_Access := [], tk_Refused := []\<rparr>"
  define lc where "lc = (std_claims i now jti s exp)\<lparr>tk_Use := useLogin\<rparr>"
  have l: "jo_sign (is_jose i) lc = Inr login"
    using assms(2) by (auto simp: IssueLogin_def Let_def lc_def split: sum.splits)
  have a: "jo_sign (is_jose i) c = Inr token" "tk_Use c = ''''"
    using assms(3) by (auto simp: Issue_def Let_def split: sum.splits)
  have v: "now \<le> t \<Longrightarrow> t \<le> exp \<Longrightarrow> jo_validate (is_jose i) (?C lc) (is_name i) (is_service i) t (30 * Second)"
    "jo_validate (is_jose i) (?C lc) (is_name i) (is_service i) t (30 * Second) \<Longrightarrow> t \<le> exp + 30 * Second"
    by (rule valid_std [OF assms(1)]; simp add: lc_def)+
  have u: "tk_Use lc = useLogin" "useLogin \<noteq> ''''" by (simp_all add: lc_def useLogin_def)
  show ?thesis
    using v u a(2)
    by (auto simp: Verify_signed [OF assms(1) l] VerifyLogin_signed [OF assms(1) l]
        VerifyLogin_signed [OF assms(1) a(1)] Who_def lc_def)
qed

lemma login_and_access_tokens_apart_witness:
  "Verify (gd_Issuer sample_guard) (200 * Second) ''h.q.s'' = None \<and>
   VerifyLogin (gd_Issuer sample_guard) (200 * Second) ''h.p.s'' = Inl ErrNotMine"
proof -
  have i: "Issue (gd_Issuer sample_guard) (100 * Second) ''id'' sample_subject (tk_Access sample_claims)
      (tk_Refused sample_claims) = Inr (''h.p.s'', sample_claims)"
    by code_simp
  have ok: "jose_ok (gd_Issuer sample_guard)" by (simp add: sample_guard_def sample_issuer_ok)
  from login_and_access_tokens_apart [OF ok sample_login_issued i] show ?thesis by blast
qed

text \<open>
  The exchange answers a token only for a \<open>POST\<close> whose credential one of the providers
  accepted, a provider that says how long its credentials are exchanged for; the token stands for
  that same subject for that long; and a token from the exchange, good or expired, is never
  exchanged for another.
\<close>

theorem exchange_wants_a_credential:
  assumes "jose_ok (gd_Issuer g)" and "rs_body (ServeExchange g now jti r) = Bytes b"
    and "IssueLogin (gd_Issuer g) now0 jti0 s0 ttl0 = Inr (login, exp0)"
  shows "rq_Method r = ''POST'' \<and> snd (exchange_secret r) \<noteq> login \<and>
    (\<exists>s token. policy_authenticate (gd_Policy g) (fst (exchange_secret r)) (snd (exchange_secret r)) = Inr s \<and>
       0 < Exchange (gd_Policy g) (s_Provider s) \<and>
       b = json_text (exchange_json now token (now + Exchange (gd_Policy g) (s_Provider s))) \<and>
       (\<exists>s1. VerifyLogin (gd_Issuer g) (now + Exchange (gd_Policy g) (s_Provider s)) token = Inr s1 \<and>
          s_ID s1 = s_ID s \<and> s_Provider s1 = s_Provider s))"
proof -
  let ?i = "gd_Issuer g"
  obtain user secret where es: "exchange_secret r = (user, secret)" by force
  have nb: "rs_body (WriteError h e) \<noteq> Bytes b" for h e by (simp add: WriteError_def Let_def)
  obtain s token exp where r: "rq_Method r = ''POST''" "VerifyLogin ?i now secret = Inl ErrNotMine"
    "policy_authenticate (gd_Policy g) user secret = Inr s" "0 < Exchange (gd_Policy g) (s_Provider s)"
    "IssueLogin ?i now jti s (Exchange (gd_Policy g) (s_Provider s)) = Inr (token, exp)"
    "b = json_text (exchange_json now token exp)"
    using assms(2) nb by (auto simp: ServeExchange_def es Let_def split: if_splits sum.splits)
  have e: "exp = now + Exchange (gd_Policy g) (s_Provider s)"
    using r(5) by (auto simp: IssueLogin_def Let_def split: sum.splits)
  have lt: "VerifyLogin ?i t tok \<noteq> Inl ErrNotMine" if "IssueLogin ?i n j u l = Inr (tok, x)" for t tok n j u l x
  proof -
    have "jo_sign (is_jose ?i) ((std_claims ?i n j u x)\<lparr>tk_Use := useLogin\<rparr>) = Inr tok"
      using that by (auto simp: IssueLogin_def Let_def split: sum.splits)
    from VerifyLogin_signed [OF assms(1) this] show ?thesis by simp
  qed
  define lc where "lc = (std_claims ?i now jti s exp)\<lparr>tk_Use := useLogin\<rparr>"
  have sg: "jo_sign (is_jose ?i) lc = Inr token"
    using r(5) by (auto simp: IssueLogin_def Let_def lc_def split: sum.splits)
  have "jo_validate (is_jose ?i) (lc\<lparr>tk_Carried := jo_json (is_jose ?i) (tk_Carried lc), tk_Access := [], tk_Refused := []\<rparr>)
      (is_name ?i) (is_service ?i) exp (30 * Second)"
    using r(4) e by (intro valid_std(1) [OF assms(1), of _ exp now]) (simp_all add: lc_def)
  then have "\<exists>s1. VerifyLogin ?i exp token = Inr s1 \<and> s_ID s1 = s_ID s \<and> s_Provider s1 = s_Provider s"
    using VerifyLogin_signed [OF assms(1) sg] by (simp add: lc_def Who_def)
  moreover have "secret \<noteq> login" using lt [OF assms(3)] r(2) by auto
  ultimately show ?thesis using r e by (auto simp: es)
qed

text \<open>A provider whose one password is exchanged, and a request that brings it.\<close>

definition sample_exchange :: guard where
  "sample_exchange = sample_guard\<lparr>gd_Policy := Some (sample_policy\<lparr>p_providers :=
     [\<lparr>pv_Name = ''ci'', pv_Authenticator = None, pv_Exchange = 5 * Minute, pv_When = []\<rparr>],
     p_chain := [\<lparr>au_authenticate = (\<lambda>u p. if p = ''secret'' then Inr sample_subject else Inl ErrNotMine), au_kind = None,
       au_issuer = None, au_certifier = None, au_singular = False, au_bearer = False\<rparr>]\<rparr>)\<rparr>"

lemma exchange_wants_a_credential_witness:
  "case rs_body (ServeExchange sample_exchange (100 * Second) ''id''
       (sample_request\<lparr>rq_Method := ''POST'', rq_Basic := Some (''u'', ''secret'')\<rparr>)) of
     Bytes b \<Rightarrow> b = json_text (exchange_json (100 * Second) ''h.q.s'' (400 * Second)) \<and> ''secret'' \<noteq> ''h.q.s'' | _ \<Rightarrow> False"
proof -
  let ?r = "sample_request\<lparr>rq_Method := ''POST'', rq_Basic := Some (''u'', ''secret'')\<rparr>"
  have b: "rs_body (ServeExchange sample_exchange (100 * Second) ''id'' ?r) =
      Bytes (json_text (exchange_json (100 * Second) ''h.q.s'' (400 * Second)))"
    by code_simp
  have i: "gd_Issuer sample_exchange = gd_Issuer sample_guard" by (simp add: sample_exchange_def)
  have ok: "jose_ok (gd_Issuer sample_exchange)" by (simp add: i sample_guard_def sample_issuer_ok)
  have "snd (exchange_secret ?r) = ''secret''" by (simp add: exchange_secret_def)
  with exchange_wants_a_credential [OF ok b sample_login_issued [folded i]] show ?thesis
    unfolding b body.case by simp
qed

end
