(* ===== verification/Auth_Providers.thy ===== *)
theory Auth_Providers
  imports Auth_Access
begin

text \<open>
  The authenticators a policy is made of: one password (\<open>auth/secret.go\<close>), a client certificate
  (\<open>auth/mtls.go\<close>), a token checked against a local key set (\<open>auth/jwt.go\<close>) and an OpenID
  Connect provider (\<open>auth/oidc.go\<close>).  What go-jose makes of a token, what \<open>net/url\<close> makes of an
  audience, the hash, and what an OpenID provider answers to a fetch are parameters.
\<close>

section \<open>A secret\<close>

record secret =
  se_name :: string
  se_username :: string
  se_password :: "error + string"

definition Secret_Authenticate :: "(string \<Rightarrow> string) \<Rightarrow> secret \<Rightarrow> string \<Rightarrow> string \<Rightarrow> auth_error + subject" where
  "Secret_Authenticate sha256 s username password =
     (if username \<noteq> se_username s then Inl ErrNotMine
      else
        (case se_password s of
           Inl e \<Rightarrow> Inl ErrUnauthenticated
         | Inr want \<Rightarrow>
             if sha256 password \<noteq> sha256 want then Inl ErrUnauthenticated
             else Inr \<lparr>s_ID = se_name s @ '':'' @ username, s_Provider = se_name s,
                        s_Claims = [(''username'', CString username)], s_CredentialExpiry = 0, s_Via = ''''\<rparr>))"

section \<open>A client certificate\<close>

record x509 =
  xc_Raw :: string
  xc_CommonName :: string
  xc_Organization :: "string list"
  xc_OrganizationalUnit :: "string list"
  xc_DNSNames :: "string list"
  xc_IPAddresses :: "string list"
  xc_URIs :: "string list"
  xc_EmailAddresses :: "string list"

definition anys :: "string list \<Rightarrow> claim" where
  "anys ss = CAnys (map CString ss)"

text \<open>\<open>sha256\<close> answers the hash in lowercase hex here.\<close>

definition MTLS_Certificate :: "(string \<Rightarrow> string) \<Rightarrow> string \<Rightarrow> x509 \<Rightarrow> subject" where
  "MTLS_Certificate sha256 name c =
     (let fp = sha256 (xc_Raw c); i = (if xc_CommonName c = '''' then fp else xc_CommonName c)
      in \<lparr>s_ID = name @ '':'' @ i, s_Provider = name,
          s_Claims = [(''cn'', CString (xc_CommonName c)), (''o'', anys (xc_Organization c)),
            (''ou'', anys (xc_OrganizationalUnit c)), (''dns'', anys (xc_DNSNames c)), (''ip'', anys (xc_IPAddresses c)),
            (''uri'', anys (xc_URIs c)), (''email'', anys (xc_EmailAddresses c)), (''fingerprint'', CString fp)],
          s_CredentialExpiry = 0, s_Via = ''mtls''\<rparr>)"

definition MTLS_Authenticate :: "string \<Rightarrow> string \<Rightarrow> auth_error + subject" where
  "MTLS_Authenticate username password = Inl ErrNotMine"

section \<open>A token another party issued\<close>

text \<open>
  \<open>xj_headers\<close> is the key identifier and the algorithm of each signature, \<open>xj_issuer\<close> the
  issuer read without checking a signature, \<open>xj_claims\<close> what a key that verifies it reads.
\<close>

record xstd =
  xs_Issuer :: string
  xs_Audience :: "string list"
  xs_Expiry :: "time option"
  xs_NotBefore :: "time option"

record xjwt =
  xj_headers :: "(string \<times> string) list"
  xj_issuer :: "string option"
  xj_claims :: "string \<Rightarrow> (xstd \<times> (string, claim) gomap) option"

record jwk =
  jk_Key :: string
  jk_KeyID :: string
  jk_Algorithm :: string
  jk_Use :: string
  jk_Valid :: bool
  jk_Public :: bool

record parsed_url =
  pu_Scheme :: string
  pu_Host :: string
  pu_Port :: string
  pu_User :: bool

record jwt_config =
  jc_Name :: string
  jc_Issuer :: string
  jc_Audience :: string
  jc_Audiences :: "string list"
  jc_JWKS :: "error + string"
  jc_SubjectClaim :: string
  jc_AudienceHost :: bool

definition audienceHost :: "(string \<Rightarrow> parsed_url option) \<Rightarrow> string \<Rightarrow> string" where
  "audienceHost parse v =
     (if contains v ''://'' then
        (case parse v of
           None \<Rightarrow> ''''
         | Some u \<Rightarrow>
             if pu_Host u = '''' \<or> pu_User u \<or> contains v [CHR 0x5C] then ''''
             else to_lower
               (if (pu_Scheme u = ''https'' \<and> pu_Port u = ''443'') \<or> (pu_Scheme u = ''http'' \<and> pu_Port u = ''80'')
                then trim_suffix (pu_Host u) ('':'' @ pu_Port u) else pu_Host u))
      else if \<exists>c \<in> {CHR ''/'', CHR ''?'', CHR ''#'', CHR ''@'', CHR 0x5C}. c \<in> set v then ''''
      else to_lower v)"

definition NewJWT :: "(string \<Rightarrow> parsed_url option) \<Rightarrow> bool \<Rightarrow> jwt_config \<Rightarrow> error + jwt_config" where
  "NewJWT parse has_jwks c =
     (if jc_Name c = '''' \<or> jc_Issuer c = '''' \<or> (jc_Audience c = '''' \<and> jc_Audiences c = []) \<or> \<not> has_jwks then
        Inl (Other ''jwt: name, issuer, audience or audiences, and jwks are required'')
      else if jc_Audience c \<noteq> '''' \<and> jc_Audiences c \<noteq> [] then
        Inl (Other ''jwt: audience and audiences are mutually exclusive'')
      else
        (let as = (if jc_Audience c \<noteq> '''' then [jc_Audience c] else jc_Audiences c) in
         if '''' \<in> set as then Inl (Other ''jwt: audience is empty'')
         else if jc_AudienceHost c \<and> list_ex (\<lambda>a. audienceHost parse a = '''') as then
           Inl (Other ''jwt: audience has no host'')
         else Inr (c\<lparr>jc_Audiences := as,
           jc_SubjectClaim := (if jc_SubjectClaim c = '''' then ''sub'' else jc_SubjectClaim c)\<rparr>)))"

text \<open>The one key that may check a token, or none: an ambiguous set checks nothing.\<close>

definition usable_key :: "string \<times> string \<Rightarrow> jwk \<Rightarrow> bool" where
  "usable_key h k =
     (jk_Valid k \<and> jk_Public k \<and> (jk_Use k = '''' \<or> jk_Use k = ''sig'') \<and>
      (jk_Algorithm k = '''' \<or> jk_Algorithm k = snd h) \<and> (fst h = '''' \<or> jk_KeyID k = fst h))"

definition JWT_key :: "(string \<Rightarrow> jwk list option) \<Rightarrow> jwt_config \<Rightarrow> string \<times> string \<Rightarrow> error + jwk" where
  "JWT_key jwks j h =
     (case jc_JWKS j of
        Inl e \<Rightarrow> Inl (Other ''jwt: jwks cannot be read'')
      | Inr raw \<Rightarrow>
          (case jwks raw of
             None \<Rightarrow> Inl (Other ''jwt: invalid jwks'')
           | Some ks \<Rightarrow>
               (case filter (usable_key h) ks of
                  [k] \<Rightarrow> Inr k
                | _ \<Rightarrow> Inl (Other ''jwt: no unambiguous signing key''))))"

definition audience_matches :: "(string \<Rightarrow> parsed_url option) \<Rightarrow> jwt_config \<Rightarrow> string list \<Rightarrow> bool" where
  "audience_matches parse j auds =
     list_ex (\<lambda>aud. list_ex (\<lambda>expected.
       if jc_AudienceHost j then audienceHost parse aud = audienceHost parse expected else aud = expected)
       (jc_Audiences j)) auds"

text \<open>The claim \<open>scopes\<close>: the strings among the capabilities, then the words of the scope.\<close>

definition derived_scopes :: "(string, claim) gomap \<Rightarrow> string list" where
  "derived_scopes cs =
     (case map_of cs ''capabilities'' of
        Some (CAnys vs) \<Rightarrow> concat (map (\<lambda>v. case v of CString s \<Rightarrow> [s] | _ \<Rightarrow> []) vs) | _ \<Rightarrow> []) @
     (case map_of cs ''scope'' of
        Some (CString s) \<Rightarrow> filter (\<lambda>w. w \<noteq> '''') (split_on (CHR '' '') s) | _ \<Rightarrow> [])"

definition string_claim :: "(string, claim) gomap \<Rightarrow> string \<Rightarrow> string" where
  "string_claim cs k = (case map_of cs k of Some (CString s) \<Rightarrow> s | _ \<Rightarrow> '''')"

definition JWT_times_ok :: "jwt_config \<Rightarrow> time \<Rightarrow> xstd \<Rightarrow> bool" where
  "JWT_times_ok j now std =
     (xs_Issuer std = jc_Issuer j \<and>
      (case xs_Expiry std of None \<Rightarrow> False | Some e \<Rightarrow> now < e + Minute) \<and>
      (case xs_NotBefore std of None \<Rightarrow> True | Some n \<Rightarrow> \<not> now + Minute < n))"

definition JWT_Authenticate :: "(string \<Rightarrow> xjwt option) \<Rightarrow> (string \<Rightarrow> jwk list option) \<Rightarrow>
    (string \<Rightarrow> parsed_url option) \<Rightarrow> jwt_config \<Rightarrow> time \<Rightarrow> string \<Rightarrow> string \<Rightarrow> auth_error + subject" where
  "JWT_Authenticate parse_signed jwks parse j now username password =
     (if count_list password (CHR ''.'') \<noteq> 2 then Inl ErrNotMine
      else
        (case parse_signed password of
           None \<Rightarrow> Inl ErrNotMine
         | Some tok \<Rightarrow>
             (case xj_headers tok of
                [h] \<Rightarrow>
                  if xj_issuer tok \<noteq> Some (jc_Issuer j) then Inl ErrNotMine
                  else
                    (case JWT_key jwks j h of
                       Inl e \<Rightarrow> Inl ErrUnauthenticated
                     | Inr key \<Rightarrow>
                         (case xj_claims tok (jk_Key key) of
                            None \<Rightarrow> Inl ErrUnauthenticated
                          | Some (std, cs) \<Rightarrow>
                              if \<not> JWT_times_ok j now std then Inl ErrUnauthenticated
                              else if \<not> audience_matches parse j (xs_Audience std) then Inl ErrUnauthenticated
                              else
                                (let sub = string_claim cs (jc_SubjectClaim j);
                                     sub1 = (if sub = '''' then ''device'' else sub)
                                 in Inr \<lparr>s_ID = jc_Name j @ '':'' @ sub1, s_Provider = jc_Name j,
                                      s_Claims = AList.update ''scopes'' (CStrings (derived_scopes cs)) cs,
                                      s_CredentialExpiry = (case xs_Expiry std of Some e \<Rightarrow> e | None \<Rightarrow> 0),
                                      s_Via = ''''\<rparr>)))
              | _ \<Rightarrow> Inl ErrNotMine)))"

section \<open>An OpenID Connect provider\<close>

text \<open>
  What a provider remembers, and what the network answers: the address of the keys, and the keys,
  under their identifiers.
\<close>

record oidc =
  od_name :: string
  od_issuer :: string
  od_audience :: string
  od_subject :: string
  od_uri :: string
  od_keys :: "(string \<times> string) list"
  od_fetched :: time

record oidc_net =
  on_discover :: "string \<Rightarrow> auth_error + string"
  on_jwks :: "string \<Rightarrow> auth_error + (string \<times> string) list"

definition NewOIDC :: "string \<Rightarrow> string \<Rightarrow> string \<Rightarrow> string \<Rightarrow> error + oidc" where
  "NewOIDC name iss aud sub =
     (if name = '''' then Inl (Other ''oidc: no name'')
      else if iss = '''' \<or> aud = '''' then Inl (Other ''oidc: issuer and audience are both required'')
      else Inr \<lparr>od_name = name, od_issuer = trim_suffix iss ''/'', od_audience = aud,
        od_subject = (if sub = '''' then ''sub'' else sub), od_uri = '''', od_keys = [], od_fetched = 0\<rparr>)"

definition oidc_fetch :: "oidc_net \<Rightarrow> time \<Rightarrow> oidc \<Rightarrow> (auth_error option) \<times> oidc" where
  "oidc_fetch net now o1 =
     (let o2 = o1\<lparr>od_fetched := now\<rparr> in
      case (if od_uri o2 = '''' then
              (case on_discover net (od_issuer o2 @ ''/.well-known/openid-configuration'') of
                 Inl e \<Rightarrow> (Some e, o2)
               | Inr u \<Rightarrow> if u = '''' then (Some (AuthOther ''oidc: the provider names no jwks_uri''), o2)
                          else (None, o2\<lparr>od_uri := u\<rparr>))
            else (None, o2)) of
        (Some e, o3) \<Rightarrow> (Some e, o3)
      | (None, o3) \<Rightarrow>
          (case on_jwks net (od_uri o3) of
             Inl e \<Rightarrow> (Some e, o3)
           | Inr ks \<Rightarrow> (None, o3\<lparr>od_keys := ks\<rparr>)))"

definition oidc_key :: "oidc_net \<Rightarrow> time \<Rightarrow> string \<Rightarrow> oidc \<Rightarrow> (auth_error + string) \<times> oidc" where
  "oidc_key net now kid o1 =
     (case map_of (od_keys o1) kid of
        Some k \<Rightarrow> (Inr k, o1)
      | None \<Rightarrow>
          if od_fetched o1 \<noteq> 0 \<and> now - od_fetched o1 < Minute then (Inl ErrUnauthenticated, o1)
          else
            (case oidc_fetch net now o1 of
               (Some e, o2) \<Rightarrow> (Inl e, o2)
             | (None, o2) \<Rightarrow>
                 (case map_of (od_keys o2) kid of Some k \<Rightarrow> (Inr k, o2) | None \<Rightarrow> (Inl ErrUnauthenticated, o2))))"

definition OIDC_Authenticate :: "(string \<Rightarrow> xjwt option) \<Rightarrow> (xstd \<Rightarrow> string \<Rightarrow> string \<Rightarrow> time \<Rightarrow> duration \<Rightarrow> bool) \<Rightarrow>
    oidc_net \<Rightarrow> time \<Rightarrow> string \<Rightarrow> string \<Rightarrow> oidc \<Rightarrow> (auth_error + subject) \<times> oidc" where
  "OIDC_Authenticate parse_signed validate net now username password o1 =
     (if count_list password (CHR ''.'') \<noteq> 2 then (Inl ErrNotMine, o1)
      else
        (case parse_signed password of
           None \<Rightarrow> (Inl ErrNotMine, o1)
         | Some tok \<Rightarrow>
             (case (xj_headers tok, xj_issuer tok) of
                (h # _, Some peek) \<Rightarrow>
                  if trim_suffix peek ''/'' \<noteq> od_issuer o1 then (Inl ErrNotMine, o1)
                  else
                    (case oidc_key net now (fst h) o1 of
                       (Inl e, o2) \<Rightarrow> (Inl e, o2)
                     | (Inr key, o2) \<Rightarrow>
                         (case xj_claims tok key of
                            None \<Rightarrow> (Inl ErrUnauthenticated, o2)
                          | Some (std, cs) \<Rightarrow>
                              if \<not> validate std peek (od_audience o2) now Minute then (Inl ErrUnauthenticated, o2)
                              else
                                (let sub = string_claim cs (od_subject o2) in
                                 if sub = '''' then (Inl ErrUnauthenticated, o2)
                                 else (Inr \<lparr>s_ID = od_name o2 @ '':'' @ sub, s_Provider = od_name o2, s_Claims = cs,
                                    s_CredentialExpiry = 0, s_Via = ''''\<rparr>, o2))))
              | _ \<Rightarrow> (Inl ErrNotMine, o1))))"

text \<open>When the provider was asked for its keys, over a run of tokens that name a key each.\<close>

fun oidc_fetches :: "oidc_net \<Rightarrow> oidc \<Rightarrow> (time \<times> string) list \<Rightarrow> time list" where
  "oidc_fetches net o1 [] = []"
| "oidc_fetches net o1 ((now, kid) # cs) =
     (case oidc_key net now kid o1 of
        (r, o2) \<Rightarrow> (if od_fetched o2 \<noteq> od_fetched o1 then [now] else []) @ oidc_fetches net o2 cs)"

lemma oidc_fetch_sets: "od_fetched (snd (oidc_fetch net now o1)) = now"
  by (auto simp: oidc_fetch_def Let_def split: sum.splits option.splits)

lemma oidc_key_fetched:
  assumes "oidc_key net now kid o1 = (r, o2)"
  shows "od_fetched o2 = od_fetched o1 \<or>
    od_fetched o2 = now \<and> (od_fetched o1 = 0 \<or> od_fetched o1 + Minute \<le> now)"
  using assms oidc_fetch_sets [of net now o1]
  by (auto simp: oidc_key_def split: option.splits if_splits prod.splits)

lemma oidc_fetches_after:
  "t \<in> set (oidc_fetches net o1 cs) \<Longrightarrow> \<forall>c \<in> set cs. 0 < fst c \<Longrightarrow>
     od_fetched o1 = 0 \<or> od_fetched o1 + Minute \<le> t"
proof (induction net o1 cs rule: oidc_fetches.induct)
  case (2 net o1 now kid cs)
  obtain r o2 where k: "oidc_key net now kid o1 = (r, o2)" by force
  have "0 < Minute" by (simp add: Minute_def Second_def)
  with 2 k oidc_key_fetched [OF k] show ?case by (fastforce split: if_splits)
qed simp

section \<open>Properties\<close>

text \<open>
  However many tokens arrive, naming whatever keys, and whatever the provider answers, it is
  asked for its keys at times that are a minute apart at least.
\<close>

theorem oidc_asks_once_a_minute:
  assumes "\<forall>c \<in> set cs. 0 < fst c"
  shows "sorted_wrt (\<lambda>a b. a + Minute \<le> b) (oidc_fetches net o1 cs)"
  using assms
proof (induction net o1 cs rule: oidc_fetches.induct)
  case (2 net o1 now kid cs)
  obtain r o2 where k: "oidc_key net now kid o1 = (r, o2)" by force
  have "od_fetched o2 = now \<Longrightarrow> t \<in> set (oidc_fetches net o2 cs) \<Longrightarrow> now + Minute \<le> t" for t
    using oidc_fetches_after [of t net o2 cs] 2 by auto
  with 2 k oidc_key_fetched [OF k] show ?case by auto
qed simp

definition sample_oidc :: oidc where
  "sample_oidc = \<lparr>od_name = ''gh'', od_issuer = ''https://i'', od_audience = ''cr'', od_subject = ''sub'',
     od_uri = '''', od_keys = [], od_fetched = 0\<rparr>"

definition sample_net :: oidc_net where
  "sample_net = \<lparr>on_discover = (\<lambda>u. Inr ''https://i/keys''), on_jwks = (\<lambda>u. Inr [(''k1'', ''pub'')])\<rparr>"

lemma oidc_asks_once_a_minute_witness:
  "sorted_wrt (\<lambda>a b. a + Minute \<le> b) [10 * Second, 90 * Second] \<and>
   oidc_fetches sample_net sample_oidc
     [(10 * Second, ''k2''), (20 * Second, ''k3''), (30 * Second, ''k1''), (90 * Second, ''k2'')] =
     [10 * Second, 90 * Second]"
proof -
  let ?cs = "[(10 * Second, ''k2''), (20 * Second, ''k3''), (30 * Second, ''k1''), (90 * Second, ''k2'')]"
  have f: "oidc_fetches sample_net sample_oidc ?cs = [10 * Second, 90 * Second]" by code_simp
  have "\<forall>c \<in> set ?cs. 0 < fst c" by code_simp
  from oidc_asks_once_a_minute [OF this, of sample_net sample_oidc] f show ?thesis by simp
qed

text \<open>
  A token of another party is accepted only when exactly one key of the set may check it and
  verifies it, for an audience of the provider and before it expires; and no access token issued
  on it is good once it has expired, but for what clocks may differ by.
\<close>

theorem jwt_access_dies_with_the_token:
  assumes "JWT_Authenticate parse_signed jwks parse j now u pw = Inr s"
    and "jose_ok i" and "Issue i now' jti s acc refused = Inr (token, c)" and "Verify i t token \<noteq> None"
  shows "\<exists>tok h key std cs e ks. parse_signed pw = Some tok \<and> xj_headers tok = [h] \<and>
    jc_JWKS j = Inr ks \<and> filter (usable_key h) (the (jwks ks)) = [key] \<and>
    xj_claims tok (jk_Key key) = Some (std, cs) \<and> audience_matches parse j (xs_Audience std) \<and>
    xs_Issuer std = jc_Issuer j \<and> xs_Expiry std = Some e \<and> now < e + Minute \<and>
    s_Provider s = jc_Name j \<and> (e = 0 \<or> t \<le> e + 30 * Second)"
proof -
  from assms(1) obtain tok h key std cs e where a:
    "parse_signed pw = Some tok" "xj_headers tok = [h]" "JWT_key jwks j h = Inr key"
    "xj_claims tok (jk_Key key) = Some (std, cs)" "audience_matches parse j (xs_Audience std)"
    "xs_Issuer std = jc_Issuer j" "xs_Expiry std = Some e" "now < e + Minute"
    "s_Provider s = jc_Name j" "s_CredentialExpiry s = e"
    by (auto simp: JWT_Authenticate_def JWT_times_ok_def Let_def split: if_splits option.splits list.splits sum.splits)
  from a(3) obtain ks where ks: "jc_JWKS j = Inr ks" "filter (usable_key h) (the (jwks ks)) = [key]"
    by (auto simp: JWT_key_def split: sum.splits option.splits list.splits)
  define c' where "c' = c\<lparr>tk_Carried := jo_json (is_jose i) (tk_Carried c)\<rparr>"
  have sg: "jo_sign (is_jose i) c = Inr token"
    and c: "c = (std_claims i now' jti s (token_expiry i now' s))\<lparr>tk_Access := acc, tk_Refused := refused\<rparr>"
    using assms(3) by (auto simp: Issue_def Let_def split: sum.splits)
  have "jo_validate (is_jose i) c' (is_name i) (is_service i) t (30 * Second)"
    using Verify_signed [OF assms(2) sg, of t] assms(4) by (auto simp: c'_def split: if_splits)
  then have "t \<le> token_expiry i now' s + 30 * Second"
    by (rule valid_std(2) [OF assms(2), rotated 5]) (simp_all add: c'_def c)
  then have "e = 0 \<or> t \<le> e + 30 * Second"
    using token_expiry_bounds(2) [where i = i and now = now' and s = s] a(10) by auto
  with a(1,2,4-9) ks show ?thesis by blast
qed

definition sample_jwt :: jwt_config where
  "sample_jwt = \<lparr>jc_Name = ''dev'', jc_Issuer = ''https://i'', jc_Audience = '''', jc_Audiences = [''cr''],
     jc_JWKS = Inr ''keys'', jc_SubjectClaim = ''sub'', jc_AudienceHost = False\<rparr>"

definition sample_jwk :: jwk where
  "sample_jwk = \<lparr>jk_Key = ''pub'', jk_KeyID = ''k'', jk_Algorithm = ''ES256'', jk_Use = ''sig'', jk_Valid = True, jk_Public = True\<rparr>"

definition sample_xjwt :: xjwt where
  "sample_xjwt = \<lparr>xj_headers = [(''k'', ''ES256'')], xj_issuer = Some ''https://i'',
     xj_claims = (\<lambda>k. if k = ''pub'' then
       Some (\<lparr>xs_Issuer = ''https://i'', xs_Audience = [''cr''], xs_Expiry = Some (150 * Second), xs_NotBefore = None\<rparr>,
         [(''sub'', CString ''d1''), (''scope'', CString ''a b'')]) else None)\<rparr>"

definition sample_jwt_subject :: subject where
  "sample_jwt_subject = \<lparr>s_ID = ''dev:d1'', s_Provider = ''dev'',
     s_Claims = [(''sub'', CString ''d1''), (''scope'', CString ''a b''), (''scopes'', CStrings [''a'', ''b''])],
     s_CredentialExpiry = 150 * Second, s_Via = ''''\<rparr>"

definition sample_jwt_claims :: claims where
  "sample_jwt_claims = sample_claims\<lparr>tk_Subject := ''dev:d1'', tk_Provider := ''dev'', tk_Expiry := 150 * Second,
     tk_Access := [], tk_Refused := [], tk_Carried := s_Claims sample_jwt_subject\<rparr>"

lemma jwt_access_dies_with_the_token_witness:
  "xj_headers sample_xjwt = [(''k'', ''ES256'')] \<and>
   (\<exists>e. (e = 0 \<or> 160 * Second \<le> e + 30 * Second) \<and> 100 * Second < e + Minute)"
proof -
  let ?p = "\<lambda>t. if t = ''a.b.c'' then Some sample_xjwt else None"
    and ?k = "\<lambda>raw. if raw = ''keys'' then Some [sample_jwk] else None"
    and ?i = "sample_issuer sample_jwt_claims sample_login"
  have a: "JWT_Authenticate ?p ?k (\<lambda>v. None) sample_jwt (100 * Second) ''u'' ''a.b.c'' = Inr sample_jwt_subject"
    by code_simp
  have b: "Issue ?i (100 * Second) ''id'' sample_jwt_subject [] [] = Inr (''h.p.s'', sample_jwt_claims)" by code_simp
  have v: "Verify ?i (160 * Second) ''h.p.s'' \<noteq> None" by code_simp
  from jwt_access_dies_with_the_token [OF a sample_issuer_ok b v] show ?thesis
    by (auto simp: sample_xjwt_def)
qed

end
