(* ===== verification/Registry_Route.thy ===== *)
theory Registry_Route
  imports Auth_Guard
begin

text \<open>
  How a request finds its handler (\<open>registry/registry.go\<close>) and what it must be allowed for it
  (\<open>registry/auth.go\<close>): the routes under \<open>/v2/\<close>, read from the right since a repository's name
  may hold any of their words, the paths the registry answers, the actions a request needs and
  the check of them.
\<close>

section \<open>Routes\<close>

datatype route = routeNone | routeBlob | routeUpload | routeManifest | routeTags | routeReferrers

definition writes :: "route \<Rightarrow> string \<Rightarrow> bool" where
  "writes rt m = (rt = routeUpload \<or> (rt = routeManifest \<and> m = ''PUT''))"

definition parse_segs :: "string list \<Rightarrow> string \<times> route \<times> string" where
  "parse_segs segs =
     (let n = length segs; join = (\<lambda>k. join_with ''/'' (take k segs)) in
      if 3 \<le> n \<and> segs ! (n - 2) = ''tags'' \<and> segs ! (n - 1) = ''list'' then (join (n - 2), routeTags, '''')
      else if 4 \<le> n \<and> segs ! (n - 3) = ''blobs'' \<and> segs ! (n - 2) = ''uploads'' then
        (join (n - 3), routeUpload, segs ! (n - 1))
      else if 3 \<le> n \<and> segs ! (n - 2) = ''blobs'' \<and> segs ! (n - 1) = ''uploads'' then (join (n - 2), routeUpload, '''')
      else if 3 \<le> n \<and> segs ! (n - 2) = ''blobs'' then (join (n - 2), routeBlob, segs ! (n - 1))
      else if 3 \<le> n \<and> segs ! (n - 2) = ''manifests'' then (join (n - 2), routeManifest, segs ! (n - 1))
      else if 3 \<le> n \<and> segs ! (n - 2) = ''referrers'' then (join (n - 2), routeReferrers, segs ! (n - 1))
      else ('''', routeNone, ''''))"

definition parse :: "string \<Rightarrow> string \<times> route \<times> string" where
  "parse rest = parse_segs (split_on (CHR ''/'') rest)"

definition blobPath :: "string \<Rightarrow> digest \<Rightarrow> string" where
  "blobPath name d = ''/v2/'' @ name @ ''/blobs/'' @ d"

definition uploadPath :: "string \<Rightarrow> string \<Rightarrow> string" where
  "uploadPath name i = ''/v2/'' @ name @ ''/blobs/uploads/'' @ i"

definition manifestPath :: "string \<Rightarrow> digest \<Rightarrow> string" where
  "manifestPath name d = ''/v2/'' @ name @ ''/manifests/'' @ d"

text \<open>What a span and a metric are labelled with: no name and no digest.\<close>

definition RouteOf :: "request \<Rightarrow> string" where
  "RouteOf r =
     (let p = rq_Path r in
      if p = ''/v2'' \<or> p = ''/v2/'' then ''/v2/''
      else if p \<in> {''/v2/_catalog'', ''/v1/_ping'', ''/v1/search'', ''/token'', ''/token/exchange'',
          ''/.well-known/jwks.json'', ''/admin/gc''} then p
      else if prefix ''/admin/gc/'' p then ''/admin/gc/{id}''
      else
        (case cut_prefix p ''/v2/'' of
           None \<Rightarrow> ''other''
         | Some rest \<Rightarrow>
             (case parse rest of (_, rt, arg) \<Rightarrow>
                (case rt of
                   routeBlob \<Rightarrow> ''/v2/{name}/blobs/{digest}''
                 | routeUpload \<Rightarrow> if arg = '''' then ''/v2/{name}/blobs/uploads/''
                                  else ''/v2/{name}/blobs/uploads/{reference}''
                 | routeManifest \<Rightarrow> ''/v2/{name}/manifests/{reference}''
                 | routeTags \<Rightarrow> ''/v2/{name}/tags/list''
                 | routeReferrers \<Rightarrow> ''/v2/{name}/referrers/{digest}''
                 | routeNone \<Rightarrow> ''other''))))"

section \<open>What a request needs\<close>

definition need :: "route \<Rightarrow> string \<Rightarrow> string \<Rightarrow> action list option" where
  "need rt m arg =
     (case rt of
        routeBlob \<Rightarrow>
          (if m = ''GET'' \<or> m = ''HEAD'' then Some [ActionPull] else if m = ''DELETE'' then Some [ActionDelete] else None)
      | routeUpload \<Rightarrow>
          (if m \<in> {''POST'', ''PATCH'', ''PUT'', ''GET'', ''DELETE''} then Some [ActionPush] else None)
      | routeManifest \<Rightarrow>
          (if m = ''GET'' \<or> m = ''HEAD'' then Some [ActionPull]
           else if m = ''PUT'' then
             (if contains arg '':'' then Some [ActionPush] else Some [ActionPush, ActionTag])
           else if m = ''DELETE'' then Some [ActionDelete] else None)
      | routeTags \<Rightarrow> if m = ''GET'' \<or> m = ''HEAD'' then Some [ActionPull] else None
      | routeReferrers \<Rightarrow> if m = ''GET'' \<or> m = ''HEAD'' then Some [ActionPull] else None
      | routeNone \<Rightarrow> None)"

definition challengeScopes :: "string \<Rightarrow> action list \<Rightarrow> scope list" where
  "challengeScopes repo want =
     (if repo = '''' then [\<lparr>sc_Type = TypeRegistry, sc_Name = ''catalog'', sc_Actions = [''*'']\<rparr>]
      else
        (let actions = (if ActionPush \<in> set want \<and> ActionPull \<notin> set want then ActionPull # want else want)
         in [\<lparr>sc_Type = TypeRepository, sc_Name = repo, sc_Actions = actions\<rparr>]))"

text \<open>
  The check itself: the caller, or the refusal it is answered with.
\<close>

definition guard_check :: "guard option \<Rightarrow> time \<Rightarrow> request \<Rightarrow> string \<Rightarrow> action list \<Rightarrow> error + caller" where
  "guard_check go now r repo want =
     (case go of
        None \<Rightarrow> Inr Open
      | Some g \<Rightarrow>
          (case guard_Caller g now r of
             Inl e \<Rightarrow> Inl (Oci (Challenge g r (challengeScopes repo want) False))
           | Inr c \<Rightarrow>
               (let allowed = (if repo = '''' then AllowedRegistry c want else Allowed c repo want);
                    missing = filter (\<lambda>a. a \<notin> set allowed) want
                in if length allowed = length want then Inr c
                   else if FromToken c \<and> repo \<noteq> '''' \<and> \<not> Refused c repo missing then
                     Inl (Oci (Challenge g r (challengeScopes repo want) True))
                   else if caller_anonymous c then Inl (Oci (Challenge g r (challengeScopes repo want) False))
                   else Inl (Oci (ErrDenied (DText (''missing '' @ join_with '','' missing)))))))"

section \<open>Reading a path back\<close>

lemma split_tail:
  assumes "list_all (\<lambda>x. CHR ''/'' \<notin> set x) xs" "xs \<noteq> []"
  shows "split_on (CHR ''/'') (name @ ''/'' @ join_with ''/'' xs) = split_on (CHR ''/'') name @ xs"
  using assms split_on_append [of "CHR ''/''" name "join_with ''/'' xs"] split_on_join [of xs "CHR ''/''"]
  by (simp add: list_all_iff)

lemma nth_tail:
  "(xs @ [a, b]) ! (length xs) = a" "(xs @ [a, b]) ! (Suc (length xs)) = b"
  "(xs @ [a, b, c]) ! (length xs) = a" "(xs @ [a, b, c]) ! (Suc (length xs)) = b"
  "(xs @ [a, b, c]) ! (Suc (Suc (length xs))) = c"
  by (simp_all add: nth_append)

lemma split_pos: "0 < length (split_on c s)"
  by (cases "split_on c s") (use split_on_not_Nil in auto)

text \<open>What \<open>parse\<close> makes of a path with two, or three, segments after the name.\<close>

lemma parse_segs_two:
  assumes "xs \<noteq> []" "\<not> (1 < length xs \<and> last xs = ''blobs'' \<and> a = ''uploads'')"
  shows "parse_segs (xs @ [a, b]) =
    (if a = ''tags'' \<and> b = ''list'' then (join_with ''/'' xs, routeTags, '''')
     else if a = ''blobs'' \<and> b = ''uploads'' then (join_with ''/'' xs, routeUpload, '''')
     else if a = ''blobs'' then (join_with ''/'' xs, routeBlob, b)
     else if a = ''manifests'' then (join_with ''/'' xs, routeManifest, b)
     else if a = ''referrers'' then (join_with ''/'' xs, routeReferrers, b) else ('''', routeNone, ''''))"
proof -
  have l: "(xs @ [a, b]) ! (length xs - 1) = last xs" using assms(1) by (simp add: nth_append last_conv_nth)
  have n0: "0 < length xs" using assms(1) by simp
  have n: "0 < length xs" "(3 \<le> length xs + 2) = True" "(4 \<le> length xs + 2) = (1 < length xs)"
    using n0 by presburger+
  have i: "length xs + 2 - 2 = length xs" "length xs + 2 - 1 = Suc (length xs)" "length xs + 2 - 3 = length xs - 1" by auto
  have s: "length (xs @ [a, b]) = length xs + 2" "take (length xs) (xs @ [a, b]) = xs" by auto
  show ?thesis
    unfolding parse_segs_def Let_def s(1) i n(2,3) nth_tail l s(2) using assms(2) by auto
qed

lemma parse_segs_upload:
  assumes "xs \<noteq> []"
  shows "parse_segs (xs @ [''blobs'', ''uploads'', i]) = (join_with ''/'' xs, routeUpload, i)"
proof -
  have n0: "0 < length xs" using assms by simp
  have n: "(3 \<le> length xs + 3) = True" "(4 \<le> length xs + 3) = True" using n0 by presburger+
  have i: "length xs + 3 - 3 = length xs" "length xs + 3 - 2 = Suc (length xs)" "length xs + 3 - 1 = Suc (Suc (length xs))"
    by auto
  have s: "length (xs @ [''blobs'', ''uploads'', i]) = length xs + 3"
    "take (length xs) (xs @ [''blobs'', ''uploads'', i]) = xs" by auto
  show ?thesis unfolding parse_segs_def Let_def s(1) i n nth_tail s(2) by simp
qed

lemma parse_two:
  assumes "CHR ''/'' \<notin> set a" "CHR ''/'' \<notin> set b" "a \<noteq> ''uploads''"
  shows "parse (name @ ''/'' @ a @ ''/'' @ b) =
    (if a = ''tags'' \<and> b = ''list'' then (name, routeTags, '''')
     else if a = ''blobs'' \<and> b = ''uploads'' then (name, routeUpload, '''')
     else if a = ''blobs'' then (name, routeBlob, b)
     else if a = ''manifests'' then (name, routeManifest, b)
     else if a = ''referrers'' then (name, routeReferrers, b) else ('''', routeNone, ''''))"
proof -
  have sp: "split_on (CHR ''/'') (name @ ''/'' @ a @ ''/'' @ b) = split_on (CHR ''/'') name @ [a, b]"
    using split_tail [of "[a, b]" name] assms(1,2) by simp
  show ?thesis
    unfolding parse_def sp using parse_segs_two [of "split_on (CHR ''/'') name" a b] assms(3)
    by (simp only: join_split_on split_on_not_Nil simp_thms)
qed

lemma parse_three:
  assumes "CHR ''/'' \<notin> set i"
  shows "parse (name @ ''/blobs/uploads/'' @ i) = (name, routeUpload, i)"
proof -
  have sp: "split_on (CHR ''/'') (name @ ''/blobs/uploads/'' @ i) = split_on (CHR ''/'') name @ [''blobs'', ''uploads'', i]"
    using split_tail [of "[''blobs'', ''uploads'', i]" name] assms by simp
  show ?thesis
    unfolding parse_def sp by (simp only: parse_segs_upload split_on_not_Nil simp_thms join_split_on)
qed

end
