(* ===== verification/Registry_Access.thy ===== *)
theory Registry_Access
  imports Registry_Route Auth_Access
begin

text \<open>
  What routes and the check of a request promise: a path the registry answers is read back as
  what it was made of, and a client that follows the challenge it is given is let in, or told no
  for good.
\<close>

section \<open>Paths\<close>

text \<open>The paths, after \<open>/v2/\<close>, that a route and its argument are read from.\<close>

definition paths_of :: "string \<Rightarrow> route \<Rightarrow> string \<Rightarrow> string set" where
  "paths_of name rt arg =
     (case rt of
        routeNone \<Rightarrow> {}
      | routeTags \<Rightarrow> {name @ ''/tags/list''}
      | routeUpload \<Rightarrow> insert (name @ ''/blobs/uploads/'' @ arg) (if arg = '''' then {name @ ''/blobs/uploads''} else {})
      | routeBlob \<Rightarrow> {name @ ''/blobs/'' @ arg}
      | routeManifest \<Rightarrow> {name @ ''/manifests/'' @ arg}
      | routeReferrers \<Rightarrow> {name @ ''/referrers/'' @ arg})"

lemma list_last_two: "2 \<le> length xs \<Longrightarrow> xs = take (length xs - 2) xs @ [xs ! (length xs - 2), xs ! (length xs - 1)]"
proof -
  assume a: "2 \<le> length xs"
  then have "drop (length xs - 2) xs = [xs ! (length xs - 2), xs ! (length xs - 1)]"
    by (simp add: list_eq_iff_nth_eq nth_Cons' less_Suc_eq numeral_2_eq_2)
  then show ?thesis by (metis append_take_drop_id)
qed

lemma list_last_three:
  "3 \<le> length xs \<Longrightarrow> xs = take (length xs - 3) xs @ [xs ! (length xs - 3), xs ! (length xs - 2), xs ! (length xs - 1)]"
proof -
  assume a: "3 \<le> length xs"
  then have "drop (length xs - 3) xs = [xs ! (length xs - 3), xs ! (length xs - 2), xs ! (length xs - 1)]"
    by (auto simp: list_eq_iff_nth_eq nth_Cons' less_Suc_eq numeral_3_eq_3 numeral_2_eq_2)
  then show ?thesis by (metis append_take_drop_id)
qed

lemma join_last_two:
  "3 \<le> length segs \<Longrightarrow> join_with ''/'' segs =
     join_with ''/'' (take (length segs - 2) segs) @ ''/'' @ segs ! (length segs - 2) @ ''/'' @ segs ! (length segs - 1)"
proof -
  assume a: "3 \<le> length segs"
  then have "take (length segs - 2) segs \<noteq> []" by auto
  then have "join_with ''/'' (take (length segs - 2) segs @ [segs ! (length segs - 2), segs ! (length segs - 1)]) =
      join_with ''/'' (take (length segs - 2) segs) @ ''/'' @ segs ! (length segs - 2) @ ''/'' @ segs ! (length segs - 1)"
    by (simp add: join_with_append)
  with list_last_two [of segs] a show ?thesis by simp
qed

lemma join_last_three:
  "4 \<le> length segs \<Longrightarrow> join_with ''/'' segs =
     join_with ''/'' (take (length segs - 3) segs) @ ''/'' @ segs ! (length segs - 3) @ ''/'' @
       segs ! (length segs - 2) @ ''/'' @ segs ! (length segs - 1)"
proof -
  assume a: "4 \<le> length segs"
  then have "take (length segs - 3) segs \<noteq> []" by auto
  then have "join_with ''/'' (take (length segs - 3) segs @
        [segs ! (length segs - 3), segs ! (length segs - 2), segs ! (length segs - 1)]) =
      join_with ''/'' (take (length segs - 3) segs) @ ''/'' @ segs ! (length segs - 3) @ ''/'' @
        segs ! (length segs - 2) @ ''/'' @ segs ! (length segs - 1)"
    by (simp add: join_with_append)
  with list_last_three [of segs] a show ?thesis by simp
qed

lemma parse_paths: "parse rest = (name, rt, arg) \<Longrightarrow> rt \<noteq> routeNone \<Longrightarrow> rest \<in> paths_of name rt arg"
proof -
  assume p: "parse rest = (name, rt, arg)" "rt \<noteq> routeNone"
  let ?s = "split_on (CHR ''/'') rest"
  have j: "rest = join_with ''/'' ?s" by (simp add: join_split_on)
  show ?thesis
    using p join_last_two [of ?s] join_last_three [of ?s] j
    by (auto simp: parse_def parse_segs_def Let_def paths_of_def split: if_splits)
qed

section \<open>Following a challenge\<close>

lemma need_known: "need rt m arg = Some want \<Longrightarrow> set want \<subseteq> {ActionPull, ActionPush, ActionTag, ActionDelete}"
  by (auto simp: need_def split: route.splits if_splits)

lemma four_actions: "{ActionPull, ActionPush, ActionTag, ActionDelete} \<subseteq> set Actions"
  by (auto simp: Actions_def)

lemma empty_name: "\<not> ValidName ''''"
  by code_simp

lemma valid_name_no_blank: "ValidName s \<Longrightarrow> \<forall>c \<in> set s. \<not> is_space c"
proof -
  assume v: "ValidName s"
  have ns: "\<not> is_space c" if "alnum c \<or> c \<in> {CHR ''.'', CHR ''_'', CHR ''-''}" for c
  proof -
    have "\<not> alnum x" if "is_space x" for x
      using that by (auto simp: is_space_def alnum_def in_class_def)
    moreover have "\<not> is_space (CHR ''.'')" "\<not> is_space (CHR ''_'')" "\<not> is_space (CHR ''-'')" by code_simp+
    ultimately show ?thesis using that by auto
  qed
  have seg: "\<not> is_space c" if "w \<in> set (split_on (CHR ''/'') s)" "c \<in> set w" for w c
  proof -
    have "accepts componentRe w" using v that(1) by (auto simp only: ValidName_def nameRe_segments)
    then have "rmatch componentRe w" by (simp only: accepts_iff)
    from component_chars [OF this that(2)] show ?thesis by (rule ns)
  qed
  have "c = CHR ''/'' \<or> (\<exists>w \<in> set (split_on (CHR ''/'') s). c \<in> set w)" if "c \<in> set s" for c
    using that join_chars [of "''/''" "split_on (CHR ''/'') s"] by (auto simp: join_split_on)
  moreover have "\<not> is_space (CHR ''/'')" by code_simp
  ultimately show ?thesis using seg by auto
qed

lemma challenge_parses:
  assumes "ValidName repo" "set want \<subseteq> {ActionPull, ActionPush, ActionTag, ActionDelete}"
  shows "\<exists>as. ParseScopes [scopes_text (challengeScopes repo want)] =
      Inr [\<lparr>sc_Type = TypeRepository, sc_Name = repo, sc_Actions = as\<rparr>] \<and>
    set want \<subseteq> set as \<and> ParseActions as = as \<and> ActionAll \<notin> set as"
proof -
  define as where "as = (if ActionPush \<in> set want \<and> ActionPull \<notin> set want then ActionPull # want else want)"
  let ?sc = "\<lparr>sc_Type = TypeRepository, sc_Name = repo, sc_Actions = as\<rparr>"
  have ne: "repo \<noteq> ''''" using assms(1) empty_name by blast
  then have ch: "challengeScopes repo want = [?sc]" by (simp add: challengeScopes_def as_def)
  have known: "set as \<subseteq> {ActionPull, ActionPush, ActionTag, ActionDelete}" using assms(2) by (auto simp: as_def)
  have "plain_action a" if "a \<in> set as" for a using that known four_actions actions_plain [of a] by blast
  then have "list_all plain_action as" by (simp add: list_all_iff)
  moreover have "TypeRepository \<noteq> []" "CHR '':'' \<notin> set TypeRepository" "CHR ''('' \<notin> set TypeRepository"
    "\<forall>c \<in> set TypeRepository. \<not> is_space c" by code_simp+
  ultimately have "list_all printable_scope [?sc]" "list_all no_blanks [?sc]"
    using valid_name_no_blank [OF assms(1)] by (auto simp: printable_scope_def no_blanks_def)
  from String_no_blanks [of ?sc] this have "Prelude.fields (scopes_text [?sc]) = [scope_String ?sc]"
    by (simp add: scopes_text_def fields_word)
  then have "ParseScopes [scopes_text (challengeScopes repo want)] = Inr [?sc]"
    using \<open>list_all printable_scope [?sc]\<close> parse_each_String [of "[?sc]"] by (simp add: ParseScopes_def ch)
  moreover have "ParseActions as = as" using known four_actions by (intro ParseActions_plain) auto
  moreover have "ActionAll \<notin> set as" using known by (auto simp: action_defs)
  ultimately show ?thesis by (auto simp: as_def)
qed

lemma wanted_repo_plain: "ActionAll \<notin> set as \<Longrightarrow> set as \<subseteq> set (wanted_repo as)"
  by (auto simp: wanted_repo_def Let_def)

text \<open>The caller a bearer token makes, on a request that brings it.\<close>

lemma bearer_caller:
  assumes "header_get r ''Authorization'' = ''Bearer '' @ token" "\<forall>x \<in> set token. \<not> is_space x"
    "Verify (gd_Issuer g) now token = Some c"
  shows "guard_Caller g now r = Inr (Caller (Who c) (Some c) (gd_Policy g))"
proof -
  have "cut (CHR '' '') (''Bearer '' @ token) = (''Bearer'', token, True)"
    using cut_found [of "CHR '' ''" "''Bearer''" token] by simp
  moreover have "trim_space token = token" using assms(2) by (intro trim_space_id) auto
  moreover have "to_lower ''Bearer'' = ''bearer''" by code_simp
  ultimately show ?thesis using assms(1,3) by (simp add: guard_Caller_def Let_def)
qed

lemma length_filter_all: "length (filter P xs) = length xs \<longleftrightarrow> (\<forall>x \<in> set xs. P x)"
  by (metis filter_True length_filter_less nat_neq_iff)

text \<open>What the check makes of a token whose one entry is for the repository.\<close>

lemma check_one_entry:
  assumes "guard_Caller g now r = Inr (Caller s (Some c) p)" "repo \<noteq> ''''"
    and acc: "tk_Access c = [\<lparr>ac_Type = TypeRepository, ac_Name = repo, ac_Actions = gr\<rparr>]" "ActionAll \<notin> set gr"
    and ref: "tk_Refused c = (if no \<noteq> [] then [\<lparr>ac_Type = TypeRepository, ac_Name = repo, ac_Actions = no\<rparr>] else [])"
    and w: "set want \<subseteq> set gr \<union> set no"
  shows "if set want \<subseteq> set gr then guard_check (Some g) now r repo want = Inr (Caller s (Some c) p)
    else \<exists>e. guard_check (Some g) now r repo want = Inl (Oci e) \<and>
      e = (if IsAnonymous s then Challenge g r (challengeScopes repo want) False
           else ErrDenied (DText (''missing '' @ join_with '','' (filter (\<lambda>a. a \<notin> set gr) want))))"
proof -
  let ?c = "Caller s (Some c) p"
  have al: "Allowed ?c repo want = filter (\<lambda>a. a \<in> set gr) want"
    using acc by (simp add: Allowed_def access_for_def intersect_def)
  have mi: "filter (\<lambda>a. a \<in> set want \<longrightarrow> a \<notin> set gr) want = filter (\<lambda>a. a \<notin> set gr) want"
    by (rule filter_cong) auto
  have ok: "length (filter (\<lambda>a. a \<in> set gr) want) = length want \<longleftrightarrow> set want \<subseteq> set gr"
    by (auto simp: length_filter_all)
  have re: "Refused ?c repo (filter (\<lambda>a. a \<notin> set gr) want)"
    using w by (auto simp: Refused_def refused_for_def ref list_all_iff)
  have fr: "FromToken ?c" "caller_anonymous ?c = IsAnonymous s" by (simp_all add: FromToken_def caller_anonymous_def)
  show ?thesis
    using re fr by (simp add: guard_check_def assms(1,2) Let_def al mi ok)
qed

section \<open>Properties\<close>

text \<open>
  C39: every path the registry answers, of a blob, a manifest or an upload, is read back as the
  name, the route and the argument it was made of, whatever words of the routes the name holds;
  and a path that is read as a route at all is one that route's paths are made of, so that no
  path means two things.
\<close>

theorem paths_read_back:
  assumes "CHR ''/'' \<notin> set d" and "CHR '':'' \<in> set d" and "CHR ''/'' \<notin> set i"
  shows "map_option parse (cut_prefix (blobPath name d) ''/v2/'') = Some (name, routeBlob, d) \<and>
    map_option parse (cut_prefix (manifestPath name d) ''/v2/'') = Some (name, routeManifest, d) \<and>
    map_option parse (cut_prefix (uploadPath name i) ''/v2/'') = Some (name, routeUpload, i) \<and>
    (case parse rest of (n, rt, arg) \<Rightarrow> rt = routeNone \<or> rest \<in> paths_of n rt arg)"
proof -
  have d: "d \<noteq> ''uploads''" using assms(2) by auto
  have c: "cut_prefix (''/v2/'' @ x) ''/v2/'' = Some x" for x by (simp add: cut_prefix_Some)
  have b: "parse (name @ ''/blobs/'' @ d) = (name, routeBlob, d)"
    using parse_two [of "''blobs''" d name] assms(1) d by simp
  have m: "parse (name @ ''/manifests/'' @ d) = (name, routeManifest, d)"
    using parse_two [of "''manifests''" d name] assms(1) by simp
  have "case parse rest of (n, rt, arg) \<Rightarrow> rt = routeNone \<or> rest \<in> paths_of n rt arg"
    using parse_paths by (auto split: prod.splits)
  then show ?thesis
    unfolding blobPath_def manifestPath_def uploadPath_def c using b m parse_three [OF assms(3)] by simp
qed

lemma paths_read_back_witness:
  "map_option parse (cut_prefix ''/v2/a/blobs/uploads/manifests/sha256:12'' ''/v2/'') =
     Some (''a/blobs/uploads'', routeManifest, ''sha256:12'')"
  using paths_read_back [of "''sha256:12''" "''x''" "''a/blobs/uploads''" "''''"]
  by (simp add: manifestPath_def)



end
