(* ===== verification/Blob_Route.thy ===== *)
theory Blob_Route
  imports Errors
begin

text \<open>
  What wraps the blob stores (\<open>blob/router.go\<close>, \<open>blob/cache.go\<close>, \<open>blob/wellknown.go\<close>): a pool
  per prefix of a repository's name, the longest that covers it first; the repositories that read
  through to an upstream; and the blobs that are answered from memory.  A pool is a value of a
  type of its own, compared as the code compares pools, by identity.
\<close>

section \<open>Prefixes\<close>

definition Covers :: "string \<Rightarrow> string \<Rightarrow> bool" where
  "Covers p name =
     (if p = '''' \<or> name = p then True else prefix p name \<and> name ! length p = CHR ''/'')"

section \<open>The router\<close>

record 'p pool_route =
  rt_Prefix :: string
  rt_Stores :: 'p

definition longest_first :: "('a \<Rightarrow> string) \<Rightarrow> 'a list \<Rightarrow> 'a list" where
  "longest_first f rs = sort_key (\<lambda>r. - int (length (f r))) rs"

fun twice :: "'p pool_route list \<Rightarrow> string option" where
  "twice (a # b # rs) = (if rt_Prefix b = rt_Prefix a then Some (rt_Prefix b) else twice (b # rs))"
| "twice rs = None"

definition NewRouter :: "'p pool_route list \<Rightarrow> error + 'p pool_route list" where
  "NewRouter routes =
     (let rs = longest_first rt_Prefix routes in
      if rs = [] \<or> rt_Prefix (last rs) \<noteq> '''' then Inl (Other ''router: no route for the empty prefix'')
      else (case twice rs of
          Some p \<Rightarrow> Inl (Other (''router: two routes for '' @ p))
        | None \<Rightarrow> Inr rs))"

definition router_Stores :: "'p pool_route list \<Rightarrow> string \<Rightarrow> 'p option" where
  "router_Stores rs i = map_option rt_Stores (List.find (\<lambda>r. Covers (rt_Prefix r) i) rs)"

definition Pools :: "'p pool_route list \<Rightarrow> 'p list" where
  "Pools rs = foldl (\<lambda>out r. if rt_Stores r \<in> set out then out else out @ [rt_Stores r]) [] rs"

text \<open>\<open>prune\<close> is \<open>PruneStages\<close> of the pools that have it, on a state all pools share.\<close>

fun prune_each :: "('p \<Rightarrow> ('f \<Rightarrow> (nat \<times> error option) \<times> 'f) option) \<Rightarrow> 'p list \<Rightarrow> 'f \<Rightarrow> (nat \<times> error list) \<times> 'f" where
  "prune_each prune [] f = ((0, []), f)"
| "prune_each prune (p # ps) f =
     (case prune p of
        None \<Rightarrow> prune_each prune ps f
      | Some g \<Rightarrow>
          (case g f of ((k, e), f1) \<Rightarrow>
             (case prune_each prune ps f1 of ((n, es), f2) \<Rightarrow>
                ((k + n, (case e of None \<Rightarrow> es | Some x \<Rightarrow> x # es)), f2))))"

definition router_PruneStages :: "('p \<Rightarrow> ('f \<Rightarrow> (nat \<times> error option) \<times> 'f) option) \<Rightarrow> 'p pool_route list \<Rightarrow>
    'f \<Rightarrow> (nat \<times> error option) \<times> 'f" where
  "router_PruneStages prune rs f =
     (case prune_each prune (Pools rs) f of ((n, es), f1) \<Rightarrow> ((n, join_errs es), f1))"

text \<open>What the router yields, a name or an error at a time, to a caller that takes all of it.\<close>

definition router_Namespaces :: "('p \<Rightarrow> (error + string) list option) \<Rightarrow> 'p pool_route list \<Rightarrow> (error + string) list" where
  "router_Namespaces list_of rs =
     concat (map (\<lambda>p. case list_of p of
         None \<Rightarrow> []
       | Some vs \<Rightarrow> filter (\<lambda>v. case v of Inl e \<Rightarrow> True | Inr ns \<Rightarrow> router_Stores rs ns = Some p) vs) (Pools rs))"

section \<open>The cache\<close>

text \<open>A route's store reads through to its origin; \<open>through\<close> is what flob makes of the two.\<close>

definition cache_Use :: "(string \<times> 'o) list \<Rightarrow> ('o \<Rightarrow> string \<Rightarrow> 's) \<Rightarrow> (string \<Rightarrow> 's) \<Rightarrow> string \<Rightarrow> 's" where
  "cache_Use routes through base i =
     (case List.find (\<lambda>r. Covers (fst r) i) routes of Some r \<Rightarrow> through (snd r) i | None \<Rightarrow> base i)"

definition NewCache :: "(string \<times> 'o) list \<Rightarrow> (string \<times> 'o) list" where
  "NewCache routes = longest_first fst routes"

section \<open>The blobs everybody has\<close>

definition EmptyJSON :: digest where
  "EmptyJSON = ''sha256:44136fa355b3678a1146ad16f7e8649e94fb4fc21fe77e8310c060f61caaff8a''"

definition EmptyLayer :: digest where
  "EmptyLayer = ''sha256:a3ed95caeb02ffe68cdd9fd84406680ae93d633cb16422d00e8a7c22955b46d4''"

definition EmptyTar :: digest where
  "EmptyTar = ''sha256:5f70bf18a086007016e948b04aed3b82103a36bea41755b6cddfaf10ace3c6ef''"

definition Empty :: digest where
  "Empty = ''sha256:e3b0c44298fc1c149afbf4c8996fb92427ae41e4649b934ca495991b7852b855''"

definition empty_layer_bytes :: "nat list" where
  "empty_layer_bytes =
     [0x1f, 0x8b, 0x08, 0x00, 0x00, 0x09, 0x6e, 0x88, 0x00, 0xff, 0x62, 0x18, 0x05, 0xa3, 0x60, 0x14,
      0x8c, 0x58, 0x00, 0x08, 0x00, 0x00, 0xff, 0xff, 0x2e, 0xaf, 0xb5, 0xef, 0x00, 0x04, 0x00, 0x00]"

definition WellKnown :: "digest \<Rightarrow> string option" where
  "WellKnown d =
     (if d = EmptyJSON then Some ''{}''
      else if d = EmptyLayer then Some (map char_of empty_layer_bytes)
      else if d = EmptyTar then Some (replicate 1024 (CHR 0x00))
      else if d = Empty then Some ''''
      else None)"

section \<open>Facts\<close>

lemma sorted_longest: "sorted (map (\<lambda>r. - int (length (f r))) (longest_first f rs))"
  by (simp add: longest_first_def)

lemma set_longest [simp]: "set (longest_first f rs) = set rs"
  by (simp add: longest_first_def)

text \<open>The first of a list in order that covers a name has the longest prefix that does.\<close>

lemma find_longest:
  assumes "sorted (map (\<lambda>r. - int (length (f r))) rs)" "List.find P rs = Some a" "b \<in> set rs" "P b"
  shows "length (f b) \<le> length (f a)"
  using assms
proof (induction rs)
  case (Cons r rs)
  then show ?case by (auto split: if_splits)
qed simp

lemma set_Pools: "set (Pools rs) = rt_Stores ` set rs \<and> distinct (Pools rs)"
proof -
  have "set (foldl (\<lambda>out r. if rt_Stores r \<in> set out then out else out @ [rt_Stores r]) out rs) =
      set out \<union> rt_Stores ` set rs \<and>
    (distinct out \<longrightarrow> distinct (foldl (\<lambda>out r. if rt_Stores r \<in> set out then out else out @ [rt_Stores r]) out rs))" for out
    by (induction rs arbitrary: out) auto
  from this [of "[]"] show ?thesis by (simp add: Pools_def)
qed

lemma Covers_last_empty: "Covers '''' name"
  by (simp add: Covers_def)

section \<open>Properties\<close>

text \<open>
  A router sends every repository somewhere, to a route that covers its name and has the
  longest prefix of those that do; and it lists every namespace once, from the pool it sends it
  to, when each pool lists its own once.
\<close>

theorem router_longest_prefix:
  assumes "NewRouter routes = Inr rs"
    and "\<And>p vs. list_of p = Some vs \<Longrightarrow> distinct (filter (\<lambda>v. case v of Inl e \<Rightarrow> False | Inr n \<Rightarrow> True) vs)"
  shows "(\<exists>r \<in> set routes. router_Stores rs i = Some (rt_Stores r) \<and> Covers (rt_Prefix r) i \<and>
      (\<forall>r' \<in> set routes. Covers (rt_Prefix r') i \<longrightarrow> length (rt_Prefix r') \<le> length (rt_Prefix r))) \<and>
    distinct (filter (\<lambda>v. case v of Inl e \<Rightarrow> False | Inr n \<Rightarrow> True) (router_Namespaces list_of rs))"
proof
  have rs: "rs = longest_first rt_Prefix routes" "rs \<noteq> []" "rt_Prefix (last rs) = ''''"
    using assms(1) by (auto simp: NewRouter_def Let_def split: if_splits option.splits)
  have "last rs \<in> set rs" "Covers (rt_Prefix (last rs)) i" using rs(2,3) by (simp_all add: Covers_def)
  then obtain r where r: "List.find (\<lambda>r. Covers (rt_Prefix r) i) rs = Some r"
    by (cases "List.find (\<lambda>r. Covers (rt_Prefix r) i) rs") (auto simp: find_None_iff)
  then have "r \<in> set rs" "Covers (rt_Prefix r) i" by (auto simp: find_Some_iff)
  moreover have "length (rt_Prefix r') \<le> length (rt_Prefix r)" if "r' \<in> set rs" "Covers (rt_Prefix r') i" for r'
    using find_longest [OF _ r that] sorted_longest [of rt_Prefix routes] rs(1) by simp
  ultimately show "\<exists>r \<in> set routes. router_Stores rs i = Some (rt_Stores r) \<and> Covers (rt_Prefix r) i \<and>
      (\<forall>r' \<in> set routes. Covers (rt_Prefix r') i \<longrightarrow> length (rt_Prefix r') \<le> length (rt_Prefix r))"
    using rs(1) r by (auto simp: router_Stores_def)
next
  let ?name = "\<lambda>v. case v of Inl (e :: error) \<Rightarrow> False | Inr (n :: string) \<Rightarrow> True"
  let ?of = "\<lambda>p. case list_of p of None \<Rightarrow> []
    | Some vs \<Rightarrow> filter (\<lambda>v. case v of Inl e \<Rightarrow> True | Inr ns \<Rightarrow> router_Stores rs ns = Some p) vs"
  have d: "distinct (filter ?name (?of p))" for p
  proof (cases "list_of p")
    case (Some vs)
    have f: "filter ?name (?of p) = filter (\<lambda>v. case v of Inl e \<Rightarrow> True | Inr ns \<Rightarrow> router_Stores rs ns = Some p) (filter ?name vs)"
      by (simp add: Some conj_commute)
    show ?thesis unfolding f by (rule distinct_filter [OF assms(2) [OF Some]])
  qed simp
  have o: "router_Stores rs n = Some p" if "Inr n \<in> set (filter ?name (?of p))" for n p
    using that by (auto split: option.splits)
  have "distinct (filter ?name (concat (map ?of ps)))" if "distinct ps" for ps
    using that
  proof (induction ps)
    case (Cons p ps)
    have "\<not> (v \<in> set (filter ?name (?of p)) \<and> v \<in> set (filter ?name (concat (map ?of ps))))" for v
    proof
      assume v: "v \<in> set (filter ?name (?of p)) \<and> v \<in> set (filter ?name (concat (map ?of ps)))"
      then obtain n where n: "v = Inr n" by (auto split: sum.splits)
      from v n obtain q where q: "q \<in> set ps" "Inr n \<in> set (?of q)" by auto
      then have "router_Stores rs n = Some q" using o [of n q] by simp
      moreover have "router_Stores rs n = Some p" using o [of n p] v n by blast
      ultimately show False using q(1) Cons.prems by simp
    qed
    then have "set (filter ?name (?of p)) \<inter> set (filter ?name (concat (map ?of ps))) = {}" by blast
    with Cons d [of p] show ?case by (simp del: set_filter)
  qed simp
  with set_Pools [of rs] show "distinct (filter ?name (router_Namespaces list_of rs))"
    by (simp add: router_Namespaces_def)
qed

lemma router_longest_prefix_witness:
  "router_Stores [\<lparr>rt_Prefix = ''library'', rt_Stores = True\<rparr>, \<lparr>rt_Prefix = '''', rt_Stores = False\<rparr>] ''library/ubuntu'' = Some True \<and>
   distinct (filter (\<lambda>v. case v of Inl e \<Rightarrow> False | Inr n \<Rightarrow> True) (router_Namespaces (\<lambda>p. Some [Inr ''library/ubuntu'', Inr ''librarything''])
     [\<lparr>rt_Prefix = ''library'', rt_Stores = True\<rparr>, \<lparr>rt_Prefix = '''', rt_Stores = False\<rparr>]))"
proof -
  have n: "NewRouter [\<lparr>rt_Prefix = '''', rt_Stores = False\<rparr>, \<lparr>rt_Prefix = ''library'', rt_Stores = True\<rparr>] =
      Inr [\<lparr>rt_Prefix = ''library'', rt_Stores = True\<rparr>, \<lparr>rt_Prefix = '''', rt_Stores = False\<rparr>]"
    by code_simp
  have "Covers ''library'' ''library/ubuntu''" by code_simp
  with router_longest_prefix [OF n, of "\<lambda>p. Some [Inr ''library/ubuntu'', Inr ''librarything'']" "''library/ubuntu''"]
  show ?thesis by simp
qed

text \<open>
  Two routes for one prefix are told by being next to each other once the routes are in order of
  length; a third of the same length between them hides them.
\<close>

lemma NewRouter_misses_twice:
  "\<exists>rs. NewRouter [\<lparr>rt_Prefix = ''a'', rt_Stores = (1::nat)\<rparr>, \<lparr>rt_Prefix = ''b'', rt_Stores = 2\<rparr>,
      \<lparr>rt_Prefix = ''a'', rt_Stores = 3\<rparr>, \<lparr>rt_Prefix = '''', rt_Stores = 4\<rparr>] = Inr rs \<and> \<not> distinct (map rt_Prefix rs)"
  by (rule exI [of _ "[\<lparr>rt_Prefix = ''a'', rt_Stores = 1\<rparr>, \<lparr>rt_Prefix = ''b'', rt_Stores = 2\<rparr>,
      \<lparr>rt_Prefix = ''a'', rt_Stores = 3\<rparr>, \<lparr>rt_Prefix = '''', rt_Stores = 4\<rparr>]"]) code_simp

end
