(* ===== verification/Registry_Core.thy ===== *)
theory Registry_Core
  imports Registry_Route Blob_Route Blob_Store Oci_Manifest
begin

text \<open>
  What the handlers of \<open>/v2/\<close> share (\<open>registry/registry.go\<close>, the names of \<open>registry/proxy.go\<close>):
  the configuration, the repository a request is for on a mirror's host, the answer to an error,
  pages of a list.  A handler is given the headers set so far and answers a response, or nothing
  for a client that went away, and the index and the store after.  The clock is one argument for
  the whole of a request; logs and metrics are not modelled.
\<close>

section \<open>Proxies\<close>

text \<open>
  A pull-through cache.  What its upstream answers is fields over the store's state \<open>'f\<close>, which
  stands for everything outside the index: \<open>HeadManifest\<close>, \<open>GetManifest\<close> (the body, its media
  type and its digest) and \<open>Referrers\<close>.  \<open>px_Host\<close> is the host of the upstream's URL.
\<close>

datatype verify_mode = VerifyRequire | VerifyAudit

record 'f proxy =
  px_Prefix :: string
  px_Upstream :: string
  px_Host :: string
  px_Remote :: string
  px_Hosts :: "string list"
  px_TagTTL :: duration
  px_TagMaxStale :: duration
  px_ReferrersTTL :: duration
  px_ReferrersMaxStale :: duration
  px_Head :: "string \<Rightarrow> string \<Rightarrow> ('f, digest) op"
  px_Get :: "string \<Rightarrow> string \<Rightarrow> int \<Rightarrow> ('f, string \<times> string \<times> digest) op"
  px_Referrers :: "string \<Rightarrow> digest \<Rightarrow> int \<Rightarrow> ('f, descriptor list) op"
  px_Verify :: "(verify_mode \<times> (string \<Rightarrow> string \<times> digest \<times> int \<Rightarrow> string \<Rightarrow> string \<Rightarrow> string option)) option"

definition Upstream_Registry :: "'f proxy \<Rightarrow> string" where
  "Upstream_Registry p =
     (let h = to_lower (px_Host p)
      in if h = ''registry-1.docker.io'' \<or> h = ''index.docker.io'' then ''docker.io'' else h)"

definition proxies_of :: "'f proxy list \<Rightarrow> string \<Rightarrow> 'f proxy option" where
  "proxies_of ps repo = List.find (\<lambda>p. Covers (px_Prefix p) repo) ps"

text \<open>\<open>net.SplitHostPort\<close>, the host of which is all that is used.\<close>

definition split_host :: "string \<Rightarrow> string option" where
  "split_host s =
     (case last_index_byte (CHR '':'') s of
        None \<Rightarrow> None
      | Some i \<Rightarrow>
          if s \<noteq> [] \<and> hd s = CHR ''['' then
            (case index_byte (CHR '']'') s of
               None \<Rightarrow> None
             | Some e \<Rightarrow>
                 if e + 1 = i \<and> CHR ''['' \<notin> set (drop 1 s) \<and> CHR '']'' \<notin> set (drop (e + 1) s)
                 then Some (drop 1 (take e s)) else None)
          else if CHR '':'' \<in> set (take i s) \<or> CHR ''['' \<in> set s \<or> CHR '']'' \<in> set s then None
          else Some (take i s))"

definition named :: "'f proxy list \<Rightarrow> string \<Rightarrow> string \<Rightarrow> string \<Rightarrow> string \<times> bool" where
  "named ps name ns host =
     (if list_ex (\<lambda>p. px_Prefix p \<noteq> '''' \<and> Covers (px_Prefix p) name) ps then (name, True)
      else if ns = '''' then
        (let h = to_lower (case split_host host of Some x \<Rightarrow> x | None \<Rightarrow> host) in
         case List.find (\<lambda>p. px_Prefix p \<noteq> '''' \<and> h \<in> set (px_Hosts p)) ps of
           Some p \<Rightarrow> (px_Prefix p @ ''/'' @ name, True)
         | None \<Rightarrow> (name, True))
      else if list_ex (\<lambda>p. px_Prefix p = ns) ps then (ns @ ''/'' @ name, True)
      else
        (case proxies_of ps name of
           Some p \<Rightarrow> if px_Prefix p = '''' then (name, Upstream_Registry p = to_lower ns) else (name, True)
         | None \<Rightarrow> (name, True)))"

section \<open>The configuration\<close>

text \<open>
  \<open>rg_ServeContent\<close> is \<open>http.ServeContent\<close>: the response to a request for content with the
  headers set so far, with the ranges and the conditions the request asks for.
  \<open>rg_EncodeIndex\<close> is the JSON of the image index that lists the descriptors, as the image
  specification's Go types encode it, and \<open>rg_ErrorText\<close> the text of an error.
\<close>

record ('x, 'f) registry =
  rg_ix :: "'x index_ops"
  rg_fl :: "'f store_ops"
  rg_D :: digest_ops
  rg_J :: decoders
  rg_MaxManifestSize :: int
  rg_ChunkMinLength :: int
  rg_DisableWellKnown :: bool
  rg_Guard :: "guard option"
  rg_Redirect :: bool
  rg_RedirectTTL :: duration
  rg_Proxies :: "'f proxy list"
  rg_ServeContent :: "header \<Rightarrow> request \<Rightarrow> string \<Rightarrow> response"
  rg_EncodeIndex :: "descriptor list \<Rightarrow> string"
  rg_ErrorText :: "error \<Rightarrow> string"

text \<open>\<open>New\<close>: the defaults, and the proxies with the longest prefix first.\<close>

definition registry_New :: "duration \<Rightarrow> ('x, 'f) registry \<Rightarrow> ('x, 'f) registry" where
  "registry_New defaultTTL c =
     (let c1 = (if rg_MaxManifestSize c \<le> 0 then c\<lparr>rg_MaxManifestSize := 4 * 2 ^ 20\<rparr> else c);
          c2 = (if rg_RedirectTTL c1 \<le> 0 then c1\<lparr>rg_RedirectTTL := defaultTTL\<rparr> else c1)
      in c2\<lparr>rg_Proxies := longest_first px_Prefix (rg_Proxies c2)\<rparr>)"

definition registry_Name :: "('x, 'f) registry \<Rightarrow> request \<Rightarrow> string \<Rightarrow> string" where
  "registry_Name g r name =
     (case named (rg_Proxies g) name (query_get r ''ns'') (rq_Host r) of (n, ok) \<Rightarrow> if ok then n else name)"

definition wellKnown :: "('x, 'f) registry \<Rightarrow> digest \<Rightarrow> string option" where
  "wellKnown g d = (if rg_DisableWellKnown g then None else WellKnown d)"

section \<open>Errors\<close>

fun has_status :: "error \<Rightarrow> bool" where
  "has_status (UpstreamStatus n) = True"
| "has_status (Wrapped s e) = has_status e"
| "has_status (Joined es) = list_ex (\<lambda>e. has_status e) es"
| "has_status e = False"

definition upstreamAnswered :: "error \<Rightarrow> bool" where
  "upstreamAnswered e = (has_status e \<or> errors_is e UpstreamUnauthorized)"

text \<open>\<open>fail\<close>: the response to an error, or none when the client went away.\<close>

definition fail :: "header \<Rightarrow> error \<Rightarrow> response option" where
  "fail h e =
     (case as_oci e of
        Some o' \<Rightarrow> Some (WriteError h e)
      | None \<Rightarrow>
          if errors_is e ErrBusy then
            Some (WriteError h (Oci (ErrUnavailable ''1'' (DText ''the repository is being written to; retry''))))
          else if errors_is e Canceled then None
          else if errors_is e UpstreamUnreachable then
            Some (WriteError h (Oci (ErrGatewayTimeout (DText ''the upstream did not answer''))))
          else if upstreamAnswered e then
            Some (WriteError h (Oci (ErrBadGateway (DText ''the upstream answered with an error''))))
          else Some (WriteError h e))"

definition errNoRoute :: error where
  "errNoRoute = Oci (NewError 404 CodeUnsupported (DText ''no such endpoint''))"

definition errMethod :: error where
  "errMethod = Oci (NewError 405 CodeUnsupported (DText ''method not allowed''))"

text \<open>\<open>referenceOf\<close>: \<open>missing\<close> is the error for a tag that is malformed.\<close>

definition referenceOf :: "digest_ops \<Rightarrow> string \<Rightarrow> (detail \<Rightarrow> oci_error) \<Rightarrow> error + reference" where
  "referenceOf D arg missing =
     (case ParseReference D arg of
        Inr ref \<Rightarrow> Inr ref
      | Inl e \<Rightarrow>
          if contains arg '':'' then Inl (Oci (ErrDigestInvalid (DCause e)))
          else Inl (Oci (missing (DCause e))))"

section \<open>Pages\<close>

definition pageOf :: "request \<Rightarrow> page \<times> bool" where
  "pageOf r =
     (let p = \<lparr>pg_Last = query_get r ''last'', pg_N = 0\<rparr>; s = query_get r ''n'' in
      if s \<noteq> '''' then
        (case atoi s of Some n \<Rightarrow> if n \<ge> 0 then (p\<lparr>pg_N := n\<rparr>, True) else (p, False) | None \<Rightarrow> (p, False))
      else (p, False))"

text \<open>\<open>next\<close>: the header that links to the page after \<open>last\<close>.\<close>

definition next_link :: "string \<Rightarrow> int \<Rightarrow> string \<Rightarrow> header \<Rightarrow> header" where
  "next_link path n after h =
     hset ''Link'' (''<'' @ path @ ''?last='' @ query_escape after @ ''&n='' @ query_escape (itoa n) @ ''>; rel='' @ quoted ''next'') h"

definition only :: "(header \<Rightarrow> 'w \<Rightarrow> response option \<times> 'w) \<Rightarrow> header \<Rightarrow> request \<Rightarrow> 'w \<Rightarrow> response option \<times> 'w" where
  "only f h r w = (if is_GET r then f h w else (fail h errMethod, w))"

definition base_answer :: "header \<Rightarrow> request \<Rightarrow> response option" where
  "base_answer h r =
     (if \<not> is_GET r then fail h errMethod
      else Some \<lparr>rs_status = 200,
        rs_header = hset ''Content-Length'' ''2'' (hset ''Content-Type'' ''application/json'' h),
        rs_body = (if rq_Method r = ''GET'' then Bytes ''{}'' else NoBody)\<rparr>)"

section \<open>What an answer can be\<close>

lemma fail_status:
  "fail h e = Some a \<Longrightarrow> as_oci e = Some o' \<Longrightarrow> rs_status a = err_status o'"
  by (auto simp: fail_def WriteError_status)

lemma fail_Oci [simp]: "fail h (Oci e) = Some (WriteError h (Oci e))"
  by (simp add: fail_def)

text \<open>Nothing of an error of the registry's own, or of an upstream's, is in the answer.\<close>

lemma fail_no_leak:
  assumes "as_oci e = None" "fail h e = Some a"
  shows "a \<in> {WriteError h (Oci (ErrUnavailable ''1'' (DText ''the repository is being written to; retry''))),
    WriteError h (Oci (ErrGatewayTimeout (DText ''the upstream did not answer''))),
    WriteError h (Oci (ErrBadGateway (DText ''the upstream answered with an error''))),
    WriteError h (Other '''')}"
  using assms WriteError_no_leak [OF assms(1), of h] by (auto simp: fail_def split: if_splits)

lemma pageOf_bounds: "pageOf r = (p, given) \<Longrightarrow> 0 \<le> pg_N p \<and> pg_N p \<le> max_int64 \<and> (\<not> given \<longrightarrow> pg_N p = 0)"
  by (auto simp: pageOf_def Let_def max_int64_def split: if_splits option.splits dest!: atoi_bounds)

end
