(* ===== verification/Registry_Proxy.thy ===== *)
theory Registry_Proxy
  imports Registry_Core Gc_Core
begin

text \<open>
  Pull-through caches (\<open>registry/proxy.go\<close>): when what is cached is answered without asking the
  upstream, what is fetched when it is not, and the referrers an upstream lists.  A request that
  joins another's fetch gets that one's outcome (\<open>Registry_Join\<close>); here a request fetches for
  itself.
\<close>

section \<open>How long an answer is good\<close>

definition proxy_Name :: "'f proxy \<Rightarrow> string \<Rightarrow> string" where
  "proxy_Name p repo =
     (let rest = trim_prefix (trim_prefix repo (px_Prefix p)) ''/'' in
      if px_Remote p = '''' then rest else if rest = '''' then px_Remote p else px_Remote p @ ''/'' @ rest)"

definition proxy_ttl :: "'f proxy \<Rightarrow> duration" where
  "proxy_ttl p = (if px_TagTTL p \<le> 0 then 5 * Minute else px_TagTTL p)"

definition referrersTTL :: "'f proxy \<Rightarrow> duration" where
  "referrersTTL p = (if px_ReferrersTTL p \<le> 0 then proxy_ttl p else px_ReferrersTTL p)"

definition referrersMaxStale :: "'f proxy \<Rightarrow> duration" where
  "referrersMaxStale p = (if px_ReferrersMaxStale p \<le> 0 then 60 * Minute else px_ReferrersMaxStale p)"

definition fresh :: "time \<Rightarrow> duration \<Rightarrow> time \<Rightarrow> bool" where
  "fresh checked ttl now = (checked \<noteq> 0 \<and> now - checked < ttl)"

definition servable :: "time \<Rightarrow> duration \<Rightarrow> time \<Rightarrow> bool" where
  "servable checked bound now = (bound \<le> 0 \<or> (checked \<noteq> 0 \<and> now - checked \<le> bound))"

section \<open>Fetching\<close>

text \<open>The manifest as the index records it.\<close>

definition record_of :: "manifest \<Rightarrow> digest \<Rightarrow> string \<Rightarrow> time \<Rightarrow> imanifest" where
  "record_of m d body now =
     \<lparr>im_Digest = d, im_MediaType = mf_mediaType m, im_ArtifactType = mf_artifactType m,
      im_Subject = (case mf_subject m of None \<Rightarrow> '''' | Some s \<Rightarrow> d_digest s), im_Size = int (length body),
      im_Annotations = mf_annotations m, im_CreatedAt = now, im_PulledAt = 0\<rparr>"

text \<open>Where a tag points, before it is set: nothing for one that is not there.\<close>

definition tag_from :: "'x index_ops \<Rightarrow> string \<Rightarrow> string \<Rightarrow> ('x, digest) op" where
  "tag_from ix name t x =
     (case ix_tag_get ix name t x of
        (Inr cur, x1) \<Rightarrow> (Inr (tg_Digest cur), x1)
      | (Inl e, x1) \<Rightarrow> if errors_is e ErrNotFound then (Inr '''', x1) else (Inl e, x1))"

definition fetch_body :: "'x index_ops \<Rightarrow> string \<Rightarrow> imanifest \<Rightarrow> digest list \<Rightarrow> string \<Rightarrow> ('x, unit) op" where
  "fetch_body ix name m holds t x =
     (case ix_repo_ensure ix name x of
        (Inl e, x1) \<Rightarrow> (Inl e, x1)
      | (Inr _, x1) \<Rightarrow>
          (case ix_put ix name m holds x1 of
             (Inl e, x2) \<Rightarrow> (Inl e, x2)
           | (Inr _, x2) \<Rightarrow>
               if t = '''' then (Inr (), x2)
               else
                 (case tag_from ix name t x2 of
                    (Inl e, x3) \<Rightarrow> (Inl e, x3)
                  | (Inr from, x3) \<Rightarrow>
                      (case (if from \<noteq> im_Digest m then ix_tag_set ix name t (im_Digest m) from x3 else (Inr (), x3)) of
                         (Inl e, x4) \<Rightarrow> (Inl e, x4)
                       | (Inr _, x4) \<Rightarrow> ix_tag_check ix name t (im_Digest m) (im_CreatedAt m) x4))))"

definition fetch :: "('x, 'f) registry \<Rightarrow> time \<Rightarrow> 'f proxy \<Rightarrow> string \<Rightarrow> string \<Rightarrow> string \<Rightarrow> string \<Rightarrow> (('x, 'f) world, unit) op" where
  "fetch g now p name remote reference t w =
     (case on_fl (px_Get p remote reference (rg_MaxManifestSize g)) w of
        (Inl e, w1) \<Rightarrow>
          if errors_is e (Flob NotExist) then (Inl (Oci (ErrManifestUnknown (DText reference))), w1) else (Inl e, w1)
      | (Inr (body, mt, d), w1) \<Rightarrow>
          (case ParseManifest (rg_D g) (rg_J g) mt body of
             Inl e \<Rightarrow> (Inl (Cause (BadManifest e)), w1)
           | Inr m \<Rightarrow>
               (case on_fl (fl_add (rg_fl g) name d (int (length body)) body) w1 of
                  (Inl e, w2) \<Rightarrow>
                    if errors_is e (Flob AlreadyExists) then
                      on_ix (ix_tx (rg_ix g) name (fetch_body (rg_ix g) name (record_of m d body now) (Holds m) t)) w2
                    else (Inl e, w2)
                | (Inr _, w2) \<Rightarrow>
                    on_ix (ix_tx (rg_ix g) name (fetch_body (rg_ix g) name (record_of m d body now) (Holds m) t)) w2)))"

section \<open>Pulling through\<close>

definition failedOutcome :: "error \<Rightarrow> string" where
  "failedOutcome e = (case as_oci e of Some o' \<Rightarrow> if err_status o' = 404 then ''unknown'' else ''error'' | None \<Rightarrow> ''error'')"

definition cached :: "('x, 'f) registry \<Rightarrow> time \<Rightarrow> 'f proxy \<Rightarrow> string \<Rightarrow> reference \<Rightarrow> ('x, 'f) world \<Rightarrow> bool \<times> ('x, 'f) world" where
  "cached g now p name ref w =
     (if IsDigest ref then
        (case on_ix (ix_get (rg_ix g) name (ref_digest ref)) w of (r, w1) \<Rightarrow> (is_ok r, w1))
      else
        (case on_ix (ix_tag_get (rg_ix g) name (ref_tag ref)) w of
           (Inl e, w1) \<Rightarrow> (False, w1)
         | (Inr cur, w1) \<Rightarrow> (fresh (tg_CheckedAt cur) (proxy_ttl p) now, w1)))"

text \<open>What \<open>fill\<close> answers: how it went, and the error when it went wrong.\<close>

type_synonym outcome = "string \<times> error option"

definition stale_or :: "'f proxy \<Rightarrow> time \<Rightarrow> tag option \<Rightarrow> error \<Rightarrow> outcome" where
  "stale_or p now cur e =
     (case cur of
        None \<Rightarrow> (failedOutcome e, Some e)
      | Some c \<Rightarrow> if \<not> servable (tg_CheckedAt c) (px_TagMaxStale p) now then (failedOutcome e, Some e) else (''stale'', None))"

definition fill_digest :: "('x, 'f) registry \<Rightarrow> time \<Rightarrow> 'f proxy \<Rightarrow> string \<Rightarrow> digest \<Rightarrow> ('x, 'f) world \<Rightarrow> outcome \<times> ('x, 'f) world" where
  "fill_digest g now p name d w =
     (case on_ix (ix_get (rg_ix g) name d) w of
        (Inr _, w1) \<Rightarrow> ((''hit'', None), w1)
      | (Inl e, w1) \<Rightarrow>
          if \<not> errors_is e ErrNotFound then ((''error'', Some e), w1)
          else
            (case fetch g now p name (proxy_Name p name) d '''' w1 of
               (Inl e, w2) \<Rightarrow> ((failedOutcome e, Some e), w2)
             | (Inr _, w2) \<Rightarrow> ((''miss'', None), w2)))"

text \<open>The tag is where the upstream says it is, and its manifest is here: only the check is new.\<close>

definition revalidated :: "('x, 'f) registry \<Rightarrow> time \<Rightarrow> string \<Rightarrow> string \<Rightarrow> tag option \<Rightarrow> digest \<Rightarrow> ('x, 'f) world \<Rightarrow> bool \<times> ('x, 'f) world" where
  "revalidated g now name t cur d w =
     (case cur of
        None \<Rightarrow> (False, w)
      | Some c \<Rightarrow>
          if d \<noteq> '''' \<and> d = tg_Digest c then
            (case on_ix (ix_get (rg_ix g) name d) w of
               (Inl e, w1) \<Rightarrow> (False, w1)
             | (Inr _, w1) \<Rightarrow> (case on_ix (ix_tag_check (rg_ix g) name t d now) w1 of (r, w2) \<Rightarrow> (True, w2)))
          else (False, w))"

definition fill_tag_from :: "('x, 'f) registry \<Rightarrow> time \<Rightarrow> 'f proxy \<Rightarrow> string \<Rightarrow> string \<Rightarrow> tag option \<Rightarrow> ('x, 'f) world \<Rightarrow> outcome \<times> ('x, 'f) world" where
  "fill_tag_from g now p name t cur w =
     (case on_fl (px_Head p (proxy_Name p name) t) w of
        (Inl e, w1) \<Rightarrow>
          if errors_is e (Flob NotExist) then ((''unknown'', Some (Oci (ErrManifestUnknown (DText t)))), w1)
          else (stale_or p now cur e, w1)
      | (Inr d, w1) \<Rightarrow>
          (case revalidated g now name t cur d w1 of
             (True, w2) \<Rightarrow> ((''revalidated'', None), w2)
           | (False, w2) \<Rightarrow>
               (case fetch g now p name (proxy_Name p name) t t w2 of
                  (Inl e, w3) \<Rightarrow> (stale_or p now cur e, w3)
                | (Inr _, w3) \<Rightarrow> ((if cur \<noteq> None then ''refreshed'' else ''miss'', None), w3))))"

definition fill_tag :: "('x, 'f) registry \<Rightarrow> time \<Rightarrow> 'f proxy \<Rightarrow> string \<Rightarrow> string \<Rightarrow> ('x, 'f) world \<Rightarrow> outcome \<times> ('x, 'f) world" where
  "fill_tag g now p name t w =
     (case on_ix (ix_tag_get (rg_ix g) name t) w of
        (Inl e, w1) \<Rightarrow>
          if errors_is e ErrNotFound then fill_tag_from g now p name t None w1 else ((''error'', Some e), w1)
      | (Inr cur, w1) \<Rightarrow>
          if fresh (tg_CheckedAt cur) (proxy_ttl p) now then ((''hit'', None), w1)
          else fill_tag_from g now p name t (Some cur) w1)"

definition fill :: "('x, 'f) registry \<Rightarrow> time \<Rightarrow> 'f proxy \<Rightarrow> string \<Rightarrow> reference \<Rightarrow> ('x, 'f) world \<Rightarrow> outcome \<times> ('x, 'f) world" where
  "fill g now p name ref w =
     (if IsDigest ref then fill_digest g now p name (ref_digest ref) w else fill_tag g now p name (ref_tag ref) w)"

definition pullThroughOutcome :: "('x, 'f) registry \<Rightarrow> time \<Rightarrow> 'f proxy \<Rightarrow> string \<Rightarrow> reference \<Rightarrow> ('x, 'f) world \<Rightarrow> outcome \<times> ('x, 'f) world" where
  "pullThroughOutcome g now p name ref w =
     (case cached g now p name ref w of
        (True, w1) \<Rightarrow> ((''hit'', None), w1)
      | (False, w1) \<Rightarrow> fill g now p name ref w1)"

definition pullThrough :: "('x, 'f) registry \<Rightarrow> time \<Rightarrow> 'f proxy \<Rightarrow> string \<Rightarrow> reference \<Rightarrow> ('x, 'f) world \<Rightarrow> error option \<times> ('x, 'f) world" where
  "pullThrough g now p name ref w = (case pullThroughOutcome g now p name ref w of ((_, e), w1) \<Rightarrow> (e, w1))"

section \<open>The referrers an upstream lists\<close>

definition idesc :: "descriptor \<Rightarrow> idescriptor" where
  "idesc v = \<lparr>id_MediaType = d_mediaType v, id_ArtifactType = d_artifactType v, id_Digest = d_digest v,
     id_Size = d_size v, id_Annotations = d_annotations v\<rparr>"

definition same_map :: "('k, 'v) gomap \<Rightarrow> ('k, 'v) gomap \<Rightarrow> bool" where
  "same_map a b = (length a = length b \<and> list_all (\<lambda>(k, v). map_of b k = Some v) a)"

definition sameAnswer :: "snapshot \<Rightarrow> snapshot \<Rightarrow> bool" where
  "sameAnswer a b =
     (sn_Supported a = sn_Supported b \<and>
      list_all2 (\<lambda>x y. id_Digest x = id_Digest y \<and> id_MediaType x = id_MediaType y \<and> id_ArtifactType x = id_ArtifactType y \<and>
        id_Size x = id_Size y \<and> same_map (id_Annotations x) (id_Annotations y)) (sn_Descriptors a) (sn_Descriptors b))"

definition snap_body :: "'x index_ops \<Rightarrow> string \<Rightarrow> snapshot \<Rightarrow> ('x, unit) op" where
  "snap_body ix name s x =
     (case ix_repo_ensure ix name x of (Inl e, x1) \<Rightarrow> (Inl e, x1) | (Inr _, x1) \<Rightarrow> ix_snap_put ix name s x1)"

definition keep_snapshot :: "('x, 'f) registry \<Rightarrow> string \<Rightarrow> snapshot option \<Rightarrow> snapshot \<Rightarrow> ('x, 'f) world \<Rightarrow>
    (error + (snapshot \<times> bool \<times> string)) \<times> ('x, 'f) world" where
  "keep_snapshot g name cur s w =
     (case on_ix (ix_tx (rg_ix g) name (snap_body (rg_ix g) name s)) w of
        (Inl e, w1) \<Rightarrow> (Inl e, w1)
      | (Inr _, w1) \<Rightarrow>
          (Inr (s, False, (case cur of None \<Rightarrow> ''miss'' | Some c \<Rightarrow> if sameAnswer c s then ''revalidated'' else ''refreshed'')), w1))"

definition referrers_ask :: "('x, 'f) registry \<Rightarrow> time \<Rightarrow> 'f proxy \<Rightarrow> string \<Rightarrow> digest \<Rightarrow> snapshot option \<Rightarrow> ('x, 'f) world \<Rightarrow>
    (error + (snapshot \<times> bool \<times> string)) \<times> ('x, 'f) world" where
  "referrers_ask g now p name subject cur w =
     (let s = \<lparr>sn_Subject = subject, sn_Supported = True, sn_Descriptors = [], sn_CheckedAt = now\<rparr> in
      case on_fl (px_Referrers p (proxy_Name p name) subject (rg_MaxManifestSize g)) w of
        (Inr ds, w1) \<Rightarrow> keep_snapshot g name cur (s\<lparr>sn_Descriptors := map idesc ds\<rparr>) w1
      | (Inl e, w1) \<Rightarrow>
          if errors_is e (Flob NotExist) then keep_snapshot g name cur (s\<lparr>sn_Supported := False\<rparr>) w1
          else
            (case cur of
               Some c \<Rightarrow> if servable (sn_CheckedAt c) (referrersMaxStale p) now then (Inr (c, True, ''stale''), w1) else (Inl e, w1)
             | None \<Rightarrow> (Inl e, w1)))"

definition referrersOutcome :: "('x, 'f) registry \<Rightarrow> time \<Rightarrow> 'f proxy \<Rightarrow> string \<Rightarrow> digest \<Rightarrow> ('x, 'f) world \<Rightarrow>
    (error + (snapshot \<times> bool \<times> string)) \<times> ('x, 'f) world" where
  "referrersOutcome g now p name subject w =
     (case on_ix (ix_snap_get (rg_ix g) name subject) w of
        (Inl e, w1) \<Rightarrow> if errors_is e ErrNotFound then referrers_ask g now p name subject None w1 else (Inl e, w1)
      | (Inr cur, w1) \<Rightarrow>
          if fresh (sn_CheckedAt cur) (referrersTTL p) now then (Inr (cur, False, ''hit''), w1)
          else referrers_ask g now p name subject (Some cur) w1)"

definition referrersThrough :: "('x, 'f) registry \<Rightarrow> time \<Rightarrow> 'f proxy \<Rightarrow> string \<Rightarrow> digest \<Rightarrow> ('x, 'f) world \<Rightarrow>
    (error + (snapshot \<times> bool)) \<times> ('x, 'f) world" where
  "referrersThrough g now p name subject w =
     (case referrersOutcome g now p name subject w of
        (Inl e, w1) \<Rightarrow> (Inl e, w1)
      | (Inr (s, stale, _), w1) \<Rightarrow> (Inr (s, stale), w1))"

end
