(* ===== verification/Registry_Join.thy ===== *)
theory Registry_Join
  imports Registry_Proxy
begin

text \<open>
  Requests for the same thing at the same time make one fetch between them
  (\<open>registry/join.go\<close>).  Goroutines interleave: the steps below are what happens between two
  points where another may run, the lock being held within a step; a fetch sets its outcome, then
  leaves the map, then closes its channel, each on its own.  Whatever order they come in, a fetch
  is alone for its key while it is in the map, and a request that waited to the end answers what
  a fetch for its own key did.
\<close>

section \<open>Flights\<close>

text \<open>A flight and how far it has come; the outcome is what \<open>fill\<close> answered.\<close>

datatype phase = Filling | Filled outcome | Gone outcome | Closed outcome

record flight =
  fg_key :: string
  fg_phase :: phase

text \<open>What a request is doing: \<open>select\<close>, or it has answered.  The flag is whether it joined.\<close>

datatype waiter = Waiting nat bool | Answered outcome bool | Left error bool

text \<open>\<open>fs_m\<close> is the map of the flights in progress; flights and requests are numbered as they come.\<close>

record flights =
  fs_m :: "string \<Rightarrow> nat option"
  fs_flights :: "flight list"
  fs_waiters :: "(string \<times> waiter) list"

definition no_flights :: flights where
  "no_flights = \<lparr>fs_m = (\<lambda>_. None), fs_flights = [], fs_waiters = []\<rparr>"

text \<open>A request comes: it joins the flight in the map, or begins one.\<close>

definition join_flight :: "string \<Rightarrow> flights \<Rightarrow> flights" where
  "join_flight key s =
     (case fs_m s key of
        Some f \<Rightarrow> s\<lparr>fs_waiters := fs_waiters s @ [(key, Waiting f True)]\<rparr>
      | None \<Rightarrow>
          (let f = length (fs_flights s) in
           s\<lparr>fs_m := (fs_m s)(key \<mapsto> f), fs_flights := fs_flights s @ [\<lparr>fg_key = key, fg_phase = Filling\<rparr>],
             fs_waiters := fs_waiters s @ [(key, Waiting f False)]\<rparr>))"

definition set_phase :: "nat \<Rightarrow> phase \<Rightarrow> flights \<Rightarrow> flights" where
  "set_phase f ph s = s\<lparr>fs_flights := (fs_flights s)[f := (fs_flights s ! f)\<lparr>fg_phase := ph\<rparr>]\<rparr>"

definition phase_of :: "flights \<Rightarrow> nat \<Rightarrow> phase option" where
  "phase_of s f = (if f < length (fs_flights s) then Some (fg_phase (fs_flights s ! f)) else None)"

text \<open>The goroutine of a flight, and the two ways a request comes back from its wait.\<close>

inductive step :: "flights \<Rightarrow> flights \<Rightarrow> bool" where
  arrive: "step s (join_flight key s)"
| fills: "phase_of s f = Some Filling \<Longrightarrow> step s (set_phase f (Filled out) s)"
| unmap: "phase_of s f = Some (Filled out) \<Longrightarrow>
    step s (set_phase f (Gone out) (s\<lparr>fs_m := (fs_m s)(fg_key (fs_flights s ! f) := None)\<rparr>))"
| close: "phase_of s f = Some (Gone out) \<Longrightarrow> step s (set_phase f (Closed out) s)"
| answer: "i < length (fs_waiters s) \<Longrightarrow> fs_waiters s ! i = (key, Waiting f j) \<Longrightarrow> phase_of s f = Some (Closed out) \<Longrightarrow>
    step s (s\<lparr>fs_waiters := (fs_waiters s)[i := (key, Answered out j)]\<rparr>)"
| leave: "i < length (fs_waiters s) \<Longrightarrow> fs_waiters s ! i = (key, Waiting f j) \<Longrightarrow>
    step s (s\<lparr>fs_waiters := (fs_waiters s)[i := (key, Left e j)]\<rparr>)"

inductive reached :: "flights \<Rightarrow> bool" where
  none: "reached no_flights"
| more: "reached s \<Longrightarrow> step s s' \<Longrightarrow> reached s'"

inductive_cases step_cases: "step s s'"

section \<open>The invariant\<close>

definition outcome_of :: "phase \<Rightarrow> outcome option" where
  "outcome_of ph = (case ph of Filling \<Rightarrow> None | Filled out \<Rightarrow> Some out | Gone out \<Rightarrow> Some out | Closed out \<Rightarrow> Some out)"

text \<open>In the map are exactly the flights that have not left it, each under its own key.\<close>

definition mapped :: "flights \<Rightarrow> bool" where
  "mapped s =
     (\<forall>key f. fs_m s key = Some f \<longleftrightarrow>
        f < length (fs_flights s) \<and> fg_key (fs_flights s ! f) = key \<and>
        (fg_phase (fs_flights s ! f) = Filling \<or> (\<exists>out. fg_phase (fs_flights s ! f) = Filled out)))"

definition waits_well :: "flights \<Rightarrow> string \<times> waiter \<Rightarrow> bool" where
  "waits_well s kw =
     (case snd kw of
        Waiting f j \<Rightarrow> f < length (fs_flights s) \<and> fg_key (fs_flights s ! f) = fst kw
      | Answered out j \<Rightarrow> (\<exists>f < length (fs_flights s). fg_key (fs_flights s ! f) = fst kw \<and> fg_phase (fs_flights s ! f) = Closed out)
      | Left e j \<Rightarrow> True)"

definition flights_ok :: "flights \<Rightarrow> bool" where
  "flights_ok s = (mapped s \<and> list_all (waits_well s) (fs_waiters s))"

fun joined_of :: "waiter \<Rightarrow> bool" where
  "joined_of (Waiting f j) = j"
| "joined_of (Answered out j) = j"
| "joined_of (Left e j) = j"

text \<open>Every flight was begun by one request, the one that did not join it.\<close>

definition begun :: "flights \<Rightarrow> bool" where
  "begun s = (length (filter (\<lambda>kw. \<not> joined_of (snd kw)) (fs_waiters s)) = length (fs_flights s))"

lemma set_phase_sel [simp]:
  "fs_m (set_phase f ph s) = fs_m s" "fs_waiters (set_phase f ph s) = fs_waiters s"
  "length (fs_flights (set_phase f ph s)) = length (fs_flights s)"
  by (simp_all add: set_phase_def)

lemma set_phase_key [simp]:
  "i < length (fs_flights s) \<Longrightarrow> fg_key (fs_flights (set_phase f ph s) ! i) = fg_key (fs_flights s ! i)"
  by (cases "i = f") (simp_all add: set_phase_def)

lemma set_phase_phase [simp]:
  "f < length (fs_flights s) \<Longrightarrow> fg_phase (fs_flights (set_phase f ph s) ! i) = (if i = f then ph else fg_phase (fs_flights s ! i))"
  by (simp add: set_phase_def)

lemma phase_of_Some: "phase_of s f = Some ph \<longleftrightarrow> f < length (fs_flights s) \<and> fg_phase (fs_flights s ! f) = ph"
  by (auto simp: phase_of_def)

lemma waits_well_phase:
  assumes "waits_well s kw" "f < length (fs_flights s)" "\<not> (\<exists>out. fg_phase (fs_flights s ! f) = Closed out)"
  shows "waits_well (set_phase f ph s) kw"
  using assms by (auto simp: waits_well_def split: waiter.splits)

lemma mapped_iff:
  "mapped s \<Longrightarrow> fs_m s key = Some f \<longleftrightarrow> f < length (fs_flights s) \<and> fg_key (fs_flights s ! f) = key \<and>
     (fg_phase (fs_flights s ! f) = Filling \<or> (\<exists>out. fg_phase (fs_flights s ! f) = Filled out))"
  unfolding mapped_def by blast

lemma mapped_join:
  assumes "mapped s"
  shows "mapped (join_flight key s)"
proof (cases "fs_m s key")
  case None
  have "fs_m (join_flight key s) k = Some f \<longleftrightarrow> f < length (fs_flights (join_flight key s)) \<and>
      fg_key (fs_flights (join_flight key s) ! f) = k \<and> (fg_phase (fs_flights (join_flight key s) ! f) = Filling \<or>
        (\<exists>out. fg_phase (fs_flights (join_flight key s) ! f) = Filled out))" for k f
    using mapped_iff [OF assms, of k f] mapped_iff [OF assms, of key f] None
    by (cases "f = length (fs_flights s)"; cases "k = key") (auto simp: join_flight_def Let_def nth_append)
  then show ?thesis unfolding mapped_def by blast
next
  case (Some f)
  then have "join_flight key s = s\<lparr>fs_waiters := fs_waiters s @ [(key, Waiting f True)]\<rparr>" by (simp add: join_flight_def)
  with assms show ?thesis by (simp add: mapped_def)
qed

lemma waits_well_join: "waits_well s kw \<Longrightarrow> waits_well (join_flight key s) kw"
  by (auto simp: waits_well_def join_flight_def Let_def nth_append split: option.splits waiter.splits)

lemma flights_ok_waiter:
  assumes "flights_ok s" "waits_well s kw"
  shows "flights_ok (s\<lparr>fs_waiters := (fs_waiters s)[i := kw]\<rparr>)"
proof -
  have "waits_well (s\<lparr>fs_waiters := ws\<rparr>) = waits_well s" for ws
    by (rule ext) (simp add: waits_well_def cong: waiter.case_cong)
  moreover have "mapped (s\<lparr>fs_waiters := ws\<rparr>) = mapped s" for ws by (simp add: mapped_def)
  ultimately show ?thesis
    using assms set_update_subset_insert [of "fs_waiters s" i kw] by (auto simp: flights_ok_def list_all_iff)
qed

lemma step_ok:
  assumes "step s s'" "flights_ok s"
  shows "flights_ok s'"
  using assms
proof (induction rule: step.induct)
  case (arrive s key)
  have "fs_waiters (join_flight key s) = fs_waiters s @ [(key, case fs_m s key of
      Some f \<Rightarrow> Waiting f True | None \<Rightarrow> Waiting (length (fs_flights s)) False)]"
    by (simp add: join_flight_def Let_def split: option.splits)
  moreover have "waits_well (join_flight key s) (key, case fs_m s key of
      Some f \<Rightarrow> Waiting f True | None \<Rightarrow> Waiting (length (fs_flights s)) False)"
    using arrive mapped_iff [of s key]
    by (cases "fs_m s key") (auto simp: waits_well_def join_flight_def Let_def flights_ok_def)
  ultimately show ?case
    using arrive mapped_join waits_well_join by (auto simp: flights_ok_def list_all_iff)
next
  case (fills s f out)
  then show ?case
    by (auto simp: flights_ok_def list_all_iff phase_of_Some mapped_def waits_well_phase)
next
  case (unmap s f out)
  let ?s = "s\<lparr>fs_m := (fs_m s)(fg_key (fs_flights s ! f) := None)\<rparr>"
  have f: "f < length (fs_flights s)" "fg_phase (fs_flights s ! f) = Filled out" using unmap by (auto simp: phase_of_Some)
  have one: "i = f" if "i < length (fs_flights s)" "fg_key (fs_flights s ! i) = fg_key (fs_flights s ! f)"
    "fg_phase (fs_flights s ! i) = Filling \<or> (\<exists>out. fg_phase (fs_flights s ! i) = Filled out)" for i
  proof -
    have "fs_m s (fg_key (fs_flights s ! f)) = Some f" "fs_m s (fg_key (fs_flights s ! f)) = Some i"
      using unmap.prems f that by (auto simp: flights_ok_def mapped_def)
    then show ?thesis by simp
  qed
  have "mapped (set_phase f (Gone out) ?s)"
    unfolding mapped_def
  proof (intro allI)
    fix key i
    have m: "fs_m s key = Some i \<longleftrightarrow> i < length (fs_flights s) \<and> fg_key (fs_flights s ! i) = key \<and>
        (fg_phase (fs_flights s ! i) = Filling \<or> (\<exists>out. fg_phase (fs_flights s ! i) = Filled out))"
      using unmap.prems unfolding flights_ok_def mapped_def by blast
    show "fs_m (set_phase f (Gone out) ?s) key = Some i \<longleftrightarrow>
        i < length (fs_flights (set_phase f (Gone out) ?s)) \<and> fg_key (fs_flights (set_phase f (Gone out) ?s) ! i) = key \<and>
        (fg_phase (fs_flights (set_phase f (Gone out) ?s) ! i) = Filling \<or>
         (\<exists>out'. fg_phase (fs_flights (set_phase f (Gone out) ?s) ! i) = Filled out'))"
      using m one [of i] f by (auto simp: set_phase_def nth_list_update split: if_splits)
  qed
  moreover have "waits_well (set_phase f (Gone out) ?s) kw" if "waits_well s kw" for kw
    by (rule waits_well_phase) (use that f in \<open>simp_all add: waits_well_def cong: waiter.case_cong\<close>)
  ultimately show ?case using unmap.prems by (auto simp: flights_ok_def list_all_iff)
next
  case (close s f out)
  then show ?case
    by (auto simp: flights_ok_def list_all_iff phase_of_Some mapped_def waits_well_phase)
next
  case (answer i s key f j out)
  then have "waits_well s (key, Waiting f j)" by (auto simp: flights_ok_def list_all_length)
  with answer have "waits_well s (key, Answered out j)" by (auto simp: waits_well_def phase_of_Some)
  with answer.prems show ?case by (simp add: flights_ok_waiter)
next
  case (leave i s key f j e)
  have "waits_well s (key, Left e j)" by (simp add: waits_well_def)
  with leave.prems show ?case by (simp add: flights_ok_waiter)
qed

lemma step_begun:
  assumes "step s s'" "begun s"
  shows "begun s'"
proof -
  have upd: "length (filter (\<lambda>kw. \<not> joined_of (snd kw)) (ws[i := (key, w)])) = length (filter (\<lambda>kw. \<not> joined_of (snd kw)) ws)"
    if "i < length ws" "joined_of (snd (ws ! i)) = joined_of w" for ws i key w
  proof -
    let ?f = "\<lambda>kw. joined_of (snd kw)"
    have "map ?f (ws[i := (key, w)]) = map ?f ws" using that by (simp add: map_update list_update_same_conv)
    then have "length (filter Not (map ?f (ws[i := (key, w)]))) = length (filter Not (map ?f ws))" by simp
    then show ?thesis by (simp add: filter_map comp_def)
  qed
  from assms show ?thesis
  proof (induction rule: step.induct)
    case (arrive s key)
    then show ?case by (simp add: begun_def join_flight_def Let_def split: option.splits)
  next
    case (answer i s key f j out)
    from upd [OF answer(1), of "Answered out j" key] answer show ?case by (auto simp: begun_def)
  next
    case (leave i s key f j e)
    from upd [OF leave(1), of "Left e j" key] leave show ?case by (auto simp: begun_def)
  qed (simp_all add: begun_def)
qed

lemma reached_ok: "reached s \<Longrightarrow> flights_ok s \<and> begun s"
proof (induction rule: reached.induct)
  case none
  show ?case by (simp add: flights_ok_def mapped_def no_flights_def begun_def)
next
  case (more s s')
  with step_ok step_begun show ?case by blast
qed

text \<open>A request that waits can be answered: its flight's next steps lead there.\<close>

lemma steps_to_close:
  assumes "phase_of s f = Some ph"
  shows "\<exists>s' out. step\<^sup>*\<^sup>* s s' \<and> phase_of s' f = Some (Closed out) \<and> fs_waiters s' = fs_waiters s \<and>
    (\<forall>out'. outcome_of ph = Some out' \<longrightarrow> out = out')"
proof -
  have gone: "\<exists>s'. step s s' \<and> phase_of s' f = Some (Closed out) \<and> fs_waiters s' = fs_waiters s"
    if "phase_of s f = Some (Gone out)" for s out
    using step.close [OF that] that by (intro exI [of _ "set_phase f (Closed out) s"]) (auto simp: phase_of_Some)
  have filled: "\<exists>s'. step s s' \<and> phase_of s' f = Some (Gone out) \<and> fs_waiters s' = fs_waiters s"
    if "phase_of s f = Some (Filled out)" for s out
    using step.unmap [OF that] that by (fastforce simp: phase_of_Some set_phase_def)
  have filling: "\<exists>s'. step s s' \<and> phase_of s' f = Some (Filled (''miss'', None)) \<and> fs_waiters s' = fs_waiters s"
    if "phase_of s f = Some Filling" for s
    using step.fills [OF that] that by (fastforce simp: phase_of_Some)
  have two: "\<exists>s'. step\<^sup>*\<^sup>* s s' \<and> phase_of s' f = Some (Closed out) \<and> fs_waiters s' = fs_waiters s"
    if t: "phase_of s f = Some (Filled out)" for s out
  proof -
    obtain s1 where s1: "step s s1" "phase_of s1 f = Some (Gone out)" "fs_waiters s1 = fs_waiters s" using filled [OF t] by blast
    obtain s2 where "step s1 s2" "phase_of s2 f = Some (Closed out)" "fs_waiters s2 = fs_waiters s1" using gone [OF s1(2)] by blast
    with s1 show ?thesis by (metis r_into_rtranclp rtranclp.rtrancl_into_rtrancl)
  qed
  show ?thesis
  proof (cases ph)
    case Filling
    obtain s1 where s1: "step s s1" "phase_of s1 f = Some (Filled (''miss'', None))" "fs_waiters s1 = fs_waiters s"
      using filling assms Filling by blast
    obtain s2 where "step\<^sup>*\<^sup>* s1 s2" "phase_of s2 f = Some (Closed (''miss'', None))" "fs_waiters s2 = fs_waiters s1"
      using two [OF s1(2)] by blast
    with s1 have "step\<^sup>*\<^sup>* s s2 \<and> phase_of s2 f = Some (Closed (''miss'', None)) \<and> fs_waiters s2 = fs_waiters s"
      by (auto intro: converse_rtranclp_into_rtranclp)
    then show ?thesis unfolding Filling outcome_of_def by auto
  next
    case (Filled out)
    with assms have "phase_of s f = Some (Filled out)" by simp
    from two [OF this] obtain s' where "step\<^sup>*\<^sup>* s s' \<and> phase_of s' f = Some (Closed out) \<and> fs_waiters s' = fs_waiters s" by blast
    then show ?thesis unfolding Filled outcome_of_def by (intro exI [of _ s'] exI [of _ out]) simp
  next
    case (Gone out)
    with assms have "phase_of s f = Some (Gone out)" by simp
    from gone [OF this] obtain s' where "step s s'" "phase_of s' f = Some (Closed out)" "fs_waiters s' = fs_waiters s" by blast
    then have "step\<^sup>*\<^sup>* s s' \<and> phase_of s' f = Some (Closed out) \<and> fs_waiters s' = fs_waiters s" by simp
    then show ?thesis unfolding Gone outcome_of_def by (intro exI [of _ s'] exI [of _ out]) simp
  next
    case (Closed out)
    with assms have "step\<^sup>*\<^sup>* s s \<and> phase_of s f = Some (Closed out) \<and> fs_waiters s = fs_waiters s" by simp
    then show ?thesis unfolding Closed outcome_of_def by (intro exI [of _ s] exI [of _ out]) simp
  qed
qed

section \<open>Properties\<close>

text \<open>
  C14: However the goroutines of requests and fetches interleave, there is never more than one fetch
  running for a key (one that has not yet answered and left the map), every fetch was begun by
  exactly one request, and a request that was answered got the outcome of a finished fetch for its
  own key.
\<close>

theorem one_fetch_per_key:
  assumes "reached s"
  shows "(\<forall>f g. f < length (fs_flights s) \<and> g < length (fs_flights s) \<and> fg_key (fs_flights s ! f) = fg_key (fs_flights s ! g) \<and>
      fg_phase (fs_flights s ! f) = Filling \<and> fg_phase (fs_flights s ! g) = Filling \<longrightarrow> f = g) \<and>
    length (filter (\<lambda>kw. \<not> joined_of (snd kw)) (fs_waiters s)) = length (fs_flights s) \<and>
    (\<forall>key out j. (key, Answered out j) \<in> set (fs_waiters s) \<longrightarrow> \<lparr>fg_key = key, fg_phase = Closed out\<rparr> \<in> set (fs_flights s))"
proof (intro conjI allI impI)
  note ok = reached_ok [OF assms]
  then have m: "mapped s" and w: "list_all (waits_well s) (fs_waiters s)" by (simp_all add: flights_ok_def)
  show "length (filter (\<lambda>kw. \<not> joined_of (snd kw)) (fs_waiters s)) = length (fs_flights s)"
    using ok by (simp add: begun_def)
  show "f = g" if "f < length (fs_flights s) \<and> g < length (fs_flights s) \<and> fg_key (fs_flights s ! f) = fg_key (fs_flights s ! g) \<and>
      fg_phase (fs_flights s ! f) = Filling \<and> fg_phase (fs_flights s ! g) = Filling" for f g
    using that mapped_iff [OF m, of "fg_key (fs_flights s ! f)" f] mapped_iff [OF m, of "fg_key (fs_flights s ! f)" g] by simp
  show "\<lparr>fg_key = key, fg_phase = Closed out\<rparr> \<in> set (fs_flights s)" if "(key, Answered out j) \<in> set (fs_waiters s)" for key out j
  proof -
    from w that have "waits_well s (key, Answered out j)" by (auto simp: list_all_iff)
    then obtain f where "f < length (fs_flights s)" "fg_key (fs_flights s ! f) = key" "fg_phase (fs_flights s ! f) = Closed out"
      by (auto simp: waits_well_def)
    then have "fs_flights s ! f = \<lparr>fg_key = key, fg_phase = Closed out\<rparr>" "f < length (fs_flights s)"
      by (simp_all add: flight.equality)
    then show ?thesis by (metis nth_mem)
  qed
qed

text \<open>Two requests for one blob, and one fetch: the second joins, and both are answered.\<close>

definition joined_two :: flights where
  "joined_two =
     \<lparr>fs_m = (\<lambda>_. None), fs_flights = [\<lparr>fg_key = ''k'', fg_phase = Closed (''miss'', None)\<rparr>],
      fs_waiters = [(''k'', Answered (''miss'', None) False), (''k'', Waiting 0 True)]\<rparr>"

lemma joined_two_reached: "reached joined_two"
proof -
  let ?s2 = "join_flight ''k'' (join_flight ''k'' no_flights)"
  let ?s3 = "set_phase 0 (Filled (''miss'', None)) ?s2"
  let ?s4 = "set_phase 0 (Gone (''miss'', None)) (?s3\<lparr>fs_m := (fs_m ?s3)(fg_key (fs_flights ?s3 ! 0) := None)\<rparr>)"
  let ?s5 = "set_phase 0 (Closed (''miss'', None)) ?s4"
  have "reached ?s2" by (intro reached.more [OF _ step.arrive] reached.none)
  then have "reached ?s3"
    by (rule reached.more [OF _ step.fills]) (simp add: phase_of_def join_flight_def no_flights_def)
  then have "reached ?s4"
    by (rule reached.more [OF _ step.unmap]) (simp add: phase_of_def join_flight_def no_flights_def set_phase_def)
  then have "reached ?s5"
    by (rule reached.more [OF _ step.close]) (simp add: phase_of_def join_flight_def no_flights_def set_phase_def)
  then have "reached (?s5\<lparr>fs_waiters := (fs_waiters ?s5)[0 := (''k'', Answered (''miss'', None) False)]\<rparr>)"
    by (rule reached.more [OF _ step.answer [where f = 0]])
      (simp_all add: phase_of_def join_flight_def no_flights_def set_phase_def)
  then show ?thesis by (simp add: joined_two_def join_flight_def no_flights_def set_phase_def fun_upd_def if_distrib cong: if_cong)
qed

theorem one_fetch_per_key_witness:
  "\<lparr>fg_key = ''k'', fg_phase = Closed (''miss'', None)\<rparr> \<in> set (fs_flights joined_two)"
  using one_fetch_per_key [OF joined_two_reached] by (auto simp: joined_two_def)

text \<open>
  C24: No request is stranded: from every state the program can reach, a request that still waits
  has a run of the program after which it is answered, by a fetch for its own key; if its fetch
  already has an outcome, that is the answer it gets.
\<close>

theorem waiting_requests_can_be_answered:
  assumes "reached s" "i < length (fs_waiters s)" "fs_waiters s ! i = (key, Waiting f j)"
  shows "\<exists>s' out. step\<^sup>*\<^sup>* s s' \<and> fs_waiters s' ! i = (key, Answered out j) \<and>
    (\<forall>ph out'. phase_of s f = Some ph \<and> outcome_of ph = Some out' \<longrightarrow> out = out')"
proof -
  from reached_ok [OF assms(1)] assms(2,3) have "waits_well s (key, Waiting f j)"
    by (auto simp: flights_ok_def list_all_length)
  then obtain ph where ph: "phase_of s f = Some ph" by (simp add: waits_well_def phase_of_def)
  obtain s1 out where s1: "step\<^sup>*\<^sup>* s s1" "phase_of s1 f = Some (Closed out)" "fs_waiters s1 = fs_waiters s"
    "\<forall>out'. outcome_of ph = Some out' \<longrightarrow> out = out'"
    using steps_to_close [OF ph] by blast
  let ?s2 = "s1\<lparr>fs_waiters := (fs_waiters s1)[i := (key, Answered out j)]\<rparr>"
  have "step s1 ?s2" by (rule step.answer [OF _ _ s1(2)]) (simp_all add: s1(3) assms)
  with s1(1) have "step\<^sup>*\<^sup>* s ?s2" by (rule rtranclp.rtrancl_into_rtrancl)
  moreover have "fs_waiters ?s2 ! i = (key, Answered out j)" using assms(2) by (simp add: s1(3))
  ultimately show ?thesis using s1(4) ph by (intro exI [of _ ?s2] exI [of _ out]) simp
qed

theorem waiting_requests_can_be_answered_witness:
  "\<exists>s'. step\<^sup>*\<^sup>* joined_two s' \<and> fs_waiters s' ! 1 = (''k'', Answered (''miss'', None) True)"
proof -
  have "1 < length (fs_waiters joined_two)" "fs_waiters joined_two ! 1 = (''k'', Waiting 0 True)" by (simp_all add: joined_two_def)
  from waiting_requests_can_be_answered [OF joined_two_reached this] show ?thesis
    by (auto simp: joined_two_def phase_of_def outcome_of_def)
qed

end
