(* ===== verification/Registry_Verify.thy ===== *)
theory Registry_Verify
  imports Registry_Proxy
begin

text \<open>
  A cache that serves only what somebody it trusts signed (\<open>registry/verify.go\<close>): the signatures
  an upstream lists for a manifest, read through the cache, and the verdicts remembered for them.
  Whether one signature verifies is the verifier's (\<open>px_Verify\<close>), which wraps notation.
\<close>

definition ArtifactType :: string where
  "ArtifactType = ''application/vnd.cncf.notary.signature''"

definition MediaTypeJWS :: string where "MediaTypeJWS = ''application/jose+json''"
definition MediaTypeCOSE :: string where "MediaTypeCOSE = ''application/cose''"

text \<open>Why a manifest is not verified; the reasons signatures failed are kept with their digests.\<close>

datatype unverified = Unsigned | Invalid "(digest \<times> string) list" | Unchecked error

section \<open>Verdicts remembered\<close>

type_synonym verdicts = "(string list, unverified option) gomap"

definition maxVerdicts :: nat where "maxVerdicts = 4096"

definition verdicts_put :: "string list \<Rightarrow> unverified option \<Rightarrow> verdicts \<Rightarrow> verdicts" where
  "verdicts_put k v m = AList.update k v (if length m \<ge> maxVerdicts then [] else m)"

section \<open>Reading what the cache holds\<close>

text \<open>\<open>read\<close>: at most one byte more than the largest manifest.\<close>

definition store_read :: "('x, 'f) registry \<Rightarrow> string \<Rightarrow> digest \<Rightarrow> (('x, 'f) world, string) op" where
  "store_read g name d w =
     (case on_fl (fl_open (rg_fl g) name d) w of
        (Inl e, w1) \<Rightarrow> (Inl e, w1)
      | (Inr b, w1) \<Rightarrow> (Inr (take (nat (rg_MaxManifestSize g + 1)) b), w1))"

definition manifest_at :: "('x, 'f) registry \<Rightarrow> string \<Rightarrow> digest \<Rightarrow> (('x, 'f) world, manifest) op" where
  "manifest_at g name d w =
     (case on_ix (ix_get (rg_ix g) name d) w of
        (Inl e, w1) \<Rightarrow> (Inl e, w1)
      | (Inr m, w1) \<Rightarrow>
          (case store_read g name d w1 of
             (Inl e, w2) \<Rightarrow> (Inl e, w2)
           | (Inr body, w2) \<Rightarrow>
               (case ParseManifest (rg_D g) (rg_J g) (im_MediaType m) body of
                  Inl e \<Rightarrow> (Inl (Cause (BadManifest e)), w2)
                | Inr p \<Rightarrow> (Inr p, w2))))"

definition referrersTag :: "digest_ops \<Rightarrow> digest \<Rightarrow> string" where
  "referrersTag D d = dg_algorithm D d @ ''-'' @ dg_encoded D d"

definition isReferrersTag :: "digest_ops \<Rightarrow> string \<Rightarrow> bool" where
  "isReferrersTag D t =
     (case cut (CHR ''-'') t of (alg, enc, ok) \<Rightarrow> ok \<and> dg_validates D (alg @ '':'' @ enc))"

definition isReferrersTagIndex :: "('x, 'f) registry \<Rightarrow> string \<Rightarrow> reference \<Rightarrow> imanifest \<Rightarrow> ('x, 'f) world \<Rightarrow> bool \<times> ('x, 'f) world" where
  "isReferrersTagIndex g name ref m w =
     (if \<not> isReferrersTag (rg_D g) (ref_tag ref) \<or> \<not> IsIndexMediaType (im_MediaType m) then (False, w)
      else
        (case manifest_at g name (im_Digest m) w of
           (Inl e, w1) \<Rightarrow> (False, w1)
         | (Inr ix, w1) \<Rightarrow>
             (list_all (\<lambda>v. d_artifactType v \<noteq> '''' \<and> d_platform v = None) (slice (mf_manifests ix)), w1)))"

section \<open>The signatures of a manifest\<close>

definition manifest_unknown :: "error \<Rightarrow> bool" where
  "manifest_unknown e = (case as_oci e of Some o' \<Rightarrow> err_code o' = CodeManifestUnknown | None \<Rightarrow> False)"

definition taggedReferrers :: "('x, 'f) registry \<Rightarrow> time \<Rightarrow> 'f proxy \<Rightarrow> string \<Rightarrow> digest \<Rightarrow> (('x, 'f) world, idescriptor list) op" where
  "taggedReferrers g now p name d w =
     (let t = referrersTag (rg_D g) d in
      case pullThrough g now p name \<lparr>ref_tag = t, ref_digest = ''''\<rparr> w of
        (Some e, w1) \<Rightarrow> if manifest_unknown e then (Inr [], w1) else (Inl e, w1)
      | (None, w1) \<Rightarrow>
          (case on_ix (ix_tag_get (rg_ix g) name t) w1 of
             (Inl e, w2) \<Rightarrow> if errors_is e ErrNotFound then (Inr [], w2) else (Inl e, w2)
           | (Inr tg, w2) \<Rightarrow>
               (case manifest_at g name (tg_Digest tg) w2 of
                  (Inl e, w3) \<Rightarrow> (Inl e, w3)
                | (Inr m, w3) \<Rightarrow> (Inr (map idesc (slice (mf_manifests m))), w3))))"

definition signatures :: "('x, 'f) registry \<Rightarrow> time \<Rightarrow> 'f proxy \<Rightarrow> string \<Rightarrow> digest \<Rightarrow> (('x, 'f) world, idescriptor list) op" where
  "signatures g now p name d w =
     (case (case referrersThrough g now p name d w of
              (Inr (s, _), w1) \<Rightarrow> (Inr s, w1)
            | (Inl e, w1) \<Rightarrow>
                (case on_ix (ix_snap_get (rg_ix g) name d) w1 of
                   (Inl _, w2) \<Rightarrow> (Inl e, w2)
                 | (Inr before, w2) \<Rightarrow> (Inr before, w2))) of
        (Inl e, w3) \<Rightarrow> (Inl e, w3)
      | (Inr s, w3) \<Rightarrow>
          (case (if sn_Supported s then (Inr (sn_Descriptors s), w3) else taggedReferrers g now p name d w3) of
             (Inl e, w4) \<Rightarrow> (Inl e, w4)
           | (Inr all, w4) \<Rightarrow> (Inr (filter (\<lambda>v. id_ArtifactType v = ArtifactType) all), w4)))"

text \<open>An envelope, or why the signature is not one notation writes, or why it cannot be read.\<close>

datatype no_envelope = BadSignature string | NotRead error

definition envelope :: "('x, 'f) registry \<Rightarrow> time \<Rightarrow> 'f proxy \<Rightarrow> string \<Rightarrow> digest \<Rightarrow> ('x, 'f) world \<Rightarrow>
    (no_envelope + (string \<times> string)) \<times> ('x, 'f) world" where
  "envelope g now p name d w =
     (case pullThrough g now p name \<lparr>ref_tag = '''', ref_digest = d\<rparr> w of
        (Some e, w1) \<Rightarrow> if manifest_unknown e then (Inl (BadSignature ''listed, and not there''), w1) else (Inl (NotRead e), w1)
      | (None, w1) \<Rightarrow>
          (case manifest_at g name d w1 of
             (Inl e, w2) \<Rightarrow> (Inl (NotRead e), w2)
           | (Inr m, w2) \<Rightarrow>
               (case slice (mf_layers m) of
                  [l] \<Rightarrow>
                    if d_mediaType l \<noteq> MediaTypeJWS \<and> d_mediaType l \<noteq> MediaTypeCOSE then
                      (Inl (BadSignature (''an envelope of '' @ quoted (d_mediaType l))), w2)
                    else if d_size l > rg_MaxManifestSize g then (Inl (BadSignature (''an envelope of '' @ itoa (d_size l) @ '' bytes'')), w2)
                    else
                      (case store_read g name (d_digest l) w2 of
                         (Inl e, w3) \<Rightarrow>
                           if errors_is e (Flob NotExist) then (Inl (BadSignature ''its envelope is not there''), w3)
                           else (Inl (NotRead e), w3)
                       | (Inr env, w3) \<Rightarrow> (Inr (d_mediaType l, env), w3))
                | ls \<Rightarrow> (Inl (BadSignature (itoa (int (length ls)) @ '' layers, not the one envelope'')), w2))))"

text \<open>
  The loop over the signatures: whether one verifies, else the reasons and the last error that
  kept one from being read.
\<close>

fun try_signatures :: "('x, 'f) registry \<Rightarrow> time \<Rightarrow> 'f proxy \<Rightarrow> string \<Rightarrow> (string \<Rightarrow> string \<Rightarrow> string option) \<Rightarrow>
    idescriptor list \<Rightarrow> (digest \<times> string) list \<Rightarrow> error option \<Rightarrow> ('x, 'f) world \<Rightarrow>
    (bool \<times> (digest \<times> string) list \<times> error option) \<times> ('x, 'f) world" where
  "try_signatures g now p name ver [] reasons unchecked w = ((False, reasons, unchecked), w)"
| "try_signatures g now p name ver (s # ss) reasons unchecked w =
     (case envelope g now p name (id_Digest s) w of
        (Inl (BadSignature msg), w1) \<Rightarrow> try_signatures g now p name ver ss (reasons @ [(id_Digest s, msg)]) unchecked w1
      | (Inl (NotRead e), w1) \<Rightarrow> try_signatures g now p name ver ss reasons (Some e) w1
      | (Inr (mt, env), w1) \<Rightarrow>
          (case ver mt env of
             Some msg \<Rightarrow> try_signatures g now p name ver ss (reasons @ [(id_Digest s, msg)]) unchecked w1
           | None \<Rightarrow> ((True, reasons, unchecked), w1)))"

definition notation_ref :: "'f proxy \<Rightarrow> string \<Rightarrow> digest \<Rightarrow> string" where
  "notation_ref p name d =
     (let u = px_Upstream p; host = (case index_of ''://'' u of Some i \<Rightarrow> drop (i + 3) u | None \<Rightarrow> u)
      in (if suffix ''/'' host then butlast host else host) @ ''/'' @ proxy_Name p name @ ''@'' @ d)"

definition signed :: "('x, 'f) registry \<Rightarrow> time \<Rightarrow> 'f proxy \<Rightarrow> string \<Rightarrow> imanifest \<Rightarrow> verdicts \<Rightarrow> ('x, 'f) world \<Rightarrow>
    unverified option \<times> verdicts \<times> ('x, 'f) world" where
  "signed g now p name m vd w =
     (case signatures g now p name (im_Digest m) w of
        (Inl e, w1) \<Rightarrow> (Some (Unchecked e), vd, w1)
      | (Inr [], w1) \<Rightarrow> (Some Unsigned, vd, w1)
      | (Inr sigs, w1) \<Rightarrow>
          (let k = [name, im_Digest m] @ map id_Digest sigs in
           case map_of vd k of
             Some v \<Rightarrow> (v, vd, w1)
           | None \<Rightarrow>
               (case px_Verify p of
                  None \<Rightarrow> (Some Unsigned, vd, w1)
                | Some (mode, verify) \<Rightarrow>
                    (case try_signatures g now p name
                        (verify (notation_ref p name (im_Digest m)) (im_MediaType m, im_Digest m, im_Size m)) sigs [] None w1 of
                       ((True, _, _), w2) \<Rightarrow> (None, verdicts_put k None vd, w2)
                     | ((False, _, Some e), w2) \<Rightarrow> (Some (Unchecked e), vd, w2)
                     | ((False, reasons, None), w2) \<Rightarrow>
                         (Some (Invalid reasons), verdicts_put k (Some (Invalid reasons)) vd, w2)))))"

text \<open>The indexes that hold a platform's manifest, asked first: whether one of them is signed.\<close>

fun holder_signed :: "('x, 'f) registry \<Rightarrow> time \<Rightarrow> 'f proxy \<Rightarrow> string \<Rightarrow> digest list \<Rightarrow> verdicts \<Rightarrow> ('x, 'f) world \<Rightarrow>
    bool \<times> verdicts \<times> ('x, 'f) world" where
  "holder_signed g now p name [] vd w = (False, vd, w)"
| "holder_signed g now p name (h # hs) vd w =
     (case on_ix (ix_get (rg_ix g) name h) w of
        (Inl e, w1) \<Rightarrow> holder_signed g now p name hs vd w1
      | (Inr hm, w1) \<Rightarrow>
          if \<not> IsIndexMediaType (im_MediaType hm) then holder_signed g now p name hs vd w1
          else
            (case signed g now p name hm vd w1 of
               (None, vd1, w2) \<Rightarrow> (True, vd1, w2)
             | (Some _, vd1, w2) \<Rightarrow> holder_signed g now p name hs vd1 w2))"

definition verified :: "('x, 'f) registry \<Rightarrow> time \<Rightarrow> 'f proxy \<Rightarrow> string \<Rightarrow> imanifest \<Rightarrow> verdicts \<Rightarrow> ('x, 'f) world \<Rightarrow>
    unverified option \<times> verdicts \<times> ('x, 'f) world" where
  "verified g now p name m vd w =
     (if IsIndexMediaType (im_MediaType m) then signed g now p name m vd w
      else
        (case on_ix (ix_holders (rg_ix g) name (im_Digest m)) w of
           (Inl e, w1) \<Rightarrow> (Some (Unchecked e), vd, w1)
         | (Inr hs, w1) \<Rightarrow>
             (case holder_signed g now p name hs vd w1 of
                (True, vd1, w2) \<Rightarrow> (None, vd1, w2)
              | (False, vd1, w2) \<Rightarrow> signed g now p name m vd1 w2)))"

section \<open>Admitting a manifest\<close>

text \<open>The refusal, in \<open>require\<close> mode; its message names the manifest and why.\<close>

fun unverified_text :: "(error \<Rightarrow> string) \<Rightarrow> unverified \<Rightarrow> string" where
  "unverified_text tx Unsigned = ''not signed''"
| "unverified_text tx (Invalid rs) =
     ''no signature verifies: '' @ join_with ''; '' (map (\<lambda>(d, msg). d @ '': '' @ msg) rs)"
| "unverified_text tx (Unchecked e) = ''could not check its signature: '' @ tx e"

definition refusal :: "('x, 'f) registry \<Rightarrow> string \<Rightarrow> imanifest \<Rightarrow> unverified \<Rightarrow> error" where
  "refusal g name m u =
     (let what = name @ ''@'' @ im_Digest m; msg = unverified_text (rg_ErrorText g) u in
      case u of
        Unchecked e \<Rightarrow>
          (if errors_is e UpstreamUnreachable then
             Oci ((ErrGatewayTimeout (DText msg))\<lparr>err_message := what @ '': '' @ msg\<rparr>)
           else if upstreamAnswered e then Oci ((ErrBadGateway (DText msg))\<lparr>err_message := what @ '': '' @ msg\<rparr>)
           else Wrapped ''could not check its signature: '' e)
      | _ \<Rightarrow>
          Oci ((ErrDenied (DText msg))\<lparr>err_message := what @ '' is not signed by anybody this registry trusts: '' @ msg\<rparr>))"

definition admit :: "('x, 'f) registry \<Rightarrow> time \<Rightarrow> 'f proxy \<Rightarrow> string \<Rightarrow> reference \<Rightarrow> imanifest \<Rightarrow> verdicts \<Rightarrow> ('x, 'f) world \<Rightarrow>
    error option \<times> verdicts \<times> ('x, 'f) world" where
  "admit g now p name ref m vd w =
     (case px_Verify p of
        None \<Rightarrow> (None, vd, w)
      | Some (mode, _) \<Rightarrow>
          if im_ArtifactType m = ArtifactType then (None, vd, w)
          else
            (case isReferrersTagIndex g name ref m w of
               (True, w1) \<Rightarrow> (None, vd, w1)
             | (False, w1) \<Rightarrow>
                 (case verified g now p name m vd w1 of
                    (None, vd1, w2) \<Rightarrow> (None, vd1, w2)
                  | (Some u, vd1, w2) \<Rightarrow> (if mode = VerifyAudit then None else Some (refusal g name m u), vd1, w2))))"

end
