(* ===== verification/Registry_Manifests.thy ===== *)
theory Registry_Manifests
  imports Registry_Verify
begin

text \<open>
  Manifests over HTTP (\<open>registry/manifests.go\<close>): a pull by tag or digest, a push, which checks
  under the repository's lock that what the manifest names is there, and a delete, which in a cache
  evicts what an index brought in.
\<close>

definition world_tx :: "('x, 'f) registry \<Rightarrow> string \<Rightarrow> (('x, 'f) world, 'r) op \<Rightarrow> (('x, 'f) world, 'r) op" where
  "world_tx g name fn = Tx (rg_ix g) w_ix (\<lambda>x w. w\<lparr>w_ix := x\<rparr>) name fn"

definition touch :: "('x, 'f) registry \<Rightarrow> string \<Rightarrow> string \<Rightarrow> digest \<Rightarrow> time \<Rightarrow> ('x, 'f) world \<Rightarrow> ('x, 'f) world" where
  "touch g name t d now w = w\<lparr>w_ix := ix_touch (rg_ix g) name t d now (w_ix w)\<rparr>"

section \<open>Pulling\<close>

text \<open>The digest a reference is of, in the index.\<close>

definition resolve_ref :: "('x, 'f) registry \<Rightarrow> string \<Rightarrow> reference \<Rightarrow> (('x, 'f) world, digest) op" where
  "resolve_ref g name ref w =
     (if ref_tag ref = '''' then (Inr (ref_digest ref), w)
      else
        (case on_ix (ix_tag_get (rg_ix g) name (ref_tag ref)) w of
           (Inl e, w1) \<Rightarrow>
             if errors_is e ErrNotFound then (Inl (Oci (ErrManifestUnknown (DText (ref_tag ref)))), w1) else (Inl e, w1)
         | (Inr t, w1) \<Rightarrow> (Inr (tg_Digest t), w1)))"

text \<open>What is answered for a manifest the index has: its headers, then its bytes from the store.\<close>

definition manifest_headers :: "imanifest \<Rightarrow> digest \<Rightarrow> header \<Rightarrow> header" where
  "manifest_headers m d h =
     hset ''Etag'' (quoted d) (hset ''Docker-Content-Digest'' d (hset ''Content-Type'' (im_MediaType m) h))"

definition answer_manifest :: "('x, 'f) registry \<Rightarrow> time \<Rightarrow> header \<Rightarrow> request \<Rightarrow> string \<Rightarrow> reference \<Rightarrow> imanifest \<Rightarrow> digest \<Rightarrow>
    ('x, 'f) world \<Rightarrow> response option \<times> ('x, 'f) world" where
  "answer_manifest g now h r name ref m d w =
     (let h1 = manifest_headers m d h in
      if rq_Method r = ''HEAD'' then
        (Some (reply (hset ''Content-Length'' (itoa (im_Size m)) h1) 200), touch g name (ref_tag ref) d now w)
      else
        (case on_fl (fl_open (rg_fl g) name d) w of
           (Inl e, w1) \<Rightarrow>
             if errors_is e (Flob NotExist) then (fail h1 (Oci (ErrManifestUnknown (DText (ref_String ref)))), w1)
             else (fail h1 e, w1)
         | (Inr b, w1) \<Rightarrow>
             (case on_fl (fl_size (rg_fl g) name d) w1 of
                (Inl e, w2) \<Rightarrow> (fail h1 e, w2)
              | (Inr n, w2) \<Rightarrow>
                  (Some ((reply (hset ''Content-Length'' (itoa n) h1) 200)\<lparr>rs_body := Bytes b\<rparr>),
                   touch g name (ref_tag ref) d now w2))))"

definition pull_first :: "('x, 'f) registry \<Rightarrow> time \<Rightarrow> string \<Rightarrow> reference \<Rightarrow> ('x, 'f) world \<Rightarrow> error option \<times> ('x, 'f) world" where
  "pull_first g now name ref w =
     (case proxies_of (rg_Proxies g) name of None \<Rightarrow> (None, w) | Some p \<Rightarrow> pullThrough g now p name ref w)"

definition admit_first :: "('x, 'f) registry \<Rightarrow> time \<Rightarrow> string \<Rightarrow> reference \<Rightarrow> imanifest \<Rightarrow> verdicts \<Rightarrow> ('x, 'f) world \<Rightarrow>
    error option \<times> verdicts \<times> ('x, 'f) world" where
  "admit_first g now name ref m vd w =
     (case proxies_of (rg_Proxies g) name of None \<Rightarrow> (None, vd, w) | Some p \<Rightarrow> admit g now p name ref m vd w)"

definition getManifest :: "('x, 'f) registry \<Rightarrow> time \<Rightarrow> header \<Rightarrow> request \<Rightarrow> string \<Rightarrow> string \<Rightarrow> verdicts \<Rightarrow>
    ('x, 'f) world \<Rightarrow> response option \<times> verdicts \<times> ('x, 'f) world" where
  "getManifest g now h r name arg vd w =
     (case referenceOf (rg_D g) arg ErrManifestUnknown of
        Inl e \<Rightarrow> (fail h e, vd, w)
      | Inr ref \<Rightarrow>
          (case pull_first g now name ref w of
             (Some e, w1) \<Rightarrow> (fail h e, vd, w1)
           | (None, w1) \<Rightarrow>
               (case resolve_ref g name ref w1 of
                  (Inl e, w2) \<Rightarrow> (fail h e, vd, w2)
                | (Inr d, w2) \<Rightarrow>
                    (case on_ix (ix_get (rg_ix g) name d) w2 of
                       (Inl e, w3) \<Rightarrow>
                         (if errors_is e ErrNotFound then fail h (Oci (ErrManifestUnknown (DText (ref_String ref))))
                          else fail h e, vd, w3)
                     | (Inr m, w3) \<Rightarrow>
                         (case admit_first g now name ref m vd w3 of
                            (Some e, vd1, w4) \<Rightarrow> (fail h e, vd1, w4)
                          | (None, vd1, w4) \<Rightarrow>
                              (case answer_manifest g now h r name ref m d w4 of (a, w5) \<Rightarrow> (a, vd1, w5)))))))"

section \<open>Pushing\<close>

definition uniq :: "digest list \<Rightarrow> digest list" where
  "uniq ds = fold (\<lambda>d vs. holds_add vs d) ds []"

text \<open>
  \<open>missing\<close>: the stats are made one after another here; the source makes eight at a time, and a
  stat changes nothing.
\<close>

fun missing_blobs :: "('x, 'f) registry \<Rightarrow> string \<Rightarrow> digest list \<Rightarrow> (('x, 'f) world, digest list) op" where
  "missing_blobs g name [] w = (Inr [], w)"
| "missing_blobs g name (d # ds) w =
     (case on_fl (fl_stat (rg_fl g) name d) w of
        (Inl e, w1) \<Rightarrow>
          if errors_is e (Flob NotExist) \<or> errors_is e (Flob InvalidDigest) then
            (case missing_blobs g name ds w1 of
               (Inl e', w2) \<Rightarrow> (Inl e', w2)
             | (Inr ms, w2) \<Rightarrow> (Inr (d # ms), w2))
          else (Inl e, w1)
      | (Inr _, w1) \<Rightarrow> missing_blobs g name ds w1)"

fun missing_children :: "('x, 'f) registry \<Rightarrow> string \<Rightarrow> digest list \<Rightarrow> (('x, 'f) world, digest list) op" where
  "missing_children g name [] w = (Inr [], w)"
| "missing_children g name (d # ds) w =
     (case on_ix (ix_get (rg_ix g) name d) w of
        (Inl e, w1) \<Rightarrow>
          if errors_is e ErrNotFound then
            (case missing_children g name ds w1 of
               (Inl e', w2) \<Rightarrow> (Inl e', w2)
             | (Inr ms, w2) \<Rightarrow> (Inr (d # ms), w2))
          else (Inl e, w1)
      | (Inr _, w1) \<Rightarrow> missing_children g name ds w1)"

definition missing :: "('x, 'f) registry \<Rightarrow> string \<Rightarrow> manifest \<Rightarrow> (('x, 'f) world, digest list) op" where
  "missing g name m w =
     (let bs = uniq (map d_digest (Blobs m));
          cs = filter (\<lambda>d. d \<notin> set bs) (uniq (map d_digest (slice (mf_manifests m))))
      in case missing_blobs g name (filter (\<lambda>d. wellKnown g d = None) bs) w of
           (Inl e, w1) \<Rightarrow> (Inl e, w1)
         | (Inr mb, w1) \<Rightarrow>
             (case missing_children g name cs w1 of
                (Inl e, w2) \<Rightarrow> (Inl e, w2)
              | (Inr mc, w2) \<Rightarrow> (Inr (sort (mb @ mc)), w2)))"

definition setTag :: "'x index_ops \<Rightarrow> caller \<Rightarrow> string \<Rightarrow> string \<Rightarrow> digest \<Rightarrow> ('x, unit) op" where
  "setTag ix c name t d x =
     (case tag_from ix name t x of
        (Inl e, x1) \<Rightarrow> (Inl e, x1)
      | (Inr from, x1) \<Rightarrow>
          (case (if from \<noteq> d then caller_CheckTag c name t (if from \<noteq> '''' then TagMove else TagCreate) else None) of
             Some e \<Rightarrow> (Inl (Oci (ErrDenied (DCause (TagRefused e)))), x1)
           | None \<Rightarrow> ix_tag_set ix name t d from x1))"

text \<open>What a push does in its transaction.\<close>

definition put_body :: "('x, 'f) registry \<Rightarrow> caller \<Rightarrow> string \<Rightarrow> string \<Rightarrow> manifest \<Rightarrow> imanifest \<Rightarrow> (('x, 'f) world, unit) op" where
  "put_body g c name t m rec w =
     (case missing g name m w of
        (Inl e, w1) \<Rightarrow> (Inl e, w1)
      | (Inr (d # ds), w1) \<Rightarrow> (Inl (Oci (ErrManifestBlobUnknown (DList (d # ds)))), w1)
      | (Inr [], w1) \<Rightarrow>
          (case on_ix (ix_repo_ensure (rg_ix g) name) w1 of
             (Inl e, w2) \<Rightarrow> (Inl e, w2)
           | (Inr _, w2) \<Rightarrow>
               (case on_ix (ix_put (rg_ix g) name rec (Holds m)) w2 of
                  (Inl e, w3) \<Rightarrow> (Inl e, w3)
                | (Inr _, w3) \<Rightarrow>
                    if t = '''' then (Inr (), w3) else on_ix (setTag (rg_ix g) c name t (im_Digest rec)) w3)))"

text \<open>What a push is refused for before anything is written: the reference, the size, the digest, the manifest.\<close>

definition read_push :: "('x, 'f) registry \<Rightarrow> request \<Rightarrow> string \<Rightarrow> error + (reference \<times> string \<times> digest \<times> manifest)" where
  "read_push g r arg =
     (case referenceOf (rg_D g) arg ErrManifestInvalid of
        Inl e \<Rightarrow> Inl e
      | Inr ref \<Rightarrow>
          (case rq_Body r of
             Inl e \<Rightarrow> Inl e
           | Inr b \<Rightarrow>
               (let body = take (nat (rg_MaxManifestSize g + 1)) b;
                    algo = (if ref_digest ref \<noteq> '''' then dg_algorithm (rg_D g) (ref_digest ref) else ''sha256'');
                    d = dg_from_bytes (rg_D g) algo body
                in if int (length body) > rg_MaxManifestSize g then
                     Inl (Oci (NewError 413 CodeSizeInvalid (DText (''the manifest is larger than '' @ itoa (rg_MaxManifestSize g) @ '' bytes''))))
                   else if ref_digest ref \<noteq> '''' \<and> ref_digest ref \<noteq> d then
                     Inl (Oci (ErrDigestInvalid (DText (''the body hashes to '' @ d))))
                   else
                     (case ParseManifest (rg_D g) (rg_J g) (header_get r ''Content-Type'') body of
                        Inl e \<Rightarrow> Inl (Oci (ErrManifestInvalid (DCause (BadManifest e))))
                      | Inr m \<Rightarrow> Inr (ref, body, d, m)))))"

definition created_manifest :: "header \<Rightarrow> string \<Rightarrow> digest \<Rightarrow> manifest \<Rightarrow> response" where
  "created_manifest h name d m =
     (let h1 = hset ''Content-Length'' ''0'' (hset ''Docker-Content-Digest'' d (hset ''Location'' (manifestPath name d) h))
      in reply (case mf_subject m of None \<Rightarrow> h1 | Some s \<Rightarrow> hset ''OCI-Subject'' (d_digest s) h1) 201)"

text \<open>An \<open>Add\<close> of what is already there did not fail.\<close>

definition add_failed :: "error + unit \<Rightarrow> error option" where
  "add_failed a = (case a of Inr _ \<Rightarrow> None | Inl e \<Rightarrow> if errors_is e (Flob AlreadyExists) then None else Some e)"

definition putManifest :: "('x, 'f) registry \<Rightarrow> time \<Rightarrow> caller \<Rightarrow> header \<Rightarrow> request \<Rightarrow> string \<Rightarrow> string \<Rightarrow>
    ('x, 'f) world \<Rightarrow> response option \<times> ('x, 'f) world" where
  "putManifest g now c h r name arg w =
     (case read_push g r arg of
        Inl e \<Rightarrow> (fail h e, w)
      | Inr (ref, body, d, m) \<Rightarrow>
          (case on_fl (fl_add (rg_fl g) name d (int (length body)) body) w of
             (a, w1) \<Rightarrow>
               (case add_failed a of
                  Some e \<Rightarrow> (fail h e, w1)
                | None \<Rightarrow>
                    (case world_tx g name (put_body g c name (ref_tag ref) m (record_of m d body now)) w1 of
                       (Inl e, w2) \<Rightarrow> (fail h e, w2)
                     | (Inr _, w2) \<Rightarrow> (Some (created_manifest h name d m), w2)))))"

section \<open>Deleting\<close>

text \<open>What an index lists, read from the store; nothing for what is not one or cannot be read.\<close>

definition listed :: "('x, 'f) registry \<Rightarrow> string \<Rightarrow> imanifest \<Rightarrow> ('x, 'f) world \<Rightarrow> digest list \<times> ('x, 'f) world" where
  "listed g name m w =
     (if \<not> IsIndexMediaType (im_MediaType m) then ([], w)
      else
        (case store_read g name (im_Digest m) w of
           (Inl e, w1) \<Rightarrow> ([], w1)
         | (Inr body, w1) \<Rightarrow>
             (case ParseManifest (rg_D g) (rg_J g) (im_MediaType m) body of
                Inl e \<Rightarrow> ([], w1)
              | Inr p \<Rightarrow> (map d_digest (slice (mf_manifests p)), w1))))"

text \<open>One step of \<open>evict\<close>: a manifest left alone, or erased with what that released and what it listed.\<close>

datatype evicting = EvictFail error | EvictSkip | Evicted "digest list" "digest list"

definition evict_one :: "('x, 'f) registry \<Rightarrow> string \<Rightarrow> digest \<Rightarrow> ('x, 'f) world \<Rightarrow> evicting \<times> ('x, 'f) world" where
  "evict_one g name d w =
     (case on_ix (ix_get (rg_ix g) name d) w of
        (Inl e, w1) \<Rightarrow> (if errors_is e ErrNotFound then EvictSkip else EvictFail e, w1)
      | (Inr m, w1) \<Rightarrow>
          (case on_ix (ix_holds (rg_ix g) name d) w1 of
             (Inl e, w2) \<Rightarrow> (EvictFail e, w2)
           | (Inr True, w2) \<Rightarrow> (EvictSkip, w2)
           | (Inr False, w2) \<Rightarrow>
               (case on_ix (ix_tag_of (rg_ix g) name d) w2 of
                  (Inl e, w3) \<Rightarrow> (EvictFail e, w3)
                | (Inr (t # ts), w3) \<Rightarrow> (EvictSkip, w3)
                | (Inr [], w3) \<Rightarrow>
                    (case listed g name m w3 of (ls, w4) \<Rightarrow>
                       (case on_ix (ix_erase (rg_ix g) name d) w4 of
                          (Inl e, w5) \<Rightarrow> (EvictFail e, w5)
                        | (Inr rs, w5) \<Rightarrow> (Evicted rs ls, w5))))))"

text \<open>
  \<open>evict\<close> follows the indexes that indexes list, as deep as they go; the depth is bounded by a
  number given to it, and running into the bound is an outcome of its own.
\<close>

datatype evict_end = EvictDone | EvictFailed error | EvictStarved

fun evict_listed :: "('x, 'f) registry \<Rightarrow> string \<Rightarrow> nat \<Rightarrow> digest list \<Rightarrow> ('x, 'f) world \<Rightarrow>
    (digest list \<times> evict_end) \<times> ('x, 'f) world" where
  "evict_listed g name n [] w = (([], EvictDone), w)"
| "evict_listed g name n (d # ds) w =
     (case evict_one g name d w of
        (EvictFail e, w1) \<Rightarrow> (([], EvictFailed e), w1)
      | (EvictSkip, w1) \<Rightarrow> evict_listed g name n ds w1
      | (Evicted rs ls, w1) \<Rightarrow>
          (case n of
             0 \<Rightarrow> ((rs @ [d], EvictStarved), w1)
           | Suc k \<Rightarrow>
               (case evict_listed g name k ls w1 of
                  ((kids, EvictDone), w2) \<Rightarrow>
                    (case evict_listed g name n ds w2 of ((rest, e), w3) \<Rightarrow> ((rs @ [d] @ kids @ rest, e), w3))
                | ((kids, e), w2) \<Rightarrow> ((rs @ [d] @ kids, e), w2))))"

text \<open>The tags of a manifest that goes: all of them are checked, then all of them are erased.\<close>

fun check_tags :: "caller \<Rightarrow> string \<Rightarrow> tag list \<Rightarrow> error option" where
  "check_tags c name [] = None"
| "check_tags c name (t # ts) =
     (case caller_CheckTag c name (tg_Name t) TagDelete of
        Some e \<Rightarrow> Some (Oci (ErrDenied (DCause (TagRefused e))))
      | None \<Rightarrow> check_tags c name ts)"

fun erase_all_tags :: "'x index_ops \<Rightarrow> string \<Rightarrow> tag list \<Rightarrow> ('x, unit) op" where
  "erase_all_tags ix name [] x = (Inr (), x)"
| "erase_all_tags ix name (t # ts) x =
     (case ix_tag_erase ix name (tg_Name t) x of
        (Inl e, x1) \<Rightarrow> (Inl e, x1)
      | (Inr _, x1) \<Rightarrow> erase_all_tags ix name ts x1)"

definition delete_tag_body :: "'x index_ops \<Rightarrow> caller \<Rightarrow> string \<Rightarrow> string \<Rightarrow> ('x, unit) op" where
  "delete_tag_body ix c name t x =
     (case ix_tag_get ix name t x of
        (Inl e, x1) \<Rightarrow>
          if errors_is e ErrNotFound then (Inl (Oci (ErrManifestUnknown (DText t))), x1) else (Inl e, x1)
      | (Inr _, x1) \<Rightarrow>
          (case caller_CheckTag c name t TagDelete of
             Some e \<Rightarrow> (Inl (Oci (ErrDenied (DCause (TagRefused e)))), x1)
           | None \<Rightarrow> ix_tag_erase ix name t x1))"

text \<open>The erase, once the tags are gone, and in a cache the eviction of what went with it.\<close>

definition erase_and_evict :: "('x, 'f) registry \<Rightarrow> string \<Rightarrow> nat \<Rightarrow> digest \<Rightarrow> digest list \<Rightarrow> (('x, 'f) world, digest list) op" where
  "erase_and_evict g name n d ls w =
     (case on_ix (ix_erase (rg_ix g) name d) w of
        (Inl e, w1) \<Rightarrow> (Inl e, w1)
      | (Inr released, w1) \<Rightarrow>
          (case evict_listed g name n ls w1 of
             ((evicted, EvictDone), w2) \<Rightarrow> (Inr (released @ evicted), w2)
           | ((evicted, EvictFailed e), w2) \<Rightarrow> (Inl e, w2)
           | ((evicted, EvictStarved), w2) \<Rightarrow> (Inl (Other ''an index nests deeper than the bound''), w2)))"

definition delete_body :: "('x, 'f) registry \<Rightarrow> caller \<Rightarrow> string \<Rightarrow> nat \<Rightarrow> digest \<Rightarrow> (('x, 'f) world, digest list) op" where
  "delete_body g c name n d w =
     (case on_ix (ix_get (rg_ix g) name d) w of
        (Inl e, w1) \<Rightarrow>
          if errors_is e ErrNotFound then (Inl (Oci (ErrManifestUnknown (DText d))), w1) else (Inl e, w1)
      | (Inr m, w1) \<Rightarrow>
          (case (if proxies_of (rg_Proxies g) name \<noteq> None then listed g name m w1 else ([], w1)) of
             (ls, w2) \<Rightarrow>
               (case on_ix (ix_tag_of (rg_ix g) name d) w2 of
                  (Inl e, w3) \<Rightarrow> (Inl e, w3)
                | (Inr ts, w3) \<Rightarrow>
                    (case check_tags c name ts of
                       Some e \<Rightarrow> (Inl e, w3)
                     | None \<Rightarrow>
                         (case on_ix (erase_all_tags (rg_ix g) name ts) w3 of
                            (Inl e, w4) \<Rightarrow> (Inl e, w4)
                          | (Inr _, w4) \<Rightarrow> erase_and_evict g name n d ls w4)))))"

text \<open>\<open>release\<close>, whose error is logged and no more: what it leaves is the sweep's.\<close>

definition release :: "('x, 'f) registry \<Rightarrow> string \<Rightarrow> digest list \<Rightarrow> ('x, 'f) world \<Rightarrow> ('x, 'f) world" where
  "release g name ds w = snd (Release (rg_ix g) (rg_fl g) name ds w)"

definition http_deleteManifest :: "('x, 'f) registry \<Rightarrow> nat \<Rightarrow> caller \<Rightarrow> header \<Rightarrow> request \<Rightarrow> string \<Rightarrow> string \<Rightarrow>
    ('x, 'f) world \<Rightarrow> response option \<times> ('x, 'f) world" where
  "http_deleteManifest g n c h r name arg w =
     (case referenceOf (rg_D g) arg ErrManifestUnknown of
        Inl e \<Rightarrow> (fail h e, w)
      | Inr ref \<Rightarrow>
          if ref_tag ref \<noteq> '''' then
            (case on_ix (ix_tx (rg_ix g) name (delete_tag_body (rg_ix g) c name (ref_tag ref))) w of
               (Inl e, w1) \<Rightarrow> (fail h e, w1)
             | (Inr _, w1) \<Rightarrow> (Some (reply h 202), w1))
          else
            (case world_tx g name (delete_body g c name n (ref_digest ref)) w of
               (Inl e, w1) \<Rightarrow> (fail h e, w1)
             | (Inr released, w1) \<Rightarrow> (Some (reply h 202), release g name (released @ [ref_digest ref]) w1)))"

end
