(* ===== verification/Registry_Blobs.thy ===== *)
theory Registry_Blobs
  imports Registry_Manifests
begin

text \<open>
  Blobs over HTTP (\<open>registry/blobs.go\<close>): a pull, a delete under the repository's lock, a push in
  one request, a mount from another repository, and an upload in chunks, whose sessions the store
  keeps.
\<close>

definition blobErr :: "digest \<Rightarrow> error \<Rightarrow> error" where
  "blobErr d e =
     (if errors_is e (Flob NotExist) then Oci (ErrBlobUnknown (DText d))
      else if errors_is e (Flob InvalidDigest) then Oci (ErrDigestInvalid (DCause (FlobCause InvalidDigest)))
      else e)"

definition stageErr :: "error \<Rightarrow> error" where
  "stageErr e =
     (if errors_is e (Flob NotExist) then Oci (ErrBlobUploadUnknown (DText ''no such upload''))
      else if errors_is e (Flob StageExpired) then Oci (ErrBlobUploadUnknown (DText ''the upload expired''))
      else if errors_is e (Flob StageClosed) then Oci (ErrBlobUploadUnknown (DText ''the upload was committed or cancelled''))
      else if errors_is e (Flob StageConflict) then Oci (ErrBlobUploadInvalid (DCause (FlobCause StageConflict)))
      else if errors_is e (Flob DigestMismatch) then Oci (ErrDigestInvalid (DCause (FlobCause DigestMismatch)))
      else if errors_is e (Flob InvalidDigest) then Oci (ErrDigestInvalid (DCause (FlobCause InvalidDigest)))
      else e)"

section \<open>Pulling\<close>

definition blob_headers :: "digest \<Rightarrow> header \<Rightarrow> header" where
  "blob_headers d h =
     hset ''Etag'' (quoted d) (hset ''Content-Type'' ''application/octet-stream'' (hset ''Docker-Content-Digest'' d h))"

definition headBlob :: "('x, 'f) registry \<Rightarrow> header \<Rightarrow> string \<Rightarrow> digest \<Rightarrow> ('x, 'f) world \<Rightarrow> response option \<times> ('x, 'f) world" where
  "headBlob g h name d w =
     (case on_fl (fl_stat (rg_fl g) name d) w of
        (Inl e, w1) \<Rightarrow> (fail h (blobErr d e), w1)
      | (Inr _, w1) \<Rightarrow>
          (case on_fl (fl_size (rg_fl g) name d) w1 of
             (Inl e, w2) \<Rightarrow> (fail h (blobErr d e), w2)
           | (Inr n, w2) \<Rightarrow>
               (Some (reply (hset ''Accept-Ranges'' ''bytes'' (hset ''Content-Length'' (itoa n) h)) 200), w2)))"

text \<open>The URL the store signs, when it is asked for one and can.\<close>

definition presigned :: "('x, 'f) registry \<Rightarrow> string \<Rightarrow> digest \<Rightarrow> ('x, 'f) world \<Rightarrow> string option \<times> ('x, 'f) world" where
  "presigned g name d w =
     (if rg_Redirect g \<and> fl_presigner (rg_fl g) name then
        (case on_fl (fl_presign (rg_fl g) name d (rg_RedirectTTL g)) w of
           (Inl e, w1) \<Rightarrow> (None, w1)
         | (Inr loc, w1) \<Rightarrow> (Some loc, w1))
      else (None, w))"

definition getBlob :: "('x, 'f) registry \<Rightarrow> header \<Rightarrow> request \<Rightarrow> string \<Rightarrow> string \<Rightarrow> ('x, 'f) world \<Rightarrow> response option \<times> ('x, 'f) world" where
  "getBlob g h r name arg w =
     (case ParseDigest (rg_D g) arg of
        Inl e \<Rightarrow> (fail h (Oci (ErrDigestInvalid (DCause e))), w)
      | Inr d \<Rightarrow>
          (let h1 = blob_headers d h in
           case wellKnown g d of
             Some b \<Rightarrow> (Some (rg_ServeContent g h1 r b), w)
           | None \<Rightarrow>
               if rq_Method r = ''HEAD'' then headBlob g h1 name d w
               else
                 (case presigned g name d w of
                    (Some loc, w1) \<Rightarrow>
                      (Some (reply (hset ''Location'' loc (AList.delete ''Etag'' (AList.delete ''Content-Type'' h1))) 307), w1)
                  | (None, w1) \<Rightarrow>
                      (case on_fl (fl_open (rg_fl g) name d) w1 of
                         (Inl e, w2) \<Rightarrow> (fail h1 (blobErr d e), w2)
                       | (Inr b, w2) \<Rightarrow> (Some (rg_ServeContent g h1 r b), w2)))))"

section \<open>Deleting\<close>

text \<open>What is done under the lock: refuse what a manifest needs, then erase.\<close>

definition delete_blob_locked :: "('x, 'f) registry \<Rightarrow> string \<Rightarrow> digest \<Rightarrow> (('x, 'f) world, unit) op" where
  "delete_blob_locked g name d w =
     (case on_ix (ix_holds (rg_ix g) name d) w of
        (Inl e, w1) \<Rightarrow> (Inl e, w1)
      | (Inr True, w1) \<Rightarrow> (Inl (Oci (ErrDenied (DText ''the blob is held by a manifest in this repository''))), w1)
      | (Inr False, w1) \<Rightarrow>
          (case on_ix (ix_get (rg_ix g) name d) w1 of
             (Inr _, w2) \<Rightarrow>
               (Inl (Oci (ErrDenied (DText ''the digest is a manifest; delete it through the manifests endpoint''))), w2)
           | (Inl e, w2) \<Rightarrow>
               if \<not> errors_is e ErrNotFound then (Inl e, w2)
               else
                 (case on_fl (fl_stat (rg_fl g) name d) w2 of
                    (Inl e', w3) \<Rightarrow> (Inl (blobErr d e'), w3)
                  | (Inr _, w3) \<Rightarrow> on_fl (fl_erase (rg_fl g) name d) w3)))"

definition deleteBlob :: "('x, 'f) registry \<Rightarrow> header \<Rightarrow> string \<Rightarrow> string \<Rightarrow> ('x, 'f) world \<Rightarrow> response option \<times> ('x, 'f) world" where
  "deleteBlob g h name arg w =
     (case ParseDigest (rg_D g) arg of
        Inl e \<Rightarrow> (fail h (Oci (ErrDigestInvalid (DCause e))), w)
      | Inr d \<Rightarrow>
          if wellKnown g d \<noteq> None then
            (fail h (Oci (ErrUnsupported (DText ''a constant blob is present in every repository and cannot be deleted''))), w)
          else
            (case on_ix (ix_lock (rg_ix g) name) w of
               (Inl e, w1) \<Rightarrow> (fail h e, w1)
             | (Inr _, w1) \<Rightarrow>
                 (case delete_blob_locked g name d w1 of
                    (res, w2) \<Rightarrow>
                      (case res of Inl e \<Rightarrow> fail h e | Inr _ \<Rightarrow> Some (reply h 202),
                       w2\<lparr>w_ix := ix_unlock (rg_ix g) name (w_ix w2)\<rparr>))))"

section \<open>Pushing in one request\<close>

definition created :: "header \<Rightarrow> string \<Rightarrow> digest \<Rightarrow> response" where
  "created h name d =
     reply (hset ''Content-Length'' ''0'' (hset ''Docker-Content-Digest'' d (hset ''Location'' (blobPath name d) h))) 201"

text \<open>
  \<open>Add\<close> of a body as it comes in: flob answers before it reads when the digest is there, and a
  body that breaks off is not added.
\<close>

definition add_stream :: "('x, 'f) registry \<Rightarrow> string \<Rightarrow> digest \<Rightarrow> int \<Rightarrow> error + string \<Rightarrow> (('x, 'f) world, unit) op" where
  "add_stream g name d n b w =
     (case b of
        Inr bytes \<Rightarrow> on_fl (fl_add (rg_fl g) name d n bytes) w
      | Inl e \<Rightarrow>
          (case on_fl (fl_stat (rg_fl g) name d) w of
             (Inr _, w1) \<Rightarrow> (Inl (Flob AlreadyExists), w1)
           | (Inl _, w1) \<Rightarrow> (Inl e, w1)))"

definition putBlob :: "('x, 'f) registry \<Rightarrow> header \<Rightarrow> request \<Rightarrow> string \<Rightarrow> string \<Rightarrow> ('x, 'f) world \<Rightarrow> response option \<times> ('x, 'f) world" where
  "putBlob g h r name arg w =
     (case ParseDigest (rg_D g) arg of
        Inl e \<Rightarrow> (fail h (Oci (ErrDigestInvalid (DCause e))), w)
      | Inr d \<Rightarrow>
          (case wellKnown g d of
             Some b \<Rightarrow>
               (case rq_Body r of
                  Inl e \<Rightarrow> (fail h e, w)
                | Inr got \<Rightarrow>
                    if take (length b + 1) got \<noteq> b then (fail h (Oci (ErrDigestInvalid (DText d))), w)
                    else (Some (created h name d), w))
           | None \<Rightarrow>
               (case add_stream g name d (max (rq_ContentLength r) 0) (rq_Body r) w of
                  (Inr _, w1) \<Rightarrow> (Some (created h name d), w1)
                | (Inl e, w1) \<Rightarrow>
                    if errors_is e (Flob AlreadyExists) then (Some (created h name d), w1)
                    else if errors_is e (Flob DigestMismatch) then
                      (fail h (Oci (ErrDigestInvalid (DCause (FlobCause DigestMismatch)))), w1)
                    else if errors_is e (Flob InvalidDigest) then
                      (fail h (Oci (ErrDigestInvalid (DCause (FlobCause InvalidDigest)))), w1)
                    else (fail h e, w1))))"

section \<open>Starting an upload\<close>

definition upload_algorithms :: "string list" where
  "upload_algorithms = [''sha256'', ''sha384'', ''sha512'']"

definition beginUpload :: "('x, 'f) registry \<Rightarrow> header \<Rightarrow> request \<Rightarrow> string \<Rightarrow> ('x, 'f) world \<Rightarrow> response option \<times> ('x, 'f) world" where
  "beginUpload g h r name w =
     (if \<not> fl_stager (rg_fl g) name then
        (fail h (Oci (ErrUnsupported (DText ''the store takes no chunked uploads; push with ?digest=''))), w)
      else
        (let v = query_get r ''digest-algorithm'' in
         if v \<noteq> '''' \<and> v \<notin> set upload_algorithms then
           (fail h (Oci (ErrDigestInvalid (DCause (UnsupportedAlgorithm v)))), w)
         else
           (case on_fl (fl_begin (rg_fl g) name v) w of
              (Inl e, w1) \<Rightarrow> (fail h e, w1)
            | (Inr i, w1) \<Rightarrow>
                (let h1 = hset ''Content-Length'' ''0'' (hset ''Range'' ''0-0''
                       (hset ''Docker-Upload-UUID'' i (hset ''Location'' (uploadPath name i) h)))
                 in (Some (reply (if rg_ChunkMinLength g > 0 then hset ''OCI-Chunk-Min-Length'' (itoa (rg_ChunkMinLength g)) h1
                       else h1) 202), w1)))))"

text \<open>The size of a blob, or none when the store cannot say.\<close>

definition sizeOf :: "('x, 'f) registry \<Rightarrow> string \<Rightarrow> digest \<Rightarrow> ('x, 'f) world \<Rightarrow> int \<times> ('x, 'f) world" where
  "sizeOf g name d w =
     (case on_fl (fl_size (rg_fl g) name d) w of
        (Inl e, w1) \<Rightarrow> (0, w1)
      | (Inr n, w1) \<Rightarrow> (if n < 0 then 0 else n, w1))"

definition mount_copy :: "('x, 'f) registry \<Rightarrow> header \<Rightarrow> request \<Rightarrow> string \<Rightarrow> string \<Rightarrow> digest \<Rightarrow> ('x, 'f) world \<Rightarrow>
    response option \<times> ('x, 'f) world" where
  "mount_copy g h r name from d w =
     (case on_fl (fl_open (rg_fl g) from d) w of
        (Inl e, w1) \<Rightarrow> if errors_is e (Flob NotExist) then beginUpload g h r name w1 else (fail h e, w1)
      | (Inr b, w1) \<Rightarrow>
          (case sizeOf g from d w1 of (n, w2) \<Rightarrow>
             (case on_fl (fl_add (rg_fl g) name d n b) w2 of
                (a, w3) \<Rightarrow> (case add_failed a of Some e \<Rightarrow> (fail h e, w3) | None \<Rightarrow> (Some (created h name d), w3)))))"

definition mount :: "('x, 'f) registry \<Rightarrow> caller \<Rightarrow> header \<Rightarrow> request \<Rightarrow> string \<Rightarrow> ('x, 'f) world \<Rightarrow> response option \<times> ('x, 'f) world" where
  "mount g c h r name w =
     (let from = query_get r ''from'' in
      case ParseDigest (rg_D g) (query_get r ''mount'') of
        Inl e \<Rightarrow> beginUpload g h r name w
      | Inr d \<Rightarrow>
          if from = '''' \<or> \<not> ValidName from \<or> Allowed c from [ActionPull] = [] then beginUpload g h r name w
          else if wellKnown g d \<noteq> None then (Some (created h name d), w)
          else if fl_linker (rg_fl g) name then
            (case on_fl (fl_link (rg_fl g) name d from) w of
               (Inr _, w1) \<Rightarrow> (Some (created h name d), w1)
             | (Inl e, w1) \<Rightarrow>
                 if errors_is e (Flob AlreadyExists) then (Some (created h name d), w1)
                 else if errors_is e (Flob NotExist) then beginUpload g h r name w1
                 else if errors_is e (Flob IncompatibleStore) then mount_copy g h r name from d w1
                 else (fail h e, w1))
          else mount_copy g h r name from d w)"

definition postUpload :: "('x, 'f) registry \<Rightarrow> caller \<Rightarrow> header \<Rightarrow> request \<Rightarrow> string \<Rightarrow> ('x, 'f) world \<Rightarrow> response option \<times> ('x, 'f) world" where
  "postUpload g c h r name w =
     (if query_has r ''mount'' then mount g c h r name w
      else if query_has r ''digest'' then putBlob g h r name (query_get r ''digest'') w
      else beginUpload g h r name w)"

section \<open>An upload in chunks\<close>

definition validStageID :: "string \<Rightarrow> bool" where
  "validStageID i =
     (length i = 32 \<and> list_all (\<lambda>c. is_digit c \<or> (CHR ''a'' \<le> c \<and> c \<le> CHR ''f'')) i)"

definition resume :: "('x, 'f) registry \<Rightarrow> string \<Rightarrow> string \<Rightarrow> (('x, 'f) world, unit) op" where
  "resume g name i w =
     (if \<not> validStageID i \<or> \<not> fl_stager (rg_fl g) name then
        (Inl (Oci (ErrBlobUploadUnknown (DText ''no such upload''))), w)
      else
        (case on_fl (fl_resume (rg_fl g) name i) w of
           (Inl e, w1) \<Rightarrow> (Inl (stageErr e), w1)
         | (Inr _, w1) \<Rightarrow> (Inr (), w1)))"

definition rangeOf :: "int \<Rightarrow> string" where
  "rangeOf offset = (if offset \<le> 0 then ''0-0'' else ''0-'' @ itoa (offset - 1))"

definition session :: "header \<Rightarrow> string \<Rightarrow> string \<Rightarrow> int \<Rightarrow> header" where
  "session h name i offset =
     hset ''Content-Length'' ''0'' (hset ''Range'' (rangeOf offset)
       (hset ''Docker-Upload-UUID'' i (hset ''Location'' (uploadPath name i) h)))"

text \<open>\<open>Stat\<close> of a session that must be active.\<close>

definition active_stage :: "('x, 'f) registry \<Rightarrow> string \<Rightarrow> string \<Rightarrow> (('x, 'f) world, stage_info) op" where
  "active_stage g name i w =
     (case on_fl (fl_stage_stat (rg_fl g) name i) w of
        (Inl e, w1) \<Rightarrow> (Inl (stageErr e), w1)
      | (Inr s, w1) \<Rightarrow>
          if \<not> si_Active s then (Inl (Oci (ErrBlobUploadUnknown (DText ''the upload was committed or cancelled''))), w1)
          else (Inr s, w1))"

definition statUpload :: "('x, 'f) registry \<Rightarrow> header \<Rightarrow> string \<Rightarrow> string \<Rightarrow> ('x, 'f) world \<Rightarrow> response option \<times> ('x, 'f) world" where
  "statUpload g h name i w =
     (case resume g name i w of
        (Inl e, w1) \<Rightarrow> (fail h e, w1)
      | (Inr _, w1) \<Rightarrow>
          (case active_stage g name i w1 of
             (Inl e, w2) \<Rightarrow> (fail h e, w2)
           | (Inr s, w2) \<Rightarrow> (Some (reply (session h name i (si_Offset s)) 204), w2)))"

definition parseContentRange :: "string \<Rightarrow> (int \<times> int) option" where
  "parseContentRange v =
     (let v1 = trim_space (trim_prefix (trim_space v) ''bytes''); v2 = fst (cut (CHR ''/'') v1) in
      case cut (CHR ''-'') v2 of
        (a, b, found) \<Rightarrow>
          if \<not> found then None
          else
            (case (atoi (trim_space a), atoi (trim_space b)) of
               (Some s, Some e) \<Rightarrow> if s < 0 \<or> e < s then None else Some (s, e)
             | _ \<Rightarrow> None))"

definition outOfRange :: "('x, 'f) registry \<Rightarrow> header \<Rightarrow> string \<Rightarrow> string \<Rightarrow> ('x, 'f) world \<Rightarrow> response option \<times> ('x, 'f) world" where
  "outOfRange g h name i w =
     (case on_fl (fl_stage_stat (rg_fl g) name i) w of
        (Inl e, w1) \<Rightarrow> (fail h (stageErr e), w1)
      | (Inr s, w1) \<Rightarrow>
          (fail h (Oci (WithHeader (WithHeader (WithHeader
             (NewError 416 CodeBlobUploadInvalid (DText ''out of order chunk''))
             ''Location'' (uploadPath name i)) ''Range'' (rangeOf (si_Offset s))) ''Docker-Upload-UUID'' i)), w1))"

text \<open>Where the body is to go: the start its range names, or else where the session is.\<close>

datatype append_at = AtOffset int | AtCurrent | NotInRange

definition append_where :: "request \<Rightarrow> append_at" where
  "append_where r =
     (let v = header_get r ''Content-Range'' in
      if v = '''' then AtCurrent
      else
        (case parseContentRange v of
           None \<Rightarrow> NotInRange
         | Some (s, e) \<Rightarrow>
             if rq_ContentLength r \<ge> 0 \<and> rq_ContentLength r \<noteq> wrap64 (e - s + 1) then NotInRange else AtOffset s))"

definition append_at_offset :: "('x, 'f) registry \<Rightarrow> header \<Rightarrow> request \<Rightarrow> string \<Rightarrow> string \<Rightarrow> int \<Rightarrow> ('x, 'f) world \<Rightarrow>
    (response option + int) \<times> ('x, 'f) world" where
  "append_at_offset g h r name i expected w =
     (case on_fl (fl_append (rg_fl g) name i expected (rq_Body r)) w of
        (Inr offset, w1) \<Rightarrow> (Inr offset, w1)
      | (Inl e, w1) \<Rightarrow>
          if errors_is e (Flob OffsetMismatch) then (case outOfRange g h name i w1 of (a, w2) \<Rightarrow> (Inl a, w2))
          else (Inl (fail h (stageErr e)), w1))"

definition appendBody :: "('x, 'f) registry \<Rightarrow> header \<Rightarrow> request \<Rightarrow> string \<Rightarrow> string \<Rightarrow> ('x, 'f) world \<Rightarrow>
    (response option + int) \<times> ('x, 'f) world" where
  "appendBody g h r name i w =
     (case append_where r of
        NotInRange \<Rightarrow> (case outOfRange g h name i w of (a, w1) \<Rightarrow> (Inl a, w1))
      | AtOffset s \<Rightarrow> append_at_offset g h r name i s w
      | AtCurrent \<Rightarrow>
          (case active_stage g name i w of
             (Inl e, w1) \<Rightarrow> (Inl (fail h e), w1)
           | (Inr s, w1) \<Rightarrow> append_at_offset g h r name i (si_Offset s) w1))"

definition patchUpload :: "('x, 'f) registry \<Rightarrow> header \<Rightarrow> request \<Rightarrow> string \<Rightarrow> string \<Rightarrow> ('x, 'f) world \<Rightarrow> response option \<times> ('x, 'f) world" where
  "patchUpload g h r name i w =
     (case resume g name i w of
        (Inl e, w1) \<Rightarrow> (fail h e, w1)
      | (Inr _, w1) \<Rightarrow>
          (case appendBody g h r name i w1 of
             (Inl a, w2) \<Rightarrow> (a, w2)
           | (Inr offset, w2) \<Rightarrow> (Some (reply (session h name i offset) 202), w2)))"

definition rehash :: "('x, 'f) registry \<Rightarrow> string \<Rightarrow> string \<Rightarrow> digest \<Rightarrow> (('x, 'f) world, unit) op" where
  "rehash g name i d w =
     (case on_fl (fl_commit (rg_fl g) name i '''') w of
        (Inl e, w1) \<Rightarrow> (Inl e, w1)
      | (Inr (d0, n), w1) \<Rightarrow>
          (case on_fl (fl_open (rg_fl g) name d0) w1 of
             (Inl e, w2) \<Rightarrow> (Inl e, w2)
           | (Inr b, w2) \<Rightarrow>
               (case on_fl (fl_add (rg_fl g) name d n b) w2 of
                  (a, w3) \<Rightarrow> (case add_failed a of Some e \<Rightarrow> (Inl e, w3) | None \<Rightarrow> (Inr (), w3)))))"

text \<open>The commit, and the second try when the session hashes with another algorithm.\<close>

definition commit_upload :: "('x, 'f) registry \<Rightarrow> string \<Rightarrow> string \<Rightarrow> digest \<Rightarrow> (('x, 'f) world, unit) op" where
  "commit_upload g name i d w =
     (case on_fl (fl_commit (rg_fl g) name i d) w of
        (Inr _, w1) \<Rightarrow> (Inr (), w1)
      | (Inl e, w1) \<Rightarrow>
          if errors_is e (Flob DigestMismatch) then
            (case on_fl (fl_stage_stat (rg_fl g) name i) w1 of
               (Inl _, w2) \<Rightarrow> (Inl e, w2)
             | (Inr s, w2) \<Rightarrow>
                 if si_Active s \<and> si_Algorithm s \<noteq> dg_algorithm (rg_D g) d then rehash g name i d w2 else (Inl e, w2))
          else (Inl e, w1))"

definition putUpload :: "('x, 'f) registry \<Rightarrow> header \<Rightarrow> request \<Rightarrow> string \<Rightarrow> string \<Rightarrow> ('x, 'f) world \<Rightarrow> response option \<times> ('x, 'f) world" where
  "putUpload g h r name i w =
     (case ParseDigest (rg_D g) (query_get r ''digest'') of
        Inl e \<Rightarrow> (fail h (Oci (ErrDigestInvalid (DCause e))), w)
      | Inr d \<Rightarrow>
          (case resume g name i w of
             (Inl e, w1) \<Rightarrow> (fail h e, w1)
           | (Inr _, w1) \<Rightarrow>
               (case (if rq_ContentLength r \<noteq> 0 then appendBody g h r name i w1 else (Inr 0, w1)) of
                  (Inl a, w2) \<Rightarrow> (a, w2)
                | (Inr _, w2) \<Rightarrow>
                    (case commit_upload g name i d w2 of
                       (Inl e, w3) \<Rightarrow> (fail h (stageErr e), w3)
                     | (Inr _, w3) \<Rightarrow> (Some (created h name d), w3)))))"

definition cancelUpload :: "('x, 'f) registry \<Rightarrow> header \<Rightarrow> string \<Rightarrow> string \<Rightarrow> ('x, 'f) world \<Rightarrow> response option \<times> ('x, 'f) world" where
  "cancelUpload g h name i w =
     (case resume g name i w of
        (Inl e, w1) \<Rightarrow> (fail h e, w1)
      | (Inr _, w1) \<Rightarrow>
          (case on_fl (fl_abort (rg_fl g) name i) w1 of
             (Inl e, w2) \<Rightarrow> (fail h (stageErr e), w2)
           | (Inr _, w2) \<Rightarrow> (Some (reply h 204), w2)))"

end
