(* ===== verification/Registry_Lists.thy ===== *)
theory Registry_Lists
  imports Registry_Blobs
begin

text \<open>
  The lists a registry answers (\<open>registry/lists.go\<close>) and the search of the old API
  (\<open>registry/search.go\<close>): tags, the catalog, which holds only what the caller may pull and still
  gives a full page when there is one, and referrers.  The loops that read pages are partial
  functions; that they end is a property of the list they read.
\<close>

section \<open>Tags\<close>

definition strings_json :: "string list \<Rightarrow> json" where
  "strings_json ss = JArr (map JStr ss)"

definition page_given :: "page \<times> bool \<Rightarrow> bool" where
  "page_given pg = (case pg of (p, given) \<Rightarrow> \<not> given \<or> pg_N p > 0)"

text \<open>The header a page is answered with: a full page has a next one.\<close>

definition page_headers :: "string \<Rightarrow> page \<times> bool \<Rightarrow> string list \<Rightarrow> header \<Rightarrow> header" where
  "page_headers path pg vs h =
     (case pg of (p, given) \<Rightarrow>
        if given \<and> pg_N p > 0 \<and> int (length vs) = pg_N p then next_link path (pg_N p) (last vs) h else h)"

definition tags_of_page :: "('x, 'f) registry \<Rightarrow> string \<Rightarrow> page \<times> bool \<Rightarrow> (('x, 'f) world, string list) op" where
  "tags_of_page g name pg w =
     (if page_given pg then on_ix (ix_tag_list (rg_ix g) name (fst pg)) w else (Inr [], w))"

definition listTags :: "('x, 'f) registry \<Rightarrow> header \<Rightarrow> request \<Rightarrow> string \<Rightarrow> ('x, 'f) world \<Rightarrow> response option \<times> ('x, 'f) world" where
  "listTags g h r name w =
     (case on_ix (ix_repo_get (rg_ix g) name) w of
        (Inl e, w1) \<Rightarrow> (if errors_is e ErrNotFound then fail h (Oci (ErrNameUnknown (DText name))) else fail h e, w1)
      | (Inr _, w1) \<Rightarrow>
          (case tags_of_page g name (pageOf r) w1 of
             (Inl e, w2) \<Rightarrow> (fail h e, w2)
           | (Inr tags, w2) \<Rightarrow>
               (Some (reply_json (page_headers (''/v2/'' @ name @ ''/tags/list'') (pageOf r) tags h) r 200 ''application/json''
                  (JObj [(''name'', JStr name), (''tags'', strings_json tags)])), w2)))"

section \<open>The catalog\<close>

text \<open>What a page adds to what is answered, up to the number asked for.\<close>

fun catalog_take :: "(string \<Rightarrow> bool) \<Rightarrow> int option \<Rightarrow> string list \<Rightarrow> string list \<Rightarrow> string list" where
  "catalog_take can limit out [] = out"
| "catalog_take can limit out (v # vs) =
     (let out1 = (if can v then out @ [v] else out)
      in if limit = Some (int (length out1)) then out1 else catalog_take can limit out1 vs)"

partial_function (option) catalog_loop ::
  "(page \<Rightarrow> ('w, string list) op) \<Rightarrow> (string \<Rightarrow> bool) \<Rightarrow> int option \<Rightarrow> int \<Rightarrow> string \<Rightarrow> string list \<Rightarrow> 'w \<Rightarrow>
   ((error + string list) \<times> 'w) option" where
  "catalog_loop ls can limit batch after out w =
     (case ls \<lparr>pg_Last = after, pg_N = batch\<rparr> w of
        (Inl e, w1) \<Rightarrow> Some (Inl e, w1)
      | (Inr vs, w1) \<Rightarrow>
          (let out1 = catalog_take can limit out vs in
           if int (length vs) < batch \<or> limit = Some (int (length out1)) then Some (Inr out1, w1)
           else catalog_loop ls can limit batch (last vs) out1 w1))"

definition catalog_repos :: "(page \<Rightarrow> ('w, string list) op) \<Rightarrow> (string \<Rightarrow> bool) \<Rightarrow> page \<times> bool \<Rightarrow> 'w \<Rightarrow>
    ((error + string list) \<times> 'w) option" where
  "catalog_repos ls can pg w =
     (if page_given pg then
        catalog_loop ls can (if snd pg then Some (pg_N (fst pg)) else None) (max (pg_N (fst pg)) 100) (pg_Last (fst pg)) [] w
      else Some (Inr [], w))"

definition catalog :: "('x, 'f) registry \<Rightarrow> caller \<Rightarrow> header \<Rightarrow> request \<Rightarrow> ('x, 'f) world \<Rightarrow>
    (response option \<times> ('x, 'f) world) option" where
  "catalog g c h r w =
     (case catalog_repos (\<lambda>p. on_ix (ix_repo_list (rg_ix g) p)) (CanPull c) (pageOf r) w of
        None \<Rightarrow> None
      | Some (Inl e, w1) \<Rightarrow> Some (fail h e, w1)
      | Some (Inr repos, w1) \<Rightarrow>
          Some (Some (reply_json (page_headers ''/v2/_catalog'' (pageOf r) repos h) r 200 ''application/json''
            (JObj [(''repositories'', strings_json repos)])), w1))"

section \<open>Referrers\<close>

definition index_media_type :: string where
  "index_media_type = ''application/vnd.oci.image.index.v1+json''"

text \<open>The descriptors a list of referrers has for a manifest of the index, and for one of an upstream's.\<close>

definition listed_descriptor :: "string \<Rightarrow> string \<Rightarrow> digest \<Rightarrow> int \<Rightarrow> (string, string) gomap \<Rightarrow> descriptor" where
  "listed_descriptor mt at d n an =
     \<lparr>d_mediaType = mt, d_artifactType = at, d_digest = d, d_size = n, d_urls = [], d_annotations = an, d_platform = None\<rparr>"

definition manifest_descriptor :: "imanifest \<Rightarrow> descriptor" where
  "manifest_descriptor m =
     listed_descriptor (im_MediaType m) (im_ArtifactType m) (im_Digest m) (im_Size m) (im_Annotations m)"

definition upstream_descriptor :: "idescriptor \<Rightarrow> descriptor" where
  "upstream_descriptor v =
     listed_descriptor (id_MediaType v) (id_ArtifactType v) (id_Digest v) (id_Size v) (id_Annotations v)"

definition writeReferrers :: "('x, 'f) registry \<Rightarrow> header \<Rightarrow> request \<Rightarrow> descriptor list \<Rightarrow> string \<Rightarrow> response" where
  "writeReferrers g h r ds at =
     reply_bytes (if at \<noteq> '''' then hset ''OCI-Filters-Applied'' ''artifactType'' h else h) r 200 index_media_type
       (rg_EncodeIndex g ds)"

text \<open>What says how old an upstream's answer is.\<close>

definition age_headers :: "time \<Rightarrow> snapshot \<Rightarrow> bool \<Rightarrow> header \<Rightarrow> header" where
  "age_headers now s stale h =
     (let age = now - sn_CheckedAt s;
          h1 = (if age \<ge> Second then hset ''Age'' (itoa (age div Second)) h else h)
      in if stale then hset ''Cr-Stale'' ''true'' h1 else h1)"

definition proxiedReferrers :: "('x, 'f) registry \<Rightarrow> time \<Rightarrow> header \<Rightarrow> request \<Rightarrow> 'f proxy \<Rightarrow> string \<Rightarrow> digest \<Rightarrow> string \<Rightarrow>
    ('x, 'f) world \<Rightarrow> response option \<times> ('x, 'f) world" where
  "proxiedReferrers g now h r p name d at w =
     (case referrersThrough g now p name d w of
        (Inl e, w1) \<Rightarrow> (fail h e, w1)
      | (Inr (s, stale), w1) \<Rightarrow>
          if \<not> sn_Supported s then
            (fail h (Oci (NewError 404 CodeUnsupported (DText ''the upstream has no referrers API; use the tag schema''))), w1)
          else
            (Some (writeReferrers g (age_headers now s stale h) r
               (map upstream_descriptor (filter (\<lambda>v. at = '''' \<or> id_ArtifactType v = at) (sn_Descriptors s))) at), w1))"

definition referrers :: "('x, 'f) registry \<Rightarrow> time \<Rightarrow> header \<Rightarrow> request \<Rightarrow> string \<Rightarrow> string \<Rightarrow> ('x, 'f) world \<Rightarrow>
    response option \<times> ('x, 'f) world" where
  "referrers g now h r name arg w =
     (case ParseDigest (rg_D g) arg of
        Inl e \<Rightarrow> (fail h (Oci (ErrDigestInvalid (DCause e))), w)
      | Inr d \<Rightarrow>
          (let at = query_get r ''artifactType'' in
           case proxies_of (rg_Proxies g) name of
             Some p \<Rightarrow> proxiedReferrers g now h r p name d at w
           | None \<Rightarrow>
               (case on_ix (ix_referrers (rg_ix g) name d at) w of
                  (Inl e, w1) \<Rightarrow> (fail h e, w1)
                | (Inr ms, w1) \<Rightarrow> (Some (writeReferrers g h r (map manifest_descriptor ms) at), w1))))"

section \<open>Search\<close>

definition annotationDescription :: string where
  "annotationDescription = ''org.opencontainers.image.description''"

definition describe :: "'x index_ops \<Rightarrow> string \<Rightarrow> 'x \<Rightarrow> string \<times> 'x" where
  "describe ix name x =
     (case ix_tag_newest ix name x of
        (Inl e, x1) \<Rightarrow> ('''', x1)
      | (Inr t, x1) \<Rightarrow>
          (case ix_get ix name (tg_Digest t) x1 of
             (Inl e, x2) \<Rightarrow> ('''', x2)
           | (Inr m, x2) \<Rightarrow> (case map_of (im_Annotations m) annotationDescription of Some s \<Rightarrow> s | None \<Rightarrow> '''', x2)))"

text \<open>A result: the name and the description.\<close>

fun search_take :: "'x index_ops \<Rightarrow> (string \<Rightarrow> bool) \<Rightarrow> int \<Rightarrow> (string \<times> string) list \<Rightarrow> repo list \<Rightarrow> 'x \<Rightarrow>
    (string \<times> string) list \<times> 'x" where
  "search_take ix can n out [] x = (out, x)"
| "search_take ix can n out (v # vs) x =
     (if \<not> can (re_Name v) then search_take ix can n out vs x
      else
        (case (if re_Description v = '''' then describe ix (re_Name v) x else (re_Description v, x)) of
           (desc, x1) \<Rightarrow>
             (let out1 = out @ [(re_Name v, desc)]
              in if int (length out1) = n then (out1, x1) else search_take ix can n out1 vs x1)))"

partial_function (option) search_loop ::
  "'x index_ops \<Rightarrow> string \<Rightarrow> (string \<Rightarrow> bool) \<Rightarrow> int \<Rightarrow> int \<Rightarrow> string \<Rightarrow> (string \<times> string) list \<Rightarrow> 'x \<Rightarrow>
   ((error + (string \<times> string) list) \<times> 'x) option" where
  "search_loop ix q can n batch after out x =
     (if \<not> int (length out) < n then Some (Inr out, x)
      else
        (case ix_repo_search ix q \<lparr>pg_Last = after, pg_N = batch\<rparr> x of
           (Inl e, x1) \<Rightarrow> Some (Inl e, x1)
         | (Inr vs, x1) \<Rightarrow>
             (case search_take ix can n out vs x1 of
                (out1, x2) \<Rightarrow>
                  if int (length vs) < batch then Some (Inr out1, x2)
                  else search_loop ix q can n batch (re_Name (last vs)) out1 x2)))"

definition search_count :: "request \<Rightarrow> int" where
  "search_count r = (case atoi (query_get r ''n'') of Some v \<Rightarrow> min (max v 1) 100 | None \<Rightarrow> 25)"

definition search_json :: "string \<Rightarrow> int \<Rightarrow> (string \<times> string) list \<Rightarrow> json" where
  "search_json q n out =
     JObj [(''query'', JStr q), (''num_results'', JInt (int (length out))), (''num_pages'', JInt 1), (''page'', JInt 1),
       (''page_size'', JInt n),
       (''results'', JArr (map (\<lambda>(name, desc). JObj [(''name'', JStr name), (''description'', JStr desc),
          (''star_count'', JInt 0), (''is_official'', JBool False), (''is_automated'', JBool False)]) out))]"

definition search :: "('x, 'f) registry \<Rightarrow> caller \<Rightarrow> header \<Rightarrow> request \<Rightarrow> ('x, 'f) world \<Rightarrow>
    (response option \<times> ('x, 'f) world) option" where
  "search g c h r w =
     (let q = query_get r ''q''; n = search_count r in
      case search_loop (rg_ix g) q (CanPull c) n (max n 50) '''' [] (w_ix w) of
        None \<Rightarrow> None
      | Some (Inl e, x1) \<Rightarrow> Some (fail h e, w\<lparr>w_ix := x1\<rparr>)
      | Some (Inr out, x1) \<Rightarrow>
          Some (Some (reply_json h r 200 ''application/json'' (search_json q n out)), w\<lparr>w_ix := x1\<rparr>))"

text \<open>\<open>V1\<close>: the two endpoints of the old API.\<close>

definition V1 :: "('x, 'f) registry \<Rightarrow> time \<Rightarrow> header \<Rightarrow> request \<Rightarrow> ('x, 'f) world \<Rightarrow>
    (response option \<times> ('x, 'f) world) option" where
  "V1 g now h r w =
     (if rq_Path r = ''/v1/_ping'' then
        (if \<not> is_GET r then Some (fail h errMethod, w)
         else Some (Some (reply_json (hset ''X-Docker-Registry-Standalone'' ''true'' h) r 200 ''application/json''
           (JObj [(''standalone'', JBool True)])), w))
      else if rq_Path r = ''/v1/search'' then
        (case guard_check (rg_Guard g) now r '''' [ActionSearch] of
           Inl e \<Rightarrow> Some (fail h e, w)
         | Inr c \<Rightarrow> if is_GET r then search g c h r w else Some (fail h errMethod, w))
      else Some (fail h errNoRoute, w))"

end
