(* ===== verification/Registry_Serve.thy ===== *)
theory Registry_Serve
  imports Registry_Lists
begin

text \<open>
  The front door of \<open>/v2/\<close> (\<open>ServeHTTP\<close> of \<open>registry/registry.go\<close>): every request is routed, its
  repository named, checked and guarded before a handler sees it, and a pull-through cache takes
  no writes.
\<close>

section \<open>The handlers by route\<close>

text \<open>What a registry works on: the index and the store, and the verdicts remembered.\<close>

record ('x, 'f) server =
  sv_world :: "('x, 'f) world"
  sv_verdicts :: verdicts

definition on_world :: "(('x, 'f) world \<Rightarrow> response option \<times> ('x, 'f) world) \<Rightarrow> ('x, 'f) server \<Rightarrow>
    response option \<times> ('x, 'f) server" where
  "on_world f s = (case f (sv_world s) of (a, w) \<Rightarrow> (a, s\<lparr>sv_world := w\<rparr>))"

definition dispatch_blob :: "('x, 'f) registry \<Rightarrow> header \<Rightarrow> request \<Rightarrow> string \<Rightarrow> string \<Rightarrow> ('x, 'f) world \<Rightarrow>
    response option \<times> ('x, 'f) world" where
  "dispatch_blob g h r name arg w =
     (if is_GET r then getBlob g h r name arg w
      else if rq_Method r = ''DELETE'' then deleteBlob g h name arg w
      else (fail h errMethod, w))"

definition dispatch_upload :: "('x, 'f) registry \<Rightarrow> caller \<Rightarrow> header \<Rightarrow> request \<Rightarrow> string \<Rightarrow> string \<Rightarrow> ('x, 'f) world \<Rightarrow>
    response option \<times> ('x, 'f) world" where
  "dispatch_upload g c h r name arg w =
     (let m = rq_Method r in
      if arg = '''' then (if m \<noteq> ''POST'' then (fail h errMethod, w) else postUpload g c h r name w)
      else if m = ''GET'' then statUpload g h name arg w
      else if m = ''PATCH'' then patchUpload g h r name arg w
      else if m = ''PUT'' then putUpload g h r name arg w
      else if m = ''DELETE'' then cancelUpload g h name arg w
      else (fail h errMethod, w))"

definition dispatch_manifest :: "('x, 'f) registry \<Rightarrow> nat \<Rightarrow> time \<Rightarrow> caller \<Rightarrow> header \<Rightarrow> request \<Rightarrow> string \<Rightarrow> string \<Rightarrow>
    ('x, 'f) server \<Rightarrow> response option \<times> ('x, 'f) server" where
  "dispatch_manifest g n now c h r name arg s =
     (let m = rq_Method r in
      if is_GET r then
        (case getManifest g now h r name arg (sv_verdicts s) (sv_world s) of
           (a, vd, w) \<Rightarrow> (a, s\<lparr>sv_world := w, sv_verdicts := vd\<rparr>))
      else if m = ''PUT'' then on_world (putManifest g now c h r name arg) s
      else if m = ''DELETE'' then on_world (http_deleteManifest g n c h r name arg) s
      else (fail h errMethod, s))"

definition dispatch :: "('x, 'f) registry \<Rightarrow> nat \<Rightarrow> time \<Rightarrow> caller \<Rightarrow> header \<Rightarrow> request \<Rightarrow> string \<Rightarrow> route \<Rightarrow> string \<Rightarrow>
    ('x, 'f) server \<Rightarrow> response option \<times> ('x, 'f) server" where
  "dispatch g n now c h r name rt arg s =
     (case rt of
        routeBlob \<Rightarrow> on_world (dispatch_blob g h r name arg) s
      | routeUpload \<Rightarrow> on_world (dispatch_upload g c h r name arg) s
      | routeManifest \<Rightarrow> dispatch_manifest g n now c h r name arg s
      | routeTags \<Rightarrow> on_world (\<lambda>w. only (\<lambda>h w. listTags g h r name w) h r w) s
      | routeReferrers \<Rightarrow> on_world (\<lambda>w. only (\<lambda>h w. referrers g now h r name arg w) h r w) s
      | routeNone \<Rightarrow> (None, s))"

section \<open>Serving\<close>

definition api_header :: header where
  "api_header = [(''Docker-Distribution-API-Version'', ''registry/2.0'')]"

text \<open>The base endpoint: a request with no credential is challenged, whatever the policy.\<close>

definition serve_base :: "('x, 'f) registry \<Rightarrow> time \<Rightarrow> header \<Rightarrow> request \<Rightarrow> response option" where
  "serve_base g now h r =
     (case rg_Guard g of
        Some gd \<Rightarrow>
          if \<not> Presented gd r then fail h (Oci (Challenge gd r [] False))
          else (case guard_check (rg_Guard g) now r '''' [] of Inl e \<Rightarrow> fail h e | Inr c \<Rightarrow> base_answer h r)
      | None \<Rightarrow> base_answer h r)"

text \<open>
  What stands between a request to a repository and its handler: the answer to one that does not
  come through, or the caller it is from.  A method the route does not have is for the handler
  to refuse.
\<close>

definition admission :: "('x, 'f) registry \<Rightarrow> time \<Rightarrow> header \<Rightarrow> request \<Rightarrow> string \<Rightarrow> route \<Rightarrow> string \<Rightarrow> response option + caller" where
  "admission g now h r name rt arg =
     (if \<not> ValidName name then Inl (fail h (Oci (ErrNameInvalid (DText name))))
      else
        (case (case need rt (rq_Method r) arg of
                 Some want \<Rightarrow> guard_check (rg_Guard g) now r name want
               | None \<Rightarrow> Inr Open) of
           Inl e \<Rightarrow> Inl (fail h e)
         | Inr c \<Rightarrow>
             (case proxies_of (rg_Proxies g) name of
                Some p \<Rightarrow>
                  if writes rt (rq_Method r) then
                    Inl (fail h (Oci (ErrUnsupported (DText (''the repository is a pull-through cache of '' @ px_Upstream p)))))
                  else Inr c
              | None \<Rightarrow> Inr c)))"

definition serve_repo :: "('x, 'f) registry \<Rightarrow> nat \<Rightarrow> time \<Rightarrow> header \<Rightarrow> request \<Rightarrow> string \<Rightarrow> ('x, 'f) server \<Rightarrow>
    response option \<times> ('x, 'f) server" where
  "serve_repo g n now h r rest s =
     (case parse rest of (name0, rt, arg) \<Rightarrow>
        if rt = routeNone then (fail h errNoRoute, s)
        else
          (let ns = query_get r ''ns'' in
           case named (rg_Proxies g) name0 ns (rq_Host r) of
             (name, ok) \<Rightarrow>
               if \<not> ok then (fail h (Oci (ErrNameUnknown (DText (''this registry caches no '' @ ns)))), s)
               else
                 (case admission g now h r name rt arg of
                    Inl a \<Rightarrow> (a, s)
                  | Inr c \<Rightarrow> dispatch g n now c h r name rt arg s)))"

text \<open>\<open>n\<close> bounds how deep a delete follows indexes in indexes.\<close>

definition ServeHTTP :: "('x, 'f) registry \<Rightarrow> nat \<Rightarrow> time \<Rightarrow> request \<Rightarrow> ('x, 'f) server \<Rightarrow>
    (response option \<times> ('x, 'f) server) option" where
  "ServeHTTP g n now r s =
     (let h = api_header; p = rq_Path r in
      if p = ''/v2'' \<or> p = ''/v2/'' then Some (serve_base g now h r, s)
      else
        (case cut_prefix p ''/v2/'' of
           None \<Rightarrow> Some (fail h errNoRoute, s)
         | Some rest \<Rightarrow>
             if rest = ''_catalog'' then
               (case guard_check (rg_Guard g) now r '''' [ActionCatalog] of
                  Inl e \<Rightarrow> Some (fail h e, s)
                | Inr c \<Rightarrow>
                    if is_GET r then
                      map_option (\<lambda>(a, w). (a, s\<lparr>sv_world := w\<rparr>)) (catalog g c h r (sv_world s))
                    else Some (fail h errMethod, s))
             else Some (serve_repo g n now h r rest s)))"

end
