(* ===== verification/Registry_Keeps.thy ===== *)
theory Registry_Keeps
  imports Registry_Serve
begin

text \<open>
  What every handler of the registry keeps, proved once over the laws of an index: each manifest
  in the index has its bytes in the store, and the store loses nothing on the way.  A handler is
  a cascade of calls and case distinctions; \<open>after I\<close> says that a step leaves the state it
  answers in \<open>I\<close>, and \<open>keep_steps\<close> are the rules that take a handler apart.
\<close>

section \<open>Steps\<close>

definition after :: "('w \<Rightarrow> bool) \<Rightarrow> 'a \<times> 'w \<Rightarrow> bool" where
  "after I p = I (snd p)"

lemma after_pair [simp]: "after I (a, w) = I w"
  by (simp add: after_def)

lemma after_case:
  "after I p \<Longrightarrow> (\<And>a w. I w \<Longrightarrow> after J (c a w)) \<Longrightarrow> after J (case_prod c p)"
  by (cases p) simp

lemma after_splits:
  "(\<And>e. s = Inl e \<Longrightarrow> after I (l e)) \<Longrightarrow> (\<And>x. s = Inr x \<Longrightarrow> after I (r x)) \<Longrightarrow> after I (case_sum l r s)"
  "(q = None \<Longrightarrow> after I n) \<Longrightarrow> (\<And>x. q = Some x \<Longrightarrow> after I (m x)) \<Longrightarrow> after I (case_option n m q)"
  "(xs = [] \<Longrightarrow> after I n') \<Longrightarrow> (\<And>y ys. xs = y # ys \<Longrightarrow> after I (k y ys)) \<Longrightarrow> after I (case_list n' k xs)"
  "(b \<Longrightarrow> after I p1) \<Longrightarrow> (\<not> b \<Longrightarrow> after I p2) \<Longrightarrow> after I (case_bool p1 p2 b)"
  "(b \<Longrightarrow> after I p1) \<Longrightarrow> (\<not> b \<Longrightarrow> after I p2) \<Longrightarrow> after I (if b then p1 else p2)"
  "(\<And>y. after I (f y)) \<Longrightarrow> after I (let y = z in f y)"
  "(\<And>a b. after I (g a b)) \<Longrightarrow> after I (case_prod g ab)"
  by (cases s; cases q; cases xs; cases b; cases ab; simp)+

lemma after_splits':
  "(\<And>x. u = BadSignature x \<Longrightarrow> after I (f1 x)) \<Longrightarrow> (\<And>e. u = NotRead e \<Longrightarrow> after I (f2 e)) \<Longrightarrow>
     after I (case_no_envelope f1 f2 u)"
  "(\<And>e. v = EvictFail e \<Longrightarrow> after I (g1 e)) \<Longrightarrow> (v = EvictSkip \<Longrightarrow> after I g2) \<Longrightarrow>
     (\<And>x y. v = Evicted x y \<Longrightarrow> after I (g3 x y)) \<Longrightarrow> after I (case_evicting g1 g2 g3 v)"
  "(z = EvictDone \<Longrightarrow> after I h1) \<Longrightarrow> (\<And>e. z = EvictFailed e \<Longrightarrow> after I (h2 e)) \<Longrightarrow>
     (z = EvictStarved \<Longrightarrow> after I h3) \<Longrightarrow> after I (case_evict_end h1 h2 h3 z)"
  "(\<And>x. y = AtOffset x \<Longrightarrow> after I (k1 x)) \<Longrightarrow> (y = AtCurrent \<Longrightarrow> after I k2) \<Longrightarrow>
     (y = NotInRange \<Longrightarrow> after I k3) \<Longrightarrow> after I (case_append_at k1 k2 k3 y)"
  "(i = 0 \<Longrightarrow> after I n1) \<Longrightarrow> (\<And>j. i = Suc j \<Longrightarrow> after I (n2 j)) \<Longrightarrow> after I (case_nat n1 n2 i)"
  by (cases u; cases v; cases z; cases y; cases i; simp)+

section \<open>The invariant\<close>

definition stored :: "('f \<Rightarrow> string \<Rightarrow> digest \<Rightarrow> string option) \<Rightarrow> rows \<Rightarrow> 'f \<Rightarrow> bool" where
  "stored has v f = (\<forall>repo d. indexed v repo d \<longrightarrow> has f repo d \<noteq> None)"

text \<open>An upstream is asked over the network, and what it answers is not in the store.\<close>

definition upstream_law :: "('f \<Rightarrow> string \<Rightarrow> digest \<Rightarrow> string option) \<Rightarrow> 'f proxy \<Rightarrow> bool" where
  "upstream_law has p =
     ((\<forall>n t. store_grows has (px_Head p n t)) \<and> (\<forall>n t m. store_grows has (px_Get p n t m)) \<and>
      (\<forall>n d m. store_grows has (px_Referrers p n d m)))"

definition lawful :: "('x, 'f) registry \<Rightarrow> ('f \<Rightarrow> string \<Rightarrow> digest \<Rightarrow> string option) \<Rightarrow> bool" where
  "lawful g has = (store_law (rg_fl g) has \<and> (\<forall>p \<in> set (rg_Proxies g). upstream_law has p))"

text \<open>Nothing comes to be referred to.\<close>

definition refers_less :: "rows \<Rightarrow> rows \<Rightarrow> bool" where
  "refers_less v v' = (\<forall>repo d. indexed v' repo d \<longrightarrow> indexed v repo d)"

lemma stored_grows: "stored has v f \<Longrightarrow> grows has f f' \<Longrightarrow> stored has v f'"
  unfolding stored_def using grows_there by metis

lemma stored_less: "stored has v f \<Longrightarrow> refers_less v v' \<Longrightarrow> stored has v' f"
  by (auto simp: stored_def refers_less_def)

lemma refers_less_refl [simp]: "refers_less v v"
  by (simp add: refers_less_def)

lemma refers_less_specs:
  "get_spec n d v r1 v' \<Longrightarrow> refers_less v v'"
  "holds_spec n d v r2 v' \<Longrightarrow> refers_less v v'"
  "holders_spec n d v r3 v' \<Longrightarrow> refers_less v v'"
  "tag_get_spec n m v r4 v' \<Longrightarrow> refers_less v v'"
  "tag_set_spec n m d d' v r5 v' \<Longrightarrow> refers_less v v'"
  "tag_erase_spec n m v r6 v' \<Longrightarrow> refers_less v v'"
  "tag_check_spec n m d v r7 v' \<Longrightarrow> refers_less v v'"
  "tag_of_spec n d v r8 v' \<Longrightarrow> refers_less v v'"
  "tag_list_spec n p v r9 v' \<Longrightarrow> refers_less v v'"
  "tag_newest_spec n v r10 v' \<Longrightarrow> refers_less v v'"
  "referrers_spec n d m v r12 v' \<Longrightarrow> refers_less v v'"
  "snap_get_spec n d v r13 v' \<Longrightarrow> refers_less v v'"
  "snap_put_spec n s v r14 v' \<Longrightarrow> refers_less v v'"
  "ensure_spec n v r15 v' \<Longrightarrow> refers_less v v'"
  "repo_get_spec n v r16 v' \<Longrightarrow> refers_less v v'"
  "repo_list_spec p v r17 v' \<Longrightarrow> refers_less v v'"
  "repo_search_spec m p v r18 v' \<Longrightarrow> refers_less v v'"
  by (auto simp: get_spec_def holds_spec_def holders_spec_def tag_get_spec_def tag_set_spec_def tag_erase_spec_def
      tag_check_spec_def tag_of_spec_def tag_list_spec_def tag_newest_spec_def referrers_spec_def snap_get_spec_def
      snap_put_spec_def ensure_spec_def repo_get_spec_def repo_list_spec_def repo_search_spec_def
      refers_less_def indexed_def split: sum.splits)

lemma refers_less_erase: "erase_spec n d v r v' \<Longrightarrow> refers_less v v'"
  by (cases r) (auto simp: erase_spec_def refers_less_def indexed_def split: if_splits)

lemma put_indexed:
  "put_spec name m hs v r v' \<Longrightarrow> indexed v' n d \<Longrightarrow> indexed v n d \<or> n = name \<and> d = im_Digest m"
  by (auto simp: put_spec_def indexed_def split: sum.splits if_splits)

lemma proxies_of_mem: "proxies_of ps repo = Some p \<Longrightarrow> p \<in> set ps"
  by (auto simp: proxies_of_def find_Some_iff)

context index_laws
begin

text \<open>
  The state of a handler: outside a transaction, or in one that began with the rows \<open>O\<close>; and
  the store has all that it had in \<open>F\<close>.
\<close>

definition kept :: "('x, 'f) registry \<Rightarrow> ('f \<Rightarrow> string \<Rightarrow> digest \<Rightarrow> string option) \<Rightarrow> rows option \<Rightarrow> 'f \<Rightarrow> 'f \<Rightarrow> 'x \<Rightarrow> bool" where
  "kept g has t F f x =
     (rg_ix g = ix \<and> lawful g has \<and> good x \<and> grows has F f \<and> stored has (seen x) f \<and>
      (case t of None \<Rightarrow> \<not> intx x | Some v \<Rightarrow> intx x \<and> outer x = v \<and> stored has v f))"

definition keptw :: "('x, 'f) registry \<Rightarrow> ('f \<Rightarrow> string \<Rightarrow> digest \<Rightarrow> string option) \<Rightarrow> rows option \<Rightarrow> 'f \<Rightarrow> ('x, 'f) world \<Rightarrow> bool" where
  "keptw g has t F w = kept g has t F (w_fl w) (w_ix w)"

lemma kept_op:
  assumes "kept g has t F f x" "op_ok good seen outer intx Q h" "\<And>v r v'. Q v r v' \<Longrightarrow> refers_less v v'"
  shows "after (kept g has t F f) (h x)"
proof -
  obtain r x' where h: "h x = (r, x')" by force
  from opD [OF assms(2) _ h] assms(1)
  have x': "good x'" "intx x' = intx x" "outer x' = (if intx x then outer x else seen x')" "Q (seen x) r (seen x')"
    by (auto simp: kept_def)
  from stored_less [OF _ assms(3) [OF x'(4)]] assms(1) have "stored has (seen x') f" by (auto simp: kept_def)
  with x' assms(1) show ?thesis by (auto simp: kept_def h split: option.splits)
qed

lemma keptw_ix:
  assumes "keptw g has t F w" "\<And>x. kept g has t F (w_fl w) x \<Longrightarrow> after (kept g has t F (w_fl w)) (h x)"
  shows "after (keptw g has t F) (on_ix h w)"
  using assms(2) [of "w_ix w"] assms(1) by (auto simp: keptw_def on_ix_def split: prod.splits)

lemma kept_fl:
  assumes "kept g has t F f x" "grows has f f'"
  shows "kept g has t F f' x"
  using assms by (auto simp: kept_def intro: grows_trans stored_grows split: option.splits)

lemma keptw_fl:
  assumes "keptw g has t F w" "store_grows has h"
  shows "after (keptw g has t F) (on_fl h w)"
  using assms kept_fl [of g has t F "w_fl w" "w_ix w"]
  by (auto simp: keptw_def on_fl_def store_grows_def split: prod.splits)

lemma keptw_lawful: "keptw g has t F w \<Longrightarrow> lawful g has"
  by (simp add: keptw_def kept_def)

section \<open>The calls\<close>

lemma kept_calls:
  assumes "kept g has t F f x"
  shows "after (kept g has t F f) (ix_get (rg_ix g) name d x)"
    "after (kept g has t F f) (ix_holds (rg_ix g) name d x)"
    "after (kept g has t F f) (ix_holders (rg_ix g) name d x)"
    "after (kept g has t F f) (ix_tag_get (rg_ix g) name n x)"
    "after (kept g has t F f) (ix_tag_set (rg_ix g) name n d from x)"
    "after (kept g has t F f) (ix_tag_erase (rg_ix g) name n x)"
    "after (kept g has t F f) (ix_tag_check (rg_ix g) name n d at x)"
    "after (kept g has t F f) (ix_tag_of (rg_ix g) name d x)"
    "after (kept g has t F f) (ix_tag_list (rg_ix g) name p x)"
    "after (kept g has t F f) (ix_tag_newest (rg_ix g) name x)"
    "after (kept g has t F f) (ix_erase (rg_ix g) name d x)"
    "after (kept g has t F f) (ix_referrers (rg_ix g) name d n x)"
    "after (kept g has t F f) (ix_snap_get (rg_ix g) name d x)"
    "after (kept g has t F f) (ix_snap_put (rg_ix g) name s x)"
    "after (kept g has t F f) (ix_repo_ensure (rg_ix g) name x)"
    "after (kept g has t F f) (ix_repo_get (rg_ix g) name x)"
    "after (kept g has t F f) (ix_repo_list (rg_ix g) p x)"
    "after (kept g has t F f) (ix_repo_search (rg_ix g) n p x)"
proof -
  have ixg: "rg_ix g = ix" using assms by (simp add: kept_def)
  note rules =
    kept_op [OF assms get_law refers_less_specs(1)]
    kept_op [OF assms holds_law refers_less_specs(2)]
    kept_op [OF assms holders_law refers_less_specs(3)]
    kept_op [OF assms tag_get_law refers_less_specs(4)]
    kept_op [OF assms tag_set_law refers_less_specs(5)]
    kept_op [OF assms tag_erase_law refers_less_specs(6)]
    kept_op [OF assms tag_check_law refers_less_specs(7)]
    kept_op [OF assms tag_of_law refers_less_specs(8)]
    kept_op [OF assms tag_list_law refers_less_specs(9)]
    kept_op [OF assms tag_newest_law refers_less_specs(10)]
    kept_op [OF assms erase_law refers_less_erase]
    kept_op [OF assms referrers_law refers_less_specs(11)]
    kept_op [OF assms snap_get_law refers_less_specs(12)]
    kept_op [OF assms snap_put_law refers_less_specs(13)]
    kept_op [OF assms ensure_law refers_less_specs(14)]
    kept_op [OF assms repo_get_law refers_less_specs(15)]
    kept_op [OF assms repo_list_law refers_less_specs(16)]
    kept_op [OF assms repo_search_law refers_less_specs(17)]
  show "after (kept g has t F f) (ix_get (rg_ix g) name d x)"
    "after (kept g has t F f) (ix_holds (rg_ix g) name d x)"
    "after (kept g has t F f) (ix_holders (rg_ix g) name d x)"
    "after (kept g has t F f) (ix_tag_get (rg_ix g) name n x)"
    "after (kept g has t F f) (ix_tag_set (rg_ix g) name n d from x)"
    "after (kept g has t F f) (ix_tag_erase (rg_ix g) name n x)"
    "after (kept g has t F f) (ix_tag_check (rg_ix g) name n d at x)"
    "after (kept g has t F f) (ix_tag_of (rg_ix g) name d x)"
    "after (kept g has t F f) (ix_tag_list (rg_ix g) name p x)"
    "after (kept g has t F f) (ix_tag_newest (rg_ix g) name x)"
    "after (kept g has t F f) (ix_erase (rg_ix g) name d x)"
    "after (kept g has t F f) (ix_referrers (rg_ix g) name d n x)"
    "after (kept g has t F f) (ix_snap_get (rg_ix g) name d x)"
    "after (kept g has t F f) (ix_snap_put (rg_ix g) name s x)"
    "after (kept g has t F f) (ix_repo_ensure (rg_ix g) name x)"
    "after (kept g has t F f) (ix_repo_get (rg_ix g) name x)"
    "after (kept g has t F f) (ix_repo_list (rg_ix g) p x)"
    "after (kept g has t F f) (ix_repo_search (rg_ix g) n p x)"
    unfolding ixg
    by (rule rules, assumption)+
qed

lemma kept_touch:
  assumes "keptw g has None F w"
  shows "keptw g has None F (touch g name n d now w)"
proof -
  have i: "stored has v' fs" if "same_but_pulled v v'" "stored has v fs" for v v' fs
  proof -
    have "indexed v' r d = indexed v r d" for r d
    proof -
      have "map_option (\<lambda>e. e\<lparr>en_m := (en_m e)\<lparr>im_PulledAt := 0\<rparr>\<rparr>) (ro_manifests v' r d) =
          map_option (\<lambda>e. e\<lparr>en_m := (en_m e)\<lparr>im_PulledAt := 0\<rparr>\<rparr>) (ro_manifests v r d)"
        using that(1) unfolding same_but_pulled_def by blast
      then show ?thesis
        by (cases "ro_manifests v' r d"; cases "ro_manifests v r d") (simp_all add: indexed_def)
    qed
    with that(2) show ?thesis by (simp add: stored_def)
  qed
  have k: "good (w_ix w)" "\<not> intx (w_ix w)" "rg_ix g = ix" using assms by (auto simp: keptw_def kept_def)
  from touch_law [OF k(1), of name n d now] k(2)
  have x: "good (ix_touch ix name n d now (w_ix w))" "\<not> intx (ix_touch ix name n d now (w_ix w))"
    "same_but_pulled (seen (w_ix w)) (seen (ix_touch ix name n d now (w_ix w)))" by simp_all
  show ?thesis
    using assms x i [OF x(3), of "w_fl w"] by (simp add: keptw_def kept_def touch_def k(3))
qed

section \<open>Transactions\<close>

lemma kept_put:
  assumes "kept g has t F f x" "has F name (im_Digest m) \<noteq> None"
  shows "after (kept g has t F f) (ix_put (rg_ix g) name m hs x)"
proof -
  have k: "rg_ix g = ix" "good x" "stored has (seen x) f" "has f name (im_Digest m) \<noteq> None"
    using assms grows_there [of has F f name "im_Digest m"] by (auto simp: kept_def)
  obtain r x' where p: "ix_put ix name m hs x = (r, x')" by force
  from opD [OF put_law k(2) p]
  have x': "good x'" "intx x' = intx x" "outer x' = (if intx x then outer x else seen x')"
    "put_spec name m hs (seen x) r (seen x')" by auto
  have "stored has (seen x') f" using put_indexed [OF x'(4)] k(3,4) unfolding stored_def by blast
  with assms(1) x' show ?thesis by (auto simp: kept_def k(1) p split: option.splits)
qed

lemma kept_Tx:
  assumes w: "keptw g has None F w"
    and fn: "\<And>w1. keptw g has (Some (seen (w_ix w))) (w_fl w) w1 \<Longrightarrow>
      after (keptw g has (Some (seen (w_ix w))) (w_fl w)) (fn w1)"
  shows "after (keptw g has None F) (world_tx g name fn w)"
proof -
  have k: "rg_ix g = ix" "lawful g has" "good (w_ix w)" "\<not> intx (w_ix w)" "grows has F (w_fl w)"
    "stored has (seen (w_ix w)) (w_fl w)" using w by (auto simp: keptw_def kept_def)
  obtain r x1 where b: "ix_begin ix name (w_ix w) = (r, x1)" by force
  from begin_law [OF k(3,4) b] seen_outer [OF k(3,4)]
  have x1: "good x1" "outer x1 = seen (w_ix w)" "seen x1 = seen (w_ix w)" "intx x1 = is_ok r" by auto
  show ?thesis
  proof (cases r)
    case (Inl e)
    with b k x1 show ?thesis by (simp add: world_tx_def Tx_def keptw_def kept_def)
  next
    case (Inr u)
    obtain r2 w2 where f: "fn (w\<lparr>w_ix := x1\<rparr>) = (r2, w2)" by force
    have "keptw g has (Some (seen (w_ix w))) (w_fl w) (w\<lparr>w_ix := x1\<rparr>)"
      using k x1 Inr by (simp add: keptw_def kept_def)
    from fn [OF this] f have w2: "good (w_ix w2)" "intx (w_ix w2)" "outer (w_ix w2) = seen (w_ix w)"
      "grows has (w_fl w) (w_fl w2)" "stored has (seen (w_ix w2)) (w_fl w2)" "stored has (seen (w_ix w)) (w_fl w2)"
      by (auto simp: keptw_def kept_def)
    have F: "grows has F (w_fl w2)" using k(5) w2(4) by (rule grows_trans)
    show ?thesis
    proof (cases r2)
      case r2: (Inl e)
      from abort_law [OF w2(1,2), of name] w2(3) seen_outer
      have "seen (ix_abort ix name (w_ix w2)) = seen (w_ix w)" by metis
      with abort_law [OF w2(1,2), of name] b k w2 F f Inr r2 show ?thesis
        by (simp add: world_tx_def Tx_def keptw_def kept_def)
    next
      case r2: (Inr y)
      obtain r3 x3 where c: "ix_commit ix name (w_ix w2) = (r3, x3)" by force
      from commit_law [OF w2(1,2) c] w2(3) seen_outer
      have "seen x3 = (if is_ok r3 then seen (w_ix w2) else seen (w_ix w))" by metis
      with commit_law [OF w2(1,2) c] b k w2 F f Inr r2 c show ?thesis
        by (cases r3) (simp_all add: world_tx_def Tx_def keptw_def kept_def)
    qed
  qed
qed

lemma on_ix_tx: "on_ix (ix_tx (rg_ix g) name fn) w = world_tx g name (on_ix fn) w"
  by (auto simp: on_ix_def ix_tx_def world_tx_def Tx_def split: prod.splits sum.splits)

lemma kept_ix_Tx:
  assumes w: "keptw g has None F w"
    and fn: "\<And>f x. kept g has (Some (seen (w_ix w))) (w_fl w) f x \<Longrightarrow>
      after (kept g has (Some (seen (w_ix w))) (w_fl w) f) (fn x)"
  shows "after (keptw g has None F) (on_ix (ix_tx (rg_ix g) name fn) w)"
  unfolding on_ix_tx by (rule kept_Tx [OF w], erule keptw_ix, rule fn)

section \<open>The store and the upstreams\<close>

lemma keptw_calls:
  assumes "keptw g has t F w"
  shows "after (keptw g has t F) (on_fl (fl_stat (rg_fl g) n d) w)"
    "after (keptw g has t F) (on_fl (fl_size (rg_fl g) n d) w)"
    "after (keptw g has t F) (on_fl (fl_open (rg_fl g) n d) w)"
    "after (keptw g has t F) (on_fl (fl_add (rg_fl g) n d k b) w)"
    "after (keptw g has t F) (on_fl (fl_link (rg_fl g) n d m) w)"
    "after (keptw g has t F) (on_fl (fl_presign (rg_fl g) n d k) w)"
    "after (keptw g has t F) (on_fl (fl_begin (rg_fl g) n m) w)"
    "after (keptw g has t F) (on_fl (fl_resume (rg_fl g) n m) w)"
    "after (keptw g has t F) (on_fl (fl_stage_stat (rg_fl g) n m) w)"
    "after (keptw g has t F) (on_fl (fl_abort (rg_fl g) n m) w)"
    "after (keptw g has t F) (on_fl (fl_append (rg_fl g) n m k c) w)"
    "after (keptw g has t F) (on_fl (fl_commit (rg_fl g) n m d) w)"
proof -
  have "store_law (rg_fl g) has" using keptw_lawful [OF assms] by (simp add: lawful_def)
  then have s: "store_grows has (fl_stat (rg_fl g) n d)" "store_grows has (fl_size (rg_fl g) n d)"
    "store_grows has (fl_open (rg_fl g) n d)" "store_grows has (fl_add (rg_fl g) n d k b)"
    "store_grows has (fl_link (rg_fl g) n d m)" "store_grows has (fl_presign (rg_fl g) n d k)"
    "store_grows has (fl_begin (rg_fl g) n m)" "store_grows has (fl_resume (rg_fl g) n m)"
    "store_grows has (fl_stage_stat (rg_fl g) n m)" "store_grows has (fl_abort (rg_fl g) n m)"
    "store_grows has (fl_append (rg_fl g) n m k c)" "store_grows has (fl_commit (rg_fl g) n m d)"
    by (simp_all add: store_law_def add_grows stat_ok_def store_reads_grows)
  show "after (keptw g has t F) (on_fl (fl_stat (rg_fl g) n d) w)"
    "after (keptw g has t F) (on_fl (fl_size (rg_fl g) n d) w)"
    "after (keptw g has t F) (on_fl (fl_open (rg_fl g) n d) w)"
    "after (keptw g has t F) (on_fl (fl_add (rg_fl g) n d k b) w)"
    "after (keptw g has t F) (on_fl (fl_link (rg_fl g) n d m) w)"
    "after (keptw g has t F) (on_fl (fl_presign (rg_fl g) n d k) w)"
    "after (keptw g has t F) (on_fl (fl_begin (rg_fl g) n m) w)"
    "after (keptw g has t F) (on_fl (fl_resume (rg_fl g) n m) w)"
    "after (keptw g has t F) (on_fl (fl_stage_stat (rg_fl g) n m) w)"
    "after (keptw g has t F) (on_fl (fl_abort (rg_fl g) n m) w)"
    "after (keptw g has t F) (on_fl (fl_append (rg_fl g) n m k c) w)"
    "after (keptw g has t F) (on_fl (fl_commit (rg_fl g) n m d) w)"
    by (rule s [THEN keptw_fl [OF assms]])+
qed

lemma keptw_upstream:
  assumes "keptw g has t F w" "proxies_of (rg_Proxies g) name = Some p"
  shows "after (keptw g has t F) (on_fl (px_Head p n m) w)"
    "after (keptw g has t F) (on_fl (px_Get p n m k) w)"
    "after (keptw g has t F) (on_fl (px_Referrers p n d k) w)"
proof -
  have "upstream_law has p"
    using keptw_lawful [OF assms(1)] proxies_of_mem [OF assms(2)] by (simp add: lawful_def)
  then have s: "store_grows has (px_Head p n m)" "store_grows has (px_Get p n m k)" "store_grows has (px_Referrers p n d k)"
    by (simp_all add: upstream_law_def)
  show "after (keptw g has t F) (on_fl (px_Head p n m) w)"
    "after (keptw g has t F) (on_fl (px_Get p n m k) w)"
    "after (keptw g has t F) (on_fl (px_Referrers p n d k) w)"
    by (rule s [THEN keptw_fl [OF assms(1)]])+
qed

text \<open>An \<open>Add\<close> that did not fail has brought the bytes in.\<close>

lemma keptw_add:
  assumes "keptw g has t F w" "on_fl (fl_add (rg_fl g) name d n b) w = (a, w1)"
  shows "keptw g has t F w1" and "add_failed a = None \<Longrightarrow> has (w_fl w1) name d \<noteq> None"
proof -
  show "keptw g has t F w1" using keptw_calls(4) [OF assms(1)] assms(2) by (metis after_pair)
  have "add_ok (rg_fl g) has" using keptw_lawful [OF assms(1)] by (simp add: lawful_def store_law_def)
  moreover obtain f where f: "fl_add (rg_fl g) name d n b (w_fl w) = (a, f)" "w1 = w\<lparr>w_fl := f\<rparr>"
    using assms(2) by (rule on_fl_cases)
  ultimately have "is_ok a \<or> (\<exists>e. a = Inl e \<and> errors_is e (Flob AlreadyExists)) \<longrightarrow> has f name d \<noteq> None"
    unfolding add_ok_def by blast
  then have "is_ok a \<or> (\<exists>e. a = Inl e \<and> errors_is e (Flob AlreadyExists)) \<Longrightarrow> has (w_fl w1) name d \<noteq> None"
    by (simp add: f(2))
  then show "add_failed a = None \<Longrightarrow> has (w_fl w1) name d \<noteq> None"
    by (auto simp: add_failed_def split: sum.splits if_splits)
qed

section \<open>The rules together\<close>

lemma kept_bind:
  "after (kept g has t F f) p \<Longrightarrow> (\<And>a x. kept g has t F f x \<Longrightarrow> after (kept g has t F f) (c a x)) \<Longrightarrow>
     after (kept g has t F f) (case_prod c p)"
  by (rule after_case)

lemma keptw_bind:
  "after (keptw g has t F) p \<Longrightarrow> (\<And>a w. keptw g has t F w \<Longrightarrow> after (keptw g has t F) (c a w)) \<Longrightarrow>
     after (keptw g has t F) (case_prod c p)"
  by (rule after_case)

lemma keptw_bind':
  fixes p :: "'a \<times> ('x, 'f) world" and q :: "'b \<times> 'e \<times> ('x, 'f) world"
  shows "after (keptw g has t F) p \<Longrightarrow> (\<And>a w. keptw g has t F w \<Longrightarrow> after (after (keptw g has t F)) (c a w)) \<Longrightarrow>
     after (after (keptw g has t F)) (case_prod c p)"
    and "after (after (keptw g has t F)) q \<Longrightarrow>
     (\<And>a y. after (keptw g has t F) y \<Longrightarrow> after (after (keptw g has t F)) (k a y)) \<Longrightarrow>
     after (after (keptw g has t F)) (case_prod k q)"
  by (erule after_case, blast)+

lemma after_pairI: "I w \<Longrightarrow> after I (a, w)"
  by simp

lemmas keep_steps = after_pairI kept_bind keptw_bind keptw_bind' after_splits(1-6) after_splits'
lemmas keep_calls = kept_calls keptw_calls keptw_upstream kept_ix_Tx keptw_ix

section \<open>Pull-through caches\<close>

lemma fetch_body_keeps:
  assumes "kept g has t F f x" "has F name (im_Digest m) \<noteq> None"
  shows "after (kept g has t F f) (fetch_body (rg_ix g) name m hs t' x)"
  unfolding fetch_body_def tag_from_def using assms
  by - (rule keep_steps keep_calls kept_put | assumption)+

lemma fetch_add_keeps:
  assumes "keptw g has None F w"
  shows "after (keptw g has None F)
    (case on_fl (fl_add (rg_fl g) name d n body) w of
       (Inl e, w2) \<Rightarrow>
         if errors_is e (Flob AlreadyExists) then
           on_ix (ix_tx (rg_ix g) name (fetch_body (rg_ix g) name (record_of m d b now) hs t)) w2
         else (Inl e, w2)
     | (Inr _, w2) \<Rightarrow>
         on_ix (ix_tx (rg_ix g) name (fetch_body (rg_ix g) name (record_of m d b now) hs t)) w2)"
proof -
  obtain a w2 where a: "on_fl (fl_add (rg_fl g) name d n body) w = (a, w2)" by force
  note k = keptw_add [OF assms a]
  have "after (keptw g has None F)
      (on_ix (ix_tx (rg_ix g) name (fetch_body (rg_ix g) name (record_of m d b now) hs t)) w2)" if "add_failed a = None"
    using k(2) [OF that] by (intro kept_ix_Tx [OF k(1)] fetch_body_keeps) (simp_all add: record_of_def)
  with k(1) show ?thesis by (cases a) (simp_all add: a add_failed_def)
qed

lemma fetch_keeps:
  assumes "keptw g has None F w" "proxies_of (rg_Proxies g) name = Some p"
  shows "after (keptw g has None F) (fetch g now p name remote reference t w)"
  unfolding fetch_def using assms
  by - (rule keep_steps keep_calls fetch_add_keeps | assumption | rule after_splits(7))+

lemma cached_keeps:
  assumes "keptw g has t F w"
  shows "after (keptw g has t F) (cached g now p name ref w)"
  unfolding cached_def using assms by - (rule keep_steps keep_calls | assumption)+

lemma fill_digest_keeps:
  assumes "keptw g has None F w" "proxies_of (rg_Proxies g) name = Some p"
  shows "after (keptw g has None F) (fill_digest g now p name d w)"
  unfolding fill_digest_def using assms by - (rule keep_steps keep_calls fetch_keeps | assumption)+

lemma revalidated_keeps:
  assumes "keptw g has t F w"
  shows "after (keptw g has t F) (revalidated g now name tg cur d w)"
  unfolding revalidated_def using assms by - (rule keep_steps keep_calls | assumption)+

lemma fill_tag_from_keeps:
  assumes "keptw g has None F w" "proxies_of (rg_Proxies g) name = Some p"
  shows "after (keptw g has None F) (fill_tag_from g now p name t cur w)"
  unfolding fill_tag_from_def using assms
  by - (rule keep_steps keep_calls fetch_keeps revalidated_keeps | assumption)+

lemma pullThrough_keeps:
  assumes "keptw g has None F w" "proxies_of (rg_Proxies g) name = Some p"
  shows "after (keptw g has None F) (pullThrough g now p name ref w)"
  unfolding pullThrough_def pullThroughOutcome_def fill_def fill_tag_def using assms
  by - (rule keep_steps keep_calls cached_keeps fill_digest_keeps fill_tag_from_keeps | assumption | rule after_splits(7))+

lemma referrersThrough_keeps:
  assumes "keptw g has None F w" "proxies_of (rg_Proxies g) name = Some p"
  shows "after (keptw g has None F) (referrersThrough g now p name d w)"
  unfolding referrersThrough_def referrersOutcome_def referrers_ask_def keep_snapshot_def snap_body_def using assms
  by - (rule keep_steps keep_calls | assumption | rule after_splits(7))+

section \<open>Verification\<close>

lemma store_read_keeps:
  assumes "keptw g has t F w"
  shows "after (keptw g has t F) (store_read g name d w)"
  unfolding store_read_def using assms by - (rule keep_steps keep_calls | assumption)+

lemma manifest_at_keeps:
  assumes "keptw g has t F w"
  shows "after (keptw g has t F) (manifest_at g name d w)"
  unfolding manifest_at_def using assms by - (rule keep_steps keep_calls store_read_keeps | assumption)+

lemma isReferrersTagIndex_keeps:
  assumes "keptw g has t F w"
  shows "after (keptw g has t F) (isReferrersTagIndex g name ref m w)"
  unfolding isReferrersTagIndex_def using assms by - (rule keep_steps keep_calls manifest_at_keeps | assumption)+

lemma taggedReferrers_keeps:
  assumes "keptw g has None F w" "proxies_of (rg_Proxies g) name = Some p"
  shows "after (keptw g has None F) (taggedReferrers g now p name d w)"
  unfolding taggedReferrers_def using assms
  by - (rule keep_steps keep_calls pullThrough_keeps manifest_at_keeps | assumption)+

lemma signatures_keeps:
  assumes "keptw g has None F w" "proxies_of (rg_Proxies g) name = Some p"
  shows "after (keptw g has None F) (signatures g now p name d w)"
  unfolding signatures_def using assms
  by - (rule keep_steps keep_calls referrersThrough_keeps taggedReferrers_keeps | assumption | rule after_splits(7))+

lemma envelope_keeps:
  assumes "keptw g has None F w" "proxies_of (rg_Proxies g) name = Some p"
  shows "after (keptw g has None F) (envelope g now p name d w)"
  unfolding envelope_def using assms
  by - (rule keep_steps keep_calls pullThrough_keeps manifest_at_keeps store_read_keeps | assumption)+

lemma try_signatures_keeps:
  assumes "proxies_of (rg_Proxies g) name = Some p"
  shows "keptw g has None F w \<Longrightarrow> after (keptw g has None F) (try_signatures g now p name ver ss rs u w)"
proof (induction ss arbitrary: rs u w)
  case (Cons s ss)
  show ?case
    unfolding try_signatures.simps using Cons.prems assms
    by - (rule keep_steps keep_calls envelope_keeps Cons.IH | assumption | rule after_splits(7))+
qed simp

lemma signed_keeps:
  assumes "keptw g has None F w" "proxies_of (rg_Proxies g) name = Some p"
  shows "after (after (keptw g has None F)) (signed g now p name m vd w)"
  unfolding signed_def using assms
  by - (rule keep_steps keep_calls signatures_keeps try_signatures_keeps | assumption | rule after_splits(7))+

lemma holder_signed_keeps:
  assumes "proxies_of (rg_Proxies g) name = Some p"
  shows "keptw g has None F w \<Longrightarrow> after (after (keptw g has None F)) (holder_signed g now p name hs vd w)"
proof (induction hs arbitrary: vd w)
  case (Cons h hs)
  show ?case
    unfolding holder_signed.simps using Cons.prems assms
    by - (rule keep_steps keep_calls signed_keeps Cons.IH | assumption)+
qed simp

lemma verified_keeps:
  assumes "keptw g has None F w" "proxies_of (rg_Proxies g) name = Some p"
  shows "after (after (keptw g has None F)) (verified g now p name m vd w)"
  unfolding verified_def using assms
  by - (rule keep_steps keep_calls signed_keeps holder_signed_keeps | assumption)+

lemma admit_keeps:
  assumes "keptw g has None F w" "proxies_of (rg_Proxies g) name = Some p"
  shows "after (after (keptw g has None F)) (admit g now p name ref m vd w)"
  unfolding admit_def using assms
  by - (rule keep_steps keep_calls verified_keeps isReferrersTagIndex_keeps | assumption | rule after_splits(7))+

section \<open>Manifests\<close>

lemma answer_manifest_keeps:
  assumes "keptw g has None F w"
  shows "after (keptw g has None F) (answer_manifest g now h r name ref m d w)"
  unfolding answer_manifest_def using assms by - (rule keep_steps keep_calls kept_touch | assumption)+

lemma getManifest_keeps:
  assumes "keptw g has None F w"
  shows "after (after (keptw g has None F)) (getManifest g now h r name arg vd w)"
  unfolding getManifest_def pull_first_def resolve_ref_def admit_first_def using assms
  by - (rule keep_steps keep_calls pullThrough_keeps admit_keeps answer_manifest_keeps | assumption)+

lemma missing_keeps:
  assumes "keptw g has t F w"
  shows "after (keptw g has t F) (missing g name m w)"
proof -
  have b: "keptw g has t F w \<Longrightarrow> after (keptw g has t F) (missing_blobs g name ds w)" for ds w
  proof (induction ds arbitrary: w)
    case (Cons d ds)
    show ?case unfolding missing_blobs.simps using Cons.prems by - (rule keep_steps keep_calls Cons.IH | assumption)+
  qed simp
  have c: "keptw g has t F w \<Longrightarrow> after (keptw g has t F) (missing_children g name ds w)" for ds w
  proof (induction ds arbitrary: w)
    case (Cons d ds)
    show ?case unfolding missing_children.simps using Cons.prems by - (rule keep_steps keep_calls Cons.IH | assumption)+
  qed simp
  show ?thesis unfolding missing_def using assms by - (rule keep_steps keep_calls b c | assumption)+
qed

lemma setTag_keeps:
  assumes "kept g has t F f x"
  shows "after (kept g has t F f) (setTag (rg_ix g) c name tg d x)"
  unfolding setTag_def tag_from_def using assms by - (rule keep_steps keep_calls | assumption)+

lemma put_body_keeps:
  assumes "keptw g has t F w" "has F name (im_Digest rec) \<noteq> None"
  shows "after (keptw g has t F) (put_body g c name tg m rec w)"
  unfolding put_body_def using assms
  by - (rule keep_steps keep_calls kept_put missing_keeps setTag_keeps | assumption)+

lemma putManifest_keeps:
  assumes "keptw g has None F w"
  shows "after (keptw g has None F) (putManifest g now c h r name arg w)"
proof (cases "read_push g r arg")
  case (Inl e)
  with assms show ?thesis by (simp add: putManifest_def)
next
  case (Inr z)
  then obtain ref body d m where z: "read_push g r arg = Inr (ref, body, d, m)" by (cases z) auto
  obtain a w1 where a: "on_fl (fl_add (rg_fl g) name d (int (length body)) body) w = (a, w1)" by force
  note k = keptw_add [OF assms a]
  have "after (keptw g has None F) (world_tx g name (put_body g c name t m (record_of m d body now)) w1)"
    if "add_failed a = None" for t
    using k(2) [OF that] by (intro kept_Tx [OF k(1)] put_body_keeps) (simp_all add: record_of_def)
  then show ?thesis
    unfolding putManifest_def z sum.case prod.case a using k(1)
    by - (rule keep_steps | assumption | simp only:)+
qed

section \<open>Deleting\<close>

lemma listed_keeps:
  assumes "keptw g has t F w"
  shows "after (keptw g has t F) (listed g name m w)"
  unfolding listed_def using assms by - (rule keep_steps keep_calls store_read_keeps | assumption)+

lemma evict_one_keeps:
  assumes "keptw g has t F w"
  shows "after (keptw g has t F) (evict_one g name d w)"
  unfolding evict_one_def using assms by - (rule keep_steps keep_calls listed_keeps | assumption)+

lemma evict_listed_keeps: "keptw g has t F w \<Longrightarrow> after (keptw g has t F) (evict_listed g name n ds w)"
proof (induction n arbitrary: ds w)
  case 0
  then show ?case
  proof (induction ds arbitrary: w)
    case (Cons d ds)
    show ?case unfolding evict_listed.simps nat.case using Cons.prems
      by - (rule keep_steps evict_one_keeps Cons.IH | assumption)+
  qed simp
next
  case (Suc n)
  note IH = Suc.IH
  from Suc.prems show ?case
  proof (induction ds arbitrary: w)
    case (Cons d ds)
    show ?case unfolding evict_listed.simps nat.case using Cons.prems
      by - (rule keep_steps evict_one_keeps IH Cons.IH | assumption | rule after_splits(7))+
  qed simp
qed

lemma erase_all_tags_keeps: "kept g has t F f x \<Longrightarrow> after (kept g has t F f) (erase_all_tags (rg_ix g) name ts x)"
proof (induction ts arbitrary: x)
  case (Cons a ts)
  show ?case unfolding erase_all_tags.simps using Cons.prems by - (rule keep_steps keep_calls Cons.IH | assumption)+
qed simp

lemma delete_body_keeps:
  assumes "keptw g has t F w"
  shows "after (keptw g has t F) (delete_body g c name n d w)"
  unfolding delete_body_def erase_and_evict_def using assms
  by - (rule keep_steps keep_calls listed_keeps evict_listed_keeps erase_all_tags_keeps | assumption | rule after_splits(7))+

lemma delete_tag_body_keeps:
  assumes "kept g has t F f x"
  shows "after (kept g has t F f) (delete_tag_body (rg_ix g) c name tg x)"
  unfolding delete_tag_body_def using assms by - (rule keep_steps keep_calls | assumption)+

text \<open>
  After a request: every manifest of the index has its bytes, and what was in the store and is
  referred to is there as it was.
\<close>

definition rested :: "('x, 'f) registry \<Rightarrow> ('f \<Rightarrow> string \<Rightarrow> digest \<Rightarrow> string option) \<Rightarrow> 'f \<Rightarrow> ('x, 'f) world \<Rightarrow> bool" where
  "rested g has F w =
     (rg_ix g = ix \<and> lawful g has \<and> good (w_ix w) \<and> \<not> intx (w_ix w) \<and> stored has (seen (w_ix w)) (w_fl w) \<and>
      (\<forall>repo d. referenced (seen (w_ix w)) repo d \<longrightarrow> has F repo d \<noteq> None \<longrightarrow> has (w_fl w) repo d = has F repo d))"

lemma keptw_rested: "keptw g has None F w \<Longrightarrow> rested g has F w"
  by (auto simp: keptw_def kept_def rested_def grows_def)

lemma keptw_keeps_rested:
  assumes "keptw g has None F w" "keeps has (seen (w_ix w)) repo (w_fl w) (w_fl w')"
    "good (w_ix w')" "\<not> intx (w_ix w')" "seen (w_ix w') = seen (w_ix w)"
  shows "rested g has F w'"
proof -
  have k: "rg_ix g = ix" "lawful g has" "grows has F (w_fl w)" "stored has (seen (w_ix w)) (w_fl w)"
    using assms(1) by (auto simp: keptw_def kept_def)
  have same: "has (w_fl w') r d = has (w_fl w) r d" if "referenced (seen (w_ix w)) r d" for r d
    using assms(2) that unfolding keeps_def by metis
  have "stored has (seen (w_ix w)) (w_fl w')"
    using k(4) same unfolding stored_def referenced_def by metis
  moreover have "\<forall>r d. referenced (seen (w_ix w)) r d \<longrightarrow> has F r d \<noteq> None \<longrightarrow> has (w_fl w') r d = has F r d"
    using same k(3) unfolding grows_def by metis
  ultimately show ?thesis using k assms(3-5) by (simp add: rested_def)
qed

lemma release_rested:
  assumes "keptw g has None F w"
  shows "rested g has F (release g name ds w)"
proof -
  obtain r w' where r: "Release (rg_ix g) (rg_fl g) name ds w = (r, w')" by force
  have k: "rg_ix g = ix" "good (w_ix w)" "\<not> intx (w_ix w)" "erase_ok (rg_fl g) has"
    using assms by (auto simp: keptw_def kept_def lawful_def store_law_def)
  from Release_keeps [OF k(4,2,3) r [unfolded k(1)]] have "good (w_ix w')" "\<not> intx (w_ix w')"
    "seen (w_ix w') = seen (w_ix w)" "keeps has (seen (w_ix w)) name (w_fl w) (w_fl w')" by auto
  with keptw_keeps_rested [OF assms] r show ?thesis by (simp add: release_def)
qed

lemma deleteManifest_rested:
  assumes "keptw g has None F w"
  shows "after (rested g has F) (http_deleteManifest g n c h r name arg w)"
proof (cases "referenceOf (rg_D g) arg ErrManifestUnknown")
  case (Inl e)
  with assms show ?thesis by (simp add: http_deleteManifest_def keptw_rested)
next
  case (Inr ref)
  have t: "after (keptw g has None F) (on_ix (ix_tx (rg_ix g) name (delete_tag_body (rg_ix g) c name (ref_tag ref))) w)"
    by (rule kept_ix_Tx [OF assms delete_tag_body_keeps])
  have d: "after (keptw g has None F) (world_tx g name (delete_body g c name n (ref_digest ref)) w)"
    by (rule kept_Tx [OF assms delete_body_keeps])
  show ?thesis
    unfolding http_deleteManifest_def Inr sum.case
    by (rule keep_steps after_case [OF t] after_case [OF d] | erule keptw_rested | erule release_rested)+
qed

text \<open>
  A blob is erased only when, under the lock, no manifest holds it and it is none itself; then
  the answer says so.
\<close>

lemma delete_blob_locked_erases:
  assumes "rg_ix g = ix" "stat_ok (rg_fl g) has" "erase_ok (rg_fl g) has" "good (w_ix w)" "\<not> intx (w_ix w)"
    and "delete_blob_locked g name d w = (res, w')"
  shows "good (w_ix w') \<and> \<not> intx (w_ix w') \<and> seen (w_ix w') = seen (w_ix w) \<and>
    keeps has (seen (w_ix w)) name (w_fl w) (w_fl w') \<and>
    (is_ok res \<longrightarrow> \<not> referenced (seen (w_ix w)) name d \<and> has (w_fl w) name d \<noteq> None \<and> has (w_fl w') name d = None)"
proof -
  obtain h x1 where h: "ix_holds ix name d (w_ix w) = (h, x1)" by force
  from call(2) [OF assms(4) h] assms(5)
  have x1: "good x1" "\<not> intx x1" "seen x1 = seen (w_ix w)" "\<And>b. h = Inr b \<Longrightarrow> b = held (seen (w_ix w)) name d"
    by (auto simp: holds_spec_def)
  obtain a x2 where a: "ix_get ix name d x1 = (a, x2)" by force
  from call(1) [OF x1(1) a] x1
  have x2: "good x2" "\<not> intx x2" "seen x2 = seen (w_ix w)"
    "\<And>e. a = Inl e \<Longrightarrow> errors_is e ErrNotFound \<Longrightarrow> \<not> indexed (seen (w_ix w)) name d"
    by (auto simp: get_spec_def indexed_def)
  obtain s f3 where s: "fl_stat (rg_fl g) name d (w_fl w) = (s, f3)" by force
  have f3: "has f3 = has (w_fl w)" "s = Inr u \<Longrightarrow> has (w_fl w) name d \<noteq> None" for u
    using assms(2) s unfolding stat_ok_def store_reads_def by (auto simp: unit_eq)
  obtain er f4 where er: "fl_erase (rg_fl g) name d f3 = (er, f4)" by force
  have k3: "keeps has (seen (w_ix w)) name (w_fl w) f3" by (simp add: keeps_def f3(1))
  have k4: "keeps has (seen (w_ix w)) name (w_fl w) f4" "is_ok er \<Longrightarrow> has f4 name d = None"
    if "\<not> referenced (seen (w_ix w)) name d"
    using erase_keeps [OF assms(3) er that] keeps_trans [OF k3] by auto
  have nr: "\<not> referenced (seen (w_ix w)) name d" if "h = Inr False" "a = Inl e" "errors_is e ErrNotFound" for e
    using that x1(4) x2(4) by (auto simp: referenced_def)
  show ?thesis
    using assms(6) x1 x2 k3 k4 f3(2) nr
    by (auto simp: delete_blob_locked_def assms(1) on_ix_def on_fl_def h a s er split: sum.splits if_splits bool.splits)
qed

lemma deleteBlob_rested:
  assumes "keptw g has None F w"
  shows "after (rested g has F) (deleteBlob g h name arg w)"
proof -
  have k: "rg_ix g = ix" "good (w_ix w)" "\<not> intx (w_ix w)" "stat_ok (rg_fl g) has" "erase_ok (rg_fl g) has"
    using assms by (auto simp: keptw_def kept_def lawful_def store_law_def)
  obtain l x1 where l: "ix_lock ix name (w_ix w) = (l, x1)" by force
  from call(7) [OF k(2) l] k(3) have x1: "good x1" "\<not> intx x1" "seen x1 = seen (w_ix w)" by auto
  have w1: "keptw g has None F (w\<lparr>w_ix := x1\<rparr>)" using assms x1 by (simp add: keptw_def kept_def)
  have "rested g has F (w2\<lparr>w_ix := ix_unlock ix name (w_ix w2)\<rparr>)"
    if d: "delete_blob_locked g name d (w\<lparr>w_ix := x1\<rparr>) = (res, w2)" for d res w2
  proof -
    from delete_blob_locked_erases [OF k(1,4,5) _ _ d] x1
    have w2: "good (w_ix w2)" "\<not> intx (w_ix w2)" "seen (w_ix w2) = seen x1"
      "keeps has (seen x1) name (w_fl w) (w_fl w2)" by auto
    show ?thesis
      by (rule keptw_keeps_rested [OF w1, of name]) (use w2 unlock_law [OF w2(1), of name] in simp_all)
  qed
  then show ?thesis
    using keptw_rested [OF assms] keptw_rested [OF w1]
    by (auto simp: deleteBlob_def k(1) on_ix_def l split: sum.splits prod.splits)
qed

section \<open>Blobs\<close>

lemma beginUpload_keeps:
  assumes "keptw g has None F w"
  shows "after (keptw g has None F) (beginUpload g h r name w)"
  unfolding beginUpload_def using assms by - (rule keep_steps keep_calls | assumption)+

lemma getBlob_keeps:
  assumes "keptw g has None F w"
  shows "after (keptw g has None F) (getBlob g h r name arg w)"
  unfolding getBlob_def headBlob_def presigned_def using assms by - (rule keep_steps keep_calls | assumption)+

lemma putBlob_keeps:
  assumes "keptw g has None F w"
  shows "after (keptw g has None F) (putBlob g h r name arg w)"
  unfolding putBlob_def add_stream_def using assms by - (rule keep_steps keep_calls | assumption)+

lemma mount_keeps:
  assumes "keptw g has None F w"
  shows "after (keptw g has None F) (mount g c h r name w)"
  unfolding mount_def mount_copy_def sizeOf_def using assms
  by - (rule keep_steps keep_calls beginUpload_keeps | assumption)+

lemma postUpload_keeps:
  assumes "keptw g has None F w"
  shows "after (keptw g has None F) (postUpload g c h r name w)"
  unfolding postUpload_def using assms
  by - (rule keep_steps keep_calls beginUpload_keeps mount_keeps putBlob_keeps | assumption)+

lemma resume_keeps:
  assumes "keptw g has None F w"
  shows "after (keptw g has None F) (resume g name i w)"
  unfolding resume_def using assms by - (rule keep_steps keep_calls | assumption)+

lemma appendBody_keeps:
  assumes "keptw g has None F w"
  shows "after (keptw g has None F) (appendBody g h r name i w)"
  unfolding appendBody_def append_at_offset_def outOfRange_def active_stage_def using assms
  by - (rule keep_steps keep_calls | assumption)+

lemma commit_upload_keeps:
  assumes "keptw g has None F w"
  shows "after (keptw g has None F) (commit_upload g name i d w)"
  unfolding commit_upload_def rehash_def using assms
  by - (rule keep_steps keep_calls | assumption | rule after_splits(7))+

lemma uploads_keep:
  assumes "keptw g has None F w"
  shows "after (keptw g has None F) (statUpload g h name i w)"
    and "after (keptw g has None F) (patchUpload g h r name i w)"
    and "after (keptw g has None F) (putUpload g h r name i w)"
    and "after (keptw g has None F) (cancelUpload g h name i w)"
  unfolding statUpload_def patchUpload_def putUpload_def cancelUpload_def active_stage_def using assms
  by - (rule keep_steps keep_calls resume_keeps appendBody_keeps commit_upload_keeps | assumption)+

section \<open>Lists\<close>

lemma listTags_keeps:
  assumes "keptw g has None F w"
  shows "after (keptw g has None F) (listTags g h r name w)"
  unfolding listTags_def tags_of_page_def using assms by - (rule keep_steps keep_calls | assumption)+

lemma referrers_keeps:
  assumes "keptw g has None F w"
  shows "after (keptw g has None F) (referrers g now h r name arg w)"
  unfolding referrers_def proxiedReferrers_def using assms
  by - (rule keep_steps keep_calls referrersThrough_keeps | assumption | rule after_splits(7))+

end

end
