(* ===== verification/Registry_Catalog.thy ===== *)
theory Registry_Catalog
  imports Registry_Keeps
begin

text \<open>
  What the catalog and the search answer: the loops over pages end, on any list that keeps the
  contract of a listing, and what they answer is what the caller may see, in order, as much as
  was asked for.
\<close>

section \<open>The catalog's loop\<close>

definition up_to :: "int option \<Rightarrow> 'a list \<Rightarrow> 'a list" where
  "up_to limit xs = (case limit of None \<Rightarrow> xs | Some n \<Rightarrow> take (nat n) xs)"

definition room :: "int option \<Rightarrow> 'a list \<Rightarrow> bool" where
  "room limit xs = (case limit of None \<Rightarrow> True | Some n \<Rightarrow> int (length xs) < n)"

lemma catalog_take_up_to: "room limit out \<Longrightarrow> catalog_take can limit out vs = up_to limit (out @ filter can vs)"
proof (induction vs arbitrary: out)
  case Nil
  then show ?case by (cases limit) (auto simp: up_to_def room_def)
next
  case (Cons v vs)
  show ?case
  proof (cases limit)
    case None
    with Cons.IH show ?thesis by (simp add: Let_def up_to_def room_def)
  next
    case (Some n)
    show ?thesis
    proof (cases "can v \<and> int (length (out @ [v])) = n")
      case True
      then have "nat n = length (out @ [v])" by (metis nat_int)
      then show ?thesis using True Some by (simp add: up_to_def)
    next
      case False
      then show ?thesis
        using Cons Some by (auto simp: room_def Let_def)
    qed
  qed
qed

lemma sorted_list_split:
  fixes ks :: "'k :: linorder list"
  assumes "sorted_wrt (<) ks" "finite B" "\<And>k b. k \<in> set ks \<Longrightarrow> b \<in> B \<Longrightarrow> k < b"
  shows "sorted_list_of_set (set ks \<union> B) = ks @ sorted_list_of_set B"
  by (rule strict_sorted_equal) (use assms in \<open>auto simp: sorted_wrt_append\<close>)

lemma catalog_loop_all:
  assumes L: "listing ls (\<lambda>n. n) keys ok" and n: "2 \<le> n" and "ok w" "room limit out"
  shows "\<exists>r w'. catalog_loop ls can limit (int n) cur out w = Some (r, w') \<and> ok w' \<and> keys w' = keys w \<and>
    (\<forall>vs. r = Inr vs \<longrightarrow>
       vs = up_to limit (out @ filter can (sorted_list_of_set {a \<in> keys w. cur = '''' \<or> cur < a})))"
  using assms(3,4)
proof (induction "card {a \<in> keys w. cur = '''' \<or> cur < a}" arbitrary: cur out w rule: less_induct)
  case less
  obtain r1 w1 where l: "ls \<lparr>pg_Last = cur, pg_N = int n\<rparr> w = (r1, w1)" by force
  note law = listing.page_law [OF L less.prems(1) l] and fin = listing.finite_law [OF L less.prems(1)]
  show ?case
  proof (cases r1)
    case (Inl e)
    with l law show ?thesis by (subst catalog_loop.simps) simp
  next
    case (Inr vs)
    with law have pg: "paged (keys w) \<lparr>pg_Last = cur, pg_N = int n\<rparr> vs" and w1: "ok w1" "keys w1 = keys w" by auto
    let ?A = "{a \<in> keys w. cur = '''' \<or> cur < a}"
    let ?out = "catalog_take can limit out vs"
    have sw: "sorted_wrt (<) vs" using pg by (simp add: paged_def)
    note tk = catalog_take_up_to [OF less.prems(2), of can vs]
    show ?thesis
    proof (cases "length vs < n")
      case True
      then have "set vs = ?A" using pg by (auto simp: paged_def)
      then have "sorted_list_of_set ?A = vs" using sorted_list_split [OF sw, of "{}"] by simp
      then show ?thesis using l Inr True w1 tk by (subst catalog_loop.simps) (auto simp: Let_def)
    next
      case False
      with pg n have len: "length vs = n" by (simp add: paged_def)
      note fp = listing.full_page [OF L pg _ len]
      have fp: "?A = set vs \<union> {a \<in> keys w. last vs < a}" "last vs \<noteq> ''''" "set vs \<subseteq> {a \<in> keys w. a \<le> last vs}"
        "last vs \<in> keys w" "cur = '''' \<or> cur < last vs" using fp n by auto
      let ?B = "{a \<in> keys w. last vs < a}"
      have all: "sorted_list_of_set ?A = vs @ sorted_list_of_set ?B"
        unfolding fp(1) using fin fp(3) by (intro sorted_list_split [OF sw]) (auto intro: le_less_trans)
      show ?thesis
      proof (cases "limit = Some (int (length ?out))")
        case True
        then obtain m where m: "limit = Some (int m)" "length ?out = m" by blast
        have tm: "?out = take m (out @ filter can vs)" by (subst tk) (simp add: m(1) up_to_def)
        then have "m \<le> length (out @ filter can vs)" using m(2) by (metis length_take min.cobounded1)
        then have o': "?out = up_to limit (out @ filter can (vs @ sorted_list_of_set ?B))"
          using tm by (simp add: m(1) up_to_def)
        have "catalog_loop ls can limit (int n) cur out w = Some (Inr ?out, w1)"
          using l Inr True by (subst catalog_loop.simps) (simp add: Let_def)
        then show ?thesis using w1 o' all by simp
      next
        case no: False
        have room: "room limit ?out"
        proof (cases limit)
          case (Some m)
          then have "length ?out \<le> nat m" using tk by (simp add: up_to_def)
          then show ?thesis using no Some less.prems(2) by (auto simp: room_def)
        qed (simp add: room_def)
        then have full: "?out = out @ filter can vs" using tk by (auto simp: up_to_def room_def split: option.splits)
        have sub: "{a \<in> keys w1. last vs = '''' \<or> last vs < a} = ?B" using w1(2) fp(2) by auto
        have "?B \<subset> ?A" using fp by auto
        then have card: "card {a \<in> keys w1. last vs = '''' \<or> last vs < a} < card ?A"
          unfolding sub using fin by (intro psubset_card_mono) auto
        have "catalog_loop ls can limit (int n) cur out w = catalog_loop ls can limit (int n) (last vs) ?out w1"
          using l Inr False no by (subst catalog_loop.simps) (simp add: Let_def)
        moreover note less.hyps [OF card w1(1) room]
        ultimately show ?thesis unfolding sub using w1(2) all full by simp
      qed
    qed
  qed
qed

end
