(* ===== verification/Registry_Served.thy ===== *)
theory Registry_Served
  imports Registry_Catalog
begin

text \<open>
  What serving keeps, whatever is asked: the handlers' lemmas brought together over
  \<open>ServeHTTP\<close>, for one request and for any sequence of them.
\<close>

section \<open>Dispatching\<close>

context index_laws
begin

lemma after_rested: "after (keptw g has None F) p \<Longrightarrow> after (rested g has F) p"
  by (auto simp: after_def keptw_rested)

lemma dispatch_rested:
  assumes "keptw g has None F (sv_world s)"
  shows "rested g has F (sv_world (snd (dispatch g n now c h r name rt arg s)))"
proof -
  note k = keptw_rested [OF assms]
  have on: "rested g has F (sv_world (snd (on_world f s)))" if "after (rested g has F) (f (sv_world s))" for f
    using that by (auto simp: on_world_def after_def split: prod.splits)
  note up = after_rested
  have b: "after (rested g has F) (dispatch_blob g h r name arg (sv_world s))"
    using k up [OF getBlob_keeps [OF assms]] deleteBlob_rested [OF assms] by (simp add: dispatch_blob_def)
  have u: "after (rested g has F) (dispatch_upload g c h r name arg (sv_world s))"
    using k up [OF postUpload_keeps [OF assms]] uploads_keep [OF assms, THEN up] by (simp add: dispatch_upload_def Let_def)
  have m: "rested g has F (sv_world (snd (dispatch_manifest g n now c h r name arg s)))"
  proof (cases "is_GET r")
    case True
    obtain a vd w where get: "getManifest g now h r name arg (sv_verdicts s) (sv_world s) = (a, vd, w)" by (metis surj_pair)
    then have "keptw g has None F w" using getManifest_keeps [OF assms, of now h r name arg "sv_verdicts s"] by (simp add: after_def)
    then show ?thesis using True get keptw_rested by (simp add: dispatch_manifest_def)
  next
    case False
    then show ?thesis
      using k on [of "putManifest g now c h r name arg"] on [of "http_deleteManifest g n c h r name arg"]
        up [OF putManifest_keeps [OF assms]] deleteManifest_rested [OF assms]
      by (simp add: dispatch_manifest_def Let_def)
  qed
  have l: "after (rested g has F) (only (\<lambda>h w. listTags g h r name w) h r (sv_world s))"
    "after (rested g has F) (only (\<lambda>h w. referrers g now h r name arg w) h r (sv_world s))"
    using k up [OF listTags_keeps [OF assms]] up [OF referrers_keeps [OF assms]] by (simp_all add: only_def)
  show ?thesis
    using m k on [of "dispatch_blob g h r name arg"] b on [of "dispatch_upload g c h r name arg"] u
      on [of "\<lambda>w. only (\<lambda>h w. listTags g h r name w) h r w"] l(1)
      on [of "\<lambda>w. only (\<lambda>h w. referrers g now h r name arg w) h r w"] l(2)
    by (cases rt) (simp_all add: dispatch_def)
qed

lemma serve_repo_rested:
  assumes "keptw g has None F (sv_world s)"
  shows "rested g has F (sv_world (snd (serve_repo g n now h r rest s)))"
  using keptw_rested [OF assms] dispatch_rested [OF assms]
  by (auto simp: serve_repo_def Let_def split: prod.splits sum.splits)

end

section \<open>Serving\<close>

lemma catalog_listing:
  assumes "rg_ix g = mem_ops"
  shows "listing (\<lambda>p. on_ix (ix_repo_list (rg_ix g) p)) (\<lambda>n. n) (\<lambda>w. {n. ro_repos (mem_seen (w_ix w)) n \<noteq> None})
    (index_laws.keptw mem_ops mem_good mem_seen mem_outer mem_intx g has None F)"
proof
  fix w p r w'
  assume k: "index_laws.keptw mem_ops mem_good mem_seen mem_outer mem_intx g has None F w"
    and l: "on_ix (ix_repo_list (rg_ix g) p) w = (r, w')"
  obtain x where x: "ix_repo_list (rg_ix g) p (w_ix w) = (r, x)" "w' = w\<lparr>w_ix := x\<rparr>" using l by (rule on_ix_cases)
  have "mem_good (w_ix w)" using k by (simp add: mem.keptw_def mem.kept_def)
  from mem.opD [OF mem.repo_list_law this x(1) [unfolded assms]]
  have s: "mem_seen x = mem_seen (w_ix w)" "\<forall>vs. r = Inr vs \<longrightarrow> paged {n. ro_repos (mem_seen (w_ix w)) n \<noteq> None} p vs"
    by (auto simp: repo_list_spec_def)
  have "index_laws.keptw mem_ops mem_good mem_seen mem_outer mem_intx g has None F w'"
  proof -
    have "after (index_laws.keptw mem_ops mem_good mem_seen mem_outer mem_intx g has None F)
      (on_ix (ix_repo_list (rg_ix g) p) w)" by (rule mem.keptw_ix [OF k]) (rule mem.kept_calls(17))
    then show ?thesis by (simp add: l)
  qed
  with s x(2) show "index_laws.keptw mem_ops mem_good mem_seen mem_outer mem_intx g has None F w' \<and>
      {n. ro_repos (mem_seen (w_ix w')) n \<noteq> None} = {n. ro_repos (mem_seen (w_ix w)) n \<noteq> None} \<and>
      (\<forall>vs. r = Inr vs \<longrightarrow> paged {n. ro_repos (mem_seen (w_ix w)) n \<noteq> None} p (map (\<lambda>n. n) vs))"
    by simp
qed (rule finite_rows)

text \<open>The names the catalog answers.\<close>

definition catalog_names :: "caller \<Rightarrow> page \<times> bool \<Rightarrow> rows \<Rightarrow> string list" where
  "catalog_names c pg v =
     up_to (if snd pg then Some (pg_N (fst pg)) else None)
       (filter (CanPull c) (sorted_list_of_set {n. ro_repos v n \<noteq> None \<and> (pg_Last (fst pg) = '''' \<or> pg_Last (fst pg) < n)}))"

lemma catalog_answers:
  assumes "index_laws.keptw mem_ops mem_good mem_seen mem_outer mem_intx g has None F w"
  shows "\<exists>a w'. catalog g c h r w = Some (a, w') \<and>
    index_laws.keptw mem_ops mem_good mem_seen mem_outer mem_intx g has None F w' \<and>
    ((\<exists>e. a = fail h e) \<or>
     (let names = catalog_names c (pageOf r) (mem_seen (w_ix w)) in
      a = Some (reply_json (page_headers ''/v2/_catalog'' (pageOf r) names h) r 200 ''application/json''
        (JObj [(''repositories'', strings_json names)]))))"
proof -
  let ?ls = "\<lambda>p. on_ix (ix_repo_list (rg_ix g) p)" and ?v = "mem_seen (w_ix w)"
  have ixg: "rg_ix g = mem_ops" using assms by (simp add: mem.keptw_def mem.kept_def)
  obtain p given where pg: "pageOf r = (p, given)" by force
  note N = pageOf_bounds [OF pg]
  let ?limit = "if given then Some (pg_N p) else None"
  have "\<exists>res w'. catalog_repos ?ls (CanPull c) (p, given) w = Some (res, w') \<and>
      index_laws.keptw mem_ops mem_good mem_seen mem_outer mem_intx g has None F w' \<and>
      (\<forall>names. res = Inr names \<longrightarrow> names = catalog_names c (p, given) ?v)"
  proof (cases "page_given (p, given)")
    case True
    then have room: "room ?limit []" by (auto simp: page_given_def room_def)
    have "int 2 \<le> max (pg_N p) 100" by simp
    then have b: "max (pg_N p) 100 = int (nat (max (pg_N p) 100))" "2 \<le> nat (max (pg_N p) 100)" by (simp_all add: le_nat_iff)
    from catalog_loop_all [OF catalog_listing [OF ixg] b(2) assms room, of "CanPull c" "pg_Last p"] b(1)
    show ?thesis using True by (auto simp: catalog_repos_def catalog_names_def)
  next
    case False
    with N have "given" "pg_N p = 0" by (auto simp: page_given_def)
    then show ?thesis using False assms by (simp add: catalog_repos_def catalog_names_def up_to_def)
  qed
  then obtain res w' where res: "catalog_repos ?ls (CanPull c) (pageOf r) w = Some (res, w')"
    "index_laws.keptw mem_ops mem_good mem_seen mem_outer mem_intx g has None F w'"
    "\<forall>names. res = Inr names \<longrightarrow> names = catalog_names c (pageOf r) ?v" using pg by auto
  then show ?thesis by (cases res) (auto simp: catalog_def Let_def)
qed

text \<open>
  A registry that may serve: its store and its upstreams do what they promise, no transaction is
  open, and every manifest of the index has its bytes.
\<close>

definition serving :: "(view, 'f) registry \<Rightarrow> ('f \<Rightarrow> string \<Rightarrow> digest \<Rightarrow> string option) \<Rightarrow> (view, 'f) server \<Rightarrow> bool" where
  "serving g has s =
     (rg_ix g = mem_ops \<and> lawful g has \<and> mem_good (w_ix (sv_world s)) \<and> \<not> mem_intx (w_ix (sv_world s)) \<and>
      stored has (mem_seen (w_ix (sv_world s))) (w_fl (sv_world s)))"

definition loses_nothing :: "('f \<Rightarrow> string \<Rightarrow> digest \<Rightarrow> string option) \<Rightarrow> (view, 'f) server \<Rightarrow> (view, 'f) server \<Rightarrow> bool" where
  "loses_nothing has s s' =
     (\<forall>repo d. referenced (mem_seen (w_ix (sv_world s'))) repo d \<longrightarrow> has (w_fl (sv_world s)) repo d \<noteq> None \<longrightarrow>
        has (w_fl (sv_world s')) repo d = has (w_fl (sv_world s)) repo d)"

lemma serving_keptw:
  "serving g has s = index_laws.keptw mem_ops mem_good mem_seen mem_outer mem_intx g has None (w_fl (sv_world s)) (sv_world s)"
  by (auto simp: serving_def mem.keptw_def mem.kept_def)

lemma serving_rested:
  "index_laws.rested mem_ops mem_good mem_seen mem_intx g has (w_fl (sv_world s)) (sv_world s') =
     (serving g has s' \<and> loses_nothing has s s')"
  by (auto simp: serving_def loses_nothing_def mem.rested_def)

lemma serve_step:
  assumes "serving g has s"
  shows "\<exists>a s'. ServeHTTP g n now r s = Some (a, s') \<and> serving g has s' \<and> loses_nothing has s s'"
proof -
  note k = assms [unfolded serving_keptw]
  note self = mem.keptw_rested [OF k, unfolded serving_rested]
  note repo = mem.serve_repo_rested [OF k, unfolded serving_rested]
  obtain a w' where cat: "\<And>c. \<exists>a w'. catalog g c api_header r (sv_world s) = Some (a, w') \<and>
      index_laws.keptw mem_ops mem_good mem_seen mem_outer mem_intx g has None (w_fl (sv_world s)) w'"
    using catalog_answers [OF k] by blast
  have c: "\<exists>a s'. map_option (\<lambda>(a, w). (a, s\<lparr>sv_world := w\<rparr>)) (catalog g c api_header r (sv_world s)) = Some (a, s') \<and>
      serving g has s' \<and> loses_nothing has s s'" for c
  proof -
    obtain a w' where w': "catalog g c api_header r (sv_world s) = Some (a, w')"
      "index_laws.keptw mem_ops mem_good mem_seen mem_outer mem_intx g has None (w_fl (sv_world s)) w'"
      using cat by blast
    have "serving g has (s\<lparr>sv_world := w'\<rparr>) \<and> loses_nothing has s (s\<lparr>sv_world := w'\<rparr>)"
      using mem.keptw_rested [OF w'(2)] serving_rested [of g has s "s\<lparr>sv_world := w'\<rparr>"] by simp
    with w'(1) show ?thesis by simp
  qed
  consider (base) "rq_Path r = ''/v2'' \<or> rq_Path r = ''/v2/''"
    | (none) "rq_Path r \<noteq> ''/v2''" "rq_Path r \<noteq> ''/v2/''" "cut_prefix (rq_Path r) ''/v2/'' = None"
    | (rest) rest where "rq_Path r \<noteq> ''/v2''" "rq_Path r \<noteq> ''/v2/''" "cut_prefix (rq_Path r) ''/v2/'' = Some rest"
    by (cases "cut_prefix (rq_Path r) ''/v2/''") auto
  then show ?thesis
  proof cases
    case base
    then show ?thesis using self unfolding ServeHTTP_def Let_def by auto
  next
    case none
    then show ?thesis using self unfolding ServeHTTP_def Let_def by simp
  next
    case rest
    show ?thesis
    proof (cases "rest = ''_catalog''")
      case True
      then show ?thesis using rest self c unfolding ServeHTTP_def Let_def
        by (cases "guard_check (rg_Guard g) now r '''' [ActionCatalog]") simp_all
    next
      case False
      obtain a s' where "serve_repo g n now api_header r rest s = (a, s')" by (metis surj_pair)
      then show ?thesis using rest False repo [of n now api_header r rest] unfolding ServeHTTP_def Let_def by simp
    qed
  qed
qed

end
