(* ===== verification/Registry_Push.thy ===== *)
theory Registry_Push
  imports Registry_Served
begin

text \<open>
  What a push and a delete leave behind: a manifest is indexed only when everything it needs is
  there, all of what a push writes in the index is written or none of it, and a delete erases
  what nothing refers to.  The depth a delete follows indexes to is bounded by the manifests
  there are.
\<close>

section \<open>What is missing\<close>

lemma set_uniq [simp]: "set (uniq ds) = set ds"
  using fold_holds_add_set [of "\<lambda>d. d" ds "[]"] by (simp add: uniq_def)

lemma image_or_index:
  assumes "ParseManifest D J ct body = Inr m"
  shows "slice (mf_manifests m) = [] \<or> Blobs m = []"
proof -
  obtain raw t where "shape_error t raw = None" "m = manifest_of t raw"
    using assms unfolding ParseManifest_Inr by blast
  then show ?thesis by (cases "IsIndexMediaType t") (simp_all add: shape_error_None manifest_of_def Blobs_def)
qed

lemma missing_blobs_there:
  assumes "stat_ok (rg_fl g) has"
  shows "missing_blobs g name ds w = (r, w') \<Longrightarrow> has (w_fl w') = has (w_fl w) \<and> w_ix w' = w_ix w \<and>
    (r = Inr [] \<longrightarrow> (\<forall>d \<in> set ds. has (w_fl w) name d \<noteq> None))"
proof (induction ds arbitrary: w r w')
  case (Cons d ds)
  obtain s w1 where s: "on_fl (fl_stat (rg_fl g) name d) w = (s, w1)" by force
  then obtain f where f: "fl_stat (rg_fl g) name d (w_fl w) = (s, f)" "w1 = w\<lparr>w_fl := f\<rparr>" by (rule on_fl_cases)
  have w1: "has (w_fl w1) = has (w_fl w)" "w_ix w1 = w_ix w"
    using assms f unfolding stat_ok_def store_reads_def by auto
  have there: "s = Inr u \<Longrightarrow> has (w_fl w) name d \<noteq> None" for u
    using assms f(1) unfolding stat_ok_def by (auto simp: unit_eq)
  obtain r2 w2 where n: "missing_blobs g name ds w1 = (r2, w2)" by force
  from Cons.IH [OF n] w1 there Cons.prems n show ?case
    by (auto simp: s split: sum.splits if_splits)
qed simp

context index_laws
begin

lemma missing_children_there:
  assumes "rg_ix g = ix"
  shows "good (w_ix w) \<Longrightarrow> missing_children g name ds w = (r, w') \<Longrightarrow>
    good (w_ix w') \<and> intx (w_ix w') = intx (w_ix w) \<and> outer (w_ix w') = (if intx (w_ix w) then outer (w_ix w) else seen (w_ix w)) \<and>
    seen (w_ix w') = seen (w_ix w) \<and> w_fl w' = w_fl w \<and>
    (r = Inr [] \<longrightarrow> (\<forall>d \<in> set ds. indexed (seen (w_ix w)) name d))"
proof (induction ds arbitrary: w r w')
  case Nil
  then show ?case using seen_outer [of "w_ix w"] by auto
next
  case (Cons d ds)
  obtain s w1 where s: "on_ix (ix_get (rg_ix g) name d) w = (s, w1)" by force
  then obtain x where x: "ix_get ix name d (w_ix w) = (s, x)" "w1 = w\<lparr>w_ix := x\<rparr>" unfolding assms by (rule on_ix_cases)
  from opD [OF get_law Cons.prems(1) x(1)]
  have w1: "good (w_ix w1)" "intx (w_ix w1) = intx (w_ix w)" "w_fl w1 = w_fl w" "seen (w_ix w1) = seen (w_ix w)"
    "outer (w_ix w1) = (if intx (w_ix w) then outer (w_ix w) else seen (w_ix w))"
    "\<And>m. s = Inr m \<Longrightarrow> indexed (seen (w_ix w)) name d"
    by (auto simp: x(2) get_spec_def indexed_def)
  obtain r2 w2 where n: "missing_children g name ds w1 = (r2, w2)" by force
  from Cons.IH [OF w1(1) n] w1 Cons.prems(2) n show ?case
    by (auto simp: s split: sum.splits if_splits)
qed

lemma missing_there:
  assumes "rg_ix g = ix" "stat_ok (rg_fl g) has" "good (w_ix w)" "intx (w_ix w)" "missing g name m w = (r, w')"
  shows "good (w_ix w') \<and> intx (w_ix w') \<and> outer (w_ix w') = outer (w_ix w) \<and> seen (w_ix w') = seen (w_ix w) \<and>
    has (w_fl w') = has (w_fl w) \<and>
    (r = Inr [] \<longrightarrow>
       (\<forall>b \<in> set (Blobs m). wellKnown g (d_digest b) = None \<longrightarrow> has (w_fl w) name (d_digest b) \<noteq> None) \<and>
       (\<forall>c \<in> set (slice (mf_manifests m)). d_digest c \<in> d_digest ` set (Blobs m) \<or> indexed (seen (w_ix w)) name (d_digest c)))"
proof -
  let ?bs = "uniq (map d_digest (Blobs m))"
  let ?cs = "filter (\<lambda>d. d \<notin> set ?bs) (uniq (map d_digest (slice (mf_manifests m))))"
  obtain mb w1 where b: "missing_blobs g name (filter (\<lambda>d. wellKnown g d = None) ?bs) w = (mb, w1)" by force
  obtain mc w2 where c: "missing_children g name ?cs w1 = (mc, w2)" by force
  have b1: "has (w_fl w1) = has (w_fl w)" "w_ix w1 = w_ix w"
    "mb = Inr [] \<Longrightarrow> \<forall>d \<in> set (filter (\<lambda>d. wellKnown g d = None) ?bs). has (w_fl w) name d \<noteq> None"
    using missing_blobs_there [OF assms(2) b] by auto
  have c1: "good (w_ix w2)" "intx (w_ix w2)" "outer (w_ix w2) = outer (w_ix w)" "seen (w_ix w2) = seen (w_ix w)"
    "w_fl w2 = w_fl w1" "mc = Inr [] \<Longrightarrow> \<forall>d \<in> set ?cs. indexed (seen (w_ix w)) name d"
    using missing_children_there [OF assms(1) _ c] assms(3,4) b1(2) by auto
  have nil: "sort (xs @ ys) = [] \<longleftrightarrow> xs = [] \<and> ys = []" for xs ys :: "digest list"
    by (metis append_is_Nil_conv set_sort set_empty)
  note eq = assms(5) [unfolded missing_def Let_def b prod.case]
  show ?thesis
  proof (cases mb)
    case (Inl e)
    with eq b1(1,2) assms(3,4) show ?thesis by auto
  next
    case mb: (Inr xs)
    note eq = eq [unfolded mb sum.case c prod.case]
    show ?thesis
    proof (cases mc)
      case (Inl e)
      with eq b1(1,2) c1 assms(3,4) show ?thesis by auto
    next
      case mc: (Inr ys)
      have w': "w' = w2" "r = Inr (sort (xs @ ys))" using eq mc by auto
      show ?thesis
        unfolding w' using b1 c1 mb mc by (auto simp: nil)
    qed
  qed
qed

section \<open>A push\<close>

text \<open>
  What a push leaves: the rows before and after, and the store.  The manifest is indexed and its
  bytes are there, what it needs is there, a tag it was pushed by points at it, and nothing else
  of the index has changed.
\<close>

end

definition pushed :: "('x, 'f) registry \<Rightarrow> ('f \<Rightarrow> string \<Rightarrow> digest \<Rightarrow> string option) \<Rightarrow> string \<Rightarrow> string \<Rightarrow> digest \<Rightarrow> manifest \<Rightarrow>
    rows \<Rightarrow> rows \<Rightarrow> 'f \<Rightarrow> bool" where
  "pushed g has name t d m v v' f =
     ((\<exists>e. ro_manifests v' name d = Some e \<and> (ro_manifests v name d = None \<longrightarrow> en_holds e = Holds m)) \<and>
      (\<forall>b \<in> set (Blobs m). wellKnown g (d_digest b) = None \<longrightarrow> has f name (d_digest b) \<noteq> None) \<and>
      (\<forall>c \<in> set (slice (mf_manifests m)). d_digest c \<in> d_digest ` set (Blobs m) \<or> indexed v name (d_digest c)) \<and>
      (t \<noteq> '''' \<longrightarrow> (\<exists>tg. ro_tags v' name t = Some tg \<and> tg_Digest tg = d)) \<and>
      ro_repos v' name \<noteq> None \<and>
      (\<forall>repo x. (repo, x) \<noteq> (name, d) \<longrightarrow> ro_manifests v' repo x = ro_manifests v repo x) \<and>
      (\<forall>repo n. (repo, n) \<noteq> (name, t) \<longrightarrow> ro_tags v' repo n = ro_tags v repo n) \<and>
      (\<forall>e. ro_manifests v name d = Some e \<longrightarrow> ro_manifests v' name d = Some e))"

context index_laws
begin

text \<open>The tag of a push: where it points is read, checked and set.\<close>

lemma setTag_sets:
  assumes "good x" "intx x" "setTag ix c name t d x = (r, x')"
  shows "good x' \<and> intx x' \<and> outer x' = outer x \<and>
    (r = Inr () \<longrightarrow> (\<exists>tg. tg_Digest tg = d \<and>
       seen x' = (seen x)\<lparr>ro_tags := (ro_tags (seen x))(name := (ro_tags (seen x) name)(t := Some tg))\<rparr>))"
proof -
  obtain q x1 where q: "ix_tag_get ix name t x = (q, x1)" by force
  from opD [OF tag_get_law assms(1) q] assms(2)
  have x1: "good x1" "intx x1" "outer x1 = outer x" "seen x1 = seen x" by (auto simp: tag_get_spec_def)
  have set: "good x2 \<and> intx x2 \<and> outer x2 = outer x \<and>
      (r2 = Inr () \<longrightarrow> (\<exists>tg. tg_Digest tg = d \<and>
         seen x2 = (seen x)\<lparr>ro_tags := (ro_tags (seen x))(name := (ro_tags (seen x) name)(t := Some tg))\<rparr>))"
    if "ix_tag_set ix name t d from x1 = (r2, x2)" for "from" r2 x2
    using opD [OF tag_set_law x1(1) that] x1 by (auto simp: tag_set_spec_def)
  show ?thesis
    using assms(3) x1 set
    by (auto simp: setTag_def tag_from_def q split: sum.splits if_splits option.splits prod.splits)
qed

lemma put_body_pushes:
  assumes "rg_ix g = ix" "stat_ok (rg_fl g) has" "good (w_ix w)" "intx (w_ix w)"
    and "put_body g c name t m rec w = (r, w')"
  shows "good (w_ix w') \<and> intx (w_ix w') \<and> outer (w_ix w') = outer (w_ix w) \<and> has (w_fl w') = has (w_fl w) \<and>
    (r = Inr () \<longrightarrow> pushed g has name t (im_Digest rec) m (seen (w_ix w)) (seen (w_ix w')) (w_fl w))"
proof -
  obtain ms w1 where ms: "missing g name m w = (ms, w1)" by force
  from missing_there [OF assms(1-4) ms]
  have w1: "good (w_ix w1)" "intx (w_ix w1)" "outer (w_ix w1) = outer (w_ix w)" "seen (w_ix w1) = seen (w_ix w)"
    "has (w_fl w1) = has (w_fl w)"
    and need: "ms = Inr [] \<Longrightarrow>
       (\<forall>b \<in> set (Blobs m). wellKnown g (d_digest b) = None \<longrightarrow> has (w_fl w) name (d_digest b) \<noteq> None) \<and>
       (\<forall>c \<in> set (slice (mf_manifests m)). d_digest c \<in> d_digest ` set (Blobs m) \<or> indexed (seen (w_ix w)) name (d_digest c))"
    by auto
  obtain en x2 where en: "ix_repo_ensure ix name (w_ix w1) = (en, x2)" by force
  from opD [OF ensure_law w1(1) en] w1
  have x2: "good x2" "intx x2" "outer x2 = outer (w_ix w)"
    and v2: "\<And>y. en = Inr y \<Longrightarrow> seen x2 = (seen (w_ix w))\<lparr>ro_repos := (ro_repos (seen (w_ix w)))(name := Some y)\<rparr>"
    by (auto simp: ensure_spec_def)
  obtain pu x3 where pu: "ix_put ix name rec (Holds m) x2 = (pu, x3)" by force
  from opD [OF put_law x2(1) pu] x2
  have x3: "good x3" "intx x3" "outer x3 = outer (w_ix w)"
    and v3: "put_spec name rec (Holds m) (seen x2) pu (seen x3)" by auto
  obtain ts x4 where ts: "setTag ix c name t (im_Digest rec) x3 = (ts, x4)" by force
  from setTag_sets [OF x3(1,2) ts] x3(3)
  have x4: "good x4" "intx x4" "outer x4 = outer (w_ix w)"
    and v4: "ts = Inr () \<Longrightarrow> \<exists>tg. tg_Digest tg = im_Digest rec \<and>
       seen x4 = (seen x3)\<lparr>ro_tags := (ro_tags (seen x3))(name := (ro_tags (seen x3) name)(t := Some tg))\<rparr>" by auto
  have put: "pushed g has name '''' (im_Digest rec) m (seen (w_ix w)) (seen x3) (w_fl w) \<and> ro_tags (seen x3) = ro_tags (seen (w_ix w))"
    if "ms = Inr []" "en = Inr y" "pu = Inr ()" for y
    using need [OF that(1)] v2 [OF that(2)] v3 that(3)
    by (auto simp: pushed_def put_spec_def indexed_def split: if_splits)
  have tag: "pushed g has name t (im_Digest rec) m (seen (w_ix w)) (seen x4) (w_fl w)"
    if "ms = Inr []" "en = Inr y" "pu = Inr ()" "ts = Inr ()" for y
    using put [OF that(1-3)] v4 [OF that(4)] by (auto simp: pushed_def)
  show ?thesis
  proof (cases "\<exists>y. ms = Inr [] \<and> en = Inr y \<and> pu = Inr ()")
    case False
    with assms(5) w1 x2 x3 show ?thesis
      by (auto simp: put_body_def ms assms(1) on_ix_def en pu split: sum.splits list.splits)
  next
    case True
    then show ?thesis
      using assms(5) w1 x3 x4 put tag
      by (cases "t = ''''") (auto simp: put_body_def ms assms(1) on_ix_def en pu ts split: sum.splits)
  qed
qed

text \<open>A transaction over the index and the store.\<close>

lemma world_tx_done:
  assumes "rg_ix g = ix" "good (w_ix w)" "\<not> intx (w_ix w)" "world_tx g name fn w = (r, w')"
    and fn: "\<And>x r2 w2. good x \<Longrightarrow> intx x \<Longrightarrow> seen x = seen (w_ix w) \<Longrightarrow> outer x = seen (w_ix w) \<Longrightarrow>
      fn (w\<lparr>w_ix := x\<rparr>) = (r2, w2) \<Longrightarrow>
      good (w_ix w2) \<and> intx (w_ix w2) \<and> outer (w_ix w2) = seen (w_ix w) \<and> P r2 (seen (w_ix w2)) (w_fl w2)"
  shows "good (w_ix w') \<and> \<not> intx (w_ix w') \<and>
    (seen (w_ix w') = seen (w_ix w) \<and> \<not> is_ok r \<or> is_ok r \<and> P r (seen (w_ix w')) (w_fl w'))"
proof -
  obtain b x1 where b: "ix_begin ix name (w_ix w) = (b, x1)" by force
  from begin_law [OF assms(2,3) b] seen_outer [OF assms(2,3)]
  have x1: "good x1" "outer x1 = seen (w_ix w)" "seen x1 = seen (w_ix w)" "intx x1 = is_ok b" by auto
  show ?thesis
  proof (cases b)
    case (Inl e)
    with b x1 assms(4) show ?thesis by (auto simp: world_tx_def Tx_def assms(1))
  next
    case (Inr u)
    obtain r2 w2 where f: "fn (w\<lparr>w_ix := x1\<rparr>) = (r2, w2)" by force
    have w2: "good (w_ix w2)" "intx (w_ix w2)" "outer (w_ix w2) = seen (w_ix w)" "P r2 (seen (w_ix w2)) (w_fl w2)"
      using fn [OF _ _ _ _ f] x1 Inr by auto
    show ?thesis
    proof (cases r2)
      case r2: (Inl e)
      from abort_law [OF w2(1,2), of name] w2(3) seen_outer
      have "seen (ix_abort ix name (w_ix w2)) = seen (w_ix w)" by metis
      with abort_law [OF w2(1,2), of name] b f Inr r2 assms(4) show ?thesis
        by (auto simp: world_tx_def Tx_def assms(1))
    next
      case r2: (Inr y)
      obtain r3 x3 where c: "ix_commit ix name (w_ix w2) = (r3, x3)" by force
      from commit_law [OF w2(1,2) c] w2(3) seen_outer
      have "seen x3 = (if is_ok r3 then seen (w_ix w2) else seen (w_ix w))" by metis
      with commit_law [OF w2(1,2) c] b f Inr r2 c w2(4) assms(4) show ?thesis
        by (cases r3) (auto simp: world_tx_def Tx_def assms(1))
    qed
  qed
qed

lemma putManifest_done:
  assumes "keptw g has None F w" "putManifest g now c h r name arg w = (a, w')"
  shows "(\<exists>e. a = fail h e \<and> seen (w_ix w') = seen (w_ix w)) \<or>
    (\<exists>ref body d m. read_push g r arg = Inr (ref, body, d, m) \<and> a = Some (created_manifest h name d m) \<and>
       has (w_fl w') name d \<noteq> None \<and>
       pushed g has name (ref_tag ref) d m (seen (w_ix w)) (seen (w_ix w')) (w_fl w') \<and>
       (\<exists>x f. fl_add (rg_fl g) name d (int (length body)) body (w_fl w) = (x, f) \<and> add_failed x = None \<and>
          has (w_fl w') = has f))"
proof (cases "read_push g r arg")
  case (Inl e)
  with assms(2) show ?thesis by (auto simp: putManifest_def)
next
  case (Inr z)
  then obtain ref body d m where z: "read_push g r arg = Inr (ref, body, d, m)" by (cases z) auto
  obtain s w1 where s: "on_fl (fl_add (rg_fl g) name d (int (length body)) body) w = (s, w1)" by force
  then have ix: "w_ix w1 = w_ix w" by (rule on_fl_cases) simp
  have add: "fl_add (rg_fl g) name d (int (length body)) body (w_fl w) = (s, w_fl w1)" using s by (rule on_fl_cases) simp
  note k = keptw_add [OF assms(1) s]
  have w1: "rg_ix g = ix" "good (w_ix w1)" "\<not> intx (w_ix w1)" "stat_ok (rg_fl g) has"
    using k(1) by (auto simp: keptw_def kept_def lawful_def store_law_def)
  let ?rec = "record_of m d body now"
  obtain p w2 where p: "world_tx g name (put_body g c name (ref_tag ref) m ?rec) w1 = (p, w2)" by force
  let ?P = "\<lambda>r v f. has f = has (w_fl w1) \<and> (r = Inr () \<longrightarrow> pushed g has name (ref_tag ref) d m (seen (w_ix w1)) v (w_fl w1))"
  have "good (w_ix w2) \<and> \<not> intx (w_ix w2) \<and>
    (seen (w_ix w2) = seen (w_ix w1) \<and> \<not> is_ok p \<or> is_ok p \<and> ?P p (seen (w_ix w2)) (w_fl w2))"
  proof (rule world_tx_done [OF w1(1-3) p])
    fix x r2 w3
    assume "good x" "intx x" "seen x = seen (w_ix w1)" "outer x = seen (w_ix w1)"
      and b: "put_body g c name (ref_tag ref) m ?rec (w1\<lparr>w_ix := x\<rparr>) = (r2, w3)"
    with put_body_pushes [OF w1(1,4) _ _ b]
    show "good (w_ix w3) \<and> intx (w_ix w3) \<and> outer (w_ix w3) = seen (w_ix w1) \<and> ?P r2 (seen (w_ix w3)) (w_fl w3)"
      by (simp add: record_of_def)
  qed
  then show ?thesis
    using assms(2) k(2) ix add by (auto simp: putManifest_def z s p unit_eq pushed_def split: option.splits sum.splits)
qed

end

section \<open>A delete\<close>

text \<open>Nothing but the one blob goes.\<close>

lemma delete_blob_locked_only:
  assumes "stat_ok (rg_fl g) has" "erase_ok (rg_fl g) has" "delete_blob_locked g name d w = (res, w')" "(repo, x) \<noteq> (name, d)"
  shows "has (w_fl w') repo x = has (w_fl w) repo x"
proof -
  have s: "has f' = has f" if "fl_stat (rg_fl g) name d f = (q, f')" for f f' q
    using assms(1) that unfolding stat_ok_def store_reads_def by blast
  have e: "has f' repo x = has f repo x" if "fl_erase (rg_fl g) name d f = (q, f')" for f f' q
    using assms(2,4) that unfolding erase_ok_def by blast
  show ?thesis
    using assms(3) s e
    by (auto simp: delete_blob_locked_def on_ix_def on_fl_def split: prod.splits sum.splits bool.splits if_splits)
qed

context index_laws
begin

lemma deleteBlob_done:
  assumes "keptw g has None F w" "deleteBlob g h name arg w = (a, w')"
  shows "seen (w_ix w') = seen (w_ix w) \<and>
    ((\<exists>e. a = fail h e) \<and> (\<forall>repo x. referenced (seen (w_ix w)) repo x \<longrightarrow> has (w_fl w') repo x = has (w_fl w) repo x) \<or>
     (\<exists>d. a = Some (reply h 202) \<and> ParseDigest (rg_D g) arg = Inr d \<and> wellKnown g d = None \<and>
       \<not> referenced (seen (w_ix w)) name d \<and> has (w_fl w) name d \<noteq> None \<and> has (w_fl w') name d = None \<and>
       (\<forall>repo x. (repo, x) \<noteq> (name, d) \<longrightarrow> has (w_fl w') repo x = has (w_fl w) repo x)))"
proof (cases "ParseDigest (rg_D g) arg")
  case (Inl e)
  with assms(2) show ?thesis by (auto simp: deleteBlob_def simp del: fail_Oci)
next
  case d: (Inr d)
  have k: "rg_ix g = ix" "good (w_ix w)" "\<not> intx (w_ix w)" "stat_ok (rg_fl g) has" "erase_ok (rg_fl g) has"
    using assms(1) by (auto simp: keptw_def kept_def lawful_def store_law_def)
  obtain l x1 where l: "ix_lock ix name (w_ix w) = (l, x1)" by force
  from call(7) [OF k(2) l] k(3) have x1: "good x1" "\<not> intx x1" "seen x1 = seen (w_ix w)" by auto
  obtain res w2 where b: "delete_blob_locked g name d (w\<lparr>w_ix := x1\<rparr>) = (res, w2)" by force
  from delete_blob_locked_erases [OF k(1,4,5) _ _ b] x1
  have w2: "good (w_ix w2)" "seen (w_ix w2) = seen (w_ix w)" "keeps has (seen (w_ix w)) name (w_fl w) (w_fl w2)"
    "is_ok res \<Longrightarrow> \<not> referenced (seen (w_ix w)) name d \<and> has (w_fl w) name d \<noteq> None \<and> has (w_fl w2) name d = None"
    by auto
  have u: "seen (ix_unlock ix name (w_ix w2)) = seen (w_ix w)" using unlock_law [OF w2(1), of name] w2(2) by simp
  have only: "\<forall>repo x. (repo, x) \<noteq> (name, d) \<longrightarrow> has (w_fl w2) repo x = has (w_fl w) repo x"
    using delete_blob_locked_only [OF k(4,5) b] by simp
  have safe: "\<forall>repo x. referenced (seen (w_ix w)) repo x \<longrightarrow> has (w_fl w2) repo x = has (w_fl w) repo x"
    using w2(3) unfolding keeps_def by metis
  show ?thesis
    using assms(2) x1 w2(4) u only safe d
    by (auto simp: deleteBlob_def k(1) on_ix_def l b simp del: fail_Oci split: if_splits sum.splits)
qed

end

section \<open>How deep an eviction goes\<close>

text \<open>The manifests of a repository: each level of an eviction takes one away.\<close>

definition manifests_of :: "rows \<Rightarrow> string \<Rightarrow> digest set" where
  "manifests_of v name = {d. indexed v name d}"

lemma erase_spec_manifests:
  "erase_spec name d v r v' \<Longrightarrow>
    (case r of Inl e \<Rightarrow> manifests_of v' name = manifests_of v name
     | Inr rs \<Rightarrow> d \<in> manifests_of v name \<and> manifests_of v' name = manifests_of v name - {d})"
  by (auto simp: erase_spec_def manifests_of_def indexed_def split: sum.splits if_splits)

context index_laws
begin

lemma listed_ix: "listed g name m w = (ls, w') \<Longrightarrow> w_ix w' = w_ix w"
  by (auto simp: listed_def store_read_def on_fl_def split: if_splits prod.splits sum.splits)

lemma evict_one_takes:
  assumes "rg_ix g = ix" "good (w_ix w)" "evict_one g name d w = (v, w')"
  shows "good (w_ix w') \<and>
    (case v of Evicted rs ls \<Rightarrow> d \<in> manifests_of (seen (w_ix w)) name \<and>
         manifests_of (seen (w_ix w')) name = manifests_of (seen (w_ix w)) name - {d}
     | _ \<Rightarrow> manifests_of (seen (w_ix w')) name = manifests_of (seen (w_ix w)) name)"
proof -
  obtain a x1 where a: "ix_get ix name d (w_ix w) = (a, x1)" by force
  from call(1) [OF assms(2) a] have x1: "good x1" "seen x1 = seen (w_ix w)" by (auto simp: get_spec_def)
  obtain h x2 where h: "ix_holds ix name d x1 = (h, x2)" by force
  from call(2) [OF x1(1) h] x1 have x2: "good x2" "seen x2 = seen (w_ix w)" by (auto simp: holds_spec_def)
  obtain ts x3 where ts: "ix_tag_of ix name d x2 = (ts, x3)" by force
  from call(3) [OF x2(1) ts] x2 have x3: "good x3" "seen x3 = seen (w_ix w)" by (auto simp: tag_of_spec_def)
  have erased: "good (w_ix w5) \<and> erase_spec name d (seen (w_ix w)) er (seen (w_ix w5))"
    if "listed g name m (w\<lparr>w_ix := x3\<rparr>) = (ls, w4)" "on_ix (ix_erase ix name d) w4 = (er, w5)" for m ls w4 er w5
  proof -
    from that(2) obtain x5 where e: "ix_erase ix name d (w_ix w4) = (er, x5)" "w5 = w4\<lparr>w_ix := x5\<rparr>" by (rule on_ix_cases)
    with listed_ix [OF that(1)] have "ix_erase ix name d x3 = (er, x5)" by simp
    from call(4) [OF x3(1) this] x3(2) e(2) show ?thesis by simp
  qed
  show ?thesis
    using assms(3) assms(2) x1 x2 x3
    by (auto simp: evict_one_def assms(1) a h ts on_ix_def [of "ix_get ix name d"] on_ix_def [of "ix_holds ix name d"]
        on_ix_def [of "ix_tag_of ix name d"] dest!: erased erase_spec_manifests split: sum.splits bool.splits list.splits prod.splits)
qed

lemma evict_listed_enough:
  assumes "rg_ix g = ix"
  shows "good (w_ix w) \<Longrightarrow> finite (manifests_of (seen (w_ix w)) name) \<Longrightarrow>
    card (manifests_of (seen (w_ix w)) name) \<le> n \<Longrightarrow> card (manifests_of (seen (w_ix w)) name) \<le> n' \<Longrightarrow>
    evict_listed g name n ds w = ((rs, e), w') \<Longrightarrow>
    evict_listed g name n' ds w = ((rs, e), w') \<and> e \<noteq> EvictStarved \<and> good (w_ix w') \<and>
    manifests_of (seen (w_ix w')) name \<subseteq> manifests_of (seen (w_ix w)) name"
proof (induction n arbitrary: n' ds w rs e w')
  case 0
  from 0 show ?case
  proof (induction ds arbitrary: w rs e w')
    case (Cons d ds)
    obtain v w1 where v: "evict_one g name d w = (v, w1)" by force
    note one = evict_one_takes [OF assms Cons.prems(1) v]
    have none: "manifests_of (seen (w_ix w)) name = {}" using Cons.prems(2,3) by simp
    show ?case
    proof (cases v)
      case EvictSkip
      with one none Cons.prems(5) have "good (w_ix w1)" "manifests_of (seen (w_ix w1)) name = {}"
        "evict_listed g name 0 ds w1 = ((rs, e), w')" by (simp_all add: v)
      then show ?thesis using Cons.IH [of w1 rs e w'] none EvictSkip by (simp add: v)
    next
      case (EvictFail x)
      with one none Cons.prems(5) show ?thesis by (auto simp: v)
    next
      case (Evicted r1 ls)
      with one none show ?thesis by simp
    qed
  qed simp
next
  case (Suc n)
  note IH = Suc.IH
  from Suc.prems show ?case
  proof (induction ds arbitrary: w rs e w')
    case (Cons d ds)
    let ?M = "\<lambda>w. manifests_of (seen (w_ix w)) name"
    obtain v w1 where v: "evict_one g name d w = (v, w1)" by force
    note one = evict_one_takes [OF assms Cons.prems(1) v]
    show ?case
    proof (cases v)
      case (Evicted r1 ls)
      with one have g1: "good (w_ix w1)" "d \<in> ?M w" "?M w1 = ?M w - {d}" by auto
      have "card (?M w1) = card (?M w) - 1" "0 < card (?M w)"
        using g1(2,3) Cons.prems(2) card_gt_0_iff [of "?M w"] by (auto simp: card_Diff_singleton)
      then have c1: "card (?M w1) \<le> n" "card (?M w1) \<le> n' - 1" "finite (?M w1)" "n' \<noteq> 0"
        using g1(3) Cons.prems(2-4) by simp_all
      then obtain k' where k': "n' = Suc k'" using not0_implies_Suc by blast
      obtain kids e1 w2 where k: "evict_listed g name n ls w1 = ((kids, e1), w2)" by (metis surj_pair)
      have kids: "evict_listed g name k' ls w1 = ((kids, e1), w2)" "e1 \<noteq> EvictStarved" "good (w_ix w2)" "?M w2 \<subseteq> ?M w1"
        using IH [OF g1(1) c1(3,1) _ k, of k'] c1(2) k' by auto
      have c2: "finite (?M w2)" "card (?M w2) \<le> Suc n" "card (?M w2) \<le> n'" "?M w2 \<subseteq> ?M w"
        using kids(4) c1 g1(3) card_mono [OF c1(3) kids(4)] rev_finite_subset [OF c1(3) kids(4)] by auto
      obtain rest e2 w3 where r: "evict_listed g name (Suc n) ds w2 = ((rest, e2), w3)" by (metis surj_pair)
      note rest = Cons.IH [OF kids(3) c2(1-3) r]
      show ?thesis
        using Cons.prems(5) kids rest c2(4) k r by (cases e1) (auto simp: v Evicted k')
    next
      case EvictSkip
      with one Cons.prems(5) have "good (w_ix w1)" "?M w1 = ?M w"
        "evict_listed g name (Suc n) ds w1 = ((rs, e), w')" by (simp_all add: v)
      then show ?thesis using Cons.IH [of w1 rs e w'] Cons.prems(2-4) EvictSkip by (simp add: v)
    next
      case (EvictFail x)
      with one Cons.prems(5) show ?thesis by (auto simp: v)
    qed
  qed simp
qed

lemma erase_all_tags_manifests:
  "good x \<Longrightarrow> erase_all_tags ix name ts x = (r, x') \<Longrightarrow> good x' \<and> manifests_of (seen x') name = manifests_of (seen x) name"
proof (induction ts arbitrary: x)
  case (Cons t ts)
  obtain q x1 where q: "ix_tag_erase ix name (tg_Name t) x = (q, x1)" by force
  from opD [OF tag_erase_law Cons.prems(1) q] have "good x1" "manifests_of (seen x1) name = manifests_of (seen x) name"
    by (auto simp: tag_erase_spec_def manifests_of_def indexed_def split: sum.splits)
  with Cons q show ?case by (auto split: sum.splits)
qed simp

lemma erase_and_evict_enough:
  assumes "rg_ix g = ix" "good (w_ix w)" "finite (manifests_of (seen (w_ix w)) name)"
    and "card (manifests_of (seen (w_ix w)) name) \<le> n" "card (manifests_of (seen (w_ix w)) name) \<le> n'"
  shows "erase_and_evict g name n d ls w = erase_and_evict g name n' d ls w"
proof -
  obtain er x where e: "ix_erase ix name d (w_ix w) = (er, x)" by force
  let ?w = "w\<lparr>w_ix := x\<rparr>"
  from call(4) [OF assms(2) e] have x: "good x" "manifests_of (seen x) name \<subseteq> manifests_of (seen (w_ix w)) name"
    by (auto dest!: erase_spec_manifests split: sum.splits)
  have c: "finite (manifests_of (seen x) name)" "card (manifests_of (seen x) name) \<le> n" "card (manifests_of (seen x) name) \<le> n'"
    using x(2) assms(3-5) card_mono [OF assms(3) x(2)] rev_finite_subset [OF assms(3)] by auto
  obtain rs o' w2 where v: "evict_listed g name n ls ?w = ((rs, o'), w2)" by (metis surj_pair)
  have "evict_listed g name n' ls ?w = ((rs, o'), w2)"
    using evict_listed_enough [OF assms(1) _ _ _ _ v, of n'] x(1) c by simp
  then show ?thesis by (simp add: erase_and_evict_def on_ix_def assms(1) e v split: sum.splits)
qed

lemma delete_body_enough:
  assumes "rg_ix g = ix" "good (w_ix w)" "finite (manifests_of (seen (w_ix w)) name)"
    and "card (manifests_of (seen (w_ix w)) name) \<le> n" "card (manifests_of (seen (w_ix w)) name) \<le> n'"
  shows "delete_body g c name n d w = delete_body g c name n' d w"
proof -
  let ?M = "manifests_of (seen (w_ix w)) name"
  obtain a x1 where a: "ix_get ix name d (w_ix w) = (a, x1)" by force
  from call(1) [OF assms(2) a] have x1: "good x1" "manifests_of (seen x1) name = ?M" by (auto simp: get_spec_def)
  have "erase_and_evict g name n d ls w4 = erase_and_evict g name n' d ls w4"
    if l: "w_ix w2 = x1" and t: "on_ix (ix_tag_of ix name d) w2 = (ts, w3)"
      and e: "on_ix (erase_all_tags ix name us) w3 = (er, w4)" for w2 ts w3 us er w4 ls
  proof -
    obtain x3 where x3: "ix_tag_of ix name d x1 = (ts, x3)" "w_ix w3 = x3" using t l by (auto elim!: on_ix_cases)
    obtain x4 where x4: "erase_all_tags ix name us x3 = (er, x4)" "w_ix w4 = x4" using e x3(2) by (auto elim!: on_ix_cases)
    have "good x3" "manifests_of (seen x3) name = ?M" using call(3) [OF x1(1) x3(1)] x1(2) by (auto simp: tag_of_spec_def)
    with erase_all_tags_manifests [OF _ x4(1)] have "good x4" "manifests_of (seen x4) name = ?M" by auto
    with assms(3-5) x4(2) show ?thesis by (intro erase_and_evict_enough [OF assms(1)]) simp_all
  qed
  note tail = this
  show ?thesis
  proof (cases a)
    case (Inl e)
    then show ?thesis by (simp add: delete_body_def assms(1) on_ix_def [of "ix_get ix name d"] a)
  next
    case (Inr m)
    obtain ls w2 where l: "(if proxies_of (rg_Proxies g) name \<noteq> None then listed g name m (w\<lparr>w_ix := x1\<rparr>)
        else ([], w\<lparr>w_ix := x1\<rparr>)) = (ls, w2)" by (metis surj_pair)
    then have w2: "w_ix w2 = x1" using listed_ix [of g name m "w\<lparr>w_ix := x1\<rparr>" ls w2] by (auto split: if_splits)
    obtain ts w3 where ts: "on_ix (ix_tag_of ix name d) w2 = (ts, w3)" by (metis surj_pair)
    have got: "on_ix (ix_get ix name d) w = (Inr m, w\<lparr>w_ix := x1\<rparr>)" by (simp add: on_ix_def a Inr)
    note body = delete_body_def assms(1) got ts l prod.case sum.case
    show ?thesis
    proof (cases ts)
      case (Inl e)
      then show ?thesis by (simp only: body)
    next
      case us: (Inr us)
      obtain er w4 where er: "on_ix (erase_all_tags ix name us) w3 = (er, w4)" by (metis surj_pair)
      from tail [OF w2 ts er] show ?thesis
        by (cases "check_tags c name us"; cases er) (simp_all only: body us er option.case)
    qed
  qed
qed

lemma delete_enough:
  assumes "keptw g has None F w" "finite (manifests_of (seen (w_ix w)) name)"
    and "card (manifests_of (seen (w_ix w)) name) \<le> n" "card (manifests_of (seen (w_ix w)) name) \<le> n'"
  shows "http_deleteManifest g n c h r name arg w = http_deleteManifest g n' c h r name arg w"
proof -
  have k: "rg_ix g = ix" "good (w_ix w)" "\<not> intx (w_ix w)" using assms(1) by (auto simp: keptw_def kept_def)
  obtain b x1 where b: "ix_begin ix name (w_ix w) = (b, x1)" by force
  from begin_law [OF k(2,3) b] have "good x1" "seen x1 = seen (w_ix w)" by auto
  then have "delete_body g c name n d (w\<lparr>w_ix := x1\<rparr>) = delete_body g c name n' d (w\<lparr>w_ix := x1\<rparr>)" for d
    using assms(2-4) by (intro delete_body_enough [OF k(1)]) simp_all
  then have "world_tx g name (delete_body g c name n d) w = world_tx g name (delete_body g c name n' d) w" for d
    by (simp add: world_tx_def Tx_def k(1) b split: sum.splits)
  then show ?thesis by (cases "referenceOf (rg_D g) arg ErrManifestUnknown") (simp_all add: http_deleteManifest_def)
qed

end

end
