(* ===== verification/Registry_Promises.thy ===== *)
theory Registry_Promises
  imports Registry_Push Gc_Sweep Auth_Access
begin

text \<open>
  The properties of the registry as its clients see it, each for the registry on the index in
  memory and a store that keeps its laws: what serving never loses, who gets to a handler, what a
  push and a delete leave, and what the catalog answers.
\<close>

section \<open>A registry to try things on\<close>

definition sample_registry :: "(view, sample_blobs) registry" where
  "sample_registry = \<lparr>rg_ix = mem_ops, rg_fl = sample_store, rg_D = sample_digest_ops, rg_J = sample_decoders,
     rg_MaxManifestSize = 64, rg_ChunkMinLength = 0, rg_DisableWellKnown = False, rg_Guard = None,
     rg_Redirect = False, rg_RedirectTTL = 0, rg_Proxies = [],
     rg_ServeContent = (\<lambda>h r b. (reply h 200)\<lparr>rs_body := Bytes b\<rparr>), rg_EncodeIndex = (\<lambda>ds. ''index''),
     rg_ErrorText = (\<lambda>e. ''error'')\<rparr>"

definition sample_server :: "(view, sample_blobs) server" where
  "sample_server = \<lparr>sv_world = sample_world\<lparr>w_fl := w_fl sample_world @
     [((''acme/app'', ''sha256:c0c0''), ''x''), ((''acme/app'', ''sha256:1111''), ''x'')]\<rparr>, sv_verdicts = []\<rparr>"

lemma sample_serving: "serving sample_registry sample_has sample_server"
proof -
  have "indexed (mem_seen (w_ix sample_world)) repo d \<Longrightarrow> sample_has (w_fl sample_world) repo d \<noteq> None" for repo d
    using sample_calm by (simp add: calm_def whole_def referenced_def)
  then have "stored sample_has (mem_seen (w_ix sample_world)) (w_fl (sv_world sample_server))"
    by (fastforce simp: stored_def sample_server_def sample_has_def map_add_def split: option.splits)
  then show ?thesis
    using sample_calm sample_store_law
    by (simp add: serving_def sample_registry_def lawful_def calm_def sample_server_def)
qed

section \<open>Who gets to a handler\<close>

lemma intersect_all: "length (intersect want gr) = length want \<Longrightarrow> set want \<subseteq> set (intersect want gr)"
  by (metis filter_id_conv intersect_def length_filter_less less_irrefl set_eq_subset)

lemma Allowed_all: "length (Allowed c repo want) = length want \<Longrightarrow> set want \<subseteq> set (Allowed c repo want)"
  by (cases c) (auto simp: Allowed_def Allow_def intersect_all split: option.splits dest!: intersect_all)

lemma AllowedRegistry_all: "length (AllowedRegistry c want) = length want \<Longrightarrow> set want \<subseteq> set (AllowedRegistry c want)"
  by (cases c) (auto simp: AllowedRegistry_def AllowRegistry_def split: option.splits dest!: intersect_all)

text \<open>A caller that the guard let in is allowed all that was wanted.\<close>

definition let_in :: "guard option \<Rightarrow> time \<Rightarrow> request \<Rightarrow> string \<Rightarrow> action list \<Rightarrow> caller \<Rightarrow> bool" where
  "let_in go now r repo want c =
     (guard_check go now r repo want = Inr c \<and>
      (case go of None \<Rightarrow> c = Open
       | Some g \<Rightarrow> guard_Caller g now r = Inr c \<and>
           set want \<subseteq> set (if repo = '''' then AllowedRegistry c want else Allowed c repo want)))"

lemma guard_check_lets_in: "guard_check go now r repo want = Inr c \<Longrightarrow> let_in go now r repo want c"
  using Allowed_all [of c repo want] AllowedRegistry_all [of c want]
  by (auto simp: let_in_def guard_check_def Let_def split: option.splits sum.splits if_splits)

text \<open>A method that a route does not have changes nothing.\<close>

lemma dispatch_no_method:
  assumes "need rt (rq_Method r) arg = None"
  shows "dispatch g n now c h r name rt arg s = (a, s') \<Longrightarrow> s' = s"
  using assms
  by (auto simp: dispatch_def need_def on_world_def dispatch_blob_def dispatch_upload_def dispatch_manifest_def only_def
      Let_def is_GET_def split: route.splits if_splits)

lemma admission_lets_in:
  assumes "admission g now h r name rt arg = Inr c" "need rt (rq_Method r) arg = Some want"
  shows "let_in (rg_Guard g) now r name want c \<and> ValidName name \<and>
    (proxies_of (rg_Proxies g) name = None \<or> \<not> writes rt (rq_Method r))"
  using assms by (auto simp: admission_def split: if_splits sum.splits option.splits intro: guard_check_lets_in)

section \<open>Requests one after another\<close>

inductive served :: "('x, 'f) registry \<Rightarrow> ('x, 'f) server \<Rightarrow> ('x, 'f) server \<Rightarrow> bool" for g s where
  start: "served g s s"
| request: "served g s s1 \<Longrightarrow> ServeHTTP g n now r s1 = Some (a, s2) \<Longrightarrow> served g s s2"

lemma served_serving: "served g s s' \<Longrightarrow> serving g has s \<Longrightarrow> serving g has s'"
proof (induction rule: served.induct)
  case (request s1 n now r a s2)
  with serve_step [of g has s1 n now r] show ?case by auto
qed

section \<open>A store and an index that answer\<close>

text \<open>
  A store that is up: it opens what it has, and answers the bytes; it says their size; and an
  \<open>Add\<close> of what it does not have keeps the bytes it was given.
\<close>

definition store_up :: "'f store_ops \<Rightarrow> ('f \<Rightarrow> string \<Rightarrow> digest \<Rightarrow> string option) \<Rightarrow> bool" where
  "store_up fl has =
     ((\<forall>repo d f b. has f repo d = Some b \<longrightarrow> (\<exists>f'. fl_open fl repo d f = (Inr b, f') \<and> has f' repo d = Some b)) \<and>
      (\<forall>repo d f b. has f repo d = Some b \<longrightarrow> (\<exists>n f'. fl_size fl repo d f = (Inr n, f'))) \<and>
      (\<forall>repo d n b f r f'. has f repo d = None \<longrightarrow> fl_add fl repo d n b f = (r, f') \<longrightarrow> has f' repo d \<in> {None, Some b}))"

lemma sample_store_up: "store_up sample_store sample_has"
  by (auto simp: store_up_def sample_store_def sample_has_def split: if_splits)

text \<open>An index whose waits are not interrupted answers what it has.\<close>

definition idle :: "view \<Rightarrow> bool" where
  "idle v = (vw_s v = None \<and> mi_acquire (vw_ix v) = [])"

lemma idle_do: "idle v \<Longrightarrow> view_do f v = (case f (mi_s (vw_ix v)) of (r, s) \<Rightarrow> (r, v\<lparr>vw_ix := (vw_ix v)\<lparr>mi_s := s\<rparr>\<rparr>))"
  by (simp add: view_do_def idle_def acquire_def split: prod.splits)

lemma idle_tag_get:
  "idle v \<Longrightarrow> ro_tags (mem_seen v) repo n = Some t \<Longrightarrow> ix_tag_get mem_ops repo n v = (Inr t, v)"
  by (simp add: mem_ops_sel idle_do tags_Get_def) (simp add: idle_def mem_seen_def rows_of_def)

lemma idle_get:
  "idle v \<Longrightarrow> ro_manifests (mem_seen v) repo d = Some e \<Longrightarrow> ix_get mem_ops repo d v = (Inr (en_m e), v)"
  by (simp add: mem_ops_sel idle_do manifests_Get_def) (simp add: idle_def mem_seen_def rows_of_def)

lemma fail_body: "fail h e = Some a \<Longrightarrow> \<exists>x. rs_body a = Envelope x"
  by (auto simp: fail_def WriteError_def Let_def split: option.splits if_splits)

lemma fail_not_created: "fail h e \<noteq> Some (created_manifest h' name d m)"
  using fail_body [of h e] by (auto simp: created_manifest_def reply_def Let_def)

text \<open>A pull of what is there.\<close>

lemma pull_answers:
  assumes "rg_ix g = mem_ops" "store_up (rg_fl g) has" "proxies_of (rg_Proxies g) name = None" "idle (w_ix w)"
    and "ParseReference (rg_D g) arg = Inr ref" "rq_Method r = ''GET''"
    and "if ref_tag ref = '''' then ref_digest ref = d else \<exists>tg. ro_tags (mem_seen (w_ix w)) name (ref_tag ref) = Some tg \<and> tg_Digest tg = d"
    and "ro_manifests (mem_seen (w_ix w)) name d = Some e" "has (w_fl w) name d = Some b"
  shows "\<exists>n w'. getManifest g now h r name arg vd w =
    (Some ((reply (hset ''Content-Length'' (itoa n) (manifest_headers (en_m e) d h)) 200)\<lparr>rs_body := Bytes b\<rparr>), vd, w')"
proof -
  have ref: "referenceOf (rg_D g) arg ErrManifestUnknown = Inr ref" using assms(5) by (simp add: referenceOf_def)
  have res: "resolve_ref g name ref w = (Inr d, w)"
    using assms(7) idle_tag_get [OF assms(4)] by (auto simp: resolve_ref_def on_ix_def assms(1) split: if_splits)
  have get: "on_ix (ix_get (rg_ix g) name d) w = (Inr (en_m e), w)"
    using idle_get [OF assms(4,8)] by (simp add: on_ix_def assms(1))
  obtain f where f: "fl_open (rg_fl g) name d (w_fl w) = (Inr b, f)" "has f name d = Some b"
    using assms(2,9) unfolding store_up_def by metis
  obtain n f' where n: "fl_size (rg_fl g) name d f = (Inr n, f')" using assms(2) f(2) unfolding store_up_def by metis
  have "getManifest g now h r name arg vd w =
    (Some ((reply (hset ''Content-Length'' (itoa n) (manifest_headers (en_m e) d h)) 200)\<lparr>rs_body := Bytes b\<rparr>), vd,
     touch g name (ref_tag ref) d now (w\<lparr>w_fl := f'\<rparr>))"
    by (simp add: getManifest_def ref pull_first_def admit_first_def assms(3,6) res get answer_manifest_def Let_def on_fl_def f n)
  then show ?thesis by blast
qed

section \<open>Properties\<close>

text \<open>
  C1: nothing happens for a caller who may not do it.  A request that changes anything, in the
  index, in the store or in what is remembered, is one the guard let through: the caller is the
  one the guard made out, the policy or the token allows them every action the route needs on the
  repository the request was found to be for, whose name is valid, and the repository is not a
  pull-through cache that the request would write to; or it reads the catalog, and may.
\<close>

theorem only_the_allowed_act:
  assumes "ServeHTTP g n now r s = Some (a, s')" and "s' \<noteq> s"
  shows "(\<exists>c. rq_Path r = ''/v2/_catalog'' \<and> let_in (rg_Guard g) now r '''' [ActionCatalog] c) \<or>
    (\<exists>rest name0 rt arg name c want.
       rq_Path r = ''/v2/'' @ rest \<and> parse rest = (name0, rt, arg) \<and>
       named (rg_Proxies g) name0 (query_get r ''ns'') (rq_Host r) = (name, True) \<and> ValidName name \<and>
       need rt (rq_Method r) arg = Some want \<and> let_in (rg_Guard g) now r name want c \<and>
       (proxies_of (rg_Proxies g) name = None \<or> \<not> writes rt (rq_Method r)) \<and>
       dispatch g n now c api_header r name rt arg s = (a, s'))"
proof -
  obtain rest where cut: "cut_prefix (rq_Path r) ''/v2/'' = Some rest"
    using assms by (auto simp: ServeHTTP_def Let_def split: if_splits option.splits)
  note rest = cut cut [unfolded cut_prefix_Some]
  show ?thesis
  proof (cases "rest = ''_catalog''")
    case True
    then obtain c where c: "guard_check (rg_Guard g) now r '''' [ActionCatalog] = Inr c"
      using assms rest by (auto simp: ServeHTTP_def Let_def split: sum.splits if_splits)
    from guard_check_lets_in [OF c] rest(2) True show ?thesis by auto
  next
    case False
    obtain name0 rt arg where p: "parse rest = (name0, rt, arg)" by (metis surj_pair)
    obtain name ok where nm: "named (rg_Proxies g) name0 (query_get r ''ns'') (rq_Host r) = (name, ok)" by force
    have "serve_repo g n now api_header r rest s = (a, s')"
      using assms rest False by (auto simp: ServeHTTP_def Let_def split: if_splits)
    then obtain c where c: "ok" "admission g now api_header r name rt arg = Inr c"
      "dispatch g n now c api_header r name rt arg s = (a, s')"
      using assms(2) by (auto simp: serve_repo_def p nm Let_def split: if_splits sum.splits)
    from dispatch_no_method [OF _ c(3)] assms(2) obtain want where w: "need rt (rq_Method r) arg = Some want" by fastforce
    from nm c(1) have "named (rg_Proxies g) name0 (query_get r ''ns'') (rq_Host r) = (name, True)" by simp
    with admission_lets_in [OF c(2) w] w c(3) p rest(2) show ?thesis by blast
  qed
qed

definition sample_guarded :: "(view, sample_blobs) registry" where
  "sample_guarded = sample_registry\<lparr>rg_Guard := Some sample_guard\<rparr>"

definition sample_pull :: request where
  "sample_pull = sample_request\<lparr>rq_Header := [(''Authorization'', ''Bearer h.p.s'')]\<rparr>"

lemma sample_pull_counts:
  "\<exists>a s'. ServeHTTP sample_guarded 0 (200 * Second) sample_pull sample_server = Some (a, s') \<and> s' \<noteq> sample_server \<and>
     map_option rs_status a = Some 200"
proof -
  let ?at = "\<lambda>s. map_option tg_PulledAt (ro_tags (mem_seen (w_ix (sv_world s))) ''acme/app'' ''v1'')"
  have "map_option (\<lambda>(a, s). (map_option rs_status a, ?at s))
      (ServeHTTP sample_guarded 0 (200 * Second) sample_pull sample_server) = Some (Some 200, Some (200 * Second))"
    by code_simp
  moreover have "?at sample_server = Some 0" by code_simp
  ultimately show ?thesis by (auto simp: Second_def)
qed

lemma only_the_allowed_act_witness:
  "\<exists>a s'. ServeHTTP sample_guarded 0 (200 * Second) sample_pull sample_server = Some (a, s') \<and> s' \<noteq> sample_server \<and>
    (\<exists>name want c. let_in (Some sample_guard) (200 * Second) sample_pull name want c)"
proof -
  obtain a s' where s: "ServeHTTP sample_guarded 0 (200 * Second) sample_pull sample_server = Some (a, s')" "s' \<noteq> sample_server"
    using sample_pull_counts by blast
  from only_the_allowed_act [OF s] show ?thesis using s by (auto simp: sample_guarded_def)
qed

text \<open>
  C2: serving loses nothing.  From a registry at rest whose manifests all have their bytes in the
  store, any request, served after any sequence of requests, is answered; every manifest in the
  index then still has its bytes, and everything in the store that the index refers to, the blobs
  and the children of its manifests too, is there as it was.
\<close>

theorem serving_loses_nothing:
  assumes "serving g has s" and "served g s s1"
  shows "\<exists>a s2. ServeHTTP g n now r s1 = Some (a, s2) \<and> serving g has s2 \<and> loses_nothing has s1 s2"
  using serve_step served_serving [OF assms(2,1)] by blast

lemma serving_loses_nothing_witness:
  "\<exists>a s2. ServeHTTP sample_registry 3 (200 * Second) (sample_request\<lparr>rq_Method := ''DELETE''\<rparr>) sample_server = Some (a, s2) \<and>
    serving sample_registry sample_has s2 \<and> loses_nothing sample_has sample_server s2"
  by (rule serving_loses_nothing [OF sample_serving served.start])

text \<open>
  C3: a push is whole or nothing.  It answers an error and leaves the index as it was; or it
  answers that the manifest was created, and then the manifest is in the index with its bytes in
  the store, every blob it holds that must be there was in the store and every manifest it lists
  in the index, the tag it was pushed by points at it, and no other manifest and no other tag has
  changed.
\<close>

theorem push_is_whole_or_nothing:
  assumes "serving g has s" and "putManifest g now c h r name arg (sv_world s) = (a, w')"
  shows "(\<exists>e. a = fail h e \<and> mem_seen (w_ix w') = mem_seen (w_ix (sv_world s))) \<or>
    (\<exists>ref body d m. read_push g r arg = Inr (ref, body, d, m) \<and> a = Some (created_manifest h name d m) \<and>
       has (w_fl w') name d \<noteq> None \<and>
       pushed g has name (ref_tag ref) d m (mem_seen (w_ix (sv_world s))) (mem_seen (w_ix w')) (w_fl w'))"
  using mem.putManifest_done [OF assms(1) [unfolded serving_keptw] assms(2)] by blast

definition sample_push :: request where
  "sample_push = sample_request\<lparr>rq_Method := ''PUT'', rq_Body := Inr ''{}''\<rparr>"

lemma push_is_whole_or_nothing_witness:
  "case putManifest sample_registry (200 * Second) Open [] sample_push ''acme/app'' ''v2'' (sv_world sample_server) of (a, w') \<Rightarrow>
    map_option rs_status a = Some 201 \<and>
    pushed sample_registry sample_has ''acme/app'' ''v2'' ''sha256:{}00'' sample_manifest
      (mem_seen (w_ix (sv_world sample_server))) (mem_seen (w_ix w')) (w_fl w')"
proof -
  obtain a w' where p: "putManifest sample_registry (200 * Second) Open [] sample_push ''acme/app'' ''v2''
      (sv_world sample_server) = (a, w')" by force
  have rd: "read_push sample_registry sample_push ''v2'' =
      Inr (\<lparr>ref_tag = ''v2'', ref_digest = ''''\<rparr>, ''{}'', ''sha256:{}00'', sample_manifest)" by code_simp
  let ?seen = "\<lambda>p. (map_option rs_status (fst p), map_option tg_Digest (ro_tags (mem_seen (w_ix (snd p))) ''acme/app'' ''v2''))"
  have "?seen (putManifest sample_registry (200 * Second) Open [] sample_push ''acme/app'' ''v2'' (sv_world sample_server)) =
      (Some 201, Some ''sha256:{}00'')" by code_simp
  moreover have "ro_tags (mem_seen (w_ix (sv_world sample_server))) ''acme/app'' ''v2'' = None" by code_simp
  ultimately have ok: "map_option rs_status a = Some 201" "mem_seen (w_ix w') \<noteq> mem_seen (w_ix (sv_world sample_server))"
    using p by auto
  from push_is_whole_or_nothing [OF sample_serving p] ok(2) rd
  have "pushed sample_registry sample_has ''acme/app'' ''v2'' ''sha256:{}00'' sample_manifest
      (mem_seen (w_ix (sv_world sample_server))) (mem_seen (w_ix w')) (w_fl w')" by (metis Inr_inject Pair_inject reference.select_convs(1))
  with ok(1) show ?thesis unfolding p prod.case ..
qed

text \<open>
  C4: a pull after a push answers the bytes that were pushed.  Once a push to a repository that is
  no cache is answered with its success, a \<open>GET\<close> of the same reference, tag or digest, is answered
  with status 200, the digest the bytes hash to and the bytes themselves, as long as the index and
  the store are up.
\<close>

theorem pull_after_push:
  assumes "serving g has s" and "store_up (rg_fl g) has" and "proxies_of (rg_Proxies g) name = None"
    and "read_push g r arg = Inr (ref, body, d, m)" and "has (w_fl (sv_world s)) name d \<in> {None, Some body}"
    and "putManifest g now c h r name arg (sv_world s) = (Some (created_manifest h name d m), w1)"
    and "idle (w_ix w1)" and "rq_Method q = ''GET''"
  shows "\<exists>n (e :: entry) w2. getManifest g now' h' q name arg vd w1 =
    (Some ((reply (hset ''Content-Length'' (itoa n) (manifest_headers (en_m e) d h')) 200)\<lparr>rs_body := Bytes body\<rparr>), vd, w2)"
proof -
  note k = assms(1) [unfolded serving_keptw]
  have ixg: "rg_ix g = mem_ops" using assms(1) by (simp add: serving_def)
  from mem.putManifest_done [OF k assms(6)] assms(4) fail_not_created
  obtain x f where there: "has (w_fl w1) name d \<noteq> None"
    and p: "pushed g has name (ref_tag ref) d m (mem_seen (w_ix (sv_world s))) (mem_seen (w_ix w1)) (w_fl w1)"
    and add: "fl_add (rg_fl g) name d (int (length body)) body (w_fl (sv_world s)) = (x, f)" "has (w_fl w1) = has f"
    by (metis Inr_inject Pair_inject)
  have b: "has (w_fl w1) name d = Some body"
  proof (cases "has (w_fl (sv_world s)) name d = None")
    case True
    with assms(2) add(1) have "has f name d \<in> {None, Some body}" unfolding store_up_def by blast
    with there add(2) show ?thesis by auto
  next
    case False
    have "add_ok (rg_fl g) has" using assms(1) by (simp add: serving_def lawful_def store_law_def)
    with add(1) False have "has f name d = has (w_fl (sv_world s)) name d" unfolding add_ok_def by blast
    with False assms(5) add(2) show ?thesis by auto
  qed
  obtain e where e: "ro_manifests (mem_seen (w_ix w1)) name d = Some e" using p by (auto simp: pushed_def)
  have ref: "ParseReference (rg_D g) arg = Inr ref" "ref_digest ref \<noteq> '''' \<Longrightarrow> ref_digest ref = d"
    using assms(4) by (auto simp: read_push_def referenceOf_def Let_def split: sum.splits if_splits)
  have "\<not> ValidTag ''''" by code_simp
  then have "ref_tag ref = '''' \<Longrightarrow> ref_digest ref \<noteq> ''''"
    using ParseReference_Inr(4) [OF ref(1)] unfolding IsDigest_def by metis
  with ref(2) p have "if ref_tag ref = '''' then ref_digest ref = d
      else \<exists>tg. ro_tags (mem_seen (w_ix w1)) name (ref_tag ref) = Some tg \<and> tg_Digest tg = d" by (simp add: pushed_def)
  from pull_answers [OF ixg assms(2,3,7) ref(1) assms(8) this e b, of now' h' vd] show ?thesis by blast
qed

lemma pull_after_push_witness:
  "\<exists>n (e :: entry) w1 w2. putManifest sample_registry (200 * Second) Open [] sample_push ''acme/app'' ''v2'' (sv_world sample_server) =
      (Some (created_manifest [] ''acme/app'' ''sha256:{}00'' sample_manifest), w1) \<and>
    getManifest sample_registry (300 * Second) [] sample_request ''acme/app'' ''v2'' [] w1 =
      (Some ((reply (hset ''Content-Length'' (itoa n) (manifest_headers (en_m e) ''sha256:{}00'' [])) 200)\<lparr>rs_body := Bytes ''{}''\<rparr>), [], w2)"
proof -
  have rd: "read_push sample_registry sample_push ''v2'' =
      Inr (\<lparr>ref_tag = ''v2'', ref_digest = ''''\<rparr>, ''{}'', ''sha256:{}00'', sample_manifest)" by code_simp
  obtain a w1 where p: "putManifest sample_registry (200 * Second) Open [] sample_push ''acme/app'' ''v2''
      (sv_world sample_server) = (a, w1)" by force
  let ?seen = "\<lambda>p. (fst p, vw_s (w_ix (snd p)), mi_acquire (vw_ix (w_ix (snd p))))"
  have "?seen (putManifest sample_registry (200 * Second) Open [] sample_push ''acme/app'' ''v2'' (sv_world sample_server)) =
      (Some (created_manifest [] ''acme/app'' ''sha256:{}00'' sample_manifest), None, [])" by code_simp
  with p have a: "a = Some (created_manifest [] ''acme/app'' ''sha256:{}00'' sample_manifest)" "idle (w_ix w1)"
    by (simp_all add: idle_def)
  have h: "sample_has (w_fl (sv_world sample_server)) ''acme/app'' ''sha256:{}00'' \<in> {None, Some ''{}''}" by code_simp
  have pr: "proxies_of (rg_Proxies sample_registry) ''acme/app'' = None" "rq_Method sample_request = ''GET''"
    by (simp_all add: proxies_of_def sample_registry_def sample_request_def)
  have up: "store_up (rg_fl sample_registry) sample_has" by (simp add: sample_registry_def sample_store_up)
  from pull_after_push [OF sample_serving up pr(1) rd h p [unfolded a] a(2) pr(2)] p a(1) show ?thesis by blast
qed

text \<open>
  C6: a deleted blob is one that nothing needs.  A \<open>DELETE\<close> of a blob answers an error, and then
  everything the index refers to is in the store as it was; or it answers 202, and then the blob
  was there, no manifest of the repository held it and it was none itself, it is gone, and nothing
  else has changed, in this repository or another.
\<close>

theorem deleted_blob_was_not_needed:
  assumes "serving g has s" and "deleteBlob g h name arg (sv_world s) = (a, w')"
  shows "mem_seen (w_ix w') = mem_seen (w_ix (sv_world s)) \<and>
    ((\<exists>e. a = fail h e) \<and> {(repo, x). referenced (mem_seen (w_ix w')) repo x} \<subseteq>
       {(repo, x). has (w_fl w') repo x = has (w_fl (sv_world s)) repo x} \<or>
     (\<exists>d. a = Some (reply h 202) \<and> ParseDigest (rg_D g) arg = Inr d \<and> wellKnown g d = None \<and>
       \<not> referenced (mem_seen (w_ix w')) name d \<and>
       has (w_fl (sv_world s)) name d \<noteq> None \<and> has (w_fl w') = (has (w_fl (sv_world s)))(name := (has (w_fl (sv_world s)) name)(d := None))))"
proof -
  have eq: "has f' = (has f)(name := (has f name)(d := None))"
    if "has f' name d = None" "\<forall>repo x. (repo, x) \<noteq> (name, d) \<longrightarrow> has f' repo x = has f repo x" for f f' d
  proof (intro ext)
    fix repo x
    show "has f' repo x = ((has f)(name := (has f name)(d := None))) repo x" using that by (cases "(repo, x) = (name, d)") auto
  qed
  from mem.deleteBlob_done [OF assms(1) [unfolded serving_keptw] assms(2)]
  show ?thesis
  proof (elim conjE disjE exE)
    fix e
    assume "mem_seen (w_ix w') = mem_seen (w_ix (sv_world s))" "a = fail h e"
      "\<forall>repo x. referenced (mem_seen (w_ix (sv_world s))) repo x \<longrightarrow> has (w_fl w') repo x = has (w_fl (sv_world s)) repo x"
    then show ?thesis by auto
  next
    fix d
    assume d: "mem_seen (w_ix w') = mem_seen (w_ix (sv_world s))" "a = Some (reply h 202)" "ParseDigest (rg_D g) arg = Inr d"
      "wellKnown g d = None" "\<not> referenced (mem_seen (w_ix (sv_world s))) name d"
      "has (w_fl (sv_world s)) name d \<noteq> None" "has (w_fl w') name d = None"
      "\<forall>repo x. (repo, x) \<noteq> (name, d) \<longrightarrow> has (w_fl w') repo x = has (w_fl (sv_world s)) repo x"
    from eq [OF d(7,8)] d(1-6) show ?thesis by metis
  qed
qed

lemma deleted_blob_was_not_needed_witness:
  "case deleteBlob sample_registry [] ''acme/app'' ''sha256:c0c0'' (sv_world sample_server) of (a, w') \<Rightarrow>
    a = Some (reply [] 202) \<and> \<not> referenced (mem_seen (w_ix w')) ''acme/app'' ''sha256:c0c0'' \<and>
    sample_has (w_fl w') ''acme/app'' ''sha256:c0c0'' = None"
proof -
  obtain a w' where d: "deleteBlob sample_registry [] ''acme/app'' ''sha256:c0c0'' (sv_world sample_server) = (a, w')" by force
  have "fst (deleteBlob sample_registry [] ''acme/app'' ''sha256:c0c0'' (sv_world sample_server)) = Some (reply [] 202)" by code_simp
  with d have a: "a = Some (reply [] 202)" by simp
  have n: "fail [] e \<noteq> Some (reply [] 202)" for e using fail_body [of "[]" e] by (auto simp: reply_def)
  have p: "ParseDigest (rg_D sample_registry) ''sha256:c0c0'' = Inr ''sha256:c0c0''" by code_simp
  from deleted_blob_was_not_needed [OF sample_serving d] a n p show ?thesis unfolding d prod.case by force
qed

text \<open>
  C23: a delete follows indexes to their end.  The depth that bounds the eviction of what an index
  lists makes no difference once it is the number of manifests the repository has: a larger bound
  answers the same and leaves the same, and the bound is never run into.
\<close>

theorem delete_follows_indexes_to_the_end:
  assumes "serving g has s" and "card (manifests_of (mem_seen (w_ix (sv_world s))) name) \<le> n"
  shows "http_deleteManifest g n c h r name arg (sv_world s) =
      http_deleteManifest g (card (manifests_of (mem_seen (w_ix (sv_world s))) name)) c h r name arg (sv_world s) \<and>
    snd (fst (evict_listed g name n ds (sv_world s))) \<noteq> EvictStarved"
proof -
  have fin: "finite (manifests_of (mem_seen (w_ix (sv_world s))) name)" unfolding manifests_of_def by (rule finite_rows)
  have k: "rg_ix g = mem_ops" "mem_good (w_ix (sv_world s))" using assms(1) by (simp_all add: serving_def)
  obtain rs e w' where "evict_listed g name n ds (sv_world s) = ((rs, e), w')" by (metis surj_pair)
  with mem.evict_listed_enough [OF k fin assms(2,2) this] mem.delete_enough [OF assms(1) [unfolded serving_keptw] fin assms(2) order_refl]
  show ?thesis by simp
qed

lemma delete_follows_indexes_to_the_end_witness:
  "http_deleteManifest sample_registry 7 Open [] sample_request ''acme/app'' ''sha256:abcd'' (sv_world sample_server) =
     http_deleteManifest sample_registry (card (manifests_of (mem_seen (w_ix (sv_world sample_server))) ''acme/app'')) Open []
       sample_request ''acme/app'' ''sha256:abcd'' (sv_world sample_server) \<and>
   snd (fst (evict_listed sample_registry ''acme/app'' 7 [''sha256:m1''] (sv_world sample_server))) \<noteq> EvictStarved"
proof (rule delete_follows_indexes_to_the_end [OF sample_serving])
  let ?ms = "inner (st_manifests (mi_s (vw_ix sample_index))) ''acme/app''"
  have "manifests_of (mem_seen (w_ix (sv_world sample_server))) ''acme/app'' \<subseteq> fst ` set ?ms"
    using sample_index_good
    by (auto simp: manifests_of_def indexed_def sample_server_def sample_world_def mem_seen_def mem_intx_def rows_of_def man_def
        dest!: map_of_SomeD intro: rev_image_eqI)
  then have "card (manifests_of (mem_seen (w_ix (sv_world sample_server))) ''acme/app'') \<le> card (fst ` set ?ms)"
    by (rule card_mono [rotated]) simp
  also have "\<dots> \<le> length ?ms" using card_image_le [of "set ?ms" fst] card_length [of ?ms] by simp
  also have "length ?ms = 2" by code_simp
  finally show "card (manifests_of (mem_seen (w_ix (sv_world sample_server))) ''acme/app'') \<le> 7" by simp
qed

text \<open>
  C8: the catalog answers what the caller may pull.  The reading of the index page by page ends,
  the index and the store are as before, and unless a page could not be read the answer lists, in
  order, the repositories after the one asked for that the caller may pull, all of them or as many
  as were asked for, and links to the next page when it is full.
\<close>

theorem catalog_lists_what_may_be_pulled:
  assumes "serving g has s"
  shows "\<exists>a w'. catalog g c h r (sv_world s) = Some (a, w') \<and> serving g has (s\<lparr>sv_world := w'\<rparr>) \<and>
    ((\<exists>e. a = fail h e) \<or>
     (let names = catalog_names c (pageOf r) (mem_seen (w_ix (sv_world s))) in
      a = Some (reply_json (page_headers ''/v2/_catalog'' (pageOf r) names h) r 200 ''application/json''
        (JObj [(''repositories'', strings_json names)]))))"
proof -
  obtain a w' where c: "catalog g c h r (sv_world s) = Some (a, w')"
    "index_laws.keptw mem_ops mem_good mem_seen mem_outer mem_intx g has None (w_fl (sv_world s)) w'"
    "(\<exists>e. a = fail h e) \<or>
     (let names = catalog_names c (pageOf r) (mem_seen (w_ix (sv_world s))) in
      a = Some (reply_json (page_headers ''/v2/_catalog'' (pageOf r) names h) r 200 ''application/json''
        (JObj [(''repositories'', strings_json names)])))"
    using catalog_answers [OF assms [unfolded serving_keptw], of c h r] by blast
  moreover have "serving g has (s\<lparr>sv_world := w'\<rparr>)"
    using mem.keptw_rested [OF c(2)] serving_rested [of g has s "s\<lparr>sv_world := w'\<rparr>"] by simp
  ultimately show ?thesis by blast
qed

lemma catalog_lists_what_may_be_pulled_witness:
  "\<exists>a w'. catalog sample_registry Open [] sample_request (sv_world sample_server) = Some (a, w') \<and>
    serving sample_registry sample_has (sample_server\<lparr>sv_world := w'\<rparr>) \<and>
    ((\<exists>e. a = fail [] e) \<or>
     (let names = catalog_names Open (pageOf sample_request) (mem_seen (w_ix (sv_world sample_server))) in
      a = Some (reply_json (page_headers ''/v2/_catalog'' (pageOf sample_request) names []) sample_request 200 ''application/json''
        (JObj [(''repositories'', strings_json names)]))))"
  by (rule catalog_lists_what_may_be_pulled [OF sample_serving])

text \<open>
  C15: what went wrong inside stays inside.  An error that is not one of the registry's own answers
  is answered, if the client is still there, with one of four answers that say nothing of it: 500,
  502, 503 or 504, so no text of a store, an index or an upstream reaches a client.
\<close>

theorem inner_errors_stay_inside:
  assumes "as_oci e = None"
  shows "fail h e \<in> insert None (Some ` {WriteError h (Oci (ErrUnavailable ''1'' (DText ''the repository is being written to; retry''))),
      WriteError h (Oci (ErrGatewayTimeout (DText ''the upstream did not answer''))),
      WriteError h (Oci (ErrBadGateway (DText ''the upstream answered with an error''))), WriteError h (Other '''')}) \<and>
    map_option rs_status (fail h e) \<in> {None, Some 500, Some 502, Some 503, Some 504}"
proof (cases "fail h e")
  case (Some a)
  from fail_no_leak [OF assms Some] Some show ?thesis
    by (auto simp: WriteError_status ErrUnavailable_def ErrGatewayTimeout_def ErrBadGateway_def NewError_def WithHeader_def)
qed simp

lemma inner_errors_stay_inside_witness:
  "map_option rs_status (fail [] (Wrapped ''dial 10.0.0.7: '' UpstreamUnreachable)) \<in> {None, Some 500, Some 502, Some 503, Some 504}"
  using inner_errors_stay_inside [of "Wrapped ''dial 10.0.0.7: '' UpstreamUnreachable" "[]"] by simp

end
