(* ===== verification/Registry_Created.thy ===== *)
theory Registry_Created
  imports Registry_Promises
begin

text \<open>
  A blob that a client is told was created is there: the four ways to push one, in one request, by
  a mount, by a copy when the stores cannot link, and in chunks, with the second hashing of a
  session that began under another algorithm.
\<close>

section \<open>What is relied on of a store that takes blobs\<close>

text \<open>
  A link that did not fail, or failed because the blob is there, leaves it there; a commit answers
  the digest it kept the bytes under, the one it was asked for if it was asked for one.
\<close>

definition brings :: "'f store_ops \<Rightarrow> ('f \<Rightarrow> string \<Rightarrow> digest \<Rightarrow> string option) \<Rightarrow> bool" where
  "brings fl has =
     (add_ok fl has \<and> stat_ok fl has \<and>
      (\<forall>repo d from f r f'. fl_link fl repo d from f = (r, f') \<longrightarrow>
         is_ok r \<or> (\<exists>e. r = Inl e \<and> errors_is e (Flob AlreadyExists)) \<longrightarrow> has f' repo d \<noteq> None) \<and>
      (\<forall>repo i d f d' n f'. fl_commit fl repo i d f = (Inr (d', n), f') \<longrightarrow>
         has f' repo d' \<noteq> None \<and> (d \<noteq> '''' \<longrightarrow> d' = d)))"

lemma sample_brings: "brings sample_store sample_has"
  by (simp add: brings_def sample_add_ok sample_stat_ok) (simp add: sample_store_def)

lemma brings_add:
  assumes "brings fl has" "on_fl (fl_add fl repo d n b) w = (r, w')" "add_failed r = None"
  shows "has (w_fl w') repo d \<noteq> None"
proof -
  obtain f where f: "fl_add fl repo d n b (w_fl w) = (r, f)" "w' = w\<lparr>w_fl := f\<rparr>" using assms(2) by (rule on_fl_cases)
  have "is_ok r \<or> (\<exists>e. r = Inl e \<and> errors_is e (Flob AlreadyExists))"
    using assms(3) by (auto simp: add_failed_def split: sum.splits if_splits)
  moreover have "add_ok fl has" using assms(1) by (simp add: brings_def)
  ultimately have "has f repo d \<noteq> None" using f(1) unfolding add_ok_def by blast
  with f(2) show ?thesis by simp
qed

lemma brings_link:
  assumes "brings fl has" "on_fl (fl_link fl repo d from) w = (r, w')" "add_failed r = None"
  shows "has (w_fl w') repo d \<noteq> None"
proof -
  obtain f where f: "fl_link fl repo d from (w_fl w) = (r, f)" "w' = w\<lparr>w_fl := f\<rparr>" using assms(2) by (rule on_fl_cases)
  have "is_ok r \<or> (\<exists>e. r = Inl e \<and> errors_is e (Flob AlreadyExists))"
    using assms(3) by (auto simp: add_failed_def split: sum.splits if_splits)
  with assms(1) f(1) have "has f repo d \<noteq> None" unfolding brings_def by blast
  with f(2) show ?thesis by simp
qed

lemma brings_commit:
  assumes "brings fl has" "on_fl (fl_commit fl repo i d) w = (Inr (d', n), w')"
  shows "has (w_fl w') repo d' \<noteq> None" "d \<noteq> '''' \<Longrightarrow> d' = d"
  using assms unfolding brings_def by (auto elim!: on_fl_cases)

lemma brings_stat:
  assumes "brings fl has" "on_fl (fl_stat fl repo d) w = (Inr u, w')"
  shows "has (w_fl w') repo d \<noteq> None"
proof -
  obtain f where f: "fl_stat fl repo d (w_fl w) = (Inr (), f)" "w' = w\<lparr>w_fl := f\<rparr>"
    using assms(2) by (auto simp: unit_eq elim!: on_fl_cases)
  have "stat_ok fl has" using assms(1) by (simp add: brings_def)
  then have "has f = has (w_fl w)" "has (w_fl w) repo d \<noteq> None"
    using f(1) unfolding stat_ok_def store_reads_def by blast+
  with f(2) show ?thesis by simp
qed

section \<open>Answers\<close>

lemma created_digest: "map_of (rs_header (created h name d)) ''Docker-Content-Digest'' = Some d"
  by (simp add: created_def reply_def update_conv')

lemma created_inj: "created h name d = created h name d' \<Longrightarrow> d = d'"
  by (metis created_digest option.inject)

lemma created_body: "rs_body (created h name d) = NoBody" "rs_status (created h name d) = 201"
  by (simp_all add: created_def reply_def)

lemma fail_not_blob: "fail h e \<noteq> Some (created h' name d)"
  using fail_body [of h e] created_body(1) [of h' name d] by auto

lemma begin_not_created: "fst (beginUpload g h r name w) \<noteq> Some (created h' name d)"
proof -
  have "reply h1 202 \<noteq> created h' name d" for h1 by (simp add: created_def reply_def)
  then show ?thesis
    by (auto simp: beginUpload_def Let_def fail_not_blob simp del: fail_Oci split: prod.splits sum.splits)
qed

section \<open>The four ways\<close>

lemma putBlob_creates:
  assumes "brings (rg_fl g) has" "\<And>e. rq_Body r = Inl e \<Longrightarrow> \<not> errors_is e (Flob AlreadyExists)"
    and "putBlob g h r name arg w = (Some (created h' name d), w')"
  shows "has (w_fl w') name d \<noteq> None \<or> wellKnown g d \<noteq> None"
proof (cases "ParseDigest (rg_D g) arg")
  case (Inl e)
  with assms(3) fail_not_blob show ?thesis by (auto simp: putBlob_def simp del: fail_Oci)
next
  case d0: (Inr d0)
  show ?thesis
  proof (cases "wellKnown g d0")
    case (Some b)
    with assms(3) d0 have "created h name d0 = created h' name d"
      by (auto simp: putBlob_def fail_not_blob simp del: fail_Oci split: sum.splits if_splits)
    then have "d0 = d" by (metis created_digest option.inject)
    with Some show ?thesis by simp
  next
    case None
    obtain a w1 where a: "add_stream g name d0 (max (rq_ContentLength r) 0) (rq_Body r) w = (a, w1)" by force
    have "add_failed a = None \<and> w' = w1 \<and> created h name d0 = created h' name d"
      using assms(3) d0 None
      by (auto simp: putBlob_def a add_failed_def fail_not_blob simp del: fail_Oci split: sum.splits if_splits)
    then have ok: "add_failed a = None" "w' = w1" "d0 = d" by (auto dest: arg_cong [of _ _ "\<lambda>x. map_of (rs_header x) ''Docker-Content-Digest''"] simp: created_digest)
    show ?thesis
    proof (cases "rq_Body r")
      case (Inr b)
      with a have "on_fl (fl_add (rg_fl g) name d0 (max (rq_ContentLength r) 0) b) w = (a, w1)" by (simp add: add_stream_def)
      from brings_add [OF assms(1) this ok(1)] ok show ?thesis by simp
    next
      case (Inl e)
      with a ok(1) assms(2) have "\<exists>u. on_fl (fl_stat (rg_fl g) name d0) w = (Inr u, w1)"
        by (auto simp: add_stream_def add_failed_def split: prod.splits sum.splits if_splits)
      with brings_stat [OF assms(1)] ok show ?thesis by blast
    qed
  qed
qed

lemma mount_copy_creates:
  assumes "brings (rg_fl g) has" "mount_copy g h r name from d0 w = (Some (created h' name d), w')"
  shows "has (w_fl w') name d \<noteq> None"
proof -
  obtain o1 w1 where o1: "on_fl (fl_open (rg_fl g) from d0) w = (o1, w1)" by force
  have nb: "beginUpload g h r name v \<noteq> (Some (created h' name d), w')" for v
    using begin_not_created [of g h r name v h' d] by auto
  obtain b where b: "o1 = Inr b"
    using assms(2) nb by (cases o1) (auto simp: mount_copy_def o1 fail_not_blob split: if_splits)
  obtain n w2 where n: "sizeOf g from d0 w1 = (n, w2)" by force
  obtain a w3 where a: "on_fl (fl_add (rg_fl g) name d0 n b) w2 = (a, w3)" by force
  have "add_failed a = None \<and> w' = w3 \<and> created h name d0 = created h' name d"
    using assms(2) by (auto simp: mount_copy_def o1 b n a fail_not_blob split: option.splits)
  then have "add_failed a = None" "w' = w3" "d0 = d" by (auto dest: arg_cong [of _ _ "\<lambda>x. map_of (rs_header x) ''Docker-Content-Digest''"] simp: created_digest)
  with brings_add [OF assms(1) a] show ?thesis by simp
qed

lemma mount_creates:
  assumes "brings (rg_fl g) has" "mount g c h r name w = (Some (created h' name d), w')"
  shows "has (w_fl w') name d \<noteq> None \<or> wellKnown g d \<noteq> None"
proof -
  let ?from = "query_get r ''from''"
  have nb: "beginUpload g h r name v \<noteq> (Some (created h' name d), w')" for v
    using begin_not_created [of g h r name v h' d] by auto
  obtain d0 where d0: "ParseDigest (rg_D g) (query_get r ''mount'') = Inr d0"
    using assms(2) nb by (cases "ParseDigest (rg_D g) (query_get r ''mount'')") (auto simp: mount_def Let_def)
  have can: "\<not> (?from = '''' \<or> \<not> ValidName ?from \<or> Allowed c ?from [ActionPull] = [])"
  proof
    assume bad: "?from = '''' \<or> \<not> ValidName ?from \<or> Allowed c ?from [ActionPull] = []"
    have "mount g c h r name w = beginUpload g h r name w"
      unfolding mount_def Let_def d0 sum.case by (simp only: bad if_True)
    with assms(2) nb show False by simp
  qed
  note m = assms(2) [unfolded mount_def Let_def d0 sum.case, simplified can if_False]
  show ?thesis
  proof (cases "wellKnown g d0 \<noteq> None")
    case True
    with m have "created h name d0 = created h' name d" by auto
    with True show ?thesis using created_digest by (metis option.inject)
  next
    case False
    obtain l w1 where l: "on_fl (fl_link (rg_fl g) name d0 ?from) w = (l, w1)" by force
    consider (copy) v where "mount_copy g h r name ?from d0 v = (Some (created h' name d), w')"
      | (link) "add_failed l = None" "w' = w1" "created h name d0 = created h' name d"
      using m False nb by (auto simp: l add_failed_def fail_not_blob split: if_splits sum.splits)
    then show ?thesis
    proof cases
      case copy
      with mount_copy_creates [OF assms(1)] show ?thesis by blast
    next
      case link
      from link(3) have "d0 = d" by (metis created_digest option.inject)
      with brings_link [OF assms(1) l link(1)] link(2) show ?thesis by simp
    qed
  qed
qed

lemma commit_creates:
  assumes "brings (rg_fl g) has" "commit_upload g name i d w = (Inr u, w')" "d \<noteq> ''''"
  shows "has (w_fl w') name d \<noteq> None"
proof -
  obtain c w1 where c: "on_fl (fl_commit (rg_fl g) name i d) w = (c, w1)" by force
  show ?thesis
  proof (cases c)
    case (Inr x)
    with c assms(2) brings_commit [OF assms(1), of name i d w "fst x" "snd x" w1] assms(3) show ?thesis
      by (simp add: commit_upload_def)
  next
    case (Inl e)
    with c assms(2) obtain w2 where "rehash g name i d w2 = (Inr u, w')"
      by (auto simp: commit_upload_def split: if_splits prod.splits sum.splits)
    then obtain a n b w4 w5 where "on_fl (fl_add (rg_fl g) name d n b) w4 = (a, w5)" "add_failed a = None" "w' = w5"
      by (auto simp: rehash_def split: prod.splits sum.splits option.splits)
    with brings_add [OF assms(1)] show ?thesis by blast
  qed
qed

lemma putUpload_creates:
  assumes "brings (rg_fl g) has" and "putUpload g h r name i w = (Some (created h' name d), w')"
  shows "has (w_fl w') name d \<noteq> None"
proof (cases "ParseDigest (rg_D g) (query_get r ''digest'')")
  case (Inl e)
  with assms(2) fail_not_blob show ?thesis by (auto simp: putUpload_def simp del: fail_Oci)
next
  case d0: (Inr d0)
  have "index_byte (CHR '':'') '''' = None" by code_simp
  then have ne: "d0 \<noteq> ''''" using d0 by (auto simp: ParseDigest_def split: option.splits if_splits)
  have no: "a \<noteq> Some (created h' name d)" if "appendBody g h r name i w1 = (Inl a, w2)" for a w1 w2
    using that fail_not_blob
    by (auto simp: appendBody_def append_at_offset_def outOfRange_def simp del: fail_Oci
        split: append_at.splits prod.splits sum.splits if_splits)
  obtain u w2 where c: "commit_upload g name i d0 w2 = (Inr u, w')" "created h name d0 = created h' name d"
    using assms(2) d0 no fail_not_blob
    by (auto simp: putUpload_def simp del: fail_Oci split: prod.splits sum.splits if_splits)
  from c(2) have "d0 = d" by (metis created_digest option.inject)
  with commit_creates [OF assms(1) c(1) ne] show ?thesis by simp
qed

lemma postUpload_creates:
  assumes "brings (rg_fl g) has" "\<And>e. rq_Body r = Inl e \<Longrightarrow> \<not> errors_is e (Flob AlreadyExists)"
    and "postUpload g c h r name w = (Some (created h' name d), w')"
  shows "has (w_fl w') name d \<noteq> None \<or> wellKnown g d \<noteq> None"
  using assms(3) mount_creates [OF assms(1)] putBlob_creates [OF assms(1,2)] begin_not_created [of g h r name w h' d]
  by (auto simp: postUpload_def split: if_splits)

section \<open>Properties\<close>

text \<open>
  C7: a blob that was created is there.  Whichever way a client pushes a blob, in one request, by
  a mount, by a copy or in chunks, an answer that says it was created under a digest means that
  the repository has it under that digest, or that it is one of the constant blobs every
  repository has; also when the session hashed with another algorithm and the bytes had to be
  added again.
\<close>

theorem created_blob_is_there:
  assumes "brings (rg_fl g) has" and "case rq_Body r of Inl e \<Rightarrow> \<not> errors_is e (Flob AlreadyExists) | Inr _ \<Rightarrow> True"
    and "(Some (created h' name d), w') \<in> {postUpload g c h r name w, putUpload g h r name i w}"
  shows "has (w_fl w') name d \<noteq> None \<or> wellKnown g d \<noteq> None"
  using assms(2,3) postUpload_creates [OF assms(1), of r c h name w h' d w'] putUpload_creates [OF assms(1), of h r name i w h' d w']
  by (cases "rq_Body r") auto

lemma created_blob_is_there_witness:
  "case postUpload sample_registry Open [] (sample_request\<lparr>rq_Method := ''POST'', rq_Body := Inr ''hello'',
      rq_Query := [(''digest'', [''sha256:hell''])]\<rparr>) ''acme/app'' (sv_world sample_server) of (a, w') \<Rightarrow>
    a = Some (created [] ''acme/app'' ''sha256:hell'') \<and> sample_has (w_fl w') ''acme/app'' ''sha256:hell'' \<noteq> None"
proof -
  let ?r = "sample_request\<lparr>rq_Method := ''POST'', rq_Body := Inr ''hello'', rq_Query := [(''digest'', [''sha256:hell''])]\<rparr>"
  obtain a w' where p: "postUpload sample_registry Open [] ?r ''acme/app'' (sv_world sample_server) = (a, w')" by force
  have "fst (postUpload sample_registry Open [] ?r ''acme/app'' (sv_world sample_server)) =
      Some (created [] ''acme/app'' ''sha256:hell'')" by code_simp
  with p have a: "a = Some (created [] ''acme/app'' ''sha256:hell'')" by simp
  have b: "brings (rg_fl sample_registry) sample_has" by (simp add: sample_registry_def sample_brings)
  have wk: "wellKnown sample_registry ''sha256:hell'' = None" by code_simp
  have "sample_has (w_fl w') ''acme/app'' ''sha256:hell'' \<noteq> None \<or> wellKnown sample_registry ''sha256:hell'' \<noteq> None"
    by (rule created_blob_is_there [OF b, where r = ?r and c = Open and h = "[]" and w = "sv_world sample_server"
          and h' = "[]"]) (use p a in simp_all)
  with a wk show ?thesis unfolding p prod.case by simp
qed

end
