(* ===== verification/Registry_Trust.thy ===== *)
theory Registry_Trust
  imports Registry_Created
begin

text \<open>
  What a pull-through cache may answer: a tag that was asked of the upstream lately enough, or now,
  and in \<open>require\<close> mode nothing that nobody trusted signed.
\<close>

section \<open>How old an answer may be\<close>

context index_laws
begin

lemma fetch_body_sets:
  assumes "good x" "intx x" "fetch_body ix name m hs t x = (r, x')" "im_Digest m \<noteq> ''''"
  shows "good x' \<and> intx x' \<and> outer x' = outer x \<and>
    (r = Inr () \<longrightarrow> indexed (seen x') name (im_Digest m) \<and>
       (t \<noteq> '''' \<longrightarrow> (\<exists>tg. ro_tags (seen x') name t = Some tg \<and> tg_Digest tg = im_Digest m)))"
proof -
  obtain en x1 where en: "ix_repo_ensure ix name x = (en, x1)" by force
  from opD [OF ensure_law assms(1) en] assms(2) have x1: "good x1" "intx x1" "outer x1 = outer x" by auto
  obtain pu x2 where pu: "ix_put ix name m hs x1 = (pu, x2)" by force
  from opD [OF put_law x1(1) pu] x1
  have x2: "good x2" "intx x2" "outer x2 = outer x" "pu = Inr () \<Longrightarrow> indexed (seen x2) name (im_Digest m)"
    by (auto simp: put_spec_def indexed_def split: if_splits)
  obtain q x3 where q: "ix_tag_get ix name t x2 = (q, x3)" by force
  from opD [OF tag_get_law x2(1) q] x2
  have x3: "good x3" "intx x3" "outer x3 = outer x" "seen x3 = seen x2"
    "\<And>tg. q = Inr tg \<Longrightarrow> ro_tags (seen x2) name t = Some tg" by (auto simp: tag_get_spec_def)
  have set: "good y \<and> intx y \<and> outer y = outer x \<and> (s = Inr () \<longrightarrow> indexed (seen y) name d = indexed (seen x3) name d \<and>
      (\<exists>tg. ro_tags (seen y) name t = Some tg \<and> tg_Digest tg = im_Digest m))"
    if "ix_tag_set ix name t (im_Digest m) from x3 = (s, y)" for "from" s y d
    using opD [OF tag_set_law x3(1) that] x3(2,3) by (auto simp: tag_set_spec_def indexed_def)
  have check: "good z \<and> intx z \<and> outer z = outer y \<and> indexed (seen z) name d = indexed (seen y) name d \<and>
      ((\<exists>tg. ro_tags (seen y) name t = Some tg \<and> tg_Digest tg = im_Digest m) \<longrightarrow>
       (\<exists>tg. ro_tags (seen z) name t = Some tg \<and> tg_Digest tg = im_Digest m))"
    if "good y" "intx y" "ix_tag_check ix name t (im_Digest m) at y = (s, z)" for at s y z d
    using opD [OF tag_check_law that(1,3)] that(2) by (auto simp: tag_check_spec_def indexed_def)
  have tag: "good z \<and> intx z \<and> outer z = outer x \<and>
      (\<exists>tg. ro_tags (seen z) name t = Some tg \<and> tg_Digest tg = im_Digest m) \<and>
      indexed (seen z) name (im_Digest m) = indexed (seen x2) name (im_Digest m)"
    if "(if from \<noteq> im_Digest m then ix_tag_set ix name t (im_Digest m) from x3 else (Inr (), x3)) = (Inr (), y)"
      "ix_tag_check ix name t (im_Digest m) (im_CreatedAt m) y = (s, z)"
      "from = (case q of Inl _ \<Rightarrow> '''' | Inr tg \<Rightarrow> tg_Digest tg)" for "from" y s z
  proof (cases "from = im_Digest m")
    case True
    with that assms(4) x3 have "y = x3" "\<exists>tg. ro_tags (seen y) name t = Some tg \<and> tg_Digest tg = im_Digest m"
      by (auto split: sum.splits)
    with check [OF _ _ that(2)] x3 show ?thesis by metis
  next
    case False
    with set that(1) have y: "good y" "intx y" "outer y = outer x" "\<exists>tg. ro_tags (seen y) name t = Some tg \<and> tg_Digest tg = im_Digest m"
      "indexed (seen y) name (im_Digest m) = indexed (seen x3) name (im_Digest m)" by auto
    with check [OF y(1,2) that(2)] x3(4) show ?thesis by metis
  qed
  note eq = assms(3) [unfolded fetch_body_def en pu tag_from_def q prod.case]
  let ?from = "case q of Inl _ \<Rightarrow> '''' | Inr tg \<Rightarrow> tg_Digest tg"
  consider (early) "\<not> is_ok r" "x' \<in> {x1, x2, x3}"
    | (plain) "r = Inr ()" "pu = Inr ()" "t = ''''" "x' = x2"
    | (unset) e where "ix_tag_set ix name t (im_Digest m) ?from x3 = (Inl e, x')" "r = Inl e"
    | (moved) y where "pu = Inr ()"
        "(if ?from \<noteq> im_Digest m then ix_tag_set ix name t (im_Digest m) ?from x3 else (Inr (), x3)) = (Inr (), y)"
        "ix_tag_check ix name t (im_Digest m) (im_CreatedAt m) y = (r, x')"
    using eq by (cases en; cases pu; cases q; cases "t = ''''")
      (auto simp: unit_eq split: if_splits prod.splits sum.splits)
  then show ?thesis
  proof cases
    case early
    with x1 x2 x3 show ?thesis by auto
  next
    case plain
    with x2 show ?thesis by auto
  next
    case unset
    with set show ?thesis by blast
  next
    case moved
    with tag [OF moved(2,3)] x2(4) moved(1) show ?thesis by blast
  qed
qed

text \<open>What a fetch that went well leaves: the manifest the upstream answered, and the tag at it.\<close>

lemma fetch_tx_sets:
  fixes g :: "('x, 'f) registry" and w :: "('x, 'f) world"
  assumes "rg_ix g = ix" "good (w_ix w)" "\<not> intx (w_ix w)" "im_Digest m \<noteq> ''''"
    and "on_ix (ix_tx (rg_ix g) name (fetch_body (rg_ix g) name m hs t)) w = (Inr u, w')"
  shows "indexed (seen (w_ix w')) name (im_Digest m) \<and>
    (t \<noteq> '''' \<longrightarrow> (\<exists>tg. ro_tags (seen (w_ix w')) name t = Some tg \<and> tg_Digest tg = im_Digest m))"
proof -
  have tx: "world_tx g name (on_ix (fetch_body (rg_ix g) name m hs t)) w = (Inr u, w')"
    using assms(5) by (simp only: on_ix_tx)
  define P :: "error + unit \<Rightarrow> rows \<Rightarrow> 'f \<Rightarrow> bool" where
    "P = (\<lambda>r v f. r = Inr () \<longrightarrow> indexed v name (im_Digest m) \<and>
      (t \<noteq> '''' \<longrightarrow> (\<exists>tg. ro_tags v name t = Some tg \<and> tg_Digest tg = im_Digest m)))"
  have fn: "good (w_ix w2) \<and> intx (w_ix w2) \<and> outer (w_ix w2) = seen (w_ix w) \<and> P r2 (seen (w_ix w2)) (w_fl w2)"
    if x: "good x" "intx x" "seen x = seen (w_ix w)" "outer x = seen (w_ix w)"
      and b: "on_ix (fetch_body (rg_ix g) name m hs t) (w\<lparr>w_ix := x\<rparr>) = (r2, w2)" for x r2 w2
  proof -
    from b obtain y where y: "fetch_body ix name m hs t x = (r2, y)" "w_ix w2 = y"
      by (auto simp: assms(1) elim!: on_ix_cases)
    from fetch_body_sets [OF x(1,2) y(1) assms(4)] y(2) x(4) show ?thesis by (simp add: P_def)
  qed
  from world_tx_done [OF assms(1-3) tx fn] show ?thesis by (simp add: P_def)
qed

lemma fetch_brings:
  assumes "rg_ix g = ix" "good (w_ix w)" "\<not> intx (w_ix w)" "fetch g now p name remote reference t w = (Inr u, w')"
    and digests: "\<forall>f b mt d f'. px_Get p remote reference (rg_MaxManifestSize g) f = (Inr (b, mt, d), f') \<longrightarrow> d \<noteq> ''''"
  shows "\<exists>b mt d w1. on_fl (px_Get p remote reference (rg_MaxManifestSize g)) w = (Inr (b, mt, d), w1) \<and>
    indexed (seen (w_ix w')) name d \<and> (t \<noteq> '''' \<longrightarrow> (\<exists>tg. ro_tags (seen (w_ix w')) name t = Some tg \<and> tg_Digest tg = d))"
proof -
  obtain q w1 where q: "on_fl (px_Get p remote reference (rg_MaxManifestSize g)) w = (q, w1)" by force
  then have w1: "w_ix w1 = w_ix w" by (auto elim!: on_fl_cases)
  obtain b mt d where b: "q = Inr (b, mt, d)" using assms(4) q by (cases q) (auto simp: fetch_def split: if_splits)
  have d: "d \<noteq> ''''" using q b digests by (metis on_fl_cases)
  obtain m where m: "ParseManifest (rg_D g) (rg_J g) mt b = Inr m"
    using assms(4) q b by (cases "ParseManifest (rg_D g) (rg_J g) mt b") (auto simp: fetch_def)
  obtain a w2 where a: "on_fl (fl_add (rg_fl g) name d (int (length b)) b) w1 = (a, w2)" by force
  then have w2: "w_ix w2 = w_ix w" using w1 by (auto elim!: on_fl_cases)
  have "on_ix (ix_tx (rg_ix g) name (fetch_body (rg_ix g) name (record_of m d b now) (Holds m) t)) w2 = (Inr u, w')"
    using assms(4) by (auto simp: fetch_def q b m a split: sum.splits if_splits)
  from fetch_tx_sets [OF assms(1) _ _ _ this] assms(2,3) w2 d have
    "indexed (seen (w_ix w')) name d \<and> (t \<noteq> '''' \<longrightarrow> (\<exists>tg. ro_tags (seen (w_ix w')) name t = Some tg \<and> tg_Digest tg = d))"
    by (simp add: record_of_def)
  with q b show ?thesis by blast
qed

end

text \<open>
  An answer about a tag: out of the cache and lately checked; out of the cache because the
  upstream failed, and not too old for that; or what the upstream just said.
\<close>

definition tag_answer :: "('x, 'f) registry \<Rightarrow> 'f proxy \<Rightarrow> time \<Rightarrow> string \<Rightarrow> string \<Rightarrow> rows \<Rightarrow> string \<Rightarrow> rows \<Rightarrow> bool" where
  "tag_answer g p now name t v oc v' =
     (oc = ''hit'' \<and> (\<exists>tg. ro_tags v name t = Some tg \<and> tg_CheckedAt tg \<noteq> 0 \<and> now - tg_CheckedAt tg < proxy_ttl p) \<or>
      oc = ''stale'' \<and> (\<exists>tg. ro_tags v name t = Some tg \<and>
        (0 < px_TagMaxStale p \<longrightarrow> tg_CheckedAt tg \<noteq> 0 \<and> now - tg_CheckedAt tg \<le> px_TagMaxStale p)) \<or>
      oc = ''revalidated'' \<and> (\<exists>tg f f'. ro_tags v' name t = Some tg \<and> px_Head p (proxy_Name p name) t f = (Inr (tg_Digest tg), f')) \<or>
      oc \<in> {''refreshed'', ''miss''} \<and> (\<exists>tg f b mt f'. ro_tags v' name t = Some tg \<and> indexed v' name (tg_Digest tg) \<and>
        px_Get p (proxy_Name p name) t (rg_MaxManifestSize g) f = (Inr (b, mt, tg_Digest tg), f')))"

context index_laws
begin

lemma stale_or_answers:
  assumes "stale_or p now cur e = (oc, None)"
  shows "oc = ''stale'' \<and> (\<exists>c. cur = Some c \<and> servable (tg_CheckedAt c) (px_TagMaxStale p) now)"
  using assms by (auto simp: stale_or_def split: option.splits if_splits)

lemma revalidated_answers:
  assumes "rg_ix g = ix" "good (w_ix w)" "\<not> intx (w_ix w)" "revalidated g now name t cur d w = (True, w')"
    and "\<forall>c. cur = Some c \<longrightarrow> ro_tags (seen (w_ix w)) name t = Some c"
  shows "\<exists>tg. ro_tags (seen (w_ix w')) name t = Some tg \<and> tg_Digest tg = d"
proof -
  obtain c where c: "cur = Some c" "d = tg_Digest c"
    using assms(4) by (auto simp: revalidated_def split: option.splits if_splits)
  obtain a x1 where a: "ix_get ix name d (w_ix w) = (a, x1)" by force
  from call(1) [OF assms(2) a] have x1: "good x1" "seen x1 = seen (w_ix w)" by (auto simp: get_spec_def)
  obtain k x2 where k: "ix_tag_check ix name t d now x1 = (k, x2)" by force
  have "w_ix w' = x2"
    using assms(4) c a k by (auto simp: revalidated_def assms(1) on_ix_def split: if_splits sum.splits)
  with opD [OF tag_check_law x1(1) k] x1(2) c assms(5) show ?thesis by (auto simp: tag_check_spec_def)
qed

lemma revalidated_good:
  assumes "rg_ix g = ix" "good (w_ix w)" "\<not> intx (w_ix w)" "revalidated g now name t cur d w = (b, w')"
  shows "good (w_ix w') \<and> \<not> intx (w_ix w')"
proof -
  obtain a x1 where a: "ix_get ix name d (w_ix w) = (a, x1)" by force
  from call(1) [OF assms(2) a] assms(3) have x1: "good x1" "\<not> intx x1" by auto
  obtain k x2 where k: "ix_tag_check ix name t d now x1 = (k, x2)" by force
  from opD [OF tag_check_law x1(1) k] x1(2) have "good x2" "\<not> intx x2" by auto
  show ?thesis
  proof (cases "\<exists>c. cur = Some c \<and> d \<noteq> '''' \<and> d = tg_Digest c")
    case True
    then obtain c where c: "cur = Some c" "d \<noteq> '''' \<and> d = tg_Digest c" by blast
    have "revalidated g now name t cur d w =
      (case on_ix (ix_get ix name d) w of
         (Inl e, w1) \<Rightarrow> (False, w1)
       | (Inr _, w1) \<Rightarrow> (case on_ix (ix_tag_check ix name t d now) w1 of (r, w2) \<Rightarrow> (True, w2)))"
      unfolding revalidated_def c(1) option.case assms(1) using c(2) by auto
    with assms(4) a k x1 \<open>good x2\<close> \<open>\<not> intx x2\<close> show ?thesis by (cases a) (auto simp: on_ix_def)
  next
    case False
    with assms(2-4) show ?thesis by (auto simp: revalidated_def split: option.splits if_splits)
  qed
qed

lemma fill_tag_from_answers:
  fixes g :: "('x, 'f) registry"
  assumes "rg_ix g = ix" "good (w_ix w)" "\<not> intx (w_ix w)" "fill_tag_from g now p name t cur w = ((oc, None), w')" "t \<noteq> ''''"
    and cur: "\<forall>c. cur = Some c \<longrightarrow> ro_tags (seen (w_ix w)) name t = Some c"
    and digests: "\<forall>n f b mt d f'. px_Get p n t (rg_MaxManifestSize g) f = (Inr (b, mt, d), f') \<longrightarrow> d \<noteq> ''''"
  shows "tag_answer g p now name t (seen (w_ix w)) oc (seen (w_ix w'))"
proof -
  let ?n = "proxy_Name p name"
  obtain hd w1 where hd: "on_fl (px_Head p ?n t) w = (hd, w1)" by force
  then have w1: "w_ix w1 = w_ix w" by (auto elim!: on_fl_cases)
  have stale: ?thesis if "stale_or p now cur e = (oc, None)" for e
    using stale_or_answers [OF that] cur by (auto simp: tag_answer_def servable_def)
  show ?thesis
  proof (cases hd)
    case (Inl e)
    with assms(4) stale show ?thesis by (auto simp: fill_tag_from_def hd split: if_splits)
  next
    case (Inr d)
    obtain b w2 where b: "revalidated g now name t cur d w1 = (b, w2)" by force
    show ?thesis
    proof (cases b)
      case True
      have h: "\<exists>f'. px_Head p ?n t (w_fl w) = (Inr d, f')" using hd Inr by (auto elim!: on_fl_cases)
      have "w' = w2" "oc = ''revalidated''" using assms(4) Inr b True by (simp_all add: fill_tag_from_def hd)
      moreover have "revalidated g now name t cur d w1 = (True, w2)" using b True by simp
      from revalidated_answers [OF assms(1) _ _ this] assms(2,3) w1 cur
      obtain tg where "ro_tags (seen (w_ix w2)) name t = Some tg" "tg_Digest tg = d" by auto
      with h have "\<exists>tg f f'. ro_tags (seen (w_ix w2)) name t = Some tg \<and> px_Head p ?n t f = (Inr (tg_Digest tg), f')" by blast
      ultimately show ?thesis by (simp add: tag_answer_def)
    next
      case False
      have w2: "good (w_ix w2)" "\<not> intx (w_ix w2)"
        using revalidated_good [OF assms(1) _ _ b] assms(2,3) w1 by simp_all
      obtain r w3 where r: "fetch g now p name ?n t t w2 = (r, w3)" by force
      show ?thesis
      proof (cases r)
        case (Inl e)
        with assms(4) stale show ?thesis by (auto simp: fill_tag_from_def hd \<open>hd = Inr d\<close> b False r)
      next
        case r': (Inr u)
        have "w' = w3" "oc \<in> {''refreshed'', ''miss''}"
          using assms(4) by (auto simp: fill_tag_from_def hd Inr b False r r' split: if_splits)
        moreover have dg: "\<forall>f b mt d f'. px_Get p ?n t (rg_MaxManifestSize g) f = (Inr (b, mt, d), f') \<longrightarrow> d \<noteq> ''''"
          using digests by blast
        from fetch_brings [OF assms(1) w2 r [unfolded r'] dg]
        obtain c mt d' w4 where c: "on_fl (px_Get p ?n t (rg_MaxManifestSize g)) w2 = (Inr (c, mt, d'), w4)"
          "indexed (seen (w_ix w3)) name d'" "t \<noteq> '''' \<longrightarrow> (\<exists>tg. ro_tags (seen (w_ix w3)) name t = Some tg \<and> tg_Digest tg = d')"
          by blast
        from c(1) have "\<exists>f f'. px_Get p ?n t (rg_MaxManifestSize g) f = (Inr (c, mt, d'), f')" by (auto elim!: on_fl_cases)
        with c(2,3) assms(5) have "\<exists>tg f b mt f'. ro_tags (seen (w_ix w3)) name t = Some tg \<and>
            indexed (seen (w_ix w3)) name (tg_Digest tg) \<and>
            px_Get p ?n t (rg_MaxManifestSize g) f = (Inr (b, mt, tg_Digest tg), f')" by blast
        ultimately show ?thesis unfolding tag_answer_def by blast
      qed
    qed
  qed
qed

lemma pullThrough_answers:
  fixes g :: "('x, 'f) registry"
  assumes "rg_ix g = ix" "good (w_ix w)" "\<not> intx (w_ix w)" "\<not> IsDigest ref" "ref_tag ref \<noteq> ''''"
    and "pullThroughOutcome g now p name ref w = ((oc, None), w')"
    and digests: "\<forall>n f b mt d f'. px_Get p n (ref_tag ref) (rg_MaxManifestSize g) f = (Inr (b, mt, d), f') \<longrightarrow> d \<noteq> ''''"
  shows "tag_answer g p now name (ref_tag ref) (seen (w_ix w)) oc (seen (w_ix w'))"
proof -
  obtain q x1 where q: "ix_tag_get ix name (ref_tag ref) (w_ix w) = (q, x1)" by force
  from opD [OF tag_get_law assms(2) q] assms(3) have x1: "good x1" "\<not> intx x1" "seen x1 = seen (w_ix w)"
    "\<And>tg. q = Inr tg \<Longrightarrow> ro_tags (seen (w_ix w)) name (ref_tag ref) = Some tg"
    by (auto simp: tag_get_spec_def)
  obtain q2 x2 where q2: "ix_tag_get ix name (ref_tag ref) x1 = (q2, x2)" by force
  from opD [OF tag_get_law x1(1) q2] x1 have x2: "good x2" "\<not> intx x2" "seen x2 = seen (w_ix w)"
    "\<And>tg. q2 = Inr tg \<Longrightarrow> ro_tags (seen (w_ix w)) name (ref_tag ref) = Some tg"
    by (auto simp: tag_get_spec_def)
  have hit: ?thesis if "ro_tags (seen (w_ix w)) name (ref_tag ref) = Some tg" "fresh (tg_CheckedAt tg) (proxy_ttl p) now"
    "oc = ''hit''" for tg
    using that by (auto simp: tag_answer_def fresh_def)
  have "fill_tag g now p name (ref_tag ref) (w\<lparr>w_ix := x1\<rparr>) = ((oc, None), w') \<or>
      (\<exists>tg. q = Inr tg \<and> fresh (tg_CheckedAt tg) (proxy_ttl p) now \<and> oc = ''hit'')"
    using assms(6) by (auto simp: pullThroughOutcome_def cached_def assms(1,4) on_ix_def q fill_def split: sum.splits bool.splits prod.splits)
  then show ?thesis
  proof
    assume f: "fill_tag g now p name (ref_tag ref) (w\<lparr>w_ix := x1\<rparr>) = ((oc, None), w')"
    show ?thesis
    proof (cases "\<exists>tg. q2 = Inr tg \<and> fresh (tg_CheckedAt tg) (proxy_ttl p) now")
      case True
      with f hit x2(4) show ?thesis by (auto simp: fill_tag_def assms(1) on_ix_def q2)
    next
      case False
      with f have "\<exists>cur. fill_tag_from g now p name (ref_tag ref) cur (w\<lparr>w_ix := x2\<rparr>) = ((oc, None), w') \<and>
          (\<forall>c. cur = Some c \<longrightarrow> q2 = Inr c)"
        by (auto simp: fill_tag_def assms(1) on_ix_def q2 split: sum.splits if_splits)
      then obtain cur where c: "fill_tag_from g now p name (ref_tag ref) cur (w\<lparr>w_ix := x2\<rparr>) = ((oc, None), w')"
        "\<forall>c. cur = Some c \<longrightarrow> q2 = Inr c" by blast
      from fill_tag_from_answers [OF assms(1) _ _ c(1) assms(5) _ digests] x2 c(2) show ?thesis by simp
    qed
  qed (use hit x1(4) in blast)
qed

end

section \<open>Signed by somebody trusted\<close>

text \<open>The verifier accepted an envelope for the digest, under the name it has upstream.\<close>

definition vouched :: "'f proxy \<Rightarrow> string \<Rightarrow> digest \<Rightarrow> bool" where
  "vouched p name d =
     (\<exists>mode verify mt n emt env. px_Verify p = Some (mode, verify) \<and>
        verify (notation_ref p name d) (mt, d, n) emt env = None)"

text \<open>Every good verdict that is remembered was the verifier's.\<close>

definition remembers :: "('x, 'f) registry \<Rightarrow> verdicts \<Rightarrow> bool" where
  "remembers g vd =
     (\<forall>k. map_of vd k = Some None \<longrightarrow>
        (\<exists>name d sigs p. k = name # d # sigs \<and> proxies_of (rg_Proxies g) name = Some p \<and> vouched p name d))"

lemma remembers_empty [simp]: "remembers g []"
  by (simp add: remembers_def)

lemma remembers_put:
  assumes "remembers g vd" "v = None \<longrightarrow> (\<exists>name d sigs p. k = name # d # sigs \<and> proxies_of (rg_Proxies g) name = Some p \<and> vouched p name d)"
  shows "remembers g (verdicts_put k v vd)"
  using assms by (auto simp: remembers_def verdicts_put_def update_conv' split: if_splits)

lemma try_signatures_verified:
  "try_signatures g now p name ver ss rs u w = ((True, rs', u'), w') \<Longrightarrow> \<exists>mt env. ver mt env = None"
proof (induction ss arbitrary: rs u w)
  case (Cons s ss)
  obtain e w1 where e: "envelope g now p name (id_Digest s) w = (e, w1)" by force
  from Cons show ?case
    by (cases e) (auto simp: e split: no_envelope.splits option.splits prod.splits)
qed simp

lemma signed_vouches:
  assumes "proxies_of (rg_Proxies g) name = Some p" "remembers g vd" "signed g now p name m vd w = (v, vd', w')"
  shows "remembers g vd' \<and> (v = None \<longrightarrow> vouched p name (im_Digest m))"
proof -
  obtain ss w1 where ss: "signatures g now p name (im_Digest m) w = (ss, w1)" by force
  consider (none) "\<exists>x. v = Some x" "vd' = vd" | (sigs) s sigs where "ss = Inr (s # sigs)"
    using assms(3) by (auto simp: signed_def ss split: sum.splits list.splits)
  then show ?thesis
  proof cases
    case none
    with assms(2) show ?thesis by auto
  next
    case sigs
    let ?k = "[name, im_Digest m] @ map id_Digest (s # sigs)"
    note eq = assms(3) [unfolded signed_def ss sigs prod.case sum.case list.case Let_def]
    show ?thesis
    proof (cases "map_of vd ?k")
      case (Some v0)
      with eq have v: "v = v0" "vd' = vd" by auto
      have "vouched p name (im_Digest m)" if "v = None"
      proof -
        have "map_of vd ?k = Some None" using Some v(1) that by simp
        with assms(2) obtain name' d' sigs' p' where
          "?k = name' # d' # sigs'" "proxies_of (rg_Proxies g) name' = Some p'" "vouched p' name' d'"
          unfolding remembers_def by blast
        with assms(1) show ?thesis by auto
      qed
      with assms(2) v(2) show ?thesis by simp
    next
      case None
      show ?thesis
      proof (cases "px_Verify p")
        case pv: None
        with eq None assms(2) show ?thesis by auto
      next
        case (Some mv)
        obtain mode verify where mv: "mv = (mode, verify)" by force
        let ?ver = "verify (notation_ref p name (im_Digest m)) (im_MediaType m, im_Digest m, im_Size m)"
        obtain b rs u w2 where t: "try_signatures g now p name ?ver (s # sigs) [] None w1 = ((b, rs, u), w2)" by (metis surj_pair)
        have yes: "vouched p name (im_Digest m)" if b
        proof -
          have "try_signatures g now p name ?ver (s # sigs) [] None w1 = ((True, rs, u), w2)" using t that by simp
          from try_signatures_verified [OF this] show ?thesis unfolding vouched_def Some mv by blast
        qed
        have eq': "(v, vd', w') = (if b then (None, verdicts_put ?k None vd, w2)
            else (case u of Some e \<Rightarrow> (Some (Unchecked e), vd, w2)
              | None \<Rightarrow> (Some (Invalid rs), verdicts_put ?k (Some (Invalid rs)) vd, w2)))"
          using eq [unfolded None Some mv option.case prod.case t] by (cases b; cases u) simp_all
        have pn: "remembers g (verdicts_put ?k None vd)" if b
          using yes [OF that] assms(1) by (intro remembers_put [OF assms(2)]) auto
        have ps: "remembers g (verdicts_put ?k (Some x) vd)" for x by (rule remembers_put [OF assms(2)]) simp
        from eq' yes pn ps assms(2) show ?thesis by (cases b; cases u) auto
      qed
    qed
  qed
qed

text \<open>An index, of those that hold the manifest, that the verifier accepted.\<close>

definition vouched_holder :: "('x, 'f) registry \<Rightarrow> 'f proxy \<Rightarrow> string \<Rightarrow> digest \<Rightarrow> rows \<Rightarrow> bool" where
  "vouched_holder g p name d v =
     (\<exists>h e x hm x'. ro_manifests v name h = Some e \<and> d \<in> set (en_holds e) \<and> ix_get (rg_ix g) name h x = (Inr hm, x') \<and>
        IsIndexMediaType (im_MediaType hm) \<and> vouched p name (im_Digest hm))"

text \<open>What \<open>require\<close> lets through without a signature of its own: a signature, and the list of them.\<close>

definition exempt :: "('x, 'f) registry \<Rightarrow> reference \<Rightarrow> imanifest \<Rightarrow> bool" where
  "exempt g ref m =
     (im_ArtifactType m = ArtifactType \<or> isReferrersTag (rg_D g) (ref_tag ref) \<and> IsIndexMediaType (im_MediaType m))"

lemma holder_signed_vouches:
  assumes "proxies_of (rg_Proxies g) name = Some p"
  shows "remembers g vd \<Longrightarrow> holder_signed g now p name hs vd w = (b, vd', w') \<Longrightarrow>
    remembers g vd' \<and> (b \<longrightarrow> (\<exists>h \<in> set hs. \<exists>x hm x'. ix_get (rg_ix g) name h x = (Inr hm, x') \<and>
      IsIndexMediaType (im_MediaType hm) \<and> vouched p name (im_Digest hm)))"
proof (induction hs arbitrary: vd w)
  case (Cons h hs)
  obtain a w1 where a: "on_ix (ix_get (rg_ix g) name h) w = (a, w1)" by force
  show ?case
  proof (cases "\<exists>hm. a = Inr hm \<and> IsIndexMediaType (im_MediaType hm)")
    case False
    then have "holder_signed g now p name hs vd w1 = (b, vd', w')"
      using Cons.prems(2) by (cases a) (auto simp: a)
    from Cons.IH [OF Cons.prems(1) this] show ?thesis by auto
  next
    case True
    then obtain hm where hm: "a = Inr hm" "IsIndexMediaType (im_MediaType hm)" by blast
    obtain v vd1 w2 where s: "signed g now p name hm vd w1 = (v, vd1, w2)" by (metis surj_pair)
    note sv = signed_vouches [OF assms Cons.prems(1) s]
    have got: "\<exists>x x'. ix_get (rg_ix g) name h x = (Inr hm, x')" using a hm(1) by (auto elim!: on_ix_cases)
    show ?thesis
    proof (cases v)
      case None
      with Cons.prems(2) sv got hm show ?thesis by (auto simp: a s)
    next
      case (Some u)
      then have "holder_signed g now p name hs vd1 w2 = (b, vd', w')" using Cons.prems(2) hm by (simp add: a s)
      from Cons.IH [OF conjunct1 [OF sv] this] show ?thesis by auto
    qed
  qed
qed simp

context index_laws
begin

lemma verified_vouches:
  assumes "proxies_of (rg_Proxies g) name = Some p" "rg_ix g = ix" "good (w_ix w)" "remembers g vd"
    and "verified g now p name m vd w = (v, vd', w')"
  shows "remembers g vd' \<and>
    (v = None \<longrightarrow> vouched p name (im_Digest m) \<or> vouched_holder g p name (im_Digest m) (seen (w_ix w)))"
proof (cases "IsIndexMediaType (im_MediaType m)")
  case True
  with assms(5) signed_vouches [OF assms(1,4)] show ?thesis by (simp add: verified_def)
next
  case False
  obtain hs x where hs: "ix_holders ix name (im_Digest m) (w_ix w) = (hs, x)" by force
  from opD [OF holders_law assms(3) hs]
  have there: "\<And>ds. hs = Inr ds \<Longrightarrow> set ds = {h. \<exists>e. ro_manifests (seen (w_ix w)) name h = Some e \<and> im_Digest m \<in> set (en_holds e)}"
    by (auto simp: holders_spec_def)
  show ?thesis
  proof (cases hs)
    case (Inl e)
    with False assms(4,5) show ?thesis by (auto simp: verified_def on_ix_def assms(2) hs)
  next
    case (Inr ds)
    obtain b vd1 w2 where h: "holder_signed g now p name ds vd (w\<lparr>w_ix := x\<rparr>) = (b, vd1, w2)" by (metis surj_pair)
    note hv = holder_signed_vouches [OF assms(1,4) h]
    have "(v, vd', w') = (if b then (None, vd1, w2) else signed g now p name m vd1 w2)"
      using False assms(5) Inr h by (cases b) (simp_all add: verified_def on_ix_def assms(2) hs)
    moreover have "b \<Longrightarrow> vouched_holder g p name (im_Digest m) (seen (w_ix w))"
      using hv there [OF Inr] unfolding vouched_holder_def by blast
    ultimately show ?thesis using hv signed_vouches [OF assms(1) conjunct1 [OF hv], of now m w2 v vd' w'] by (cases b) auto
  qed
qed

text \<open>Reading what the cache holds leaves the index's rows as they are.\<close>

lemma manifest_at_seen:
  assumes "rg_ix g = ix" "good (w_ix w)" "manifest_at g name d w = (r, w')"
  shows "good (w_ix w') \<and> seen (w_ix w') = seen (w_ix w)"
proof -
  obtain a x where a: "ix_get ix name d (w_ix w) = (a, x)" by force
  from call(1) [OF assms(2) a] have "good x" "seen x = seen (w_ix w)" by (auto simp: get_spec_def)
  moreover have "w_ix w' = x"
    using assms(3) by (auto simp: manifest_at_def assms(1) on_ix_def a store_read_def on_fl_def split: sum.splits prod.splits)
  ultimately show ?thesis by simp
qed

lemma admit_requires:
  assumes "proxies_of (rg_Proxies g) name = Some p" "rg_ix g = ix" "good (w_ix w)" "remembers g vd"
    and "admit g now p name ref m vd w = (r, vd', w')"
  shows "remembers g vd' \<and>
    (r = None \<longrightarrow> (\<forall>verify. px_Verify p = Some (VerifyRequire, verify) \<longrightarrow>
       exempt g ref m \<or> vouched p name (im_Digest m) \<or> vouched_holder g p name (im_Digest m) (seen (w_ix w))))"
proof (cases "px_Verify p = None \<or> im_ArtifactType m = ArtifactType")
  case True
  with assms(4,5) show ?thesis by (auto simp: admit_def exempt_def split: option.splits prod.splits)
next
  case False
  then obtain mode verify where pv: "px_Verify p = Some (mode, verify)" by auto
  obtain b w1 where b: "isReferrersTagIndex g name ref m w = (b, w1)" by force
  have w1: "good (w_ix w1) \<and> seen (w_ix w1) = seen (w_ix w)"
    using b assms(3) manifest_at_seen [OF assms(2,3)]
    by (auto simp: isReferrersTagIndex_def split: if_splits sum.splits prod.splits)
  show ?thesis
  proof (cases b)
    case True
    with b have "exempt g ref m" by (auto simp: isReferrersTagIndex_def exempt_def split: if_splits)
    with True False assms(4,5) pv show ?thesis by (simp add: admit_def b)
  next
    case b': False
    obtain v vd1 w2 where v: "verified g now p name m vd w1 = (v, vd1, w2)" by (metis surj_pair)
    from verified_vouches [OF assms(1,2) conjunct1 [OF w1] assms(4) v] w1 False assms(5) pv b'
    show ?thesis by (cases v) (auto simp: admit_def b v split: if_splits)
  qed
qed

end

lemma mem_get_key:
  assumes "mem_good x" "ix_get mem_ops repo d x = (Inr m, x')"
  shows "im_Digest m = d"
proof -
  from mem.call(1) [OF assms] obtain e where "ro_manifests (mem_seen x) repo d = Some e" "m = en_m e"
    by (auto simp: get_spec_def)
  with assms(1) show ?thesis by (auto simp: mem_seen_def mem_good_def rows_of_def man_key split: option.splits)
qed

lemma getManifest_requires:
  assumes "serving g has s" "proxies_of (rg_Proxies g) name = Some p" "remembers g vd"
    and "getManifest g now h r name arg vd (sv_world s) = (a, vd', w')"
  shows "remembers g vd' \<and> ((\<exists>e. a = fail h e) \<or>
    (\<exists>ref m v w4. a = fst (answer_manifest g now h r name ref m (im_Digest m) w4) \<and>
       (\<forall>verify. px_Verify p = Some (VerifyRequire, verify) \<longrightarrow>
          exempt g ref m \<or> vouched p name (im_Digest m) \<or> vouched_holder g p name (im_Digest m) v)))"
proof (cases "referenceOf (rg_D g) arg ErrManifestUnknown")
  case (Inl e)
  with assms(3,4) show ?thesis by (auto simp: getManifest_def)
next
  case (Inr ref)
  note k = assms(1) [unfolded serving_keptw]
  have ixg: "rg_ix g = mem_ops" using assms(1) by (simp add: serving_def)
  obtain e1 w1 where w1: "pull_first g now name ref (sv_world s) = (e1, w1)" by force
  have g1: "mem_good (w_ix w1)"
    using mem.pullThrough_keeps [OF k assms(2), of now ref] w1 assms(2)
    by (simp add: pull_first_def mem.keptw_def mem.kept_def)
  obtain d2 w2 where w2: "resolve_ref g name ref w1 = (d2, w2)" by force
  have g2: "mem_good (w_ix w2)"
    using w2 g1 mem.opD [OF mem.tag_get_law g1]
    by (auto simp: resolve_ref_def ixg elim!: on_ix_cases split: if_splits sum.splits prod.splits)
  note eq = assms(4) [unfolded getManifest_def Inr sum.case w1 prod.case w2]
  show ?thesis
  proof (cases "e1 = None \<and> is_ok d2")
    case False
    with eq assms(3) show ?thesis by (cases e1; cases d2) auto
  next
    case True
    then obtain d where d: "e1 = None" "d2 = Inr d" by (cases d2) auto
    obtain m3 w3 where w3: "on_ix (ix_get (rg_ix g) name d) w2 = (m3, w3)" by force
    then obtain x where x: "ix_get mem_ops name d (w_ix w2) = (m3, x)" "w_ix w3 = x" unfolding ixg by (auto elim!: on_ix_cases)
    note eq = eq [unfolded d option.case sum.case w3 prod.case]
    show ?thesis
    proof (cases m3)
      case (Inl e)
      with eq assms(3) show ?thesis by (auto simp del: fail_Oci split: if_splits)
    next
      case m: (Inr m)
      have m3: "im_Digest m = d" "mem_good (w_ix w3)" using mem_get_key [OF g2] mem.call(1) [OF g2 x(1)] x m by auto
      obtain r4 vd1 w4 where w4: "admit_first g now name ref m vd w3 = (r4, vd1, w4)" by (metis surj_pair)
      then have "admit g now p name ref m vd w3 = (r4, vd1, w4)" by (simp add: admit_first_def assms(2))
      note ad = mem.admit_requires [OF assms(2) ixg m3(2) assms(3) this]
      show ?thesis
      proof (cases r4)
        case (Some e)
        with eq ad show ?thesis by (auto simp: m w4)
      next
        case None
        obtain b w5 where w5: "answer_manifest g now h r name ref m d w4 = (b, w5)" by force
        with eq have "a = b" "vd' = vd1" by (simp_all add: m w4 None)
        with ad None w5 m3(1) show ?thesis by (metis fst_conv)
      qed
    qed
  qed
qed

section \<open>Something to try it on\<close>

text \<open>An upstream that has one manifest, of which it says the digest, and lists no signatures.\<close>

definition sample_proxy :: "sample_blobs proxy" where
  "sample_proxy = \<lparr>px_Prefix = ''hub'', px_Upstream = ''https://up.example'', px_Host = ''up.example'', px_Remote = '''',
     px_Hosts = [], px_TagTTL = 5 * Minute, px_TagMaxStale = 60 * Minute, px_ReferrersTTL = 0, px_ReferrersMaxStale = 0,
     px_Head = (\<lambda>n t f. (if t = ''v1'' then Inr ''sha256:{}00'' else Inl (Flob NotExist), f)),
     px_Get = (\<lambda>n t k f. (if t = ''v1'' then Inr (''{}'', '''', ''sha256:{}00'') else Inl (Flob NotExist), f)),
     px_Referrers = (\<lambda>n d k f. (Inr [], f)),
     px_Verify = Some (VerifyRequire, \<lambda>ref desc mt env. Some ''no'')\<rparr>"

definition sample_cache :: "(view, sample_blobs) registry" where
  "sample_cache = sample_registry\<lparr>rg_Proxies := [sample_proxy]\<rparr>"

lemma sample_cache_serving: "serving sample_cache sample_has sample_server"
proof -
  have "upstream_law sample_has sample_proxy"
    by (auto simp: upstream_law_def store_grows_def sample_proxy_def split: if_splits)
  then show ?thesis using sample_serving by (simp add: serving_def sample_cache_def lawful_def)
qed

section \<open>Properties\<close>

text \<open>
  C9: how old what a cache answers for a tag may be.  When a pull of a tag goes on with no error,
  either the tag was in the cache and was asked of the upstream less than its time to live ago; or
  the upstream failed, and the tag was asked less long ago than the longest a failing upstream is
  covered for, if that is bounded at all; or the upstream was asked now, and the tag is where it
  said, with the manifest in the index when it was fetched.
\<close>

theorem cached_tags_are_fresh_enough:
  assumes "serving g has s" and "\<not> IsDigest ref \<and> ref_tag ref \<noteq> ''''"
    and "pullThroughOutcome g now p name ref (sv_world s) = ((oc, None), w')"
    and "{d. \<exists>n f b mt f'. px_Get p n (ref_tag ref) (rg_MaxManifestSize g) f = (Inr (b, mt, d), f')} \<subseteq> - {''''}"
  shows "tag_answer g p now name (ref_tag ref) (mem_seen (w_ix (sv_world s))) oc (mem_seen (w_ix w'))"
proof -
  have k: "rg_ix g = mem_ops" "mem_good (w_ix (sv_world s))" "\<not> mem_intx (w_ix (sv_world s))"
    using assms(1) by (simp_all add: serving_def)
  have "\<forall>n f b mt d f'. px_Get p n (ref_tag ref) (rg_MaxManifestSize g) f = (Inr (b, mt, d), f') \<longrightarrow> d \<noteq> ''''"
    using assms(4) by blast
  from mem.pullThrough_answers [OF k _ _ assms(3) this] assms(2) show ?thesis by simp
qed

lemma cached_tags_are_fresh_enough_witness:
  "\<exists>w'. pullThroughOutcome sample_cache (200 * Second) sample_proxy ''hub/app'' \<lparr>ref_tag = ''v1'', ref_digest = ''''\<rparr>
      (sv_world sample_server) = ((''miss'', None), w') \<and>
    tag_answer sample_cache sample_proxy (200 * Second) ''hub/app'' ''v1'' (mem_seen (w_ix (sv_world sample_server))) ''miss''
      (mem_seen (w_ix w'))"
proof -
  let ?p = "pullThroughOutcome sample_cache (200 * Second) sample_proxy ''hub/app'' \<lparr>ref_tag = ''v1'', ref_digest = ''''\<rparr>
      (sv_world sample_server)"
  have "fst ?p = (''miss'', None)" by code_simp
  then obtain w' where p: "?p = ((''miss'', None), w')" by (metis surj_pair fst_conv)
  have "tag_answer sample_cache sample_proxy (200 * Second) ''hub/app'' (ref_tag \<lparr>ref_tag = ''v1'', ref_digest = ''''\<rparr>)
      (mem_seen (w_ix (sv_world sample_server))) ''miss'' (mem_seen (w_ix w'))"
    by (rule cached_tags_are_fresh_enough [OF sample_cache_serving _ p]) (auto simp: IsDigest_def sample_proxy_def)
  with p show ?thesis by simp
qed



end
