(* ===== verification/Registry_Admin.thy ===== *)
theory Registry_Admin
  imports Registry_Core Gc_Runs
begin

text \<open>
  The operator's endpoints (\<open>registry/admin.go\<close>): a full collection is started, and the runs
  recorded are listed and read.  The texts of a time and of an error in JSON are arguments.
\<close>

fun kind_text :: "run_kind \<Rightarrow> string" where
  "kind_text KindOnline = ''online''"
| "kind_text KindFull = ''full''"

fun trigger_text :: "run_trigger \<Rightarrow> string" where
  "trigger_text TriggerSchedule = ''schedule''"
| "trigger_text TriggerAdmin = ''admin''"
| "trigger_text TriggerCli = ''cli''"

fun state_text :: "run_state \<Rightarrow> string" where
  "state_text StateRunning = ''running''"
| "state_text StateDone = ''done''"
| "state_text StateFailed = ''failed''"

record texts =
  tx_time :: "time \<Rightarrow> string"
  tx_error :: "error \<Rightarrow> string"

definition run_json :: "texts \<Rightarrow> gcrun \<Rightarrow> json" where
  "run_json tx r =
     JObj ([(''id'', JStr (run_ID r)), (''kind'', JStr (kind_text (run_Kind r))),
        (''trigger'', JStr (trigger_text (run_Trigger r))), (''state'', JStr (state_text (run_State r)))] @
       (case run_Error r of None \<Rightarrow> [] | Some e \<Rightarrow> if tx_error tx e = '''' then [] else [(''error'', JStr (tx_error tx e))]) @
       [(''stages'', JInt (int (rr_Stages (run_Report r)))), (''tags'', JInt (int (rr_Tags (run_Report r)))),
        (''manifests'', JInt (int (rr_Manifests (run_Report r)))), (''repositories'', JInt (int (run_Repositories r))),
        (''blobs'', JInt (int (run_Blobs r))), (''bytes'', JInt (run_Bytes r)),
        (''missing'', JArr (map JStr (run_Missing r))), (''started'', JStr (tx_time tx (run_Started r))),
        (''finished'', case run_Finished r of None \<Rightarrow> JNull | Some t \<Rightarrow> JStr (tx_time tx t))])"

definition errNoRun :: error where
  "errNoRun = Oci (NewError 404 CodeUnsupported (DText ''no such run''))"

definition respond :: "header \<Rightarrow> request \<Rightarrow> int \<Rightarrow> json \<Rightarrow> response" where
  "respond h r status v = reply_json h r status ''application/json'' v"

definition runs_location :: "gcrun \<Rightarrow> header \<Rightarrow> header" where
  "runs_location run h = hset ''Location'' (''/admin/gc/'' @ run_ID run) h"

definition admin_trigger :: "texts \<Rightarrow> gc_config \<Rightarrow> header \<Rightarrow> request \<Rightarrow> ('x, 'f) collector \<Rightarrow>
    response option \<times> ('x, 'f) collector" where
  "admin_trigger tx c h r s =
     (case Trigger c TriggerAdmin s of
        ((run, err), s1) \<Rightarrow>
          (case err of
             None \<Rightarrow> (Some (respond (runs_location run h) r 202 (run_json tx run)), s1)
           | Some e \<Rightarrow>
               if errors_is e ErrRunning then (Some (respond (runs_location run h) r 409 (run_json tx run)), s1)
               else (fail h e, s1)))"

definition admin_list :: "texts \<Rightarrow> header \<Rightarrow> request \<Rightarrow> ('x, 'f) collector \<Rightarrow> response option \<times> ('x, 'f) collector" where
  "admin_list tx h r s =
     (case (case cl_runs s of None \<Rightarrow> Inr [] | Some rs \<Rightarrow> fst (runs_List 20 rs)) of
        Inl e \<Rightarrow> (fail h e, s)
      | Inr runs \<Rightarrow> (Some (respond h r 200 (JObj [(''runs'', JArr (map (run_json tx) runs))])), s))"

definition admin_run :: "texts \<Rightarrow> header \<Rightarrow> request \<Rightarrow> string \<Rightarrow> ('x, 'f) collector \<Rightarrow> response option \<times> ('x, 'f) collector" where
  "admin_run tx h r i s =
     (case cl_runs s of
        None \<Rightarrow> (fail h errNoRun, s)
      | Some rs \<Rightarrow>
          (case fst (runs_Get i rs) of
             Inl e \<Rightarrow> (if errors_is e ErrRunNotFound then fail h errNoRun else fail h e, s)
           | Inr run \<Rightarrow> (Some (respond h r 200 (run_json tx run)), s)))"

text \<open>The collector is nothing on a registry that is configured without one.\<close>

definition Admin :: "texts \<Rightarrow> guard option \<Rightarrow> time \<Rightarrow> gc_config \<Rightarrow> header \<Rightarrow> request \<Rightarrow> ('x, 'f) collector option \<Rightarrow>
    response option \<times> ('x, 'f) collector option" where
  "Admin tx gd now c h r col =
     (case col of
        None \<Rightarrow> (fail h errNoRoute, None)
      | Some s \<Rightarrow>
          (case guard_check gd now r '''' [ActionAdmin] of
             Inl e \<Rightarrow> (fail h e, Some s)
           | Inr caller \<Rightarrow>
               (let p = rq_Path r in
                if p = ''/admin/gc'' then
                  (if rq_Method r = ''POST'' then (case admin_trigger tx c h r s of (a, s1) \<Rightarrow> (a, Some s1))
                   else if is_GET r then (case admin_list tx h r s of (a, s1) \<Rightarrow> (a, Some s1))
                   else (fail h errMethod, Some s))
                else
                  (case cut_prefix p ''/admin/gc/'' of
                     None \<Rightarrow> (fail h errNoRoute, Some s)
                   | Some i \<Rightarrow>
                       if \<not> is_GET r then (fail h errMethod, Some s)
                       else (case admin_run tx h r i s of (a, s1) \<Rightarrow> (a, Some s1))))))"

end
