(* ===== verification/Index_Rebuild.thy ===== *)
theory Index_Rebuild
  imports Mem_Laws Blob_Store Oci_Manifest
begin

text \<open>
  Rebuilding the index from the store alone (\<open>index/rebuild/rebuild.go\<close>): which blobs are taken for
  manifests, what is indexed of them, and what the report counts.  Shown: a rebuild only adds, what
  it adds is what some blob of the repository says, and one that reports no error has indexed every
  blob that is a manifest.
\<close>

section \<open>What a store lists\<close>

text \<open>
  \<open>Namespaces\<close> and \<open>Walk\<close> are iterators: each step answers a value or an error.  They are given
  apart from \<open>store_ops\<close>, whose fields answer the whole list, as this code stops at an error that
  comes after others were already handled.
\<close>

record 'f lister =
  li_namespacer :: bool
  li_namespaces :: "'f \<Rightarrow> (error + string) list \<times> 'f"
  li_walker :: "string \<Rightarrow> bool"
  li_walk :: "string \<Rightarrow> 'f \<Rightarrow> (error + digest) list \<times> 'f"

section \<open>The code\<close>

record rebuild_report =
  rp_Repositories :: nat
  rp_Manifests :: nat
  rp_Skipped :: "string list"

record found =
  fo_m :: imanifest
  fo_holds :: "digest list"

type_synonym ('x, 'f) rebuilding = "(rebuild_report, 'x, 'f) reporting"

definition blank :: "char \<Rightarrow> bool" where
  "blank c = (c \<in> {CHR '' '', CHR 0x09, CHR 0x0D, CHR 0x0A})"

definition found_of :: "digest \<Rightarrow> string \<Rightarrow> manifest \<Rightarrow> found" where
  "found_of d b p =
     \<lparr>fo_m = \<lparr>im_Digest = d, im_MediaType = mf_mediaType p, im_ArtifactType = mf_artifactType p,
        im_Subject = (case mf_subject p of None \<Rightarrow> '''' | Some x \<Rightarrow> d_digest x), im_Size = int (length b),
        im_Annotations = mf_annotations p, im_CreatedAt = 0, im_PulledAt = 0\<rparr>,
      fo_holds = Holds p\<rparr>"

text \<open>What the bytes of a blob are, if they are a manifest.\<close>

definition manifest_in :: "digest_ops \<Rightarrow> decoders \<Rightarrow> digest \<Rightarrow> string \<Rightarrow> found option" where
  "manifest_in D J d b =
     (case dropWhile blank b of
        [] \<Rightarrow> None
      | c # _ \<Rightarrow>
          if c \<noteq> CHR ''{'' then None
          else (case ParseManifest D J '''' b of Inl e \<Rightarrow> None | Inr p \<Rightarrow> Some (found_of d b p)))"

definition read_found :: "digest_ops \<Rightarrow> decoders \<Rightarrow> 'f store_ops \<Rightarrow> string \<Rightarrow> digest \<Rightarrow> int \<Rightarrow> ('f, found option) op" where
  "read_found D J fl repo d n f =
     (case fl_open fl repo d f of
        (Inl e, f1) \<Rightarrow> (if errors_is e (Flob NotExist) then Inr None else Inl e, f1)
      | (Inr b, f1) \<Rightarrow> (Inr (manifest_in D J d (take (nat (n + 1)) b)), f1))"

text \<open>The loop over the blobs of a repository.\<close>

fun find_each :: "digest_ops \<Rightarrow> decoders \<Rightarrow> 'f store_ops \<Rightarrow> string \<Rightarrow> int \<Rightarrow> (error + digest) list \<Rightarrow> found list \<Rightarrow>
    ('f, found list) op" where
  "find_each D J fl repo maxm [] fs f = (Inr fs, f)"
| "find_each D J fl repo maxm (Inl e # ds) fs f = (Inl e, f)"
| "find_each D J fl repo maxm (Inr d # ds) fs f =
     (case fl_size fl repo d f of
        (Inl e, f1) \<Rightarrow> if errors_is e (Flob NotExist) then find_each D J fl repo maxm ds fs f1 else (Inl e, f1)
      | (Inr n, f1) \<Rightarrow>
          if n < 2 \<or> n > maxm then find_each D J fl repo maxm ds fs f1
          else
            (case read_found D J fl repo d n f1 of
               (Inl e, f2) \<Rightarrow> (Inl e, f2)
             | (Inr None, f2) \<Rightarrow> find_each D J fl repo maxm ds fs f2
             | (Inr (Some x), f2) \<Rightarrow> find_each D J fl repo maxm ds (fs @ [x]) f2))"

text \<open>The loop of the transaction.  Any error of the lookup, not only that there is none, leads to a \<open>Put\<close>.\<close>

fun put_each :: "'x index_ops \<Rightarrow> string \<Rightarrow> found list \<Rightarrow> (('x, 'f) rebuilding, unit) op" where
  "put_each ix repo [] s = (Inr (), s)"
| "put_each ix repo (x # xs) s =
     (case on_w (on_ix (ix_get ix repo (im_Digest (fo_m x)))) s of
        (Inr _, s1) \<Rightarrow> put_each ix repo xs s1
      | (Inl _, s1) \<Rightarrow>
          (case on_w (on_ix (ix_put ix repo (fo_m x) (fo_holds x))) s1 of
             (Inl e, s2) \<Rightarrow> (Inl e, s2)
           | (Inr _, s2) \<Rightarrow> put_each ix repo xs (s2\<lparr>rb_r := (rb_r s2)\<lparr>rp_Manifests := Suc (rp_Manifests (rb_r s2))\<rparr>\<rparr>)))"

definition rebuild_body :: "'x index_ops \<Rightarrow> string \<Rightarrow> found list \<Rightarrow> (('x, 'f) rebuilding, unit) op" where
  "rebuild_body ix repo xs s =
     (case on_w (on_ix (ix_repo_ensure ix repo)) s of
        (Inl e, s1) \<Rightarrow> (Inl e, s1)
      | (Inr _, s1) \<Rightarrow>
          put_each ix repo xs (s1\<lparr>rb_r := (rb_r s1)\<lparr>rp_Repositories := Suc (rp_Repositories (rb_r s1))\<rparr>\<rparr>))"

definition rebuild_repository :: "digest_ops \<Rightarrow> decoders \<Rightarrow> 'x index_ops \<Rightarrow> 'f store_ops \<Rightarrow> 'f lister \<Rightarrow> string \<Rightarrow> int \<Rightarrow>
    (('x, 'f) rebuilding, unit) op" where
  "rebuild_repository D J ix fl ls repo maxm s =
     (if \<not> li_walker ls repo then (Inl (Other ''the store cannot be walked''), s)
      else
        (case li_walk ls repo (w_fl (rb_w s)) of (ds, f1) \<Rightarrow>
           (case on_w (on_fl (find_each D J fl repo maxm ds [])) (s\<lparr>rb_w := (rb_w s)\<lparr>w_fl := f1\<rparr>\<rparr>) of
              (Inl e, s2) \<Rightarrow> (Inl e, s2)
            | (Inr [], s2) \<Rightarrow> (Inr (), s2)
            | (Inr (x # xs), s2) \<Rightarrow>
                report_tx ix repo (rebuild_body ix repo (x # xs)) s2)))"

definition join_errors :: "error list \<Rightarrow> error option" where
  "join_errors es = (if es = [] then None else Some (Joined es))"

fun rebuild_each :: "digest_ops \<Rightarrow> decoders \<Rightarrow> 'x index_ops \<Rightarrow> 'f store_ops \<Rightarrow> 'f lister \<Rightarrow> int \<Rightarrow> (error + string) list \<Rightarrow> error list \<Rightarrow>
    ('x, 'f) rebuilding \<Rightarrow> error option \<times> ('x, 'f) rebuilding" where
  "rebuild_each D J ix fl ls maxm [] errs s = (join_errors errs, s)"
| "rebuild_each D J ix fl ls maxm (Inl e # nss) errs s = (join_errors (errs @ [e]), s)"
| "rebuild_each D J ix fl ls maxm (Inr ns # nss) errs s =
     (if \<not> ValidName ns then
        rebuild_each D J ix fl ls maxm nss errs (s\<lparr>rb_r := (rb_r s)\<lparr>rp_Skipped := rp_Skipped (rb_r s) @ [ns]\<rparr>\<rparr>)
      else
        (case rebuild_repository D J ix fl ls ns maxm s of
           (Inl e, s1) \<Rightarrow> rebuild_each D J ix fl ls maxm nss (errs @ [Wrapped (ns @ '': '') e]) s1
         | (Inr _, s1) \<Rightarrow> rebuild_each D J ix fl ls maxm nss errs s1))"

definition max_manifest :: "int \<Rightarrow> int" where
  "max_manifest n = (if n \<le> 0 then push_bit 20 4 else n)"

definition Rebuild :: "digest_ops \<Rightarrow> decoders \<Rightarrow> 'x index_ops \<Rightarrow> 'f store_ops \<Rightarrow> 'f lister \<Rightarrow> int \<Rightarrow> ('x, 'f) world \<Rightarrow>
    error option \<times> ('x, 'f) rebuilding" where
  "Rebuild D J ix fl ls maxm w =
     (let s = \<lparr>rb_r = \<lparr>rp_Repositories = 0, rp_Manifests = 0, rp_Skipped = []\<rparr>, rb_w = w\<rparr> in
      if \<not> li_namespacer ls then (Some (Other ''rebuild: the store cannot list its namespaces''), s)
      else
        (case li_namespaces ls (w_fl w) of (nss, f1) \<Rightarrow>
           rebuild_each D J ix fl ls (max_manifest maxm) nss [] (s\<lparr>rb_w := w\<lparr>w_fl := f1\<rparr>\<rparr>)))"

section \<open>What is relied on, and what a rebuild may do\<close>

text \<open>
  Reading the store leaves it as it is, and what it answers is so: a walk that does not break off
  lists every blob, a size is the length of the bytes, and a blob that is said not to exist does not.
\<close>

definition reads_ok :: "'f store_ops \<Rightarrow> 'f lister \<Rightarrow> ('f \<Rightarrow> string \<Rightarrow> digest \<Rightarrow> string option) \<Rightarrow> bool" where
  "reads_ok fl ls has =
     ((\<forall>f ns f'. li_namespaces ls f = (ns, f') \<longrightarrow> has f' = has f) \<and>
      (\<forall>repo f ds f'. li_walk ls repo f = (ds, f') \<longrightarrow> has f' = has f \<and>
         ((\<forall>e. Inl e \<notin> set ds) \<longrightarrow> {d. has f repo d \<noteq> None} \<subseteq> {d. Inr d \<in> set ds})) \<and>
      (\<forall>repo d f r f'. fl_size fl repo d f = (r, f') \<longrightarrow> has f' = has f \<and>
         (case r of Inr n \<Rightarrow> map_option (int \<circ> length) (has f repo d) = Some n
          | Inl e \<Rightarrow> errors_is e (Flob NotExist) \<longrightarrow> has f repo d = None)) \<and>
      (\<forall>repo d f r f'. fl_open fl repo d f = (r, f') \<longrightarrow> has f' = has f \<and>
         (case r of Inr b \<Rightarrow> has f repo d = Some b | Inl e \<Rightarrow> errors_is e (Flob NotExist) \<longrightarrow> has f repo d = None)))"

definition manifest_blob :: "digest_ops \<Rightarrow> decoders \<Rightarrow> int \<Rightarrow> digest \<Rightarrow> string \<Rightarrow> found \<Rightarrow> bool" where
  "manifest_blob D J maxm d b x = (2 \<le> length b \<and> int (length b) \<le> maxm \<and> manifest_in D J d b = Some x)"

text \<open>What is indexed of a manifest that was found; only the time it was made at is the index's.\<close>

definition made_of :: "found \<Rightarrow> entry \<Rightarrow> bool" where
  "made_of x e = (en_holds e = fo_holds x \<and> en_m e = (fo_m x)\<lparr>im_CreatedAt := im_CreatedAt (en_m e)\<rparr>)"

definition only_adds :: "(string \<Rightarrow> digest \<Rightarrow> entry \<Rightarrow> bool) \<Rightarrow> rows \<Rightarrow> rows \<Rightarrow> bool" where
  "only_adds R v v' =
     (ro_tags v' = ro_tags v \<and> ro_snaps v' = ro_snaps v \<and> (\<forall>n. ro_repos v n \<noteq> None \<longrightarrow> ro_repos v' n = ro_repos v n) \<and>
      (\<forall>repo d e. ro_manifests v repo d = Some e \<longrightarrow> ro_manifests v' repo d = Some e) \<and>
      (\<forall>repo d e. ro_manifests v repo d = None \<longrightarrow> ro_manifests v' repo d = Some e \<longrightarrow> R repo d e))"

text \<open>Every manifest of the repository's blobs is indexed.\<close>

definition restored :: "digest_ops \<Rightarrow> decoders \<Rightarrow> int \<Rightarrow> (string \<Rightarrow> digest \<Rightarrow> string option) \<Rightarrow> string \<Rightarrow> rows \<Rightarrow> bool" where
  "restored D J maxm h repo v = (\<forall>d b x. h repo d = Some b \<longrightarrow> manifest_blob D J maxm d b x \<longrightarrow> indexed v repo d)"

lemma only_adds_refl [simp]: "only_adds R v v"
  by (simp add: only_adds_def)

lemma only_adds_trans:
  assumes "only_adds R v v1" "only_adds R v1 v2"
  shows "only_adds R v v2"
  unfolding only_adds_def
proof (intro conjI allI impI)
  fix repo d e assume n: "ro_manifests v repo d = None" "ro_manifests v2 repo d = Some e"
  show "R repo d e"
  proof (cases "ro_manifests v1 repo d")
    case None
    with assms(2) n show ?thesis unfolding only_adds_def by blast
  next
    case (Some e1)
    with assms n have "ro_manifests v2 repo d = Some e1" "R repo d e1" unfolding only_adds_def by blast+
    with n show ?thesis by simp
  qed
qed (use assms in \<open>simp_all add: only_adds_def\<close>)

lemma only_adds_mono: "only_adds R v v' \<Longrightarrow> (\<And>repo d e. R repo d e \<Longrightarrow> R' repo d e) \<Longrightarrow> only_adds R' v v'"
  unfolding only_adds_def by blast

lemma only_adds_indexed: "only_adds R v v' \<Longrightarrow> indexed v repo d \<Longrightarrow> indexed v' repo d"
  unfolding only_adds_def indexed_def by auto

lemma only_adds_restored: "only_adds R v v' \<Longrightarrow> restored D J maxm h repo v \<Longrightarrow> restored D J maxm h repo v'"
  unfolding restored_def using only_adds_indexed by blast

lemma only_adds_ensure: "ensure_spec n v r v' \<Longrightarrow> only_adds R v v'"
  by (auto simp: ensure_spec_def only_adds_def split: sum.splits option.splits if_splits)

lemma only_adds_put:
  assumes "put_spec repo (fo_m x) (fo_holds x) v r v'" and "\<And>e. made_of x e \<Longrightarrow> R repo (im_Digest (fo_m x)) e"
  shows "only_adds R v v'"
  using assms
  by (auto simp: put_spec_def only_adds_def made_of_def indexed_def split: sum.splits option.splits if_splits)

section \<open>Reading\<close>

lemma reads_okD:
  assumes "reads_ok fl ls has"
  shows "li_namespaces ls f = (ns, f') \<Longrightarrow> has f' = has f"
    and "li_walk ls repo f = (ds, f') \<Longrightarrow> has f' = has f"
    and "li_walk ls repo f = (ds, f') \<Longrightarrow> \<forall>e. Inl e \<notin> set ds \<Longrightarrow> has f repo d \<noteq> None \<Longrightarrow> Inr d \<in> set ds"
    and "fl_size fl repo d f = (rs, f') \<Longrightarrow> has f' = has f"
    and "fl_size fl repo d f = (Inr n, f') \<Longrightarrow> \<exists>b. has f repo d = Some b \<and> n = int (length b)"
    and "fl_size fl repo d f = (Inl e, f') \<Longrightarrow> errors_is e (Flob NotExist) \<Longrightarrow> has f repo d = None"
    and "fl_open fl repo d f = (ro, f') \<Longrightarrow> has f' = has f"
    and "fl_open fl repo d f = (Inr b, f') \<Longrightarrow> has f repo d = Some b"
    and "fl_open fl repo d f = (Inl e, f') \<Longrightarrow> errors_is e (Flob NotExist) \<Longrightarrow> has f repo d = None"
proof -
  note a = assms [unfolded reads_ok_def]
  note ns = a [THEN conjunct1, rule_format] note wk = a [THEN conjunct2, THEN conjunct1, rule_format]
  note sz = a [THEN conjunct2, THEN conjunct2, THEN conjunct1, rule_format]
  note op = a [THEN conjunct2, THEN conjunct2, THEN conjunct2, rule_format]
  show "li_namespaces ls f = (ns, f') \<Longrightarrow> has f' = has f" by (rule ns)
  show "li_walk ls repo f = (ds, f') \<Longrightarrow> has f' = has f" by (rule wk [THEN conjunct1])
  show "li_walk ls repo f = (ds, f') \<Longrightarrow> \<forall>e. Inl e \<notin> set ds \<Longrightarrow> has f repo d \<noteq> None \<Longrightarrow> Inr d \<in> set ds"
    using wk [of repo f ds f'] by auto
  show "fl_size fl repo d f = (rs, f') \<Longrightarrow> has f' = has f" by (rule sz [THEN conjunct1])
  show "fl_size fl repo d f = (Inr n, f') \<Longrightarrow> \<exists>b. has f repo d = Some b \<and> n = int (length b)"
    using sz [of repo d f "Inr n" f'] by auto
  show "fl_size fl repo d f = (Inl e, f') \<Longrightarrow> errors_is e (Flob NotExist) \<Longrightarrow> has f repo d = None"
    using sz [of repo d f "Inl e" f'] by auto
  show "fl_open fl repo d f = (ro, f') \<Longrightarrow> has f' = has f" by (rule op [THEN conjunct1])
  show "fl_open fl repo d f = (Inr b, f') \<Longrightarrow> has f repo d = Some b"
    using op [of repo d f "Inr b" f'] by auto
  show "fl_open fl repo d f = (Inl e, f') \<Longrightarrow> errors_is e (Flob NotExist) \<Longrightarrow> has f repo d = None"
    using op [of repo d f "Inl e" f'] by auto
qed

lemma read_found_ok:
  assumes "reads_ok fl ls has" "read_found D J fl repo d (int (length b)) f = (r, f')" "has f repo d = Some b"
  shows "has f' = has f" "r = Inr x \<Longrightarrow> x = manifest_in D J d b"
proof -
  obtain ro f1 where o: "fl_open fl repo d f = (ro, f1)" by force
  have f': "f' = f1" using assms(2) o by (auto simp: read_found_def split: sum.splits)
  then show "has f' = has f" using reads_okD(7) [OF assms(1) o] by simp
  show "x = manifest_in D J d b" if "r = Inr x"
  proof (cases ro)
    case (Inl e)
    with reads_okD(9) [OF assms(1) o [unfolded Inl]] assms(3) have "\<not> errors_is e (Flob NotExist)" by auto
    with assms(2) o Inl that show ?thesis by (simp add: read_found_def)
  next
    case (Inr b')
    with reads_okD(8) [OF assms(1) o [unfolded Inr]] assms(3) have "b' = b" by simp
    with assms(2) o Inr that show ?thesis by (simp add: read_found_def)
  qed
qed

lemma find_each_ok:
  assumes "reads_ok fl ls has" "find_each D J fl repo maxm ds fs0 f = (r, f')"
  shows "has f' = has f \<and> (\<forall>fs. r = Inr fs \<longrightarrow> (\<forall>e. Inl e \<notin> set ds) \<and>
    set fs = set fs0 \<union> {x. \<exists>d b. Inr d \<in> set ds \<and> has f repo d = Some b \<and> manifest_blob D J maxm d b x})"
  using assms(2)
proof (induction ds arbitrary: fs0 f r f')
  case (Cons y ds)
  show ?case
  proof (cases y)
    case y: (Inr d)
    obtain rs f1 where s: "fl_size fl repo d f = (rs, f1)" by force
    note h1 = reads_okD(4) [OF assms(1) s]
    have skip: ?thesis if "find_each D J fl repo maxm ds fs0 f2 = (r, f')" "has f2 = has f"
      "\<forall>b x. has f repo d = Some b \<longrightarrow> \<not> manifest_blob D J maxm d b x" for f2
      using Cons.IH [OF that(1)] that(2,3) y by auto
    show ?thesis
    proof (cases rs)
      case (Inl e)
      with reads_okD(6) [OF assms(1) s [unfolded Inl]] Cons.prems s y h1 skip [OF _ h1] show ?thesis
        by (cases "errors_is e (Flob NotExist)") auto
    next
      case (Inr n)
      with reads_okD(5) [OF assms(1)] s obtain b where b: "has f repo d = Some b" "n = int (length b)" by blast
      show ?thesis
      proof (cases "n < 2 \<or> n > maxm")
        case True
        with Cons.prems s y Inr have "find_each D J fl repo maxm ds fs0 f1 = (r, f')" by simp
        then show ?thesis by (rule skip [OF _ h1]) (use True b in \<open>auto simp: manifest_blob_def\<close>)
      next
        case False
        obtain rr f2 where rd: "read_found D J fl repo d n f1 = (rr, f2)" by force
        have b1: "has f1 repo d = Some b" using b(1) h1 by simp
        note ok = read_found_ok [OF assms(1) rd [unfolded b(2)] b1]
        have mb: "manifest_blob D J maxm d b x \<longleftrightarrow> manifest_in D J d b = Some x" for x
          using False b(2) by (auto simp: manifest_blob_def)
        show ?thesis
        proof (cases rr)
          case rr: (Inl e)
          with Cons.prems s y Inr False rd ok(1) h1 show ?thesis by auto
        next
          case rr: (Inr z)
          note z = ok(2) [OF rr]
          show ?thesis
          proof (cases z)
            case None
            with Cons.prems s y Inr False rd rr have "find_each D J fl repo maxm ds fs0 f2 = (r, f')" by simp
            then show ?thesis by (rule skip) (use ok(1) h1 None z mb b in auto)
          next
            case (Some x)
            with Cons.prems s y Inr False rd rr have "find_each D J fl repo maxm ds (fs0 @ [x]) f2 = (r, f')" by simp
            from Cons.IH [OF this] ok(1) h1 Some z mb b y show ?thesis by auto
          qed
        qed
      qed
    qed
  qed (use Cons.prems in auto)
qed auto

section \<open>Writing\<close>

lemma put_each_frame [simp]: "w_fl (rb_w (snd (put_each ix repo xs s))) = w_fl (rb_w s)"
  by (induction xs arbitrary: s) (auto simp: on_w_def on_ix_def split: prod.splits sum.splits)

lemma rebuild_body_frame: "w_fl (rb_w (snd (rebuild_body ix repo xs s))) = w_fl (rb_w s)"
  by (simp add: rebuild_body_def on_w_def on_ix_def split: prod.splits sum.splits)

context index_laws
begin

text \<open>What the index is after a step that only adds.\<close>

definition adds_step :: "(string \<Rightarrow> digest \<Rightarrow> entry \<Rightarrow> bool) \<Rightarrow> 'x \<Rightarrow> 'x \<Rightarrow> bool" where
  "adds_step R x x' =
     (good x' \<and> intx x' = intx x \<and> outer x' = (if intx x then outer x else seen x') \<and> only_adds R (seen x) (seen x'))"

lemma adds_step_trans: "adds_step R x x1 \<Longrightarrow> adds_step R x1 x2 \<Longrightarrow> adds_step R x x2"
  unfolding adds_step_def using only_adds_trans by auto

lemma put_each_adds:
  assumes "put_each ix repo xs s = (r, s')" "good (w_ix (rb_w s))" "intx (w_ix (rb_w s))"
    and "\<forall>y \<in> set xs. \<forall>e. made_of y e \<longrightarrow> R repo (im_Digest (fo_m y)) e"
  shows "adds_step R (w_ix (rb_w s)) (w_ix (rb_w s')) \<and> w_fl (rb_w s') = w_fl (rb_w s) \<and>
    (is_ok r \<longrightarrow> (\<forall>y \<in> set xs. indexed (seen (w_ix (rb_w s'))) repo (im_Digest (fo_m y))))"
  using assms
proof (induction xs arbitrary: s)
  case (Cons y ys)
  obtain g s1 where g: "on_w (on_ix (ix_get ix repo (im_Digest (fo_m y)))) s = (g, s1)" by force
  then obtain x1 where x1: "ix_get ix repo (im_Digest (fo_m y)) (w_ix (rb_w s)) = (g, x1)" "s1 = s\<lparr>rb_w := (rb_w s)\<lparr>w_ix := x1\<rparr>\<rparr>"
    by (auto elim!: on_w_cases on_ix_cases)
  from opD [OF get_law Cons.prems(2) x1(1)] Cons.prems(3)
  have s1: "adds_step R (w_ix (rb_w s)) (w_ix (rb_w s1))" "w_fl (rb_w s1) = w_fl (rb_w s)"
    and got: "\<And>m. g = Inr m \<Longrightarrow> indexed (seen (w_ix (rb_w s1))) repo (im_Digest (fo_m y))"
    by (auto simp: adds_step_def x1(2) get_spec_def indexed_def)
  have rest: ?case if "put_each ix repo ys s2 = (r, s')" "adds_step R (w_ix (rb_w s)) (w_ix (rb_w s2))"
    "w_fl (rb_w s2) = w_fl (rb_w s)" "indexed (seen (w_ix (rb_w s2))) repo (im_Digest (fo_m y))" for s2
  proof -
    from that(2) have k: "good (w_ix (rb_w s2))" "intx (w_ix (rb_w s2))" using Cons.prems(3) by (simp_all add: adds_step_def)
    have f: "\<forall>y \<in> set ys. \<forall>e. made_of y e \<longrightarrow> R repo (im_Digest (fo_m y)) e" using Cons.prems(4) by simp
    note ih = Cons.IH [OF that(1) k f]
    from ih that(4) have "indexed (seen (w_ix (rb_w s'))) repo (im_Digest (fo_m y))"
      by (auto simp: adds_step_def intro: only_adds_indexed)
    with ih that(2,3) show ?thesis by (auto intro: adds_step_trans)
  qed
  show ?case
  proof (cases g)
    case (Inr m)
    with Cons.prems(1) g show ?thesis by (intro rest [OF _ s1 got [OF Inr]]) simp
  next
    case (Inl e)
    obtain p s2 where p: "on_w (on_ix (ix_put ix repo (fo_m y) (fo_holds y))) s1 = (p, s2)" by force
    then obtain x2 where x2: "ix_put ix repo (fo_m y) (fo_holds y) (w_ix (rb_w s1)) = (p, x2)"
      "s2 = s1\<lparr>rb_w := (rb_w s1)\<lparr>w_ix := x2\<rparr>\<rparr>"
      by (auto elim!: on_w_cases on_ix_cases)
    have k1: "good (w_ix (rb_w s1))" "intx (w_ix (rb_w s1))" using s1(1) Cons.prems(3) by (simp_all add: adds_step_def)
    note put = opD [OF put_law k1(1) x2(1)]
    have "only_adds R (seen (w_ix (rb_w s1))) (seen x2)"
      by (rule only_adds_put [where repo = repo and x = y and r = p]) (use put Cons.prems(4) in auto)
    with put have "adds_step R (w_ix (rb_w s1)) (w_ix (rb_w s2))" by (simp add: adds_step_def x2(2))
    with s1 have s2: "adds_step R (w_ix (rb_w s)) (w_ix (rb_w s2))" "w_fl (rb_w s2) = w_fl (rb_w s)"
      by (auto intro: adds_step_trans simp: x2(2))
    show ?thesis
    proof (cases p)
      case p': (Inl e)
      with Cons.prems(1) g Inl p s2 show ?thesis by auto
    next
      case p': (Inr u)
      with put have "indexed (seen (w_ix (rb_w s2))) repo (im_Digest (fo_m y))"
        by (auto simp: x2(2) put_spec_def indexed_def split: if_splits)
      with Cons.prems(1) g Inl p p' s2 show ?thesis
        by (intro rest [of "s2\<lparr>rb_r := (rb_r s2)\<lparr>rp_Manifests := Suc (rp_Manifests (rb_r s2))\<rparr>\<rparr>"]) simp_all
    qed
  qed
qed (simp add: adds_step_def)

lemma rebuild_body_adds:
  assumes "rebuild_body ix repo xs s = (r, s')" "good (w_ix (rb_w s))" "intx (w_ix (rb_w s))"
    and "\<forall>y \<in> set xs. \<forall>e. made_of y e \<longrightarrow> R repo (im_Digest (fo_m y)) e"
  shows "adds_step R (w_ix (rb_w s)) (w_ix (rb_w s')) \<and> w_fl (rb_w s') = w_fl (rb_w s) \<and>
    (is_ok r \<longrightarrow> (\<forall>y \<in> set xs. indexed (seen (w_ix (rb_w s'))) repo (im_Digest (fo_m y))))"
proof -
  obtain en s1 where en: "on_w (on_ix (ix_repo_ensure ix repo)) s = (en, s1)" by force
  then obtain x1 where x1: "ix_repo_ensure ix repo (w_ix (rb_w s)) = (en, x1)" "s1 = s\<lparr>rb_w := (rb_w s)\<lparr>w_ix := x1\<rparr>\<rparr>"
    by (auto elim!: on_w_cases on_ix_cases)
  from opD [OF ensure_law assms(2) x1(1)] only_adds_ensure
  have s1: "adds_step R (w_ix (rb_w s)) (w_ix (rb_w s1))" "w_fl (rb_w s1) = w_fl (rb_w s)"
    by (auto simp: adds_step_def x1(2))
  show ?thesis
  proof (cases en)
    case (Inl e)
    with assms(1) en s1 show ?thesis by (auto simp: rebuild_body_def)
  next
    case (Inr u)
    let ?s2 = "s1\<lparr>rb_r := (rb_r s1)\<lparr>rp_Repositories := Suc (rp_Repositories (rb_r s1))\<rparr>\<rparr>"
    from assms(1) en Inr have "put_each ix repo xs ?s2 = (r, s')" by (simp add: rebuild_body_def)
    from put_each_adds [OF this, of R] s1 assms(3,4) show ?thesis by (auto simp: adds_step_def intro: only_adds_trans)
  qed
qed

lemma rebuild_tx_adds:
  assumes "report_tx ix repo (rebuild_body ix repo xs) s = (r, s')"
    and "good (w_ix (rb_w s))" "\<not> intx (w_ix (rb_w s))"
    and "\<forall>y \<in> set xs. \<forall>e. made_of y e \<longrightarrow> R repo (im_Digest (fo_m y)) e"
  shows "adds_step R (w_ix (rb_w s)) (w_ix (rb_w s')) \<and>
    (is_ok r \<longrightarrow> (\<forall>y \<in> set xs. indexed (seen (w_ix (rb_w s'))) repo (im_Digest (fo_m y))))"
proof -
  let ?P = "\<lambda>r v. only_adds R (seen (w_ix (rb_w s))) v \<and> (is_ok r \<longrightarrow> (\<forall>y \<in> set xs. indexed v repo (im_Digest (fo_m y))))"
  have "good (w_ix (rb_w s')) \<and> \<not> intx (w_ix (rb_w s')) \<and>
    (outer (w_ix (rb_w s')) = outer (w_ix (rb_w s)) \<and> \<not> is_ok r \<or> ?P r (outer (w_ix (rb_w s'))) \<and> is_ok r)"
  proof (rule Tx_cases [OF assms(2,3) assms(1) [unfolded report_tx_def], where P = ?P])
    fix w1 :: "('x, 'b) rebuilding" and r w2
    assume w1: "good (w_ix (rb_w w1))" "intx (w_ix (rb_w w1))" "seen (w_ix (rb_w w1)) = seen (w_ix (rb_w s))"
      "outer (w_ix (rb_w w1)) = outer (w_ix (rb_w s))" "rebuild_body ix repo xs w1 = (r, w2)"
    from rebuild_body_adds [where R = R, OF w1(5,1,2) assms(4)] w1
    show "good (w_ix (rb_w w2)) \<and> intx (w_ix (rb_w w2)) \<and> outer (w_ix (rb_w w2)) = outer (w_ix (rb_w s)) \<and> ?P r (seen (w_ix (rb_w w2)))"
      by (simp add: adds_step_def)
  qed simp
  then show ?thesis using seen_outer [of "w_ix (rb_w s')"] seen_outer [OF assms(2,3)] assms(3)
    by (auto simp: adds_step_def)
qed

lemma rebuild_repository_adds:
  assumes "rebuild_repository D J ix fl ls repo maxm s = (r, s')" "reads_ok fl ls has"
    and "good (w_ix (rb_w s))" "\<not> intx (w_ix (rb_w s))"
    and "\<forall>d b x e. has (w_fl (rb_w s)) repo d = Some b \<longrightarrow> manifest_blob D J maxm d b x \<longrightarrow> made_of x e \<longrightarrow> R repo d e"
  shows "adds_step R (w_ix (rb_w s)) (w_ix (rb_w s')) \<and> has (w_fl (rb_w s')) = has (w_fl (rb_w s)) \<and>
    (is_ok r \<longrightarrow> restored D J maxm (has (w_fl (rb_w s))) repo (seen (w_ix (rb_w s'))))"
proof (cases "li_walker ls repo")
  case False
  with assms show ?thesis by (auto simp: rebuild_repository_def adds_step_def seen_outer)
next
  case True
  have same: "adds_step R x x" if "x = w_ix (rb_w s)" for x
    using that assms(3,4) by (simp add: adds_step_def seen_outer)
  obtain ds f1 where wk: "li_walk ls repo (w_fl (rb_w s)) = (ds, f1)" by force
  obtain q s2 where fe: "on_w (on_fl (find_each D J fl repo maxm ds [])) (s\<lparr>rb_w := (rb_w s)\<lparr>w_fl := f1\<rparr>\<rparr>) = (q, s2)" by force
  then obtain f2 where f2: "find_each D J fl repo maxm ds [] f1 = (q, f2)" "s2 = s\<lparr>rb_w := (rb_w s)\<lparr>w_fl := f2\<rparr>\<rparr>"
    by (auto elim!: on_w_cases on_fl_cases)
  have h1: "has f1 = has (w_fl (rb_w s))" by (rule reads_okD(2) [OF assms(2) wk])
  note fe_ok = find_each_ok [OF assms(2) f2(1)]
  have key: "im_Digest (fo_m x) = d" if "manifest_blob D J maxm d b x" for d b x
    using that by (auto simp: manifest_blob_def manifest_in_def found_of_def split: list.splits if_splits sum.splits)
  show ?thesis
  proof (cases q)
    case (Inl e)
    with assms(1) True wk fe f2(2) fe_ok h1 same show ?thesis by (auto simp: rebuild_repository_def)
  next
    case (Inr xs)
    with fe_ok have no: "\<forall>e. Inl e \<notin> set ds"
      and xs: "set xs = {x. \<exists>d b. Inr d \<in> set ds \<and> has f1 repo d = Some b \<and> manifest_blob D J maxm d b x}" by auto
    have all: "x \<in> set xs" if "has (w_fl (rb_w s)) repo d = Some b" "manifest_blob D J maxm d b x" for d b x
      using that xs h1 reads_okD(3) [OF assms(2) wk no, of d] by auto
    show ?thesis
    proof (cases xs)
      case Nil
      with all have "restored D J maxm (has (w_fl (rb_w s))) repo v" for v by (auto simp: restored_def)
      with assms(1) True wk fe f2(2) Inr Nil fe_ok h1 same show ?thesis by (auto simp: rebuild_repository_def)
    next
      case (Cons y ys)
      from assms(1) True wk fe Inr Cons
      have tx: "report_tx ix repo (rebuild_body ix repo xs) s2 = (r, s')"
        by (simp add: rebuild_repository_def)
      have R: "\<forall>y \<in> set xs. \<forall>e. made_of y e \<longrightarrow> R repo (im_Digest (fo_m y)) e"
        using xs key assms(5) h1 by auto
      have fr: "w_fl (rb_w s') = w_fl (rb_w s2)"
        by (rule Tx_frame [OF tx [unfolded report_tx_def], where h = "\<lambda>s. w_fl (rb_w s)"]) (simp, metis rebuild_body_frame snd_conv)
      have k2: "good (w_ix (rb_w s2))" "\<not> intx (w_ix (rb_w s2))" using assms(3,4) f2(2) by simp_all
      note res = rebuild_tx_adds [where R = R, OF tx k2 R]
      have "restored D J maxm (has (w_fl (rb_w s))) repo (seen (w_ix (rb_w s')))" if "is_ok r"
        unfolding restored_def using res that all key by blast
      with res fr fe_ok h1 f2(2) show ?thesis by auto
    qed
  qed
qed

lemma rebuild_each_adds:
  assumes "rebuild_each D J ix fl ls maxm nss errs s = (err, s')" "reads_ok fl ls has"
    and "good (w_ix (rb_w s))" "\<not> intx (w_ix (rb_w s))"
    and "\<forall>repo d b x e. ValidName repo \<longrightarrow> has (w_fl (rb_w s)) repo d = Some b \<longrightarrow> manifest_blob D J maxm d b x \<longrightarrow>
      made_of x e \<longrightarrow> R repo d e"
  shows "adds_step R (w_ix (rb_w s)) (w_ix (rb_w s')) \<and> has (w_fl (rb_w s')) = has (w_fl (rb_w s)) \<and>
    (err = None \<longrightarrow> errs = [] \<and> (\<forall>repo. Inr repo \<in> set nss \<longrightarrow> ValidName repo \<longrightarrow>
       restored D J maxm (has (w_fl (rb_w s))) repo (seen (w_ix (rb_w s')))))"
  using assms(1,3-)
proof (induction nss arbitrary: errs s)
  case Nil
  then show ?case by (auto simp: adds_step_def seen_outer join_errors_def split: if_splits)
next
  case (Cons n nss)
  show ?case
  proof (cases n)
    case (Inl e)
    with Cons.prems show ?thesis by (auto simp: adds_step_def seen_outer join_errors_def split: if_splits)
  next
    case (Inr repo)
    have rest: ?thesis if e: "rebuild_each D J ix fl ls maxm nss errs1 s1 = (err, s')" "errs1 = [] \<longrightarrow> errs = []"
      and s1: "adds_step R (w_ix (rb_w s)) (w_ix (rb_w s1))" "has (w_fl (rb_w s1)) = has (w_fl (rb_w s))"
      and c: "errs1 = [] \<longrightarrow> ValidName repo \<longrightarrow> restored D J maxm (has (w_fl (rb_w s))) repo (seen (w_ix (rb_w s1)))" for errs1 s1
    proof -
      have k: "good (w_ix (rb_w s1))" "\<not> intx (w_ix (rb_w s1))" using s1(1) Cons.prems(3) by (simp_all add: adds_step_def)
      note ih = Cons.IH [OF e(1) k] 
      have ih: "adds_step R (w_ix (rb_w s1)) (w_ix (rb_w s'))" "has (w_fl (rb_w s')) = has (w_fl (rb_w s))"
        "err = None \<longrightarrow> errs1 = [] \<and> (\<forall>repo. Inr repo \<in> set nss \<longrightarrow> ValidName repo \<longrightarrow>
          restored D J maxm (has (w_fl (rb_w s))) repo (seen (w_ix (rb_w s'))))"
        using ih Cons.prems(4) s1(2) by auto
      have mono: "restored D J maxm h r (seen (w_ix (rb_w s1))) \<Longrightarrow> restored D J maxm h r (seen (w_ix (rb_w s')))" for h r
        using ih(1) only_adds_restored unfolding adds_step_def by blast
      show ?thesis using ih e(2) c mono Inr adds_step_trans [OF s1(1) ih(1)] by auto
    qed
    show ?thesis
    proof (cases "ValidName repo")
      case False
      with Cons.prems Inr show ?thesis
        by (intro rest [of errs "s\<lparr>rb_r := (rb_r s)\<lparr>rp_Skipped := rp_Skipped (rb_r s) @ [repo]\<rparr>\<rparr>"])
          (auto simp: adds_step_def seen_outer)
    next
      case True
      obtain rr s1 where rr: "rebuild_repository D J ix fl ls repo maxm s = (rr, s1)" by force
      have "\<forall>d b x e. has (w_fl (rb_w s)) repo d = Some b \<longrightarrow> manifest_blob D J maxm d b x \<longrightarrow> made_of x e \<longrightarrow> R repo d e"
        using Cons.prems(4) True by blast
      note ok = rebuild_repository_adds [where R = R, OF rr assms(2) Cons.prems(2,3) this]
      show ?thesis
      proof (cases rr)
        case rr': (Inl e)
        with Cons.prems(1) Inr True rr have "rebuild_each D J ix fl ls maxm nss (errs @ [Wrapped (repo @ '': '') e]) s1 = (err, s')"
          by simp
        then show ?thesis by (rule rest) (use ok in auto)
      next
        case rr': (Inr u)
        with Cons.prems(1) Inr True rr have "rebuild_each D J ix fl ls maxm nss errs s1 = (err, s')" by simp
        then show ?thesis by (rule rest) (use ok rr' in auto)
      qed
    qed
  qed
qed

end

section \<open>Properties\<close>

text \<open>What the store alone says the index has: the manifests in the namespaces that are repository names.\<close>

definition says_manifest :: "digest_ops \<Rightarrow> decoders \<Rightarrow> int \<Rightarrow> ('f \<Rightarrow> string \<Rightarrow> digest \<Rightarrow> string option) \<Rightarrow> 'f \<Rightarrow> string \<Rightarrow> digest \<Rightarrow> found \<Rightarrow> bool" where
  "says_manifest D J maxm has f repo d x =
     (ValidName repo \<and> (\<exists>b. has f repo d = Some b \<and> manifest_blob D J (max_manifest maxm) d b x))"

text \<open>
  C17: a rebuild restores what the store says.  Whatever the index was, a rebuild leaves the store,
  the tags and every manifest that was indexed as they were; what it adds is, in a namespace that
  is a repository name, a blob whose bytes parse as a manifest, with the media type, the subject
  and the digests it holds that the bytes say; and when it reports no error, every such blob of
  every namespace listed is in the index.
\<close>

theorem rebuild_restores_the_index:
  assumes "mem_good (w_ix w) \<and> \<not> mem_intx (w_ix w)" and "reads_ok fl ls has"
    and "Rebuild D J mem_ops fl ls maxm w = (err, s')"
  shows "has (w_fl (rb_w s')) = has (w_fl w) \<and>
    only_adds (\<lambda>repo d e. \<exists>x. says_manifest D J maxm has (w_fl w) repo d x \<and> made_of x e)
      (mem_seen (w_ix w)) (mem_seen (w_ix (rb_w s'))) \<and>
    (err = None \<longrightarrow> {(repo, d). Inr repo \<in> set (fst (li_namespaces ls (w_fl w))) \<and> (\<exists>x. says_manifest D J maxm has (w_fl w) repo d x)}
       \<subseteq> {(repo, d). indexed (mem_seen (w_ix (rb_w s'))) repo d})"
proof (cases "li_namespacer ls")
  case False
  with assms(3) show ?thesis by (auto simp: Rebuild_def)
next
  case True
  let ?R = "\<lambda>repo d e. \<exists>x. says_manifest D J maxm has (w_fl w) repo d x \<and> made_of x e"
  obtain nss f1 where ns: "li_namespaces ls (w_fl w) = (nss, f1)" by force
  note h1 = reads_okD(1) [OF assms(2) ns]
  let ?s = "\<lparr>rb_r = \<lparr>rp_Repositories = 0, rp_Manifests = 0, rp_Skipped = []\<rparr>, rb_w = w\<lparr>w_fl := f1\<rparr>\<rparr>"
  from assms(3) True ns have e: "rebuild_each D J mem_ops fl ls (max_manifest maxm) nss [] ?s = (err, s')"
    by (simp add: Rebuild_def)
  have R: "\<forall>repo d b x e. ValidName repo \<longrightarrow> has (w_fl (rb_w ?s)) repo d = Some b \<longrightarrow> manifest_blob D J (max_manifest maxm) d b x \<longrightarrow>
      made_of x e \<longrightarrow> ?R repo d e" by (auto simp: says_manifest_def h1)
  from mem.rebuild_each_adds [where R = ?R, OF e assms(2) _ _ R] assms(1) h1 ns
  show ?thesis by (auto simp: mem.adds_step_def says_manifest_def restored_def)
qed

definition sample_lister :: "sample_blobs lister" where
  "sample_lister =
     \<lparr>li_namespacer = True, li_namespaces = (\<lambda>f. (map Inr (remdups (map (fst \<circ> fst) f)), f)),
      li_walker = (\<lambda>_. True), li_walk = (\<lambda>repo f. (map (Inr \<circ> snd \<circ> fst) (filter (\<lambda>e. fst (fst e) = repo) f), f))\<rparr>"

definition lost_index :: "(view, sample_blobs) world" where
  "lost_index = \<lparr>w_ix = new_index 5 100 [],
     w_fl = [((''acme/app'', ''sha256:{}00''), ''{}''), ((''acme/app'', ''sha256:zz''), ''z'')], w_ctx = []\<rparr>"

lemma sample_reads_ok: "reads_ok sample_store sample_lister sample_has"
proof -
  have "Inr d \<in> set (map (Inr \<circ> snd \<circ> fst) (filter (\<lambda>e. fst (fst e) = repo) f))" if "map_of f (repo, d) \<noteq> None"
    for f :: sample_blobs and repo d
    using that by (induction f) (auto split: if_splits)
  then show ?thesis
    by (auto simp: reads_ok_def sample_store_def sample_lister_def sample_has_def simp del: set_map split: option.splits)
qed

lemma rebuild_restores_the_index_witness:
  "\<exists>s'. Rebuild sample_digest_ops sample_decoders mem_ops sample_store sample_lister 0 lost_index = (None, s') \<and>
    indexed (mem_seen (w_ix (rb_w s'))) ''acme/app'' ''sha256:{}00''"
proof -
  let ?go = "Rebuild sample_digest_ops sample_decoders mem_ops sample_store sample_lister 0 lost_index"
  have "fst ?go = None" by code_simp
  then obtain s' where g: "?go = (None, s')" by (metis prod.collapse)
  have "mem_good (w_ix lost_index) \<and> \<not> mem_intx (w_ix lost_index)" by (simp add: lost_index_def)
  from rebuild_restores_the_index [OF this sample_reads_ok g]
  have sub: "{(repo, d). Inr repo \<in> set (fst (li_namespaces sample_lister (w_fl lost_index))) \<and>
      (\<exists>x. says_manifest sample_digest_ops sample_decoders 0 sample_has (w_fl lost_index) repo d x)}
    \<subseteq> {(repo, d). indexed (mem_seen (w_ix (rb_w s'))) repo d}" by simp
  have "Inr ''acme/app'' \<in> set (fst (li_namespaces sample_lister (w_fl lost_index)))"
    by (simp add: sample_lister_def lost_index_def)
  moreover have "says_manifest sample_digest_ops sample_decoders 0 sample_has (w_fl lost_index) ''acme/app'' ''sha256:{}00''
      (found_of ''sha256:{}00'' ''{}'' sample_manifest)"
  proof -
    have "ValidName ''acme/app''" "manifest_in sample_digest_ops sample_decoders ''sha256:{}00'' ''{}'' =
      Some (found_of ''sha256:{}00'' ''{}'' sample_manifest)" by code_simp+
    then show ?thesis by (simp add: says_manifest_def lost_index_def sample_has_def manifest_blob_def max_manifest_def)
  qed
  ultimately show ?thesis using g sub by blast
qed

end
