(* ===== verification/Import_Layout.thy ===== *)
theory Import_Layout
  imports Blob_Store Oci_Manifest Blob_Route
begin

text \<open>
  Image layouts on a disk and what an import reads of them (\<open>importer/importer.go\<close>): the layouts
  under a directory, a manifest and everything it reaches, the tag a \<open>ref.name\<close> is.  Files are a
  tree; symbolic links are not modelled.  What the operating system says of a file that cannot be
  read is not kept, as the code only tells it on.
\<close>

section \<open>Files\<close>

datatype node = File string time | Dir "(string \<times> node) list" | Special

text \<open>A path is its segments; \<open>os.Stat\<close> and \<open>os.Open\<close> find what is at one.\<close>

fun at_path :: "node \<Rightarrow> string list \<Rightarrow> node option" where
  "at_path t [] = Some t"
| "at_path (Dir es) (n # p) = (case map_of es n of None \<Rightarrow> None | Some t \<Rightarrow> at_path t p)"
| "at_path _ (n # p) = None"

definition blobPath_of :: "digest_ops \<Rightarrow> digest \<Rightarrow> string list" where
  "blobPath_of D d = [''blobs'', dg_algorithm D d, dg_encoded D d]"

text \<open>The annotation of an entry of \<open>index.json\<close> that says its tag.\<close>

definition AnnotationRefName :: string where
  "AnnotationRefName = ''org.opencontainers.image.ref.name''"

text \<open>\<open>os.Stat\<close> of a regular file: its bytes and when it was last written.\<close>

definition regular :: "node \<Rightarrow> string list \<Rightarrow> (string \<times> time) option" where
  "regular t p = (case at_path t p of Some (File b at) \<Rightarrow> Some (b, at) | _ \<Rightarrow> None)"

definition isLayout :: "node \<Rightarrow> bool" where
  "isLayout t = (regular t [''oci-layout''] \<noteq> None)"

section \<open>The layouts under a directory\<close>

lemma size_list_insort_key: "size_list f (insort_key g x xs) = Suc (f x + size_list f xs)"
  by (induction xs) auto

lemma size_list_sort_key [simp]: "size_list f (sort_key g xs) = size_list f xs"
  by (induction xs) (auto simp: size_list_insort_key)

text \<open>
  \<open>filepath.WalkDir\<close> visits the entries of a directory in their order, each directory before what
  is in it; a directory that is skipped is not entered.  \<open>p\<close> is the path so far, from the source.
\<close>

function walk_layouts :: "string list \<Rightarrow> (string \<times> node) list \<Rightarrow> (string list \<times> node) list" where
  "walk_layouts p [] = []"
| "walk_layouts p ((n, Dir es) # ns) =
     (if prefix ''.'' n \<or> n = ''blobs'' then walk_layouts p ns
      else (if isLayout (Dir es) then [(p @ [n], Dir es)] else []) @ walk_layouts (p @ [n]) (sort_key fst es) @ walk_layouts p ns)"
| "walk_layouts p ((n, File b at) # ns) = walk_layouts p ns"
| "walk_layouts p ((n, Special) # ns) = walk_layouts p ns"
  by pat_completeness auto

termination
  by (relation "measure (\<lambda>(p, es). size_list (size_prod (\<lambda>_. 0) size) es)") auto

type_synonym layout = "node \<times> string"

definition find_layouts :: "node \<Rightarrow> string \<Rightarrow> error + layout list" where
  "find_layouts src repo =
     (if isLayout src then
        (if repo = '''' then Inl (Other ''the source is one layout: say which repository it is'') else Inr [(src, repo)])
      else if repo \<noteq> '''' then
        Inl (Other ''the source is a directory of layouts, each named by its path: a repository name is not taken'')
      else
        (let out = (case src of Dir es \<Rightarrow> map (\<lambda>(p, t). (t, join_with ''/'' p)) (walk_layouts [] (sort_key fst es)) | _ \<Rightarrow> [])
         in if out = [] then Inl (Other ''no OCI image layout in it'') else Inr out))"

section \<open>A manifest of a layout\<close>

text \<open>Why a manifest is not taken.\<close>

datatype reason =
    NotADigest | TooLarge int | NotInLayout | Unreadable | ListedAs int int | AlgorithmUnknown | NotItsDigest
  | NotAManifest manifest_error | BadChild digest reason | BlobNotInLayout digest | BlobListedAs digest int int
  | SubjectAbsent digest | SubjectSkipped digest | ChildSkipped digest

record taken =
  ta_desc :: descriptor
  ta_m :: manifest
  ta_added :: time

text \<open>\<open>Algorithm.Available\<close> is a parameter, as the rest of package go-digest.\<close>

definition readManifest :: "digest_ops \<Rightarrow> (string \<Rightarrow> bool) \<Rightarrow> decoders \<Rightarrow> node \<Rightarrow> descriptor \<Rightarrow> int \<Rightarrow> reason + taken" where
  "readManifest D avail J dir d maxm =
     (if \<not> dg_validates D (d_digest d) then Inl NotADigest
      else if d_size d > maxm then Inl (TooLarge (d_size d))
      else
        (case at_path dir (blobPath_of D (d_digest d)) of
           None \<Rightarrow> Inl NotInLayout
         | Some (File bytes at) \<Rightarrow>
             (let b = take (nat (maxm + 1)) bytes;
                  algo = dg_algorithm D (d_digest d)
              in if int (length b) \<noteq> d_size d then Inl (ListedAs (int (length b)) (d_size d))
                 else if \<not> avail algo then Inl AlgorithmUnknown
                 else if dg_from_bytes D algo b \<noteq> d_digest d then Inl NotItsDigest
                 else
                   (case ParseManifest D J (d_mediaType d) b of
                      Inl e \<Rightarrow> Inl (NotAManifest e)
                    | Inr m \<Rightarrow> Inr \<lparr>ta_desc = d, ta_m = m, ta_added = at\<rparr>))
         | Some _ \<Rightarrow> Inl Unreadable))"

text \<open>The first blob of a manifest that the layout does not hold.\<close>

fun blobs_missing :: "digest_ops \<Rightarrow> node \<Rightarrow> descriptor list \<Rightarrow> reason option" where
  "blobs_missing D dir [] = None"
| "blobs_missing D dir (b # bs) =
     (if \<not> Distributable b then blobs_missing D dir bs
      else
        (case regular dir (blobPath_of D (d_digest b)) of
           None \<Rightarrow> Some (BlobNotInLayout (d_digest b))
         | Some (bytes, _) \<Rightarrow>
             if int (length bytes) \<noteq> d_size b then Some (BlobListedAs (d_digest b) (int (length bytes)) (d_size b))
             else blobs_missing D dir bs))"

section \<open>Everything a manifest reaches\<close>

record visited =
  vi_manifests :: "(digest, taken) gomap"
  vi_order :: "digest list"
  vi_blobs :: "(digest, int) gomap"
  vi_broken :: "(digest, reason) gomap"

text \<open>The blobs that taking a manifest needs: itself, and what it holds that is distributable.\<close>

definition add_blobs :: "digest \<Rightarrow> taken \<Rightarrow> (digest, int) gomap \<Rightarrow> (digest, int) gomap" where
  "add_blobs d mf bs =
     fold (\<lambda>b. AList.update (d_digest b) (d_size b)) (filter Distributable (Blobs (ta_m mf)))
       (AList.update d (d_size (ta_desc mf)) bs)"

definition visit_end :: "digest_ops \<Rightarrow> node \<Rightarrow> descriptor \<Rightarrow> reason + taken \<Rightarrow> reason option \<Rightarrow> visited \<Rightarrow> reason option \<times> visited" where
  "visit_end D dir d rm bad s =
     (case rm of
        Inl why \<Rightarrow> (Some why, s\<lparr>vi_broken := AList.update (d_digest d) why (vi_broken s)\<rparr>)
      | Inr mf \<Rightarrow>
          (case (case bad of Some why \<Rightarrow> Some why | None \<Rightarrow> blobs_missing D dir (Blobs (ta_m mf))) of
             Some why \<Rightarrow> (Some why, s\<lparr>vi_broken := AList.update (d_digest d) why (vi_broken s)\<rparr>)
           | None \<Rightarrow>
               (None, s\<lparr>vi_manifests := AList.update (d_digest d) mf (vi_manifests s), vi_order := vi_order s @ [d_digest d],
                  vi_blobs := add_blobs (d_digest d) mf (vi_blobs s)\<rparr>)))"

text \<open>
  \<open>visit\<close> calls itself on the children of an index.  What ends it is that content is named by its
  hash, so that no manifest is below itself; the fuel is the depth it may reach, and running out of
  it is no answer.
\<close>

fun visit :: "digest_ops \<Rightarrow> (string \<Rightarrow> bool) \<Rightarrow> decoders \<Rightarrow> node \<Rightarrow> int \<Rightarrow> nat \<Rightarrow> descriptor \<Rightarrow> visited \<Rightarrow> (reason option \<times> visited) option"
  and visit_children :: "digest_ops \<Rightarrow> (string \<Rightarrow> bool) \<Rightarrow> decoders \<Rightarrow> node \<Rightarrow> int \<Rightarrow> nat \<Rightarrow> descriptor list \<Rightarrow> visited \<Rightarrow>
    (reason option \<times> visited) option" where
  "visit D avail J dir maxm 0 d s = None"
| "visit D avail J dir maxm (Suc n) d s =
     (case map_of (vi_broken s) (d_digest d) of
        Some why \<Rightarrow> Some (Some why, s)
      | None \<Rightarrow>
          if map_of (vi_manifests s) (d_digest d) \<noteq> None then Some (None, s)
          else
            (case readManifest D avail J dir d maxm of
               Inl why \<Rightarrow> Some (visit_end D dir d (Inl why) None s)
             | Inr mf \<Rightarrow>
                 (case visit_children D avail J dir maxm n (slice (mf_manifests (ta_m mf))) s of
                    None \<Rightarrow> None
                  | Some (bad, s1) \<Rightarrow> Some (visit_end D dir d (Inr mf) bad s1))))"
| "visit_children D avail J dir maxm n [] s = Some (None, s)"
| "visit_children D avail J dir maxm n (c # cs) s =
     (case visit D avail J dir maxm n c s of
        None \<Rightarrow> None
      | Some (Some why, s1) \<Rightarrow> Some (Some (BadChild (d_digest c) why), s1)
      | Some (None, s1) \<Rightarrow> visit_children D avail J dir maxm n cs s1)"

section \<open>The tag of a \<open>ref.name\<close>\<close>

definition tagOf :: "string \<Rightarrow> string option" where
  "tagOf name =
     (if CHR ''@'' \<in> set name then None
      else
        (let rest = (case last_index_byte (CHR '':'') name of
             Some i \<Rightarrow> (case last_index_byte (CHR ''/'') name of
                 Some j \<Rightarrow> if i > j then Some (drop (Suc i) name) else None
               | None \<Rightarrow> Some (drop (Suc i) name))
           | None \<Rightarrow> if CHR ''/'' \<in> set name then None else Some name)
         in case rest of None \<Rightarrow> None | Some t \<Rightarrow> if ValidTag t then Some t else None))"

section \<open>What a visit leaves\<close>

definition needs :: "digest \<Rightarrow> taken \<Rightarrow> digest set" where
  "needs d mf = insert d (d_digest ` {b \<in> set (Blobs (ta_m mf)). Distributable b})"

definition children_of :: "taken \<Rightarrow> digest set" where
  "children_of mf = d_digest ` set (slice (mf_manifests (ta_m mf)))"

text \<open>
  Every manifest that is to be taken was read from the layout and is whole: what it holds is in the
  layout at its size, and its children are to be taken too; and the blobs it needs are among those to take.
\<close>

definition whole_in :: "digest_ops \<Rightarrow> (string \<Rightarrow> bool) \<Rightarrow> decoders \<Rightarrow> node \<Rightarrow> int \<Rightarrow> digest \<Rightarrow> taken \<Rightarrow> bool" where
  "whole_in D avail J dir maxm d mf =
     (d_digest (ta_desc mf) = d \<and> readManifest D avail J dir (ta_desc mf) maxm = Inr mf \<and> blobs_missing D dir (Blobs (ta_m mf)) = None)"

definition visited_ok :: "digest_ops \<Rightarrow> (string \<Rightarrow> bool) \<Rightarrow> decoders \<Rightarrow> node \<Rightarrow> int \<Rightarrow> visited \<Rightarrow> bool" where
  "visited_ok D avail J dir maxm s =
     (wf_map (vi_manifests s) \<and> set (vi_order s) = dom (map_of (vi_manifests s)) \<and>
      (\<forall>d mf. map_of (vi_manifests s) d = Some mf \<longrightarrow>
         whole_in D avail J dir maxm d mf \<and> children_of mf \<subseteq> dom (map_of (vi_manifests s))) \<and>
      (\<forall>d mf. map_of (vi_manifests s) d = Some mf \<longrightarrow> needs d mf \<subseteq> dom (map_of (vi_blobs s))))"

lemma dom_fold_update: "dom (map_of (fold (\<lambda>b. AList.update (k b) (v b)) bs m)) = k ` set bs \<union> dom (map_of m)"
  by (induction bs arbitrary: m) (auto simp: update_conv')

lemma dom_add_blobs: "dom (map_of (add_blobs d mf bs)) = needs d mf \<union> dom (map_of bs)"
  by (auto simp: add_blobs_def dom_fold_update needs_def update_conv')

definition onward :: "visited \<Rightarrow> visited \<Rightarrow> bool" where
  "onward s s' = (dom (map_of (vi_manifests s)) \<subseteq> dom (map_of (vi_manifests s')))"

lemma onward_refl [simp]: "onward s s"
  by (simp add: onward_def)

lemma onward_trans: "onward s s1 \<Longrightarrow> onward s1 s2 \<Longrightarrow> onward s s2"
  by (auto simp: onward_def)

lemma readManifest_desc: "readManifest D avail J dir d maxm = Inr mf \<Longrightarrow> ta_desc mf = d"
  by (auto simp: readManifest_def Let_def split: if_splits option.splits node.splits sum.splits)

lemma visit_broken [simp]:
  "visited_ok D avail J dir maxm (s\<lparr>vi_broken := b\<rparr>) = visited_ok D avail J dir maxm s"
  "onward s (s\<lparr>vi_broken := b\<rparr>)"
  by (simp_all add: visited_ok_def onward_def)

lemma visit_end_ok:
  assumes "visit_end D dir d rm bad s = (why, s')" "visited_ok D avail J dir maxm s"
    and "\<And>mf. rm = Inr mf \<Longrightarrow> readManifest D avail J dir d maxm = Inr mf"
    and "\<And>mf. rm = Inr mf \<Longrightarrow> bad = None \<Longrightarrow> children_of mf \<subseteq> dom (map_of (vi_manifests s))"
  shows "visited_ok D avail J dir maxm s' \<and> onward s s' \<and> (why = None \<longrightarrow> d_digest d \<in> dom (map_of (vi_manifests s')))"
proof (cases "why = None")
  case False
  with assms(1,2) show ?thesis
    by (auto simp: visit_end_def split: sum.splits option.splits)
next
  case True
  with assms(1) obtain mf where mf: "rm = Inr mf" "bad = None" "blobs_missing D dir (Blobs (ta_m mf)) = None"
    "s' = s\<lparr>vi_manifests := AList.update (d_digest d) mf (vi_manifests s), vi_order := vi_order s @ [d_digest d],
      vi_blobs := add_blobs (d_digest d) mf (vi_blobs s)\<rparr>"
    by (auto simp: visit_end_def split: sum.splits option.splits)
  note r = assms(3) [OF mf(1)]
  have "whole_in D avail J dir maxm (d_digest d) mf" using r mf(3) readManifest_desc [OF r] by (simp add: whole_in_def)
  then show ?thesis using assms(2) assms(4) [OF mf(1,2)]
    by (simp add: visited_ok_def onward_def mf(4) update_conv' dom_add_blobs) blast
qed

lemma visit_ok:
  "visit D avail J dir maxm n d s = Some (why, s') \<Longrightarrow> visited_ok D avail J dir maxm s \<Longrightarrow>
     visited_ok D avail J dir maxm s' \<and> onward s s' \<and> (why = None \<longrightarrow> d_digest d \<in> dom (map_of (vi_manifests s')))"
  "visit_children D avail J dir maxm n cs s = Some (why, s') \<Longrightarrow> visited_ok D avail J dir maxm s \<Longrightarrow>
     visited_ok D avail J dir maxm s' \<and> onward s s' \<and> (why = None \<longrightarrow> d_digest ` set cs \<subseteq> dom (map_of (vi_manifests s')))"
proof (induction D avail J dir maxm n d s and D avail J dir maxm n cs s arbitrary: why s' and why s' rule: visit_visit_children.induct)
  case (2 D avail J dir maxm n d s)
  show ?case
  proof (cases "map_of (vi_broken s) (d_digest d) = None \<and> map_of (vi_manifests s) (d_digest d) = None")
    case False
    with 2(2,3) show ?thesis by (auto split: option.splits)
  next
    case True
    show ?thesis
    proof (cases "readManifest D avail J dir d maxm")
      case (Inl e)
      with 2(2) True have "visit_end D dir d (Inl e) None s = (why, s')" by simp
      from visit_end_ok [OF this 2(3)] show ?thesis by simp
    next
      case (Inr mf)
      obtain bad s1 where s1: "visit_children D avail J dir maxm n (slice (mf_manifests (ta_m mf))) s = Some (bad, s1)"
        "visit_end D dir d (Inr mf) bad s1 = (why, s')"
        using 2(2) True Inr by (auto split: option.splits)
      have "visited_ok D avail J dir maxm s1 \<and> onward s s1 \<and>
          (bad = None \<longrightarrow> d_digest ` set (slice (mf_manifests (ta_m mf))) \<subseteq> dom (map_of (vi_manifests s1)))"
        by (rule 2(1) [OF _ _ Inr s1(1) 2(3)]) (use True in auto)
      with visit_end_ok [OF s1(2)] Inr show ?thesis by (auto simp: children_of_def intro: onward_trans)
    qed
  qed
next
  case (4 D avail J dir maxm n c cs s)
  obtain w s1 where v: "visit D avail J dir maxm n c s = Some (w, s1)" using 4(3) by (auto split: option.splits)
  note c = 4(1) [OF v 4(4)]
  show ?case
  proof (cases w)
    case None
    with 4(3) v have vs: "visit_children D avail J dir maxm n cs s1 = Some (why, s')" by simp
    from 4(2) [OF v _ _ vs] None c have cs: "visited_ok D avail J dir maxm s' \<and> onward s1 s' \<and>
        (why = None \<longrightarrow> d_digest ` set cs \<subseteq> dom (map_of (vi_manifests s')))" by simp
    moreover have "d_digest c \<in> dom (map_of (vi_manifests s'))" using c cs None unfolding onward_def by blast
    ultimately show ?thesis using c by (auto intro: onward_trans)
  next
    case (Some w')
    with 4(3) v c show ?thesis by auto
  qed
qed auto

text \<open>The fuel is enough when it is more than how deep the index goes.\<close>

definition rank_below :: "digest_ops \<Rightarrow> (string \<Rightarrow> bool) \<Rightarrow> decoders \<Rightarrow> node \<Rightarrow> int \<Rightarrow> (digest \<Rightarrow> nat) \<Rightarrow> bool" where
  "rank_below D avail J dir maxm rank =
     (\<forall>d mf c. readManifest D avail J dir d maxm = Inr mf \<longrightarrow> c \<in> children_of mf \<longrightarrow> rank c < rank (d_digest d))"

lemma visit_enough:
  assumes "rank_below D avail J dir maxm rank" "rank (d_digest d) < n"
  shows "visit D avail J dir maxm n d s \<noteq> None"
  using assms(2)
proof (induction n arbitrary: d s)
  case (Suc n)
  have kids: "visit_children D avail J dir maxm n cs s \<noteq> None" if "\<forall>c \<in> set cs. rank (d_digest c) < n" for cs s
    using that
  proof (induction cs arbitrary: s)
    case (Cons c cs)
    then obtain w s1 where "visit D avail J dir maxm n c s = Some (w, s1)" using Suc.IH [of c s] by fastforce
    with Cons show ?case by (cases w) auto
  qed simp
  have "rank (d_digest c) < n" if "readManifest D avail J dir d maxm = Inr mf" "c \<in> set (slice (mf_manifests (ta_m mf)))" for mf c
    using assms(1) that Suc.prems unfolding rank_below_def children_of_def by fastforce
  then have "visit_children D avail J dir maxm n (slice (mf_manifests (ta_m mf))) s \<noteq> None"
    if "readManifest D avail J dir d maxm = Inr mf" for mf using kids that by blast
  then show ?case by (auto split: option.splits sum.splits)
qed simp

section \<open>Tags\<close>

lemma tagOf_tag:
  assumes "tagOf name = Some t"
  shows "ValidTag t \<and> (name = t \<or> (\<exists>p. name = p @ '':'' @ t)) \<and> CHR ''@'' \<notin> set name"
proof -
  have drop: "\<exists>p. name = p @ '':'' @ drop (Suc i) name" if "last_index_byte (CHR '':'') name = Some i" for i
  proof -
    from that have "i < length name" "name ! i = CHR '':''"
      by (auto simp: last_index_byte_def index_byte_Some rev_nth)
    then have "name = take i name @ '':'' @ drop (Suc i) name" using id_take_nth_drop [of i name] by simp
    then show ?thesis by blast
  qed
  from assms drop show ?thesis
    by (auto simp: tagOf_def Let_def split: if_splits option.splits)
qed

end
