(* ===== verification/Exporter.thy ===== *)
theory Exporter
  imports Import_Layout
begin

text \<open>
  Writing a repository out as an image layout (\<open>export/export.go\<close>): its tags, the manifests and
  blobs they need, the manifests that refer to them, and the two files that make a directory a
  layout.  Files are written through a temporary one beside them; the operating system's calls are
  the fields of a record, a path is its segments from the layout's directory.
\<close>

section \<open>Files\<close>

record 'd files =
  fs_mkdir :: "string list \<Rightarrow> ('d, unit) op"
  fs_stat :: "string list \<Rightarrow> ('d, unit) op"
  fs_temp :: "string list \<Rightarrow> ('d, string list) op"
  fs_write :: "string list \<Rightarrow> string \<Rightarrow> ('d, unit) op"
  fs_close :: "string list \<Rightarrow> ('d, unit) op"
  fs_rename :: "string list \<Rightarrow> string list \<Rightarrow> ('d, unit) op"
  fs_remove :: "string list \<Rightarrow> 'd \<Rightarrow> 'd"

text \<open>
  \<open>atomic\<close>: the file is written under another name, and takes its own when it is whole.  Whatever
  happens, the temporary one is removed at the end, where a rename left it.
\<close>

definition atomic_write :: "'d files \<Rightarrow> string list \<Rightarrow> (string list \<Rightarrow> ('d, 'a) op) \<Rightarrow> ('d, 'a) op" where
  "atomic_write F path wr d =
     (case fs_mkdir F (butlast path) d of
        (Inl e, d1) \<Rightarrow> (Inl e, d1)
      | (Inr _, d1) \<Rightarrow>
          (case fs_temp F (butlast path) d1 of
             (Inl e, d2) \<Rightarrow> (Inl e, d2)
           | (Inr tmp, d2) \<Rightarrow>
               (case wr tmp d2 of
                  (Inl e, d3) \<Rightarrow> (case fs_close F tmp d3 of (_, d4) \<Rightarrow> (Inl e, fs_remove F tmp d4))
                | (Inr a, d3) \<Rightarrow>
                    (case fs_close F tmp d3 of
                       (Inl e, d4) \<Rightarrow> (Inl e, fs_remove F tmp d4)
                     | (Inr _, d4) \<Rightarrow>
                         (case fs_rename F tmp path d4 of
                            (Inl e, d5) \<Rightarrow> (Inl e, fs_remove F tmp d5)
                          | (Inr _, d5) \<Rightarrow> (Inr a, fs_remove F tmp d5))))))"

section \<open>An export\<close>

record export_report =
  xr_Tags :: nat
  xr_Manifests :: nat
  xr_Blobs :: nat
  xr_Bytes :: int
  xr_Skipped :: "digest list"

record export_options =
  xo_Tags :: "string list"
  xo_Referrers :: bool

text \<open>The \<open>writer\<close>, with the index, the store and the files it works on.\<close>

record ('x, 'f, 'd) exporting =
  ex_r :: export_report
  ex_ix :: 'x
  ex_fl :: 'f
  ex_dir :: 'd
  ex_done :: "(digest, bool) gomap"
  ex_manifests :: "digest list"

definition on_exix :: "('x, 'r) op \<Rightarrow> (('x, 'f, 'd) exporting, 'r) op" where
  "on_exix g s = (case g (ex_ix s) of (r, x) \<Rightarrow> (r, s\<lparr>ex_ix := x\<rparr>))"

definition on_exfl :: "('f, 'r) op \<Rightarrow> (('x, 'f, 'd) exporting, 'r) op" where
  "on_exfl g s = (case g (ex_fl s) of (r, x) \<Rightarrow> (r, s\<lparr>ex_fl := x\<rparr>))"

definition on_exdir :: "('d, 'r) op \<Rightarrow> (('x, 'f, 'd) exporting, 'r) op" where
  "on_exdir g s = (case g (ex_dir s) of (r, x) \<Rightarrow> (r, s\<lparr>ex_dir := x\<rparr>))"

definition is_done :: "('x, 'f, 'd) exporting \<Rightarrow> digest \<Rightarrow> bool" where
  "is_done s d = (map_of (ex_done s) d = Some True)"

definition set_done :: "digest \<Rightarrow> ('x, 'f, 'd) exporting \<Rightarrow> ('x, 'f, 'd) exporting" where
  "set_done d s = s\<lparr>ex_done := AList.update d True (ex_done s)\<rparr>"

definition skipped :: "digest \<Rightarrow> ('x, 'f, 'd) exporting \<Rightarrow> ('x, 'f, 'd) exporting" where
  "skipped d s = s\<lparr>ex_r := (ex_r s)\<lparr>xr_Skipped := xr_Skipped (ex_r s) @ [d]\<rparr>\<rparr>"

definition not_its_bytes :: "string \<Rightarrow> digest \<Rightarrow> error" where
  "not_its_bytes repo d = Other (repo @ ''@'' @ d @ '': the store's bytes do not hash to it'')"

definition hashes_to :: "digest_ops \<Rightarrow> digest \<Rightarrow> string \<Rightarrow> bool" where
  "hashes_to D d b = (dg_from_bytes D (dg_algorithm D d) b = d)"

definition export_read :: "'f store_ops \<Rightarrow> string \<Rightarrow> digest \<Rightarrow> int \<Rightarrow> ('f, string) op" where
  "export_read fl repo d n f =
     (case fl_open fl repo d f of
        (Inl e, f1) \<Rightarrow> (Inl (Wrapped (repo @ ''@'' @ d) e), f1)
      | (Inr b, f1) \<Rightarrow> (Inr (take (nat (n + 1)) b), f1))"

definition export_put :: "digest_ops \<Rightarrow> 'd files \<Rightarrow> string \<Rightarrow> digest \<Rightarrow> string \<Rightarrow> ('d, unit) op" where
  "export_put D F repo d b x =
     (if \<not> hashes_to D d b then (Inl (not_its_bytes repo d), x)
      else atomic_write F (blobPath_of D d) (\<lambda>tmp. fs_write F tmp b) x)"

text \<open>One blob: it is verified as it is copied, after the bytes are written and before they have their name.\<close>

definition write_verified :: "digest_ops \<Rightarrow> 'd files \<Rightarrow> string \<Rightarrow> digest \<Rightarrow> string \<Rightarrow> string list \<Rightarrow> ('d, unit) op" where
  "write_verified D F repo d b tmp x =
     (case fs_write F tmp b x of
        (Inl e, x1) \<Rightarrow> (Inl e, x1)
      | (Inr _, x1) \<Rightarrow> if hashes_to D d b then (Inr (), x1) else (Inl (not_its_bytes repo d), x1))"

definition export_bytes :: "digest_ops \<Rightarrow> 'd files \<Rightarrow> string \<Rightarrow> digest \<Rightarrow> string \<Rightarrow> (('x, 'f, 'd) exporting, unit) op" where
  "export_bytes D F repo d b s =
     (case on_exdir (atomic_write F (blobPath_of D d) (write_verified D F repo d b)) s of
        (Inl e, s1) \<Rightarrow> (Inl e, s1)
      | (Inr _, s1) \<Rightarrow>
          (Inr (), s1\<lparr>ex_r := (ex_r s1)\<lparr>xr_Blobs := Suc (xr_Blobs (ex_r s1)), xr_Bytes := xr_Bytes (ex_r s1) + int (length b)\<rparr>\<rparr>))"

definition export_blob :: "digest_ops \<Rightarrow> 'f store_ops \<Rightarrow> 'd files \<Rightarrow> string \<Rightarrow> descriptor \<Rightarrow> (('x, 'f, 'd) exporting, unit) op" where
  "export_blob D fl F repo desc s =
     (let d = d_digest desc in
      if is_done s d then (Inr (), s)
      else
        (case on_exdir (fs_stat F (blobPath_of D d)) (set_done d s) of
           (Inr _, s1) \<Rightarrow> (Inr (), s1)
         | (Inl _, s1) \<Rightarrow>
             (case WellKnown d of
                Some b \<Rightarrow> export_bytes D F repo d b s1
              | None \<Rightarrow>
                  (case on_exfl (fl_open fl repo d) s1 of
                     (Inl e, s2) \<Rightarrow> if errors_is e (Flob NotExist) then (Inr (), skipped d s2) else (Inl (Wrapped (repo @ ''@'' @ d) e), s2)
                   | (Inr b, s2) \<Rightarrow> export_bytes D F repo d b s2))))"

fun export_blobs :: "digest_ops \<Rightarrow> 'f store_ops \<Rightarrow> 'd files \<Rightarrow> string \<Rightarrow> descriptor list \<Rightarrow> (('x, 'f, 'd) exporting, unit) op" where
  "export_blobs D fl F repo [] s = (Inr (), s)"
| "export_blobs D fl F repo (l # ls) s =
     (case export_blob D fl F repo l s of
        (Inl e, s1) \<Rightarrow> (Inl e, s1)
      | (Inr _, s1) \<Rightarrow> export_blobs D fl F repo ls s1)"

section \<open>A manifest\<close>

text \<open>What a writer needs: the digests, the decoders, the index, the store, the files, the repository.\<close>

record ('x, 'f, 'd) writer =
  wr_D :: digest_ops
  wr_J :: decoders
  wr_ix :: "'x index_ops"
  wr_fl :: "'f store_ops"
  wr_F :: "'d files"
  wr_repo :: string

definition export_desc :: "imanifest \<Rightarrow> digest \<Rightarrow> descriptor" where
  "export_desc m d = \<lparr>d_mediaType = im_MediaType m, d_artifactType = im_ArtifactType m, d_digest = d, d_size = im_Size m,
     d_urls = [], d_annotations = [], d_platform = None\<rparr>"

text \<open>The bytes of a manifest into the layout, and what they are.\<close>

definition export_one :: "('x, 'f, 'd) writer \<Rightarrow> digest \<Rightarrow> imanifest \<Rightarrow> (('x, 'f, 'd) exporting, manifest) op" where
  "export_one W d m s =
     (case on_exfl (export_read (wr_fl W) (wr_repo W) d (im_Size m)) s of
        (Inl e, s1) \<Rightarrow> (Inl e, s1)
      | (Inr b, s1) \<Rightarrow>
          (case on_exdir (export_put (wr_D W) (wr_F W) (wr_repo W) d b) s1 of
             (Inl e, s2) \<Rightarrow> (Inl e, s2)
           | (Inr _, s2) \<Rightarrow>
               (let s3 = (set_done d s2)\<lparr>ex_manifests := ex_manifests s2 @ [d],
                      ex_r := (ex_r s2)\<lparr>xr_Manifests := Suc (xr_Manifests (ex_r s2))\<rparr>\<rparr>
                in case ParseManifest (wr_D W) (wr_J W) (im_MediaType m) b of
                     Inl e \<Rightarrow> (Inl (Wrapped (wr_repo W @ ''@'' @ d) (Cause (BadManifest e))), s3)
                   | Inr p \<Rightarrow> (Inr p, s3))))"

definition blobs_of :: "manifest \<Rightarrow> descriptor list" where
  "blobs_of p = slice (mf_layers p) @ (case mf_config p of None \<Rightarrow> [] | Some c \<Rightarrow> [c])"

text \<open>
  \<open>manifest\<close> calls itself on what an index lists.  The fuel is how deep that may go; what ends it is
  that a manifest is done before its children are looked at, so it need be no more than the index
  has manifests.
\<close>

fun export_manifest :: "('x, 'f, 'd) writer \<Rightarrow> nat \<Rightarrow> digest \<Rightarrow> ('x, 'f, 'd) exporting \<Rightarrow> ((error + descriptor) \<times> ('x, 'f, 'd) exporting) option"
  and export_children :: "('x, 'f, 'd) writer \<Rightarrow> nat \<Rightarrow> descriptor list \<Rightarrow> ('x, 'f, 'd) exporting \<Rightarrow> ((error + unit) \<times> ('x, 'f, 'd) exporting) option" where
  "export_manifest W 0 d s = None"
| "export_manifest W (Suc n) d s =
     (case on_exix (ix_get (wr_ix W) (wr_repo W) d) s of
        (Inl e, s1) \<Rightarrow> Some (Inl (Wrapped (wr_repo W @ ''@'' @ d) e), s1)
      | (Inr m, s1) \<Rightarrow>
          if is_done s1 d then Some (Inr (export_desc m d), s1)
          else
            (case export_one W d m s1 of
               (Inl e, s2) \<Rightarrow> Some (Inl e, s2)
             | (Inr p, s2) \<Rightarrow>
                 (case export_children W n (slice (mf_manifests p)) s2 of
                    None \<Rightarrow> None
                  | Some (Inl e, s3) \<Rightarrow> Some (Inl e, s3)
                  | Some (Inr _, s3) \<Rightarrow>
                      (case export_blobs (wr_D W) (wr_fl W) (wr_F W) (wr_repo W) (blobs_of p) s3 of
                         (Inl e, s4) \<Rightarrow> Some (Inl e, s4)
                       | (Inr _, s4) \<Rightarrow> Some (Inr (export_desc m d), s4)))))"
| "export_children W n [] s = Some (Inr (), s)"
| "export_children W n (c # cs) s =
     (case export_manifest W n (d_digest c) s of
        None \<Rightarrow> None
      | Some (Inl e, s1) \<Rightarrow> if errors_is e ErrNotFound then export_children W n cs (skipped (d_digest c) s1) else Some (Inl e, s1)
      | Some (Inr _, s1) \<Rightarrow> export_children W n cs s1)"

section \<open>A layout\<close>

fun export_tags :: "('x, 'f, 'd) writer \<Rightarrow> nat \<Rightarrow> string list \<Rightarrow> descriptor list \<Rightarrow> ('x, 'f, 'd) exporting \<Rightarrow>
    ((error + descriptor list) \<times> ('x, 'f, 'd) exporting) option" where
  "export_tags W n [] es s = Some (Inr es, s)"
| "export_tags W n (t # ts) es s =
     (case on_exix (ix_tag_get (wr_ix W) (wr_repo W) t) s of
        (Inl e, s1) \<Rightarrow> Some (Inl (if errors_is e ErrNotFound then Other (wr_repo W @ '':'' @ t @ '': no such tag'') else e), s1)
      | (Inr tg, s1) \<Rightarrow>
          (case export_manifest W n (tg_Digest tg) s1 of
             None \<Rightarrow> None
           | Some (Inl e, s2) \<Rightarrow> Some (Inl e, s2)
           | Some (Inr d, s2) \<Rightarrow>
               export_tags W n ts (es @ [d\<lparr>d_annotations := [(AnnotationRefName, t)]\<rparr>])
                 (s2\<lparr>ex_r := (ex_r s2)\<lparr>xr_Tags := Suc (xr_Tags (ex_r s2))\<rparr>\<rparr>)))"

fun export_referrers :: "('x, 'f, 'd) writer \<Rightarrow> nat \<Rightarrow> imanifest list \<Rightarrow> descriptor list \<Rightarrow> ('x, 'f, 'd) exporting \<Rightarrow>
    ((error + descriptor list) \<times> ('x, 'f, 'd) exporting) option" where
  "export_referrers W n [] es s = Some (Inr es, s)"
| "export_referrers W n (m # ms) es s =
     (if is_done s (im_Digest m) then export_referrers W n ms es s
      else
        (case export_manifest W n (im_Digest m) s of
           None \<Rightarrow> None
         | Some (Inl e, s1) \<Rightarrow> Some (Inl e, s1)
         | Some (Inr d, s1) \<Rightarrow> export_referrers W n ms (es @ [d]) s1))"

text \<open>The loop over the manifests written, which grows as it goes: \<open>k\<close> turns at most, from the \<open>i\<close>-th.\<close>

fun export_all_referrers :: "('x, 'f, 'd) writer \<Rightarrow> nat \<Rightarrow> nat \<Rightarrow> nat \<Rightarrow> descriptor list \<Rightarrow> ('x, 'f, 'd) exporting \<Rightarrow>
    ((error + descriptor list) \<times> ('x, 'f, 'd) exporting) option" where
  "export_all_referrers W n k i es s =
     (if length (ex_manifests s) \<le> i then Some (Inr es, s)
      else
        (case k of
           0 \<Rightarrow> None
         | Suc k' \<Rightarrow>
             (case on_exix (ix_referrers (wr_ix W) (wr_repo W) (ex_manifests s ! i) '''') s of
                (Inl e, s1) \<Rightarrow> Some (Inl e, s1)
              | (Inr ms, s1) \<Rightarrow>
                  (case export_referrers W n ms es s1 of
                     None \<Rightarrow> None
                   | Some (Inl e, s2) \<Rightarrow> Some (Inl e, s2)
                   | Some (Inr es', s2) \<Rightarrow> export_all_referrers W n k' (Suc i) es' s2))))"

declare export_all_referrers.simps [simp del]

text \<open>\<open>json.Marshal\<close> of the two files, and \<open>writeJSON\<close>.\<close>

record layout_encoders =
  le_index :: "descriptor list \<Rightarrow> string"
  le_layout :: string

definition writeJSON :: "'d files \<Rightarrow> string list \<Rightarrow> string \<Rightarrow> ('d, unit) op" where
  "writeJSON F path b = atomic_write F path (\<lambda>tmp. fs_write F tmp b)"

definition layout_files :: "('x, 'f, 'd) writer \<Rightarrow> layout_encoders \<Rightarrow> descriptor list \<Rightarrow> (('x, 'f, 'd) exporting, unit) op" where
  "layout_files W E es s =
     (case on_exdir (writeJSON (wr_F W) [''index.json''] (le_index E es)) s of
        (Inl e, s1) \<Rightarrow> (Inl e, s1)
      | (Inr _, s1) \<Rightarrow> on_exdir (writeJSON (wr_F W) [''oci-layout''] (le_layout E)) s1)"

definition export_from :: "('x, 'f, 'd) writer \<Rightarrow> layout_encoders \<Rightarrow> export_options \<Rightarrow> nat \<Rightarrow> string list \<Rightarrow> ('x, 'f, 'd) exporting \<Rightarrow>
    ((error + unit) \<times> ('x, 'f, 'd) exporting) option" where
  "export_from W E o' n tags s =
     (if tags = [] then Some (Inl (Other (wr_repo W @ '': nothing to export'')), s)
      else
        (case on_exdir (fs_mkdir (wr_F W) []) s of
           (Inl e, s1) \<Rightarrow> Some (Inl e, s1)
         | (Inr _, s1) \<Rightarrow>
             (case export_tags W n tags [] s1 of
                None \<Rightarrow> None
              | Some (Inl e, s2) \<Rightarrow> Some (Inl e, s2)
              | Some (Inr es, s2) \<Rightarrow>
                  (case (if xo_Referrers o' then export_all_referrers W n n 0 es s2 else Some (Inr es, s2)) of
                     None \<Rightarrow> None
                   | Some (Inl e, s3) \<Rightarrow> Some (Inl e, s3)
                   | Some (Inr es', s3) \<Rightarrow> Some (layout_files W E es' s3)))))"

definition Layout :: "('x, 'f, 'd) writer \<Rightarrow> layout_encoders \<Rightarrow> export_options \<Rightarrow> nat \<Rightarrow> ('x, 'f, 'd) exporting \<Rightarrow>
    ((error + unit) \<times> ('x, 'f, 'd) exporting) option" where
  "Layout W E o' n s =
     (if xo_Tags o' \<noteq> [] then export_from W E o' n (xo_Tags o') s
      else
        (case on_exix (ix_tag_all (wr_ix W) (wr_repo W)) s of
           (Inl e, s1) \<Rightarrow> Some (Inl e, s1)
         | (Inr ts, s1) \<Rightarrow> export_from W E o' n (map tg_Name ts) s1))"

text \<open>An export begins with nothing done.\<close>

definition new_export :: "'x \<Rightarrow> 'f \<Rightarrow> 'd \<Rightarrow> ('x, 'f, 'd) exporting" where
  "new_export x f d =
     \<lparr>ex_r = \<lparr>xr_Tags = 0, xr_Manifests = 0, xr_Blobs = 0, xr_Bytes = 0, xr_Skipped = []\<rparr>,
      ex_ix = x, ex_fl = f, ex_dir = d, ex_done = [], ex_manifests = []\<rparr>"

end
