(* ===== verification/Export_Facts.thy ===== *)
theory Export_Facts
  imports Exporter Mem_Laws
begin

text \<open>
  What an export leaves in its directory.  Files appear under their names whole or not at all, every
  blob hashes to its name, and everything a manifest that was written names is there too or was told
  of; and the export ends.
\<close>

section \<open>What the operating system promises\<close>

definition temp_name :: "string list \<Rightarrow> bool" where
  "temp_name p = (p \<noteq> [] \<and> prefix ''.tmp-'' (last p))"

text \<open>The files of a directory, less the temporary ones.\<close>

definition shown :: "('d \<Rightarrow> string list \<Rightarrow> string option) \<Rightarrow> 'd \<Rightarrow> string list \<Rightarrow> string option" where
  "shown at x p = (if temp_name p then None else at x p)"

definition files_law :: "'d files \<Rightarrow> ('d \<Rightarrow> string list \<Rightarrow> string option) \<Rightarrow> bool" where
  "files_law F at =
     ((\<forall>p x r x'. fs_mkdir F p x = (r, x') \<longrightarrow> at x' = at x) \<and>
      (\<forall>p x r x'. fs_stat F p x = (r, x') \<longrightarrow> at x' = at x \<and> (is_ok r \<longrightarrow> at x p \<noteq> None)) \<and>
      (\<forall>p x r x'. fs_temp F p x = (r, x') \<longrightarrow>
         (case r of Inl e \<Rightarrow> at x' = at x | Inr t \<Rightarrow> temp_name t \<and> at x t = None \<and> at x' = (at x)(t \<mapsto> ''''))) \<and>
      (\<forall>p b x r x'. fs_write F p b x = (r, x') \<longrightarrow>
         (\<exists>c. at x' = (at x)(p := c)) \<and> (\<forall>a. is_ok r \<longrightarrow> at x p = Some a \<longrightarrow> at x' p = Some (a @ b))) \<and>
      (\<forall>p x r x'. fs_close F p x = (r, x') \<longrightarrow> at x' = at x) \<and>
      (\<forall>p q x r x'. fs_rename F p q x = (r, x') \<longrightarrow> at x' = (if is_ok r then (at x)(q := at x p, p := None) else at x)) \<and>
      (\<forall>p x. at (fs_remove F p x) = at x \<or> at (fs_remove F p x) = (at x)(p := None)))"

lemma files_lawD:
  assumes "files_law F at"
  shows "fs_mkdir F p x = (r, x') \<Longrightarrow> at x' = at x"
    and "fs_stat F p x = (r, x') \<Longrightarrow> at x' = at x \<and> (is_ok r \<longrightarrow> at x p \<noteq> None)"
    and "fs_temp F p x = (r', x') \<Longrightarrow>
      (case r' of Inl e \<Rightarrow> at x' = at x | Inr t \<Rightarrow> temp_name t \<and> at x t = None \<and> at x' = (at x)(t \<mapsto> ''''))"
    and "fs_write F p b x = (r, x') \<Longrightarrow>
      (\<exists>c. at x' = (at x)(p := c)) \<and> (is_ok r \<longrightarrow> at x p = Some a \<longrightarrow> at x' p = Some (a @ b))"
    and "fs_close F p x = (r, x') \<Longrightarrow> at x' = at x"
    and "fs_rename F p q x = (r, x') \<Longrightarrow> at x' = (if is_ok r then (at x)(q := at x p, p := None) else at x)"
    and "at (fs_remove F p x) = at x \<or> at (fs_remove F p x) = (at x)(p := None)"
proof -
  note l = assms [unfolded files_law_def]
  note c1 = conjunct1 [OF l] conjunct1 [OF conjunct2 [OF l]] conjunct1 [OF conjunct2 [OF conjunct2 [OF l]]]
  note l4 = conjunct2 [OF conjunct2 [OF conjunct2 [OF l]]]
  note c4 = conjunct1 [OF l4] conjunct1 [OF conjunct2 [OF l4]] conjunct1 [OF conjunct2 [OF conjunct2 [OF l4]]]
    conjunct2 [OF conjunct2 [OF conjunct2 [OF l4]]]
  show "fs_mkdir F p x = (r, x') \<Longrightarrow> at x' = at x" by (rule c1(1) [rule_format])
  show "fs_stat F p x = (r, x') \<Longrightarrow> at x' = at x \<and> (is_ok r \<longrightarrow> at x p \<noteq> None)" by (rule c1(2) [THEN spec, THEN spec, THEN spec, THEN spec, THEN mp])
  show "fs_temp F p x = (r', x') \<Longrightarrow>
      (case r' of Inl e \<Rightarrow> at x' = at x | Inr t \<Rightarrow> temp_name t \<and> at x t = None \<and> at x' = (at x)(t \<mapsto> ''''))"
    by (rule c1(3) [THEN spec, THEN spec, THEN spec, THEN spec, THEN mp])
  show "fs_write F p b x = (r, x') \<Longrightarrow>
      (\<exists>c. at x' = (at x)(p := c)) \<and> (is_ok r \<longrightarrow> at x p = Some a \<longrightarrow> at x' p = Some (a @ b))"
    by (drule c4(1) [THEN spec, THEN spec, THEN spec, THEN spec, THEN spec, THEN mp]) blast
  show "fs_close F p x = (r, x') \<Longrightarrow> at x' = at x" by (rule c4(2) [rule_format])
  show "fs_rename F p q x = (r, x') \<Longrightarrow> at x' = (if is_ok r then (at x)(q := at x p, p := None) else at x)"
    by (rule c4(3) [THEN spec, THEN spec, THEN spec, THEN spec, THEN spec, THEN mp])
  show "at (fs_remove F p x) = at x \<or> at (fs_remove F p x) = (at x)(p := None)" by (rule c4(4) [THEN spec, THEN spec])
qed

text \<open>No call of the operating system or of the store answers an error of the index.\<close>

definition not_index_error :: "('s, 'a) op \<Rightarrow> bool" where
  "not_index_error f = (\<forall>x e x'. f x = (Inl e, x') \<longrightarrow> \<not> errors_is e ErrNotFound)"

definition quiet_writer :: "('x, 'f, 'd) writer \<Rightarrow> bool" where
  "quiet_writer W =
     ((\<forall>repo d. not_index_error (fl_open (wr_fl W) repo d)) \<and> (\<forall>p. not_index_error (fs_mkdir (wr_F W) p)) \<and> (\<forall>p. not_index_error (fs_temp (wr_F W) p)) \<and>
      (\<forall>p b. not_index_error (fs_write (wr_F W) p b)) \<and> (\<forall>p. not_index_error (fs_close (wr_F W) p)) \<and> (\<forall>p q. not_index_error (fs_rename (wr_F W) p q)))"

text \<open>A digest that bytes hash to is its algorithm, a colon and its encoding, which does not look temporary.\<close>

definition well_formed :: "digest_ops \<Rightarrow> digest \<Rightarrow> bool" where
  "well_formed D d = (d = dg_algorithm D d @ '':'' @ dg_encoded D d \<and> \<not> prefix ''.tmp-'' (dg_encoded D d))"

definition hashes_well_formed :: "digest_ops \<Rightarrow> bool" where
  "hashes_well_formed D = (\<forall>d b. hashes_to D d b \<longrightarrow> well_formed D d)"

section \<open>Files, whole or not at all\<close>

lemma temp_blobPath: "temp_name (blobPath_of D d) = prefix ''.tmp-'' (dg_encoded D d)"
  by (simp add: temp_name_def blobPath_of_def)

lemma shown_same: "at x' = at x \<Longrightarrow> shown at x' = shown at x"
  by (rule ext) (simp add: shown_def)

lemma shown_temp: "temp_name t \<Longrightarrow> at x' = (at x)(t := c) \<Longrightarrow> shown at x' = shown at x"
  by (auto simp: shown_def fun_eq_iff)

definition leaves_written :: "('d \<Rightarrow> string list \<Rightarrow> string option) \<Rightarrow> string \<Rightarrow> (string list \<Rightarrow> ('d, 'a) op) \<Rightarrow> bool" where
  "leaves_written at b wr =
     (\<forall>t x r x'. wr t x = (r, x') \<longrightarrow>
        (\<exists>c. at x' = (at x)(t := c)) \<and> (is_ok r \<longrightarrow> at x t = Some '''' \<longrightarrow> at x' t = Some b))"

lemma atomic_shown:
  assumes law: "files_law F at" and wr: "leaves_written at b wr" and a: "atomic_write F path wr x = (r, x')"
  shows "shown at x' = (if is_ok r \<and> \<not> temp_name path then (shown at x)(path \<mapsto> b) else shown at x)"
proof -
  note laws = files_lawD [OF law]
  obtain m x1 where m: "fs_mkdir F (butlast path) x = (m, x1)" by force
  then have x1: "at x1 = at x" by (rule laws(1))
  show ?thesis
  proof (cases m)
    case (Inl e)
    with a m x1 show ?thesis by (auto simp: atomic_write_def shown_def)
  next
    case m': (Inr u)
    obtain t x2 where t: "fs_temp F (butlast path) x1 = (t, x2)" by force
    then have tl: "case t of Inl e \<Rightarrow> at x2 = at x1 | Inr t \<Rightarrow> temp_name t \<and> at x1 t = None \<and> at x2 = (at x1)(t \<mapsto> '''')"
      by (rule laws(3))
    show ?thesis
    proof (cases t)
      case (Inl e)
      with a m m' t tl x1 show ?thesis by (auto simp: atomic_write_def shown_def)
    next
      case t': (Inr tmp)
      with tl have tmp: "temp_name tmp" "at x2 = (at x1)(tmp \<mapsto> '''')" by simp_all
      obtain w x3 where w: "wr tmp x2 = (w, x3)" by force
      then obtain c where c: "at x3 = (at x2)(tmp := c)" "is_ok w \<longrightarrow> c = Some b"
        using wr tmp(2) unfolding leaves_written_def by fastforce
      have rem: "shown at (fs_remove F tmp y) = shown at y" for y
      proof -
        have "at (fs_remove F tmp y) = at y \<or> at (fs_remove F tmp y) = (at y)(tmp := None)" by (rule laws(7))
        then show ?thesis using tmp(1) by (auto simp: shown_def fun_eq_iff)
      qed
      have s3: "shown at x3 = shown at x" using tmp c x1 by (auto simp: shown_def fun_eq_iff)
      obtain k x4 where k: "fs_close F tmp x3 = (k, x4)" by force
      then have x4: "at x4 = at x3" by (rule laws(5))
      then have s4: "shown at x4 = shown at x" using s3 shown_same by metis
      obtain n x5 where n: "fs_rename F tmp path x4 = (n, x5)" by force
      then have x5: "at x5 = (if is_ok n then (at x4)(path := at x4 tmp, tmp := None) else at x4)" by (rule laws(6))
      then have s5: "shown at x5 = (if is_ok n \<and> \<not> temp_name path then (shown at x4)(path := at x4 tmp) else shown at x4)"
        using tmp(1) by (auto simp: shown_def fun_eq_iff)
      have "at x4 tmp = Some b" if "is_ok w" using x4 c that by simp
      with a m m' t t' w k n rem s4 s5 show ?thesis by (auto simp: atomic_write_def split: sum.splits)
    qed
  qed
qed

lemma quiet_open: "quiet_writer W \<Longrightarrow> fl_open (wr_fl W) repo d f = (Inl e, f') \<Longrightarrow> \<not> errors_is e ErrNotFound"
  unfolding quiet_writer_def not_index_error_def by metis

lemma quiet_atomic:
  assumes "quiet_writer W" "\<And>t. not_index_error (wr t)"
  shows "not_index_error (atomic_write (wr_F W) path wr)"
  unfolding not_index_error_def
proof (intro allI impI)
  fix x e x' assume "atomic_write (wr_F W) path wr x = (Inl e, x')"
  then show "\<not> errors_is e ErrNotFound"
    using assms unfolding quiet_writer_def not_index_error_def atomic_write_def
    by (auto split: sum.splits prod.splits) metis+
qed

section \<open>What is written, and what it names\<close>

definition sound_dir :: "digest_ops \<Rightarrow> ('d \<Rightarrow> string list \<Rightarrow> string option) \<Rightarrow> 'd \<Rightarrow> bool" where
  "sound_dir D at x = (\<forall>d b. well_formed D d \<longrightarrow> shown at x (blobPath_of D d) = Some b \<longrightarrow> hashes_to D d b)"

definition in_layout :: "digest_ops \<Rightarrow> ('d \<Rightarrow> string list \<Rightarrow> string option) \<Rightarrow> ('x, 'f, 'd) exporting \<Rightarrow> digest \<Rightarrow> bool" where
  "in_layout D at s d = (shown at (ex_dir s) (blobPath_of D d) \<noteq> None)"

text \<open>A digest that is one is in the layout, or told as left out.\<close>

definition accounted :: "digest_ops \<Rightarrow> ('d \<Rightarrow> string list \<Rightarrow> string option) \<Rightarrow> ('x, 'f, 'd) exporting \<Rightarrow> digest \<Rightarrow> bool" where
  "accounted D at s d = (well_formed D d \<longrightarrow> in_layout D at s d \<or> d \<in> set (xr_Skipped (ex_r s)))"

text \<open>The manifest \<open>d\<close> is the index's entry \<open>e\<close>, and its bytes in the layout read as \<open>p\<close>.\<close>

definition reads_as :: "('x, 'f, 'd) writer \<Rightarrow> ('d \<Rightarrow> string list \<Rightarrow> string option) \<Rightarrow> rows \<Rightarrow> ('x, 'f, 'd) exporting \<Rightarrow> digest \<Rightarrow>
    entry \<Rightarrow> manifest \<Rightarrow> bool" where
  "reads_as W at v s d e p =
     (ro_manifests v (wr_repo W) d = Some e \<and>
      (\<exists>b. shown at (ex_dir s) (blobPath_of (wr_D W) d) = Some b \<and> hashes_to (wr_D W) d b \<and>
           ParseManifest (wr_D W) (wr_J W) (im_MediaType (en_m e)) b = Inr p))"

text \<open>The blobs a manifest names: its config and its layers.\<close>

definition blobs_named :: "manifest \<Rightarrow> descriptor set" where
  "blobs_named p = set_option (mf_config p) \<union> set (slice (mf_layers p))"

lemma set_blobs_of: "set (blobs_of p) = blobs_named p"
  by (auto simp: blobs_named_def blobs_of_def split: option.splits)

text \<open>What was looked at is a manifest that was written, or a blob of one.\<close>

definition was_reached :: "('x, 'f, 'd) writer \<Rightarrow> ('d \<Rightarrow> string list \<Rightarrow> string option) \<Rightarrow> rows \<Rightarrow> ('x, 'f, 'd) exporting \<Rightarrow> digest \<Rightarrow> bool" where
  "was_reached W at v s d =
     (d \<in> set (ex_manifests s) \<or>
      (\<exists>m e p. m \<in> set (ex_manifests s) \<and> reads_as W at v s m e p \<and> d \<in> d_digest ` blobs_named p))"

text \<open>A manifest that was written reads, and everything it names was looked at or is told as left out.\<close>

definition closed_manifest :: "('x, 'f, 'd) writer \<Rightarrow> ('d \<Rightarrow> string list \<Rightarrow> string option) \<Rightarrow> rows \<Rightarrow> ('x, 'f, 'd) exporting \<Rightarrow> digest \<Rightarrow> bool" where
  "closed_manifest W at v s m =
     (\<exists>e p. reads_as W at v s m e p \<and>
        (\<forall>c \<in> d_digest ` set (slice (mf_manifests p)). is_done s c \<or> c \<in> set (xr_Skipped (ex_r s))) \<and>
        (\<forall>l \<in> d_digest ` blobs_named p. is_done s l))"

text \<open>What every step of an export keeps, and what one that answers no error keeps besides.\<close>

definition exporting_base :: "('x \<Rightarrow> bool) \<Rightarrow> ('x \<Rightarrow> rows) \<Rightarrow> ('x, 'f, 'd) writer \<Rightarrow> ('d \<Rightarrow> string list \<Rightarrow> string option) \<Rightarrow> rows \<Rightarrow>
    ('x, 'f, 'd) exporting \<Rightarrow> bool" where
  "exporting_base good seen W at v s = (good (ex_ix s) \<and> seen (ex_ix s) = v \<and> sound_dir (wr_D W) at (ex_dir s))"

definition exporting_ok :: "('x \<Rightarrow> bool) \<Rightarrow> ('x \<Rightarrow> rows) \<Rightarrow> ('x, 'f, 'd) writer \<Rightarrow> ('d \<Rightarrow> string list \<Rightarrow> string option) \<Rightarrow> rows \<Rightarrow>
    ('x, 'f, 'd) exporting \<Rightarrow> bool" where
  "exporting_ok good seen W at v s =
     (exporting_base good seen W at v s \<and>
      (\<forall>d. is_done s d \<longrightarrow> accounted (wr_D W) at s d \<and> was_reached W at v s d) \<and>
      (\<forall>m \<in> set (ex_manifests s). is_done s m \<and> (\<exists>e p. reads_as W at v s m e p)) \<and> distinct (ex_manifests s))"

text \<open>An export only adds: to the layout, to what it looked at, and to what it tells of.\<close>

definition adds_to :: "digest_ops \<Rightarrow> ('d \<Rightarrow> string list \<Rightarrow> string option) \<Rightarrow> ('x, 'f, 'd) exporting \<Rightarrow> ('x, 'f, 'd) exporting \<Rightarrow> bool" where
  "adds_to D at s s' =
     ((\<forall>d. is_done s d \<longrightarrow> is_done s' d) \<and> set (xr_Skipped (ex_r s)) \<subseteq> set (xr_Skipped (ex_r s')) \<and>
      prefix (ex_manifests s) (ex_manifests s') \<and>
      (\<forall>p. shown at (ex_dir s) p \<noteq> None \<longrightarrow> shown at (ex_dir s') p \<noteq> None) \<and>
      (\<forall>d. is_done s d \<longrightarrow> well_formed D d \<longrightarrow>
         shown at (ex_dir s') (blobPath_of D d) = shown at (ex_dir s) (blobPath_of D d)))"

lemma adds_to_refl [simp]: "adds_to D at s s"
  by (simp add: adds_to_def)

lemma adds_to_trans: "adds_to D at s s1 \<Longrightarrow> adds_to D at s1 s2 \<Longrightarrow> adds_to D at s s2"
  unfolding adds_to_def by (elim conjE, intro conjI) (blast, blast, rule prefix_order.trans, assumption+, blast, metis)

lemma adds_to_reads:
  assumes "adds_to (wr_D W) at s s'" "is_done s m" "reads_as W at v s m e p" "hashes_well_formed (wr_D W)"
  shows "reads_as W at v s' m e p"
proof -
  obtain b where b: "shown at (ex_dir s) (blobPath_of (wr_D W) m) = Some b" "hashes_to (wr_D W) m b"
    "ParseManifest (wr_D W) (wr_J W) (im_MediaType (en_m e)) b = Inr p" "ro_manifests v (wr_repo W) m = Some e"
    using assms(3) by (auto simp: reads_as_def)
  then have "well_formed (wr_D W) m" using assms(4) by (auto simp: hashes_well_formed_def)
  then have "shown at (ex_dir s') (blobPath_of (wr_D W) m) = Some b" using assms(1,2) b(1) by (auto simp: adds_to_def)
  with b show ?thesis by (auto simp: reads_as_def)
qed

lemma adds_to_closed:
  assumes "adds_to (wr_D W) at s s'" "is_done s m" "closed_manifest W at v s m" "hashes_well_formed (wr_D W)"
  shows "closed_manifest W at v s' m"
proof -
  obtain e p where p: "reads_as W at v s m e p"
    "\<forall>c \<in> d_digest ` set (slice (mf_manifests p)). is_done s c \<or> c \<in> set (xr_Skipped (ex_r s))"
    "\<forall>l \<in> d_digest ` blobs_named p. is_done s l" using assms(3) unfolding closed_manifest_def by blast
  have "reads_as W at v s' m e p" by (rule adds_to_reads [OF assms(1,2) p(1) assms(4)])
  moreover have "\<forall>c. is_done s c \<longrightarrow> is_done s' c" "set (xr_Skipped (ex_r s)) \<subseteq> set (xr_Skipped (ex_r s'))"
    using assms(1) by (simp_all add: adds_to_def)
  ultimately show ?thesis using p(2,3) unfolding closed_manifest_def by blast
qed

lemma adds_to_reached:
  assumes "adds_to (wr_D W) at s s'" "\<forall>m \<in> set (ex_manifests s). is_done s m" "was_reached W at v s d" "hashes_well_formed (wr_D W)"
  shows "was_reached W at v s' d"
proof -
  have "set (ex_manifests s) \<subseteq> set (ex_manifests s')" using assms(1) unfolding adds_to_def by (metis set_mono_prefix)
  then show ?thesis using assms(2,3) adds_to_reads [OF assms(1) _ _ assms(4)] unfolding was_reached_def by blast
qed

text \<open>What holds of a state that is one step on: only what is new is to be shown.\<close>

lemma exporting_ok_grows:
  assumes ok: "exporting_ok good seen W at v s" and g: "adds_to (wr_D W) at s s'" and wf: "hashes_well_formed (wr_D W)"
    and base: "exporting_base good seen W at v s'"
    and new: "\<And>d. is_done s' d \<Longrightarrow> \<not> is_done s d \<Longrightarrow>
      accounted (wr_D W) at s' d \<and> was_reached W at v s' d"
    and ms: "\<And>m. m \<in> set (ex_manifests s') \<Longrightarrow> m \<notin> set (ex_manifests s) \<Longrightarrow> is_done s' m \<and> (\<exists>e p. reads_as W at v s' m e p)"
    and dist: "distinct (ex_manifests s')"
  shows "exporting_ok good seen W at v s'"
proof -
  have dn: "\<forall>m \<in> set (ex_manifests s). is_done s m" using ok by (simp add: exporting_ok_def)
  have "accounted (wr_D W) at s' d \<and> was_reached W at v s' d" if "is_done s' d" for d
  proof (cases "is_done s d")
    case True
    then have "accounted (wr_D W) at s d" "was_reached W at v s d"
      using ok by (auto simp: exporting_ok_def)
    then show ?thesis using adds_to_reached [OF g dn _ wf] g unfolding adds_to_def in_layout_def accounted_def by blast
  qed (rule new [OF that])
  moreover have "is_done s' m \<and> (\<exists>e p. reads_as W at v s' m e p)" if "m \<in> set (ex_manifests s')" for m
  proof (cases "m \<in> set (ex_manifests s)")
    case True
    then obtain e p where "is_done s m" "reads_as W at v s m e p" using ok unfolding exporting_ok_def by blast
    then show ?thesis using adds_to_reads [OF g _ _ wf] g unfolding adds_to_def by blast
  qed (rule ms [OF that])
  ultimately show ?thesis using base dist unfolding exporting_ok_def by blast
qed

section \<open>Writing one file of the layout\<close>

lemma blobPath_inj: "well_formed D d \<Longrightarrow> well_formed D d' \<Longrightarrow> blobPath_of D d = blobPath_of D d' \<Longrightarrow> d = d'"
  unfolding well_formed_def blobPath_of_def by (metis list.inject)

lemma hashes_path:
  "hashes_well_formed D \<Longrightarrow> hashes_to D d b \<Longrightarrow> well_formed D d \<and> \<not> temp_name (blobPath_of D d)"
  unfolding hashes_well_formed_def temp_blobPath by (auto simp: well_formed_def)

text \<open>A blob that took its name: the others are as they were.\<close>

definition put_in :: "digest_ops \<Rightarrow> ('d \<Rightarrow> string list \<Rightarrow> string option) \<Rightarrow> digest \<Rightarrow> string \<Rightarrow> 'd \<Rightarrow> 'd \<Rightarrow> bool" where
  "put_in D at d b x x' = (hashes_to D d b \<and> well_formed D d \<and> shown at x' = (shown at x)(blobPath_of D d \<mapsto> b))"

lemma put_in_sound: "put_in D at d b x x' \<Longrightarrow> sound_dir D at x \<Longrightarrow> sound_dir D at x'"
  unfolding put_in_def sound_dir_def by (auto dest: blobPath_inj)

lemma export_put_in:
  assumes "files_law F at" "hashes_well_formed D" "export_put D F repo d b x = (r, x')"
  shows "if is_ok r then put_in D at d b x x' else shown at x' = shown at x"
proof (cases "hashes_to D d b")
  case False
  with assms(3) show ?thesis by (auto simp: export_put_def)
next
  case True
  have "leaves_written at b (\<lambda>t. fs_write F t b)"
    unfolding leaves_written_def using files_lawD(4) [OF assms(1)] by (metis append_Nil)
  from atomic_shown [OF assms(1) this, of "blobPath_of D d" x r x'] True assms(3) hashes_path [OF assms(2) True]
  show ?thesis by (auto simp: export_put_def put_in_def)
qed

lemma write_verified_in:
  assumes "files_law F at" "hashes_well_formed D"
    and "atomic_write F (blobPath_of D d) (write_verified D F repo d b) x = (r, x')"
  shows "if is_ok r then put_in D at d b x x' else shown at x' = shown at x"
proof -
  have w: "leaves_written at b (write_verified D F repo d b)"
    unfolding leaves_written_def
  proof (intro allI impI)
    fix t x r x' assume "write_verified D F repo d b t x = (r, x')"
    then obtain r0 where "fs_write F t b x = (r0, x')" "is_ok r \<longrightarrow> is_ok r0"
      by (auto simp: write_verified_def split: prod.splits sum.splits if_splits)
    with files_lawD(4) [OF assms(1) this(1), of "''''"]
    show "(\<exists>c. at x' = (at x)(t := c)) \<and> (is_ok r \<longrightarrow> at x t = Some '''' \<longrightarrow> at x' t = Some b)" by auto
  qed
  have "hashes_to D d b" if "is_ok r"
    using assms(3) that
    by (auto simp: atomic_write_def write_verified_def split: prod.splits sum.splits if_splits)
  then show ?thesis using atomic_shown [OF assms(1) w assms(3)] hashes_path [OF assms(2)]
    by (auto simp: put_in_def)
qed

lemma quiet_write_verified: "quiet_writer W \<Longrightarrow> not_index_error (write_verified D (wr_F W) repo d b t)"
  unfolding not_index_error_def write_verified_def not_its_bytes_def quiet_writer_def
  by (auto split: prod.splits sum.splits if_splits) metis

lemma quiet_put: "quiet_writer W \<Longrightarrow> not_index_error (export_put D (wr_F W) repo d b)"
proof -
  assume q: "quiet_writer W"
  have "not_index_error (atomic_write (wr_F W) (blobPath_of D d) (\<lambda>t. fs_write (wr_F W) t b))"
    by (rule quiet_atomic [OF q]) (use q in \<open>simp add: quiet_writer_def\<close>)
  then show ?thesis unfolding not_index_error_def export_put_def by (auto simp: not_its_bytes_def)
qed

section \<open>A blob\<close>

lemma done_skip_simps [simp]:
  "is_done (set_done d s) x = (x = d \<or> is_done s x)" "ex_manifests (set_done d s) = ex_manifests s"
  "ex_dir (set_done d s) = ex_dir s" "ex_r (set_done d s) = ex_r s" "ex_ix (set_done d s) = ex_ix s"
  "is_done (skipped d s) = is_done s" "ex_manifests (skipped d s) = ex_manifests s" "ex_dir (skipped d s) = ex_dir s"
  "ex_ix (skipped d s) = ex_ix s" "xr_Skipped (ex_r (skipped d s)) = xr_Skipped (ex_r s) @ [d]"
  by (auto simp: set_done_def skipped_def is_done_def update_conv' fun_eq_iff)

text \<open>One digest more was looked at: a blob of a manifest, or a manifest that was written.\<close>

lemma settle:
  assumes ok: "exporting_ok good seen W at v s" and wf: "hashes_well_formed (wr_D W)" and fresh: "\<not> is_done s d"
    and ix: "good (ex_ix s')" "seen (ex_ix s') = v" and dn: "\<And>x. is_done s' x = (x = d \<or> is_done s x)"
    and sk: "set (xr_Skipped (ex_r s)) \<subseteq> set (xr_Skipped (ex_r s'))"
    and dir: "shown at (ex_dir s') = shown at (ex_dir s) \<or> (\<exists>b. put_in (wr_D W) at d b (ex_dir s) (ex_dir s'))"
    and acc: "accounted (wr_D W) at s' d"
    and ms: "ex_manifests s' = ex_manifests s \<and> was_reached W at v s d \<or> ex_manifests s' = ex_manifests s @ [d] \<and> (\<exists>e p. reads_as W at v s' d e p)"
  shows "exporting_ok good seen W at v s' \<and> adds_to (wr_D W) at s s'"
proof
  have dns: "\<forall>m \<in> set (ex_manifests s). is_done s m" and dist: "distinct (ex_manifests s)"
    and sound: "sound_dir (wr_D W) at (ex_dir s)" using ok by (simp_all add: exporting_ok_def exporting_base_def)
  then have new: "d \<notin> set (ex_manifests s)" using fresh by blast
  have pre: "prefix (ex_manifests s) (ex_manifests s')" using ms by auto
  have other: "shown at (ex_dir s') (blobPath_of (wr_D W) x) = shown at (ex_dir s) (blobPath_of (wr_D W) x)"
    if "is_done s x" "well_formed (wr_D W) x" for x
  proof -
    have "x \<noteq> d" using that(1) fresh by auto
    then show ?thesis using dir blobPath_inj [OF that(2)] by (auto simp: put_in_def)
  qed
  have more: "shown at (ex_dir s) p \<noteq> None \<longrightarrow> shown at (ex_dir s') p \<noteq> None" for p
    using dir by (auto simp: put_in_def)
  show g: "adds_to (wr_D W) at s s'" using dn sk pre other more by (simp add: adds_to_def)
  have "sound_dir (wr_D W) at (ex_dir s')" using dir
    by (elim disjE exE) (use sound in \<open>simp add: sound_dir_def\<close>, use sound in \<open>blast intro: put_in_sound\<close>)
  then have base: "exporting_base good seen W at v s'" using ix by (simp add: exporting_base_def)
  have rd: "was_reached W at v s' d" using ms
  proof
    assume "ex_manifests s' = ex_manifests s \<and> was_reached W at v s d"
    then show ?thesis using adds_to_reached [OF g dns _ wf] by simp
  qed (simp add: was_reached_def)
  show "exporting_ok good seen W at v s'"
  proof (rule exporting_ok_grows [OF ok g wf base])
    fix x assume "is_done s' x" "\<not> is_done s x"
    then have "x = d" using dn by blast
    then show "accounted (wr_D W) at s' x \<and> was_reached W at v s' x" using acc rd by simp
  next
    fix m assume m: "m \<in> set (ex_manifests s')" "m \<notin> set (ex_manifests s)"
    then have md: "m = d" using ms by auto
    have "\<exists>e p. reads_as W at v s' d e p" using ms m by (elim disjE conjE) simp_all
    then show "is_done s' m \<and> (\<exists>e p. reads_as W at v s' m e p)" unfolding md using dn [of d] by blast
  next
    show "distinct (ex_manifests s')" using ms dist new by (elim disjE conjE) simp_all
  qed
qed

lemma export_bytes_in:
  assumes "files_law F at" "hashes_well_formed D" "export_bytes D F repo d b s = (r, s')"
  shows "ex_ix s' = ex_ix s \<and> is_done s' = is_done s \<and> ex_manifests s' = ex_manifests s \<and>
    xr_Skipped (ex_r s') = xr_Skipped (ex_r s) \<and>
    (if is_ok r then put_in D at d b (ex_dir s) (ex_dir s') else shown at (ex_dir s') = shown at (ex_dir s))"
proof -
  obtain w x where w: "atomic_write F (blobPath_of D d) (write_verified D F repo d b) (ex_dir s) = (w, x)" by force
  from write_verified_in [OF assms(1,2) w] assms(3) w show ?thesis
    by (cases w) (auto simp: export_bytes_def on_exdir_def is_done_def fun_eq_iff)
qed

lemma quiet_export_bytes: "quiet_writer W \<Longrightarrow> not_index_error (export_bytes D (wr_F W) repo d b)"
proof -
  assume q: "quiet_writer W"
  have "not_index_error (atomic_write (wr_F W) (blobPath_of D d) (write_verified D (wr_F W) repo d b))"
    by (rule quiet_atomic [OF q quiet_write_verified [OF q]])
  then show ?thesis unfolding not_index_error_def export_bytes_def on_exdir_def
    by (auto split: prod.splits sum.splits)
qed

text \<open>Calls that only read the index, the store or the directory.\<close>

lemma exporting_ok_same:
  assumes "exporting_ok good seen W at v s" "good (ex_ix s')" "seen (ex_ix s') = v" "shown at (ex_dir s') = shown at (ex_dir s)"
    and "ex_done s' = ex_done s" "ex_manifests s' = ex_manifests s" "xr_Skipped (ex_r s') = xr_Skipped (ex_r s)"
  shows "exporting_ok good seen W at v s' \<and> adds_to D at s s'"
proof -
  have "is_done s' = is_done s" using assms(5) by (simp add: is_done_def fun_eq_iff)
  with assms show ?thesis
    by (simp add: exporting_ok_def exporting_base_def adds_to_def sound_dir_def in_layout_def accounted_def was_reached_def reads_as_def)
qed

lemma export_blob_ok:
  assumes law: "files_law (wr_F W) at" and wf: "hashes_well_formed (wr_D W)" and q: "quiet_writer W"
    and ok: "exporting_ok good seen W at v s" and own: "was_reached W at v s (d_digest desc)"
    and call: "export_blob (wr_D W) (wr_fl W) (wr_F W) (wr_repo W) desc s = (r, s')"
  shows "exporting_base good seen W at v s' \<and>
    (case r of Inl e \<Rightarrow> \<not> errors_is e ErrNotFound
     | Inr _ \<Rightarrow> exporting_ok good seen W at v s' \<and> adds_to (wr_D W) at s s' \<and> is_done s' (d_digest desc) \<and>
         ex_manifests s' = ex_manifests s)"
proof (cases "is_done s (d_digest desc)")
  case True
  with call ok show ?thesis by (auto simp: export_blob_def exporting_ok_def)
next
  case False
  let ?d = "d_digest desc"
  obtain st y where st: "fs_stat (wr_F W) (blobPath_of (wr_D W) ?d) (ex_dir s) = (st, y)" by force
  note stat = files_lawD(2) [OF law st]
  have b0: "good (ex_ix s)" "seen (ex_ix s) = v" "sound_dir (wr_D W) at (ex_dir s)"
    using ok by (auto simp: exporting_ok_def exporting_base_def)
  let ?s1 = "(set_done ?d s)\<lparr>ex_dir := y\<rparr>"
  have s1: "shown at (ex_dir ?s1) = shown at (ex_dir s)" using shown_same [OF conjunct1 [OF stat]] by simp
  have done1: "is_done ?s1 x = (x = ?d \<or> is_done s x)" for x by (auto simp: is_done_def set_done_def update_conv')
  have fin: ?thesis if "r = Inr ()" "good (ex_ix s')" "seen (ex_ix s') = v" "is_done s' = is_done ?s1" "ex_manifests s' = ex_manifests s"
    "set (xr_Skipped (ex_r s)) \<subseteq> set (xr_Skipped (ex_r s'))" "accounted (wr_D W) at s' ?d"
    "shown at (ex_dir s') = shown at (ex_dir s) \<or> (\<exists>b. put_in (wr_D W) at ?d b (ex_dir s) (ex_dir s'))"
    using settle [OF ok wf False that(2,3) _ that(6,8,7)] that done1 own by (simp add: exporting_ok_def)
  have base: "exporting_base good seen W at v s'" if "ex_ix s' = ex_ix s" "shown at (ex_dir s') = shown at (ex_dir s)"
    using that b0 by (simp add: exporting_base_def sound_dir_def)
  have bytes: ?thesis if "export_bytes (wr_D W) (wr_F W) (wr_repo W) ?d b s2 = (r, s')" "ex_ix s2 = ex_ix s" "is_done s2 = is_done ?s1"
    "ex_manifests s2 = ex_manifests s" "ex_r s2 = ex_r s" "ex_dir s2 = y" for b s2
  proof -
    note e = export_bytes_in [OF law wf that(1)]
    have put: "put_in D at d b y x = put_in D at d b (ex_dir s) x" for D d b x using s1 by (simp add: put_in_def)
    show ?thesis
    proof (cases r)
      case (Inl er)
      then have "\<not> errors_is er ErrNotFound" using quiet_export_bytes [OF q] that(1) unfolding not_index_error_def by blast
      then show ?thesis using Inl e that s1 base by simp
    next
      case (Inr u)
      with e that put have "put_in (wr_D W) at ?d b (ex_dir s) (ex_dir s')" by simp
      moreover from this have "accounted (wr_D W) at s' ?d" by (simp add: accounted_def in_layout_def put_in_def)
      ultimately show ?thesis using fin Inr e that b0 by auto
    qed
  qed
  show ?thesis
  proof (cases st)
    case (Inr u)
    with call False st have r: "r = Inr ()" "s' = ?s1" by (auto simp: export_blob_def Let_def on_exdir_def)
    have "accounted (wr_D W) at s' ?d" using stat Inr r(2) temp_blobPath [of "wr_D W" ?d]
      by (auto simp: accounted_def in_layout_def shown_def well_formed_def)
    with r s1 done1 b0 show ?thesis by (intro fin) (auto simp: fun_eq_iff)
  next
    case (Inl e0)
    show ?thesis
    proof (cases "WellKnown ?d")
      case (Some b)
      with call False st Inl have "export_bytes (wr_D W) (wr_F W) (wr_repo W) ?d b ?s1 = (r, s')"
        by (auto simp: export_blob_def Let_def on_exdir_def)
      then show ?thesis by (rule bytes) simp_all
    next
      case None
      obtain op f where op: "fl_open (wr_fl W) (wr_repo W) ?d (ex_fl ?s1) = (op, f)" by force
      show ?thesis
      proof (cases op)
        case (Inr b)
        with call False st Inl None op have "export_bytes (wr_D W) (wr_F W) (wr_repo W) ?d b (?s1\<lparr>ex_fl := f\<rparr>) = (r, s')"
          by (auto simp: export_blob_def Let_def on_exdir_def on_exfl_def)
        then show ?thesis by (rule bytes) (simp_all add: is_done_def fun_eq_iff)
      next
        case (Inl e)
        show ?thesis
        proof (cases "errors_is e (Flob NotExist)")
          case True
          with call False st \<open>st = Inl e0\<close> None op Inl have r: "r = Inr ()" "s' = skipped ?d (?s1\<lparr>ex_fl := f\<rparr>)"
            by (auto simp: export_blob_def Let_def on_exdir_def on_exfl_def)
          show ?thesis
            by (rule fin) (use r s1 b0 in \<open>simp_all add: accounted_def is_done_def fun_eq_iff subset_insertI\<close>)
        next
          case notthere: False
          with call False st \<open>st = Inl e0\<close> None op Inl
          have r: "r = Inl (Wrapped (wr_repo W @ ''@'' @ ?d) e)" "s' = ?s1\<lparr>ex_fl := f\<rparr>"
            by (auto simp: export_blob_def Let_def on_exdir_def on_exfl_def)
          have "\<not> errors_is e ErrNotFound" using quiet_open [OF q op [unfolded Inl]] .
          then show ?thesis using r s1 base by simp
        qed
      qed
    qed
  qed
qed

lemma export_blobs_ok:
  assumes "files_law (wr_F W) at" "hashes_well_formed (wr_D W)" "quiet_writer W"
  shows "exporting_ok good seen W at v s \<Longrightarrow> \<forall>l \<in> set ls. was_reached W at v s (d_digest l) \<Longrightarrow>
    export_blobs (wr_D W) (wr_fl W) (wr_F W) (wr_repo W) ls s = (r, s') \<Longrightarrow>
    exporting_base good seen W at v s' \<and>
    (case r of Inl e \<Rightarrow> \<not> errors_is e ErrNotFound
     | Inr _ \<Rightarrow> exporting_ok good seen W at v s' \<and> adds_to (wr_D W) at s s' \<and> (\<forall>l \<in> set ls. is_done s' (d_digest l)) \<and>
         ex_manifests s' = ex_manifests s)"
proof (induction ls arbitrary: s)
  case Nil
  then show ?case by (auto simp: exporting_ok_def)
next
  case (Cons l ls)
  obtain w s1 where w: "export_blob (wr_D W) (wr_fl W) (wr_F W) (wr_repo W) l s = (w, s1)" by force
  have own: "was_reached W at v s (d_digest l)" using Cons.prems(2) by simp
  note b = export_blob_ok [OF assms Cons.prems(1) own w]
  show ?case
  proof (cases w)
    case (Inl e)
    with b w Cons.prems(3) show ?thesis by auto
  next
    case (Inr u)
    with b have s1: "exporting_ok good seen W at v s1" "adds_to (wr_D W) at s s1" "is_done s1 (d_digest l)" "ex_manifests s1 = ex_manifests s"
      by simp_all
    have dns: "\<forall>m \<in> set (ex_manifests s). is_done s m" using Cons.prems(1) by (simp add: exporting_ok_def)
    have "\<forall>l \<in> set ls. was_reached W at v s1 (d_digest l)"
      using Cons.prems(2) adds_to_reached [OF s1(2) dns _ assms(2)] by simp
    moreover have "export_blobs (wr_D W) (wr_fl W) (wr_F W) (wr_repo W) ls s1 = (r, s')" using Cons.prems(3) w Inr by simp
    ultimately have rest: "exporting_base good seen W at v s' \<and>
      (case r of Inl e \<Rightarrow> \<not> errors_is e ErrNotFound
       | Inr _ \<Rightarrow> exporting_ok good seen W at v s' \<and> adds_to (wr_D W) at s1 s' \<and> (\<forall>l \<in> set ls. is_done s' (d_digest l)) \<and>
         ex_manifests s' = ex_manifests s1)" by (rule Cons.IH [OF s1(1)])
    have "is_done s' (d_digest l)" if "adds_to (wr_D W) at s1 s'" using that s1(3) by (simp add: adds_to_def)
    with rest s1 show ?thesis by (cases r) (auto intro: adds_to_trans)
  qed
qed

section \<open>A manifest, and everything below it\<close>

text \<open>One step to another: what was written on the way reads, and what it names is accounted for.\<close>

definition closes :: "('x \<Rightarrow> bool) \<Rightarrow> ('x \<Rightarrow> rows) \<Rightarrow> ('x, 'f, 'd) writer \<Rightarrow> ('d \<Rightarrow> string list \<Rightarrow> string option) \<Rightarrow> rows \<Rightarrow>
    ('x, 'f, 'd) exporting \<Rightarrow> ('x, 'f, 'd) exporting \<Rightarrow> bool" where
  "closes good seen W at v s s' =
     (exporting_ok good seen W at v s' \<and> adds_to (wr_D W) at s s' \<and>
      (\<forall>m \<in> set (ex_manifests s'). m \<notin> set (ex_manifests s) \<longrightarrow> closed_manifest W at v s' m))"

lemma closes_base: "closes good seen W at v s s' \<Longrightarrow> exporting_base good seen W at v s'"
  by (simp add: closes_def exporting_ok_def)

lemma closes_trans:
  assumes wf: "hashes_well_formed (wr_D W)" and 1: "closes good seen W at v s s1" and 2: "closes good seen W at v s1 s2"
  shows "closes good seen W at v s s2"
proof -
  have g: "adds_to (wr_D W) at s1 s2" and dn: "\<forall>m \<in> set (ex_manifests s1). is_done s1 m"
    using 1 2 by (simp_all add: closes_def exporting_ok_def)
  have "closed_manifest W at v s2 m" if "m \<in> set (ex_manifests s1)" "m \<notin> set (ex_manifests s)" for m
    using adds_to_closed [OF g _ _ wf] that 1 dn unfolding closes_def by blast
  then show ?thesis using 1 2 adds_to_trans [of "wr_D W" at s s1 s2] unfolding closes_def by blast
qed

lemma closes_same:
  assumes "exporting_ok good seen W at v s" "good (ex_ix s')" "seen (ex_ix s') = v" "shown at (ex_dir s') = shown at (ex_dir s)"
    and "ex_done s' = ex_done s" "ex_manifests s' = ex_manifests s" "xr_Skipped (ex_r s') = xr_Skipped (ex_r s)"
  shows "closes good seen W at v s s'"
  using exporting_ok_same [OF assms, of "wr_D W"] assms(6) by (simp add: closes_def)

lemma closes_skipped:
  assumes "exporting_ok good seen W at v s" "hashes_well_formed (wr_D W)"
  shows "closes good seen W at v s (skipped d s)"
proof -
  have g: "adds_to (wr_D W) at s (skipped d s)" by (auto simp: adds_to_def)
  have "exporting_base good seen W at v (skipped d s)" using assms(1) by (simp add: exporting_ok_def exporting_base_def)
  then have "exporting_ok good seen W at v (skipped d s)"
    by (rule exporting_ok_grows [OF assms(1) g assms(2)]) (use assms(1) in \<open>simp_all add: exporting_ok_def\<close>)
  with g show ?thesis by (simp add: closes_def)
qed

lemma export_one_ok:
  assumes law: "files_law (wr_F W) at" and wf: "hashes_well_formed (wr_D W)" and q: "quiet_writer W"
    and ok: "exporting_ok good seen W at v s" and fresh: "\<not> is_done s d"
    and row: "ro_manifests v (wr_repo W) d = Some e" and call: "export_one W d (en_m e) s = (r, s')"
  shows "exporting_base good seen W at v s' \<and>
    (case r of Inl e \<Rightarrow> \<not> errors_is e ErrNotFound
     | Inr p \<Rightarrow> exporting_ok good seen W at v s' \<and> adds_to (wr_D W) at s s' \<and> is_done s' d \<and>
         ex_manifests s' = ex_manifests s @ [d] \<and> reads_as W at v s' d e p)"
proof -
  have b0: "good (ex_ix s)" "seen (ex_ix s) = v" "sound_dir (wr_D W) at (ex_dir s)"
    using ok by (auto simp: exporting_ok_def exporting_base_def)
  obtain rd f where rd: "export_read (wr_fl W) (wr_repo W) d (im_Size (en_m e)) (ex_fl s) = (rd, f)" by force
  show ?thesis
  proof (cases rd)
    case (Inl er)
    then obtain er' f' where er: "er = Wrapped (wr_repo W @ ''@'' @ d) er'" "fl_open (wr_fl W) (wr_repo W) d (ex_fl s) = (Inl er', f')"
      using rd by (auto simp: export_read_def split: prod.splits sum.splits)
    then have "\<not> errors_is er ErrNotFound" using quiet_open [OF q er(2)] by simp
    moreover from call rd Inl have "r = Inl er" "s' = s\<lparr>ex_fl := f\<rparr>" by (auto simp: export_one_def on_exfl_def)
    ultimately show ?thesis using b0 by (simp add: exporting_base_def)
  next
    case (Inr b)
    obtain pt y where pt: "export_put (wr_D W) (wr_F W) (wr_repo W) d b (ex_dir s) = (pt, y)" by force
    note put = export_put_in [OF law wf pt]
    show ?thesis
    proof (cases pt)
      case (Inl er)
      then have "\<not> errors_is er ErrNotFound" using quiet_put [OF q] pt unfolding not_index_error_def by blast
      moreover from call rd Inr pt Inl have "r = Inl er" "s' = s\<lparr>ex_fl := f, ex_dir := y\<rparr>"
        by (auto simp: export_one_def on_exfl_def on_exdir_def)
      moreover have "shown at y = shown at (ex_dir s)" using put Inl by simp
      ultimately show ?thesis using b0 by (simp add: exporting_base_def sound_dir_def)
    next
      case pt': (Inr u)
      have pin: "put_in (wr_D W) at d b (ex_dir s) y" using put pt' by simp
      define s3 where "s3 = (set_done d (s\<lparr>ex_fl := f, ex_dir := y\<rparr>))\<lparr>ex_manifests := ex_manifests s @ [d],
          ex_r := (ex_r s)\<lparr>xr_Manifests := Suc (xr_Manifests (ex_r s))\<rparr>\<rparr>"
      have s3: "is_done s3 x = (x = d \<or> is_done s x)" "ex_dir s3 = y" "ex_ix s3 = ex_ix s" "ex_manifests s3 = ex_manifests s @ [d]"
        "xr_Skipped (ex_r s3) = xr_Skipped (ex_r s)" for x
        by (auto simp: s3_def is_done_def set_done_def update_conv')
      have s': "s' = s3" and r: "r = (case ParseManifest (wr_D W) (wr_J W) (im_MediaType (en_m e)) b of
          Inl pe \<Rightarrow> Inl (Wrapped (wr_repo W @ ''@'' @ d) (Cause (BadManifest pe))) | Inr p \<Rightarrow> Inr p)"
        using call rd Inr pt pt' by (auto simp: export_one_def on_exfl_def on_exdir_def s3_def Let_def split: sum.splits)
      have base: "exporting_base good seen W at v s'"
        using b0 s3 put_in_sound [OF pin b0(3)] by (simp add: exporting_base_def s')
      show ?thesis
      proof (cases r)
        case (Inl er)
        with r base show ?thesis by (auto split: sum.splits)
      next
        case r': (Inr p)
        have rds: "reads_as W at v s' d e p"
          using r r' row pin s3(2) by (auto simp: reads_as_def put_in_def s' split: sum.splits)
        have "exporting_ok good seen W at v s' \<and> adds_to (wr_D W) at s s'"
        proof (rule settle [OF ok wf fresh])
          show "shown at (ex_dir s') = shown at (ex_dir s) \<or> (\<exists>b. put_in (wr_D W) at d b (ex_dir s) (ex_dir s'))"
            using pin s3(2) s' by blast
          show "accounted (wr_D W) at s' d" using pin s3(2) by (simp add: s' accounted_def in_layout_def put_in_def)
          show "ex_manifests s' = ex_manifests s \<and> was_reached W at v s d \<or> ex_manifests s' = ex_manifests s @ [d] \<and> (\<exists>e p. reads_as W at v s' d e p)"
            using rds s3(4) s' by blast
        qed (use s3 b0 s' in simp_all)
        with r' base rds s3 show ?thesis by (simp add: s')
      qed
    qed
  qed
qed

text \<open>What a call for one manifest leaves.\<close>

definition manifest_post :: "('x \<Rightarrow> bool) \<Rightarrow> ('x \<Rightarrow> rows) \<Rightarrow> ('x, 'f, 'd) writer \<Rightarrow> ('d \<Rightarrow> string list \<Rightarrow> string option) \<Rightarrow> rows \<Rightarrow>
    digest \<Rightarrow> ('x, 'f, 'd) exporting \<Rightarrow> error + descriptor \<Rightarrow> ('x, 'f, 'd) exporting \<Rightarrow> bool" where
  "manifest_post good seen W at v d s r s' =
     (exporting_base good seen W at v s' \<and>
      (case r of Inl e \<Rightarrow> errors_is e ErrNotFound \<longrightarrow> closes good seen W at v s s'
       | Inr desc \<Rightarrow> closes good seen W at v s s' \<and> is_done s' d \<and>
           (\<exists>e. ro_manifests v (wr_repo W) d = Some e \<and> desc = export_desc (en_m e) d)))"

lemma export_children_ok:
  assumes wf: "hashes_well_formed (wr_D W)"
    and one: "\<And>d s r s'. export_manifest W n d s = Some (r, s') \<Longrightarrow> exporting_ok good seen W at v s \<Longrightarrow>
      manifest_post good seen W at v d s r s'"
  shows "export_children W n cs s = Some (r, s') \<Longrightarrow> exporting_ok good seen W at v s \<Longrightarrow>
      exporting_base good seen W at v s' \<and>
      (case r of Inl e \<Rightarrow> \<not> errors_is e ErrNotFound
       | Inr _ \<Rightarrow> closes good seen W at v s s' \<and>
           (\<forall>c \<in> d_digest ` set cs. is_done s' c \<or> c \<in> set (xr_Skipped (ex_r s'))))"
proof (induction cs arbitrary: s)
  case Nil
  then show ?case by (auto simp: exporting_ok_def closes_def)
next
  case (Cons c cs)
  obtain w s1 where w: "export_manifest W n (d_digest c) s = Some (w, s1)" using Cons.prems(1) by (auto split: option.splits)
  note m = one [OF w Cons.prems(2)]
  have rest: ?case if c2: "closes good seen W at v s s2" and acc: "is_done s2 (d_digest c) \<or> d_digest c \<in> set (xr_Skipped (ex_r s2))"
    and call: "export_children W n cs s2 = Some (r, s')" for s2
  proof -
    have "exporting_ok good seen W at v s2" using c2 by (simp add: closes_def)
    from Cons.IH [OF call this] have r: "exporting_base good seen W at v s' \<and> (case r of Inl e \<Rightarrow> \<not> errors_is e ErrNotFound
       | Inr _ \<Rightarrow> closes good seen W at v s2 s' \<and>
           (\<forall>c \<in> d_digest ` set cs. is_done s' c \<or> c \<in> set (xr_Skipped (ex_r s'))))" .
    have "is_done s' (d_digest c) \<or> d_digest c \<in> set (xr_Skipped (ex_r s'))" if "closes good seen W at v s2 s'"
      using that acc unfolding closes_def adds_to_def by blast
    with r closes_trans [OF wf c2, of s'] show ?thesis by (cases r) simp_all
  qed
  show ?case
  proof (cases w)
    case (Inr desc)
    with w Cons.prems(1) have "export_children W n cs s1 = Some (r, s')" by simp
    then show ?thesis by (rule rest [rotated 2]) (use m Inr in \<open>simp_all add: manifest_post_def\<close>)
  next
    case (Inl e)
    show ?thesis
    proof (cases "errors_is e ErrNotFound")
      case False
      with w Cons.prems(1) Inl m show ?thesis by (auto simp: manifest_post_def)
    next
      case True
      with w Cons.prems(1) Inl have call: "export_children W n cs (skipped (d_digest c) s1) = Some (r, s')" by simp
      have s1: "closes good seen W at v s s1" using m Inl True by (simp add: manifest_post_def)
      then have "exporting_ok good seen W at v s1" by (simp add: closes_def)
      from closes_trans [OF wf s1 closes_skipped [OF this wf]] show ?thesis by (rule rest [OF _ _ call]) simp
    qed
  qed
qed

context index_laws
begin

lemma export_manifest_ok:
  assumes law: "files_law (wr_F W) at" and wf: "hashes_well_formed (wr_D W)" and q: "quiet_writer W" and ix: "wr_ix W = ix"
  shows "export_manifest W n d s = Some (r, s') \<Longrightarrow> exporting_ok good seen W at v s \<Longrightarrow> manifest_post good seen W at v d s r s'"
proof (induction n arbitrary: d s r s')
  case (Suc n)
  obtain g x where g: "ix_get ix (wr_repo W) d (ex_ix s) = (g, x)" by force
  have b0: "good (ex_ix s)" "seen (ex_ix s) = v" using Suc.prems(2) by (auto simp: exporting_ok_def exporting_base_def)
  from opD [OF get_law b0(1) g] b0(2) have x: "good x" "seen x = v" "get_spec (wr_repo W) d v g v" by (auto simp: get_spec_def)
  let ?s1 = "s\<lparr>ex_ix := x\<rparr>"
  have on: "on_exix (ix_get (wr_ix W) (wr_repo W) d) s = (g, ?s1)" by (simp add: on_exix_def g ix)
  have c1: "closes good seen W at v s ?s1" by (rule closes_same [OF Suc.prems(2)]) (use x in simp_all)
  then have ok1: "exporting_ok good seen W at v ?s1" by (simp add: closes_def)
  show ?case
  proof (cases g)
    case (Inl e)
    with Suc.prems(1) on have "r = Inl (Wrapped (wr_repo W @ ''@'' @ d) e)" "s' = ?s1" by auto
    with c1 closes_base [OF c1] show ?thesis by (simp add: manifest_post_def)
  next
    case (Inr m)
    then obtain e where e: "ro_manifests v (wr_repo W) d = Some e" "m = en_m e" using x(3) by (auto simp: get_spec_def)
    show ?thesis
    proof (cases "is_done ?s1 d")
      case True
      with Suc.prems(1) on Inr e have "r = Inr (export_desc (en_m e) d)" "s' = ?s1" by auto
      with True c1 closes_base [OF c1] e show ?thesis by (simp add: manifest_post_def)
    next
      case fresh: False
      obtain o1 s2 where o1: "export_one W d (en_m e) ?s1 = (o1, s2)" by force
      note one = export_one_ok [OF law wf q ok1 fresh e(1) o1]
      show ?thesis
      proof (cases o1)
        case (Inl er)
        with Suc.prems(1) on Inr e fresh o1 have "r = Inl er" "s' = s2" by auto
        with one Inl show ?thesis by (simp add: manifest_post_def)
      next
        case o1': (Inr p)
        have s2: "exporting_ok good seen W at v s2" "adds_to (wr_D W) at ?s1 s2" "is_done s2 d" "ex_manifests s2 = ex_manifests s @ [d]"
          "reads_as W at v s2 d e p" using one o1' by simp_all
        obtain k s3 where k: "export_children W n (slice (mf_manifests p)) s2 = Some (k, s3)"
          using Suc.prems(1) on Inr e fresh o1 o1' by (auto split: option.splits)
        from export_children_ok [OF wf Suc.IH k s2(1)]
        have kids: "exporting_base good seen W at v s3 \<and> (case k of Inl e \<Rightarrow> \<not> errors_is e ErrNotFound
           | Inr _ \<Rightarrow> closes good seen W at v s2 s3 \<and>
               (\<forall>c \<in> d_digest ` set (slice (mf_manifests p)). is_done s3 c \<or> c \<in> set (xr_Skipped (ex_r s3))))" by blast
        show ?thesis
        proof (cases k)
          case (Inl er)
          with Suc.prems(1) on Inr e fresh o1 o1' k have "r = Inl er" "s' = s3" by auto
          with kids Inl show ?thesis by (simp add: manifest_post_def)
        next
          case k': (Inr u)
          have s3: "closes good seen W at v s2 s3" "exporting_ok good seen W at v s3" "adds_to (wr_D W) at s2 s3"
            "\<forall>c \<in> d_digest ` set (slice (mf_manifests p)). is_done s3 c \<or> c \<in> set (xr_Skipped (ex_r s3))"
            using kids k' by (simp_all add: closes_def)
          have r3: "reads_as W at v s3 d e p" by (rule adds_to_reads [OF s3(3) s2(3,5) wf])
          have d3: "d \<in> set (ex_manifests s3)" using s3(3) s2(4) by (metis adds_to_def in_set_conv_decomp set_mono_prefix subsetD)
          obtain bl s4 where bl: "export_blobs (wr_D W) (wr_fl W) (wr_F W) (wr_repo W) (blobs_of p) s3 = (bl, s4)" by force
          have "\<forall>l \<in> set (blobs_of p). was_reached W at v s3 (d_digest l)"
            unfolding set_blobs_of using r3 d3 unfolding was_reached_def by blast
          note blobs = export_blobs_ok [OF law wf q s3(2) this bl]
          show ?thesis
          proof (cases bl)
            case (Inl er)
            with Suc.prems(1) on Inr e fresh o1 o1' k k' bl have "r = Inl er" "s' = s4" by auto
            with blobs Inl show ?thesis by (simp add: manifest_post_def)
          next
            case bl': (Inr u')
            with Suc.prems(1) on Inr e fresh o1 o1' k k' bl have r: "r = Inr (export_desc (en_m e) d)" "s' = s4" by auto
            have s4: "exporting_ok good seen W at v s4" "adds_to (wr_D W) at s3 s4" "\<forall>l \<in> set (blobs_of p). is_done s4 (d_digest l)"
              "ex_manifests s4 = ex_manifests s3" using blobs bl' by simp_all
            have g24: "adds_to (wr_D W) at s2 s4" by (rule adds_to_trans [OF s3(3) s4(2)])
            have dn4: "is_done s4 d" using g24 s2(3) by (simp add: adds_to_def)
            have "\<forall>x. is_done s3 x \<longrightarrow> is_done s4 x" "set (xr_Skipped (ex_r s3)) \<subseteq> set (xr_Skipped (ex_r s4))"
              using s4(2) by (simp_all add: adds_to_def)
            then have "\<forall>c \<in> d_digest ` set (slice (mf_manifests p)). is_done s4 c \<or> c \<in> set (xr_Skipped (ex_r s4))"
              using s3(4) by blast
            moreover have "\<forall>l \<in> d_digest ` blobs_named p. is_done s4 l" using s4(3) unfolding set_blobs_of by blast
            ultimately have "closed_manifest W at v s4 d"
              using adds_to_reads [OF g24 s2(3,5) wf] unfolding closed_manifest_def by (intro exI conjI)
            moreover have "closed_manifest W at v s4 m" if "m \<in> set (ex_manifests s4)" "m \<notin> set (ex_manifests s)" "m \<noteq> d" for m
            proof -
              have "m \<in> set (ex_manifests s3)" "m \<notin> set (ex_manifests s2)" using that s4(4) s2(4) by auto
              then have "closed_manifest W at v s3 m" "is_done s3 m" using s3(1,2) by (simp_all add: closes_def exporting_ok_def)
              then show ?thesis using adds_to_closed [OF s4(2) _ _ wf] by blast
            qed
            moreover have "adds_to (wr_D W) at s s4"
              using adds_to_trans [OF _ adds_to_trans [OF s2(2) g24]] c1 unfolding closes_def by blast
            ultimately have "closes good seen W at v s s4" using s4(1) unfolding closes_def by blast
            with r dn4 e closes_base [of good seen W at v s s4] show ?thesis by (simp add: manifest_post_def)
          qed
        qed
      qed
    qed
  qed
qed simp

end

end
