(* ===== verification/Export_Claims.thy ===== *)
theory Export_Claims
  imports Export_Facts
begin

text \<open>
  An export from beginning to end: the fuel that is enough, the tags and the referrers, the two
  files written last, and what all of it comes to for the index in memory.
\<close>

section \<open>Enough fuel\<close>

text \<open>The manifests that are still to be written, at most.\<close>

definition to_do :: "rows \<Rightarrow> string \<Rightarrow> ('x, 'f, 'd) exporting \<Rightarrow> nat" where
  "to_do v repo s = card {d. indexed v repo d \<and> \<not> is_done s d}"

lemma to_do_grows: "finite {d. indexed v repo d} \<Longrightarrow> adds_to D at s s' \<Longrightarrow> to_do v repo s' \<le> to_do v repo s"
  unfolding to_do_def adds_to_def by (rule card_mono) auto

lemma to_do_less:
  assumes "finite {d. indexed v repo d}" "adds_to D at s s'" "indexed v repo d" "\<not> is_done s d" "is_done s' d"
  shows "to_do v repo s' < to_do v repo s"
  unfolding to_do_def
proof (rule psubset_card_mono)
  show "finite {d. indexed v repo d \<and> \<not> is_done s d}" using assms(1) by simp
  show "{d. indexed v repo d \<and> \<not> is_done s' d} \<subset> {d. indexed v repo d \<and> \<not> is_done s d}"
    using assms(2-5) unfolding adds_to_def by blast
qed

context index_laws
begin

lemma export_children_enough:
  assumes wf: "hashes_well_formed (wr_D W)" and fin: "finite {d. indexed v (wr_repo W) d}"
    and one: "\<And>d s r s'. export_manifest W n d s = Some (r, s') \<Longrightarrow> exporting_ok good seen W at v s \<Longrightarrow>
      manifest_post good seen W at v d s r s'"
    and enough: "\<And>d s. exporting_ok good seen W at v s \<Longrightarrow> to_do v (wr_repo W) s < n \<Longrightarrow> export_manifest W n d s \<noteq> None"
  shows "exporting_ok good seen W at v s \<Longrightarrow> to_do v (wr_repo W) s < n \<Longrightarrow> export_children W n cs s \<noteq> None"
proof (induction cs arbitrary: s)
  case (Cons c cs)
  obtain w s1 where w: "export_manifest W n (d_digest c) s = Some (w, s1)" using enough [OF Cons.prems] by fastforce
  note m = one [OF w Cons.prems(1)]
  have rest: "export_children W n cs s2 \<noteq> None" if "closes good seen W at v s s2" for s2
    using that to_do_grows [OF fin, of "wr_D W" at s s2] Cons.prems(2) by (intro Cons.IH) (auto simp: closes_def)
  show ?case
  proof (cases w)
    case (Inr desc)
    with m w rest show ?thesis by (auto simp: manifest_post_def)
  next
    case (Inl e)
    show ?thesis
    proof (cases "errors_is e ErrNotFound")
      case True
      have s1: "closes good seen W at v s s1" using m Inl True by (simp add: manifest_post_def)
      then have "exporting_ok good seen W at v s1" by (simp add: closes_def)
      from closes_trans [OF wf s1 closes_skipped [OF this wf]] show ?thesis using w Inl True rest by simp
    qed (use w Inl in simp)
  qed
qed simp

lemma export_manifest_enough:
  assumes law: "files_law (wr_F W) at" and wf: "hashes_well_formed (wr_D W)" and q: "quiet_writer W" and ix: "wr_ix W = ix"
    and fin: "finite {d. indexed v (wr_repo W) d}"
  shows "exporting_ok good seen W at v s \<Longrightarrow> to_do v (wr_repo W) s < n \<Longrightarrow> export_manifest W n d s \<noteq> None"
proof (induction n arbitrary: d s)
  case (Suc n)
  obtain g x where g: "ix_get ix (wr_repo W) d (ex_ix s) = (g, x)" by force
  have b0: "good (ex_ix s)" "seen (ex_ix s) = v" using Suc.prems(1) by (auto simp: exporting_ok_def exporting_base_def)
  from opD [OF get_law b0(1) g] b0(2) have x: "good x" "seen x = v" "get_spec (wr_repo W) d v g v" by (auto simp: get_spec_def)
  let ?s1 = "s\<lparr>ex_ix := x\<rparr>"
  have on: "on_exix (ix_get (wr_ix W) (wr_repo W) d) s = (g, ?s1)" by (simp add: on_exix_def g ix)
  have "closes good seen W at v s ?s1" by (rule closes_same [OF Suc.prems(1)]) (use x in simp_all)
  then have ok1: "exporting_ok good seen W at v ?s1" "adds_to (wr_D W) at s ?s1" by (simp_all add: closes_def)
  show ?case
  proof (cases "is_ok g \<and> \<not> is_done ?s1 d")
    case False
    with on show ?thesis by (cases g) auto
  next
    case True
    then obtain e where e: "ro_manifests v (wr_repo W) d = Some e" "g = Inr (en_m e)"
      using x(3) by (cases g) (auto simp: get_spec_def)
    obtain o1 s2 where o1: "export_one W d (en_m e) ?s1 = (o1, s2)" by force
    note one = export_one_ok [OF law wf q ok1(1) conjunct2 [OF True] e(1) o1]
    show ?thesis
    proof (cases o1)
      case (Inl er)
      with on e True o1 show ?thesis by simp
    next
      case (Inr p)
      with one have s2: "exporting_ok good seen W at v s2" "adds_to (wr_D W) at ?s1 s2" "is_done s2 d" by simp_all
      have "to_do v (wr_repo W) s2 < to_do v (wr_repo W) ?s1"
        by (rule to_do_less [OF fin s2(2) _ _ s2(3)]) (use e True in \<open>auto simp: indexed_def\<close>)
      then have "to_do v (wr_repo W) s2 < n" using Suc.prems(2) to_do_grows [OF fin ok1(2)] by simp
      then have "export_children W n (slice (mf_manifests p)) s2 \<noteq> None"
        by (rule export_children_enough [OF wf fin _ _ s2(1), rotated 2])
          (erule (1) export_manifest_ok [OF law wf q ix], erule (1) Suc.IH)
      then obtain k s3 where "export_children W n (slice (mf_manifests p)) s2 = Some (k, s3)" by fastforce
      with on e True o1 Inr show ?thesis by (cases k) (auto split: prod.splits sum.splits)
    qed
  qed
qed simp

end

section \<open>Tags and referrers\<close>

text \<open>The entry of \<open>index.json\<close> for a tag, and for a manifest that refers to one.\<close>

definition tag_entry :: "rows \<Rightarrow> string \<Rightarrow> string \<Rightarrow> descriptor \<Rightarrow> bool" where
  "tag_entry v repo t d =
     (\<exists>tg e. ro_tags v repo t = Some tg \<and> ro_manifests v repo (tg_Digest tg) = Some e \<and>
        d = (export_desc (en_m e) (tg_Digest tg))\<lparr>d_annotations := [(AnnotationRefName, t)]\<rparr>)"

definition plain_entry :: "rows \<Rightarrow> string \<Rightarrow> descriptor \<Rightarrow> bool" where
  "plain_entry v repo d = (\<exists>e. ro_manifests v repo (d_digest d) = Some e \<and> d = export_desc (en_m e) (d_digest d))"

definition referrers_done :: "rows \<Rightarrow> string \<Rightarrow> ('x, 'f, 'd) exporting \<Rightarrow> digest \<Rightarrow> bool" where
  "referrers_done v repo s m =
     (\<forall>h e. ro_manifests v repo h = Some e \<and> im_Subject (en_m e) = m \<longrightarrow> is_done s (im_Digest (en_m e)))"

lemma export_desc_digest [simp]: "d_digest (export_desc m d) = d"
  by (simp add: export_desc_def)

context index_laws
begin

lemma export_tags_ok:
  assumes law: "files_law (wr_F W) at" and wf: "hashes_well_formed (wr_D W)" and q: "quiet_writer W" and ix: "wr_ix W = ix"
    and fin: "finite {d. indexed v (wr_repo W) d}"
  shows "exporting_ok good seen W at v s \<Longrightarrow> to_do v (wr_repo W) s < n \<Longrightarrow>
    \<exists>r s'. export_tags W n ts es s = Some (r, s') \<and> exporting_base good seen W at v s' \<and>
      (\<forall>es'. r = Inr es' \<longrightarrow> closes good seen W at v s s' \<and>
        (\<exists>ds. es' = es @ ds \<and> list_all2 (tag_entry v (wr_repo W)) ts ds \<and> (\<forall>d \<in> set ds. is_done s' (d_digest d))))"
proof (induction ts arbitrary: s es)
  case Nil
  then show ?case by (auto simp: exporting_ok_def closes_def)
next
  case (Cons t ts)
  obtain g x where g: "ix_tag_get ix (wr_repo W) t (ex_ix s) = (g, x)" by force
  have b0: "good (ex_ix s)" "seen (ex_ix s) = v" using Cons.prems(1) by (auto simp: exporting_ok_def exporting_base_def)
  from opD [OF tag_get_law b0(1) g] b0(2) have x: "good x" "seen x = v" "tag_get_spec (wr_repo W) t v g v"
    by (auto simp: tag_get_spec_def)
  let ?s1 = "s\<lparr>ex_ix := x\<rparr>"
  have on: "on_exix (ix_tag_get (wr_ix W) (wr_repo W) t) s = (g, ?s1)" by (simp add: on_exix_def g ix)
  have c1: "closes good seen W at v s ?s1" by (rule closes_same [OF Cons.prems(1)]) (use x in simp_all)
  show ?case
  proof (cases g)
    case (Inl e)
    with on closes_base [OF c1] show ?thesis by simp
  next
    case (Inr tg)
    then have tg: "ro_tags v (wr_repo W) t = Some tg" using x(3) by (simp add: tag_get_spec_def)
    have ok1: "exporting_ok good seen W at v ?s1" "adds_to (wr_D W) at s ?s1" using c1 by (simp_all add: closes_def)
    have less: "to_do v (wr_repo W) ?s1 < n" using to_do_grows [OF fin ok1(2)] Cons.prems(2) by simp
    then obtain m s2 where m: "export_manifest W n (tg_Digest tg) ?s1 = Some (m, s2)"
      using export_manifest_enough [OF law wf q ix fin ok1(1)] by fastforce
    note post = export_manifest_ok [OF law wf q ix m ok1(1)]
    show ?thesis
    proof (cases m)
      case (Inl e)
      with on Inr m post show ?thesis by (simp add: manifest_post_def)
    next
      case m': (Inr d)
      let ?s3 = "s2\<lparr>ex_r := (ex_r s2)\<lparr>xr_Tags := Suc (xr_Tags (ex_r s2))\<rparr>\<rparr>"
      let ?d = "d\<lparr>d_annotations := [(AnnotationRefName, t)]\<rparr>"
      from post m' have p: "closes good seen W at v ?s1 s2" "is_done s2 (tg_Digest tg)"
        "\<exists>e. ro_manifests v (wr_repo W) (tg_Digest tg) = Some e \<and> d = export_desc (en_m e) (tg_Digest tg)"
        by (simp_all add: manifest_post_def)
      have ok2: "exporting_ok good seen W at v s2" using p(1) by (simp add: closes_def)
      have c23: "closes good seen W at v s2 ?s3"
        by (rule closes_same [OF ok2]) (use ok2 in \<open>simp_all add: exporting_ok_def exporting_base_def\<close>)
      have c3: "closes good seen W at v s ?s3"
        by (rule closes_trans [OF wf c1 closes_trans [OF wf p(1) c23]])
      have ok3: "exporting_ok good seen W at v ?s3" "adds_to (wr_D W) at s ?s3" using c3 by (simp_all add: closes_def)
      have "to_do v (wr_repo W) ?s3 < n" using to_do_grows [OF fin ok3(2)] Cons.prems(2) by simp
      from Cons.IH [OF ok3(1) this, of "es @ [?d]"] obtain r s' where
        r: "export_tags W n ts (es @ [?d]) ?s3 = Some (r, s')" "exporting_base good seen W at v s'"
        "\<forall>es'. r = Inr es' \<longrightarrow> closes good seen W at v ?s3 s' \<and>
          (\<exists>ds. es' = (es @ [?d]) @ ds \<and> list_all2 (tag_entry v (wr_repo W)) ts ds \<and> (\<forall>d \<in> set ds. is_done s' (d_digest d)))"
        by blast
      have entry: "tag_entry v (wr_repo W) t ?d" "d_digest ?d = tg_Digest tg" using tg p(3) by (auto simp: tag_entry_def)
      have "closes good seen W at v s s' \<and>
          (\<exists>ds. es' = es @ ds \<and> list_all2 (tag_entry v (wr_repo W)) (t # ts) ds \<and> (\<forall>d \<in> set ds. is_done s' (d_digest d)))"
        if "r = Inr es'" for es'
      proof -
        from r(3) that obtain ds where ds: "closes good seen W at v ?s3 s'" "es' = (es @ [?d]) @ ds"
          "list_all2 (tag_entry v (wr_repo W)) ts ds" "\<forall>d \<in> set ds. is_done s' (d_digest d)" by blast
        have "is_done s' (tg_Digest tg)" using ds(1) p(2) by (simp add: closes_def adds_to_def is_done_def)
        then have "es' = es @ (?d # ds) \<and> list_all2 (tag_entry v (wr_repo W)) (t # ts) (?d # ds) \<and>
            (\<forall>d \<in> set (?d # ds). is_done s' (d_digest d))" using ds entry by simp
        then show ?thesis using closes_trans [OF wf c3 ds(1)] by blast
      qed
      moreover have "export_tags W n (t # ts) es s = Some (r, s')" using on Inr m m' r(1) by simp
      ultimately show ?thesis using r(2) by blast
    qed
  qed
qed

lemma export_referrers_ok:
  assumes law: "files_law (wr_F W) at" and wf: "hashes_well_formed (wr_D W)" and q: "quiet_writer W" and ix: "wr_ix W = ix"
    and fin: "finite {d. indexed v (wr_repo W) d}"
  shows "exporting_ok good seen W at v s \<Longrightarrow> to_do v (wr_repo W) s < n \<Longrightarrow>
    \<exists>r s'. export_referrers W n ms es s = Some (r, s') \<and> exporting_base good seen W at v s' \<and>
      (\<forall>es'. r = Inr es' \<longrightarrow> closes good seen W at v s s' \<and> (\<forall>m \<in> set ms. is_done s' (im_Digest m)) \<and>
        (\<exists>ds. es' = es @ ds \<and> (\<forall>d \<in> set ds. plain_entry v (wr_repo W) d \<and> is_done s' (d_digest d))))"
proof (induction ms arbitrary: s es)
  case Nil
  then show ?case by (auto simp: exporting_ok_def closes_def)
next
  case (Cons m ms)
  show ?case
  proof (cases "is_done s (im_Digest m)")
    case True
    from Cons.IH [OF Cons.prems, of es] obtain r s' where
      r: "export_referrers W n ms es s = Some (r, s')" "exporting_base good seen W at v s'"
      "\<forall>es'. r = Inr es' \<longrightarrow> closes good seen W at v s s' \<and> (\<forall>m \<in> set ms. is_done s' (im_Digest m)) \<and>
        (\<exists>ds. es' = es @ ds \<and> (\<forall>d \<in> set ds. plain_entry v (wr_repo W) d \<and> is_done s' (d_digest d)))" by blast
    have "is_done s' (im_Digest m)" if "closes good seen W at v s s'" using that True by (simp add: closes_def adds_to_def)
    with r True show ?thesis by (intro exI [of _ r] exI [of _ s']) auto
  next
    case False
    obtain w s1 where w: "export_manifest W n (im_Digest m) s = Some (w, s1)"
      using export_manifest_enough [OF law wf q ix fin Cons.prems] by fastforce
    note post = export_manifest_ok [OF law wf q ix w Cons.prems(1)]
    show ?thesis
    proof (cases w)
      case (Inl e)
      with False w post show ?thesis by (simp add: manifest_post_def)
    next
      case (Inr d)
      with post have p: "closes good seen W at v s s1" "is_done s1 (im_Digest m)"
        "\<exists>e. ro_manifests v (wr_repo W) (im_Digest m) = Some e \<and> d = export_desc (en_m e) (im_Digest m)"
        by (simp_all add: manifest_post_def)
      have ok1: "exporting_ok good seen W at v s1" "adds_to (wr_D W) at s s1" using p(1) by (simp_all add: closes_def)
      have "to_do v (wr_repo W) s1 < n" using to_do_grows [OF fin ok1(2)] Cons.prems(2) by simp
      from Cons.IH [OF ok1(1) this, of "es @ [d]"] obtain r s' where
        r: "export_referrers W n ms (es @ [d]) s1 = Some (r, s')" "exporting_base good seen W at v s'"
        "\<forall>es'. r = Inr es' \<longrightarrow> closes good seen W at v s1 s' \<and> (\<forall>m \<in> set ms. is_done s' (im_Digest m)) \<and>
          (\<exists>ds. es' = (es @ [d]) @ ds \<and> (\<forall>d \<in> set ds. plain_entry v (wr_repo W) d \<and> is_done s' (d_digest d)))" by blast
      have entry: "plain_entry v (wr_repo W) d" "d_digest d = im_Digest m" using p(3) by (auto simp: plain_entry_def)
      have "closes good seen W at v s s' \<and> (\<forall>m \<in> set (m # ms). is_done s' (im_Digest m)) \<and>
          (\<exists>ds. es' = es @ ds \<and> (\<forall>d \<in> set ds. plain_entry v (wr_repo W) d \<and> is_done s' (d_digest d)))"
        if "r = Inr es'" for es'
      proof -
        from r(3) that obtain ds where ds: "closes good seen W at v s1 s'" "\<forall>m \<in> set ms. is_done s' (im_Digest m)"
          "es' = (es @ [d]) @ ds" "\<forall>d \<in> set ds. plain_entry v (wr_repo W) d \<and> is_done s' (d_digest d)" by blast
        have "is_done s' (im_Digest m)" using ds(1) p(2) by (simp add: closes_def adds_to_def)
        then have "es' = es @ (d # ds) \<and> (\<forall>d \<in> set (d # ds). plain_entry v (wr_repo W) d \<and> is_done s' (d_digest d))"
          "\<forall>m \<in> set (m # ms). is_done s' (im_Digest m)" using ds entry by simp_all
        then show ?thesis using closes_trans [OF wf p(1) ds(1)] by blast
      qed
      moreover have "export_referrers W n (m # ms) es s = Some (r, s')" using False w Inr r(1) by simp
      ultimately show ?thesis using r(2) by blast
    qed
  qed
qed

lemma export_all_referrers_ok:
  assumes law: "files_law (wr_F W) at" and wf: "hashes_well_formed (wr_D W)" and q: "quiet_writer W" and ix: "wr_ix W = ix"
    and fin: "finite {d. indexed v (wr_repo W) d}"
  shows "exporting_ok good seen W at v s \<Longrightarrow> to_do v (wr_repo W) s < n \<Longrightarrow> card {d. indexed v (wr_repo W) d} \<le> i + k \<Longrightarrow>
    \<exists>r s'. export_all_referrers W n k i es s = Some (r, s') \<and> exporting_base good seen W at v s' \<and>
      (\<forall>es'. r = Inr es' \<longrightarrow> closes good seen W at v s s' \<and>
        (\<forall>j. i \<le> j \<longrightarrow> j < length (ex_manifests s') \<longrightarrow> referrers_done v (wr_repo W) s' (ex_manifests s' ! j)) \<and>
        (\<exists>ds. es' = es @ ds \<and> (\<forall>d \<in> set ds. plain_entry v (wr_repo W) d \<and> is_done s' (d_digest d))))"
proof (induction k arbitrary: i s es)
  case 0
  have "set (ex_manifests s) \<subseteq> {d. indexed v (wr_repo W) d}" "distinct (ex_manifests s)"
    using "0.prems"(1) by (auto simp: exporting_ok_def reads_as_def indexed_def)
  then have "length (ex_manifests s) \<le> i" using card_mono [OF fin] "0.prems"(3) by (metis add.right_neutral distinct_card le_trans)
  with "0.prems"(1) show ?case
    by (subst export_all_referrers.simps) (auto simp: exporting_ok_def closes_def)
next
  case (Suc k)
  show ?case
  proof (cases "length (ex_manifests s) \<le> i")
    case True
    with Suc.prems(1) show ?thesis by (subst export_all_referrers.simps) (auto simp: exporting_ok_def closes_def)
  next
    case False
    let ?m = "ex_manifests s ! i"
    obtain g x where g: "ix_referrers ix (wr_repo W) ?m '''' (ex_ix s) = (g, x)" by force
    have b0: "good (ex_ix s)" "seen (ex_ix s) = v" using Suc.prems(1) by (auto simp: exporting_ok_def exporting_base_def)
    from opD [OF referrers_law b0(1) g] b0(2) have x: "good x" "seen x = v" "referrers_spec (wr_repo W) ?m '''' v g v"
      by (auto simp: referrers_spec_def)
    let ?s1 = "s\<lparr>ex_ix := x\<rparr>"
    have on: "on_exix (ix_referrers (wr_ix W) (wr_repo W) ?m '''') s = (g, ?s1)" by (simp add: on_exix_def g ix)
    have c1: "closes good seen W at v s ?s1" by (rule closes_same [OF Suc.prems(1)]) (use x in simp_all)
    show ?thesis
    proof (cases g)
      case (Inl e)
      with False on closes_base [OF c1] show ?thesis by (subst export_all_referrers.simps) simp
    next
      case (Inr ms)
      have ok1: "exporting_ok good seen W at v ?s1" "adds_to (wr_D W) at s ?s1" using c1 by (simp_all add: closes_def)
      have "to_do v (wr_repo W) ?s1 < n" using to_do_grows [OF fin ok1(2)] Suc.prems(2) by simp
      from export_referrers_ok [OF law wf q ix fin ok1(1) this, of ms es] obtain w s2 where
        w: "export_referrers W n ms es ?s1 = Some (w, s2)" "exporting_base good seen W at v s2"
        "\<forall>es'. w = Inr es' \<longrightarrow> closes good seen W at v ?s1 s2 \<and> (\<forall>m \<in> set ms. is_done s2 (im_Digest m)) \<and>
          (\<exists>ds. es' = es @ ds \<and> (\<forall>d \<in> set ds. plain_entry v (wr_repo W) d \<and> is_done s2 (d_digest d)))" by blast
      show ?thesis
      proof (cases w)
        case (Inl e)
        with False on Inr w show ?thesis by (subst export_all_referrers.simps) simp
      next
        case w': (Inr es1)
        with w(3) obtain ds where d: "closes good seen W at v ?s1 s2" "\<forall>m \<in> set ms. is_done s2 (im_Digest m)" "es1 = es @ ds"
          "\<forall>d \<in> set ds. plain_entry v (wr_repo W) d \<and> is_done s2 (d_digest d)" by blast
        have c2: "closes good seen W at v s s2" by (rule closes_trans [OF wf c1 d(1)])
        have ok2: "exporting_ok good seen W at v s2" "adds_to (wr_D W) at s s2" using c2 by (simp_all add: closes_def)
        have "to_do v (wr_repo W) s2 < n" using to_do_grows [OF fin ok2(2)] Suc.prems(2) by simp
        moreover have "card {d. indexed v (wr_repo W) d} \<le> Suc i + k" using Suc.prems(3) by simp
        ultimately obtain r s' where
          r: "export_all_referrers W n k (Suc i) es1 s2 = Some (r, s')" "exporting_base good seen W at v s'"
          "\<forall>es'. r = Inr es' \<longrightarrow> closes good seen W at v s2 s' \<and>
            (\<forall>j. Suc i \<le> j \<longrightarrow> j < length (ex_manifests s') \<longrightarrow> referrers_done v (wr_repo W) s' (ex_manifests s' ! j)) \<and>
            (\<exists>ds. es' = es1 @ ds \<and> (\<forall>d \<in> set ds. plain_entry v (wr_repo W) d \<and> is_done s' (d_digest d)))"
          using Suc.IH [OF ok2(1), of "Suc i" es1] by blast
        have "closes good seen W at v s s' \<and>
            (\<forall>j. i \<le> j \<longrightarrow> j < length (ex_manifests s') \<longrightarrow> referrers_done v (wr_repo W) s' (ex_manifests s' ! j)) \<and>
            (\<exists>ds. es' = es @ ds \<and> (\<forall>d \<in> set ds. plain_entry v (wr_repo W) d \<and> is_done s' (d_digest d)))"
          if "r = Inr es'" for es'
        proof -
          from r(3) that obtain ds2 where e: "closes good seen W at v s2 s'"
            "\<forall>j. Suc i \<le> j \<longrightarrow> j < length (ex_manifests s') \<longrightarrow> referrers_done v (wr_repo W) s' (ex_manifests s' ! j)"
            "es' = es1 @ ds2" "\<forall>d \<in> set ds2. plain_entry v (wr_repo W) d \<and> is_done s' (d_digest d)" by blast
          have up: "is_done s2 y \<Longrightarrow> is_done s' y" for y using e(1) by (simp add: closes_def adds_to_def)
          have c3: "closes good seen W at v s s'" by (rule closes_trans [OF wf c2 e(1)])
          have "prefix (ex_manifests s) (ex_manifests s')" using c3 by (simp add: closes_def adds_to_def)
          then have "ex_manifests s' ! i = ?m" using False by (metis nth_append not_le prefixE)
          moreover have "referrers_done v (wr_repo W) s' ?m"
            using x(3) Inr d(2) up by (auto simp: referrers_done_def referrers_spec_def)
          ultimately have "\<forall>j. i \<le> j \<longrightarrow> j < length (ex_manifests s') \<longrightarrow> referrers_done v (wr_repo W) s' (ex_manifests s' ! j)"
            using e(2) by (metis le_antisym not_less_eq_eq)
          moreover have "es' = es @ (ds @ ds2) \<and> (\<forall>d \<in> set (ds @ ds2). plain_entry v (wr_repo W) d \<and> is_done s' (d_digest d))"
            using d(3,4) e(3,4) up by auto
          ultimately show ?thesis using c3 by blast
        qed
        moreover have "export_all_referrers W n (Suc k) i es s = Some (r, s')"
          using False on Inr w w' r(1) by (subst export_all_referrers.simps) simp
        ultimately show ?thesis using r(2) by blast
      qed
    qed
  qed
qed

end

section \<open>The two files that make a layout\<close>

lemma writeJSON_shown:
  assumes "files_law F at" "writeJSON F path b x = (r, x')"
  shows "shown at x' = (if is_ok r \<and> \<not> temp_name path then (shown at x)(path \<mapsto> b) else shown at x)"
proof -
  have "leaves_written at b (\<lambda>t. fs_write F t b)"
    unfolding leaves_written_def using files_lawD(4) [OF assms(1)] by (metis append_Nil)
  from atomic_shown [OF assms(1) this] assms(2) show ?thesis by (simp add: writeJSON_def)
qed

lemma layout_files_ok:
  assumes law: "files_law (wr_F W) at" and wf: "hashes_well_formed (wr_D W)" and call: "layout_files W E es s = (r, s')"
  shows "ex_ix s' = ex_ix s \<and> ex_done s' = ex_done s \<and> ex_manifests s' = ex_manifests s \<and> ex_r s' = ex_r s \<and>
    (\<forall>p. length p \<noteq> 1 \<longrightarrow> shown at (ex_dir s') p = shown at (ex_dir s) p) \<and>
    (is_ok r \<longrightarrow> shown at (ex_dir s') [''index.json''] = Some (le_index E es) \<and>
      shown at (ex_dir s') [''oci-layout''] = Some (le_layout E))"
proof -
  obtain a x1 where a: "writeJSON (wr_F W) [''index.json''] (le_index E es) (ex_dir s) = (a, x1)" by force
  obtain b x2 where b: "writeJSON (wr_F W) [''oci-layout''] (le_layout E) x1 = (b, x2)" by force
  note 1 = writeJSON_shown [OF law a] and 2 = writeJSON_shown [OF law b]
  have t: "\<not> temp_name [''index.json'']" "\<not> temp_name [''oci-layout'']" by (simp_all add: temp_name_def)
  from call a b 1 2 t show ?thesis
    by (cases a) (auto simp: layout_files_def on_exdir_def split: if_splits)
qed

lemma layout_files_keeps:
  assumes law: "files_law (wr_F W) at" and wf: "hashes_well_formed (wr_D W)" and call: "layout_files W E es s = (r, s')"
  shows "exporting_base good seen W at v s \<Longrightarrow> exporting_base good seen W at v s'"
    and "reads_as W at v s' = reads_as W at v s" "closed_manifest W at v s' m = closed_manifest W at v s m"
    and "exporting_ok good seen W at v s \<Longrightarrow> exporting_ok good seen W at v s'"
proof -
  note f = layout_files_ok [OF assms]
  have blob: "shown at (ex_dir s') (blobPath_of D d) = shown at (ex_dir s) (blobPath_of D d)" for D d
    using f by (simp add: blobPath_of_def)
  show base: "exporting_base good seen W at v s \<Longrightarrow> exporting_base good seen W at v s'"
    using f blob by (simp add: exporting_base_def sound_dir_def)
  show rd: "reads_as W at v s' = reads_as W at v s" using blob by (simp add: reads_as_def fun_eq_iff)
  have dn: "is_done s' = is_done s" using f by (simp add: is_done_def fun_eq_iff)
  show "closed_manifest W at v s' m = closed_manifest W at v s m" using rd dn f by (simp add: closed_manifest_def)
  show "exporting_ok good seen W at v s \<Longrightarrow> exporting_ok good seen W at v s'"
    using base rd dn f blob by (simp add: exporting_ok_def was_reached_def accounted_def in_layout_def)
qed

section \<open>From the tags to the layout\<close>

text \<open>What an export that answers no error has written, for the index's rows \<open>v\<close>.\<close>

definition exported :: "('x, 'f, 'd) writer \<Rightarrow> layout_encoders \<Rightarrow> ('d \<Rightarrow> string list \<Rightarrow> string option) \<Rightarrow> rows \<Rightarrow> bool \<Rightarrow>
    string list \<Rightarrow> descriptor list \<Rightarrow> descriptor list \<Rightarrow> ('x, 'f, 'd) exporting \<Rightarrow> bool" where
  "exported W E at v refs ts es rs s =
     (list_all2 (tag_entry v (wr_repo W)) ts es \<and> (\<forall>d \<in> set rs. plain_entry v (wr_repo W) d) \<and>
      shown at (ex_dir s) [''index.json''] = Some (le_index E (es @ rs)) \<and>
      shown at (ex_dir s) [''oci-layout''] = Some (le_layout E) \<and>
      (\<forall>d \<in> set (es @ rs). is_done s (d_digest d)) \<and>
      (\<forall>d. is_done s d \<longrightarrow> accounted (wr_D W) at s d \<and> was_reached W at v s d) \<and>
      (\<forall>m \<in> set (ex_manifests s). closed_manifest W at v s m \<and> (refs \<longrightarrow> referrers_done v (wr_repo W) s m)))"

context index_laws
begin

lemma export_from_ok:
  assumes law: "files_law (wr_F W) at" and wf: "hashes_well_formed (wr_D W)" and q: "quiet_writer W" and ix: "wr_ix W = ix"
    and fin: "finite {d. indexed v (wr_repo W) d}"
    and ok: "exporting_ok good seen W at v s" and new: "ex_manifests s = []" and n: "card {d. indexed v (wr_repo W) d} < n"
  shows "\<exists>r s'. export_from W E o' n ts s = Some (r, s') \<and> exporting_base good seen W at v s' \<and>
    (is_ok r \<longrightarrow> ts \<noteq> [] \<and> (\<exists>es rs. exported W E at v (xo_Referrers o') ts es rs s'))"
proof (cases "ts = []")
  case True
  with ok show ?thesis by (simp add: export_from_def exporting_ok_def)
next
  case ts: False
  obtain m y where m: "fs_mkdir (wr_F W) [] (ex_dir s) = (m, y)" by force
  let ?s1 = "s\<lparr>ex_dir := y\<rparr>"
  have on: "on_exdir (fs_mkdir (wr_F W) []) s = (m, ?s1)" by (simp add: on_exdir_def m)
  have "shown at y = shown at (ex_dir s)" by (rule shown_same [OF files_lawD(1) [OF law m]])
  then have c1: "closes good seen W at v s ?s1"
    by (intro closes_same [OF ok]) (use ok in \<open>simp_all add: exporting_ok_def exporting_base_def\<close>)
  then have ok1: "exporting_ok good seen W at v ?s1" by (simp add: closes_def)
  have less: "to_do v (wr_repo W) z < n" for z
    using n card_mono [OF fin, of "{d. indexed v (wr_repo W) d \<and> \<not> is_done z d}"] unfolding to_do_def by fastforce
  show ?thesis
  proof (cases m)
    case (Inl e)
    with ts on closes_base [OF c1] show ?thesis by (simp add: export_from_def)
  next
    case (Inr u)
    from export_tags_ok [OF law wf q ix fin ok1 less, of ts "[]"] obtain tr s2 where
      tr: "export_tags W n ts [] ?s1 = Some (tr, s2)" "exporting_base good seen W at v s2"
      "\<forall>es. tr = Inr es \<longrightarrow> closes good seen W at v ?s1 s2 \<and> list_all2 (tag_entry v (wr_repo W)) ts es \<and>
        (\<forall>d \<in> set es. is_done s2 (d_digest d))" by fastforce
    show ?thesis
    proof (cases tr)
      case (Inl e)
      with ts on Inr tr show ?thesis by (simp add: export_from_def)
    next
      case tr': (Inr es)
      with tr(3) have c2: "closes good seen W at v ?s1 s2" and es: "list_all2 (tag_entry v (wr_repo W)) ts es"
        "\<forall>d \<in> set es. is_done s2 (d_digest d)" by simp_all
      have ok2: "exporting_ok good seen W at v s2" using c2 by (simp add: closes_def)
      define after where "after = (if xo_Referrers o' then export_all_referrers W n n 0 es s2 else Some (Inr es, s2))"
      have "\<exists>r s3. after = Some (r, s3) \<and> exporting_base good seen W at v s3 \<and>
          (\<forall>es'. r = Inr es' \<longrightarrow> closes good seen W at v s2 s3 \<and>
            (xo_Referrers o' \<longrightarrow> (\<forall>m \<in> set (ex_manifests s3). referrers_done v (wr_repo W) s3 m)) \<and>
            (\<exists>rs. es' = es @ rs \<and> (\<forall>d \<in> set rs. plain_entry v (wr_repo W) d \<and> is_done s3 (d_digest d))))"
      proof (cases "xo_Referrers o'")
        case True
        have "card {d. indexed v (wr_repo W) d} \<le> 0 + n" using n by simp
        from export_all_referrers_ok [OF law wf q ix fin ok2 less this, of es] show ?thesis
          by (simp add: after_def True all_set_conv_all_nth)
      next
        case False
        with ok2 show ?thesis by (simp add: after_def exporting_ok_def closes_def)
      qed
      then obtain r3 s3 where r3: "after = Some (r3, s3)" "exporting_base good seen W at v s3"
        "\<forall>es'. r3 = Inr es' \<longrightarrow> closes good seen W at v s2 s3 \<and>
            (xo_Referrers o' \<longrightarrow> (\<forall>m \<in> set (ex_manifests s3). referrers_done v (wr_repo W) s3 m)) \<and>
            (\<exists>rs. es' = es @ rs \<and> (\<forall>d \<in> set rs. plain_entry v (wr_repo W) d \<and> is_done s3 (d_digest d)))" by blast
      show ?thesis
      proof (cases r3)
        case (Inl e)
        with ts on Inr tr(1) tr' r3 show ?thesis by (simp add: export_from_def after_def [symmetric])
      next
        case r3': (Inr es')
        with r3(3) obtain rs where c3: "closes good seen W at v s2 s3"
          "xo_Referrers o' \<longrightarrow> (\<forall>m \<in> set (ex_manifests s3). referrers_done v (wr_repo W) s3 m)" "es' = es @ rs"
          "\<forall>d \<in> set rs. plain_entry v (wr_repo W) d \<and> is_done s3 (d_digest d)" by blast
        obtain r s' where f: "layout_files W E es' s3 = (r, s')" by force
        note fs = layout_files_ok [OF law wf f] and keep = layout_files_keeps [OF law wf f]
        have call: "export_from W E o' n ts s = Some (r, s')"
          using ts on Inr tr(1) tr' r3(1) r3' f by (simp add: export_from_def after_def [symmetric])
        have c: "closes good seen W at v s s3" by (rule closes_trans [OF wf c1 closes_trans [OF wf c2 c3(1)]])
        then have ok3: "exporting_ok good seen W at v s3" by (simp add: closes_def)
        have ok': "exporting_ok good seen W at v s'" by (rule keep(4) [OF ok3])
        have dn: "is_done s' = is_done s3" using fs by (simp add: is_done_def fun_eq_iff)
        have "\<forall>m \<in> set (ex_manifests s'). closed_manifest W at v s' m"
          using c new fs keep(3) by (simp add: closes_def)
        moreover have "xo_Referrers o' \<longrightarrow> (\<forall>m \<in> set (ex_manifests s'). referrers_done v (wr_repo W) s' m)"
          using c3(2) fs dn by (simp add: referrers_done_def)
        moreover have "\<forall>d \<in> set (es @ rs). is_done s' (d_digest d)"
          using es(2) c3(1,4) dn by (auto simp: closes_def adds_to_def)
        moreover have "\<forall>d. is_done s' d \<longrightarrow> accounted (wr_D W) at s' d \<and> was_reached W at v s' d"
          using ok' by (simp add: exporting_ok_def)
        ultimately have "is_ok r \<longrightarrow> exported W E at v (xo_Referrers o') ts es rs s'"
          using es(1) c3(3,4) fs by (simp add: exported_def)
        then show ?thesis using call ts keep(1) [OF r3(2)] by blast
      qed
    qed
  qed
qed

lemma Layout_ok:
  assumes law: "files_law (wr_F W) at" and wf: "hashes_well_formed (wr_D W)" and q: "quiet_writer W" and ix: "wr_ix W = ix"
    and x: "good x" and fin: "finite {d. indexed (seen x) (wr_repo W) d}" and n: "card {d. indexed (seen x) (wr_repo W) d} < n"
    and dir: "sound_dir (wr_D W) at dir"
  shows "\<exists>r s'. Layout W E o' n (new_export x f dir) = Some (r, s') \<and> sound_dir (wr_D W) at (ex_dir s') \<and> seen (ex_ix s') = seen x \<and>
    (is_ok r \<longrightarrow> (\<exists>ts es rs. ts \<noteq> [] \<and>
       (if xo_Tags o' = [] then set ts = {t. ro_tags (seen x) (wr_repo W) t \<noteq> None} else ts = xo_Tags o') \<and>
       exported W E at (seen x) (xo_Referrers o') ts es rs s'))"
proof -
  have init: "exporting_ok good seen W at (seen x) (new_export x' f dir)" if "good x'" "seen x' = seen x" for x'
    using that dir by (simp add: exporting_ok_def exporting_base_def new_export_def is_done_def)
  have none: "ex_manifests (new_export x' f dir) = []" for x' by (simp add: new_export_def)
  have start: "\<exists>r s'. export_from W E o' n ts (new_export x' f dir) = Some (r, s') \<and> exporting_base good seen W at (seen x) s' \<and>
      (is_ok r \<longrightarrow> ts \<noteq> [] \<and> (\<exists>es rs. exported W E at (seen x) (xo_Referrers o') ts es rs s'))"
    if "good x'" "seen x' = seen x" for x' ts
    by (rule export_from_ok [OF law wf q ix fin init [OF that] none n])
  show ?thesis
  proof (cases "xo_Tags o' = []")
    case False
    have "good x" by fact
    from start [OF this refl, of "xo_Tags o'"] False show ?thesis
      by (auto simp: Layout_def new_export_def exporting_base_def)
  next
    case True
    obtain g y where g: "ix_tag_all ix (wr_repo W) x = (g, y)" by force
    from opD [OF tag_all_law x g] have y: "good y" "seen y = seen x" "tag_all_spec (wr_repo W) (seen x) g (seen x)"
      by (auto simp: tag_all_spec_def)
    have on: "on_exix (ix_tag_all (wr_ix W) (wr_repo W)) (new_export x f dir) = (g, new_export y f dir)"
      by (simp add: on_exix_def new_export_def g ix)
    show ?thesis
    proof (cases g)
      case (Inl e)
      with True on y dir show ?thesis by (simp add: Layout_def new_export_def)
    next
      case (Inr ts)
      have "set (map tg_Name ts) = {t. ro_tags (seen x) (wr_repo W) t \<noteq> None}"
        using y(3) Inr by (auto simp: tag_all_spec_def)
      moreover from start [OF y(1,2), of "map tg_Name ts"] obtain r s' where r:
        "export_from W E o' n (map tg_Name ts) (new_export y f dir) = Some (r, s')" "exporting_base good seen W at (seen x) s'"
        "is_ok r \<longrightarrow> map tg_Name ts \<noteq> [] \<and> (\<exists>es rs. exported W E at (seen x) (xo_Referrers o') (map tg_Name ts) es rs s')" by blast
      moreover have "Layout W E o' n (new_export x f dir) = Some (r, s')" using True on Inr r(1) by (simp add: Layout_def)
      ultimately show ?thesis using True unfolding exporting_base_def by metis
    qed
  qed
qed

end

section \<open>What an export promises\<close>

text \<open>
  C18: an export ends, and its layout is sound and whole.  With fuel past the number of manifests the
  index has, it returns; whatever happened, every blob of the layout hashes to its name and the
  index is as it was.  When it answers no error, \<open>index.json\<close> lists the tags asked for (all of them
  when none were) under the digests and with the sizes the index has, every manifest written reads
  as what the index says it is and everything it names is in the layout or told as left out, and
  with \<open>Referrers\<close> so are the manifests that refer to it.
\<close>

theorem export_is_whole:
  assumes "files_law (wr_F W) at \<and> hashes_well_formed (wr_D W) \<and> quiet_writer W"
    and "wr_ix W = mem_ops" and "mem_good x" and "sound_dir (wr_D W) at dir"
    and "card {d. indexed (mem_seen x) (wr_repo W) d} < n"
  shows "\<exists>r s'. Layout W E o' n (new_export x f dir) = Some (r, s') \<and> sound_dir (wr_D W) at (ex_dir s') \<and>
    mem_seen (ex_ix s') = mem_seen x \<and>
    (is_ok r \<longrightarrow> (\<exists>ts es rs. ts \<noteq> [] \<and>
       (if xo_Tags o' = [] then set ts = {t. ro_tags (mem_seen x) (wr_repo W) t \<noteq> None} else ts = xo_Tags o') \<and>
       exported W E at (mem_seen x) (xo_Referrers o') ts es rs s'))"
  using assms(1) by (elim conjE) (rule mem.Layout_ok [OF _ _ _ assms(2,3) finite_rows(2) assms(5,4)])

section \<open>A directory to try things on\<close>

type_synonym sample_dir = "(string list, string) gomap"

definition sample_files :: "sample_dir files" where
  "sample_files =
     \<lparr>fs_mkdir = (\<lambda>p x. (Inr (), x)),
      fs_stat = (\<lambda>p x. (if map_of x p = None then Inl (Other ''stat'') else Inr (), x)),
      fs_temp = (\<lambda>p x. let t = p @ [''.tmp-'' @ concat (map (concat \<circ> fst) x)] in (Inr t, AList.update t '''' x)),
      fs_write = (\<lambda>p b x. case map_of x p of None \<Rightarrow> (Inl (Other ''write''), x) | Some a \<Rightarrow> (Inr (), AList.update p (a @ b) x)),
      fs_close = (\<lambda>p x. (Inr (), x)),
      fs_rename = (\<lambda>p q x. case map_of x p of None \<Rightarrow> (Inl (Other ''rename''), x)
        | Some a \<Rightarrow> (Inr (), AList.delete p (AList.update q a x))),
      fs_remove = (\<lambda>p x. AList.delete p x)\<rparr>"

lemma length_in_concat: "y \<in> set ys \<Longrightarrow> length (g y) \<le> length (concat (map g ys))"
  by (induction ys) auto

lemma sample_temp_fresh: "map_of x (p @ [''.tmp-'' @ concat (map (concat \<circ> fst) x)]) = None"
proof (rule ccontr)
  let ?n = "''.tmp-'' @ concat (map (concat \<circ> fst) x)"
  assume "map_of x (p @ [?n]) \<noteq> None"
  then obtain b where "(p @ [?n], b) \<in> set x" by (auto dest: map_of_SomeD)
  from length_in_concat [OF this, of "concat \<circ> fst"] show False by simp
qed

lemma sample_files_law: "files_law sample_files map_of"
  unfolding files_law_def
proof (intro conjI allI impI)
  fix p x r x' assume "fs_temp sample_files p x = (r, x')"
  then have "r = Inr (p @ [''.tmp-'' @ concat (map (concat \<circ> fst) x)])"
    "x' = AList.update (p @ [''.tmp-'' @ concat (map (concat \<circ> fst) x)]) '''' x"
    by (simp_all add: sample_files_def Let_def)
  then show "case r of Inl e \<Rightarrow> map_of x' = map_of x
      | Inr t \<Rightarrow> temp_name t \<and> map_of x t = None \<and> map_of x' = (map_of x)(t \<mapsto> '''')"
    using sample_temp_fresh [of x p] by (simp add: temp_name_def update_conv')
next
  fix p b x r x' assume "fs_write sample_files p b x = (r, x')"
  then show "\<exists>c. map_of x' = (map_of x)(p := c)"
    by (cases "map_of x p") (auto simp: sample_files_def update_conv' intro: fun_upd_idem [symmetric])
qed (auto simp: sample_files_def update_conv' delete_conv' split: option.splits if_splits)

text \<open>A hash that is one to one: the bytes themselves, after a letter.\<close>

definition exact_digest_ops :: digest_ops where
  "exact_digest_ops =
     \<lparr>dg_algorithm = (\<lambda>d. fst (cut (CHR '':'') d)), dg_encoded = (\<lambda>d. fst (snd (cut (CHR '':'') d))),
      dg_validates = (\<lambda>d. d = fst (cut (CHR '':'') d) @ '':'' @ fst (snd (cut (CHR '':'') d)) \<and> prefix ''h'' (fst (snd (cut (CHR '':'') d)))),
      dg_from_bytes = (\<lambda>a b. a @ '':h'' @ b)\<rparr>"

lemma cut_colon: "CHR '':'' \<notin> set a \<Longrightarrow> cut (CHR '':'') (a @ CHR '':'' # b) = (a, b, True)"
  by (induction a) auto

lemma exact_well_formed: "hashes_well_formed exact_digest_ops"
  unfolding hashes_well_formed_def
proof (intro allI impI)
  fix d b assume "hashes_to exact_digest_ops d b"
  then have d: "d = dg_algorithm exact_digest_ops d @ '':'' @ (CHR ''h'' # b)" by (simp add: hashes_to_def exact_digest_ops_def)
  have "CHR '':'' \<notin> set (fst (cut (CHR '':'') d))" for d by (induction d) (auto split: prod.splits)
  then have "CHR '':'' \<notin> set (dg_algorithm exact_digest_ops d)" by (simp add: exact_digest_ops_def)
  from cut_colon [OF this, of "CHR ''h'' # b"] have "fst (snd (cut (CHR '':'') (dg_algorithm exact_digest_ops d @ '':'' @ (CHR ''h'' # b)))) = CHR ''h'' # b"
    by simp
  then have "dg_encoded exact_digest_ops d = CHR ''h'' # b" unfolding d [symmetric] by (simp add: exact_digest_ops_def)
  with d show "well_formed exact_digest_ops d" by (simp add: well_formed_def)
qed

definition shipped_raw :: rawManifest where
  "shipped_raw =
     \<lparr>raw_schemaVersion = Some 2, raw_mediaType = '''', raw_artifactType = '''',
      raw_config = Some ((sample_desc ''c'' ''sha256:hc'')\<lparr>d_size := 1\<rparr>),
      raw_layers = Some [(sample_desc ''l'' ''sha256:hl'')\<lparr>d_size := 1\<rparr>],
      raw_manifests = None, raw_subject = None, raw_annotations = []\<rparr>"

definition shipped_decoders :: decoders where
  "shipped_decoders = \<lparr>dec_json = (\<lambda>b. if b = ''{}'' then Some shipped_raw else None), dec_mime = (\<lambda>ct. Some ct)\<rparr>"

definition shipped_record :: imanifest where
  "shipped_record = \<lparr>im_Digest = ''sha256:h{}'', im_MediaType = MediaTypeImageManifest, im_ArtifactType = '''', im_Subject = '''',
     im_Size = 2, im_Annotations = [], im_CreatedAt = 10, im_PulledAt = 0\<rparr>"

definition shipped_index :: view where
  "shipped_index =
     snd (ix_tag_set mem_ops ''acme/app'' ''v1'' ''sha256:h{}'' ''''
       (snd (ix_put mem_ops ''acme/app'' shipped_record [''sha256:hc'', ''sha256:hl'']
         (snd (ix_repo_ensure mem_ops ''acme/app'' (new_index 5 100 []))))))"

definition shipped_store :: sample_blobs where
  "shipped_store = [((''acme/app'', ''sha256:h{}''), ''{}''), ((''acme/app'', ''sha256:hc''), ''c''), ((''acme/app'', ''sha256:hl''), ''l'')]"

definition sample_writer :: "(view, sample_blobs, sample_dir) writer" where
  "sample_writer = \<lparr>wr_D = exact_digest_ops, wr_J = shipped_decoders, wr_ix = mem_ops, wr_fl = sample_store, wr_F = sample_files,
     wr_repo = ''acme/app''\<rparr>"

definition sample_encoders :: layout_encoders where
  "sample_encoders = \<lparr>le_index = map (\<lambda>d. if d_annotations d = [] then CHR ''p'' else CHR ''t''), le_layout = ''v''\<rparr>"

definition sample_export :: "((error + unit) \<times> (view, sample_blobs, sample_dir) exporting) option" where
  "sample_export = Layout sample_writer sample_encoders \<lparr>xo_Tags = [], xo_Referrers = True\<rparr> 2 (new_export shipped_index shipped_store [])"

lemma shipped_index_good [simp]: "mem_good shipped_index"
  unfolding shipped_index_def by (intro mem_good_after new_index_good)

lemma sample_exported:
  "map_option (\<lambda>(r, s). (r, ex_dir s, ex_manifests s, ex_r s)) sample_export =
   Some (Inr (),
     [([''blobs'', ''sha256'', ''h{}''], ''{}''), ([''blobs'', ''sha256'', ''hl''], ''l''),
      ([''blobs'', ''sha256'', ''hc''], ''c''), ([''index.json''], ''t''), ([''oci-layout''], ''v'')],
     [''sha256:h{}''], \<lparr>xr_Tags = 1, xr_Manifests = 1, xr_Blobs = 2, xr_Bytes = 2, xr_Skipped = []\<rparr>)"
  by code_simp

lemma shipped_rows:
  "ro_manifests (mem_seen shipped_index) ''acme/app'' = [''sha256:h{}'' \<mapsto> \<lparr>en_m = shipped_record, en_holds = [''sha256:hc'', ''sha256:hl'']\<rparr>]"
  "dom (ro_tags (mem_seen shipped_index) ''acme/app'') = {''v1''}"
proof -
  have "vw_s shipped_index = None"
    "inner (st_manifests (mi_s (vw_ix shipped_index))) ''acme/app'' = [(''sha256:h{}'', \<lparr>en_m = shipped_record, en_holds = [''sha256:hc'', ''sha256:hl'']\<rparr>)]"
    "map fst (inner (st_tags (mi_s (vw_ix shipped_index))) ''acme/app'') = [''v1'']"
    by code_simp+
  then show "ro_manifests (mem_seen shipped_index) ''acme/app'' = [''sha256:h{}'' \<mapsto> \<lparr>en_m = shipped_record, en_holds = [''sha256:hc'', ''sha256:hl'']\<rparr>]"
    "dom (ro_tags (mem_seen shipped_index) ''acme/app'') = {''v1''}"
    by (auto simp: mem_seen_def man_def fun_eq_iff dom_map_of_conv_image_fst simp flip: set_map)
qed

lemma sample_writer_sel [simp]:
  "wr_D sample_writer = exact_digest_ops" "wr_J sample_writer = shipped_decoders" "wr_ix sample_writer = mem_ops"
  "wr_fl sample_writer = sample_store" "wr_F sample_writer = sample_files" "wr_repo sample_writer = ''acme/app''"
  by (simp_all add: sample_writer_def)

lemma sample_writer_quiet: "quiet_writer sample_writer"
  by (auto simp: quiet_writer_def not_index_error_def sample_store_def sample_files_def Let_def split: option.splits if_splits)

lemma sample_export_laws:
  "files_law (wr_F sample_writer) map_of \<and> hashes_well_formed (wr_D sample_writer) \<and> quiet_writer sample_writer"
  "wr_ix sample_writer = mem_ops" "mem_good shipped_index" "sound_dir (wr_D sample_writer) map_of []"
  "card {d. indexed (mem_seen shipped_index) (wr_repo sample_writer) d} < 2"
proof -
  have "{d. indexed (mem_seen shipped_index) ''acme/app'' d} = {''sha256:h{}''}" by (auto simp: indexed_def shipped_rows)
  then show "card {d. indexed (mem_seen shipped_index) (wr_repo sample_writer) d} < 2" by simp
qed (simp_all add: sample_files_law exact_well_formed sample_writer_quiet sound_dir_def shown_def)

lemma sample_export_done:
  obtains s where "sample_export = Some (Inr (), s)" "ex_manifests s = [''sha256:h{}'']" "xr_Skipped (ex_r s) = []"
    "ex_dir s = [([''blobs'', ''sha256'', ''h{}''], ''{}''), ([''blobs'', ''sha256'', ''hl''], ''l''),
      ([''blobs'', ''sha256'', ''hc''], ''c''), ([''index.json''], ''t''), ([''oci-layout''], ''v'')]"
  using sample_exported by (cases sample_export) auto

theorem export_is_whole_witness:
  "\<exists>s' ts es rs. sample_export = Some (Inr (), s') \<and> set ts = {''v1''} \<and>
     exported sample_writer sample_encoders map_of (mem_seen shipped_index) True ts es rs s'"
proof -
  obtain s where s: "sample_export = Some (Inr (), s)" by (rule sample_export_done)
  have "{t. ro_tags (mem_seen shipped_index) ''acme/app'' t \<noteq> None} = {''v1''}" using shipped_rows(2) by (simp add: dom_def)
  with export_is_whole [OF sample_export_laws, of sample_encoders "\<lparr>xo_Tags = [], xo_Referrers = True\<rparr>" shipped_store] s
  show ?thesis unfolding sample_export_def by auto
qed

end
