(* ===== verification/Import_Orphans.thy ===== *)
theory Import_Orphans
  imports Import_Layout Index_Rebuild
begin

text \<open>
  Which manifests an import leaves out (\<open>importer/orphans.go\<close>): the referrers whose subject is
  neither taken nor there, and what depends on them.  Shown: the plan is the least set closed under
  that, so what is kept is whole.
\<close>

section \<open>The code\<close>

definition subject_of :: "taken \<Rightarrow> digest option" where
  "subject_of mf = map_option d_digest (mf_subject (ta_m mf))"

text \<open>\<open>refs\<close> and \<open>parents\<close>, as lookups: in the order the map of the manifests is gone through.\<close>

definition refs_of :: "(digest, taken) gomap \<Rightarrow> digest \<Rightarrow> digest list" where
  "refs_of ms s = map fst (filter (\<lambda>e. subject_of (snd e) = Some s) ms)"

definition parents_of :: "(digest, taken) gomap \<Rightarrow> digest \<Rightarrow> digest list" where
  "parents_of ms c =
     concat (map (\<lambda>e. map (\<lambda>_. fst e) (filter (\<lambda>x. d_digest x = c) (slice (mf_manifests (ta_m (snd e)))))) ms)"

text \<open>\<open>exists\<close>: asked of the index once for a digest.\<close>

definition exists_in :: "'x index_ops \<Rightarrow> string \<Rightarrow> digest \<Rightarrow> (digest, bool) gomap \<Rightarrow> 'x \<Rightarrow> (error + bool) \<times> (digest, bool) gomap \<times> 'x" where
  "exists_in ix repo d present x =
     (case map_of present d of
        Some ok \<Rightarrow> (Inr ok, present, x)
      | None \<Rightarrow>
          (case ix_get ix repo d x of
             (Inr _, x1) \<Rightarrow> (Inr True, AList.update d True present, x1)
           | (Inl e, x1) \<Rightarrow>
               if errors_is e ErrNotFound then (Inr False, AList.update d False present, x1) else (Inl e, present, x1)))"

type_synonym omitted = "(digest, reason) gomap \<times> digest list"

definition omit :: "digest \<Rightarrow> reason \<Rightarrow> omitted \<Rightarrow> omitted" where
  "omit d why o' = (if map_of (fst o') d \<noteq> None then o' else (AList.update d why (fst o'), snd o' @ [d]))"

record plan =
  pl_present :: "(digest, bool) gomap"
  pl_orphaned :: "(digest, bool) gomap"
  pl_omitted :: omitted

text \<open>The first loop: the referrers whose subject is nowhere.\<close>

fun plan_subjects :: "'x index_ops \<Rightarrow> string \<Rightarrow> (digest, taken) gomap \<Rightarrow> bool \<Rightarrow> digest list \<Rightarrow> plan \<Rightarrow> ('x, plan) op" where
  "plan_subjects ix repo ms skip [] pl x = (Inr pl, x)"
| "plan_subjects ix repo ms skip (d # ds) pl x =
     (case Option.bind (map_of ms d) subject_of of
        None \<Rightarrow> plan_subjects ix repo ms skip ds pl x
      | Some s \<Rightarrow>
          if map_of ms s \<noteq> None then plan_subjects ix repo ms skip ds pl x
          else
            (case exists_in ix repo s (pl_present pl) x of
               (Inl e, _, x1) \<Rightarrow> (Inl e, x1)
             | (Inr ok, pr, x1) \<Rightarrow>
                 (let pl1 = pl\<lparr>pl_present := pr\<rparr> in
                  if ok then plan_subjects ix repo ms skip ds pl1 x1
                  else
                    plan_subjects ix repo ms skip ds
                      (pl1\<lparr>pl_orphaned := AList.update d True (pl_orphaned pl1),
                         pl_omitted := (if skip then omit d (SubjectAbsent s) (pl_omitted pl1) else pl_omitted pl1)\<rparr>) x1)))"

text \<open>What omitting \<open>d\<close> omits.\<close>

definition spread :: "(digest, taken) gomap \<Rightarrow> digest \<Rightarrow> omitted \<Rightarrow> omitted" where
  "spread ms d o' =
     fold (\<lambda>p. omit p (ChildSkipped d)) (parents_of ms d) (fold (\<lambda>r. omit r (SubjectSkipped d)) (refs_of ms d) o')"

lemma omit_fold:
  "dom (map_of (fst (fold (\<lambda>r. omit r why) ds o'))) = dom (map_of (fst o')) \<union> set ds \<and>
   set (snd (fold (\<lambda>r. omit r why) ds o')) = set (snd o') \<union> (set ds - dom (map_of (fst o'))) \<and>
   length (snd (fold (\<lambda>r. omit r why) ds o')) = length (snd o') + card (set ds - dom (map_of (fst o')))"
proof (induction ds arbitrary: o')
  case (Cons d ds)
  let ?o = "omit d why o'"
  have o: "dom (map_of (fst ?o)) = insert d (dom (map_of (fst o')))" "set (snd ?o) = set (snd o') \<union> ({d} - dom (map_of (fst o')))"
    "length (snd ?o) = length (snd o') + (if d \<in> dom (map_of (fst o')) then 0 else 1)"
    by (auto simp: omit_def update_conv' domIff)
  have "set (d # ds) - dom (map_of (fst o')) =
      (if d \<in> dom (map_of (fst o')) then set ds - insert d (dom (map_of (fst o'))) else insert d (set ds - insert d (dom (map_of (fst o')))))"
    by auto
  then have "card (set (d # ds) - dom (map_of (fst o'))) =
      (if d \<in> dom (map_of (fst o')) then 0 else 1) + card (set ds - insert d (dom (map_of (fst o'))))" by simp
  with Cons.IH [of ?o] o show ?case by auto
qed simp

lemma set_refs_of: "set (refs_of ms s) = {d. \<exists>mf. (d, mf) \<in> set ms \<and> subject_of mf = Some s}"
  by (force simp: refs_of_def)

lemma set_parents_of: "set (parents_of ms c) = {d. \<exists>mf. (d, mf) \<in> set ms \<and> c \<in> children_of mf}"
  by (force simp: parents_of_def children_of_def)

lemma spread_sets:
  "dom (map_of (fst (spread ms d o'))) = dom (map_of (fst o')) \<union> set (refs_of ms d) \<union> set (parents_of ms d)"
  "set (snd (spread ms d o')) = set (snd o') \<union> (dom (map_of (fst (spread ms d o'))) - dom (map_of (fst o')))"
  "length (snd (spread ms d o')) = length (snd o') + card (dom (map_of (fst (spread ms d o'))) - dom (map_of (fst o')))"
proof -
  let ?o = "fold (\<lambda>r. omit r (SubjectSkipped d)) (refs_of ms d) o'"
  note r = omit_fold [of "SubjectSkipped d" "refs_of ms d" o'] and p = omit_fold [of "ChildSkipped d" "parents_of ms d" ?o]
  show d: "dom (map_of (fst (spread ms d o'))) = dom (map_of (fst o')) \<union> set (refs_of ms d) \<union> set (parents_of ms d)"
    unfolding spread_def using r p by blast
  show "set (snd (spread ms d o')) = set (snd o') \<union> (dom (map_of (fst (spread ms d o'))) - dom (map_of (fst o')))"
    unfolding d unfolding spread_def using r p by blast
  have "card ((set (refs_of ms d) - dom (map_of (fst o'))) \<union> (set (parents_of ms d) - (dom (map_of (fst o')) \<union> set (refs_of ms d)))) =
      card (set (refs_of ms d) - dom (map_of (fst o'))) + card (set (parents_of ms d) - (dom (map_of (fst o')) \<union> set (refs_of ms d)))"
    by (rule card_Un_disjoint) auto
  moreover have "(set (refs_of ms d) - dom (map_of (fst o'))) \<union> (set (parents_of ms d) - (dom (map_of (fst o')) \<union> set (refs_of ms d))) =
      dom (map_of (fst (spread ms d o'))) - dom (map_of (fst o'))" unfolding d by blast
  ultimately show "length (snd (spread ms d o')) = length (snd o') + card (dom (map_of (fst (spread ms d o'))) - dom (map_of (fst o')))"
    unfolding spread_def using r p by simp
qed

lemma spread_measure:
  fixes o' :: omitted and ms :: "(digest, taken) gomap"
  assumes "o' = (sk, q)"
  shows "card (fst ` set ms - dom (map_of (fst (spread ms d o')))) + length (snd (spread ms d o')) \<le>
    card (fst ` set ms - dom (map_of sk)) + length q"
proof -
  let ?new = "dom (map_of (fst (spread ms d o'))) - dom (map_of sk)"
  have sub: "?new \<subseteq> fst ` set ms - dom (map_of sk)"
    unfolding spread_sets by (force simp: assms set_refs_of set_parents_of)
  have "fst ` set ms - dom (map_of (fst (spread ms d o'))) = (fst ` set ms - dom (map_of sk)) - ?new"
    unfolding spread_sets by (auto simp: assms)
  then have "card (fst ` set ms - dom (map_of (fst (spread ms d o')))) = card (fst ` set ms - dom (map_of sk)) - card ?new"
    using sub by (simp add: card_Diff_subset finite_subset)
  moreover have "card ?new \<le> card (fst ` set ms - dom (map_of sk))" using sub by (simp add: card_mono)
  ultimately show ?thesis using spread_sets(3) [of ms d o'] by (simp add: assms)
qed

text \<open>
  The second loop: the queue ends, as a manifest is put in it once.  \<open>orphaned\<close> is set for the
  referrers alone.
\<close>

function plan_drain :: "'x index_ops \<Rightarrow> string \<Rightarrow> (digest, taken) gomap \<Rightarrow> plan \<Rightarrow> ('x, plan) op" where
  "plan_drain ix repo ms pl x =
     (case snd (pl_omitted pl) of
        [] \<Rightarrow> (Inr pl, x)
      | d # q \<Rightarrow>
          (case exists_in ix repo d (pl_present pl) x of
             (Inl e, _, x1) \<Rightarrow> (Inl e, x1)
           | (Inr ok, pr, x1) \<Rightarrow>
               if ok then plan_drain ix repo ms (pl\<lparr>pl_present := pr, pl_omitted := (fst (pl_omitted pl), q)\<rparr>) x1
               else
                 plan_drain ix repo ms
                   (pl\<lparr>pl_present := pr,
                      pl_orphaned := fold (\<lambda>r. AList.update r True) (refs_of ms d) (pl_orphaned pl),
                      pl_omitted := spread ms d (fst (pl_omitted pl), q)\<rparr>) x1))"
  by pat_completeness auto

termination
proof (relation "measure (\<lambda>(ix, repo, ms, pl, x).
    card (fst ` set ms - dom (map_of (fst (pl_omitted pl)))) + length (snd (pl_omitted pl)))", goal_cases)
  case 1
  show ?case by simp
next
  case 2
  then show ?case by simp
next
  case (3 ix repo ms pl x d q)
  with spread_measure [of "(fst (pl_omitted pl), q)" "fst (pl_omitted pl)" q ms d] show ?case by simp
qed

definition planOrphans :: "'x index_ops \<Rightarrow> string \<Rightarrow> (digest, taken) gomap \<Rightarrow> bool \<Rightarrow> ('x, nat \<times> (digest, reason) gomap) op" where
  "planOrphans ix repo ms skip x =
     (case plan_subjects ix repo ms skip (sort (map fst ms)) \<lparr>pl_present = [], pl_orphaned = [], pl_omitted = ([], [])\<rparr> x of
        (Inl e, x1) \<Rightarrow> (Inl e, x1)
      | (Inr pl, x1) \<Rightarrow>
          (case plan_drain ix repo ms pl x1 of
             (Inl e, x2) \<Rightarrow> (Inl e, x2)
           | (Inr pl', x2) \<Rightarrow> (Inr (length (pl_orphaned pl'), fst (pl_omitted pl')), x2)))"

declare plan_drain.simps [simp del]

section \<open>What is left out\<close>

text \<open>The referrers that would have no subject, and whatever would lose a subject or a child with them.\<close>

inductive lost :: "rows \<Rightarrow> string \<Rightarrow> (digest, taken) gomap \<Rightarrow> digest \<Rightarrow> bool" for v repo ms where
  absent: "map_of ms d = Some mf \<Longrightarrow> subject_of mf = Some s \<Longrightarrow> map_of ms s = None \<Longrightarrow> \<not> indexed v repo s \<Longrightarrow> lost v repo ms d"
| refers: "lost v repo ms s \<Longrightarrow> \<not> indexed v repo s \<Longrightarrow> map_of ms d = Some mf \<Longrightarrow> subject_of mf = Some s \<Longrightarrow> lost v repo ms d"
| lists: "lost v repo ms c \<Longrightarrow> \<not> indexed v repo c \<Longrightarrow> map_of ms d = Some mf \<Longrightarrow> c \<in> children_of mf \<Longrightarrow> lost v repo ms d"

text \<open>The referrers whose subject will not be there.\<close>

definition orphan :: "rows \<Rightarrow> string \<Rightarrow> (digest, taken) gomap \<Rightarrow> bool \<Rightarrow> digest \<Rightarrow> bool" where
  "orphan v repo ms skip d =
     (\<exists>mf s. map_of ms d = Some mf \<and> subject_of mf = Some s \<and> \<not> indexed v repo s \<and>
        (map_of ms s = None \<or> skip \<and> lost v repo ms s))"

definition known_ok :: "rows \<Rightarrow> string \<Rightarrow> (digest, bool) gomap \<Rightarrow> bool" where
  "known_ok v repo pr = (\<forall>d b. map_of pr d = Some b \<longrightarrow> b = indexed v repo d)"

lemma known_ok_update: "known_ok v repo pr \<Longrightarrow> known_ok v repo (AList.update d (indexed v repo d) pr)"
  by (auto simp: known_ok_def update_conv')

definition spread_to :: "(digest, taken) gomap \<Rightarrow> digest \<Rightarrow> digest set" where
  "spread_to ms d = set (refs_of ms d) \<union> set (parents_of ms d)"

lemma in_ms: "wf_map ms \<Longrightarrow> (d, mf) \<in> set ms \<longleftrightarrow> map_of ms d = Some mf"
  by (simp add: wf_map_def map_of_eq_Some_iff)

lemma spread_to_lost:
  assumes "wf_map ms" "lost v repo ms d" "\<not> indexed v repo d"
  shows "spread_to ms d \<subseteq> {e. lost v repo ms e}"
  using assms by (auto simp: spread_to_def set_refs_of set_parents_of in_ms intro: lost.refers lost.lists)

context index_laws
begin

lemma exists_in_ok:
  assumes "exists_in ix repo d pr x = (r, pr', x')" "good x" "\<not> intx x" "known_ok (seen x) repo pr"
  shows "good x' \<and> \<not> intx x' \<and> seen x' = seen x \<and> known_ok (seen x) repo pr' \<and> (\<forall>b. r = Inr b \<longrightarrow> b = indexed (seen x) repo d)"
proof (cases "map_of pr d")
  case (Some b)
  with assms show ?thesis by (auto simp: exists_in_def known_ok_def)
next
  case None
  obtain g x1 where g: "ix_get ix repo d x = (g, x1)" by force
  from opD [OF get_law assms(2) g] assms(3)
  have x1: "good x1" "\<not> intx x1" "seen x1 = seen x" "get_spec repo d (seen x) g (seen x1)" by (auto simp: get_spec_def)
  then have "g = Inr m \<Longrightarrow> indexed (seen x) repo d" "g = Inl e \<Longrightarrow> errors_is e ErrNotFound \<Longrightarrow> \<not> indexed (seen x) repo d" for m e
    by (auto simp: get_spec_def indexed_def)
  with assms(1,4) g None x1 known_ok_update [OF assms(4), of d] show ?thesis
    by (auto simp: exists_in_def split: sum.splits if_splits)
qed

lemma plan_subjects_ok:
  assumes "plan_subjects ix repo ms skip ds pl x = (r, x')" "good x" "\<not> intx x" "known_ok (seen x) repo (pl_present pl)"
    and "set (snd (pl_omitted pl)) = dom (map_of (fst (pl_omitted pl)))"
  shows "good x' \<and> \<not> intx x' \<and> seen x' = seen x \<and> (\<forall>pl'. r = Inr pl' \<longrightarrow> known_ok (seen x) repo (pl_present pl') \<and>
    set (snd (pl_omitted pl')) = dom (map_of (fst (pl_omitted pl'))) \<and>
    dom (map_of (fst (pl_omitted pl'))) = dom (map_of (fst (pl_omitted pl))) \<union>
      (if skip then set ds \<inter> Collect (orphan (seen x) repo ms False) else {}) \<and>
    dom (map_of (pl_orphaned pl')) = dom (map_of (pl_orphaned pl)) \<union> set ds \<inter> Collect (orphan (seen x) repo ms False))"
  using assms
proof (induction ds arbitrary: pl x)
  case (Cons d ds)
  show ?case
  proof (cases "Option.bind (map_of ms d) subject_of")
    case None
    then have "\<not> orphan (seen x) repo ms False d" by (auto simp: orphan_def)
    then have eq: "set (d # ds) \<inter> Collect (orphan (seen x) repo ms False) = set ds \<inter> Collect (orphan (seen x) repo ms False)" by auto
    from None Cons.prems(1) have "plan_subjects ix repo ms skip ds pl x = (r, x')" by simp
    from Cons.IH [OF this Cons.prems(2-5)] show ?thesis unfolding eq .
  next
    case (Some s)
    then obtain mf where mf: "map_of ms d = Some mf" "subject_of mf = Some s" by (cases "map_of ms d") auto
    show ?thesis
    proof (cases "map_of ms s")
      case taken: (Some m)
      with mf have "\<not> orphan (seen x) repo ms False d" by (auto simp: orphan_def)
      then have eq: "set (d # ds) \<inter> Collect (orphan (seen x) repo ms False) = set ds \<inter> Collect (orphan (seen x) repo ms False)" by auto
      from Some taken Cons.prems(1) have "plan_subjects ix repo ms skip ds pl x = (r, x')" by simp
      from Cons.IH [OF this Cons.prems(2-5)] show ?thesis unfolding eq .
    next
      case None
      with mf have o: "orphan (seen x) repo ms False d \<longleftrightarrow> \<not> indexed (seen x) repo s" by (auto simp: orphan_def)
      obtain q pr x1 where e: "exists_in ix repo s (pl_present pl) x = (q, pr, x1)" by (metis surj_pair)
      note x1 = exists_in_ok [OF e Cons.prems(2,3,4)]
      show ?thesis
      proof (cases q)
        case (Inl er)
        with Cons.prems(1) Some None e x1 show ?thesis by auto
      next
        case (Inr ok)
        with x1 have ok: "ok = indexed (seen x) repo s" by simp
        let ?pl = "if ok then pl\<lparr>pl_present := pr\<rparr>
          else pl\<lparr>pl_present := pr, pl_orphaned := AList.update d True (pl_orphaned pl),
            pl_omitted := (if skip then omit d (SubjectAbsent s) (pl_omitted pl) else pl_omitted pl)\<rparr>"
        have "plan_subjects ix repo ms skip ds ?pl x1 = (r, x')"
          using Cons.prems(1) Some None e Inr by (auto simp: Let_def split: if_splits)
        moreover have "set (snd (pl_omitted ?pl)) = dom (map_of (fst (pl_omitted ?pl)))"
          using Cons.prems(5) by (auto simp: omit_def update_conv')
        moreover have "known_ok (seen x1) repo (pl_present ?pl)" using x1 by simp
        ultimately have ih: "good x' \<and> \<not> intx x' \<and> seen x' = seen x1 \<and> (\<forall>pl'. r = Inr pl' \<longrightarrow> known_ok (seen x1) repo (pl_present pl') \<and>
          set (snd (pl_omitted pl')) = dom (map_of (fst (pl_omitted pl'))) \<and>
          dom (map_of (fst (pl_omitted pl'))) = dom (map_of (fst (pl_omitted ?pl))) \<union>
            (if skip then set ds \<inter> Collect (orphan (seen x1) repo ms False) else {}) \<and>
          dom (map_of (pl_orphaned pl')) = dom (map_of (pl_orphaned ?pl)) \<union> set ds \<inter> Collect (orphan (seen x1) repo ms False))"
          using Cons.IH [of ?pl x1] x1 by blast
        have "dom (map_of (fst (pl_omitted ?pl))) = dom (map_of (fst (pl_omitted pl))) \<union> (if skip \<and> \<not> ok then {d} else {})"
          "dom (map_of (pl_orphaned ?pl)) = dom (map_of (pl_orphaned pl)) \<union> (if \<not> ok then {d} else {})"
          by (auto simp: omit_def update_conv')
        moreover have "set (d # ds) \<inter> Collect (orphan (seen x) repo ms False) =
            (if \<not> ok then {d} else {}) \<union> set ds \<inter> Collect (orphan (seen x) repo ms False)" using o ok by auto
        ultimately show ?thesis using ih x1 by (simp add: Un_assoc)
      qed
    qed
  qed
qed auto

lemma plan_drain_ok:
  assumes "wf_map ms" "good x" "\<not> intx x" "known_ok (seen x) repo (pl_present pl)"
    and "set (snd (pl_omitted pl)) \<subseteq> dom (map_of (fst (pl_omitted pl)))" "dom (map_of (fst (pl_omitted pl))) \<subseteq> {d. lost (seen x) repo ms d}"
    and "\<forall>d \<in> dom (map_of (fst (pl_omitted pl))) - set (snd (pl_omitted pl)). \<not> indexed (seen x) repo d \<longrightarrow>
      spread_to ms d \<subseteq> dom (map_of (fst (pl_omitted pl))) \<and> set (refs_of ms d) \<subseteq> dom (map_of (pl_orphaned pl))"
    and "plan_drain ix repo ms pl x = (r, x')"
  shows "good x' \<and> \<not> intx x' \<and> seen x' = seen x \<and> (\<forall>pl'. r = Inr pl' \<longrightarrow>
    dom (map_of (fst (pl_omitted pl))) \<subseteq> dom (map_of (fst (pl_omitted pl'))) \<and>
    dom (map_of (fst (pl_omitted pl'))) \<subseteq> {d. lost (seen x) repo ms d} \<and>
    (\<forall>d \<in> dom (map_of (fst (pl_omitted pl'))). \<not> indexed (seen x) repo d \<longrightarrow>
      spread_to ms d \<subseteq> dom (map_of (fst (pl_omitted pl'))) \<and> set (refs_of ms d) \<subseteq> dom (map_of (pl_orphaned pl'))))"
  using assms
proof (induction "card (fst ` set ms - dom (map_of (fst (pl_omitted pl)))) + length (snd (pl_omitted pl))"
    arbitrary: pl x rule: less_induct)
  case less
  note dr = less.prems(8)
  show ?case
  proof (cases "snd (pl_omitted pl)")
    case Nil
    with dr have "r = Inr pl" "x' = x" by (simp_all add: plan_drain.simps)
    with less.prems Nil show ?thesis by simp
  next
    case (Cons d q)
    obtain ro pr x1 where e: "exists_in ix repo d (pl_present pl) x = (ro, pr, x1)" by (metis surj_pair)
    note x1 = exists_in_ok [OF e less.prems(2-4)]
    have d: "d \<in> dom (map_of (fst (pl_omitted pl)))" "lost (seen x) repo ms d" using less.prems(5,6) Cons by auto
    show ?thesis
    proof (cases ro)
      case (Inl er)
      with dr e Cons x1 show ?thesis by (auto simp: plan_drain.simps)
    next
      case (Inr ok)
      with x1 have ok: "ok = indexed (seen x) repo d" by simp
      show ?thesis
      proof (cases ok)
        case True
        let ?pl = "pl\<lparr>pl_present := pr, pl_omitted := (fst (pl_omitted pl), q)\<rparr>"
        have go: "plan_drain ix repo ms ?pl x1 = (r, x')" using dr e Cons Inr True by (simp add: plan_drain.simps [of ix repo ms pl])
        have "\<forall>e \<in> dom (map_of (fst (pl_omitted ?pl))) - set (snd (pl_omitted ?pl)). \<not> indexed (seen x1) repo e \<longrightarrow>
          spread_to ms e \<subseteq> dom (map_of (fst (pl_omitted ?pl))) \<and> set (refs_of ms e) \<subseteq> dom (map_of (pl_orphaned ?pl))"
          using less.prems(7) Cons ok True x1 by auto
        moreover have "set (snd (pl_omitted ?pl)) \<subseteq> dom (map_of (fst (pl_omitted ?pl)))" using less.prems(5) Cons by simp
        moreover have "dom (map_of (fst (pl_omitted ?pl))) \<subseteq> {d. lost (seen x1) repo ms d}" using less.prems(6) x1 by simp
        moreover have "card (fst ` set ms - dom (map_of (fst (pl_omitted ?pl)))) + length (snd (pl_omitted ?pl)) <
            card (fst ` set ms - dom (map_of (fst (pl_omitted pl)))) + length (snd (pl_omitted pl))" using Cons by simp
        ultimately have "good x' \<and> \<not> intx x' \<and> seen x' = seen x1 \<and> (\<forall>pl'. r = Inr pl' \<longrightarrow>
            dom (map_of (fst (pl_omitted ?pl))) \<subseteq> dom (map_of (fst (pl_omitted pl'))) \<and>
            dom (map_of (fst (pl_omitted pl'))) \<subseteq> {d. lost (seen x1) repo ms d} \<and>
            (\<forall>d \<in> dom (map_of (fst (pl_omitted pl'))). \<not> indexed (seen x1) repo d \<longrightarrow>
              spread_to ms d \<subseteq> dom (map_of (fst (pl_omitted pl'))) \<and> set (refs_of ms d) \<subseteq> dom (map_of (pl_orphaned pl'))))"
          using less.hyps [OF _ less.prems(1) _ _ _ _ _ _ go] x1 by simp
        then show ?thesis using x1 by simp
      next
        case False
        let ?o = "spread ms d (fst (pl_omitted pl), q)"
        let ?pl = "pl\<lparr>pl_present := pr, pl_orphaned := fold (\<lambda>r. AList.update r True) (refs_of ms d) (pl_orphaned pl), pl_omitted := ?o\<rparr>"
        have go: "plan_drain ix repo ms ?pl x1 = (r, x')" using dr e Cons Inr False by (simp add: plan_drain.simps [of ix repo ms pl])
        have s: "dom (map_of (fst ?o)) = dom (map_of (fst (pl_omitted pl))) \<union> spread_to ms d"
          "set (snd ?o) = set q \<union> (spread_to ms d - dom (map_of (fst (pl_omitted pl))))"
          using spread_sets [of ms d "(fst (pl_omitted pl), q)"] by (auto simp: spread_to_def)
        have or: "dom (map_of (pl_orphaned ?pl)) = set (refs_of ms d) \<union> dom (map_of (pl_orphaned pl))"
          by (simp add: dom_fold_update [where k = "\<lambda>r. r" and v = "\<lambda>_. True", simplified])
        have inv: "\<forall>e \<in> dom (map_of (fst (pl_omitted ?pl))) - set (snd (pl_omitted ?pl)). \<not> indexed (seen x1) repo e \<longrightarrow>
          spread_to ms e \<subseteq> dom (map_of (fst (pl_omitted ?pl))) \<and> set (refs_of ms e) \<subseteq> dom (map_of (pl_orphaned ?pl))"
        proof (intro ballI impI)
          fix e assume e': "e \<in> dom (map_of (fst (pl_omitted ?pl))) - set (snd (pl_omitted ?pl))" "\<not> indexed (seen x1) repo e"
          then have "e = d \<or> e \<in> dom (map_of (fst (pl_omitted pl))) - set (snd (pl_omitted pl))" using s Cons by auto
          then show "spread_to ms e \<subseteq> dom (map_of (fst (pl_omitted ?pl))) \<and> set (refs_of ms e) \<subseteq> dom (map_of (pl_orphaned ?pl))"
          proof
            assume "e = d"
            then show ?thesis unfolding or using s by (auto simp: spread_to_def)
          next
            assume "e \<in> dom (map_of (fst (pl_omitted pl))) - set (snd (pl_omitted pl))"
            with less.prems(7) e'(2) x1 show ?thesis unfolding or using s by auto
          qed
        qed
        have "dom (map_of (fst ?o)) \<subseteq> {d. lost (seen x1) repo ms d}"
          using s less.prems(6) spread_to_lost [OF less.prems(1) d(2)] ok False x1 by auto
        moreover have "set (snd ?o) \<subseteq> dom (map_of (fst ?o))" using s less.prems(5) Cons by auto
        moreover have "card (fst ` set ms - dom (map_of (fst ?o))) + length (snd ?o) <
            card (fst ` set ms - dom (map_of (fst (pl_omitted pl)))) + length (snd (pl_omitted pl))"
          using spread_measure [of "(fst (pl_omitted pl), q)" "fst (pl_omitted pl)" q ms d] Cons by simp
        ultimately have "good x' \<and> \<not> intx x' \<and> seen x' = seen x1 \<and> (\<forall>pl'. r = Inr pl' \<longrightarrow>
            dom (map_of (fst (pl_omitted ?pl))) \<subseteq> dom (map_of (fst (pl_omitted pl'))) \<and>
            dom (map_of (fst (pl_omitted pl'))) \<subseteq> {d. lost (seen x1) repo ms d} \<and>
            (\<forall>d \<in> dom (map_of (fst (pl_omitted pl'))). \<not> indexed (seen x1) repo d \<longrightarrow>
              spread_to ms d \<subseteq> dom (map_of (fst (pl_omitted pl'))) \<and> set (refs_of ms d) \<subseteq> dom (map_of (pl_orphaned pl'))))"
          using less.hyps [OF _ less.prems(1) _ _ _ _ _ inv go] x1 by simp
        then show ?thesis using x1 s by auto
      qed
    qed
  qed
qed

lemma planOrphans_ok:
  assumes "wf_map ms" "good x" "\<not> intx x" "planOrphans ix repo ms skip x = (r, x')"
  shows "good x' \<and> \<not> intx x' \<and> seen x' = seen x \<and>
    (\<forall>n sk. r = Inr (n, sk) \<longrightarrow> dom (map_of sk) = (if skip then {d. lost (seen x) repo ms d} else {}))"
proof -
  let ?pl0 = "\<lparr>pl_present = [], pl_orphaned = [], pl_omitted = ([], [])\<rparr>"
  let ?v = "seen x"
  obtain r1 x1 where s: "plan_subjects ix repo ms skip (sort (map fst ms)) ?pl0 x = (r1, x1)" by force
  have "known_ok ?v repo (pl_present ?pl0)" "set (snd (pl_omitted ?pl0)) = dom (map_of (fst (pl_omitted ?pl0)))"
    by (simp_all add: known_ok_def)
  note x1 = plan_subjects_ok [OF s assms(2,3) this]
  show ?thesis
  proof (cases r1)
    case (Inl e)
    with assms(4) s x1 show ?thesis by (auto simp: planOrphans_def)
  next
    case (Inr pl)
    let ?dom = "\<lambda>pl. dom (map_of (fst (pl_omitted pl)))"
    have keys: "orphan ?v repo ms False d \<Longrightarrow> d \<in> set (map fst ms)" for d
      by (auto simp: orphan_def dest!: map_of_SomeD intro: rev_image_eqI)
    with x1 Inr have base: "?dom pl = (if skip then Collect (orphan ?v repo ms False) else {})" by auto
    have sub: "Collect (orphan ?v repo ms False) \<subseteq> {d. lost ?v repo ms d}" by (auto simp: orphan_def intro: lost.absent)
    obtain r2 x2 where d: "plan_drain ix repo ms pl x1 = (r2, x2)" by force
    have "set (snd (pl_omitted pl)) \<subseteq> ?dom pl" "?dom pl \<subseteq> {d. lost (seen x1) repo ms d}"
      "\<forall>d \<in> ?dom pl - set (snd (pl_omitted pl)). \<not> indexed (seen x1) repo d \<longrightarrow>
        spread_to ms d \<subseteq> ?dom pl \<and> set (refs_of ms d) \<subseteq> dom (map_of (pl_orphaned pl))"
      using x1 Inr base sub by auto
    from plan_drain_ok [OF assms(1) _ _ _ this d] x1 Inr
    have x2: "good x2 \<and> \<not> intx x2 \<and> seen x2 = ?v \<and> (\<forall>pl'. r2 = Inr pl' \<longrightarrow> ?dom pl \<subseteq> ?dom pl' \<and>
        ?dom pl' \<subseteq> {d. lost ?v repo ms d} \<and> (\<forall>d \<in> ?dom pl'. \<not> indexed ?v repo d \<longrightarrow> spread_to ms d \<subseteq> ?dom pl'))" by auto
    have "?dom pl' = (if skip then {d. lost ?v repo ms d} else {})" if pl': "r2 = Inr pl'" for pl'
    proof (cases skip)
      case False
      with x1 Inr base have "snd (pl_omitted pl) = []" by simp
      with d pl' have "pl' = pl" by (simp add: plan_drain.simps)
      with False base show ?thesis by simp
    next
      case True
      have "lost ?v repo ms e \<Longrightarrow> e \<in> ?dom pl'" for e
      proof (induction rule: lost.induct)
        case (absent d mf s)
        then have "orphan ?v repo ms False d" by (auto simp: orphan_def)
        with base True x2 pl' show ?case by auto
      next
        case (refers s d mf)
        then have "d \<in> spread_to ms s" by (auto simp: spread_to_def set_refs_of in_ms [OF assms(1)])
        with refers x2 pl' show ?case by auto
      next
        case (lists c d mf)
        then have "d \<in> spread_to ms c" by (auto simp: spread_to_def set_parents_of in_ms [OF assms(1)])
        with lists x2 pl' show ?case by auto
      qed
      with x2 pl' True show ?thesis by auto
    qed
    with assms(4) s d Inr x2 show ?thesis by (auto simp: planOrphans_def split: sum.splits)
  qed
qed

end

text \<open>What is kept is whole: a subject or a child is kept with it, or is in the index, or, for a subject, was never lost.\<close>

lemma kept_whole:
  assumes "map_of ms d = Some mf" "\<not> lost v repo ms d"
  shows "\<forall>s. subject_of mf = Some s \<longrightarrow> indexed v repo s \<or> (map_of ms s \<noteq> None \<and> \<not> lost v repo ms s)"
    and "\<forall>c \<in> children_of mf. indexed v repo c \<or> \<not> lost v repo ms c"
  using assms by (auto intro: lost.intros)

end
