(* ===== verification/Importer.thy ===== *)
theory Importer
  imports Import_Orphans
begin

text \<open>
  Taking image layouts into a registry (\<open>importer/importer.go\<close>): what is reached is planned first,
  then the blobs are taken in, then one transaction writes the manifests and the tags.  Shown: what
  an import indexes has its bytes, its blobs and its children, and an import that fails leaves the
  index as it was.
\<close>

section \<open>Options and reports\<close>

record options =
  io_Repo :: string
  io_Only :: "string list"
  io_Exclude :: "string list"
  io_Refuse :: "string \<Rightarrow> string"
  io_Verify :: bool
  io_Copy :: bool
  io_SkipOrphaned :: bool
  io_MaxManifestSize :: int

record repo_report =
  ir_Repo :: string
  ir_Manifests :: nat
  ir_Tags :: nat
  ir_Orphaned :: nat
  ir_Skipped :: "(digest, reason) gomap"
  ir_Linked :: nat
  ir_Copied :: nat
  ir_Present :: nat
  ir_Bytes :: int
  ir_Missing :: "(digest, reason) gomap"
  ir_BadTags :: "string list"

text \<open>
  \<open>osStore\<close> is whether a repository's store is a filesystem one, through what wraps it, and
  \<open>Adopt\<close> takes a file into it: its bytes, when it was written and whether they are hashed first.
  Both are flob's.
\<close>

record 'f adopter =
  ad_os :: "string \<Rightarrow> bool"
  ad_adopt :: "string \<Rightarrow> digest \<Rightarrow> string \<Rightarrow> time \<Rightarrow> bool \<Rightarrow> ('f, unit) op"

text \<open>\<open>encoding/json\<close>, for the two files of a layout: the manifests listed, and the version.\<close>

record layout_decoders =
  ld_index :: "string \<Rightarrow> descriptor list option"
  ld_layout :: "string \<Rightarrow> string option"

definition EXDEV :: error where
  "EXDEV = Other ''invalid cross-device link''"

definition ErrPermission :: error where
  "ErrPermission = Other ''permission denied''"

definition errCannotLink :: error where
  "errCannotLink = Other ''cannot link''"

section \<open>Reading a layout\<close>

definition readJSON :: "node \<Rightarrow> string \<Rightarrow> int \<Rightarrow> (string \<Rightarrow> 'a option) \<Rightarrow> error + 'a" where
  "readJSON dir name maxb dec =
     (case at_path dir [name] of
        Some (File bytes at) \<Rightarrow>
          (let b = take (nat (maxb + 1)) bytes in
           if int (length b) > maxb then Inl (Other (name @ '': more bytes than it may have''))
           else (case dec b of None \<Rightarrow> Inl (Wrapped (name @ '': '') (Other ''not JSON'')) | Some v \<Rightarrow> Inr v))
      | _ \<Rightarrow> Inl (Other ''open''))"

definition checkLayoutVersion :: "layout_decoders \<Rightarrow> node \<Rightarrow> error option" where
  "checkLayoutVersion L dir =
     (case readJSON dir ''oci-layout'' (push_bit 10 1) (ld_layout L) of
        Inl e \<Rightarrow> Some e
      | Inr v \<Rightarrow> if v \<noteq> ''1.0.0'' then Some (Other ''oci-layout: imageLayoutVersion'') else None)"

record tops_listed =
  li_visited :: visited
  li_Missing :: "(digest, reason) gomap"
  li_BadTags :: "string list"
  li_tags :: "(string \<times> digest) list"

text \<open>The loop over what \<open>index.json\<close> lists.\<close>

fun list_tops :: "digest_ops \<Rightarrow> (string \<Rightarrow> bool) \<Rightarrow> decoders \<Rightarrow> node \<Rightarrow> int \<Rightarrow> nat \<Rightarrow> descriptor list \<Rightarrow> tops_listed \<Rightarrow> tops_listed option" where
  "list_tops D avail J dir maxm n [] l = Some l"
| "list_tops D avail J dir maxm n (d # ds) l =
     (if \<not> IsManifestMediaType (d_mediaType d) then list_tops D avail J dir maxm n ds l
      else
        (case visit D avail J dir maxm n d (li_visited l) of
           None \<Rightarrow> None
         | Some (Some why, s) \<Rightarrow>
             list_tops D avail J dir maxm n ds (l\<lparr>li_visited := s, li_Missing := AList.update (d_digest d) why (li_Missing l)\<rparr>)
         | Some (None, s) \<Rightarrow>
             (let l1 = l\<lparr>li_visited := s\<rparr> in
              case map_of (d_annotations d) AnnotationRefName of
                None \<Rightarrow> list_tops D avail J dir maxm n ds l1
              | Some name \<Rightarrow>
                  (case tagOf name of
                     None \<Rightarrow> list_tops D avail J dir maxm n ds (l1\<lparr>li_BadTags := li_BadTags l1 @ [name]\<rparr>)
                   | Some t \<Rightarrow> list_tops D avail J dir maxm n ds (l1\<lparr>li_tags := li_tags l1 @ [(t, d_digest d)]\<rparr>)))))"

section \<open>Taking blobs in\<close>

definition copy_in :: "'f store_ops \<Rightarrow> string \<Rightarrow> digest \<Rightarrow> int \<Rightarrow> string \<Rightarrow> (('x, 'f) world, string) op" where
  "copy_in fl repo d n b w =
     (case on_fl (fl_add fl repo d n b) w of
        (Inr _, w1) \<Rightarrow> (Inr ''copied'', w1)
      | (Inl e, w1) \<Rightarrow> (if errors_is e (Flob AlreadyExists) then Inr ''present'' else Inl e, w1))"

definition take_in :: "digest_ops \<Rightarrow> 'f store_ops \<Rightarrow> 'f adopter \<Rightarrow> options \<Rightarrow> node \<Rightarrow> string \<Rightarrow> digest \<Rightarrow> int \<Rightarrow>
    (('x, 'f) world, string) op" where
  "take_in D fl ad o' dir repo d n w =
     (case regular dir (blobPath_of D d) of
        None \<Rightarrow>
          (if \<not> ad_os ad repo \<and> \<not> io_Copy o' then Inl (Wrapped ''the repository's store is not a filesystem one: '' errCannotLink)
           else Inl (Other ''open''), w)
      | Some (b, at) \<Rightarrow>
          if ad_os ad repo then
            (case on_fl (ad_adopt ad repo d b at (io_Verify o')) w of
               (Inr _, w1) \<Rightarrow> (Inr ''linked'', w1)
             | (Inl e, w1) \<Rightarrow>
                 if errors_is e (Flob AlreadyExists) then (Inr ''present'', w1)
                 else if errors_is e EXDEV \<or> errors_is e ErrPermission then
                   (if \<not> io_Copy o' then (Inl (Joined [errCannotLink, e]), w1) else copy_in fl repo d n b w1)
                 else (Inl e, w1))
          else if \<not> io_Copy o' then (Inl (Wrapped ''the repository's store is not a filesystem one: '' errCannotLink), w)
          else copy_in fl repo d n b w)"

type_synonym ('x, 'f) importing = "(repo_report, 'x, 'f) reporting"

definition count_taken :: "string \<Rightarrow> int \<Rightarrow> repo_report \<Rightarrow> repo_report" where
  "count_taken how n rr =
     (if how = ''linked'' then rr\<lparr>ir_Linked := Suc (ir_Linked rr), ir_Bytes := ir_Bytes rr + n\<rparr>
      else if how = ''copied'' then rr\<lparr>ir_Copied := Suc (ir_Copied rr), ir_Bytes := ir_Bytes rr + n\<rparr>
      else if how = ''present'' then rr\<lparr>ir_Present := Suc (ir_Present rr)\<rparr> else rr)"

fun take_each :: "digest_ops \<Rightarrow> 'f store_ops \<Rightarrow> 'f adopter \<Rightarrow> options \<Rightarrow> node \<Rightarrow> string \<Rightarrow> (digest \<times> int) list \<Rightarrow>
    (('x, 'f) importing, unit) op" where
  "take_each D fl ad o' dir repo [] s = (Inr (), s)"
| "take_each D fl ad o' dir repo ((d, n) # ds) s =
     (case ctx_err (rb_w s) of
        (Some e, w) \<Rightarrow> (Inl e, s\<lparr>rb_w := w\<rparr>)
      | (None, w) \<Rightarrow>
          (case on_w (take_in D fl ad o' dir repo d n) (s\<lparr>rb_w := w\<rparr>) of
             (Inl e, s1) \<Rightarrow> (Inl (Wrapped (d @ '': '') e), s1)
           | (Inr how, s1) \<Rightarrow> take_each D fl ad o' dir repo ds (s1\<lparr>rb_r := count_taken how n (rb_r s1)\<rparr>)))"

section \<open>Writing the index\<close>

text \<open>A kept index may rely on a child that was left out and is in the index already: asked again under the lock.\<close>

fun check_skipped :: "'x index_ops \<Rightarrow> string \<Rightarrow> (digest, reason) gomap \<Rightarrow> digest \<Rightarrow> digest list \<Rightarrow> ('x, unit) op" where
  "check_skipped ix repo sk d [] x = (Inr (), x)"
| "check_skipped ix repo sk d (c # cs) x =
     (if map_of sk c = None then check_skipped ix repo sk d cs x
      else
        (case ix_get ix repo c x of
           (Inl e, x1) \<Rightarrow> (Inl (Wrapped (d @ '': skipped child '' @ c @ '' is no longer available; retry the import: '') e), x1)
         | (Inr _, x1) \<Rightarrow> check_skipped ix repo sk d cs x1))"

fun check_children :: "'x index_ops \<Rightarrow> string \<Rightarrow> (digest, reason) gomap \<Rightarrow> (digest \<times> taken) list \<Rightarrow> ('x, unit) op" where
  "check_children ix repo sk [] x = (Inr (), x)"
| "check_children ix repo sk (m # ms) x =
     (case check_skipped ix repo sk (fst m) (map d_digest (slice (mf_manifests (ta_m (snd m))))) x of
        (Inl e, x1) \<Rightarrow> (Inl e, x1)
      | (Inr _, x1) \<Rightarrow> check_children ix repo sk ms x1)"

definition import_record :: "digest \<Rightarrow> taken \<Rightarrow> imanifest" where
  "import_record d mf =
     \<lparr>im_Digest = d, im_MediaType = mf_mediaType (ta_m mf), im_ArtifactType = mf_artifactType (ta_m mf),
      im_Subject = (case subject_of mf of None \<Rightarrow> '''' | Some s \<Rightarrow> s), im_Size = d_size (ta_desc mf),
      im_Annotations = mf_annotations (ta_m mf), im_CreatedAt = ta_added mf, im_PulledAt = 0\<rparr>"

fun put_manifests :: "'x index_ops \<Rightarrow> string \<Rightarrow> (digest \<times> taken) list \<Rightarrow> (('x, 'f) importing, unit) op" where
  "put_manifests ix repo [] s = (Inr (), s)"
| "put_manifests ix repo (m # ms) s =
     (case on_w (on_ix (ix_get ix repo (fst m))) s of
        (Inr _, s1) \<Rightarrow> put_manifests ix repo ms s1
      | (Inl e, s1) \<Rightarrow>
          if \<not> errors_is e ErrNotFound then (Inl e, s1)
          else
            (case on_w (on_ix (ix_put ix repo (import_record (fst m) (snd m)) (Holds (ta_m (snd m))))) s1 of
               (Inl e', s2) \<Rightarrow> (Inl e', s2)
             | (Inr _, s2) \<Rightarrow> put_manifests ix repo ms (s2\<lparr>rb_r := (rb_r s2)\<lparr>ir_Manifests := Suc (ir_Manifests (rb_r s2))\<rparr>\<rparr>)))"

fun put_tags :: "'x index_ops \<Rightarrow> string \<Rightarrow> (string \<times> digest) list \<Rightarrow> (('x, 'f) importing, unit) op" where
  "put_tags ix repo [] s = (Inr (), s)"
| "put_tags ix repo ((t, d) # ts) s =
     (case on_w (on_ix (ix_tag_get ix repo t)) s of
        (r, s1) \<Rightarrow>
          (case (case r of Inr cur \<Rightarrow> Inr (tg_Digest cur) | Inl e \<Rightarrow> if errors_is e ErrNotFound then Inr '''' else Inl e) of
             Inl e \<Rightarrow> (Inl e, s1)
           | Inr from \<Rightarrow>
               if from = d then put_tags ix repo ts s1
               else
                 (case on_w (on_ix (ix_tag_set ix repo t d from)) s1 of
                    (Inl e, s2) \<Rightarrow> (Inl (Wrapped (''tag '' @ t @ '': '') e), s2)
                  | (Inr _, s2) \<Rightarrow> put_tags ix repo ts (s2\<lparr>rb_r := (rb_r s2)\<lparr>ir_Tags := Suc (ir_Tags (rb_r s2))\<rparr>\<rparr>))))"

definition import_body :: "'x index_ops \<Rightarrow> string \<Rightarrow> (digest, reason) gomap \<Rightarrow> (digest \<times> taken) list \<Rightarrow> (string \<times> digest) list \<Rightarrow>
    (('x, 'f) importing, unit) op" where
  "import_body ix repo sk ms ts s =
     (case on_w (on_ix (check_children ix repo sk ms)) s of
        (Inl e, s1) \<Rightarrow> (Inl e, s1)
      | (Inr _, s1) \<Rightarrow>
          (case on_w (on_ix (ix_repo_ensure ix repo)) s1 of
             (Inl e, s2) \<Rightarrow> (Inl e, s2)
           | (Inr _, s2) \<Rightarrow>
               (case put_manifests ix repo ms s2 of
                  (Inl e, s3) \<Rightarrow> (Inl e, s3)
                | (Inr _, s3) \<Rightarrow> put_tags ix repo ts s3)))"

section \<open>One repository\<close>

text \<open>What is left of the order, the tags and the blobs when something was left out.\<close>

definition kept_blobs :: "(digest, taken) gomap \<Rightarrow> digest list \<Rightarrow> (digest, int) gomap" where
  "kept_blobs ms ds = fold (\<lambda>d bs. case map_of ms d of None \<Rightarrow> bs | Some mf \<Rightarrow> add_blobs d mf bs) ds []"

definition import_planned :: "digest_ops \<Rightarrow> 'x index_ops \<Rightarrow> 'f store_ops \<Rightarrow> 'f adopter \<Rightarrow> options \<Rightarrow> layout \<Rightarrow> tops_listed \<Rightarrow> nat \<Rightarrow>
    (digest, reason) gomap \<Rightarrow> (('x, 'f) importing, unit) op" where
  "import_planned D ix fl ad o' l li n sk s =
     (let repo = snd l;
          ms = vi_manifests (li_visited li);
          order = filter (\<lambda>d. map_of sk d = None) (vi_order (li_visited li));
          ts = filter (\<lambda>t. map_of sk (snd t) = None) (li_tags li);
          blobs = (if sk = [] then vi_blobs (li_visited li) else kept_blobs ms order);
          s1 = s\<lparr>rb_r := (rb_r s)\<lparr>ir_Orphaned := n, ir_Skipped := sk\<rparr>\<rparr>
      in case take_each D fl ad o' (fst l) repo (map (\<lambda>d. (d, the (map_of blobs d))) (sort (remdups (map fst blobs)))) s1 of
           (Inl e, s2) \<Rightarrow> (Inl e, s2)
         | (Inr _, s2) \<Rightarrow>
             report_tx ix repo (import_body ix repo sk (map (\<lambda>d. (d, the (map_of ms d))) order) ts) s2)"

definition importRepo :: "digest_ops \<Rightarrow> (string \<Rightarrow> bool) \<Rightarrow> decoders \<Rightarrow> layout_decoders \<Rightarrow> 'x index_ops \<Rightarrow> 'f store_ops \<Rightarrow> 'f adopter \<Rightarrow>
    options \<Rightarrow> nat \<Rightarrow> layout \<Rightarrow> ('x, 'f) world \<Rightarrow> ((error + unit) \<times> ('x, 'f) importing) option" where
  "importRepo D avail J L ix fl ad o' n l w =
     (let rr = \<lparr>ir_Repo = snd l, ir_Manifests = 0, ir_Tags = 0, ir_Orphaned = 0, ir_Skipped = [], ir_Linked = 0, ir_Copied = 0,
            ir_Present = 0, ir_Bytes = 0, ir_Missing = [], ir_BadTags = []\<rparr>;
          s = \<lparr>rb_r = rr, rb_w = w\<rparr>
      in case checkLayoutVersion L (fst l) of
           Some e \<Rightarrow> Some (Inl e, s)
         | None \<Rightarrow>
             (case readJSON (fst l) ''index.json'' (push_bit 20 4) (ld_index L) of
                Inl e \<Rightarrow> Some (Inl e, s)
              | Inr tops \<Rightarrow>
                  (case list_tops D avail J (fst l) (io_MaxManifestSize o') n tops
                      \<lparr>li_visited = \<lparr>vi_manifests = [], vi_order = [], vi_blobs = [], vi_broken = []\<rparr>, li_Missing = [], li_BadTags = [], li_tags = []\<rparr> of
                     None \<Rightarrow> None
                   | Some li \<Rightarrow>
                       (let s1 = s\<lparr>rb_r := rr\<lparr>ir_Missing := li_Missing li, ir_BadTags := li_BadTags li\<rparr>\<rparr> in
                        case on_w (on_ix (planOrphans ix (snd l) (vi_manifests (li_visited li)) (io_SkipOrphaned o'))) s1 of
                          (Inl e, s2) \<Rightarrow> Some (Inl e, s2)
                        | (Inr (k, sk), s2) \<Rightarrow> Some (import_planned D ix fl ad o' l li k sk s2)))))"

section \<open>Every layout\<close>

definition skip_repo :: "options \<Rightarrow> string \<Rightarrow> string" where
  "skip_repo o' repo =
     (if \<not> ValidName repo then ''not a repository name''
      else if io_Only o' \<noteq> [] \<and> repo \<notin> set (io_Only o') then ''not asked for''
      else (case find (\<lambda>p. Covers p repo) (io_Exclude o') of Some p \<Rightarrow> ''excluded by '' @ p | None \<Rightarrow> io_Refuse o' repo))"

record import_report =
  ip_Repositories :: "repo_report list"
  ip_Skipped :: "(string, string) gomap"

text \<open>A blob that cannot be linked stops the import; any other error does not stop the other repositories.\<close>

fun import_each :: "(layout \<Rightarrow> ('x, 'f) world \<Rightarrow> ((error + unit) \<times> ('x, 'f) importing) option) \<Rightarrow> options \<Rightarrow> layout list \<Rightarrow> import_report \<Rightarrow>
    error list \<Rightarrow> ('x, 'f) world \<Rightarrow> (error option \<times> import_report \<times> ('x, 'f) world) option" where
  "import_each one o' [] r errs w = Some (join_errors errs, r, w)"
| "import_each one o' (l # ls) r errs w =
     (let why = skip_repo o' (snd l) in
      if why \<noteq> '''' then import_each one o' ls (r\<lparr>ip_Skipped := AList.update (snd l) why (ip_Skipped r)\<rparr>) errs w
      else
        (case one l w of
           None \<Rightarrow> None
         | Some (res, s) \<Rightarrow>
             (let r1 = r\<lparr>ip_Repositories := ip_Repositories r @ [rb_r s]\<rparr> in
              case res of
                Inr _ \<Rightarrow> import_each one o' ls r1 errs (rb_w s)
              | Inl e \<Rightarrow>
                  (let e1 = Wrapped (snd l @ '': '') e in
                   if errors_is e1 errCannotLink then Some (join_errors (errs @ [e1]), r1, rb_w s)
                   else import_each one o' ls r1 (errs @ [e1]) (rb_w s)))))"

definition Import :: "digest_ops \<Rightarrow> (string \<Rightarrow> bool) \<Rightarrow> decoders \<Rightarrow> layout_decoders \<Rightarrow> 'x index_ops \<Rightarrow> 'f store_ops \<Rightarrow> 'f adopter \<Rightarrow>
    options \<Rightarrow> nat \<Rightarrow> node \<Rightarrow> ('x, 'f) world \<Rightarrow> (error option \<times> import_report \<times> ('x, 'f) world) option" where
  "Import D avail J L ix fl ad o' n src w =
     (let o1 = (if io_MaxManifestSize o' \<le> 0 then o'\<lparr>io_MaxManifestSize := push_bit 20 4\<rparr> else o');
          r = \<lparr>ip_Repositories = [], ip_Skipped = []\<rparr>
      in case find_layouts src (io_Repo o1) of
           Inl e \<Rightarrow> Some (Some e, r, w)
         | Inr ls \<Rightarrow> import_each (importRepo D avail J L ix fl ad o1 n) o1 ls r [] w)"

section \<open>What is relied on\<close>

text \<open>\<open>Adopt\<close> and \<open>Add\<close> take nothing away, and what they took in, or say is there, is there.\<close>

definition takes_ok :: "'f store_ops \<Rightarrow> 'f adopter \<Rightarrow> ('f \<Rightarrow> string \<Rightarrow> digest \<Rightarrow> string option) \<Rightarrow> bool" where
  "takes_ok fl ad has =
     (add_ok fl has \<and>
      (\<forall>repo d b at v f r f'. ad_adopt ad repo d b at v f = (r, f') \<longrightarrow> grows has f f' \<and>
         (is_ok r \<or> (\<exists>e. r = Inl e \<and> errors_is e (Flob AlreadyExists)) \<longrightarrow> has f' repo d \<noteq> None)))"

lemma copy_in_brings:
  assumes "add_ok fl has" "copy_in fl repo d n b w = (r, w')"
  shows "grows has (w_fl w) (w_fl w') \<and> w_ix w' = w_ix w \<and> (is_ok r \<longrightarrow> has (w_fl w') repo d \<noteq> None)"
proof -
  obtain a f where a: "fl_add fl repo d n b (w_fl w) = (a, f)" by force
  have "is_ok a \<or> (\<exists>e. a = Inl e \<and> errors_is e (Flob AlreadyExists)) \<longrightarrow> has f repo d \<noteq> None"
    using assms(1) a unfolding add_ok_def by blast
  moreover have "grows has (w_fl w) f" using add_grows [OF assms(1), of repo d n b] a unfolding store_grows_def by blast
  ultimately show ?thesis using assms(2) a by (auto simp: copy_in_def on_fl_def split: sum.splits if_splits)
qed

lemma take_in_brings:
  assumes "takes_ok fl ad has" "take_in D fl ad o' dir repo d n w = (r, w')"
  shows "grows has (w_fl w) (w_fl w') \<and> w_ix w' = w_ix w \<and> (is_ok r \<longrightarrow> has (w_fl w') repo d \<noteq> None)"
proof (cases "regular dir (blobPath_of D d)")
  case None
  with assms(2) show ?thesis by (auto simp: take_in_def split: if_splits)
next
  case (Some x)
  obtain b at where x: "x = (b, at)" by force
  have add: "add_ok fl has" using assms(1) by (simp add: takes_ok_def)
  show ?thesis
  proof (cases "ad_os ad repo")
    case False
    with assms(2) Some x copy_in_brings [OF add, of repo d n b w] show ?thesis by (auto simp: take_in_def split: if_splits)
  next
    case True
    obtain a f where a: "ad_adopt ad repo d b at (io_Verify o') (w_fl w) = (a, f)" by force
    have g: "grows has (w_fl w) f" "is_ok a \<or> (\<exists>e. a = Inl e \<and> errors_is e (Flob AlreadyExists)) \<longrightarrow> has f repo d \<noteq> None"
      using assms(1) a unfolding takes_ok_def by blast+
    have on: "on_fl (ad_adopt ad repo d b at (io_Verify o')) w = (a, w\<lparr>w_fl := f\<rparr>)" by (simp add: on_fl_def a)
    show ?thesis
    proof (cases a)
      case (Inr u)
      with assms(2) Some x True on g show ?thesis by (auto simp: take_in_def)
    next
      case (Inl e)
      with assms(2) Some x True on g copy_in_brings [OF add, of repo d n b "w\<lparr>w_fl := f\<rparr>"] show ?thesis
        by (auto simp: take_in_def intro: grows_trans split: if_splits)
    qed
  qed
qed

lemma take_each_brings:
  assumes "takes_ok fl ad has" "take_each D fl ad o' dir repo ds s = (r, s')"
  shows "grows has (w_fl (rb_w s)) (w_fl (rb_w s')) \<and> w_ix (rb_w s') = w_ix (rb_w s) \<and>
    (is_ok r \<longrightarrow> (\<forall>d \<in> fst ` set ds. has (w_fl (rb_w s')) repo d \<noteq> None))"
  using assms(2)
proof (induction ds arbitrary: s)
  case (Cons dn ds)
  obtain d n where dn: "dn = (d, n)" by force
  obtain c w1 where c: "ctx_err (rb_w s) = (c, w1)" by force
  then have w1: "w_ix w1 = w_ix (rb_w s)" "w_fl w1 = w_fl (rb_w s)"
    using ctx_err_same [of "rb_w s"] by simp_all
  show ?case
  proof (cases c)
    case (Some e)
    with Cons.prems dn c w1 show ?thesis by auto
  next
    case None
    obtain q w2 where q: "take_in D fl ad o' dir repo d n w1 = (q, w2)" by force
    note t = take_in_brings [OF assms(1) q]
    have on: "on_w (take_in D fl ad o' dir repo d n) (s\<lparr>rb_w := w1\<rparr>) = (q, s\<lparr>rb_w := w2\<rparr>)" by (simp add: on_w_def q)
    show ?thesis
    proof (cases q)
      case (Inl e)
      with Cons.prems dn c None on t w1 show ?thesis by auto
    next
      case (Inr how)
      with Cons.prems dn c None on
      have "take_each D fl ad o' dir repo ds (s\<lparr>rb_w := w2, rb_r := count_taken how n (rb_r s)\<rparr>) = (r, s')" by simp
      from Cons.IH [OF this] t w1 Inr dn show ?thesis by (auto intro: grows_trans dest: grows_there)
    qed
  qed
qed auto

section \<open>What is planned\<close>

definition listed_ok :: "digest_ops \<Rightarrow> (string \<Rightarrow> bool) \<Rightarrow> decoders \<Rightarrow> node \<Rightarrow> int \<Rightarrow> tops_listed \<Rightarrow> bool" where
  "listed_ok D avail J dir maxm l =
     (visited_ok D avail J dir maxm (li_visited l) \<and>
      (\<forall>(t, d) \<in> set (li_tags l). ValidTag t \<and> d \<in> dom (map_of (vi_manifests (li_visited l)))))"

lemma list_tops_ok:
  "list_tops D avail J dir maxm n ds l = Some l' \<Longrightarrow> listed_ok D avail J dir maxm l \<Longrightarrow> listed_ok D avail J dir maxm l'"
proof (induction ds arbitrary: l)
  case (Cons d ds)
  show ?case
  proof (cases "IsManifestMediaType (d_mediaType d)")
    case False
    with Cons show ?thesis by simp
  next
    case True
    obtain why s where v: "visit D avail J dir maxm n d (li_visited l) = Some (why, s)"
      using Cons.prems(1) True by (auto split: option.splits)
    have "visited_ok D avail J dir maxm (li_visited l)" using Cons.prems(2) by (simp add: listed_ok_def)
    note ok = visit_ok(1) [OF v this]
    have old: "\<forall>(t, d) \<in> set (li_tags l). ValidTag t \<and> d \<in> dom (map_of (vi_manifests s))"
      using Cons.prems(2) ok by (fastforce simp: listed_ok_def onward_def)
    have base: "listed_ok D avail J dir maxm (l\<lparr>li_visited := s\<rparr>)" using ok old by (simp add: listed_ok_def)
    show ?thesis
    proof (cases why)
      case (Some w)
      from Cons.prems(1) True v Some
      have "list_tops D avail J dir maxm n ds (l\<lparr>li_visited := s, li_Missing := AList.update (d_digest d) w (li_Missing l)\<rparr>) = Some l'"
        by simp
      then show ?thesis by (rule Cons.IH) (use base in \<open>simp add: listed_ok_def\<close>)
    next
      case None
      with ok have d: "d_digest d \<in> dom (map_of (vi_manifests s))" by simp
      obtain l1 where l1: "list_tops D avail J dir maxm n ds l1 = Some l'" "li_visited l1 = s"
        "set (li_tags l1) \<subseteq> set (li_tags l) \<union> {(t, d_digest d) | t. ValidTag t}"
        using Cons.prems(1) True v None tagOf_tag by (auto simp: Let_def split: option.splits)
      from l1(1) show ?thesis by (rule Cons.IH) (use l1(2,3) base d in \<open>auto simp: listed_ok_def\<close>)
    qed
  qed
qed simp

lemma kept_blobs_needs:
  "d \<in> set ds \<Longrightarrow> map_of ms d = Some mf \<Longrightarrow> needs d mf \<subseteq> dom (map_of (kept_blobs ms ds))"
proof -
  have mono: "dom (map_of bs) \<subseteq> dom (map_of (fold (\<lambda>d bs. case map_of ms d of None \<Rightarrow> bs | Some mf \<Rightarrow> add_blobs d mf bs) ds bs))" for ds bs
  proof (induction ds arbitrary: bs)
    case (Cons d ds)
    show ?case
    proof (cases "map_of ms d")
      case (Some mf)
      have "dom (map_of bs) \<subseteq> dom (map_of (add_blobs d mf bs))" by (simp add: dom_add_blobs)
      also note Cons.IH [of "add_blobs d mf bs"]
      finally show ?thesis by (simp add: Some)
    qed (simp add: Cons.IH)
  qed simp
  have "d \<in> set ds \<Longrightarrow> map_of ms d = Some mf \<Longrightarrow>
      needs d mf \<subseteq> dom (map_of (fold (\<lambda>d bs. case map_of ms d of None \<Rightarrow> bs | Some mf \<Rightarrow> add_blobs d mf bs) ds bs))" for ds bs
  proof (induction ds arbitrary: bs)
    case (Cons e ds)
    show ?case
    proof (cases "d = e")
      case True
      with Cons.prems mono [of "add_blobs e mf bs" ds] show ?thesis by (simp add: dom_add_blobs)
    next
      case False
      with Cons show ?thesis by (simp split: option.splits)
    qed
  qed simp
  then show "d \<in> set ds \<Longrightarrow> map_of ms d = Some mf \<Longrightarrow> needs d mf \<subseteq> dom (map_of (kept_blobs ms ds))"
    by (simp add: kept_blobs_def)
qed

section \<open>What is written\<close>

text \<open>From \<open>v\<close> to \<open>v'\<close>, manifests came and tags moved, as \<open>R\<close> and \<open>T\<close> say, and nothing else did.\<close>

definition brings_in :: "(string \<Rightarrow> digest \<Rightarrow> entry \<Rightarrow> bool) \<Rightarrow> (string \<Rightarrow> string \<Rightarrow> digest \<Rightarrow> bool) \<Rightarrow> rows \<Rightarrow> rows \<Rightarrow> bool" where
  "brings_in R T v v' =
     (ro_snaps v' = ro_snaps v \<and> (\<forall>n. ro_repos v n \<noteq> None \<longrightarrow> ro_repos v' n = ro_repos v n) \<and>
      (\<forall>repo d e. ro_manifests v repo d = Some e \<longrightarrow> ro_manifests v' repo d = Some e) \<and>
      (\<forall>repo d e. ro_manifests v repo d = None \<longrightarrow> ro_manifests v' repo d = Some e \<longrightarrow> R repo d e) \<and>
      (\<forall>repo n. ro_tags v' repo n = ro_tags v repo n \<or> (\<exists>t. ro_tags v' repo n = Some t \<and> T repo n (tg_Digest t))))"

lemma brings_in_adds: "only_adds R v v' \<Longrightarrow> brings_in R T v v'"
  by (auto simp: only_adds_def brings_in_def)

lemma brings_in_trans:
  assumes "brings_in R T v v1" "brings_in R T v1 v2"
  shows "brings_in R T v v2"
  unfolding brings_in_def
proof (intro conjI allI impI)
  fix repo d e assume n: "ro_manifests v repo d = None" "ro_manifests v2 repo d = Some e"
  show "R repo d e"
  proof (cases "ro_manifests v1 repo d")
    case None
    with assms(2) n show ?thesis unfolding brings_in_def by blast
  next
    case (Some e1)
    with assms n have "ro_manifests v2 repo d = Some e1" "R repo d e1" unfolding brings_in_def by blast+
    with n show ?thesis by simp
  qed
next
  fix repo n
  have "ro_tags v2 repo n = ro_tags v1 repo n \<or> (\<exists>t. ro_tags v2 repo n = Some t \<and> T repo n (tg_Digest t))"
    "ro_tags v1 repo n = ro_tags v repo n \<or> (\<exists>t. ro_tags v1 repo n = Some t \<and> T repo n (tg_Digest t))"
    using assms unfolding brings_in_def by blast+
  then show "ro_tags v2 repo n = ro_tags v repo n \<or> (\<exists>t. ro_tags v2 repo n = Some t \<and> T repo n (tg_Digest t))" by auto
qed (use assms in \<open>simp_all add: brings_in_def\<close>)

lemma brings_in_indexed: "brings_in R T v v' \<Longrightarrow> indexed v repo d \<Longrightarrow> indexed v' repo d"
  unfolding brings_in_def indexed_def by auto

text \<open>What is indexed of a manifest; only a time that the layout does not tell is the index's.\<close>

definition import_row :: "digest \<Rightarrow> taken \<Rightarrow> entry \<Rightarrow> bool" where
  "import_row d mf e =
     (en_holds e = Holds (ta_m mf) \<and> en_m e = (import_record d mf)\<lparr>im_CreatedAt := im_CreatedAt (en_m e)\<rparr>)"

context index_laws
begin

definition brings_step :: "(string \<Rightarrow> digest \<Rightarrow> entry \<Rightarrow> bool) \<Rightarrow> (string \<Rightarrow> string \<Rightarrow> digest \<Rightarrow> bool) \<Rightarrow> 'x \<Rightarrow> 'x \<Rightarrow> bool" where
  "brings_step R T x x' =
     (good x' \<and> intx x' = intx x \<and> outer x' = (if intx x then outer x else seen x') \<and> brings_in R T (seen x) (seen x'))"

lemma brings_step_refl: "good x \<Longrightarrow> brings_step R T x x"
  using brings_in_adds [OF only_adds_refl] seen_outer by (auto simp: brings_step_def)

lemma brings_step_trans: "brings_step R T x x1 \<Longrightarrow> brings_step R T x1 x2 \<Longrightarrow> brings_step R T x x2"
  unfolding brings_step_def using brings_in_trans by auto

lemma brings_step_same: "good x' \<Longrightarrow> intx x' = intx x \<Longrightarrow> outer x' = (if intx x then outer x else seen x') \<Longrightarrow> seen x' = seen x \<Longrightarrow> brings_step R T x x'"
  using brings_in_adds [OF only_adds_refl] by (simp add: brings_step_def)

lemma get_reads:
  assumes "good x" "ix_get ix repo d x = (r, x')"
  shows "brings_step R T x x' \<and> seen x' = seen x \<and> good x' \<and> (\<forall>m. r = Inr m \<longrightarrow> indexed (seen x) repo d)"
proof -
  note o = opD [OF get_law assms]
  then have "seen x' = seen x" by (simp add: get_spec_def)
  with o brings_step_same show ?thesis by (auto simp: get_spec_def indexed_def)
qed

lemma check_skipped_ok:
  "check_skipped ix repo sk d cs x = (r, x') \<Longrightarrow> good x \<Longrightarrow>
     brings_step R T x x' \<and> seen x' = seen x \<and> (is_ok r \<longrightarrow> (\<forall>c \<in> set cs. map_of sk c \<noteq> None \<longrightarrow> indexed (seen x) repo c))"
proof (induction cs arbitrary: x)
  case (Cons c cs)
  show ?case
  proof (cases "map_of sk c")
    case None
    with Cons show ?thesis by simp
  next
    case (Some y)
    obtain g x1 where g: "ix_get ix repo c x = (g, x1)" by force
    note s1 = get_reads [where R = R and T = T, OF Cons.prems(2) g]
    then have seen: "seen x1 = seen x" and good: "good x1" by auto
    show ?thesis
    proof (cases g)
      case (Inl e)
      with Cons.prems(1) Some g s1 seen show ?thesis by auto
    next
      case (Inr m)
      then have "indexed (seen x) repo c" using s1 by auto
      with Cons.IH [of x1] Cons.prems(1) Some g Inr good s1 seen show ?thesis by (auto intro: brings_step_trans)
    qed
  qed
qed (simp add: brings_step_refl)

lemma check_children_ok:
  "check_children ix repo sk ms x = (r, x') \<Longrightarrow> good x \<Longrightarrow>
     brings_step R T x x' \<and> seen x' = seen x \<and>
     (is_ok r \<longrightarrow> (\<forall>m \<in> set ms. \<forall>c \<in> children_of (snd m). map_of sk c \<noteq> None \<longrightarrow> indexed (seen x) repo c))"
proof (induction ms arbitrary: x)
  case (Cons m ms)
  obtain q x1 where q: "check_skipped ix repo sk (fst m) (map d_digest (slice (mf_manifests (ta_m (snd m))))) x = (q, x1)" by force
  note s1 = check_skipped_ok [where R = R and T = T, OF q Cons.prems(2)]
  then have good: "good x1" by (simp add: brings_step_def)
  show ?case
  proof (cases q)
    case (Inl e)
    with Cons.prems(1) q s1 show ?thesis by auto
  next
    case (Inr u)
    with Cons.prems(1) q have "check_children ix repo sk ms x1 = (r, x')" by simp
    from Cons.IH [OF this good] s1 Inr show ?thesis by (auto simp: children_of_def intro: brings_step_trans)
  qed
qed (simp add: brings_step_refl)

lemma put_manifests_ok:
  assumes "put_manifests ix repo ms s = (r, s')" "good (w_ix (rb_w s))"
    and "\<forall>m \<in> set ms. \<forall>e. import_row (fst m) (snd m) e \<longrightarrow> R repo (fst m) e"
  shows "brings_step R T (w_ix (rb_w s)) (w_ix (rb_w s')) \<and> ro_tags (seen (w_ix (rb_w s'))) = ro_tags (seen (w_ix (rb_w s))) \<and>
    (is_ok r \<longrightarrow> (\<forall>m \<in> set ms. indexed (seen (w_ix (rb_w s'))) repo (fst m)))"
  using assms
proof (induction ms arbitrary: s)
  case (Cons m ms)
  obtain g x1 where g: "ix_get ix repo (fst m) (w_ix (rb_w s)) = (g, x1)" by force
  note s1 = get_reads [where R = R and T = T, OF Cons.prems(2) g]
  then have seen: "seen x1 = seen (w_ix (rb_w s))" and good: "good x1" by auto
  have on: "on_w (on_ix (ix_get ix repo (fst m))) s = (g, s\<lparr>rb_w := (rb_w s)\<lparr>w_ix := x1\<rparr>\<rparr>)" by (simp add: on_w_def on_ix_def g)
  have rest: ?case if "put_manifests ix repo ms s2 = (r, s')" "brings_step R T (w_ix (rb_w s)) (w_ix (rb_w s2))"
    "ro_tags (seen (w_ix (rb_w s2))) = ro_tags (seen (w_ix (rb_w s)))" "indexed (seen (w_ix (rb_w s2))) repo (fst m)" for s2
  proof -
    have k: "good (w_ix (rb_w s2))" using that(2) by (simp add: brings_step_def)
    have f: "\<forall>m \<in> set ms. \<forall>e. import_row (fst m) (snd m) e \<longrightarrow> R repo (fst m) e" using Cons.prems(3) by simp
    note ih = Cons.IH [OF that(1) k f]
    then have "indexed (seen (w_ix (rb_w s'))) repo (fst m)"
      using that(4) brings_in_indexed unfolding brings_step_def by blast
    with ih that(2,3) show ?thesis by (auto intro: brings_step_trans)
  qed
  show ?case
  proof (cases g)
    case (Inr y)
    with Cons.prems(1) on have "put_manifests ix repo ms (s\<lparr>rb_w := (rb_w s)\<lparr>w_ix := x1\<rparr>\<rparr>) = (r, s')" by simp
    then show ?thesis by (rule rest) (use s1 seen Inr in auto)
  next
    case (Inl e)
    show ?thesis
    proof (cases "errors_is e ErrNotFound")
      case False
      with Cons.prems(1) on Inl s1 seen show ?thesis by auto
    next
      case True
      obtain p x2 where p: "ix_put ix repo (import_record (fst m) (snd m)) (Holds (ta_m (snd m))) x1 = (p, x2)" by force
      note put = opD [OF put_law good p]
      have "only_adds R (seen x1) (seen x2)"
        by (rule only_adds_put [where repo = repo and r = p and x = "\<lparr>fo_m = import_record (fst m) (snd m), fo_holds = Holds (ta_m (snd m))\<rparr>"])
          (use put Cons.prems(3) in \<open>auto simp: made_of_def import_row_def import_record_def\<close>)
      with put have s2: "brings_step R T (w_ix (rb_w s)) x2"
        by (intro brings_step_trans [OF conjunct1 [OF s1]]) (auto simp: brings_step_def intro: brings_in_adds)
      have tags: "ro_tags (seen x2) = ro_tags (seen (w_ix (rb_w s)))"
        using put seen by (auto simp: put_spec_def split: sum.splits if_splits)
      have on2: "on_w (on_ix (ix_put ix repo (import_record (fst m) (snd m)) (Holds (ta_m (snd m))))) (s\<lparr>rb_w := (rb_w s)\<lparr>w_ix := x1\<rparr>\<rparr>)
          = (p, s\<lparr>rb_w := (rb_w s)\<lparr>w_ix := x2\<rparr>\<rparr>)" by (simp add: on_w_def on_ix_def p)
      show ?thesis
      proof (cases p)
        case p': (Inl e')
        with Cons.prems(1) on Inl True on2 s2 tags show ?thesis by auto
      next
        case p': (Inr u)
        let ?s2 = "s\<lparr>rb_w := (rb_w s)\<lparr>w_ix := x2\<rparr>, rb_r := (rb_r s)\<lparr>ir_Manifests := Suc (ir_Manifests (rb_r s))\<rparr>\<rparr>"
        from Cons.prems(1) on Inl True on2 p' have "put_manifests ix repo ms ?s2 = (r, s')" by simp
        moreover have "indexed (seen x2) repo (fst m)"
          using put p' by (auto simp: put_spec_def indexed_def import_record_def split: if_splits)
        ultimately show ?thesis using s2 tags by (intro rest [of ?s2]) simp_all
      qed
    qed
  qed
qed (simp add: brings_step_refl)

lemma put_tags_ok:
  assumes "put_tags ix repo ts s = (r, s')" "good (w_ix (rb_w s))" and "\<forall>(n, d) \<in> set ts. T repo n d"
  shows "brings_step R T (w_ix (rb_w s)) (w_ix (rb_w s')) \<and> ro_manifests (seen (w_ix (rb_w s'))) = ro_manifests (seen (w_ix (rb_w s)))"
  using assms
proof (induction ts arbitrary: s)
  case (Cons nd ts)
  obtain n d where nd: "nd = (n, d)" by force
  obtain g x1 where g: "ix_tag_get ix repo n (w_ix (rb_w s)) = (g, x1)" by force
  note o1 = opD [OF tag_get_law Cons.prems(2) g]
  then have seen: "seen x1 = seen (w_ix (rb_w s))" and good: "good x1" by (auto simp: tag_get_spec_def)
  with o1 have s1: "brings_step R T (w_ix (rb_w s)) x1" by (intro brings_step_same) auto
  let ?s1 = "s\<lparr>rb_w := (rb_w s)\<lparr>w_ix := x1\<rparr>\<rparr>"
  have on: "on_w (on_ix (ix_tag_get ix repo n)) s = (g, ?s1)" by (simp add: on_w_def on_ix_def g)
  have rest: ?case if "put_tags ix repo ts s2 = (r, s')" "brings_step R T (w_ix (rb_w s)) (w_ix (rb_w s2))"
    "ro_manifests (seen (w_ix (rb_w s2))) = ro_manifests (seen (w_ix (rb_w s)))" for s2
  proof -
    have k: "good (w_ix (rb_w s2))" using that(2) by (simp add: brings_step_def)
    have "\<forall>(n, d) \<in> set ts. T repo n d" using Cons.prems(3) by simp
    from Cons.IH [OF that(1) k this] that(2,3) show ?thesis by (auto intro: brings_step_trans)
  qed
  define from' where "from' = (case g of Inr cur \<Rightarrow> Inr (tg_Digest cur) | Inl e \<Rightarrow> if errors_is e ErrNotFound then Inr '''' else Inl e)"
  show ?case
  proof (cases from')
    case (Inl e)
    with Cons.prems(1) nd on s1 seen show ?thesis by (auto simp: from'_def [symmetric])
  next
    case (Inr was)
    show ?thesis
    proof (cases "was = d")
      case True
      with Cons.prems(1) nd on Inr have "put_tags ix repo ts ?s1 = (r, s')" by (simp add: from'_def [symmetric])
      then show ?thesis by (rule rest) (use s1 seen in auto)
    next
      case False
      obtain p x2 where p: "ix_tag_set ix repo n d was x1 = (p, x2)" by force
      note o2 = opD [OF tag_set_law good p]
      have b2: "brings_in R T (seen x1) (seen x2)" "ro_manifests (seen x2) = ro_manifests (seen x1)"
        using o2 Cons.prems(3) nd by (auto simp: tag_set_spec_def brings_in_def split: sum.splits)
      with o2 have "brings_step R T x1 x2" by (simp add: brings_step_def)
      with s1 have s2: "brings_step R T (w_ix (rb_w s)) x2" "ro_manifests (seen x2) = ro_manifests (seen (w_ix (rb_w s)))"
        using b2(2) seen by (auto intro: brings_step_trans)
      have on2: "on_w (on_ix (ix_tag_set ix repo n d was)) ?s1 = (p, s\<lparr>rb_w := (rb_w s)\<lparr>w_ix := x2\<rparr>\<rparr>)"
        by (simp add: on_w_def on_ix_def p)
      show ?thesis
      proof (cases p)
        case p': (Inl e')
        with Cons.prems(1) nd on Inr False on2 s2 show ?thesis by (auto simp: from'_def [symmetric])
      next
        case p': (Inr u)
        let ?s2 = "s\<lparr>rb_w := (rb_w s)\<lparr>w_ix := x2\<rparr>, rb_r := (rb_r s)\<lparr>ir_Tags := Suc (ir_Tags (rb_r s))\<rparr>\<rparr>"
        from Cons.prems(1) nd on Inr False on2 p' have "put_tags ix repo ts ?s2 = (r, s')" by (simp add: from'_def [symmetric])
        then show ?thesis by (rule rest) (use s2 in auto)
      qed
    qed
  qed
qed (simp add: brings_step_refl)

lemma import_body_ok:
  assumes "import_body ix repo sk ms ts s = (r, s')" "good (w_ix (rb_w s))"
    and "\<forall>m \<in> set ms. \<forall>e. import_row (fst m) (snd m) e \<longrightarrow> R repo (fst m) e" and "\<forall>(n, d) \<in> set ts. T repo n d"
  shows "brings_step R T (w_ix (rb_w s)) (w_ix (rb_w s')) \<and>
    (is_ok r \<longrightarrow> (\<forall>m \<in> set ms. indexed (seen (w_ix (rb_w s'))) repo (fst m) \<and>
       (\<forall>c \<in> children_of (snd m). map_of sk c \<noteq> None \<longrightarrow> indexed (seen (w_ix (rb_w s))) repo c)))"
proof -
  obtain q x1 where q: "check_children ix repo sk ms (w_ix (rb_w s)) = (q, x1)" by force
  note s1 = check_children_ok [where R = R and T = T, OF q assms(2)]
  then have g1: "good x1" by (simp add: brings_step_def)
  have on1: "on_w (on_ix (check_children ix repo sk ms)) s = (q, s\<lparr>rb_w := (rb_w s)\<lparr>w_ix := x1\<rparr>\<rparr>)" by (simp add: on_w_def on_ix_def q)
  show ?thesis
  proof (cases q)
    case (Inl e)
    with assms(1) on1 s1 show ?thesis by (auto simp: import_body_def)
  next
    case q': (Inr u)
    obtain en x2 where en: "ix_repo_ensure ix repo x1 = (en, x2)" by force
    have s12: "brings_step R T x1 x2" using opD [OF ensure_law g1 en] only_adds_ensure brings_in_adds by (auto simp: brings_step_def)
    with s1 have s2: "brings_step R T (w_ix (rb_w s)) x2" by (auto intro: brings_step_trans)
    then have g2: "good x2" by (simp add: brings_step_def)
    have on2: "on_w (on_ix (ix_repo_ensure ix repo)) (s\<lparr>rb_w := (rb_w s)\<lparr>w_ix := x1\<rparr>\<rparr>) = (en, s\<lparr>rb_w := (rb_w s)\<lparr>w_ix := x2\<rparr>\<rparr>)"
      by (simp add: on_w_def on_ix_def en)
    show ?thesis
    proof (cases en)
      case (Inl e)
      with assms(1) on1 q' on2 s2 show ?thesis by (auto simp: import_body_def)
    next
      case en': (Inr u')
      obtain pm s3 where pm: "put_manifests ix repo ms (s\<lparr>rb_w := (rb_w s)\<lparr>w_ix := x2\<rparr>\<rparr>) = (pm, s3)" by force
      from put_manifests_ok [where R = R and T = T, OF pm _ assms(3)] g2
      have s3: "brings_step R T x2 (w_ix (rb_w s3))" "is_ok pm \<longrightarrow> (\<forall>m \<in> set ms. indexed (seen (w_ix (rb_w s3))) repo (fst m))" by simp_all
      have s03: "brings_step R T (w_ix (rb_w s)) (w_ix (rb_w s3))" by (rule brings_step_trans [OF s2 s3(1)])
      have g3: "good (w_ix (rb_w s3))" using s3(1) by (simp add: brings_step_def)
      show ?thesis
      proof (cases pm)
        case (Inl e)
        with assms(1) on1 q' on2 en' pm s03 show ?thesis by (auto simp: import_body_def)
      next
        case pm': (Inr u'')
        with assms(1) on1 q' on2 en' pm have "put_tags ix repo ts s3 = (r, s')" by (simp add: import_body_def)
        from put_tags_ok [where R = R and T = T, OF this g3 assms(4)] s03 s3(2) s1 q' pm' show ?thesis
          by (auto intro: brings_step_trans simp: indexed_def)
      qed
    qed
  qed
qed

lemma import_tx_ok:
  assumes "report_tx ix repo (import_body ix repo sk ms ts) s = (r, s')" "good (w_ix (rb_w s))" "\<not> intx (w_ix (rb_w s))"
    and "\<forall>m \<in> set ms. \<forall>e. import_row (fst m) (snd m) e \<longrightarrow> R repo (fst m) e" and "\<forall>(n, d) \<in> set ts. T repo n d"
  shows "good (w_ix (rb_w s')) \<and> \<not> intx (w_ix (rb_w s')) \<and>
    (if is_ok r then brings_in R T (seen (w_ix (rb_w s))) (seen (w_ix (rb_w s'))) \<and>
       (\<forall>m \<in> set ms. indexed (seen (w_ix (rb_w s'))) repo (fst m) \<and>
         (\<forall>c \<in> children_of (snd m). map_of sk c \<noteq> None \<longrightarrow> indexed (seen (w_ix (rb_w s'))) repo c))
     else seen (w_ix (rb_w s')) = seen (w_ix (rb_w s)))"
proof -
  let ?P = "\<lambda>r v. brings_in R T (seen (w_ix (rb_w s))) v \<and> (is_ok r \<longrightarrow> (\<forall>m \<in> set ms. indexed v repo (fst m) \<and>
       (\<forall>c \<in> children_of (snd m). map_of sk c \<noteq> None \<longrightarrow> indexed (seen (w_ix (rb_w s))) repo c)))"
  have "good (w_ix (rb_w s')) \<and> \<not> intx (w_ix (rb_w s')) \<and>
    (outer (w_ix (rb_w s')) = outer (w_ix (rb_w s)) \<and> \<not> is_ok r \<or> ?P r (outer (w_ix (rb_w s'))) \<and> is_ok r)"
  proof (rule Tx_cases [OF assms(2,3) assms(1) [unfolded report_tx_def], where P = ?P])
    fix w1 :: "('x, 'b) importing" and r w2
    assume w1: "good (w_ix (rb_w w1))" "intx (w_ix (rb_w w1))" "seen (w_ix (rb_w w1)) = seen (w_ix (rb_w s))"
      "outer (w_ix (rb_w w1)) = outer (w_ix (rb_w s))" "import_body ix repo sk ms ts w1 = (r, w2)"
    from import_body_ok [where R = R and T = T, OF w1(5,1) assms(4,5)] w1
    show "good (w_ix (rb_w w2)) \<and> intx (w_ix (rb_w w2)) \<and> outer (w_ix (rb_w w2)) = outer (w_ix (rb_w s)) \<and> ?P r (seen (w_ix (rb_w w2)))"
      by (simp add: brings_step_def)
  qed simp
  then show ?thesis using seen_outer [of "w_ix (rb_w s')"] seen_outer [OF assms(2,3)] brings_in_indexed by auto
qed

end

lemma put_manifests_frame [simp]: "w_fl (rb_w (snd (put_manifests ix repo ms s))) = w_fl (rb_w s)"
  by (induction ms arbitrary: s) (auto simp: on_w_def on_ix_def split: prod.splits sum.splits)

lemma put_tags_frame [simp]: "w_fl (rb_w (snd (put_tags ix repo ts s))) = w_fl (rb_w s)"
  by (induction ts arbitrary: s) (auto simp: on_w_def on_ix_def split: prod.splits sum.splits)

lemma put_manifests_fl: "put_manifests ix repo ms s = (r, s') \<Longrightarrow> w_fl (rb_w s') = w_fl (rb_w s)"
  using put_manifests_frame [of ix repo ms s] by simp

lemma import_body_frame: "w_fl (rb_w (snd (import_body ix repo sk ms ts s))) = w_fl (rb_w s)"
  by (auto simp: import_body_def on_w_def on_ix_def split: prod.split sum.split dest!: put_manifests_fl)

section \<open>Properties\<close>

text \<open>
  A manifest that was brought in is whole: it is one of the layout's, it and every blob it needs
  are in the store, and its children are indexed.
\<close>

definition brought :: "digest_ops \<Rightarrow> (string \<Rightarrow> bool) \<Rightarrow> decoders \<Rightarrow> node \<Rightarrow> int \<Rightarrow> (string \<Rightarrow> digest \<Rightarrow> string option) \<Rightarrow> rows \<Rightarrow>
    string \<Rightarrow> digest \<Rightarrow> entry \<Rightarrow> bool" where
  "brought D avail J dir maxm h v repo d e =
     (\<exists>mf. whole_in D avail J dir maxm d mf \<and> import_row d mf e \<and> needs d mf \<subseteq> {x. h repo x \<noteq> None} \<and>
        children_of mf \<subseteq> {c. indexed v repo c})"

text \<open>What an import did, on the index before and after it.\<close>

definition imported :: "digest_ops \<Rightarrow> (string \<Rightarrow> bool) \<Rightarrow> decoders \<Rightarrow> layout \<Rightarrow> int \<Rightarrow> (string \<Rightarrow> digest \<Rightarrow> string option) \<Rightarrow> rows \<Rightarrow> rows \<Rightarrow> bool" where
  "imported D avail J l maxm h v v' =
     brings_in (\<lambda>repo d e. repo = snd l \<and> brought D avail J (fst l) maxm h v' repo d e)
       (\<lambda>repo t d. repo = snd l \<and> ValidTag t \<and> indexed v' repo d) v v'"

lemma brings_in_mono:
  assumes "brings_in R T v v'" "\<And>repo d e. R repo d e \<Longrightarrow> R' repo d e" "\<And>repo n d. T repo n d \<Longrightarrow> T' repo n d"
  shows "brings_in R' T' v v'"
  using assms unfolding brings_in_def by blast

lemma import_planned_ok:
  assumes "import_planned D mem_ops fl ad o' l li n sk s = (r, s')" "takes_ok fl ad has"
    and "mem_good (w_ix (rb_w s))" "\<not> mem_intx (w_ix (rb_w s))" "listed_ok D avail J (fst l) maxm li"
  shows "grows has (w_fl (rb_w s)) (w_fl (rb_w s')) \<and> mem_good (w_ix (rb_w s')) \<and> \<not> mem_intx (w_ix (rb_w s')) \<and>
    (if is_ok r then imported D avail J l maxm (has (w_fl (rb_w s'))) (mem_seen (w_ix (rb_w s))) (mem_seen (w_ix (rb_w s')))
     else mem_seen (w_ix (rb_w s')) = mem_seen (w_ix (rb_w s)))"
proof -
  let ?ms = "vi_manifests (li_visited li)"
  let ?order = "filter (\<lambda>d. map_of sk d = None) (vi_order (li_visited li))"
  let ?ts = "filter (\<lambda>t. map_of sk (snd t) = None) (li_tags li)"
  let ?blobs = "if sk = [] then vi_blobs (li_visited li) else kept_blobs ?ms ?order"
  let ?rows = "map (\<lambda>d. (d, the (map_of ?ms d))) ?order"
  note ok = assms(5) [unfolded listed_ok_def visited_ok_def]
  obtain q s2 where q: "take_each D fl ad o' (fst l) (snd l) (map (\<lambda>d. (d, the (map_of ?blobs d))) (sort (remdups (map fst ?blobs))))
      (s\<lparr>rb_r := (rb_r s)\<lparr>ir_Orphaned := n, ir_Skipped := sk\<rparr>\<rparr>) = (q, s2)" by force
  note tk = take_each_brings [OF assms(2) q, simplified]
  show ?thesis
  proof (cases q)
    case (Inl e)
    with assms(1,3,4) q tk show ?thesis by (auto simp: import_planned_def Let_def)
  next
    case (Inr u)
    with assms(1) q have tx: "report_tx mem_ops (snd l) (import_body mem_ops (snd l) sk ?rows ?ts) s2 = (r, s')"
      by (simp add: import_planned_def Let_def)
    have fr: "w_fl (rb_w s') = w_fl (rb_w s2)"
    proof (rule Tx_frame [OF tx [unfolded report_tx_def], where h = "\<lambda>s. w_fl (rb_w s)"])
      show "w_fl (rb_w w') = w_fl (rb_w w)" if "import_body mem_ops (snd l) sk ?rows ?ts w = (r', w')" for w r' w'
        using import_body_frame [of mem_ops "snd l" sk ?rows ?ts w] that by simp
    qed simp
    let ?h = "has (w_fl (rb_w s'))"
    have row: "map_of ?ms d = Some (the (map_of ?ms d))" if "d \<in> set ?order" for d
    proof -
      from that have "d \<in> set (vi_order (li_visited li))" by simp
      with ok have "d \<in> dom (map_of ?ms)" by simp
      then show ?thesis by auto
    qed
    have blobs: "needs d (the (map_of ?ms d)) \<subseteq> {x. ?h (snd l) x \<noteq> None}" if d: "d \<in> set ?order" for d
    proof -
      have "needs d (the (map_of ?ms d)) \<subseteq> dom (map_of ?blobs)"
      proof (cases "sk = []")
        case True
        have "\<forall>d mf. map_of ?ms d = Some mf \<longrightarrow> needs d mf \<subseteq> dom (map_of (vi_blobs (li_visited li)))" using ok by blast
        from this [rule_format, OF row [OF d]] True show ?thesis by simp
      next
        case False
        with kept_blobs_needs [OF d row [OF d]] show ?thesis by simp
      qed
      moreover have "dom (map_of ?blobs) \<subseteq> {x. ?h (snd l) x \<noteq> None}"
        using tk Inr unfolding fr dom_map_of_conv_image_fst by (auto simp: image_image)
      ultimately show ?thesis by blast
    qed
    let ?R = "\<lambda>repo d e. repo = snd l \<and> d \<in> set ?order \<and> import_row d (the (map_of ?ms d)) e"
    let ?T = "\<lambda>repo t d. repo = snd l \<and> (t, d) \<in> set ?ts"
    have k2: "mem_good (w_ix (rb_w s2))" "\<not> mem_intx (w_ix (rb_w s2))" using tk assms(3,4) by simp_all
    have R: "\<forall>m \<in> set ?rows. \<forall>e. import_row (fst m) (snd m) e \<longrightarrow> ?R (snd l) (fst m) e" by auto
    have T: "\<forall>(n, d) \<in> set ?ts. ?T (snd l) n d" by auto
    note body = mem.import_tx_ok [where R = ?R and T = ?T, OF tx k2 R T]
    show ?thesis
    proof (cases "is_ok r")
      case False
      with body tk fr show ?thesis by simp
    next
      case True
      let ?v = "mem_seen (w_ix (rb_w s'))"
      have ix: "indexed ?v (snd l) d" if "d \<in> set ?order" for d using body True that by auto
      have kids: "indexed ?v (snd l) c" if "d \<in> set ?order" "c \<in> children_of (the (map_of ?ms d))" for d c
      proof (cases "map_of sk c = None")
        case False
        with body True that show ?thesis by auto
      next
        case no: True
        have "c \<in> dom (map_of ?ms)" using ok row [OF that(1)] that(2) by blast
        with no ok have "c \<in> set ?order" by auto
        then show ?thesis by (rule ix)
      qed
      have "brings_in (\<lambda>repo d e. repo = snd l \<and> brought D avail J (fst l) maxm ?h ?v repo d e)
          (\<lambda>repo t d. repo = snd l \<and> ValidTag t \<and> indexed ?v repo d) (mem_seen (w_ix (rb_w s2))) ?v"
      proof (rule brings_in_mono [of ?R ?T])
        show "brings_in ?R ?T (mem_seen (w_ix (rb_w s2))) ?v" using body True by simp
        show "repo = snd l \<and> brought D avail J (fst l) maxm ?h ?v repo d e" if R: "?R repo d e" for repo d e
        proof -
          have "whole_in D avail J (fst l) maxm d (the (map_of ?ms d))" using ok row R by blast
          with R blobs kids show ?thesis unfolding brought_def by blast
        qed
        show "repo = snd l \<and> ValidTag t \<and> indexed ?v repo d" if T: "?T repo t d" for repo t d
        proof -
          from T ok have "ValidTag t" "d \<in> set ?order" by auto
          with T ix show ?thesis by blast
        qed
      qed
      with tk body True fr show ?thesis by (simp add: imported_def)
    qed
  qed
qed

text \<open>
  C16: an import is whole or nothing.  If it fails, the index is as it was; if not, nothing that was
  indexed has changed and every manifest it indexed is one of the layout's that is whole in it, has
  its bytes and every blob it needs in the store and its children in the index, and every tag it set
  is a tag and points at a manifest of the index.  Whatever happens, the store loses nothing.
\<close>

theorem import_is_whole_or_nothing:
  assumes "takes_ok fl ad has" and "mem_good (w_ix w) \<and> \<not> mem_intx (w_ix w)"
    and "importRepo D avail J L mem_ops fl ad o' n l w = Some (r, s')"
  shows "grows has (w_fl w) (w_fl (rb_w s')) \<and>
    (if is_ok r then imported D avail J l (io_MaxManifestSize o') (has (w_fl (rb_w s'))) (mem_seen (w_ix w)) (mem_seen (w_ix (rb_w s')))
     else mem_seen (w_ix (rb_w s')) = mem_seen (w_ix w))"
proof (cases "checkLayoutVersion L (fst l)")
  case (Some e)
  with assms(3) show ?thesis by (auto simp: importRepo_def Let_def)
next
  case None
  show ?thesis
  proof (cases "readJSON (fst l) ''index.json'' (push_bit 20 4) (ld_index L)")
    case (Inl e)
    with None assms(3) show ?thesis by (auto simp: importRepo_def Let_def)
  next
    case (Inr tops)
    let ?l0 = "\<lparr>li_visited = \<lparr>vi_manifests = [], vi_order = [], vi_blobs = [], vi_broken = []\<rparr>, li_Missing = [], li_BadTags = [], li_tags = []\<rparr>"
    obtain li where li: "list_tops D avail J (fst l) (io_MaxManifestSize o') n tops ?l0 = Some li"
      using None Inr assms(3) by (auto simp: importRepo_def Let_def split: option.splits)
    have "listed_ok D avail J (fst l) (io_MaxManifestSize o') ?l0" by (simp add: listed_ok_def visited_ok_def)
    note ok = list_tops_ok [OF li this]
    then have wf: "wf_map (vi_manifests (li_visited li))" by (simp add: listed_ok_def visited_ok_def)
    obtain p x where p: "planOrphans mem_ops (snd l) (vi_manifests (li_visited li)) (io_SkipOrphaned o') (w_ix w) = (p, x)" by force
    from mem.planOrphans_ok [OF wf _ _ p] assms(2)
    have x: "mem_good x" "\<not> mem_intx x" "mem_seen x = mem_seen (w_ix w)" by simp_all
    show ?thesis
    proof (cases p)
      case p': (Inl e)
      with None Inr li p assms(3) x show ?thesis by (auto simp: importRepo_def Let_def on_w_def on_ix_def)
    next
      case p': (Inr ks)
      obtain k sk where ks: "ks = (k, sk)" by force
      obtain s2 where s2: "import_planned D mem_ops fl ad o' l li k sk s2 = (r, s')" "rb_w s2 = w\<lparr>w_ix := x\<rparr>"
        using None Inr li p p' ks assms(3) by (auto simp: importRepo_def Let_def on_w_def on_ix_def)
      from import_planned_ok [OF s2(1) assms(1) _ _ ok] s2(2) x show ?thesis by (auto split: if_splits)
    qed
  qed
qed

lemma list_tops_enough:
  assumes "rank_below D avail J dir maxm rank" "\<forall>d \<in> set ds. rank (d_digest d) < n"
  shows "list_tops D avail J dir maxm n ds l0 \<noteq> None"
  using assms(2)
proof (induction ds arbitrary: l0)
  case (Cons d ds)
  then obtain why s where "visit D avail J dir maxm n d (li_visited l0) = Some (why, s)"
    using visit_enough [OF assms(1), of d n "li_visited l0"] by auto
  with Cons show ?case by (auto simp: Let_def split: option.splits)
qed simp

text \<open>
  C21: an import ends.  When no manifest of the layout is below itself, as it is when content is
  named by what it hashes to, and the depth allowed is more than how deep what the layout lists
  goes, the import of the layout returns.
\<close>

theorem import_ends:
  assumes "rank_below D avail J (fst l) (io_MaxManifestSize o') rank"
    and "{d. \<exists>tops. readJSON (fst l) ''index.json'' (push_bit 20 4) (ld_index L) = Inr tops \<and> d \<in> set tops} \<subseteq>
      {d. rank (d_digest d) < n}"
  shows "importRepo D avail J L ix fl ad o' n l w \<noteq> None"
proof -
  have "\<forall>d \<in> set ts. rank (d_digest d) < n" if "readJSON (fst l) ''index.json'' (push_bit 20 4) (ld_index L) = Inr ts" for ts
    using assms(2) that by blast
  then have "list_tops D avail J (fst l) (io_MaxManifestSize o') n ts l0 \<noteq> None"
    if "readJSON (fst l) ''index.json'' (push_bit 20 4) (ld_index L) = Inr ts" for ts l0 using list_tops_enough [OF assms(1)] that by blast
  then have some: "\<exists>li. list_tops D avail J (fst l) (io_MaxManifestSize o') n ts l0 = Some li"
    if "readJSON (fst l) ''index.json'' (push_bit 20 4) (ld_index L) = Inr ts" for ts l0 using that by blast
  show ?thesis
  proof (cases "readJSON (fst l) ''index.json'' (push_bit 20 4) (ld_index L)")
    case (Inl e)
    then show ?thesis unfolding importRepo_def Let_def by (simp split: option.split)
  next
    case (Inr ts)
    obtain li where "list_tops D avail J (fst l) (io_MaxManifestSize o') n ts
        \<lparr>li_visited = \<lparr>vi_manifests = [], vi_order = [], vi_blobs = [], vi_broken = []\<rparr>, li_Missing = [], li_BadTags = [], li_tags = []\<rparr> = Some li"
      using some [OF Inr] by blast
    with Inr show ?thesis unfolding importRepo_def Let_def by (simp split: option.split sum.split prod.split)
  qed
qed

text \<open>
  C20: what an import leaves out is what it must.  With \<open>SkipOrphaned\<close> the manifests left out are
  exactly those of the least set that has the referrers whose subject is neither taken nor in the
  repository, and whatever refers to or lists one left out that the repository does not have;
  without it nothing is left out; and asking leaves the index as it was.
\<close>

theorem plan_leaves_out_the_lost:
  assumes "mem_good x \<and> \<not> mem_intx x" and "wf_map ms" and "planOrphans mem_ops repo ms skip x = (Inr (n, sk), x')"
  shows "dom (map_of sk) = (if skip then {d. lost (mem_seen x) repo ms d} else {}) \<and> mem_seen x' = mem_seen x"
  using mem.planOrphans_ok [OF assms(2) _ _ assms(3)] assms(1) by simp

section \<open>A layout to try things on\<close>

definition sample_layout :: node where
  "sample_layout =
     Dir [(''oci-layout'', File ''v'' 1), (''index.json'', File ''i'' 1),
       (''blobs'', Dir [(''sha256'', Dir [(''{}00'', File ''{}'' 7), (''c0c0'', File ''abc'' 7), (''1111'', File ''def'' 7)])])]"

definition sample_top :: descriptor where
  "sample_top = (sample_desc MediaTypeImageManifest ''sha256:{}00'')\<lparr>d_size := 2, d_annotations := [(AnnotationRefName, ''v1'')]\<rparr>"

definition sample_layout_decoders :: layout_decoders where
  "sample_layout_decoders = \<lparr>ld_index = (\<lambda>b. if b = ''i'' then Some [sample_top] else None),
     ld_layout = (\<lambda>b. if b = ''v'' then Some ''1.0.0'' else None)\<rparr>"

definition sample_adopter :: "sample_blobs adopter" where
  "sample_adopter = \<lparr>ad_os = (\<lambda>_. False), ad_adopt = (\<lambda>repo d b at v f. (Inl NotSupported, f))\<rparr>"

definition sample_options :: options where
  "sample_options = \<lparr>io_Repo = ''acme/app'', io_Only = [], io_Exclude = [], io_Refuse = (\<lambda>_. ''''), io_Verify = False, io_Copy = True,
     io_SkipOrphaned = True, io_MaxManifestSize = 64\<rparr>"

definition no_rows :: "(view, sample_blobs) world" where
  "no_rows = \<lparr>w_ix = new_index 5 100 [], w_fl = [], w_ctx = []\<rparr>"

lemma sample_takes_ok: "takes_ok sample_store sample_adopter sample_has"
  using sample_add_ok by (simp add: takes_ok_def sample_adopter_def)

abbreviation sample_import :: "nat \<Rightarrow> ((error + unit) \<times> (view, sample_blobs) importing) option" where
  "sample_import n \<equiv> importRepo sample_digest_ops (\<lambda>_. True) sample_decoders sample_layout_decoders mem_ops sample_store sample_adopter
     sample_options n (sample_layout, ''acme/app'') no_rows"

lemma sample_layout_reads:
  "checkLayoutVersion sample_layout_decoders sample_layout = None"
  "readJSON sample_layout ''index.json'' (push_bit 20 4) (ld_index sample_layout_decoders) = Inr [sample_top]"
  by (simp_all add: checkLayoutVersion_def readJSON_def sample_layout_def sample_layout_decoders_def)

definition sample_listed :: tops_listed where
  "sample_listed = the (list_tops sample_digest_ops (\<lambda>_. True) sample_decoders sample_layout 64 1 [sample_top]
     \<lparr>li_visited = \<lparr>vi_manifests = [], vi_order = [], vi_blobs = [], vi_broken = []\<rparr>, li_Missing = [], li_BadTags = [], li_tags = []\<rparr>)"

definition sample_planned :: "(error + unit) \<times> (view, sample_blobs) importing" where
  "sample_planned =
     (let rr = \<lparr>ir_Repo = ''acme/app'', ir_Manifests = 0, ir_Tags = 0, ir_Orphaned = 0, ir_Skipped = [], ir_Linked = 0, ir_Copied = 0,
            ir_Present = 0, ir_Bytes = 0, ir_Missing = li_Missing sample_listed, ir_BadTags = li_BadTags sample_listed\<rparr>
      in case on_w (on_ix (planOrphans mem_ops ''acme/app'' (vi_manifests (li_visited sample_listed)) True)) \<lparr>rb_r = rr, rb_w = no_rows\<rparr> of
           (Inl e, s2) \<Rightarrow> (Inl e, s2)
         | (Inr (k, sk), s2) \<Rightarrow>
             import_planned sample_digest_ops mem_ops sample_store sample_adopter sample_options (sample_layout, ''acme/app'') sample_listed k sk s2)"

lemma sample_import_planned: "sample_import 1 = Some sample_planned"
proof -
  have "list_tops sample_digest_ops (\<lambda>_. True) sample_decoders sample_layout 64 1 [sample_top]
      \<lparr>li_visited = \<lparr>vi_manifests = [], vi_order = [], vi_blobs = [], vi_broken = []\<rparr>, li_Missing = [], li_BadTags = [], li_tags = []\<rparr> \<noteq> None"
    by code_simp
  then have l: "list_tops sample_digest_ops (\<lambda>_. True) sample_decoders sample_layout 64 1 [sample_top]
      \<lparr>li_visited = \<lparr>vi_manifests = [], vi_order = [], vi_blobs = [], vi_broken = []\<rparr>, li_Missing = [], li_BadTags = [], li_tags = []\<rparr> = Some sample_listed"
    by (auto simp: sample_listed_def)
  have o: "io_MaxManifestSize sample_options = 64" "io_SkipOrphaned sample_options = True" by (simp_all add: sample_options_def)
  show ?thesis
    unfolding importRepo_def sample_planned_def fst_conv snd_conv Let_def sample_layout_reads option.case sum.case o l
    by (auto split: prod.split sum.split)
qed

lemma sample_import_tags:
  "(case sample_planned of (r, s) \<Rightarrow>
     (r, map_option tg_Digest (ro_tags (mem_seen (w_ix (rb_w s))) ''acme/app'' ''v1''), ir_Copied (rb_r s))) =
   (Inr (), Some ''sha256:{}00'', 3)"
  by code_simp

theorem import_is_whole_or_nothing_witness:
  "\<exists>s'. sample_import 1 = Some (Inr (), s') \<and> indexed (mem_seen (w_ix (rb_w s'))) ''acme/app'' ''sha256:{}00''"
proof -
  obtain q s' where qs: "sample_planned = (q, s')" by force
  with sample_import_tags have p: "sample_planned = (Inr (), s')"
    "map_option tg_Digest (ro_tags (mem_seen (w_ix (rb_w s'))) ''acme/app'' ''v1'') = Some ''sha256:{}00''"
    unfolding qs prod.case by simp_all
  then have s: "sample_import 1 = Some (Inr (), s')" by (simp only: sample_import_planned)
  have "mem_good (w_ix no_rows) \<and> \<not> mem_intx (w_ix no_rows)" by (simp add: no_rows_def)
  from import_is_whole_or_nothing [OF sample_takes_ok this s]
  have i: "imported sample_digest_ops (\<lambda>_. True) sample_decoders (sample_layout, ''acme/app'') 64 (sample_has (w_fl (rb_w s')))
      (mem_seen (w_ix no_rows)) (mem_seen (w_ix (rb_w s')))" by (simp add: sample_options_def)
  have "ro_tags (mem_seen (w_ix no_rows)) ''acme/app'' ''v1'' = None" by code_simp
  moreover have "ro_tags (mem_seen (w_ix (rb_w s'))) ''acme/app'' ''v1'' = ro_tags (mem_seen (w_ix no_rows)) ''acme/app'' ''v1'' \<or>
      (\<exists>t. ro_tags (mem_seen (w_ix (rb_w s'))) ''acme/app'' ''v1'' = Some t \<and> indexed (mem_seen (w_ix (rb_w s'))) ''acme/app'' (tg_Digest t))"
    using i [unfolded imported_def brings_in_def] by blast
  ultimately have "indexed (mem_seen (w_ix (rb_w s'))) ''acme/app'' ''sha256:{}00''" using p(2) by auto
  with s show ?thesis by blast
qed

theorem import_ends_witness: "sample_import 1 \<noteq> None"
proof (rule import_ends)
  have "readManifest sample_digest_ops (\<lambda>_. True) sample_decoders sample_layout d 64 = Inr mf \<Longrightarrow> children_of mf = {}" for d mf
    by (auto simp: readManifest_def Let_def ParseManifest_Inr sample_decoders_def children_of_def manifest_of_def sample_raw_def
      split: if_splits option.splits node.splits sum.splits)
  then show "rank_below sample_digest_ops (\<lambda>_. True) sample_decoders (fst (sample_layout, ''acme/app''))
      (io_MaxManifestSize sample_options) (\<lambda>_. 0)"
    by (auto simp: rank_below_def sample_options_def)
qed simp

theorem plan_leaves_out_the_lost_witness:
  "let s = sample_manifest\<lparr>mf_subject := Some (sample_desc ''m'' ''sha256:gone'')\<rparr>;
       ms = [(''sha256:sign'', \<lparr>ta_desc = sample_top, ta_m = s, ta_added = 1\<rparr>)]
   in \<exists>n sk x'. planOrphans mem_ops ''acme/app'' ms True sample_index = (Inr (n, sk), x') \<and>
     lost (mem_seen sample_index) ''acme/app'' ms ''sha256:sign''"
proof -
  let ?s = "sample_manifest\<lparr>mf_subject := Some (sample_desc ''m'' ''sha256:gone'')\<rparr>"
  let ?ms = "[(''sha256:sign'', \<lparr>ta_desc = sample_top, ta_m = ?s, ta_added = 1\<rparr>)]"
  have "map_sum (\<lambda>_. ()) (\<lambda>(n, sk). map fst sk) (fst (planOrphans mem_ops ''acme/app'' ?ms True sample_index)) = Inr [''sha256:sign'']"
    by code_simp
  moreover obtain q x' where q: "planOrphans mem_ops ''acme/app'' ?ms True sample_index = (q, x')" by force
  ultimately obtain n sk where p: "planOrphans mem_ops ''acme/app'' ?ms True sample_index = (Inr (n, sk), x')" "map fst sk = [''sha256:sign'']"
    by (cases q) auto
  have "wf_map ?ms" by (simp add: wf_map_def)
  from plan_leaves_out_the_lost [OF _ this p(1)] p(2) show ?thesis
    unfolding Let_def using p(1) by (force simp: dom_map_of_conv_image_fst)
qed

end
