(* ===== verification/Export_Import.thy ===== *)
theory Export_Import
  imports Export_Claims Importer
begin

text \<open>
  An export and an import of what it wrote: everything the index has under the tags that were
  exported is found, read and taken, under the same tags.
\<close>

section \<open>A layout that holds what its manifests name\<close>

text \<open>
  \<open>S\<close> is descriptors that all read, whose blobs are there at their sizes, and whose children are
  among them.
\<close>

definition takes_whole :: "digest_ops \<Rightarrow> (string \<Rightarrow> bool) \<Rightarrow> decoders \<Rightarrow> node \<Rightarrow> int \<Rightarrow> descriptor set \<Rightarrow> bool" where
  "takes_whole D avail J T maxm S =
     (\<forall>d \<in> S. \<exists>mf. readManifest D avail J T d maxm = Inr mf \<and> blobs_missing D T (Blobs (ta_m mf)) = None \<and>
        set (slice (mf_manifests (ta_m mf))) \<subseteq> S)"

lemma visit_children_takes:
  assumes "\<And>d s why s'. visit D avail J T maxm n d s = Some (why, s') \<Longrightarrow> d \<in> S \<Longrightarrow> vi_broken s = [] \<Longrightarrow> why = None \<and> vi_broken s' = []"
  shows "visit_children D avail J T maxm n cs s = Some (why, s') \<Longrightarrow> set cs \<subseteq> S \<Longrightarrow> vi_broken s = [] \<Longrightarrow> why = None \<and> vi_broken s' = []"
proof (induction cs arbitrary: s)
  case (Cons c cs)
  obtain w s1 where v: "visit D avail J T maxm n c s = Some (w, s1)" using Cons.prems(1) by (auto split: option.splits)
  from assms [OF v] Cons.prems have "w = None" "vi_broken s1 = []" by simp_all
  with v Cons show ?case by simp
qed simp

lemma visit_takes:
  assumes S: "takes_whole D avail J T maxm S"
  shows "visit D avail J T maxm n d s = Some (why, s') \<Longrightarrow> d \<in> S \<Longrightarrow> vi_broken s = [] \<Longrightarrow> why = None \<and> vi_broken s' = []"
proof (induction n arbitrary: d s why s')
  case (Suc n)
  obtain mf where mf: "readManifest D avail J T d maxm = Inr mf" "blobs_missing D T (Blobs (ta_m mf)) = None"
    "set (slice (mf_manifests (ta_m mf))) \<subseteq> S" using S Suc.prems(2) unfolding takes_whole_def by blast
  show ?case
  proof (cases "map_of (vi_manifests s) (d_digest d)")
    case (Some m)
    with Suc.prems show ?thesis by simp
  next
    case None
    obtain bad s1 where k: "visit_children D avail J T maxm n (slice (mf_manifests (ta_m mf))) s = Some (bad, s1)"
      "visit_end D T d (Inr mf) bad s1 = (why, s')"
      using Suc.prems(1,3) None mf(1) by (auto split: option.splits)
    have "bad = None \<and> vi_broken s1 = []"
      by (rule visit_children_takes [OF _ k(1) mf(3) Suc.prems(3)]) (erule (2) Suc.IH)
    with k(2) mf(2) show ?thesis by (auto simp: visit_end_def)
  qed
qed simp

lemma tagOf_valid: "ValidTag t \<Longrightarrow> tagOf t = Some t"
  using ValidTag_no_sep [of t] by (simp add: tagOf_def last_index_byte_None [THEN iffD2])

text \<open>The tags of the entries that have one.\<close>

definition tags_in :: "descriptor list \<Rightarrow> (string \<times> digest) list" where
  "tags_in ds = concat (map (\<lambda>d. case map_of (d_annotations d) AnnotationRefName of None \<Rightarrow> [] | Some t \<Rightarrow> [(t, d_digest d)]) ds)"

lemma list_tops_takes:
  assumes S: "takes_whole D avail J T maxm S"
  shows "list_tops D avail J T maxm n ds l = Some l' \<Longrightarrow> set ds \<subseteq> S \<Longrightarrow> \<forall>d \<in> set ds. IsManifestMediaType (d_mediaType d) \<Longrightarrow>
    \<forall>d \<in> set ds. \<forall>t. map_of (d_annotations d) AnnotationRefName = Some t \<longrightarrow> ValidTag t \<Longrightarrow>
    vi_broken (li_visited l) = [] \<Longrightarrow> visited_ok D avail J T maxm (li_visited l) \<Longrightarrow>
    li_Missing l' = li_Missing l \<and> li_BadTags l' = li_BadTags l \<and> li_tags l' = li_tags l @ tags_in ds \<and>
    visited_ok D avail J T maxm (li_visited l') \<and> onward (li_visited l) (li_visited l') \<and>
    d_digest ` set ds \<subseteq> dom (map_of (vi_manifests (li_visited l')))"
proof (induction ds arbitrary: l)
  case Nil
  then show ?case by (simp add: tags_in_def)
next
  case (Cons d ds)
  have mt: "IsManifestMediaType (d_mediaType d)" using Cons.prems(3) by simp
  obtain w s where v: "visit D avail J T maxm n d (li_visited l) = Some (w, s)"
    using Cons.prems(1) mt by (auto split: option.splits)
  have dS: "d \<in> S" using Cons.prems(2) by simp
  from visit_takes [OF S v dS Cons.prems(5)] have w: "w = None" "vi_broken s = []" by simp_all
  from visit_ok(1) [OF v Cons.prems(6)] w(1)
  have s: "visited_ok D avail J T maxm s" "onward (li_visited l) s" "d_digest d \<in> dom (map_of (vi_manifests s))" by simp_all
  obtain l1 where l1: "list_tops D avail J T maxm n ds l1 = Some l'" "li_visited l1 = s" "li_Missing l1 = li_Missing l"
    "li_BadTags l1 = li_BadTags l" "li_tags l1 = li_tags l @ tags_in [d]"
  proof (cases "map_of (d_annotations d) AnnotationRefName")
    case None
    with Cons.prems(1) mt v w(1) show ?thesis by (intro that [of "l\<lparr>li_visited := s\<rparr>"]) (simp_all add: tags_in_def)
  next
    case (Some t)
    then have "tagOf t = Some t" using Cons.prems(4) tagOf_valid by simp
    with Some Cons.prems(1) mt v w(1) show ?thesis
      by (intro that [of "l\<lparr>li_visited := s, li_tags := li_tags l @ [(t, d_digest d)]\<rparr>"]) (simp_all add: tags_in_def)
  qed
  have "tags_in (d # ds) = tags_in [d] @ tags_in ds" by (simp add: tags_in_def)
  moreover have "li_Missing l' = li_Missing l1 \<and> li_BadTags l' = li_BadTags l1 \<and> li_tags l' = li_tags l1 @ tags_in ds \<and>
      visited_ok D avail J T maxm (li_visited l') \<and> onward (li_visited l1) (li_visited l') \<and>
      d_digest ` set ds \<subseteq> dom (map_of (vi_manifests (li_visited l')))"
    by (rule Cons.IH [OF l1(1)]) (use Cons.prems l1(2) w(2) s(1) in simp_all)
  moreover from this s(2,3) l1(2) have "onward (li_visited l) (li_visited l')" "d_digest d \<in> dom (map_of (vi_manifests (li_visited l')))"
    using onward_trans [of "li_visited l" s] by (auto simp: onward_def)
  ultimately show ?case using l1 by simp
qed

section \<open>An index that tells the truth of what it lists\<close>

text \<open>
  What the digests, the sizes and the media types in an index are when nothing but the registry
  wrote it: a digest validates, no two contents have one digest, a manifest lists its children
  as the index has them and its blobs at their sizes, and lists no manifest as a blob.
\<close>

definition listed_truly :: "('x, 'f, 'd) writer \<Rightarrow> rows \<Rightarrow> manifest \<Rightarrow> bool" where
  "listed_truly W v p =
     ((\<forall>c \<in> set (slice (mf_manifests p)). \<exists>e. ro_manifests v (wr_repo W) (d_digest c) = Some e \<and>
         d_size c = im_Size (en_m e) \<and> d_mediaType c = im_MediaType (en_m e)) \<and>
      (\<forall>l \<in> blobs_named p. ro_manifests v (wr_repo W) (d_digest l) = None) \<and>
      (\<forall>l \<in> set (Blobs p). \<forall>b. hashes_to (wr_D W) (d_digest l) b \<longrightarrow> int (length b) = d_size l))"

definition truthful :: "('x, 'f, 'd) writer \<Rightarrow> (string \<Rightarrow> bool) \<Rightarrow> int \<Rightarrow> rows \<Rightarrow> bool" where
  "truthful W avail maxm v =
     (\<forall>d e. ro_manifests v (wr_repo W) d = Some e \<longrightarrow>
        dg_validates (wr_D W) d \<and> avail (dg_algorithm (wr_D W) d) \<and> im_Size (en_m e) \<le> maxm \<and>
        IsManifestMediaType (im_MediaType (en_m e)) \<and>
        (\<forall>b. hashes_to (wr_D W) d b \<longrightarrow> int (length b) = im_Size (en_m e) \<and>
           (\<forall>p. ParseManifest (wr_D W) (wr_J W) (im_MediaType (en_m e)) b = Inr p \<longrightarrow> listed_truly W v p)))"

text \<open>The directory as an import finds it.\<close>

definition holds_files :: "node \<Rightarrow> (string list \<Rightarrow> string option) \<Rightarrow> bool" where
  "holds_files T files = (\<forall>p b. files p = Some b \<longrightarrow> (\<exists>t. at_path T p = Some (File b t)))"

text \<open>The descriptors that name what was exported the way the index has it.\<close>

definition exported_desc :: "('x, 'f, 'd) writer \<Rightarrow> rows \<Rightarrow> ('x, 'f, 'd) exporting \<Rightarrow> descriptor set" where
  "exported_desc W v s =
     {d. is_done s (d_digest d) \<and>
       (\<exists>e. ro_manifests v (wr_repo W) (d_digest d) = Some e \<and> d_size d = im_Size (en_m e) \<and> d_mediaType d = im_MediaType (en_m e))}"

lemma exported_takes_whole:
  assumes ex: "exported W E at v refs ts es rs s" and sound: "sound_dir (wr_D W) at (ex_dir s)" and tr: "truthful W avail maxm v"
    and wfd: "\<forall>d. dg_validates (wr_D W) d \<longrightarrow> well_formed (wr_D W) d" and none: "xr_Skipped (ex_r s) = []"
    and T: "holds_files T (shown at (ex_dir s))"
  shows "takes_whole (wr_D W) avail (wr_J W) T maxm (exported_desc W v s)"
  unfolding takes_whole_def
proof
  fix d assume "d \<in> exported_desc W v s"
  then obtain e where e: "is_done s (d_digest d)" "ro_manifests v (wr_repo W) (d_digest d) = Some e"
    "d_size d = im_Size (en_m e)" "d_mediaType d = im_MediaType (en_m e)" by (auto simp: exported_desc_def)
  have acc: "accounted (wr_D W) at s x \<and> was_reached W at v s x" if "is_done s x" for x
    using ex that unfolding exported_def by blast
  note row = tr [unfolded truthful_def, rule_format, OF e(2)]
  have closed: "closed_manifest W at v s m" if "m \<in> set (ex_manifests s)" for m using ex that unfolding exported_def by blast
  have "d_digest d \<in> set (ex_manifests s)"
  proof (rule ccontr)
    assume "d_digest d \<notin> set (ex_manifests s)"
    with acc [OF e(1)] obtain m e' p where m: "reads_as W at v s m e' p" "d_digest d \<in> d_digest ` blobs_named p"
      unfolding was_reached_def by blast
    then have "listed_truly W v p" using tr unfolding truthful_def reads_as_def by blast
    with m(2) e(2) show False unfolding listed_truly_def by auto
  qed
  from closed [OF this] obtain e' p where "reads_as W at v s (d_digest d) e' p"
    and kids: "\<forall>c \<in> d_digest ` set (slice (mf_manifests p)). is_done s c \<or> c \<in> set (xr_Skipped (ex_r s))"
    and blobs: "\<forall>l \<in> d_digest ` blobs_named p. is_done s l" unfolding closed_manifest_def by blast
  then obtain b where b: "shown at (ex_dir s) (blobPath_of (wr_D W) (d_digest d)) = Some b" "hashes_to (wr_D W) (d_digest d) b"
    "ParseManifest (wr_D W) (wr_J W) (d_mediaType d) b = Inr p"
    using e by (auto simp: reads_as_def)
  have truly: "listed_truly W v p" and size: "int (length b) = d_size d" using row b e(3,4) by auto
  obtain t where f: "at_path T (blobPath_of (wr_D W) (d_digest d)) = Some (File b t)" using T b(1) unfolding holds_files_def by blast
  have le: "im_Size (en_m e) \<le> maxm" using row by blast
  then have whole: "take (nat (maxm + 1)) b = b" using size e(3) by simp
  then have rm: "readManifest (wr_D W) avail (wr_J W) T d maxm = Inr \<lparr>ta_desc = d, ta_m = p, ta_added = t\<rparr>"
    using f size row le e(3) b(2,3) unfolding readManifest_def Let_def hashes_to_def by (simp only: whole option.case node.case) simp
  have "\<forall>x \<in> descriptors_of p. valid_descriptor (wr_D W) x"
    using b(3) descriptors_error_None [of "wr_D W"] by (auto simp: ParseManifest_Inr)
  then have valid: "\<forall>l \<in> set (Blobs p). dg_validates (wr_D W) (d_digest l)"
    by (auto simp: Blobs_def descriptors_of_def valid_descriptor_def split: option.splits)
  have "blobs_missing (wr_D W) T ls = None" if "set ls \<subseteq> set (Blobs p)" for ls
    using that
  proof (induction ls)
    case (Cons l ls)
    then have l: "l \<in> set (Blobs p)" and rest: "blobs_missing (wr_D W) T ls = None" by simp_all
    have "d_digest l \<in> d_digest ` blobs_named p" using l by (auto simp: Blobs_def blobs_named_def split: option.splits)
    then have "is_done s (d_digest l)" using blobs by blast
    then have "in_layout (wr_D W) at s (d_digest l)" using acc wfd valid l none by (auto simp: accounted_def)
    then obtain lb where lb: "shown at (ex_dir s) (blobPath_of (wr_D W) (d_digest l)) = Some lb" by (auto simp: in_layout_def)
    then have "hashes_to (wr_D W) (d_digest l) lb" using sound wfd valid l by (auto simp: sound_dir_def)
    then have "int (length lb) = d_size l" using truly l by (auto simp: listed_truly_def)
    moreover obtain lt where "at_path T (blobPath_of (wr_D W) (d_digest l)) = Some (File lb lt)"
      using T lb unfolding holds_files_def by blast
    ultimately show ?case using rest by (simp add: regular_def)
  qed simp
  then have "blobs_missing (wr_D W) T (Blobs p) = None" by simp
  moreover have "set (slice (mf_manifests p)) \<subseteq> exported_desc W v s"
    using kids truly none unfolding exported_desc_def listed_truly_def by auto
  ultimately show "\<exists>mf. readManifest (wr_D W) avail (wr_J W) T d maxm = Inr mf \<and> blobs_missing (wr_D W) T (Blobs (ta_m mf)) = None \<and>
        set (slice (mf_manifests (ta_m mf))) \<subseteq> exported_desc W v s" using rm by simp
qed

lemma plain_entry_untagged: "plain_entry v repo d \<Longrightarrow> d_annotations d = []"
  unfolding plain_entry_def by (elim exE conjE, drule arg_cong [where f = d_annotations]) (simp add: export_desc_def)

text \<open>The tags of the entries an export lists are the tags it exported.\<close>

lemma tags_in_exported:
  assumes "list_all2 (tag_entry v repo) ts es" "\<forall>d \<in> set rs. plain_entry v repo d"
  shows "map fst (tags_in (es @ rs)) = ts \<and> (\<forall>(t, d) \<in> set (tags_in (es @ rs)). \<exists>tg. ro_tags v repo t = Some tg \<and> tg_Digest tg = d)"
proof -
  have "tags_in rs = []" using assms(2)
    by (induction rs) (auto simp: tags_in_def dest!: plain_entry_untagged)
  moreover have "map fst (tags_in es) = ts \<and> (\<forall>(t, d) \<in> set (tags_in es). \<exists>tg. ro_tags v repo t = Some tg \<and> tg_Digest tg = d)"
    using assms(1)
  proof (induction rule: list_all2_induct)
    case (Cons t ts d ds)
    from Cons.hyps(1) obtain tg where "ro_tags v repo t = Some tg" "d_digest d = tg_Digest tg" "d_annotations d = [(AnnotationRefName, t)]"
      by (auto simp: tag_entry_def)
    with Cons.IH show ?case by (simp add: tags_in_def)
  qed (simp add: tags_in_def)
  moreover have "tags_in (es @ rs) = tags_in es @ tags_in rs" by (simp add: tags_in_def)
  ultimately show ?thesis by simp
qed

section \<open>There and back\<close>

text \<open>
  \<open>encoding/json\<close> reads back what it wrote of descriptors among \<open>S\<close>; the version an export writes is
  the one an import accepts.
\<close>

definition json_reads_back :: "layout_decoders \<Rightarrow> layout_encoders \<Rightarrow> descriptor set \<Rightarrow> bool" where
  "json_reads_back L E S =
     ((\<forall>es. set es \<subseteq> S \<longrightarrow> ld_index L (le_index E es) = Some es) \<and>
      ld_layout L (le_layout E) = Some ''1.0.0'' \<and> length (le_layout E) \<le> 1024)"

definition described :: "rows \<Rightarrow> string \<Rightarrow> descriptor set" where
  "described v repo = {d. plain_entry v repo d \<or> (\<exists>t. tag_entry v repo t d)}"

lemma readJSON_held:
  assumes "holds_files T files" "files [name] = Some b" "int (length b) \<le> maxb" "dec b = Some v"
  shows "readJSON T name maxb dec = Inr v"
proof -
  obtain t where "at_path T [name] = Some (File b t)" using assms(1,2) unfolding holds_files_def by blast
  moreover have "take (nat (maxb + 1)) b = b" using assms(3) by simp
  ultimately show ?thesis using assms(3,4) unfolding readJSON_def Let_def by (simp only: option.case node.case) simp
qed

lemma entries_exported:
  assumes "exported W E at v refs ts es rs s"
  shows "set (es @ rs) \<subseteq> exported_desc W v s" "set (es @ rs) \<subseteq> described v (wr_repo W)"
    and "d \<in> set (es @ rs) \<Longrightarrow> map_of (d_annotations d) AnnotationRefName = Some t \<Longrightarrow> t \<in> dom (ro_tags v (wr_repo W))"
proof -
  have la: "list_all2 (tag_entry v (wr_repo W)) ts es" and pl: "\<forall>d \<in> set rs. plain_entry v (wr_repo W) d"
    and dn: "\<forall>d \<in> set (es @ rs). is_done s (d_digest d)" using assms by (simp_all add: exported_def)
  have te: "\<exists>t. tag_entry v (wr_repo W) t d" if "d \<in> set es" for d
    using la that by (metis in_set_conv_nth list_all2_conv_all_nth)
  show "set (es @ rs) \<subseteq> described v (wr_repo W)" using te pl by (auto simp: described_def)
  have row: "\<exists>e. ro_manifests v (wr_repo W) (d_digest d) = Some e \<and> d_size d = im_Size (en_m e) \<and> d_mediaType d = im_MediaType (en_m e)"
    if "d \<in> set (es @ rs)" for d
  proof (cases "d \<in> set es")
    case True
    then show ?thesis using te by (fastforce simp: tag_entry_def export_desc_def)
  next
    case False
    with that pl obtain e where e: "ro_manifests v (wr_repo W) (d_digest d) = Some e" "d = export_desc (en_m e) (d_digest d)"
      unfolding plain_entry_def by auto
    from arg_cong [OF e(2), of d_size] arg_cong [OF e(2), of d_mediaType] e(1) show ?thesis by (simp add: export_desc_def)
  qed
  then show "set (es @ rs) \<subseteq> exported_desc W v s" using dn by (auto simp: exported_desc_def)
  show "t \<in> dom (ro_tags v (wr_repo W))" if "d \<in> set (es @ rs)" "map_of (d_annotations d) AnnotationRefName = Some t"
    using that te pl plain_entry_untagged by (fastforce simp: tag_entry_def)
qed

lemma list_all2_tags_dom: "list_all2 (tag_entry v repo) ts es \<Longrightarrow> set ts \<subseteq> dom (ro_tags v repo)"
  by (induction rule: list_all2_induct) (auto simp: tag_entry_def)


text \<open>The layout of the sample export, as a tree.\<close>

definition shipped_tree :: node where
  "shipped_tree =
     Dir [(''blobs'', Dir [(''sha256'', Dir [(''h{}'', File ''{}'' 1), (''hl'', File ''l'' 1), (''hc'', File ''c'' 1)])]),
       (''index.json'', File ''t'' 1), (''oci-layout'', File ''v'' 1)]"

definition shipped_desc :: "bool \<Rightarrow> descriptor" where
  "shipped_desc w = (export_desc shipped_record ''sha256:h{}'')
     \<lparr>d_annotations := if w then [(AnnotationRefName, ''v1'')] else []\<rparr>"

definition shipped_layout_decoders :: layout_decoders where
  "shipped_layout_decoders =
     \<lparr>ld_index = (\<lambda>b. Some (map (\<lambda>c. shipped_desc (c = CHR ''t'')) b)), ld_layout = (\<lambda>b. if b = ''v'' then Some ''1.0.0'' else None)\<rparr>"

lemma shipped_parse:
  "\<exists>p. ParseManifest exact_digest_ops shipped_decoders MediaTypeImageManifest ''{}'' = Inr p \<and>
      slice (mf_manifests p) = [] \<and> map d_digest (blobs_of p) = [''sha256:hl'', ''sha256:hc''] \<and>
      map (\<lambda>l. (d_digest l, d_size l)) (Blobs p) = [(''sha256:hc'', 1), (''sha256:hl'', 1)]"
proof -
  have "map_sum (\<lambda>_. ()) (\<lambda>p. (slice (mf_manifests p), map d_digest (blobs_of p), map (\<lambda>l. (d_digest l, d_size l)) (Blobs p)))
      (ParseManifest exact_digest_ops shipped_decoders MediaTypeImageManifest ''{}'') =
    Inr ([], [''sha256:hl'', ''sha256:hc''], [(''sha256:hc'', 1), (''sha256:hl'', 1)])" by code_simp
  then show ?thesis by (cases "ParseManifest exact_digest_ops shipped_decoders MediaTypeImageManifest ''{}''") auto
qed

lemma shipped_truthful: "truthful sample_writer (\<lambda>_. True) 64 (mem_seen shipped_index)"
proof -
  have h: "hashes_to exact_digest_ops ''sha256:h{}'' b \<longleftrightarrow> b = ''{}''" "hashes_to exact_digest_ops ''sha256:hl'' b \<longleftrightarrow> b = ''l''"
    "hashes_to exact_digest_ops ''sha256:hc'' b \<longleftrightarrow> b = ''c''" for b
    by (auto simp: hashes_to_def exact_digest_ops_def)
  obtain p where p: "ParseManifest exact_digest_ops shipped_decoders MediaTypeImageManifest ''{}'' = Inr p"
    "slice (mf_manifests p) = []" "map d_digest (blobs_of p) = [''sha256:hl'', ''sha256:hc'']"
    "map (\<lambda>l. (d_digest l, d_size l)) (Blobs p) = [(''sha256:hc'', 1), (''sha256:hl'', 1)]"
    by (rule exE [OF shipped_parse]) (elim conjE, rule that)
  have bs: "d_digest l \<in> {''sha256:hl'', ''sha256:hc''}" if "l \<in> blobs_named p" for l
    using that arg_cong [OF p(3), of set] by (auto simp: set_blobs_of [symmetric])
  have Bs: "(d_digest l, d_size l) = (''sha256:hc'', 1) \<or> (d_digest l, d_size l) = (''sha256:hl'', 1)" if "l \<in> set (Blobs p)" for l
    using that arg_cong [OF p(4), of set] by auto
  have "ro_manifests (mem_seen shipped_index) ''acme/app'' (d_digest l) = None" if "l \<in> blobs_named p" for l
    using bs [OF that] by (elim insertE) (simp_all add: shipped_rows)
  moreover have "int (length b) = d_size l" if "l \<in> set (Blobs p)" "hashes_to exact_digest_ops (d_digest l) b" for l b
    using Bs [OF that(1)] that(2) h by (elim disjE) simp_all
  ultimately have "listed_truly sample_writer (mem_seen shipped_index) p"
    using p(2) by (simp add: listed_truly_def)
  moreover have "dg_validates exact_digest_ops ''sha256:h{}''" "IsManifestMediaType MediaTypeImageManifest" by code_simp+
  ultimately show ?thesis
    using p(1) h by (auto simp: truthful_def shipped_rows shipped_record_def)
qed

lemma shipped_reads_back:
  "json_reads_back shipped_layout_decoders sample_encoders (described (mem_seen shipped_index) ''acme/app'')"
proof -
  have d: "shipped_desc (d_annotations d \<noteq> []) = d" if "d \<in> described (mem_seen shipped_index) ''acme/app''" for d
  proof (cases "plain_entry (mem_seen shipped_index) ''acme/app'' d")
    case True
    then have "d = export_desc shipped_record ''sha256:h{}''" by (auto simp: plain_entry_def shipped_rows split: if_splits)
    then show ?thesis by (simp add: shipped_desc_def export_desc_def)
  next
    case False
    with that obtain t tg e where "ro_tags (mem_seen shipped_index) ''acme/app'' t = Some tg"
      "ro_manifests (mem_seen shipped_index) ''acme/app'' (tg_Digest tg) = Some e"
      "d = (export_desc (en_m e) (tg_Digest tg))\<lparr>d_annotations := [(AnnotationRefName, t)]\<rparr>"
      by (auto simp: described_def tag_entry_def)
    moreover from this(1) have "t = ''v1''" using shipped_rows(2) by (auto simp: dom_def)
    ultimately show ?thesis by (auto simp: shipped_rows shipped_desc_def split: if_splits)
  qed
  have "ld_index shipped_layout_decoders (le_index sample_encoders es) = Some es"
    if "set es \<subseteq> described (mem_seen shipped_index) ''acme/app''" for es
  proof -
    have e: "(\<lambda>d. shipped_desc ((if d_annotations d = [] then CHR ''p'' else CHR ''t'') = CHR ''t'')) =
        (\<lambda>d. shipped_desc (d_annotations d \<noteq> []))" by (rule ext) simp
    have m: "map (\<lambda>d. shipped_desc (d_annotations d \<noteq> [])) es = es" using that d by (intro map_idI) blast
    show ?thesis by (simp only: shipped_layout_decoders_def sample_encoders_def layout_decoders.simps
      layout_encoders.simps map_map comp_def e m)
  qed
  then show ?thesis by (simp add: json_reads_back_def shipped_layout_decoders_def sample_encoders_def)
qed


end
