(* ===== verification/Upstream_Client.thy ===== *)
theory Upstream_Client
  imports Oci_Manifest Http Auth_Token Index_Api
begin

text \<open>
  The client of an upstream registry (\<open>blob/upstream.go\<close>): its configuration, one request with
  the challenge it may be answered with, and the tokens kept between requests.  The world outside
  is a state \<open>'n\<close>: the network, the clock, the files a credential is kept in.  What \<open>net/http\<close>,
  \<open>net/url\<close>, \<open>encoding/json\<close>, \<open>encoding/base64\<close> and \<open>mime\<close> make of it are the fields of
  a record.  Not modelled: what is measured, and the closing of bodies.
\<close>

section \<open>What goes over the wire\<close>

record url =
  u_Scheme :: string
  u_User :: bool
  u_Host :: string
  u_Path :: string
  u_RawQuery :: string
  u_ForceQuery :: bool
  u_Fragment :: string

record sent =
  hq_Method :: string
  hq_URL :: string
  hq_Header :: header

text \<open>
  The body of an answer is what its reads answer, one after another: some bytes, and with them
  nothing, the end, or the error the connection broke with.  After the last there is the end.
  \<open>an_Length\<close> is -1 when it is not known.
\<close>

type_synonym reads = "(string \<times> error option) list"

record answer =
  an_Status :: int
  an_Header :: header
  an_Length :: int
  an_Body :: reads

text \<open>
  \<open>os_done\<close> is what the context's \<open>Err\<close> answers, \<open>os_net_error\<close> whether an error is a
  \<open>net.Error\<close>, \<open>os_range\<close> the three numbers \<open>fmt.Sscanf\<close> reads of a \<open>Content-Range\<close>, and
  \<open>os_token\<close> the token, the access token and the seconds of a token endpoint's JSON.
\<close>

record 'n outside =
  os_do :: "sent \<Rightarrow> ('n, answer) op"
  os_now :: "'n \<Rightarrow> time"
  os_done :: "'n \<Rightarrow> error option"
  os_parse :: "string \<Rightarrow> url option"
  os_url :: "url \<Rightarrow> string"
  os_resolve :: "url \<Rightarrow> url \<Rightarrow> url"
  os_uri :: "url \<Rightarrow> string"
  os_query :: "url \<Rightarrow> url_values"
  os_encode :: "url_values \<Rightarrow> string"
  os_base64 :: "string \<Rightarrow> string"
  os_token :: "string \<Rightarrow> (string \<times> string \<times> int) option"
  os_index :: "string \<Rightarrow> descriptor list option"
  os_media :: "string \<Rightarrow> string"
  os_range :: "string \<Rightarrow> (int \<times> int \<times> int) option"
  os_net_error :: "error \<Rightarrow> bool"

definition EOF :: error where
  "EOF = Other ''EOF''"

definition ErrUnexpectedEOF :: error where
  "ErrUnexpectedEOF = Other ''unexpected EOF''"

definition hget :: "header \<Rightarrow> string \<Rightarrow> string" where
  "hget h k = (case map_of h k of Some v \<Rightarrow> v | None \<Rightarrow> '''')"

section \<open>An upstream\<close>

text \<open>A secret is read when it is used: it is what the outside has of it then.\<close>

type_synonym 'n secret_value = "'n \<Rightarrow> error + string"

record 'n origin =
  og_id :: nat
  og_base :: url
  og_username :: string
  og_password :: "'n secret_value option"
  og_bearer :: "'n secret_value option"

definition WithPassword :: "string \<Rightarrow> 'n secret_value option \<Rightarrow> 'n origin \<Rightarrow> 'n origin" where
  "WithPassword username password u = u\<lparr>og_username := username, og_password := password\<rparr>"

definition WithBearer :: "'n secret_value option \<Rightarrow> 'n origin \<Rightarrow> 'n origin" where
  "WithBearer token u = u\<lparr>og_bearer := token\<rparr>"

definition NewUpstream :: "'n outside \<Rightarrow> nat \<Rightarrow> string \<Rightarrow> ('n origin \<Rightarrow> 'n origin) list \<Rightarrow> error + 'n origin" where
  "NewUpstream os i raw opts =
     (case os_parse os raw of
        None \<Rightarrow> Inl (Other ''parse'')
      | Some u \<Rightarrow>
          if (u_Scheme u \<noteq> ''http'' \<and> u_Scheme u \<noteq> ''https'') \<or> u_Host u = '''' then
            Inl (Other ''upstream: want an http or https URL'')
          else
            Inr (foldl (\<lambda>v opt. opt v)
              \<lparr>og_id = i, og_base = u\<lparr>u_Path := trim_suffix (u_Path u) ''/''\<rparr>, og_username = '''',
                 og_password = None, og_bearer = None\<rparr> opts))"

definition origin_Registry :: "'n origin \<Rightarrow> string" where
  "origin_Registry u =
     (let h = to_lower (u_Host (og_base u))
      in if h = ''registry-1.docker.io'' \<or> h = ''index.docker.io'' then ''docker.io'' else h)"

text \<open>The tokens of every upstream, by its identity, beside the outside.\<close>

record upstream_token =
  ut_auth :: string
  ut_expires :: time

record 'n client =
  cl_tokens :: "nat \<Rightarrow> (string, upstream_token) gomap"
  cl_out :: 'n

definition on_out :: "('n, 'r) op \<Rightarrow> ('n client, 'r) op" where
  "on_out g c = (case g (cl_out c) of (r, n) \<Rightarrow> (r, c\<lparr>cl_out := n\<rparr>))"

definition upstream_cached :: "'n outside \<Rightarrow> 'n origin \<Rightarrow> string \<Rightarrow> 'n client \<Rightarrow> string" where
  "upstream_cached os u scope c =
     (case map_of (cl_tokens c (og_id u)) scope of
        None \<Rightarrow> ''''
      | Some t \<Rightarrow> if \<not> os_now os (cl_out c) < ut_expires t then '''' else ut_auth t)"

section \<open>Sending\<close>

definition upstream_send :: "'n outside \<Rightarrow> sent \<Rightarrow> ('n, answer) op" where
  "upstream_send os q n =
     (case os_do os q n of
        (Inl e, n1) \<Rightarrow> (Inl (Joined [UpstreamUnreachable, e]), n1)
      | (Inr res, n1) \<Rightarrow> (Inr res, n1))"

definition send_as :: "'n outside \<Rightarrow> 'n origin \<Rightarrow> string \<Rightarrow> string \<Rightarrow> header \<Rightarrow> string \<Rightarrow> ('n, answer) op" where
  "send_as os u method path h auth n =
     (let raw = os_url os (og_base u) @ path in
      case os_parse os raw of
        None \<Rightarrow> (Inl (Other ''request''), n)
      | Some _ \<Rightarrow>
          upstream_send os
            \<lparr>hq_Method = method, hq_URL = raw,
             hq_Header = (if auth \<noteq> '''' then AList.update ''Authorization'' auth h else h)\<rparr> n)"

text \<open>
  A status that was not asked for.  \<open>Unwrap\<close> makes a 401 or a 403 the sentinel for credentials
  that were refused, too.
\<close>

definition upstream_status :: "int \<Rightarrow> error" where
  "upstream_status n = (if n = 401 \<or> n = 403 then Joined [UpstreamStatus n, UpstreamUnauthorized] else UpstreamStatus n)"

definition upstreamErr :: "answer \<Rightarrow> error" where
  "upstreamErr res = (if an_Status res = 404 then Flob NotExist else upstream_status (an_Status res))"

definition upstreamReadError :: "'n outside \<Rightarrow> error \<Rightarrow> error" where
  "upstreamReadError os e =
     (if errors_is e ErrUnexpectedEOF \<or> os_net_error os e then Joined [UpstreamUnreachable, e] else e)"

text \<open>\<open>io.ReadAll(io.LimitReader(body, n))\<close>.\<close>

fun read_limited :: "nat \<Rightarrow> reads \<Rightarrow> error + string" where
  "read_limited n [] = Inr ''''"
| "read_limited n ((b, e) # rs) =
     (if n = 0 then Inr ''''
      else if n < length b then Inr (take n b)
      else
        (case e of
           None \<Rightarrow> (case read_limited (n - length b) rs of Inl e \<Rightarrow> Inl e | Inr s \<Rightarrow> Inr (b @ s))
         | Some e \<Rightarrow> if e = EOF then Inr b else Inl e))"

section \<open>A challenge\<close>

text \<open>The value of a parameter, quoted or up to the next comma, and what is after it.\<close>

definition challenge_value :: "string \<Rightarrow> string \<times> string" where
  "challenge_value s =
     (if prefix [CHR 0x22] s then
        (case index_byte (CHR 0x22) (drop 1 s) of
           None \<Rightarrow> (drop 1 s, '''')
         | Some i \<Rightarrow> (take i (drop 1 s), drop (2 + i) s))
      else (case cut (CHR '','') s of (v, r, _) \<Rightarrow> (v, r)))"

definition trim_commas :: "string \<Rightarrow> string" where
  "trim_commas s = dropWhile (\<lambda>c. c = CHR '','') s"

lemma length_cut: "cut c s = (a, b, f) \<Longrightarrow> length b \<le> length s"
  by (induction s arbitrary: a) (auto split: if_splits prod.splits intro: le_SucI)

lemma length_challenge_value: "challenge_value s = (v, r) \<Longrightarrow> length r \<le> length s"
  by (auto simp: challenge_value_def split: if_splits option.splits prod.splits dest: length_cut)

lemma length_trim_space: "length (trim_space s) \<le> length s"
  unfolding trim_space_def by (metis length_dropWhile_le length_rev order_trans)

lemma length_next_param: "length (trim_commas (trim_space s)) \<le> length s"
  unfolding trim_commas_def using length_dropWhile_le length_trim_space by (rule order_trans)

function challenge_params :: "string \<Rightarrow> (string, string) gomap \<Rightarrow> (string, string) gomap" where
  "challenge_params s ps =
     (if s = '''' then ps
      else
        (case cut (CHR ''='') s of
           (k, after, found) \<Rightarrow>
             if \<not> found then ps
             else
               (case challenge_value after of
                  (v, r) \<Rightarrow> challenge_params (trim_commas (trim_space r)) (AList.update (to_lower (trim_space k)) (trim_space v) ps))))"
  by pat_completeness auto
termination
  by (relation "measure (\<lambda>(s, ps). length s)")
    (auto dest!: cut_True [OF sym] length_challenge_value [OF sym] intro!: le_less_trans [OF length_next_param])

declare challenge_params.simps [simp del]

definition parseChallenge :: "string \<Rightarrow> string \<times> (string, string) gomap" where
  "parseChallenge v =
     (case cut (CHR '' '') (trim_space v) of (scheme, r, _) \<Rightarrow> (scheme, challenge_params (trim_space r) []))"

section \<open>Answering it\<close>

definition currentPassword :: "'n origin \<Rightarrow> 'n \<Rightarrow> error + string" where
  "currentPassword u n =
     (case og_password u of
        None \<Rightarrow> Inr ''''
      | Some v \<Rightarrow> (case v n of Inl e \<Rightarrow> Inl (Joined [UpstreamUnauthorized, e]) | Inr p \<Rightarrow> Inr p))"

definition basic_auth :: "'n outside \<Rightarrow> string \<Rightarrow> string \<Rightarrow> string" where
  "basic_auth os username password = ''Basic '' @ os_base64 os (username @ '':'' @ password)"

definition token_ttl :: "int \<Rightarrow> duration" where
  "token_ttl expires_in = (let ttl = wrap64 (expires_in * Second) in if ttl \<le> 0 then 60 * Second else ttl)"

text \<open>What the token endpoint is asked: the realm with the service and the scope in its query.\<close>

definition realm_url :: "'n outside \<Rightarrow> url \<Rightarrow> string \<Rightarrow> string \<Rightarrow> string" where
  "realm_url os realm service scope =
     (let q = os_query os realm;
          q1 = (if service \<noteq> '''' then AList.update ''service'' [service] q else q);
          q2 = AList.update ''scope'' [scope] q1
      in os_url os (realm\<lparr>u_RawQuery := os_encode os q2\<rparr>))"

text \<open>What is made of its answer: the token, and how long it is good.\<close>

definition token_of :: "'n outside \<Rightarrow> answer \<Rightarrow> error + (string \<times> duration)" where
  "token_of os res =
     (if an_Status res \<noteq> 200 then
        (if an_Status res \<ge> 500 \<and> an_Status res \<le> 599 then Inl (upstreamErr res)
         else Inl (Wrapped ''token endpoint'' UpstreamUnauthorized))
      else
        (case read_limited (2 ^ 20 + 1) (an_Body res) of
           Inl e \<Rightarrow> Inl (upstreamReadError os e)
         | Inr body \<Rightarrow>
             if length body > 2 ^ 20 then Inl (Other ''upstream: token response is larger than 1 MiB'')
             else
               (case os_token os body of
                  None \<Rightarrow> Inl (Other ''json'')
                | Some (t, access, expires_in) \<Rightarrow>
                    (let token = (if t = '''' then access else t)
                     in if token = '''' then Inl (Wrapped ''no token'' UpstreamUnauthorized)
                        else Inr (token, token_ttl expires_in)))))"

definition keep_token :: "'n outside \<Rightarrow> 'n origin \<Rightarrow> string \<Rightarrow> string \<Rightarrow> duration \<Rightarrow> 'n client \<Rightarrow> 'n client" where
  "keep_token os u scope auth ttl c =
     c\<lparr>cl_tokens := (cl_tokens c)(og_id u :=
        AList.update scope \<lparr>ut_auth = auth, ut_expires = os_now os (cl_out c) + (ttl - min (ttl div 10) (10 * Second))\<rparr>
          (cl_tokens c (og_id u)))\<rparr>"

definition fetch_token :: "'n outside \<Rightarrow> 'n origin \<Rightarrow> url \<Rightarrow> string \<Rightarrow> string \<Rightarrow> ('n client, string) op" where
  "fetch_token os u realm service scope c =
     (let raw = realm_url os realm service scope in
      case os_parse os raw of
        None \<Rightarrow> (Inl (Other ''request''), c)
      | Some _ \<Rightarrow>
          (case (if og_username u \<noteq> '''' then map_sum id Some (currentPassword u (cl_out c)) else Inr None) of
             Inl e \<Rightarrow> (Inl e, c)
           | Inr pw \<Rightarrow>
               (case on_out (upstream_send os \<lparr>hq_Method = ''GET'', hq_URL = raw,
                     hq_Header = (case pw of None \<Rightarrow> [] | Some p \<Rightarrow> [(''Authorization'', basic_auth os (og_username u) p)])\<rparr>) c of
                  (Inl e, c1) \<Rightarrow> (Inl e, c1)
                | (Inr res, c1) \<Rightarrow>
                    (case token_of os res of
                       Inl e \<Rightarrow> (Inl e, c1)
                     | Inr (token, ttl) \<Rightarrow> (Inr (''Bearer '' @ token), keep_token os u scope (''Bearer '' @ token) ttl c1)))))"

definition param :: "(string, string) gomap \<Rightarrow> string \<Rightarrow> string" where
  "param ps k = (case map_of ps k of None \<Rightarrow> '''' | Some v \<Rightarrow> v)"

definition authorize :: "'n outside \<Rightarrow> 'n origin \<Rightarrow> string \<Rightarrow> string \<Rightarrow> ('n client, string) op" where
  "authorize os u challenge scope c =
     (case parseChallenge challenge of
        (scheme, ps) \<Rightarrow>
          if to_lower scheme = ''basic'' then
            (if og_username u = '''' then (Inl UpstreamUnauthorized, c)
             else
               (case currentPassword u (cl_out c) of
                  Inl e \<Rightarrow> (Inl e, c)
                | Inr p \<Rightarrow> (Inr (basic_auth os (og_username u) p), c)))
          else if to_lower scheme = ''bearer'' then
            (case os_parse os (param ps ''realm'') of
               None \<Rightarrow> (Inl (Wrapped ''realm'' UpstreamUnauthorized), c)
             | Some realm \<Rightarrow>
                 if u_Host realm = '''' then (Inl (Wrapped ''realm'' UpstreamUnauthorized), c)
                 else fetch_token os u realm (param ps ''service'') scope c)
          else if scheme = '''' then (Inl (Wrapped ''401 without a challenge'' UpstreamUnauthorized), c)
          else (Inl (Wrapped ''challenge'' UpstreamUnauthorized), c))"

section \<open>A request\<close>

definition upstream_request :: "'n outside \<Rightarrow> 'n origin \<Rightarrow> string \<Rightarrow> string \<Rightarrow> string \<Rightarrow> header \<Rightarrow> ('n client, answer) op" where
  "upstream_request os u method repo path h c =
     (let scope = ''repository:'' @ repo @ '':pull'' in
      case og_bearer u of
        Some v \<Rightarrow>
          (case v (cl_out c) of
             Inl e \<Rightarrow> (Inl (Joined [UpstreamUnauthorized, e]), c)
           | Inr token \<Rightarrow> on_out (send_as os u method path h (''Bearer '' @ token)) c)
      | None \<Rightarrow>
          (case on_out (send_as os u method path h (upstream_cached os u scope c)) c of
             (Inl e, c1) \<Rightarrow> (Inl e, c1)
           | (Inr res, c1) \<Rightarrow>
               if an_Status res \<noteq> 401 then (Inr res, c1)
               else
                 (case authorize os u (hget (an_Header res) ''WWW-Authenticate'') scope c1 of
                    (Inl e, c2) \<Rightarrow> (Inl e, c2)
                  | (Inr auth, c2) \<Rightarrow> on_out (send_as os u method path h auth) c2)))"

end
