(* ===== verification/Upstream.thy ===== *)
theory Upstream
  imports Upstream_Client
begin

text \<open>
  What a pull-through cache reads from its upstreams (\<open>blob/upstream.go\<close>, \<open>blob/upstreams.go\<close>):
  manifests, referrers and blobs, each from the first of an ordered group of origins that answers,
  and the reader of a blob that goes on at the next origin where one broke off.
\<close>

section \<open>A group of origins\<close>

record 'n upstream =
  us_origin :: "'n origin"
  us_fallbacks :: "'n origin list"

fun new_origins :: "'n outside \<Rightarrow> nat \<Rightarrow> (string \<times> ('n origin \<Rightarrow> 'n origin) list) list \<Rightarrow> error + 'n origin list" where
  "new_origins os i [] = Inr []"
| "new_origins os i ((raw, opts) # ts) =
     (case NewUpstream os i raw opts of
        Inl e \<Rightarrow> Inl (Wrapped ''upstreams: url'' e)
      | Inr u \<Rightarrow>
          if u_User (og_base u) \<or> u_RawQuery (og_base u) \<noteq> '''' \<or> u_ForceQuery (og_base u) \<or> u_Fragment (og_base u) \<noteq> '''' then
            Inl (Other ''upstreams: URL must not contain credentials, query or fragment'')
          else (case new_origins os (Suc i) ts of Inl e \<Rightarrow> Inl e | Inr us \<Rightarrow> Inr (u # us)))"

definition NewUpstreams :: "'n outside \<Rightarrow> (string \<times> ('n origin \<Rightarrow> 'n origin) list) list \<Rightarrow> error + 'n upstream" where
  "NewUpstreams os targets =
     (if targets = [] then Inl (Other ''upstreams: at least one URL is required'')
      else
        (case new_origins os 0 targets of
           Inl e \<Rightarrow> Inl e
         | Inr us \<Rightarrow> Inr \<lparr>us_origin = hd us, us_fallbacks = tl us\<rparr>))"

definition origins :: "'n upstream \<Rightarrow> 'n origin list" where
  "origins U = us_origin U # us_fallbacks U"

text \<open>The first status in an error, as \<open>errors.As\<close> finds it.\<close>

fun as_status :: "error \<Rightarrow> int option" where
  "as_status (UpstreamStatus n) = Some n"
| "as_status (Wrapped s e) = as_status e"
| "as_status (Joined es) = foldr (\<lambda>e r. case as_status e of Some n \<Rightarrow> Some n | None \<Rightarrow> r) es None"
| "as_status e = None"

definition retryUpstream :: "'n outside \<Rightarrow> 'n \<Rightarrow> error \<Rightarrow> bool" where
  "retryUpstream os n e =
     (if os_done os n \<noteq> None \<or> errors_is e Canceled then False
      else (case as_status e of Some s \<Rightarrow> 500 \<le> s \<and> s \<le> 599 | None \<Rightarrow> errors_is e UpstreamUnreachable))"

text \<open>\<open>several\<close> says whether there is more than one origin, \<open>failures\<close> what failed so far.\<close>

fun try_each :: "'n outside \<Rightarrow> bool \<Rightarrow> ('n origin \<Rightarrow> ('n client, 'r) op) \<Rightarrow> error list \<Rightarrow> 'n origin list \<Rightarrow> ('n client, 'r) op" where
  "try_each os several run failures [] c = (Inl (Joined failures), c)"
| "try_each os several run failures (u # us) c =
     (case run u c of
        (Inr v, c1) \<Rightarrow> (Inr v, c1)
      | (Inl e, c1) \<Rightarrow>
          if \<not> retryUpstream os (cl_out c1) e \<or> \<not> several then (Inl e, c1)
          else try_each os several run (failures @ [Wrapped (''upstream '' @ u_Host (og_base u)) e]) us c1)"

definition tryUpstreams :: "'n outside \<Rightarrow> 'n upstream \<Rightarrow> ('n origin \<Rightarrow> ('n client, 'r) op) \<Rightarrow> ('n client, 'r) op" where
  "tryUpstreams os U run c = try_each os (length (origins U) \<noteq> 1) run [] (origins U) c"

section \<open>Manifests\<close>

definition ManifestAccept :: string where
  "ManifestAccept = ''application/vnd.oci.image.index.v1+json, application/vnd.oci.image.manifest.v1+json, '' @
     ''application/vnd.docker.distribution.manifest.list.v2+json, application/vnd.docker.distribution.manifest.v2+json''"

definition headManifest :: "digest_ops \<Rightarrow> 'n outside \<Rightarrow> string \<Rightarrow> string \<Rightarrow> 'n origin \<Rightarrow> ('n client, digest) op" where
  "headManifest D os repo reference u c =
     (case upstream_request os u ''HEAD'' repo (''/v2/'' @ repo @ ''/manifests/'' @ reference) [(''Accept'', ManifestAccept)] c of
        (Inl e, c1) \<Rightarrow> (Inl e, c1)
      | (Inr res, c1) \<Rightarrow>
          if an_Status res \<noteq> 200 then (Inl (upstreamErr res), c1)
          else
            (let d = hget (an_Header res) ''Docker-Content-Digest''
             in (Inr (if dg_validates D d then d else ''''), c1)))"

definition upstream_HeadManifest :: "digest_ops \<Rightarrow> 'n outside \<Rightarrow> 'n upstream \<Rightarrow> string \<Rightarrow> string \<Rightarrow> ('n client, digest) op" where
  "upstream_HeadManifest D os U repo reference = tryUpstreams os U (headManifest D os repo reference)"

text \<open>What is made of the bytes of a manifest: its digest, checked when it was asked for by one.\<close>

definition manifest_digest :: "digest_ops \<Rightarrow> string \<Rightarrow> string \<Rightarrow> error + digest" where
  "manifest_digest D reference b =
     (if contains reference '':'' then
        (if \<not> dg_validates D reference then Inl (Other ''upstream: reference'')
         else
           (let d = dg_from_bytes D (dg_algorithm D reference) b
            in if reference \<noteq> d then Inl (Other ''upstream: hashes to'') else Inr d))
      else Inr (dg_from_bytes D ''sha256'' b))"

definition upstream_getManifest :: "digest_ops \<Rightarrow> 'n outside \<Rightarrow> string \<Rightarrow> string \<Rightarrow> int \<Rightarrow> 'n origin \<Rightarrow> ('n client, string \<times> string \<times> digest) op" where
  "upstream_getManifest D os repo reference maxb u c =
     (case upstream_request os u ''GET'' repo (''/v2/'' @ repo @ ''/manifests/'' @ reference) [(''Accept'', ManifestAccept)] c of
        (Inl e, c1) \<Rightarrow> (Inl e, c1)
      | (Inr res, c1) \<Rightarrow>
          if an_Status res \<noteq> 200 then (Inl (upstreamErr res), c1)
          else
            (case read_limited (nat (maxb + 1)) (an_Body res) of
               Inl e \<Rightarrow> (Inl (upstreamReadError os e), c1)
             | Inr b \<Rightarrow>
                 if int (length b) > maxb then (Inl (Other ''upstream: the manifest is larger than the limit''), c1)
                 else
                   (case manifest_digest D reference b of
                      Inl e \<Rightarrow> (Inl e, c1)
                    | Inr d \<Rightarrow> (Inr (b, os_media os (hget (an_Header res) ''Content-Type''), d), c1))))"

definition upstream_GetManifest :: "digest_ops \<Rightarrow> 'n outside \<Rightarrow> 'n upstream \<Rightarrow> string \<Rightarrow> string \<Rightarrow> int \<Rightarrow> ('n client, string \<times> string \<times> digest) op" where
  "upstream_GetManifest D os U repo reference maxb c =
     (if us_fallbacks U \<noteq> [] \<and> \<not> contains reference '':'' then
        (case upstream_HeadManifest D os U repo reference c of
           (Inl e, c1) \<Rightarrow> (Inl e, c1)
         | (Inr d, c1) \<Rightarrow>
             if d = '''' then (Inl (Other ''upstream: tag did not resolve to a digest''), c1)
             else tryUpstreams os U (upstream_getManifest D os repo d maxb) c1)
      else tryUpstreams os U (upstream_getManifest D os repo reference maxb) c)"

section \<open>Referrers\<close>

definition maxReferrersPages :: nat where
  "maxReferrersPages = 100"

text \<open>The path of the next page a \<open>Link\<close> names, or nothing.\<close>

fun link_next :: "'n outside \<Rightarrow> 'n origin \<Rightarrow> string \<Rightarrow> string list \<Rightarrow> error + string" where
  "link_next os u path [] = Inr ''''"
| "link_next os u path (part # parts) =
     (case cut (CHR '';'') (trim_space part) of
        (target, params, found) \<Rightarrow>
          if \<not> found \<or> \<not> contains (filter (\<lambda>c. c \<noteq> CHR '' '') params) (''rel='' @ [CHR 0x22] @ ''next'' @ [CHR 0x22]) then
            link_next os u path parts
          else
            (case os_parse os (trim_suffix (trim_prefix (trim_space target) ''<'') ''>'') of
               None \<Rightarrow> Inl (Other ''upstream: referrers: link'')
             | Some ref \<Rightarrow>
                 (case os_parse os (os_url os (og_base u) @ path) of
                    None \<Rightarrow> Inl (Other ''parse'')
                  | Some cur \<Rightarrow>
                      (let next = os_resolve os cur ref
                       in if u_Host next \<noteq> u_Host (og_base u) then Inl (Other ''upstream: referrers: link to another host'')
                          else Inr (trim_prefix (os_uri os next) (u_Path (og_base u)))))))"

definition nextPage :: "'n outside \<Rightarrow> 'n origin \<Rightarrow> string \<Rightarrow> string \<Rightarrow> error + string" where
  "nextPage os u path link = link_next os u path (split_on (CHR '','') link)"

definition referrersPage :: "'n outside \<Rightarrow> string \<Rightarrow> string \<Rightarrow> int \<Rightarrow> 'n origin \<Rightarrow> ('n client, descriptor list \<times> string) op" where
  "referrersPage os repo path maxb u c =
     (case upstream_request os u ''GET'' repo path [(''Accept'', ''application/vnd.oci.image.index.v1+json'')] c of
        (Inl e, c1) \<Rightarrow> (Inl e, c1)
      | (Inr res, c1) \<Rightarrow>
          if an_Status res \<noteq> 200 then (Inl (upstreamErr res), c1)
          else
            (case read_limited (nat (maxb + 1)) (an_Body res) of
               Inl e \<Rightarrow> (Inl (Joined [UpstreamUnreachable, e]), c1)
             | Inr b \<Rightarrow>
                 if int (length b) > maxb then (Inl (Other ''upstream: a page of referrers is larger than the limit''), c1)
                 else
                   (case os_index os b of
                      None \<Rightarrow> (Inl (Other ''upstream: referrers''), c1)
                    | Some ds \<Rightarrow>
                        (case nextPage os u path (hget (an_Header res) ''Link'') of
                           Inl e \<Rightarrow> (Inl e, c1)
                         | Inr next \<Rightarrow> (Inr (ds, next), c1)))))"

text \<open>The loop, with the pages that may still be read, and what was read so far.\<close>

fun referrers_pages :: "'n outside \<Rightarrow> string \<Rightarrow> int \<Rightarrow> 'n origin \<Rightarrow> nat \<Rightarrow> string \<Rightarrow> descriptor list \<Rightarrow> ('n client, descriptor list) op" where
  "referrers_pages os repo maxb u 0 path out c = (Inl (Other ''upstream: the referrers run past 100 pages''), c)"
| "referrers_pages os repo maxb u (Suc k) path out c =
     (case referrersPage os repo path maxb u c of
        (Inl e, c1) \<Rightarrow> (Inl e, c1)
      | (Inr (ds, next), c1) \<Rightarrow>
          if next = '''' then (Inr (out @ ds), c1) else referrers_pages os repo maxb u k next (out @ ds) c1)"

definition origin_referrers :: "'n outside \<Rightarrow> string \<Rightarrow> digest \<Rightarrow> int \<Rightarrow> 'n origin \<Rightarrow> ('n client, descriptor list) op" where
  "origin_referrers os repo subject maxb u =
     referrers_pages os repo maxb u maxReferrersPages (''/v2/'' @ repo @ ''/referrers/'' @ subject) []"

definition upstream_Referrers :: "'n outside \<Rightarrow> 'n upstream \<Rightarrow> string \<Rightarrow> digest \<Rightarrow> int \<Rightarrow> ('n client, descriptor list) op" where
  "upstream_Referrers os U repo subject maxb = tryUpstreams os U (origin_referrers os repo subject maxb)"

section \<open>Blobs\<close>

definition blob_path :: "string \<Rightarrow> digest \<Rightarrow> string" where
  "blob_path repo d = ''/v2/'' @ repo @ ''/blobs/'' @ d"

text \<open>
  A size that is not known is read from the header: 0 when that is not a number, and the nearest
  \<open>int64\<close> when it is one that does not fit, which is what \<open>ParseInt\<close> answers beside its error.
\<close>

definition header_size :: "string \<Rightarrow> int" where
  "header_size s =
     (case atoi s of
        Some n \<Rightarrow> n
      | None \<Rightarrow>
          let (neg, t) = (case s of
              c # cs \<Rightarrow> if c = CHR ''-'' then (True, cs) else if c = CHR ''+'' then (False, cs) else (False, s)
            | [] \<Rightarrow> (False, s))
          in if parse_nat t = None then 0 else if neg then - max_int64 - 1 else max_int64)"

definition blob_stat :: "'n outside \<Rightarrow> string \<Rightarrow> digest \<Rightarrow> 'n origin \<Rightarrow> ('n client, int) op" where
  "blob_stat os repo d u c =
     (case upstream_request os u ''HEAD'' repo (blob_path repo d) [] c of
        (Inl e, c1) \<Rightarrow> (Inl e, c1)
      | (Inr res, c1) \<Rightarrow>
          if an_Status res \<noteq> 200 then (Inl (upstreamErr res), c1)
          else
            (Inr (if an_Length res < 0 then header_size (hget (an_Header res) ''Content-Length'') else an_Length res), c1))"

definition upstream_Stat :: "'n outside \<Rightarrow> 'n upstream \<Rightarrow> string \<Rightarrow> digest \<Rightarrow> ('n client, int) op" where
  "upstream_Stat os U repo d = tryUpstreams os U (blob_stat os repo d)"

text \<open>The reader of a blob: whose it is, what is left of the body, and where it is.\<close>

record 'n reader =
  rd_origin :: "'n origin"
  rd_repo :: string
  rd_path :: string
  rd_body :: "reads option"
  rd_size :: int
  rd_pos :: int
  rd_remaining :: "'n origin list"
  rd_ordered :: bool

definition blob_open :: "'n outside \<Rightarrow> string \<Rightarrow> digest \<Rightarrow> 'n origin \<Rightarrow> ('n client, 'n reader) op" where
  "blob_open os repo d u c =
     (case upstream_request os u ''GET'' repo (blob_path repo d) [] c of
        (Inl e, c1) \<Rightarrow> (Inl e, c1)
      | (Inr res, c1) \<Rightarrow>
          if an_Status res \<noteq> 200 then (Inl (upstreamErr res), c1)
          else
            (Inr \<lparr>rd_origin = u, rd_repo = repo, rd_path = blob_path repo d, rd_body = Some (an_Body res),
               rd_size = an_Length res, rd_pos = 0, rd_remaining = [], rd_ordered = False\<rparr>, c1))"

text \<open>Origins are told apart by their identity.\<close>

definition after_origin :: "nat \<Rightarrow> 'n origin list \<Rightarrow> 'n origin list" where
  "after_origin i us = drop 1 (dropWhile (\<lambda>u. og_id u \<noteq> i) us)"

definition upstream_Open :: "'n outside \<Rightarrow> 'n upstream \<Rightarrow> string \<Rightarrow> digest \<Rightarrow> ('n client, 'n reader) op" where
  "upstream_Open os U repo d c =
     (case tryUpstreams os U (blob_open os repo d) c of
        (Inl e, c1) \<Rightarrow> (Inl e, c1)
      | (Inr r, c1) \<Rightarrow>
          (Inr (r\<lparr>rd_ordered := length (origins U) > 1,
             rd_remaining := after_origin (og_id (rd_origin r)) (origins U)\<rparr>), c1))"

section \<open>Reading a blob\<close>

text \<open>One read of a body into a buffer of \<open>n\<close> bytes.\<close>

fun body_read :: "nat \<Rightarrow> reads \<Rightarrow> (string \<times> error option) \<times> reads" where
  "body_read n [] = (('''', Some EOF), [])"
| "body_read n ((b, e) # rs) =
     (if n < length b then ((take n b, None), (drop n b, e) # rs) else ((b, e), rs))"

text \<open>\<open>io.CopyN(io.Discard, body, n)\<close>: the error, or what is left of the body.\<close>

fun skip_bytes :: "nat \<Rightarrow> reads \<Rightarrow> error + reads" where
  "skip_bytes 0 rs = Inr rs"
| "skip_bytes (Suc n) [] = Inl EOF"
| "skip_bytes (Suc n) ((b, e) # rs) =
     (if Suc n < length b then Inr ((drop (Suc n) b, e) # rs)
      else if length b = Suc n then Inr rs
      else (case e of None \<Rightarrow> skip_bytes (Suc n - length b) rs | Some e \<Rightarrow> Inl e))"

text \<open>The body of the answer to a request for what follows the reader's position.\<close>

definition ranged :: "'n outside \<Rightarrow> 'n reader \<Rightarrow> answer \<Rightarrow> error + reads" where
  "ranged os r res =
     (if an_Status res = 206 then
        (if rd_ordered r then
           (case os_range os (hget (an_Header res) ''Content-Range'') of
              None \<Rightarrow> Inl (Other ''upstream: invalid blob Content-Range'')
            | Some (start, fin, whole) \<Rightarrow>
                if start \<noteq> rd_pos r \<or> fin < start \<or> fin \<ge> whole \<or> (rd_size r \<ge> 0 \<and> whole \<noteq> rd_size r) \<or>
                   (an_Length res \<ge> 0 \<and> an_Length res \<noteq> fin - start + 1) then
                  Inl (Other ''upstream: invalid blob Content-Range'')
                else Inr (an_Body res))
         else Inr (an_Body res))
      else if an_Status res = 200 then skip_bytes (nat (rd_pos r)) (an_Body res)
      else Inl (upstreamErr res))"

definition reader_body :: "'n outside \<Rightarrow> 'n reader \<Rightarrow> ('n client, reads) op" where
  "reader_body os r c =
     (case rd_body r of
        Some rs \<Rightarrow> (Inr rs, c)
      | None \<Rightarrow>
          (case upstream_request os (rd_origin r) ''GET'' (rd_repo r) (rd_path r)
              [(''Range'', ''bytes='' @ itoa (rd_pos r) @ ''-'')] c of
             (Inl e, c1) \<Rightarrow> (Inl e, c1)
           | (Inr res, c1) \<Rightarrow> (ranged os r res, c1)))"

text \<open>\<open>read\<close>: the bytes read, the error they came with, the reader after.\<close>

definition reader_read :: "'n outside \<Rightarrow> nat \<Rightarrow> 'n reader \<Rightarrow> 'n client \<Rightarrow> (string \<times> error option) \<times> 'n reader \<times> 'n client" where
  "reader_read os n r c =
     (if rd_size r \<ge> 0 \<and> rd_pos r \<ge> rd_size r then (('''', Some EOF), r, c)
      else
        (case reader_body os r c of
           (Inl e, c1) \<Rightarrow> (('''', Some e), r, c1)
         | (Inr rs, c1) \<Rightarrow>
             (case body_read n rs of
                ((b, e), rs1) \<Rightarrow> ((b, e), r\<lparr>rd_body := Some rs1, rd_pos := rd_pos r + int (length b)\<rparr>, c1))))"

text \<open>What becomes of the error of a read: an end that came too soon is a failure to read.\<close>

definition read_error :: "'n outside \<Rightarrow> 'n reader \<Rightarrow> error option \<Rightarrow> error option" where
  "read_error os r e =
     (case e of
        None \<Rightarrow> None
      | Some x \<Rightarrow> Some (upstreamReadError os (if x = EOF \<and> rd_size r \<ge> 0 \<and> rd_pos r < rd_size r then ErrUnexpectedEOF else x)))"

text \<open>\<open>Read\<close>: every turn of its loop but the last goes on to the next origin that is left.\<close>

function reader_Read :: "'n outside \<Rightarrow> nat \<Rightarrow> 'n reader \<Rightarrow> 'n client \<Rightarrow> (string \<times> error option) \<times> 'n reader \<times> 'n client" where
  "reader_Read os n r c =
     (case reader_read os n r c of
        ((b, e0), r1, c1) \<Rightarrow>
          (case read_error os r1 e0 of
             None \<Rightarrow> ((b, None), r1, c1)
           | Some e \<Rightarrow>
               (case rd_remaining r1 of
                  [] \<Rightarrow> ((b, Some e), r1, c1)
                | next # left \<Rightarrow>
                    if \<not> retryUpstream os (cl_out c1) e then ((b, Some e), r1, c1)
                    else
                      (let r2 = r1\<lparr>rd_body := None, rd_remaining := left, rd_origin := next\<rparr>
                       in if b \<noteq> '''' then ((b, None), r2, c1) else reader_Read os n r2 c1))))"
  by pat_completeness auto
termination
  by (relation "measure (\<lambda>(os, n, r, c). length (rd_remaining r))")
    (auto simp: reader_read_def split: if_splits prod.splits sum.splits)

declare reader_Read.simps [simp del]

datatype whence = SeekStart | SeekCurrent | SeekEnd | SeekOther int

definition reader_Seek :: "int \<Rightarrow> whence \<Rightarrow> 'n reader \<Rightarrow> (error + int) \<times> 'n reader" where
  "reader_Seek offset w r =
     (case (case w of
          SeekStart \<Rightarrow> Inr offset
        | SeekCurrent \<Rightarrow> Inr (rd_pos r + offset)
        | SeekEnd \<Rightarrow> if rd_size r < 0 then Inl (Other ''upstream: size unknown'') else Inr (rd_size r + offset)
        | SeekOther k \<Rightarrow> Inl (Other ''upstream: bad whence'')) of
        Inl e \<Rightarrow> (Inl e, r)
      | Inr p \<Rightarrow>
          if p < 0 then (Inl (Other ''upstream: negative position''), r)
          else (Inr p, (if p \<noteq> rd_pos r then r\<lparr>rd_body := None\<rparr> else r)\<lparr>rd_pos := p\<rparr>))"

definition reader_Close :: "'n reader \<Rightarrow> 'n reader" where
  "reader_Close r = r\<lparr>rd_body := None\<rparr>"

text \<open>The store is read only: what \<open>Add\<close>, \<open>Label\<close> and \<open>Erase\<close> answer.\<close>

definition upstream_unimplemented :: "('n client, unit) op" where
  "upstream_unimplemented c = (Inl (Flob (FlobOther ''unimplemented'')), c)"

end
