(* ===== verification/Upstream_Credentials.thy ===== *)
theory Upstream_Credentials
  imports Upstream
begin

text \<open>
  What leaves for the network: an operation of the client is traced by the requests it sends, in
  order.  A request goes to its origin's address with a credential of that origin's own, or to the
  realm that origin named for a token; one call sends three at most; a list of referrers is read
  in a hundred pages at most, none of another host.
\<close>

section \<open>The requests of an operation\<close>

inductive asks :: "'n outside \<Rightarrow> 'n \<Rightarrow> sent list \<Rightarrow> 'n \<Rightarrow> bool" for os where
  asks_none: "asks os n [] n"
| asks_one: "os_do os q n = (r, n1) \<Longrightarrow> asks os n1 qs n' \<Longrightarrow> asks os n (q # qs) n'"

lemma asks_append: "asks os n qs n1 \<Longrightarrow> asks os n1 qs' n' \<Longrightarrow> asks os n (qs @ qs') n'"
  by (induction rule: asks.induct) (auto intro: asks.intros)

definition pull_scope :: "string \<Rightarrow> string" where
  "pull_scope repo = ''repository:'' @ repo @ '':pull''"

text \<open>A password as some moment had it, in a header.\<close>

definition own_basic :: "'n outside \<Rightarrow> 'n origin \<Rightarrow> string \<Rightarrow> bool" where
  "own_basic os u a = (og_username u \<noteq> '''' \<and> (\<exists>n p. currentPassword u n = Inr p \<and> a = basic_auth os (og_username u) p))"

text \<open>
  What may be sent as \<open>Authorization\<close>: the bearer that was configured and nothing else, when one
  was; or a token of this origin for this repository, one kept and not expired or the one just
  answered; or the password, to an origin that asks for it.
\<close>

definition own_credential :: "'n outside \<Rightarrow> 'n origin \<Rightarrow> string \<Rightarrow> 'n client \<Rightarrow> 'n client \<Rightarrow> string \<Rightarrow> bool" where
  "own_credential os u repo c c' a =
     (case og_bearer u of
        Some v \<Rightarrow> \<exists>t. v (cl_out c) = Inr t \<and> a = ''Bearer '' @ t
      | None \<Rightarrow>
          (\<exists>t. map_of (cl_tokens c (og_id u)) (pull_scope repo) = Some t \<and> os_now os (cl_out c) < ut_expires t \<and> a = ut_auth t) \<or>
          (\<exists>t. map_of (cl_tokens c' (og_id u)) (pull_scope repo) = Some t \<and> a = ut_auth t) \<or>
          own_basic os u a)"

definition to_base :: "'n outside \<Rightarrow> 'n origin \<Rightarrow> string \<Rightarrow> (string \<Rightarrow> bool) \<Rightarrow> sent \<Rightarrow> bool" where
  "to_base os u path own q =
     (hq_URL q = os_url os (og_base u) @ path \<and> (\<forall>a. map_of (hq_Header q) ''Authorization'' = Some a \<longrightarrow> own a))"

definition to_realm :: "'n outside \<Rightarrow> 'n origin \<Rightarrow> string \<Rightarrow> sent \<Rightarrow> bool" where
  "to_realm os u repo q =
     (og_bearer u = None \<and> (\<exists>realm service. u_Host realm \<noteq> '''' \<and> hq_URL q = realm_url os realm service (pull_scope repo)) \<and>
      (\<forall>a. map_of (hq_Header q) ''Authorization'' = Some a \<longrightarrow> own_basic os u a))"

section \<open>One request\<close>

lemma upstream_send_asks: "upstream_send os q n = (r, n') \<Longrightarrow> asks os n [q] n'"
  by (auto simp: upstream_send_def split: prod.splits sum.splits intro!: asks.intros)

lemma send_as_asks:
  assumes "send_as os u method path h auth n = (r, n')" and "map_of h ''Authorization'' = None" and "auth \<noteq> '''' \<Longrightarrow> own auth"
  shows "\<exists>qs. asks os n qs n' \<and> length qs \<le> 1 \<and> (\<forall>q \<in> set qs. to_base os u path own q)"
proof (cases "os_parse os (os_url os (og_base u) @ path)")
  case None
  with assms(1) have "asks os n [] n'" by (auto simp: send_as_def intro: asks.intros)
  then show ?thesis by fastforce
next
  case (Some v)
  let ?q = "\<lparr>hq_Method = method, hq_URL = os_url os (og_base u) @ path,
    hq_Header = (if auth \<noteq> '''' then AList.update ''Authorization'' auth h else h)\<rparr>"
  from assms(1) Some have "upstream_send os ?q n = (r, n')" by (simp add: send_as_def)
  then have "asks os n [?q] n'" by (rule upstream_send_asks)
  moreover have "to_base os u path own ?q" using assms(2,3) by (auto simp: to_base_def)
  ultimately show ?thesis by fastforce
qed

lemma on_out_sel:
  assumes "on_out g c = (r, c')"
  shows "g (cl_out c) = (r, cl_out c')" "cl_tokens c' = cl_tokens c"
  using assms by (auto simp: on_out_def split: prod.splits)

lemma fetch_token_asks:
  assumes "fetch_token os u realm service (pull_scope repo) c = (r, c')" and "u_Host realm \<noteq> ''''" and "og_bearer u = None"
  shows "\<exists>qs. asks os (cl_out c) qs (cl_out c') \<and> length qs \<le> 1 \<and> (\<forall>q \<in> set qs. to_realm os u repo q) \<and>
    (\<forall>i. i \<noteq> og_id u \<longrightarrow> cl_tokens c' i = cl_tokens c i) \<and>
    (\<forall>a. r = Inr a \<longrightarrow> (\<exists>t. map_of (cl_tokens c' (og_id u)) (pull_scope repo) = Some t \<and> a = ut_auth t))"
proof -
  let ?q = "\<lambda>pw. \<lparr>hq_Method = ''GET'', hq_URL = realm_url os realm service (pull_scope repo),
    hq_Header = (case pw of None \<Rightarrow> [] | Some p \<Rightarrow> [(''Authorization'', basic_auth os (og_username u) p)])\<rparr>"
  let ?pw = "if og_username u \<noteq> '''' then map_sum id Some (currentPassword u (cl_out c)) else Inr None"
  have none: ?thesis if "r = Inl e" "c' = c" for e
    using that by (intro exI [of _ "[]"]) (auto intro: asks.intros)
  show ?thesis
  proof (cases "os_parse os (realm_url os realm service (pull_scope repo)) = None \<or> (\<exists>e. ?pw = Inl e)")
    case True
    with assms(1) have "\<exists>e. r = Inl e \<and> c' = c"
      unfolding fetch_token_def Let_def by (auto split: option.splits)
    then show ?thesis using none by blast
  next
    case False
    then obtain v pw where v: "os_parse os (realm_url os realm service (pull_scope repo)) = Some v" and pw: "?pw = Inr pw"
      by (cases ?pw) auto
    obtain r1 c1 where s: "on_out (upstream_send os (?q pw)) c = (r1, c1)" by force
    from on_out_sel [OF s] have a: "asks os (cl_out c) [?q pw] (cl_out c1)" "cl_tokens c1 = cl_tokens c"
      by (auto dest: upstream_send_asks)
    have q: "to_realm os u repo (?q pw)"
      using pw assms(2,3) unfolding to_realm_def own_basic_def map_sum_def
      by (auto split: if_splits sum.splits) blast+
    have "(case r1 of Inl e \<Rightarrow> (Inl e, c1)
        | Inr res \<Rightarrow> (case token_of os res of Inl e \<Rightarrow> (Inl e, c1)
            | Inr (token, ttl) \<Rightarrow> (Inr (''Bearer '' @ token), keep_token os u (pull_scope repo) (''Bearer '' @ token) ttl c1))) = (r, c')"
      using assms(1) v pw s unfolding fetch_token_def Let_def by (simp split: sum.splits)
    then have "(\<exists>e. r = Inl e \<and> c' = c1) \<or> (\<exists>a ttl. r = Inr a \<and> c' = keep_token os u (pull_scope repo) a ttl c1)"
      by (auto split: sum.splits)
    with a q show ?thesis by (intro exI [of _ "[?q pw]"]) (auto simp: keep_token_def)
  qed
qed

lemma authorize_asks:
  assumes "authorize os u ch (pull_scope repo) c = (r, c')" and "og_bearer u = None"
  shows "\<exists>qs. asks os (cl_out c) qs (cl_out c') \<and> length qs \<le> 1 \<and> (\<forall>q \<in> set qs. to_realm os u repo q) \<and>
    (\<forall>i. i \<noteq> og_id u \<longrightarrow> cl_tokens c' i = cl_tokens c i) \<and>
    (\<forall>a. r = Inr a \<longrightarrow> own_basic os u a \<or> (\<exists>t. map_of (cl_tokens c' (og_id u)) (pull_scope repo) = Some t \<and> a = ut_auth t))"
proof -
  obtain scheme ps where p: "parseChallenge ch = (scheme, ps)" by force
  consider (here) "c' = c" "\<forall>a. r = Inr a \<longrightarrow> own_basic os u a"
    | (token) realm where "u_Host realm \<noteq> ''''" "fetch_token os u realm (param ps ''service'') (pull_scope repo) c = (r, c')"
  proof -
    have "own_basic os u (basic_auth os (og_username u) x)" if "currentPassword u n = Inr x" "og_username u \<noteq> ''''" for x n
      using that by (auto simp: own_basic_def)
    then show ?thesis
      using assms(1) here token unfolding authorize_def p
      by (fastforce split: if_splits option.splits sum.splits)
  qed
  then show ?thesis
  proof cases
    case here
    then show ?thesis by (intro exI [of _ "[]"]) (auto intro: asks.intros)
  next
    case token
    from fetch_token_asks [OF token(2,1) assms(2)] show ?thesis by blast
  qed
qed

lemma upstream_request_asks:
  assumes "upstream_request os u method repo path h c = (r, c')" and "map_of h ''Authorization'' = None"
  shows "\<exists>qs. asks os (cl_out c) qs (cl_out c') \<and> length qs \<le> 3 \<and>
    (\<forall>q \<in> set qs. to_base os u path (own_credential os u repo c c') q \<or> to_realm os u repo q) \<and>
    (\<forall>i. i \<noteq> og_id u \<longrightarrow> cl_tokens c' i = cl_tokens c i)"
proof (cases "og_bearer u")
  case (Some v)
  show ?thesis
  proof (cases "v (cl_out c)")
    case (Inl e)
    with assms(1) Some have "c' = c" by (simp add: upstream_request_def)
    then show ?thesis by (intro exI [of _ "[]"]) (auto intro: asks.intros)
  next
    case (Inr t)
    with assms(1) Some have "on_out (send_as os u method path h (''Bearer '' @ t)) c = (r, c')"
      by (simp add: upstream_request_def)
    from on_out_sel [OF this]
    have s: "send_as os u method path h (''Bearer '' @ t) (cl_out c) = (r, cl_out c')" "cl_tokens c' = cl_tokens c" by auto
    from send_as_asks [OF s(1) assms(2), of "own_credential os u repo c c'"] Some Inr s(2) show ?thesis
      by (fastforce simp: own_credential_def)
  qed
next
  case None
  let ?own = "own_credential os u repo c c'"
  let ?kept = "upstream_cached os u (pull_scope repo) c"
  obtain r1 c1 where s1: "on_out (send_as os u method path h ?kept) c = (r1, c1)" by force
  have kept: "own_credential os u repo c c' ?kept" if "?kept \<noteq> ''''"
    using that None by (auto simp: own_credential_def upstream_cached_def split: option.splits if_splits)
  from send_as_asks [where own = ?own, OF on_out_sel(1) [OF s1] assms(2) kept] obtain q1 where
    q1: "asks os (cl_out c) q1 (cl_out c1)" "length q1 \<le> 1" "\<forall>q \<in> set q1. to_base os u path ?own q" by blast
  note t1 = on_out_sel(2) [OF s1]
  consider (first) "c' = c1"
    | (again) ch r2 c2 where "authorize os u ch (pull_scope repo) c1 = (r2, c2)"
      "(\<exists>e. r2 = Inl e \<and> c' = c2) \<or> (\<exists>a. r2 = Inr a \<and> on_out (send_as os u method path h a) c2 = (r, c'))"
    using assms(1) s1 None unfolding upstream_request_def pull_scope_def [symmetric]
    by (auto split: sum.splits prod.splits if_splits)
  then show ?thesis
  proof cases
    case first
    with q1 t1 show ?thesis by (intro exI [of _ q1]) auto
  next
    case again
    from authorize_asks [OF again(1) None] obtain q2 where
      q2: "asks os (cl_out c1) q2 (cl_out c2)" "length q2 \<le> 1" "\<forall>q \<in> set q2. to_realm os u repo q"
        "\<forall>i. i \<noteq> og_id u \<longrightarrow> cl_tokens c2 i = cl_tokens c1 i"
        "\<forall>a. r2 = Inr a \<longrightarrow> own_basic os u a \<or> (\<exists>t. map_of (cl_tokens c2 (og_id u)) (pull_scope repo) = Some t \<and> a = ut_auth t)"
      by blast
    from again(2) show ?thesis
    proof
      assume "\<exists>e. r2 = Inl e \<and> c' = c2"
      with asks_append [OF q1(1) q2(1)] q1 q2 t1 show ?thesis by (intro exI [of _ "q1 @ q2"]) auto
    next
      assume "\<exists>a. r2 = Inr a \<and> on_out (send_as os u method path h a) c2 = (r, c')"
      then obtain a where a: "r2 = Inr a" "on_out (send_as os u method path h a) c2 = (r, c')" by blast
      note s2 = on_out_sel [OF a(2)]
      have own: "?own a" using q2(5) a(1) None s2(2) by (auto simp: own_credential_def)
      from send_as_asks [where own = ?own, OF s2(1) assms(2) own] obtain q3 where
        q3: "asks os (cl_out c2) q3 (cl_out c')" "length q3 \<le> 1" "\<forall>q \<in> set q3. to_base os u path ?own q" by blast
      from asks_append [OF asks_append [OF q1(1) q2(1)] q3(1)] q1 q2 q3 t1 s2(2) show ?thesis
        by (intro exI [of _ "(q1 @ q2) @ q3"]) auto
    qed
  qed
qed


section \<open>An outside to try things on\<close>

text \<open>
  Two registries, used by the witnesses alone: \<open>a\<close> asks for a token and breaks off after two bytes
  of what it sends; \<open>b\<close> sends it whole, or from the third byte on.
\<close>

definition sample_url :: "string \<Rightarrow> string \<Rightarrow> url" where
  "sample_url host path = \<lparr>u_Scheme = ''https'', u_User = False, u_Host = host, u_Path = path, u_RawQuery = '''',
     u_ForceQuery = False, u_Fragment = ''''\<rparr>"

definition sample_challenge :: string where
  "sample_challenge = ''Bearer realm='' @ [CHR 0x22] @ ''https://a/token'' @ [CHR 0x22]"

definition sample_answer :: "int \<Rightarrow> header \<Rightarrow> int \<Rightarrow> reads \<Rightarrow> answer" where
  "sample_answer st h n rs = \<lparr>an_Status = st, an_Header = h, an_Length = n, an_Body = rs\<rparr>"

definition sample_do :: "digest \<Rightarrow> sent \<Rightarrow> answer" where
  "sample_do d q =
     (if hq_URL q = ''https://a/token'' then sample_answer 200 [] (-1) [(''T'', None)]
      else if prefix ''https://a'' (hq_URL q) then
        (if map_of (hq_Header q) ''Authorization'' = None then sample_answer 401 [(''WWW-Authenticate'', sample_challenge)] 0 []
         else if hq_Method q = ''HEAD'' then sample_answer 200 [(''Docker-Content-Digest'', d)] 5 []
         else sample_answer 200 [] 5 [(''bl'', Some ErrUnexpectedEOF)])
      else if map_of (hq_Header q) ''Range'' = Some ''bytes=2-'' then
        sample_answer 206 [(''Content-Range'', ''bytes 2-4/5'')] 3 [(''ob!'', None)]
      else sample_answer 200 [] 5 [(''blob!'', None)])"

definition sample_outside :: "digest \<Rightarrow> unit outside" where
  "sample_outside d =
     \<lparr>os_do = (\<lambda>q n. (Inr (sample_do d q), n)), os_now = (\<lambda>n. 0), os_done = (\<lambda>n. None),
      os_parse = (\<lambda>s. Some (if s = ''https://a/token'' then sample_url ''a'' ''/token''
        else if prefix ''https://a'' s then sample_url ''a'' '''' else sample_url ''b'' '''')),
      os_url = (\<lambda>u. ''https://'' @ u_Host u @ u_Path u), os_resolve = (\<lambda>u v. v), os_uri = u_Path,
      os_query = (\<lambda>u. []), os_encode = (\<lambda>q. ''''), os_base64 = id, os_token = (\<lambda>s. Some (s, '''', 300)),
      os_index = (\<lambda>s. None), os_media = id,
      os_range = (\<lambda>s. if s = ''bytes 2-4/5'' then Some (2, 4, 5) else None), os_net_error = (\<lambda>e. False)\<rparr>"

definition sample_origin :: "nat \<Rightarrow> string \<Rightarrow> unit origin" where
  "sample_origin i host = \<lparr>og_id = i, og_base = sample_url host '''', og_username = '''', og_password = None, og_bearer = None\<rparr>"

definition sample_client :: "unit client" where
  "sample_client = \<lparr>cl_tokens = (\<lambda>i. []), cl_out = ()\<rparr>"

lemma sample_outside_sel [simp]:
  "os_net_error (sample_outside d) e = False" "os_done (sample_outside d) n = None" "os_media (sample_outside d) s = s"
  "os_range (sample_outside d) ''bytes 2-4/5'' = Some (2, 4, 5)"
  by (simp_all add: sample_outside_def)

lemma sample_parsed: "parseChallenge sample_challenge = (''Bearer'', [(''realm'', ''https://a/token'')])"
  by code_simp

lemma sample_token: "token_of (sample_outside d) (sample_answer 200 [] (-1) [(''T'', None)]) = Inr (''T'', 300 * Second)"
  by (simp add: token_of_def token_ttl_def wrap64_def Second_def sample_outside_def sample_answer_def)

lemma sample_authorized:
  "authorize (sample_outside d) (sample_origin 0 ''a'') sample_challenge (pull_scope repo) sample_client =
     (Inr ''Bearer T'', keep_token (sample_outside d) (sample_origin 0 ''a'') (pull_scope repo) ''Bearer T'' (300 * Second) sample_client)"
proof -
  let ?q = "\<lparr>hq_Method = ''GET'', hq_URL = ''https://a/token'', hq_Header = []\<rparr>"
  have l: "to_lower ''Bearer'' = ''bearer''" by code_simp
  have p: "param [(''realm'', ''https://a/token'')] ''realm'' = ''https://a/token''" by (simp add: param_def)
  have u: "os_parse (sample_outside d) ''https://a/token'' = Some (sample_url ''a'' ''/token'')" by (simp add: sample_outside_def)
  have r: "realm_url (sample_outside d) (sample_url ''a'' ''/token'') v w = ''https://a/token''" for v w
    by (simp add: realm_url_def sample_outside_def sample_url_def)
  have s: "on_out (upstream_send (sample_outside d) ?q) c = (Inr (sample_answer 200 [] (-1) [(''T'', None)]), c)" for c
    by (simp add: on_out_def upstream_send_def sample_outside_def sample_do_def)
  have n: "og_username (sample_origin 0 ''a'') = ''''" "u_Host (sample_url ''a'' ''/token'') \<noteq> ''''"
    by (simp_all add: sample_origin_def sample_url_def)
  show ?thesis
    unfolding authorize_def sample_parsed fetch_token_def Let_def
    by (simp add: l p u r n s sample_token)
qed

lemma sample_request:
  assumes "path \<noteq> ''/token''" and "map_of h ''Authorization'' = None"
  shows "upstream_request (sample_outside d) (sample_origin 0 ''a'') method repo path h sample_client =
    (Inr (sample_do d \<lparr>hq_Method = method, hq_URL = ''https://a'' @ path, hq_Header = AList.update ''Authorization'' ''Bearer T'' h\<rparr>),
     keep_token (sample_outside d) (sample_origin 0 ''a'') (pull_scope repo) ''Bearer T'' (300 * Second) sample_client)"
proof -
  let ?c = "keep_token (sample_outside d) (sample_origin 0 ''a'') (pull_scope repo) ''Bearer T'' (300 * Second) sample_client"
  have q: "sample_do d \<lparr>hq_Method = method, hq_URL = ''https://a'' @ path, hq_Header = h\<rparr> =
      sample_answer 401 [(''WWW-Authenticate'', sample_challenge)] 0 []"
    using assms by (simp add: sample_do_def)
  have s: "on_out (send_as (sample_outside d) (sample_origin 0 ''a'') method path h a) c =
      (Inr (sample_do d \<lparr>hq_Method = method, hq_URL = ''https://a'' @ path,
        hq_Header = (if a \<noteq> '''' then AList.update ''Authorization'' a h else h)\<rparr>), c)" for a c
    by (simp add: on_out_def send_as_def upstream_send_def sample_outside_def sample_origin_def sample_url_def)
  have k: "upstream_cached (sample_outside d) (sample_origin 0 ''a'') (pull_scope repo) sample_client = ''''"
    by (simp add: upstream_cached_def sample_client_def)
  have sel: "og_bearer (sample_origin 0 ''a'') = None" by (simp add: sample_origin_def)
  have h: "hget (an_Header (sample_answer 401 [(''WWW-Authenticate'', sample_challenge)] 0 [])) ''WWW-Authenticate'' = sample_challenge"
    "an_Status (sample_answer 401 [(''WWW-Authenticate'', sample_challenge)] 0 []) = 401"
    by (simp_all add: hget_def sample_answer_def)
  have i: "(if '''' \<noteq> '''' then x else y) = y" "(if ''Bearer T'' \<noteq> '''' then x else y) = x" for x y :: header by simp_all
  show ?thesis
    unfolding upstream_request_def Let_def pull_scope_def [symmetric] k sel s i q
    by (simp only: option.case sum.case prod.case h sample_authorized s i if_False simp_thms)
qed


text \<open>The same outside, asked by a client that has the token already; and the group of the two.\<close>

definition sample_kept :: "unit client" where
  "sample_kept = keep_token (sample_outside ''sha256:blob'') (sample_origin 0 ''a'') (pull_scope ''acme/app'') ''Bearer T'' (300 * Second) sample_client"

definition sample_group :: "unit upstream" where
  "sample_group = \<lparr>us_origin = sample_origin 0 ''a'', us_fallbacks = [sample_origin 2 ''b'']\<rparr>"

lemma sample_request_kept:
  assumes "path \<noteq> ''/token''" and "map_of h ''Authorization'' = None"
  shows "upstream_request (sample_outside d) (sample_origin 0 ''a'') method ''acme/app'' path h sample_kept =
      (Inr (sample_do d \<lparr>hq_Method = method, hq_URL = ''https://a'' @ path, hq_Header = AList.update ''Authorization'' ''Bearer T'' h\<rparr>), sample_kept)"
    "upstream_request (sample_outside d) (sample_origin 2 ''b'') method repo path h sample_kept =
      (Inr (sample_do d \<lparr>hq_Method = method, hq_URL = ''https://b'' @ path, hq_Header = h\<rparr>), sample_kept)"
proof -
  have s: "on_out (send_as (sample_outside d) (sample_origin i v) method path h a) c =
      (Inr (sample_do d \<lparr>hq_Method = method, hq_URL = ''https://'' @ v @ path,
        hq_Header = (if a \<noteq> '''' then AList.update ''Authorization'' a h else h)\<rparr>), c)" for a c i v
    by (simp add: on_out_def send_as_def upstream_send_def sample_outside_def sample_origin_def sample_url_def)
  have k: "upstream_cached (sample_outside d) (sample_origin 0 ''a'') (pull_scope ''acme/app'') sample_kept = ''Bearer T''"
    "upstream_cached (sample_outside d) (sample_origin 2 ''b'') (pull_scope repo) sample_kept = ''''"
    by (simp_all add: upstream_cached_def sample_kept_def keep_token_def sample_client_def sample_origin_def sample_outside_def Second_def)
  have sel: "og_bearer (sample_origin i v) = None" for i v by (simp add: sample_origin_def)
  have st: "an_Status (sample_do d \<lparr>hq_Method = method, hq_URL = ''https://a'' @ path, hq_Header = AList.update ''Authorization'' ''Bearer T'' h\<rparr>) \<noteq> 401"
    "an_Status (sample_do d \<lparr>hq_Method = method, hq_URL = ''https://b'' @ path, hq_Header = h\<rparr>) \<noteq> 401"
    using assms by (simp_all add: sample_do_def sample_answer_def)
  show "upstream_request (sample_outside d) (sample_origin 0 ''a'') method ''acme/app'' path h sample_kept =
      (Inr (sample_do d \<lparr>hq_Method = method, hq_URL = ''https://a'' @ path, hq_Header = AList.update ''Authorization'' ''Bearer T'' h\<rparr>), sample_kept)"
    unfolding upstream_request_def Let_def pull_scope_def [symmetric] k sel s using st(1) by simp
  show "upstream_request (sample_outside d) (sample_origin 2 ''b'') method repo path h sample_kept =
      (Inr (sample_do d \<lparr>hq_Method = method, hq_URL = ''https://b'' @ path, hq_Header = h\<rparr>), sample_kept)"
    unfolding upstream_request_def Let_def pull_scope_def [symmetric] k sel s using st(2) by simp
qed

end
