(* ===== verification/Upstream_Blob.thy ===== *)
theory Upstream_Blob
  imports Upstream_Credentials
begin

text \<open>
  The reader of a blob over an ordered group of origins: it delivers the blob's bytes in order
  whichever origins break off on the way, says it is at the end only there, and every reading of
  it comes to an end.
\<close>

section \<open>Bodies\<close>

text \<open>What a body holds, as far as it goes, is what \<open>B\<close> holds from \<open>s\<close> on.\<close>

definition excerpt :: "string \<Rightarrow> nat \<Rightarrow> reads \<Rightarrow> bool" where
  "excerpt B s rs = prefix (concat (map fst rs)) (drop s B)"

definition body_size :: "reads \<Rightarrow> nat" where
  "body_size rs = sum_list (map (\<lambda>(b, e). Suc (length b)) rs)"

lemma drop_plus: "drop (m + n) xs = drop n (drop m xs)"
  by (simp add: add.commute)

lemma prefix_drop: "prefix (a @ x) (drop s B) \<Longrightarrow> prefix a (drop s B) \<and> prefix x (drop (s + length a) B)"
  unfolding drop_plus by (auto simp: prefix_def simp del: drop_drop)

lemma body_read_split: "body_read n rs = ((b, e), rs1) \<Longrightarrow> concat (map fst rs) = b @ concat (map fst rs1) \<and> length b \<le> n"
  by (cases rs) (auto split: if_splits)

lemma body_read_excerpt:
  assumes "body_read n rs = ((b, e), rs1)" and "excerpt B s rs"
  shows "prefix b (drop s B) \<and> excerpt B (s + length b) rs1 \<and> length b \<le> n"
  using body_read_split [OF assms(1)] prefix_drop [of b "concat (map fst rs1)" s B] assms(2) by (auto simp: excerpt_def)

lemma body_read_size:
  "body_read n rs = ((b, None), rs1) \<Longrightarrow> 0 < n \<Longrightarrow> body_size rs1 < body_size rs"
  by (cases rs) (auto simp: body_size_def split: if_splits)

lemma skip_bytes_split: "skip_bytes n rs = Inr rs1 \<Longrightarrow> \<exists>p. concat (map fst rs) = p @ concat (map fst rs1) \<and> length p = n"
proof (induction n rs rule: skip_bytes.induct)
  case (3 n b e rs)
  show ?case
  proof (cases "Suc n < length b")
    case True
    with 3 show ?thesis by (intro exI [of _ "take (Suc n) b"]) (auto simp flip: append_assoc)
  next
    case False
    show ?thesis
    proof (cases "length b = Suc n")
      case True
      with 3 False show ?thesis by auto
    next
      case len: False
      with False 3(2) have e: "e = None" "skip_bytes (Suc n - length b) rs = Inr rs1" by (auto split: option.splits)
      from 3(1) [OF False len e] obtain p where "concat (map fst rs) = p @ concat (map fst rs1)" "length p = Suc n - length b" by blast
      with False show ?thesis by (intro exI [of _ "b @ p"]) auto
    qed
  qed
qed auto

lemma skip_bytes_excerpt: "skip_bytes n rs = Inr rs1 \<Longrightarrow> excerpt B 0 rs \<Longrightarrow> excerpt B n rs1"
  using skip_bytes_split [of n rs rs1] prefix_drop [of _ "concat (map fst rs1)" 0 B] by (fastforce simp: excerpt_def)

section \<open>An origin that has the blob\<close>

text \<open>
  An origin may fail, refuse, or break off, but the bytes it sends are the blob's: from the
  beginning, or from where it says in its \<open>Content-Range\<close>; and a length it gives is the blob's.
\<close>

definition serves :: "'n outside \<Rightarrow> string \<Rightarrow> string \<Rightarrow> string \<Rightarrow> 'n origin \<Rightarrow> bool" where
  "serves os repo path B u =
     (\<forall>h c res c'. upstream_request os u ''GET'' repo path h c = (Inr res, c') \<longrightarrow>
        (an_Status res = 200 \<longrightarrow> excerpt B 0 (an_Body res) \<and> (an_Length res = -1 \<or> an_Length res = int (length B))) \<and>
        (an_Status res = 206 \<longrightarrow>
           (\<forall>s f z. os_range os (hget (an_Header res) ''Content-Range'') = Some (s, f, z) \<longrightarrow> 0 \<le> s \<longrightarrow>
              excerpt B (nat s) (an_Body res))))"

definition reader_ok :: "'n outside \<Rightarrow> string \<Rightarrow> 'n reader \<Rightarrow> bool" where
  "reader_ok os B r =
     (0 \<le> rd_pos r \<and> (rd_size r = -1 \<or> rd_size r = int (length B)) \<and>
      (\<forall>rs. rd_body r = Some rs \<longrightarrow> excerpt B (nat (rd_pos r)) rs) \<and>
      (rd_ordered r \<or> (rd_body r \<noteq> None \<and> rd_remaining r = [])) \<and>
      list_all (serves os (rd_repo r) (rd_path r) B) (rd_origin r # rd_remaining r))"

lemma ranged_excerpt:
  assumes "ranged os r res = Inr rs" and "rd_ordered r" and "0 \<le> rd_pos r"
    and "an_Status res = 200 \<longrightarrow> excerpt B 0 (an_Body res)"
    and "an_Status res = 206 \<longrightarrow>
      (\<forall>s f z. os_range os (hget (an_Header res) ''Content-Range'') = Some (s, f, z) \<longrightarrow> 0 \<le> s \<longrightarrow> excerpt B (nat s) (an_Body res))"
  shows "excerpt B (nat (rd_pos r)) rs"
  using assms by (auto simp: ranged_def split: if_splits option.splits intro: skip_bytes_excerpt)

lemma reader_body_ok:
  assumes "reader_body os r c = (Inr rs, c')" and "reader_ok os B r"
  shows "excerpt B (nat (rd_pos r)) rs"
proof (cases "rd_body r")
  case (Some x)
  with assms show ?thesis by (simp add: reader_body_def reader_ok_def)
next
  case None
  with assms(1) obtain h res where
    q: "upstream_request os (rd_origin r) ''GET'' (rd_repo r) (rd_path r) h c = (Inr res, c')" "ranged os r res = Inr rs"
    by (auto simp: reader_body_def split: prod.splits sum.splits)
  have "serves os (rd_repo r) (rd_path r) B (rd_origin r)" "rd_ordered r" "0 \<le> rd_pos r"
    using assms(2) None by (auto simp: reader_ok_def)
  then show ?thesis using q(1) unfolding serves_def by (intro ranged_excerpt [OF q(2)]) blast+
qed

text \<open>One \<open>read\<close>: the next bytes, and a reader that is as good.\<close>

definition reads_on :: "'n outside \<Rightarrow> string \<Rightarrow> nat \<Rightarrow> 'n reader \<Rightarrow> string \<Rightarrow> 'n reader \<Rightarrow> bool" where
  "reads_on os B n r b r' =
     (reader_ok os B r' \<and> prefix b (drop (nat (rd_pos r)) B) \<and> length b \<le> n \<and>
      rd_pos r' = rd_pos r + int (length b) \<and> rd_size r' = rd_size r)"

lemma reader_read_ok:
  assumes "reader_read os n r c = ((b, e), r', c')" and "reader_ok os B r"
  shows "reads_on os B n r b r'"
proof -
  have "(b = '''' \<and> r' = r) \<or>
    (\<exists>rs rs1. reader_body os r c = (Inr rs, c') \<and> body_read n rs = ((b, e), rs1) \<and>
      r' = r\<lparr>rd_body := Some rs1, rd_pos := rd_pos r + int (length b)\<rparr>)"
  proof (cases "rd_size r \<ge> 0 \<and> rd_pos r \<ge> rd_size r")
    case True
    with assms(1) show ?thesis by (simp add: reader_read_def)
  next
    case False
    obtain y c1 where y: "reader_body os r c = (y, c1)" by force
    show ?thesis
    proof (cases y)
      case (Inl x)
      with assms(1) False y show ?thesis unfolding reader_read_def by simp
    next
      case (Inr rs)
      obtain b1 e1 rs1 where "body_read n rs = ((b1, e1), rs1)" by (metis prod.collapse)
      with assms(1) False y Inr show ?thesis unfolding reader_read_def by auto
    qed
  qed
  then consider "b = ''''" "r' = r"
    | rs rs1 where "reader_body os r c = (Inr rs, c')" "body_read n rs = ((b, e), rs1)"
      "r' = r\<lparr>rd_body := Some rs1, rd_pos := rd_pos r + int (length b)\<rparr>"
    by blast
  then show ?thesis
  proof cases
    case 1
    with assms(2) show ?thesis by (simp add: reads_on_def)
  next
    case 2
    have "nat (rd_pos r + int (length b)) = nat (rd_pos r) + length b" using assms(2) by (simp add: reader_ok_def nat_add_distrib)
    with body_read_excerpt [OF 2(2) reader_body_ok [OF 2(1) assms(2)]] 2(3) assms(2) show ?thesis
      by (auto simp: reads_on_def reader_ok_def)
  qed
qed

lemma read_error_EOF:
  "read_error os r e = Some EOF \<Longrightarrow> rd_size r < 0 \<or> rd_size r \<le> rd_pos r"
  by (auto simp: read_error_def upstreamReadError_def EOF_def ErrUnexpectedEOF_def split: option.splits if_splits)

lemma reader_Read_ok:
  assumes "reader_Read os n r c = ((b, e), r', c')" and "reader_ok os B r"
  shows "reads_on os B n r b r' \<and> (e = Some EOF \<longrightarrow> rd_size r' < 0 \<or> rd_size r' \<le> rd_pos r')"
  using assms
proof (induction os n r c arbitrary: b e r' c' rule: reader_Read.induct)
  case (1 os n r c)
  obtain b1 e0 r1 c1 where s: "reader_read os n r c = ((b1, e0), r1, c1)" by (metis prod.collapse)
  have on: "reads_on os B n r b1 r1" by (rule reader_read_ok [OF s 1(3)])
  have eof: "read_error os r1 e0 = Some EOF \<Longrightarrow> rd_size r1 < 0 \<or> rd_size r1 \<le> rd_pos r1" by (rule read_error_EOF)
  show ?case
  proof (cases "\<exists>x nx left. read_error os r1 e0 = Some x \<and> rd_remaining r1 = nx # left \<and> retryUpstream os (cl_out c1) x")
    case False
    have "b = b1 \<and> r' = r1 \<and> (e = None \<or> e = read_error os r1 e0)"
      using 1(2) False unfolding reader_Read.simps [of os n r c] s
      by (auto split: option.splits list.splits if_splits)
    with on eof show ?thesis by auto
  next
    case True
    then obtain x nx left where x: "read_error os r1 e0 = Some x" "rd_remaining r1 = nx # left" "retryUpstream os (cl_out c1) x"
      by blast
    let ?r2 = "r1\<lparr>rd_body := None, rd_remaining := left, rd_origin := nx\<rparr>"
    have r2: "reader_ok os B ?r2" "rd_pos ?r2 = rd_pos r1" "rd_size ?r2 = rd_size r1"
      using on x(2) by (auto simp: reads_on_def reader_ok_def)
    show ?thesis
    proof (cases "b1 = ''''")
      case False
      with 1(2) x have "b = b1" "e = None" "r' = ?r2"
        unfolding reader_Read.simps [of os n r c] s by (auto simp: Let_def)
      with on r2 show ?thesis by (auto simp: reads_on_def)
    next
      case True
      with 1(2) x have go: "reader_Read os n ?r2 c1 = ((b, e), r', c')"
        unfolding reader_Read.simps [of os n r c] s by (simp add: Let_def)
      have "reads_on os B n ?r2 b r' \<and> (e = Some EOF \<longrightarrow> rd_size r' < 0 \<or> rd_size r' \<le> rd_pos r')"
        by (rule "1.IH" [OF s [symmetric] refl refl x(1) x(2) _ refl _ go r2(1)]) (use x True in auto)
      with on True r2 show ?thesis by (auto simp: reads_on_def)
    qed
  qed
qed

section \<open>Reading to the end\<close>

text \<open>\<open>k\<close> reads at most, into a buffer of \<open>n\<close> bytes: what they deliver, and the error that ends them.\<close>

fun read_to_end :: "'n outside \<Rightarrow> nat \<Rightarrow> nat \<Rightarrow> 'n reader \<Rightarrow> 'n client \<Rightarrow> (string \<times> error) option" where
  "read_to_end os n 0 r c = None"
| "read_to_end os n (Suc k) r c =
     (case reader_Read os n r c of
        ((b, Some e), r1, c1) \<Rightarrow> Some (b, e)
      | ((b, None), r1, c1) \<Rightarrow> map_option (\<lambda>(s, e). (b @ s, e)) (read_to_end os n k r1 c1))"

lemma read_to_end_ok:
  assumes "read_to_end os n k r c = Some (s, e)" and "reader_ok os B r"
  shows "prefix s (drop (nat (rd_pos r)) B) \<and> (e = EOF \<and> 0 \<le> rd_size r \<longrightarrow> s = drop (nat (rd_pos r)) B)"
  using assms
proof (induction k arbitrary: r c s)
  case (Suc k)
  obtain b x r1 c1 where r: "reader_Read os n r c = ((b, x), r1, c1)" by (metis prod.collapse)
  note ok = reader_Read_ok [OF r Suc.prems(2)]
  then have b: "prefix b (drop (nat (rd_pos r)) B)" and pos: "nat (rd_pos r1) = nat (rd_pos r) + length b"
    and sz: "rd_size r1 = rd_size r" "reader_ok os B r1"
    using Suc.prems(2) by (auto simp: reads_on_def reader_ok_def)
  from b have d: "drop (nat (rd_pos r)) B = b @ drop (nat (rd_pos r1)) B"
    unfolding pos drop_plus by (auto simp: prefix_def simp del: drop_drop)
  show ?case
  proof (cases x)
    case (Some y)
    with Suc.prems(1) r have s: "s = b" "e = y" by auto
    have "drop (nat (rd_pos r1)) B = []" if "y = EOF" "0 \<le> rd_size r"
      using ok Some that sz by (auto simp: reader_ok_def)
    with b d s show ?thesis by auto
  next
    case None
    with Suc.prems(1) r obtain s1 where s1: "read_to_end os n k r1 c1 = Some (s1, e)" "s = b @ s1" by auto
    from Suc.IH [OF s1(1) sz(2)] d s1(2) sz(1) show ?thesis by auto
  qed
qed simp

lemma try_each_asked:
  assumes "try_each os several run fs us c = (Inr v, c')"
  shows "\<exists>u \<in> set us. \<exists>c1. run u c1 = (Inr v, c')"
  using assms
proof (induction us arbitrary: c fs)
  case (Cons u us)
  then show ?case by (fastforce split: prod.splits sum.splits if_splits)
qed simp

lemma Open_ok:
  assumes "upstream_Open os U repo d c = (Inr r, c')" and "list_all (serves os repo (blob_path repo d) B) (origins U)"
  shows "reader_ok os B r \<and> rd_pos r = 0"
proof -
  obtain r0 where t: "tryUpstreams os U (blob_open os repo d) c = (Inr r0, c')"
    and r: "r = r0\<lparr>rd_ordered := length (origins U) > 1, rd_remaining := after_origin (og_id (rd_origin r0)) (origins U)\<rparr>"
    using assms(1) by (auto simp: upstream_Open_def split: prod.splits sum.splits)
  from try_each_asked [OF t [unfolded tryUpstreams_def]] obtain u c1 where
    u: "u \<in> set (origins U)" and o': "blob_open os repo d u c1 = (Inr r0, c')" by blast
  from o' obtain res where q: "upstream_request os u ''GET'' repo (blob_path repo d) [] c1 = (Inr res, c')" "an_Status res = 200"
    and r0: "r0 = \<lparr>rd_origin = u, rd_repo = repo, rd_path = blob_path repo d, rd_body = Some (an_Body res),
      rd_size = an_Length res, rd_pos = 0, rd_remaining = [], rd_ordered = False\<rparr>"
    by (auto simp: blob_open_def split: prod.splits sum.splits if_splits)
  have s: "serves os repo (blob_path repo d) B u" using assms(2) u by (auto simp: list_all_iff)
  with q have res: "excerpt B 0 (an_Body res)" "an_Length res = -1 \<or> an_Length res = int (length B)"
    unfolding serves_def by blast+
  have rem: "list_all (serves os repo (blob_path repo d) B) (after_origin i (origins U))" for i
    using assms(2) unfolding after_origin_def list_all_iff by (meson set_dropWhileD in_set_dropD)
  have one: "after_origin (og_id u) (origins U) = []" if "\<not> length (origins U) > 1"
    using that u by (auto simp: origins_def after_origin_def)
  show ?thesis using res s rem one by (auto simp: r r0 reader_ok_def)
qed

section \<open>It ends\<close>

lemma reader_Read_moves:
  assumes "reader_Read os n r c = ((b, None), r', c')" and "0 < n"
  shows "length (rd_remaining r') < length (rd_remaining r) \<or>
    (rd_remaining r' = rd_remaining r \<and>
      (\<exists>rs'. rd_body r' = Some rs' \<and> (\<forall>rs. rd_body r = Some rs \<longrightarrow> body_size rs' < body_size rs)))"
  using assms
proof (induction os n r c arbitrary: b r' c' rule: reader_Read.induct)
  case (1 os n r c)
  obtain b1 e0 r1 c1 where s: "reader_read os n r c = ((b1, e0), r1, c1)" by (metis prod.collapse)
  have rem: "rd_remaining r1 = rd_remaining r"
    using s by (auto simp: reader_read_def split: if_splits prod.splits sum.splits)
  show ?case
  proof (cases "read_error os r1 e0")
    case None
    then have e0: "e0 = None" by (simp add: read_error_def split: option.splits)
    with s obtain rs rs1 where rs: "reader_body os r c = (Inr rs, c1)" "body_read n rs = ((b1, None), rs1)" "rd_body r1 = Some rs1"
      by (auto simp: reader_read_def split: if_splits prod.splits sum.splits)
    have "r' = r1" using 1(2) None unfolding reader_Read.simps [of os n r c] s by simp
    moreover have "\<forall>rs0. rd_body r = Some rs0 \<longrightarrow> rs = rs0" using rs(1) by (auto simp: reader_body_def)
    ultimately show ?thesis using rem rs(3) body_read_size [OF rs(2) 1(3)] by auto
  next
    case (Some x)
    show ?thesis
    proof (cases "rd_remaining r1")
      case Nil
      with 1(2) Some show ?thesis unfolding reader_Read.simps [of os n r c] s by simp
    next
      case (Cons nx left)
      with 1(2) Some have retry: "retryUpstream os (cl_out c1) x"
        unfolding reader_Read.simps [of os n r c] s by (auto split: if_splits)
      let ?r2 = "r1\<lparr>rd_body := None, rd_remaining := left, rd_origin := nx\<rparr>"
      show ?thesis
      proof (cases "b1 = ''''")
        case False
        with 1(2) Some Cons retry have "r' = ?r2" unfolding reader_Read.simps [of os n r c] s by (auto simp: Let_def)
        with rem [symmetric] Cons show ?thesis by simp
      next
        case True
        with 1(2) Some Cons retry have go: "reader_Read os n ?r2 c1 = ((b, None), r', c')"
          unfolding reader_Read.simps [of os n r c] s by (simp add: Let_def)
        have "length (rd_remaining r') < length (rd_remaining ?r2) \<or>
          (rd_remaining r' = rd_remaining ?r2 \<and>
            (\<exists>rs'. rd_body r' = Some rs' \<and> (\<forall>rs. rd_body ?r2 = Some rs \<longrightarrow> body_size rs' < body_size rs)))"
          by (rule "1.IH" [OF s [symmetric] refl refl Some Cons _ refl _ go 1(3)]) (use retry True in auto)
        with rem [symmetric] Cons show ?thesis by auto
      qed
    qed
  qed
qed

lemma read_to_end_once:
  assumes "\<And>b r1 c1. reader_Read os n r c = ((b, None), r1, c1) \<Longrightarrow> \<exists>k y. read_to_end os n k r1 c1 = Some y"
  shows "\<exists>k y. read_to_end os n k r c = Some y"
proof -
  obtain b e r1 c1 where r: "reader_Read os n r c = ((b, e), r1, c1)" by (metis prod.collapse)
  show ?thesis
  proof (cases e)
    case (Some x)
    with r show ?thesis by (intro exI [of _ "Suc 0"]) simp
  next
    case None
    with assms r obtain k y where "read_to_end os n k r1 c1 = Some y" by blast
    with r None show ?thesis by (intro exI [of _ "Suc k"]) simp
  qed
qed

lemma read_to_end_ends:
  assumes "0 < n"
  shows "\<exists>k y. read_to_end os n k r c = Some y"
proof (induction "length (rd_remaining r)" arbitrary: r c rule: less_induct)
  case (less r)
  note fewer = less
  have body: "\<exists>k y. read_to_end os n k r1 c1 = Some y"
    if "length (rd_remaining r1) = length (rd_remaining r)" "rd_body r1 = Some rs" for r1 c1 rs
    using that
  proof (induction "body_size rs" arbitrary: r1 c1 rs rule: less_induct)
    case (less rs)
    show ?case
    proof (rule read_to_end_once)
      fix b r2 c2
      assume "reader_Read os n r1 c1 = ((b, None), r2, c2)"
      from reader_Read_moves [OF this assms] show "\<exists>k y. read_to_end os n k r2 c2 = Some y"
      proof (elim disjE conjE exE)
        assume "length (rd_remaining r2) < length (rd_remaining r1)"
        with less.prems(1) show ?thesis using fewer by simp
      next
        fix rs'
        assume "rd_remaining r2 = rd_remaining r1" "rd_body r2 = Some rs'"
          "\<forall>rs. rd_body r1 = Some rs \<longrightarrow> body_size rs' < body_size rs"
        with less.prems less.hyps show ?thesis by simp
      qed
    qed
  qed
  show ?case
  proof (rule read_to_end_once)
    fix b r1 c1
    assume "reader_Read os n r c = ((b, None), r1, c1)"
    from reader_Read_moves [OF this assms] show "\<exists>k y. read_to_end os n k r1 c1 = Some y"
      using less body by auto
  qed
qed

section \<open>What a reader delivers\<close>

text \<open>
  C10: a blob read through a group of origins is the blob.  Open it where every origin that sends
  bytes sends the blob's -- from the beginning, or from where its \<open>Content-Range\<close> says.  However
  the origins fail, break off and take over from each other, reading comes to an end, and what the
  reads deliver, one after another, is the beginning of the blob, byte for byte, nothing twice and
  nothing left out; and when they end as at the end of a blob whose size is known, it is all of it.
\<close>

theorem blob_is_whole_across_origins:
  assumes "upstream_Open os U repo d c = (Inr r, c')" and "list_all (serves os repo (blob_path repo d) B) (origins U)" and "0 < n"
  shows "(\<exists>k s e. read_to_end os n k r c' = Some (s, e)) \<and>
    (\<forall>k s e. read_to_end os n k r c' = Some (s, e) \<longrightarrow> prefix s B \<and> (e = EOF \<and> 0 \<le> rd_size r \<longrightarrow> s = B))"
proof -
  note open_ok = Open_ok [OF assms(1,2)]
  have "prefix s B \<and> (e = EOF \<and> 0 \<le> rd_size r \<longrightarrow> s = B)" if "read_to_end os n k r c' = Some (s, e)" for k s e
    using read_to_end_ok [OF that open_ok [THEN conjunct1]] open_ok by simp
  then show ?thesis using read_to_end_ends [OF assms(3), of os r c'] by auto
qed

section \<open>Witness\<close>

text \<open>An answer to a request is what the outside answered to one of that address.\<close>

lemma request_answer:
  assumes "upstream_request os u method repo path h c = (Inr res, c')"
  shows "\<exists>q n n'. hq_URL q = os_url os (og_base u) @ path \<and> os_do os q n = (Inr res, n')"
proof -
  have s: "\<exists>q n n'. hq_URL q = os_url os (og_base u) @ path \<and> os_do os q n = (Inr res, n')"
    if "on_out (send_as os u method path h a) c1 = (Inr res, c2)" for a c1 c2
  proof -
    let ?q = "\<lparr>hq_Method = method, hq_URL = os_url os (og_base u) @ path,
      hq_Header = (if a \<noteq> '''' then AList.update ''Authorization'' a h else h)\<rparr>"
    have "os_do os ?q (cl_out c1) = (Inr res, cl_out c2)"
      using on_out_sel(1) [OF that] unfolding send_as_def Let_def upstream_send_def
      by (auto split: option.splits prod.splits sum.splits)
    then show ?thesis by (intro exI [of _ ?q] exI [of _ "cl_out c1"] exI [of _ "cl_out c2"]) simp
  qed
  show ?thesis
    using assms s unfolding upstream_request_def Let_def
    by (auto split: option.splits prod.splits sum.splits if_splits)
qed

definition sample_path :: string where
  "sample_path = blob_path ''acme/app'' ''sha256:blob''"

lemma sample_serves:
  assumes "v \<in> {''a'', ''b''}"
  shows "serves (sample_outside d) ''acme/app'' sample_path ''blob!'' (sample_origin i v)"
  unfolding serves_def
proof (intro allI impI)
  fix h c res c'
  assume "upstream_request (sample_outside d) (sample_origin i v) ''GET'' ''acme/app'' sample_path h c = (Inr res, c')"
  from request_answer [OF this] obtain q where q: "hq_URL q = ''https://'' @ v @ sample_path" "res = sample_do d q"
    by (auto simp: sample_outside_def sample_origin_def sample_url_def)
  have ne: "hq_URL q \<noteq> ''https://a/token''"
    using assms unfolding q(1) sample_path_def blob_path_def by auto
  show "(an_Status res = 200 \<longrightarrow> excerpt ''blob!'' 0 (an_Body res) \<and>
        (an_Length res = -1 \<or> an_Length res = int (length ''blob!''))) \<and>
      (an_Status res = 206 \<longrightarrow>
        (\<forall>s f z. os_range (sample_outside d) (hget (an_Header res) ''Content-Range'') = Some (s, f, z) \<longrightarrow> 0 \<le> s \<longrightarrow>
          excerpt ''blob!'' (nat s) (an_Body res)))"
    using ne unfolding q(2) sample_do_def
    by (auto simp: sample_answer_def excerpt_def hget_def)
qed

lemma sample_opened:
  "upstream_Open (sample_outside d) sample_group ''acme/app'' ''sha256:blob'' sample_kept =
     (Inr \<lparr>rd_origin = sample_origin 0 ''a'', rd_repo = ''acme/app'', rd_path = sample_path,
        rd_body = Some [(''bl'', Some ErrUnexpectedEOF)], rd_size = 5, rd_pos = 0,
        rd_remaining = [sample_origin 2 ''b''], rd_ordered = True\<rparr>, sample_kept)"
proof -
  have p: "blob_path ''acme/app'' ''sha256:blob'' = sample_path" "sample_path \<noteq> ''/token''"
    by (simp_all add: sample_path_def blob_path_def)
  have d: "sample_do d \<lparr>hq_Method = ''GET'', hq_URL = ''https://a'' @ sample_path, hq_Header = AList.update ''Authorization'' ''Bearer T'' []\<rparr> =
      sample_answer 200 [] 5 [(''bl'', Some ErrUnexpectedEOF)]"
    using p(2) by (simp add: sample_do_def)
  have none: "map_of [] ''Authorization'' = None" by simp
  have "blob_open (sample_outside d) ''acme/app'' ''sha256:blob'' (sample_origin 0 ''a'') sample_kept =
      (Inr \<lparr>rd_origin = sample_origin 0 ''a'', rd_repo = ''acme/app'', rd_path = sample_path,
        rd_body = Some [(''bl'', Some ErrUnexpectedEOF)], rd_size = 5, rd_pos = 0, rd_remaining = [], rd_ordered = False\<rparr>, sample_kept)"
    unfolding blob_open_def p(1) sample_request_kept(1) [OF p(2) none] d by (simp add: sample_answer_def)
  then show ?thesis
    by (simp add: upstream_Open_def tryUpstreams_def sample_group_def origins_def after_origin_def)
qed

lemma blob_is_whole_across_origins_witness:
  "\<exists>r k s e. upstream_Open (sample_outside ''sha256:blob'') sample_group ''acme/app'' ''sha256:blob'' sample_kept = (Inr r, sample_kept) \<and>
     read_to_end (sample_outside ''sha256:blob'') 4 k r sample_kept = Some (s, e) \<and> prefix s ''blob!'' \<and>
     (e = EOF \<longrightarrow> s = ''blob!'')"
proof -
  have s: "list_all (serves (sample_outside ''sha256:blob'') ''acme/app'' (blob_path ''acme/app'' ''sha256:blob'') ''blob!'') (origins sample_group)"
    using sample_serves by (simp add: sample_group_def origins_def flip: sample_path_def)
  from blob_is_whole_across_origins [OF sample_opened [of "''sha256:blob''"] s, of 4] sample_opened [of "''sha256:blob''"]
  show ?thesis by fastforce
qed

end
