(* ===== verification/Upstream_Reads.thy ===== *)
theory Upstream_Reads
  imports Upstream_Credentials
begin

text \<open>
  What the reads of an upstream answer: the manifest that was asked for, by the first origin that
  can answer; referrers in a bounded number of pages; and a blob that is the same blob when its
  reader goes on at another origin.
\<close>

section \<open>The first origin that answers\<close>

text \<open>Every one of \<open>us\<close>, in order, failed in a way the next is tried for.\<close>

fun failed_over :: "'n outside \<Rightarrow> ('n origin \<Rightarrow> ('n client, 'r) op) \<Rightarrow> 'n origin list \<Rightarrow> 'n client \<Rightarrow> (error list \<times> 'n client) option" where
  "failed_over os run [] c = Some ([], c)"
| "failed_over os run (u # us) c =
     (case run u c of
        (Inr v, c1) \<Rightarrow> None
      | (Inl e, c1) \<Rightarrow>
          if \<not> retryUpstream os (cl_out c1) e then None
          else map_option (\<lambda>(es, c2). (e # es, c2)) (failed_over os run us c1))"

lemma try_each_first:
  assumes "try_each os True run fs us c = (r, c')"
  shows "(\<exists>pre u post es c1. us = pre @ u # post \<and> failed_over os run pre c = Some (es, c1) \<and> run u c1 = (r, c') \<and>
      (\<forall>e. r = Inl e \<longrightarrow> \<not> retryUpstream os (cl_out c') e)) \<or>
    (\<exists>es gs. failed_over os run us c = Some (es, c') \<and> r = Inl (Joined (fs @ gs)) \<and>
      list_all2 (\<lambda>e g. \<exists>s. g = Wrapped s e) es gs)"
  using assms
proof (induction us arbitrary: c fs)
  case Nil
  then show ?case by auto
next
  case (Cons u us)
  obtain r1 c1 where s: "run u c = (r1, c1)" by force
  show ?case
  proof (cases "\<exists>e. r1 = Inl e \<and> retryUpstream os (cl_out c1) e")
    case False
    with Cons.prems s have "run u c = (r, c')" "\<forall>e. r = Inl e \<longrightarrow> \<not> retryUpstream os (cl_out c') e"
      by (auto split: sum.splits if_splits)
    then show ?thesis by (intro disjI1 exI [of _ "[]"] exI [of _ u] exI [of _ us]) auto
  next
    case True
    then obtain e where e: "r1 = Inl e" "retryUpstream os (cl_out c1) e" by blast
    let ?g = "Wrapped (''upstream '' @ u_Host (og_base u)) e"
    have "try_each os True run (fs @ [?g]) us c1 = (r, c')" using Cons.prems s e by simp
    from Cons.IH [OF this] show ?thesis
    proof (elim disjE exE conjE)
      fix pre v post es c2
      assume "us = pre @ v # post" "failed_over os run pre c1 = Some (es, c2)" "run v c2 = (r, c')"
        "\<forall>e. r = Inl e \<longrightarrow> \<not> retryUpstream os (cl_out c') e"
      then show ?thesis using s e
        by (intro disjI1 exI [of _ "u # pre"] exI [of _ v] exI [of _ post] exI [of _ "e # es"] exI [of _ c2]) auto
    next
      fix es gs
      assume "failed_over os run us c1 = Some (es, c')" "r = Inl (Joined ((fs @ [?g]) @ gs))"
        "list_all2 (\<lambda>e g. \<exists>s. g = Wrapped s e) es gs"
      then show ?thesis using s e
        by (intro disjI2 exI [of _ "e # es"] exI [of _ "?g # gs"]) auto
    qed
  qed
qed

text \<open>
  An ordered group answers with its first origin that can.  The origins are asked in their
  order; the next is asked only when the last did not answer, or answered that it failed (a 5xx),
  and nobody gave up waiting; the first answer that is anything else -- a success, a 404, a
  refusal -- is the group's, and no origin after it is asked.  Only when all failed so is the
  answer an error, and it holds what each of them said.
\<close>

theorem first_origin_that_can_answers:
  assumes "tryUpstreams os U run c = (r, c')" and "us_fallbacks U \<noteq> []"
  shows "(\<exists>pre u post es c1. origins U = pre @ u # post \<and> failed_over os run pre c = Some (es, c1) \<and> run u c1 = (r, c') \<and>
      (\<forall>e. r = Inl e \<longrightarrow> \<not> retryUpstream os (cl_out c') e)) \<or>
    (\<exists>es gs. failed_over os run (origins U) c = Some (es, c') \<and> r = Inl (Joined gs) \<and>
      list_all2 (\<lambda>e g. \<exists>s. g = Wrapped s e) es gs)"
proof -
  have "try_each os True run [] (origins U) c = (r, c')"
    using assms by (simp add: tryUpstreams_def origins_def)
  from try_each_first [OF this] show ?thesis by simp
qed

text \<open>Whatever is so of every origin's answer is so of the group's, when that is a value.\<close>

lemma try_each_value:
  assumes "try_each os several run fs us c = (Inr v, c')" and "\<And>u c v c'. run u c = (Inr v, c') \<Longrightarrow> P v"
  shows "P v"
  using assms(1)
proof (induction us arbitrary: c fs)
  case (Cons u us)
  then show ?case using assms(2) by (auto split: prod.splits sum.splits if_splits)
qed simp

section \<open>A manifest\<close>

text \<open>Package \<open>go-digest\<close>: a digest that validates is an algorithm, a colon and the rest.\<close>

definition digests_have_colons :: "digest_ops \<Rightarrow> bool" where
  "digests_have_colons D = (\<forall>s. dg_validates D s \<longrightarrow> contains s '':'')"

lemma manifest_digest_Inr:
  assumes "manifest_digest D reference b = Inr d"
  shows "if contains reference '':'' then d = reference \<and> d = dg_from_bytes D (dg_algorithm D d) b
    else d = dg_from_bytes D ''sha256'' b"
  using assms by (auto simp: manifest_digest_def Let_def split: if_splits)

lemma getManifest_value:
  assumes "upstream_getManifest D os repo reference maxb u c = (Inr v, c')"
  shows "int (length (fst v)) \<le> maxb \<and> manifest_digest D reference (fst v) = Inr (snd (snd v))"
  using assms by (auto simp: upstream_getManifest_def split: prod.splits sum.splits if_splits)

lemma tried_getManifest:
  assumes "tryUpstreams os U (upstream_getManifest D os repo reference maxb) c = (Inr (b, mt, d), c')"
  shows "int (length b) \<le> maxb \<and> manifest_digest D reference b = Inr d"
  using try_each_value [OF assms [unfolded tryUpstreams_def],
      where P = "\<lambda>v. int (length (fst v)) \<le> maxb \<and> manifest_digest D reference (fst v) = Inr (snd (snd v))"]
    getManifest_value [of D os repo reference maxb] by simp

lemma headManifest_value:
  assumes "headManifest D os repo reference u c = (Inr v, c')"
  shows "v = '''' \<or> dg_validates D v"
  using assms by (auto simp: headManifest_def Let_def split: prod.splits sum.splits if_splits)

lemma HeadManifest_value:
  assumes "upstream_HeadManifest D os U repo reference c = (Inr v, c')"
  shows "v = '''' \<or> dg_validates D v"
  using try_each_value [OF assms [unfolded upstream_HeadManifest_def tryUpstreams_def],
      where P = "\<lambda>v. v = '''' \<or> dg_validates D v"] headManifest_value [of D os repo reference] by simp

lemma GetManifest_value:
  assumes "upstream_GetManifest D os U repo reference maxb c = (Inr (b, mt, d), c')" and "digests_have_colons D"
  shows "int (length b) \<le> maxb \<and>
    (if contains reference '':'' then d = reference \<and> d = dg_from_bytes D (dg_algorithm D d) b
     else if us_fallbacks U = [] then d = dg_from_bytes D ''sha256'' b
     else d = dg_from_bytes D (dg_algorithm D d) b \<and>
       (\<exists>c1. upstream_HeadManifest D os U repo reference c = (Inr d, c1)))"
proof (cases "us_fallbacks U \<noteq> [] \<and> \<not> contains reference '':''")
  case False
  with assms(1) have "tryUpstreams os U (upstream_getManifest D os repo reference maxb) c = (Inr (b, mt, d), c')"
    by (simp add: upstream_GetManifest_def)
  from tried_getManifest [OF this] False show ?thesis
    using manifest_digest_Inr [of D reference b d] by auto
next
  case True
  with assms(1) obtain d1 c1 where h: "upstream_HeadManifest D os U repo reference c = (Inr d1, c1)" "d1 \<noteq> ''''"
    and g: "tryUpstreams os U (upstream_getManifest D os repo d1 maxb) c1 = (Inr (b, mt, d), c')"
    by (auto simp: upstream_GetManifest_def split: prod.splits sum.splits if_splits)
  from HeadManifest_value [OF h(1)] h(2) assms(2) have "contains d1 '':''" by (simp add: digests_have_colons_def)
  with tried_getManifest [OF g] manifest_digest_Inr [of D d1 b d] h(1) True show ?thesis by auto
qed

text \<open>
  C13: a manifest from upstream is the one that was asked for.  What \<open>GetManifest\<close> answers is no
  larger than the limit and hashes to the digest it is answered with, and asked for by a digest
  it is that digest.  A tag of a group of origins is resolved once: the manifest is of the digest
  the first origin that can answer said the tag has, whichever origin then sent the bytes, so
  that no fallback's own idea of the tag selects other content.
\<close>

theorem manifest_is_the_one_asked_for:
  assumes "upstream_GetManifest D os U repo reference maxb c = (Inr (b, mt, d), c')" and "digests_have_colons D"
  shows "int (length b) \<le> maxb \<and>
    (if contains reference '':'' then d = reference \<and> d = dg_from_bytes D (dg_algorithm D d) b
     else if us_fallbacks U = [] then d = dg_from_bytes D ''sha256'' b
     else d = dg_from_bytes D (dg_algorithm D d) b \<and>
       (\<exists>c1. upstream_HeadManifest D os U repo reference c = (Inr d, c1)))"
  by (rule GetManifest_value [OF assms])

section \<open>Referrers\<close>

text \<open>A request that stays with an origin: its own address, or a realm it named.\<close>

definition stays :: "'n outside \<Rightarrow> 'n origin \<Rightarrow> string \<Rightarrow> sent \<Rightarrow> bool" where
  "stays os u repo q = ((\<exists>path. hq_URL q = os_url os (og_base u) @ path) \<or> to_realm os u repo q)"

lemma request_stays:
  assumes "upstream_request os u method repo path h c = (r, c')" and "map_of h ''Authorization'' = None"
  shows "\<exists>qs. asks os (cl_out c) qs (cl_out c') \<and> length qs \<le> 3 \<and> (\<forall>q \<in> set qs. stays os u repo q)"
  using upstream_request_asks [OF assms] unfolding stays_def to_base_def by blast

lemma referrersPage_asks:
  assumes "referrersPage os repo path maxb u c = (r, c')"
  shows "\<exists>qs. asks os (cl_out c) qs (cl_out c') \<and> length qs \<le> 3 \<and> (\<forall>q \<in> set qs. stays os u repo q)"
proof -
  obtain r1 c1 where s: "upstream_request os u ''GET'' repo path [(''Accept'', ''application/vnd.oci.image.index.v1+json'')] c = (r1, c1)"
    by force
  with assms have "c' = c1" by (auto simp: referrersPage_def split: sum.splits if_splits option.splits)
  with request_stays [OF s] show ?thesis by simp
qed

lemma referrers_pages_asks:
  assumes "referrers_pages os repo maxb u k path out c = (r, c')"
  shows "\<exists>qs. asks os (cl_out c) qs (cl_out c') \<and> length qs \<le> 3 * k \<and> (\<forall>q \<in> set qs. stays os u repo q)"
  using assms
proof (induction k arbitrary: path out c)
  case 0
  then show ?case by (auto intro!: exI [of _ "[]"] asks.intros)
next
  case (Suc k)
  obtain r1 c1 where s: "referrersPage os repo path maxb u c = (r1, c1)" by force
  from referrersPage_asks [OF s] obtain q1 where
    q1: "asks os (cl_out c) q1 (cl_out c1)" "length q1 \<le> 3" "\<forall>q \<in> set q1. stays os u repo q" by blast
  consider "c' = c1" | path' out' where "referrers_pages os repo maxb u k path' out' c1 = (r, c')"
    using Suc.prems s by (auto split: sum.splits if_splits)
  then show ?case
  proof cases
    case 1
    with q1 show ?thesis by (intro exI [of _ q1]) auto
  next
    case 2
    from Suc.IH [OF this] obtain q2 where
      "asks os (cl_out c1) q2 (cl_out c')" "length q2 \<le> 3 * k" "\<forall>q \<in> set q2. stays os u repo q" by blast
    with asks_append [OF q1(1)] q1 show ?thesis by (intro exI [of _ "q1 @ q2"]) auto
  qed
qed

text \<open>
  A list of referrers is read in a hundred pages at most, whatever pages an upstream links to:
  no more than three hundred requests are sent, each to that upstream's own address or to a realm
  it named, so that no link takes a credential to another host.
\<close>

theorem referrers_stay_and_stop:
  "\<exists>qs. asks os (cl_out c) qs (cl_out (snd (origin_referrers os repo subject maxb u c))) \<and>
    length qs \<le> 300 \<and> list_all (stays os u repo) qs"
proof -
  obtain r c' where s: "origin_referrers os repo subject maxb u c = (r, c')" by force
  from referrers_pages_asks [OF s [unfolded origin_referrers_def]] show ?thesis
    unfolding s by (auto simp: maxReferrersPages_def list_all_iff)
qed

section \<open>Witnesses\<close>

lemma sample_tries:
  "upstream_getManifest sample_digest_ops (sample_outside d) ''acme/app'' ''sha256:blob'' 100 (sample_origin 0 ''a'') sample_kept =
     (Inl (Joined [UpstreamUnreachable, ErrUnexpectedEOF]), sample_kept)"
  "upstream_getManifest sample_digest_ops (sample_outside d) ''acme/app'' ''sha256:blob'' 100 (sample_origin 2 ''b'') sample_kept =
     (Inr (''blob!'', '''', ''sha256:blob''), sample_kept)"
  unfolding upstream_getManifest_def
  by (simp_all add: sample_request_kept sample_do_def sample_answer_def upstreamReadError_def ErrUnexpectedEOF_def EOF_def
      manifest_digest_def sample_digest_ops_def contains_def hget_def)

lemma sample_retries: "retryUpstream (sample_outside d) n (Joined [UpstreamUnreachable, ErrUnexpectedEOF])"
  by (simp add: retryUpstream_def ErrUnexpectedEOF_def)

lemma sample_tried:
  "tryUpstreams (sample_outside d) sample_group (upstream_getManifest sample_digest_ops (sample_outside d) ''acme/app'' ''sha256:blob'' 100) sample_kept =
     (Inr (''blob!'', '''', ''sha256:blob''), sample_kept)"
  by (simp add: tryUpstreams_def origins_def sample_group_def sample_tries sample_retries)

lemma sample_got:
  "upstream_GetManifest sample_digest_ops (sample_outside ''sha256:blob'') sample_group ''acme/app'' ''latest'' 100 sample_kept =
     (Inr (''blob!'', '''', ''sha256:blob''), sample_kept)"
proof -
  have "headManifest sample_digest_ops (sample_outside ''sha256:blob'') ''acme/app'' ''latest'' (sample_origin 0 ''a'') sample_kept =
      (Inr ''sha256:blob'', sample_kept)"
    unfolding headManifest_def
    by (simp add: sample_request_kept sample_do_def sample_answer_def sample_digest_ops_def hget_def)
  then have "upstream_HeadManifest sample_digest_ops (sample_outside ''sha256:blob'') sample_group ''acme/app'' ''latest'' sample_kept =
      (Inr ''sha256:blob'', sample_kept)"
    by (simp add: upstream_HeadManifest_def tryUpstreams_def origins_def sample_group_def)
  then show ?thesis
    unfolding upstream_GetManifest_def by (simp add: sample_tried) (simp add: sample_group_def contains_def)
qed

lemma sample_digests: "digests_have_colons sample_digest_ops"
  unfolding digests_have_colons_def
proof (intro allI impI)
  fix s
  assume "dg_validates sample_digest_ops s"
  then have "CHR '':'' \<in> set s" by (cases "CHR '':'' \<in> set s") (auto simp: sample_digest_ops_def cut_not_found)
  then show "contains s '':''" by (simp add: contains_char)
qed

lemma first_origin_that_can_answers_witness:
  "\<exists>pre u post es c1. origins sample_group = pre @ u # post \<and>
     failed_over (sample_outside ''sha256:blob'')
       (upstream_getManifest sample_digest_ops (sample_outside ''sha256:blob'') ''acme/app'' ''sha256:blob'' 100) pre sample_kept = Some (es, c1) \<and>
     upstream_getManifest sample_digest_ops (sample_outside ''sha256:blob'') ''acme/app'' ''sha256:blob'' 100 u c1 =
       (Inr (''blob!'', '''', ''sha256:blob''), sample_kept)"
proof -
  have "us_fallbacks sample_group \<noteq> []" by (simp add: sample_group_def)
  from first_origin_that_can_answers [OF sample_tried [of "''sha256:blob''"] this] show ?thesis by simp
qed

lemma manifest_is_the_one_asked_for_witness:
  "''sha256:blob'' = dg_from_bytes sample_digest_ops (dg_algorithm sample_digest_ops ''sha256:blob'') ''blob!'' \<and>
   (\<exists>c1. upstream_HeadManifest sample_digest_ops (sample_outside ''sha256:blob'') sample_group ''acme/app'' ''latest'' sample_kept =
      (Inr ''sha256:blob'', c1))"
proof -
  have "us_fallbacks sample_group \<noteq> []" "\<not> contains ''latest'' '':''" by (simp_all add: sample_group_def contains_def)
  with manifest_is_the_one_asked_for [OF sample_got sample_digests] show ?thesis by auto
qed

end
