(* ===== verification/Upstream_Cache.thy ===== *)
theory Upstream_Cache
  imports Upstream_Reads Registry_Trust
begin

text \<open>
  The client where the registry uses it: a pull-through cache whose upstream is a group of origins
  keeps what it asked for; and a registry of this program as the upstream of another, whose
  challenge the client reads as it was meant.
\<close>

section \<open>An upstream in a cache\<close>

text \<open>The state of the store beside the client's.\<close>

definition on_client :: "('n client, 'r) op \<Rightarrow> ('s \<times> 'n client, 'r) op" where
  "on_client h f = (case h (snd f) of (r, c) \<Rightarrow> (r, (fst f, c)))"

definition on_store :: "('s, 'r) op \<Rightarrow> ('s \<times> 'c, 'r) op" where
  "on_store h f = (case h (fst f) of (r, s) \<Rightarrow> (r, (s, snd f)))"

definition store_beside :: "'s store_ops \<Rightarrow> ('s \<times> 'c) store_ops" where
  "store_beside fl =
     \<lparr>fl_stat = (\<lambda>repo d. on_store (fl_stat fl repo d)),
      fl_size = (\<lambda>repo d. on_store (fl_size fl repo d)),
      fl_added = (\<lambda>repo d. on_store (fl_added fl repo d)),
      fl_open = (\<lambda>repo d. on_store (fl_open fl repo d)),
      fl_add = (\<lambda>repo d n b. on_store (fl_add fl repo d n b)),
      fl_erase = (\<lambda>repo d. on_store (fl_erase fl repo d)),
      fl_walker = fl_walker fl,
      fl_walk = (\<lambda>repo. on_store (fl_walk fl repo)),
      fl_linker = fl_linker fl,
      fl_link = (\<lambda>repo d other. on_store (fl_link fl repo d other)),
      fl_presigner = fl_presigner fl,
      fl_presign = (\<lambda>repo d ttl. on_store (fl_presign fl repo d ttl)),
      fl_stager = fl_stager fl,
      fl_begin = (\<lambda>repo algo. on_store (fl_begin fl repo algo)),
      fl_resume = (\<lambda>repo i. on_store (fl_resume fl repo i)),
      fl_stage_stat = (\<lambda>repo i. on_store (fl_stage_stat fl repo i)),
      fl_append = (\<lambda>repo i n b. on_store (fl_append fl repo i n b)),
      fl_commit = (\<lambda>repo i d. on_store (fl_commit fl repo i d)),
      fl_abort = (\<lambda>repo i. on_store (fl_abort fl repo i)),
      fl_pruner = fl_pruner fl, fl_prune = (\<lambda>f. case fl_prune fl (fst f) of (r, s) \<Rightarrow> (r, (s, snd f))),
      fl_namespacer = fl_namespacer fl, fl_namespaces = on_store (fl_namespaces fl)\<rparr>"

lemma on_store_sel: "on_store h f = (r, f') \<Longrightarrow> h (fst f) = (r, fst f')"
  by (auto simp: on_store_def split: prod.splits)

lemma on_store_grows: "store_grows has h \<Longrightarrow> store_grows (\<lambda>f. has (fst f)) (on_store h)"
  by (fastforce simp: store_grows_def grows_def on_store_def split: prod.splits)

lemma store_beside_law:
  assumes "store_law fl has"
  shows "store_law (store_beside fl) (\<lambda>f. has (fst f))"
proof -
  have "add_ok (store_beside fl) (\<lambda>f. has (fst f))"
    using assms unfolding store_law_def add_ok_def store_beside_def
    by (auto simp: on_store_def split: prod.splits)
  moreover have "erase_ok (store_beside fl) (\<lambda>f. has (fst f))"
    using assms unfolding store_law_def erase_ok_def store_beside_def
    by (auto simp: on_store_def split: prod.splits)
  moreover have "stat_ok (store_beside fl) (\<lambda>f. has (fst f))"
    using assms unfolding store_law_def stat_ok_def store_reads_def
    by (auto simp: store_beside_def dest!: on_store_sel)
  ultimately show ?thesis using assms unfolding store_law_def by (simp add: store_beside_def on_store_grows)
qed

text \<open>The fields of a proxy that are its upstream's.\<close>

definition with_upstream :: "digest_ops \<Rightarrow> 'n outside \<Rightarrow> 'n upstream \<Rightarrow> ('s \<times> 'n client) proxy \<Rightarrow> ('s \<times> 'n client) proxy" where
  "with_upstream D os U p =
     p\<lparr>px_Upstream := os_url os (og_base (us_origin U)), px_Host := u_Host (og_base (us_origin U)),
       px_Head := (\<lambda>repo t. on_client (upstream_HeadManifest D os U repo t)),
       px_Get := (\<lambda>repo reference maxb. on_client (upstream_GetManifest D os U repo reference maxb)),
       px_Referrers := (\<lambda>repo d maxb. on_client (upstream_Referrers os U repo d maxb))\<rparr>"

lemma with_upstream_Registry: "Upstream_Registry (with_upstream D os U p) = origin_Registry (us_origin U)"
  by (simp add: Upstream_Registry_def origin_Registry_def with_upstream_def)

section \<open>What a cache relies on\<close>

text \<open>What package \<open>go-digest\<close> makes of bytes is an algorithm, a colon and the rest.\<close>

definition digest_law :: "digest_ops \<Rightarrow> bool" where
  "digest_law D = (digests_have_colons D \<and> (\<forall>a b. contains (dg_from_bytes D a b) '':''))"

locale manifest_source =
  fixes D :: digest_ops
    and get :: "string \<Rightarrow> string \<Rightarrow> int \<Rightarrow> ('f, string \<times> string \<times> digest) op"
  assumes got: "digest_law D \<Longrightarrow> get repo reference maxb f = (Inr (b, mt, d), f') \<Longrightarrow>
    int (length b) \<le> maxb \<and> (\<exists>a. d = dg_from_bytes D a b) \<and> (contains reference '':'' \<longrightarrow> d = reference)"
begin

lemma got_digest:
  assumes "digest_law D" "get repo reference maxb f = (Inr (b, mt, d), f')"
  shows "d \<noteq> ''''"
proof -
  obtain a where "d = dg_from_bytes D a b" using got [OF assms] by blast
  with assms(1) have "contains d '':''" by (simp add: digest_law_def)
  then show ?thesis by (auto simp: contains_iff)
qed

text \<open>What a fetch keeps is what was asked for, under the digest its bytes have.\<close>

lemma fetch_keeps_what_was_asked:
  fixes g :: "(view, 'f) registry"
  assumes "digest_law D" "rg_ix g = mem_ops" "mem_good (w_ix w)" "\<not> mem_intx (w_ix w)"
    and "px_Get p = get" "fetch g now p name remote reference t w = (Inr u, w')"
  shows "\<exists>b a d. d = dg_from_bytes D a b \<and> int (length b) \<le> rg_MaxManifestSize g \<and> (contains reference '':'' \<longrightarrow> d = reference) \<and>
    (\<exists>mt f f'. get remote reference (rg_MaxManifestSize g) f = (Inr (b, mt, d), f')) \<and>
    indexed (mem_seen (w_ix w')) name d \<and>
    (t \<noteq> '''' \<longrightarrow> (\<exists>tg. ro_tags (mem_seen (w_ix w')) name t = Some tg \<and> tg_Digest tg = d))"
proof -
  have dg: "\<forall>f b mt d f'. px_Get p remote reference (rg_MaxManifestSize g) f = (Inr (b, mt, d), f') \<longrightarrow> d \<noteq> ''''"
    using got_digest [OF assms(1)] unfolding assms(5) by blast
  from mem.fetch_brings [OF assms(2-4,6) dg] obtain b mt d w1 where
    o': "on_fl (get remote reference (rg_MaxManifestSize g)) w = (Inr (b, mt, d), w1)" and
    i: "indexed (mem_seen (w_ix w')) name d" "t \<noteq> '''' \<longrightarrow> (\<exists>tg. ro_tags (mem_seen (w_ix w')) name t = Some tg \<and> tg_Digest tg = d)"
    unfolding assms(5) by blast
  obtain f' where f: "get remote reference (rg_MaxManifestSize g) (w_fl w) = (Inr (b, mt, d), f')"
    using o' by (rule on_fl_cases)
  from got [OF assms(1) f] f i show ?thesis by blast
qed

end

interpretation upstream_manifests: manifest_source D "\<lambda>repo reference maxb. on_client (upstream_GetManifest D os U repo reference maxb)"
  for D os U
proof
  fix repo reference :: string and maxb :: int and f f' and b mt :: string and d :: digest
  assume law: "digest_law D" and "on_client (upstream_GetManifest D os U repo reference maxb) f = (Inr (b, mt, d), f')"
  then have "upstream_GetManifest D os U repo reference maxb (snd f) = (Inr (b, mt, d), snd f')"
    by (auto simp: on_client_def split: prod.splits)
  from GetManifest_value [OF this] law
  show "int (length b) \<le> maxb \<and> (\<exists>a. d = dg_from_bytes D a b) \<and> (contains reference '':'' \<longrightarrow> d = reference)"
    by (auto simp: digest_law_def split: if_splits)
qed

text \<open>
  C12: a cache keeps what it asked its upstreams for.  When a fetch from a group of origins went
  well, the manifest in the index is one that \<open>GetManifest\<close> answered, no larger than the
  registry's limit, under the digest its bytes hash to -- the very digest that was asked for, when
  one was -- and a tag that was asked for points at it.
\<close>

theorem cache_keeps_what_it_asked_for:
  assumes "digest_law (rg_D g)" and "rg_ix g = mem_ops" and "mem_good (w_ix w)" and "\<not> mem_intx (w_ix w)"
    and "fetch g now (with_upstream (rg_D g) os U p) name remote reference t w = (Inr u, w')"
  shows "\<exists>b a d. d = dg_from_bytes (rg_D g) a b \<and> int (length b) \<le> rg_MaxManifestSize g \<and> (contains reference '':'' \<longrightarrow> d = reference) \<and>
    (\<exists>mt c c'. upstream_GetManifest (rg_D g) os U remote reference (rg_MaxManifestSize g) c = (Inr (b, mt, d), c')) \<and>
    indexed (mem_seen (w_ix w')) name d \<and>
    (t \<noteq> '''' \<longrightarrow> (\<exists>tg. ro_tags (mem_seen (w_ix w')) name t = Some tg \<and> tg_Digest tg = d))"
proof -
  let ?p = "with_upstream (rg_D g) os U p"
  have p: "px_Get ?p = (\<lambda>repo reference maxb. on_client (upstream_GetManifest (rg_D g) os U repo reference maxb))"
    by (simp add: with_upstream_def)
  have src: "manifest_source (rg_D g) (px_Get ?p)" unfolding p by (rule upstream_manifests.manifest_source_axioms)
  from manifest_source.fetch_keeps_what_was_asked [OF src assms(1-4) refl assms(5)] obtain b a d mt f f' where
    d: "d = dg_from_bytes (rg_D g) a b" "int (length b) \<le> rg_MaxManifestSize g" "contains reference '':'' \<longrightarrow> d = reference"
      "indexed (mem_seen (w_ix w')) name d" "t \<noteq> '''' \<longrightarrow> (\<exists>tg. ro_tags (mem_seen (w_ix w')) name t = Some tg \<and> tg_Digest tg = d)"
    and f: "px_Get ?p remote reference (rg_MaxManifestSize g) f = (Inr (b, mt, d), f')"
    by (elim exE conjE) (rule that)
  obtain c c' where c: "upstream_GetManifest (rg_D g) os U remote reference (rg_MaxManifestSize g) c = (Inr (b, mt, d), c')"
    using f unfolding p on_client_def by (auto split: prod.splits)
  show ?thesis
    by (rule exI [of _ b], rule exI [of _ a], rule exI [of _ d]) (intro conjI d exI [of _ mt] exI [of _ c] exI [of _ c'] c)
qed

definition sample_mirror :: "(view, sample_blobs \<times> unit client) registry" where
  "sample_mirror = \<lparr>rg_ix = mem_ops, rg_fl = store_beside sample_store, rg_D = sample_digest_ops,
     rg_J = sample_decoders\<lparr>dec_json := (\<lambda>b. if b = ''blob!'' then Some sample_raw else None)\<rparr>,
     rg_MaxManifestSize = 100, rg_ChunkMinLength = 0, rg_DisableWellKnown = False, rg_Guard = None,
     rg_Redirect = False, rg_RedirectTTL = 0, rg_Proxies = [],
     rg_ServeContent = (\<lambda>h r b. (reply h 200)\<lparr>rs_body := Bytes b\<rparr>), rg_EncodeIndex = (\<lambda>ds. ''index''),
     rg_ErrorText = (\<lambda>e. ''error'')\<rparr>"

definition sample_mirror_world :: "(view, sample_blobs \<times> unit client) world" where
  "sample_mirror_world = \<lparr>w_ix = w_ix sample_world, w_fl = (w_fl sample_world, sample_kept), w_ctx = []\<rparr>"

lemma sample_mirror_fetch:
  "\<exists>w'. fetch sample_mirror (200 * Second) (with_upstream sample_digest_ops (sample_outside ''sha256:blob'') sample_group p)
     ''hub/app'' ''acme/app'' ''latest'' ''latest'' sample_mirror_world = (Inr (), w')"
proof -
  let ?p = "with_upstream sample_digest_ops (sample_outside ''sha256:blob'') sample_group p"
  let ?w = sample_mirror_world
  let ?J = "rg_J sample_mirror"
  have g: "on_fl (px_Get ?p ''acme/app'' ''latest'' (rg_MaxManifestSize sample_mirror)) ?w = (Inr (''blob!'', '''', ''sha256:blob''), ?w)"
    by (simp add: on_fl_def with_upstream_def on_client_def sample_mirror_def sample_mirror_world_def sample_got)
  have m: "ParseManifest (rg_D sample_mirror) ?J '''' ''blob!'' = Inr sample_manifest" by code_simp
  let ?w1 = "?w\<lparr>w_fl := (AList.update (''hub/app'', ''sha256:blob'') ''blob!'' (w_fl sample_world), sample_kept)\<rparr>"
  have n: "sample_has (w_fl sample_world) ''hub/app'' ''sha256:blob'' = None" by code_simp
  have a: "on_fl (fl_add (rg_fl sample_mirror) ''hub/app'' ''sha256:blob'' (int (length ''blob!'')) ''blob!'') ?w = (Inr (), ?w1)"
    using n by (simp add: on_fl_def sample_mirror_def sample_mirror_world_def store_beside_def on_store_def sample_store_def)
  have x: "w_ix ?w1 = w_ix sample_world" by (simp add: sample_mirror_world_def)
  have t: "fst (ix_tx mem_ops ''hub/app'' (fetch_body mem_ops ''hub/app'' (record_of sample_manifest ''sha256:blob'' ''blob!'' (200 * Second))
      (Holds sample_manifest) ''latest'') (w_ix sample_world)) = Inr ()" by code_simp
  have ix: "rg_ix sample_mirror = mem_ops" by (simp add: sample_mirror_def)
  from t obtain x2 where tx: "ix_tx mem_ops ''hub/app'' (fetch_body mem_ops ''hub/app''
      (record_of sample_manifest ''sha256:blob'' ''blob!'' (200 * Second)) (Holds sample_manifest) ''latest'') (w_ix sample_world) = (Inr (), x2)"
    by (metis prod.exhaust_sel)
  have o': "on_ix (ix_tx mem_ops ''hub/app'' (fetch_body mem_ops ''hub/app''
      (record_of sample_manifest ''sha256:blob'' ''blob!'' (200 * Second)) (Holds sample_manifest) ''latest'')) ?w1 = (Inr (), ?w1\<lparr>w_ix := x2\<rparr>)"
    unfolding on_ix_def x tx by simp
  have "fst (fetch sample_mirror (200 * Second) ?p ''hub/app'' ''acme/app'' ''latest'' ''latest'' ?w) = Inr ()"
    unfolding fetch_def g sum.case prod.case m a ix o' fst_conv ..
  then show ?thesis by (metis prod.collapse)
qed

lemma cache_keeps_what_it_asked_for_witness:
  "\<exists>(w' :: (view, sample_blobs \<times> unit client) world) b d. indexed (mem_seen (w_ix w')) ''hub/app'' d \<and> (\<exists>a. d = dg_from_bytes sample_digest_ops a b) \<and>
     (\<exists>mt c c'. upstream_GetManifest sample_digest_ops (sample_outside ''sha256:blob'') sample_group ''acme/app'' ''latest'' 100 c =
        (Inr (b, mt, d), c'))"
proof -
  have law: "digest_law (rg_D sample_mirror)"
    using sample_digests by (simp add: sample_mirror_def digest_law_def contains_char sample_digest_ops_def)
  have g: "rg_ix sample_mirror = mem_ops" "rg_D sample_mirror = sample_digest_ops" "rg_MaxManifestSize sample_mirror = 100"
    by (simp_all add: sample_mirror_def)
  have w: "mem_good (w_ix sample_mirror_world)" "\<not> mem_intx (w_ix sample_mirror_world)"
    using sample_calm by (simp_all add: calm_def sample_mirror_world_def)
  from sample_mirror_fetch obtain w' where f: "fetch sample_mirror (200 * Second)
      (with_upstream (rg_D sample_mirror) (sample_outside ''sha256:blob'') sample_group undefined)
      ''hub/app'' ''acme/app'' ''latest'' ''latest'' sample_mirror_world = (Inr (), w')"
    unfolding g by metis
  from cache_keeps_what_it_asked_for [OF law g(1) w f] show ?thesis
    unfolding g by (elim exE conjE) (intro exI conjI; assumption)
qed

section \<open>Reading a challenge\<close>

text \<open>A text that can be quoted in a challenge as it is.\<close>

definition quotable :: "string \<Rightarrow> bool" where
  "quotable s = (CHR 0x22 \<notin> set s \<and> trim_space s = s)"

lemma not_is_space: "\<not> is_space (CHR 0x22)" "\<not> is_space (CHR '','')" "\<not> is_space (CHR ''B'')"
    "\<not> is_space (CHR ''r'')" "\<not> is_space (CHR ''s'')" "\<not> is_space (CHR ''e'')"
  by (simp_all add: is_space_def)

lemma challenge_value_quoted:
  assumes "CHR 0x22 \<notin> set v"
  shows "challenge_value (quoted v @ r) = (v, r)"
  using assms by (simp add: challenge_value_def quoted_def index_byte_append)

lemma challenge_params_step:
  assumes "quotable v" and "CHR ''='' \<notin> set k" and "to_lower (trim_space k) = k"
  shows "challenge_params (k @ ''='' @ quoted v @ r) ps = challenge_params (trim_commas (trim_space r)) (AList.update k v ps)"
proof -
  have "cut (CHR ''='') (k @ CHR ''='' # quoted v @ r) = (k, quoted v @ r, True)" by (rule cut_found [OF assms(2)])
  with assms show ?thesis
    by (subst challenge_params.simps) (simp add: challenge_value_quoted quotable_def)
qed

text \<open>Parameters, each a name and its value in quotes, with commas between.\<close>

definition params_text :: "(string \<times> string) list \<Rightarrow> string" where
  "params_text kvs = join_with '','' (map (\<lambda>(k, v). k @ ''='' @ quoted v) kvs)"

definition param_ok :: "string \<times> string \<Rightarrow> bool" where
  "param_ok kv =
     (case kv of (k, v) \<Rightarrow> quotable v \<and> CHR ''='' \<notin> set k \<and> to_lower (trim_space k) = k \<and> k \<noteq> '''' \<and>
        hd k \<noteq> CHR '','' \<and> \<not> is_space (hd k))"

lemma params_text_ends:
  assumes "kvs \<noteq> []" "list_all param_ok kvs"
  shows "params_text kvs \<noteq> [] \<and> hd (params_text kvs) = hd (fst (hd kvs)) \<and> last (params_text kvs) = CHR 0x22"
  using assms
proof (induction kvs)
  case (Cons kv kvs)
  then show ?case
    by (cases kvs) (auto simp: params_text_def quoted_def param_ok_def)
qed simp

lemma trim_params:
  assumes "kvs \<noteq> []" "list_all param_ok kvs"
  shows "trim_commas (trim_space ('','' @ params_text kvs)) = params_text kvs" "trim_space (params_text kvs) = params_text kvs"
proof -
  note ends = params_text_ends [OF assms]
  have h: "hd (fst (hd kvs)) \<noteq> CHR '',''" "\<not> is_space (hd (fst (hd kvs)))"
    using assms by (cases kvs; auto simp: param_ok_def)+
  have "trim_space ('','' @ params_text kvs) = '','' @ params_text kvs"
    by (rule trim_space_id) (use ends in \<open>simp add: not_is_space\<close>)
  with ends h show "trim_commas (trim_space ('','' @ params_text kvs)) = params_text kvs"
    by (cases "params_text kvs") (simp_all add: trim_commas_def)
  show "trim_space (params_text kvs) = params_text kvs"
    by (rule trim_space_id) (use ends h in \<open>simp add: not_is_space\<close>)
qed

lemma challenge_params_text:
  "list_all param_ok kvs \<Longrightarrow> challenge_params (params_text kvs) ps = fold (\<lambda>(k, v). AList.update k v) kvs ps"
proof (induction kvs arbitrary: ps)
  case Nil
  then show ?case by (simp add: params_text_def challenge_params.simps)
next
  case (Cons kv kvs)
  obtain k v where kv: "kv = (k, v)" by force
  have k: "quotable v" "CHR ''='' \<notin> set k" "to_lower (trim_space k) = k" using Cons.prems by (auto simp: kv param_ok_def)
  show ?case
  proof (cases "kvs = []")
    case True
    have e: "trim_commas (trim_space '''') = ''''" by (simp add: trim_commas_def trim_space_def)
    show ?thesis
      using challenge_params_step [OF k, of "''''" ps] True
      by (simp add: kv params_text_def e challenge_params.simps [of "''''"])
  next
    case False
    then have "params_text (kv # kvs) = k @ ''='' @ quoted v @ '','' @ params_text kvs"
      by (cases kvs) (auto simp: params_text_def kv)
    moreover have "trim_commas (trim_space ('','' @ params_text kvs)) = params_text kvs"
      using trim_params(1) [OF False] Cons.prems by simp
    ultimately have "challenge_params (params_text (kv # kvs)) ps = challenge_params (params_text kvs) (AList.update k v ps)"
      using challenge_params_step [OF k, of "'','' @ params_text kvs" ps] by simp
    then show ?thesis using Cons kv by simp
  qed
qed

lemma parseChallenge_text:
  assumes "kvs \<noteq> []" "list_all param_ok kvs"
  shows "parseChallenge (''Bearer '' @ params_text kvs) = (''Bearer'', fold (\<lambda>(k, v). AList.update k v) kvs [])"
proof -
  note ends = params_text_ends [OF assms]
  have t: "trim_space (''Bearer '' @ params_text kvs) = ''Bearer '' @ params_text kvs"
    by (rule trim_space_id) (use ends in \<open>simp add: not_is_space\<close>)
  have "cut (CHR '' '') (''Bearer'' @ CHR '' '' # params_text kvs) = (''Bearer'', params_text kvs, True)"
    by (rule cut_found) simp
  then show ?thesis
    unfolding parseChallenge_def t using trim_params(2) [OF assms] challenge_params_text [OF assms(2), of "[]"] by simp
qed

lemma param_ok_names:
  "quotable v \<Longrightarrow> param_ok (''realm'', v)" "quotable v \<Longrightarrow> param_ok (''service'', v)"
  "quotable v \<Longrightarrow> param_ok (''scope'', v)" "quotable v \<Longrightarrow> param_ok (''error'', v)"
proof -
  have "to_lower (trim_space ''realm'') = ''realm''" "to_lower (trim_space ''service'') = ''service''"
    "to_lower (trim_space ''scope'') = ''scope''" "to_lower (trim_space ''error'') = ''error''"
    by code_simp+
  then show "quotable v \<Longrightarrow> param_ok (''realm'', v)" "quotable v \<Longrightarrow> param_ok (''service'', v)"
    "quotable v \<Longrightarrow> param_ok (''scope'', v)" "quotable v \<Longrightarrow> param_ok (''error'', v)"
    by (simp_all add: param_ok_def not_is_space)
qed

text \<open>
  C25: the challenge of one registry is read by another as it was meant.  What a guard writes in
  \<open>WWW-Authenticate\<close>, the client of an upstream parses back to the scheme, the realm, the service
  and the scopes it was made of, when their texts can be quoted: they hold no quote and do not
  begin or end with a space.
\<close>

theorem challenge_is_read_as_meant:
  assumes "quotable (realm g r)" and "quotable (is_service (gd_Issuer g))" and "quotable (scopes_text ss)"
  shows "\<exists>ps. parseChallenge (hget (err_header (Challenge g r ss insufficient)) ''WWW-Authenticate'') = (''Bearer'', ps) \<and>
    param ps ''realm'' = realm g r \<and> param ps ''service'' = is_service (gd_Issuer g) \<and>
    param ps ''scope'' = (if ss = [] then '''' else scopes_text ss)"
proof -
  let ?kvs = "[(''realm'', realm g r), (''service'', is_service (gd_Issuer g))] @
    (if ss \<noteq> [] then [(''scope'', scopes_text ss)] else []) @ (if insufficient then [(''error'', ''insufficient_scope'')] else [])"
  have "quotable ''insufficient_scope''" by code_simp
  with assms have ok: "list_all param_ok ?kvs" by (simp add: param_ok_names)
  have "hget (err_header (Challenge g r ss insufficient)) ''WWW-Authenticate'' = ''Bearer '' @ params_text ?kvs"
    by (simp add: Challenge_def Let_def WithHeader_def hget_def params_text_def)
  with parseChallenge_text [OF _ ok] show ?thesis by (simp add: param_def)
qed

lemma challenge_is_read_as_meant_witness:
  "\<exists>ps. parseChallenge (hget (err_header (Challenge (sample_guard\<lparr>gd_Realm := ''https://cr/token''\<rparr>) sample_request
      [sample_scope] False)) ''WWW-Authenticate'') = (''Bearer'', ps) \<and>
    param ps ''realm'' = ''https://cr/token'' \<and> param ps ''scope'' = scopes_text [sample_scope]"
proof -
  have r: "realm (sample_guard\<lparr>gd_Realm := ''https://cr/token''\<rparr>) sample_request = ''https://cr/token''" by (simp add: realm_def)
  have q: "quotable (realm (sample_guard\<lparr>gd_Realm := ''https://cr/token''\<rparr>) sample_request)"
    "quotable (is_service (gd_Issuer (sample_guard\<lparr>gd_Realm := ''https://cr/token''\<rparr>)))" "quotable (scopes_text [sample_scope])"
    unfolding r by code_simp+
  from challenge_is_read_as_meant [OF q, of False] show ?thesis by (simp add: r) blast
qed

end
