(* ===== verification/Spec2Isabelle.thy ===== *)
theory Spec2Isabelle
  imports Oci_Name Oci_Manifest Auth_Decisions Mem_Claims Gc_Full Gc_Runs
    Auth_Providers Registry_Access Registry_Join Registry_Trust Registry_Admin Index_Rebuild Export_Import Upstream_Blob Upstream_Cache
begin

text \<open>
  A container registry in Go.
\<close>

end
